(* ===== verification/Prelude.thy ===== *)
theory Prelude
  imports Main "HOL-Library.Sublist" "HOL-Library.AList" "HOL-Library.Char_ord"
    "HOL-Library.List_Lexorder" "HOL-Library.Product_Lexorder" "HOL-Library.Multiset"
begin

text \<open>
  Shared vocabulary of the development: results (a thrown error or a value), the string
  operations of JavaScript the modelled files use, first-seen-order deduplication, and
  decimal numerals.

  A string of the program is a list of characters (HOL's type \<open>string\<close>), that is, a
  sequence of code units below 256; the theories on canonical JSON, where code units above
  255 matter, use 16-bit words instead and share the polymorphic list operations below.
  A JavaScript \<open>Map\<close> keeps insertion order and overwrites in place, which is what
  \<open>AList.update\<close> does on association lists, so maps of the program are association lists
  read by \<open>map_of\<close>.
\<close>

section \<open>Fact collections\<close>

named_theorems result_iff \<open>when a composed result is a value or an error\<close>
named_theorems js_string \<open>characterisations of the string operations\<close>

section \<open>Results\<close>

type_synonym ('e, 'a) result = "'e + 'a"

fun bindR :: "'e + 'a \<Rightarrow> ('a \<Rightarrow> 'e + 'b) \<Rightarrow> 'e + 'b" where
  "bindR (Inl e) f = Inl e"
| "bindR (Inr x) f = f x"

text \<open>\<open>if (c) throw e;\<close>\<close>

definition throw_if :: "bool \<Rightarrow> 'e \<Rightarrow> 'e + unit" where
  "throw_if c e = (if c then Inl e else Inr ())"

text \<open>\<open>try { m } catch { throw e }\<close>\<close>

fun or_throw :: "'d + 'a \<Rightarrow> 'e \<Rightarrow> 'e + 'a" where
  "or_throw (Inl _) e = Inl e"
| "or_throw (Inr x) e = Inr x"

text \<open>\<open>xs.map(f)\<close> and \<open>xs.forEach(f)\<close> for an \<open>f\<close> that may throw: left to right, the first
  error ends the loop.\<close>

fun mapR :: "('a \<Rightarrow> 'e + 'b) \<Rightarrow> 'a list \<Rightarrow> 'e + 'b list" where
  "mapR f [] = Inr []"
| "mapR f (x # xs) = bindR (f x) (\<lambda>y. bindR (mapR f xs) (\<lambda>ys. Inr (y # ys)))"

definition flatMapR :: "('a \<Rightarrow> 'e + 'b list) \<Rightarrow> 'a list \<Rightarrow> 'e + 'b list" where
  "flatMapR f xs = bindR (mapR f xs) (\<lambda>yss. Inr (concat yss))"

text \<open>\<open>xs.filter(f)\<close> for an \<open>f\<close> that may throw.\<close>

fun filterR :: "('a \<Rightarrow> 'e + bool) \<Rightarrow> 'a list \<Rightarrow> 'e + 'a list" where
  "filterR f [] = Inr []"
| "filterR f (x # xs) =
     bindR (f x) (\<lambda>b. bindR (filterR f xs) (\<lambda>ys. Inr (if b then x # ys else ys)))"

text \<open>\<open>every\<close> and \<open>some\<close> with a test that may throw: the first answer that decides ends the loop.\<close>

fun everyR :: "('a \<Rightarrow> 'e + bool) \<Rightarrow> 'a list \<Rightarrow> 'e + bool" where
  "everyR p [] = Inr True"
| "everyR p (x # xs) = bindR (p x) (\<lambda>b. if b then everyR p xs else Inr False)"

fun someR :: "('a \<Rightarrow> 'e + bool) \<Rightarrow> 'a list \<Rightarrow> 'e + bool" where
  "someR p [] = Inr False"
| "someR p (x # xs) = bindR (p x) (\<lambda>b. if b then Inr True else someR p xs)"

fun is_ok :: "'e + 'a \<Rightarrow> bool" where
  "is_ok (Inl _) = False"
| "is_ok (Inr _) = True"

lemma bindR_Inr_iff [result_iff]: "bindR m f = Inr y \<longleftrightarrow> (\<exists>x. m = Inr x \<and> f x = Inr y)"
  by (cases m) auto

lemma bindR_Inl_iff [result_iff]:
  "bindR m f = Inl e \<longleftrightarrow> m = Inl e \<or> (\<exists>x. m = Inr x \<and> f x = Inl e)"
  by (cases m) auto

lemma throw_if_Inr_iff [result_iff]: "throw_if c e = Inr u \<longleftrightarrow> \<not> c"
  by (simp add: throw_if_def)

lemma throw_if_Inl_iff [result_iff]: "throw_if c e = Inl e' \<longleftrightarrow> c \<and> e' = e"
  by (auto simp: throw_if_def)

lemma throw_if_simps [simp]:
  "throw_if True e = Inl e" "throw_if False e = Inr ()"
  by (simp_all add: throw_if_def)

lemma or_throw_Inr_iff [result_iff]: "or_throw m e = Inr x \<longleftrightarrow> m = Inr x"
  by (cases m) auto

lemma or_throw_Inl_iff [result_iff]: "or_throw m e = Inl e' \<longleftrightarrow> e' = e \<and> (\<exists>d. m = Inl d)"
  by (cases m) auto

lemma is_ok_iff: "is_ok m \<longleftrightarrow> (\<exists>x. m = Inr x)"
  by (cases m) auto

lemma mapR_Inr_iff: "mapR f xs = Inr ys \<longleftrightarrow> list_all2 (\<lambda>x y. f x = Inr y) xs ys"
proof (induction xs arbitrary: ys)
  case Nil
  then show ?case by auto
next
  case (Cons x xs)
  then show ?case by (cases ys) (auto simp: result_iff)
qed

lemma mapR_Inr_set: "mapR f xs = Inr ys \<Longrightarrow> x \<in> set xs \<Longrightarrow> \<exists>y \<in> set ys. f x = Inr y"
  by (auto simp: mapR_Inr_iff list_all2_conv_all_nth in_set_conv_nth)

lemma mapR_Inr_set': "mapR f xs = Inr ys \<Longrightarrow> y \<in> set ys \<Longrightarrow> \<exists>x \<in> set xs. f x = Inr y"
  by (induction xs arbitrary: ys) (auto simp: result_iff)

lemma mapR_Inl_set: "mapR f xs = Inl e \<Longrightarrow> \<exists>x \<in> set xs. f x = Inl e"
  by (induction xs) (auto simp: result_iff)

lemma mapR_ok_iff: "(\<exists>ys. mapR f xs = Inr ys) \<longleftrightarrow> (\<forall>x \<in> set xs. is_ok (f x))"
  by (induction xs) (auto simp: result_iff is_ok_iff)

lemma mapR_Inr_map: "(\<And>x. x \<in> set xs \<Longrightarrow> f x = Inr (g x)) \<Longrightarrow> mapR f xs = Inr (map g xs)"
  by (induction xs) auto

lemma flatMapR_Inr_set:
  assumes "flatMapR f xs = Inr zs"
  shows "set zs = (\<Union>x \<in> set xs. \<Union>ys \<in> {ys. f x = Inr ys}. set ys)"
  using assms
  by (fastforce simp: flatMapR_def result_iff dest: mapR_Inr_set mapR_Inr_set')

lemma flatMapR_InrD:
  assumes "flatMapR f xs = Inr zs" and "z \<in> set zs"
  obtains x ys where "x \<in> set xs" "f x = Inr ys" "z \<in> set ys"
  using assms by (auto simp: flatMapR_Inr_set [OF assms(1)])

lemma flatMapR_singletons: "(\<And>x. x \<in> set xs \<Longrightarrow> f x = Inr [x]) \<Longrightarrow> flatMapR f xs = Inr xs"
proof -
  assume "\<And>x. x \<in> set xs \<Longrightarrow> f x = Inr [x]"
  then have "mapR f xs = Inr (map (\<lambda>x. [x]) xs)" by (rule mapR_Inr_map)
  then show ?thesis by (simp add: flatMapR_def)
qed

lemma filterR_Inr_iff:
  "filterR f xs = Inr ys \<longleftrightarrow> (\<forall>x \<in> set xs. is_ok (f x)) \<and> ys = filter (\<lambda>x. f x = Inr True) xs"
proof (induction xs arbitrary: ys)
  case Nil
  then show ?case by auto
next
  case (Cons x xs)
  then show ?case by (cases "f x") (auto simp: result_iff)
qed

lemma filterR_Inl_set: "filterR f xs = Inl e \<Longrightarrow> \<exists>x \<in> set xs. f x = Inl e"
  by (induction xs) (auto simp: result_iff)

lemma everyR_Inr: "(\<And>x. x \<in> set xs \<Longrightarrow> p x = Inr (q x)) \<Longrightarrow> everyR p xs = Inr (list_all q xs)"
  by (induction xs) auto

lemma someR_Inr: "(\<And>x. x \<in> set xs \<Longrightarrow> p x = Inr (q x)) \<Longrightarrow> someR p xs = Inr (list_ex q xs)"
  by (induction xs) auto

lemma someR_Inr_True: "someR p xs = Inr True \<Longrightarrow> \<exists>x \<in> set xs. p x = Inr True"
  by (induction xs) (auto simp: bindR_Inr_iff split: if_split_asm)

lemma mapR_cong [fundef_cong]:
  "xs = ys \<Longrightarrow> (\<And>x. x \<in> set ys \<Longrightarrow> f x = g x) \<Longrightarrow> mapR f xs = mapR g ys"
  by (induction ys arbitrary: xs) auto

section \<open>String operations\<close>

text \<open>\<open>s.startsWith(p)\<close>, \<open>s.endsWith(p)\<close>, \<open>s.includes(c)\<close> for a character, \<open>s.includes(p)\<close>.\<close>

abbreviation (input) startsWith :: "'a list \<Rightarrow> 'a list \<Rightarrow> bool" where
  "startsWith s p \<equiv> prefix p s"

definition endsWith :: "'a list \<Rightarrow> 'a list \<Rightarrow> bool" where
  "endsWith s p \<longleftrightarrow> prefix (rev p) (rev s)"

abbreviation (input) hasChar :: "'a list \<Rightarrow> 'a \<Rightarrow> bool" where
  "hasChar s c \<equiv> c \<in> set s"

abbreviation (input) hasSub :: "'a list \<Rightarrow> 'a list \<Rightarrow> bool" where
  "hasSub s p \<equiv> sublist p s"

text \<open>\<open>s.slice(0, -n)\<close> for \<open>n > 0\<close> (a slice longer than the string is empty).\<close>

definition dropEnd :: "nat \<Rightarrow> 'a list \<Rightarrow> 'a list" where
  "dropEnd n s = take (length s - n) s"

lemma endsWith_iff [js_string]: "endsWith s p \<longleftrightarrow> (\<exists>r. s = r @ p)"
  by (metis endsWith_def suffix_to_prefix suffix_def)

lemma endsWith_append [simp]: "endsWith (r @ p) p"
  by (auto simp: endsWith_iff)

lemma dropEnd_append [simp]: "length p = n \<Longrightarrow> dropEnd n (r @ p) = r"
  by (simp add: dropEnd_def)

lemma startsWith_iff [js_string]: "startsWith s p \<longleftrightarrow> (\<exists>r. s = p @ r)"
  by (auto simp: prefix_def)

lemma startsWith_drop: "startsWith s p \<Longrightarrow> p @ drop (length p) s = s"
  by (auto simp: prefix_def)

lemma endsWith_last: "endsWith s [c] \<longleftrightarrow> s \<noteq> [] \<and> last s = c"
  by (cases s rule: rev_cases) (auto simp: endsWith_iff)

text \<open>Splitting at the first or the last occurrence of a character, what the code writes as
  \<open>indexOf\<close>/\<open>lastIndexOf\<close> followed by two slices. \<open>None\<close> is the index -1.\<close>

definition splitFirst :: "'a \<Rightarrow> 'a list \<Rightarrow> ('a list \<times> 'a list) option" where
  "splitFirst c s =
     (if c \<in> set s then Some (takeWhile (\<lambda>x. x \<noteq> c) s, tl (dropWhile (\<lambda>x. x \<noteq> c) s)) else None)"

definition splitLast :: "'a \<Rightarrow> 'a list \<Rightarrow> ('a list \<times> 'a list) option" where
  "splitLast c s =
     (case splitFirst c (rev s) of None \<Rightarrow> None | Some (b, a) \<Rightarrow> Some (rev a, rev b))"

lemma splitFirst_Some_iff: "splitFirst c s = Some (a, b) \<longleftrightarrow> s = a @ c # b \<and> c \<notin> set a"
proof
  assume h: "splitFirst c s = Some (a, b)"
  then have "c \<in> set s" and a: "a = takeWhile (\<lambda>x. x \<noteq> c) s"
    and b: "b = tl (dropWhile (\<lambda>x. x \<noteq> c) s)"
    by (auto simp: splitFirst_def split: if_splits)
  then have "dropWhile (\<lambda>x. x \<noteq> c) s \<noteq> []" "hd (dropWhile (\<lambda>x. x \<noteq> c) s) = c"
    using hd_dropWhile [of "\<lambda>x. x \<noteq> c" s] by (auto simp: dropWhile_eq_Nil_conv)
  then have "dropWhile (\<lambda>x. x \<noteq> c) s = c # b"
    using b by (metis list.collapse)
  then have "s = a @ c # b"
    using a by (metis takeWhile_dropWhile_id)
  moreover have "c \<notin> set a"
    using a by (auto dest: set_takeWhileD)
  ultimately show "s = a @ c # b \<and> c \<notin> set a" ..
next
  assume h: "s = a @ c # b \<and> c \<notin> set a"
  then have "takeWhile (\<lambda>x. x \<noteq> c) s = a" "dropWhile (\<lambda>x. x \<noteq> c) s = c # b"
    by (auto simp: takeWhile_append2 dropWhile_append3 takeWhile_tail
        dropWhile_append2 intro: takeWhile_append2)
  then show "splitFirst c s = Some (a, b)"
    using h by (simp add: splitFirst_def)
qed

lemma splitFirst_None_iff: "splitFirst c s = None \<longleftrightarrow> c \<notin> set s"
  by (auto simp: splitFirst_def)

lemma splitLast_Some_iff: "splitLast c s = Some (a, b) \<longleftrightarrow> s = a @ c # b \<and> c \<notin> set b"
proof -
  have "splitLast c s = Some (a, b) \<longleftrightarrow> splitFirst c (rev s) = Some (rev b, rev a)"
    by (force simp: splitLast_def split: option.splits)
  also have "\<dots> \<longleftrightarrow> rev s = rev b @ c # rev a \<and> c \<notin> set b"
    by (simp add: splitFirst_Some_iff)
  also have "rev s = rev b @ c # rev a \<longleftrightarrow> s = a @ c # b"
    by (metis append.assoc append_Cons append_Nil rev.simps(2) rev_append rev_rev_ident)
  finally show ?thesis .
qed

lemma splitLast_None_iff: "splitLast c s = None \<longleftrightarrow> c \<notin> set s"
  using splitFirst_None_iff [of c "rev s"] by (auto simp: splitLast_def split: option.splits)

lemma last_sep_inject:
  "a @ c # b = a' @ c # b' \<Longrightarrow> c \<notin> set b \<Longrightarrow> c \<notin> set b' \<Longrightarrow> a = a' \<and> b = b'"
  by (metis option.inject prod.inject splitLast_Some_iff)

lemma strict_prefix_snoc [simp]: "strict_prefix xs (ys @ [y]) \<longleftrightarrow> prefix xs ys"
  by (auto simp: strict_prefix_def dest: prefix_length_le)

text \<open>\<open>s.split(c)\<close> for a one-character separator, and \<open>parts.join(c)\<close>.\<close>

fun splitOn :: "'a \<Rightarrow> 'a list \<Rightarrow> 'a list list" where
  "splitOn c [] = [[]]"
| "splitOn c (x # xs) =
     (if x = c then [] # splitOn c xs
      else (case splitOn c xs of [] \<Rightarrow> [[x]] | p # ps \<Rightarrow> (x # p) # ps))"

fun joinWith :: "'a list \<Rightarrow> 'a list list \<Rightarrow> 'a list" where
  "joinWith sep [] = []"
| "joinWith sep [p] = p"
| "joinWith sep (p # q # ps) = p @ sep @ joinWith sep (q # ps)"

lemma splitOn_not_Nil [simp]: "splitOn c s \<noteq> []"
  by (induction s) (auto split: list.splits)

lemma joinWith_splitOn [simp]: "joinWith [c] (splitOn c s) = s"
proof (induction s)
  case Nil
  then show ?case by simp
next
  case (Cons x s)
  then show ?case
    by (cases "splitOn c s"; cases "tl (splitOn c s)") auto
qed

lemma splitOn_no_sep: "p \<in> set (splitOn c s) \<Longrightarrow> c \<notin> set p"
  by (induction s arbitrary: p) (auto split: list.splits if_splits)

lemma set_part_joinWith: "p \<in> set ps \<Longrightarrow> set p \<subseteq> set (joinWith sep ps)"
  by (induction sep ps rule: joinWith.induct) auto

lemma set_joinWith: "set (joinWith [c] ps) \<subseteq> insert c (\<Union>p \<in> set ps. set p)"
  by (induction "[c]" ps rule: joinWith.induct) auto

lemma set_part_splitOn: "p \<in> set (splitOn c s) \<Longrightarrow> set p \<subseteq> set s"
  using set_part_joinWith [of p "splitOn c s" "[c]"] by simp

lemma set_splitOn: "x \<in> set s \<Longrightarrow> x = c \<or> (\<exists>p \<in> set (splitOn c s). x \<in> set p)"
  using set_joinWith [of c "splitOn c s"] by auto

lemma splitOn_id: "c \<notin> set s \<Longrightarrow> splitOn c s = [s]"
  by (induction s) auto

lemma splitOn_append: "c \<notin> set a \<Longrightarrow> splitOn c (a @ c # b) = a # splitOn c b"
  by (induction a) auto

lemma splitOn_sep: "splitOn c (a @ c # b) = splitOn c a @ splitOn c b"
  by (induction a) (auto split: list.splits)

lemma joinWith_append:
  "ps \<noteq> [] \<Longrightarrow> qs \<noteq> [] \<Longrightarrow> joinWith sep (ps @ qs) = joinWith sep ps @ sep @ joinWith sep qs"
proof (induction sep ps rule: joinWith.induct)
  case (2 sep p)
  then show ?case by (cases qs) auto
qed auto

lemma splitOn_inject [simp]: "splitOn c a = splitOn c b \<longleftrightarrow> a = b"
  by (metis joinWith_splitOn)

text \<open>Prefixes that end in the separator are prefixes of the lists of parts.\<close>

lemma prefix_sep_iff: "prefix (a @ [c]) s \<longleftrightarrow> strict_prefix (splitOn c a) (splitOn c s)"
proof
  assume "prefix (a @ [c]) s"
  then obtain t where "s = a @ c # t" by (auto simp: prefix_def)
  then show "strict_prefix (splitOn c a) (splitOn c s)"
    by (simp add: splitOn_sep strict_prefix_def)
next
  assume "strict_prefix (splitOn c a) (splitOn c s)"
  then obtain ps where ps: "splitOn c s = splitOn c a @ ps" "ps \<noteq> []"
    by (metis append_self_conv prefix_def strict_prefix_def)
  have "s = joinWith [c] (splitOn c a @ ps)"
    by (metis joinWith_splitOn ps(1))
  then have "s = a @ [c] @ joinWith [c] ps"
    using ps(2) by (simp add: joinWith_append)
  then show "prefix (a @ [c]) s"
    by simp
qed

lemma splitOn_joinWith:
  "ps \<noteq> [] \<Longrightarrow> \<forall>p \<in> set ps. c \<notin> set p \<Longrightarrow> splitOn c (joinWith [c] ps) = ps"
  by (induction "[c]" ps rule: joinWith.induct) (auto simp: splitOn_id splitOn_append)

section \<open>Deduplication in first-seen order\<close>

text \<open>The loop \<open>if (!seen.has(x)) { out.push(x); seen.add(x); }\<close>, where \<open>seen\<close> holds the
  elements of \<open>out\<close>; \<open>[...new Set(xs)]\<close> is the same loop from the empty list.\<close>

definition push_new :: "'a list \<Rightarrow> 'a \<Rightarrow> 'a list" where
  "push_new out x = (if x \<in> set out then out else out @ [x])"

definition merge_new :: "'a list \<Rightarrow> 'a list \<Rightarrow> 'a list" where
  "merge_new out xs = foldl push_new out xs"

abbreviation dedupe :: "'a list \<Rightarrow> 'a list" where
  "dedupe xs \<equiv> merge_new [] xs"

lemma set_push_new [simp]: "set (push_new out x) = insert x (set out)"
  by (auto simp: push_new_def)

lemma distinct_push_new [simp]: "distinct (push_new out x) = distinct out"
  by (auto simp: push_new_def)

lemma push_new_Nil [simp]: "push_new [] x = [x]"
  by (simp add: push_new_def)

lemma prefix_push_new: "prefix out (push_new out x)"
  by (auto simp: push_new_def)

lemma merge_new_simps [simp]:
  "merge_new out [] = out"
  "merge_new out (x # xs) = merge_new (push_new out x) xs"
  by (simp_all add: merge_new_def)

lemma set_merge_new [simp]: "set (merge_new out xs) = set out \<union> set xs"
  by (induction xs arbitrary: out) auto

lemma distinct_merge_new [simp]: "distinct (merge_new out xs) = distinct out"
  by (induction xs arbitrary: out) auto

lemma prefix_merge_new: "prefix out (merge_new out xs)"
proof (induction xs arbitrary: out)
  case Nil
  then show ?case by simp
next
  case (Cons x xs)
  then show ?case
    using prefix_order.trans [OF prefix_push_new] by fastforce
qed

lemma merge_new_subset: "set xs \<subseteq> set out \<Longrightarrow> merge_new out xs = out"
  by (induction xs) (auto simp: push_new_def)

lemma merge_new_append: "merge_new out (xs @ ys) = merge_new (merge_new out xs) ys"
  by (simp add: merge_new_def)

lemma merge_new_distinct:
  "distinct xs \<Longrightarrow> set out \<inter> set xs = {} \<Longrightarrow> merge_new out xs = out @ xs"
  by (induction xs arbitrary: out) (auto simp: push_new_def)

lemma dedupe_distinct: "distinct xs \<Longrightarrow> dedupe xs = xs"
  by (simp add: merge_new_distinct)

section \<open>Sorting with a comparison function\<close>

text \<open>\<open>xs.sort(cmp)\<close>: the stable order of a comparison function that is consistent.\<close>

fun insert_by :: "('a \<Rightarrow> 'a \<Rightarrow> int) \<Rightarrow> 'a \<Rightarrow> 'a list \<Rightarrow> 'a list" where
  "insert_by cmp x [] = [x]"
| "insert_by cmp x (y # ys) = (if cmp x y \<le> 0 then x # y # ys else y # insert_by cmp x ys)"

definition sort_by :: "('a \<Rightarrow> 'a \<Rightarrow> int) \<Rightarrow> 'a list \<Rightarrow> 'a list" where
  "sort_by cmp xs = foldr (insert_by cmp) xs []"

lemma insert_by_key:
  "(\<And>x y. cmp x y \<le> 0 \<longleftrightarrow> f x \<le> f y) \<Longrightarrow> insert_by cmp x xs = insort_key f x xs" for f :: "'a \<Rightarrow> 'b :: linorder"
  by (induction xs) auto

lemma sort_by_key:
  "(\<And>x y. cmp x y \<le> 0 \<longleftrightarrow> f x \<le> f y) \<Longrightarrow> sort_by cmp xs = sort_key f xs" for f :: "'a \<Rightarrow> 'b :: linorder"
  by (induction xs) (auto simp: sort_by_def insert_by_key)

lemma mset_insert_by [simp]: "mset (insert_by cmp x xs) = add_mset x (mset xs)"
  by (induction xs) auto

lemma mset_sort_by [simp]: "mset (sort_by cmp xs) = mset xs"
  by (induction xs) (simp_all add: sort_by_def)

lemma set_sort_by [simp]: "set (sort_by cmp xs) = set xs"
  by (metis mset_sort_by set_mset_mset)

section \<open>Decimal numerals\<close>

definition digit_char :: "nat \<Rightarrow> char" where
  "digit_char d = char_of (48 + d)"

definition char_digit :: "char \<Rightarrow> nat" where
  "char_digit c = of_char c - 48"

definition is_digit :: "char \<Rightarrow> bool" where
  "is_digit c \<longleftrightarrow> CHR ''0'' \<le> c \<and> c \<le> CHR ''9''"

fun dec_of_nat :: "nat \<Rightarrow> string" where
  "dec_of_nat n = (if n < 10 then [digit_char n] else dec_of_nat (n div 10) @ [digit_char (n mod 10)])"

declare dec_of_nat.simps [simp del]

definition nat_of_dec :: "string \<Rightarrow> nat" where
  "nat_of_dec s = foldl (\<lambda>n c. 10 * n + char_digit c) 0 s"

lemma char_digit_char [simp]: "d < 10 \<Longrightarrow> char_digit (digit_char d) = d"
  by (simp add: char_digit_def digit_char_def)

lemma is_digit_char [simp]: "d < 10 \<Longrightarrow> is_digit (digit_char d)"
  by (auto simp: is_digit_def digit_char_def less_eq_char_def)

lemma nat_of_dec_snoc: "nat_of_dec (s @ [c]) = 10 * nat_of_dec s + char_digit c"
  by (simp add: nat_of_dec_def)

lemma nat_of_dec_of_nat [simp]: "nat_of_dec (dec_of_nat n) = n"
proof (induction n rule: dec_of_nat.induct)
  case (1 n)
  show ?case
  proof (cases "n < 10")
    case True
    then show ?thesis
      by (simp add: dec_of_nat.simps [of n] nat_of_dec_def)
  next
    case False
    then have "nat_of_dec (dec_of_nat n) = 10 * (n div 10) + n mod 10"
      using 1 by (simp add: dec_of_nat.simps [of n] nat_of_dec_snoc)
    then show ?thesis by simp
  qed
qed

lemma dec_of_nat_digits: "\<forall>c \<in> set (dec_of_nat n). is_digit c"
proof (induction n rule: dec_of_nat.induct)
  case (1 n)
  then show ?case
    by (cases "n < 10") (auto simp: dec_of_nat.simps [of n])
qed

lemma dec_of_nat_not_Nil [simp]: "dec_of_nat n \<noteq> []"
  by (subst dec_of_nat.simps) simp

lemma dec_of_nat_inject [simp]: "dec_of_nat m = dec_of_nat n \<longleftrightarrow> m = n"
  by (metis nat_of_dec_of_nat)

section \<open>Case and white space\<close>

text \<open>\<open>toLowerCase\<close> and the characters \<open>trim\<close> strips, for code units below 256.\<close>

definition lower_char :: "char \<Rightarrow> char" where
  "lower_char c =
     (let n = of_char c :: nat
      in if (65 \<le> n \<and> n \<le> 90) \<or> (192 \<le> n \<and> n \<le> 222 \<and> n \<noteq> 215) then char_of (n + 32) else c)"

definition toLowerCase :: "string \<Rightarrow> string" where
  "toLowerCase s = map lower_char s"

definition is_space :: "char \<Rightarrow> bool" where
  "is_space c = (let n = of_char c :: nat in (9 \<le> n \<and> n \<le> 13) \<or> n = 32 \<or> n = 160)"

definition trim :: "string \<Rightarrow> string" where
  "trim s = rev (dropWhile is_space (rev (dropWhile is_space s)))"

text \<open>The length of \<open>new TextEncoder().encode(s)\<close>.\<close>

definition utf8_length :: "string \<Rightarrow> nat" where
  "utf8_length s = sum_list (map (\<lambda>c. if (of_char c :: nat) < 128 then 1 else 2) s)"

text \<open>Character classes of the patterns.\<close>

lemma list_all_notin: "list_all p w \<Longrightarrow> \<not> p c \<Longrightarrow> c \<notin> set w"
  by (auto simp: list_all_iff)

definition is_lower :: "char \<Rightarrow> bool" where
  "is_lower c \<longleftrightarrow> CHR ''a'' \<le> c \<and> c \<le> CHR ''z''"

definition is_upper :: "char \<Rightarrow> bool" where
  "is_upper c \<longleftrightarrow> CHR ''A'' \<le> c \<and> c \<le> CHR ''Z''"

definition is_hex :: "char \<Rightarrow> bool" where
  "is_hex c \<longleftrightarrow> is_digit c \<or> (CHR ''a'' \<le> c \<and> c \<le> CHR ''f'') \<or> (CHR ''A'' \<le> c \<and> c \<le> CHR ''F'')"

lemmas char_class_defs = is_digit_def is_lower_def is_upper_def is_hex_def less_eq_char_def

lemma utf8_length_Nil [simp]: "utf8_length [] = 0"
  and utf8_length_Cons [simp]:
    "utf8_length (c # s) = (if (of_char c :: nat) < 128 then 1 else 2) + utf8_length s"
  by (simp_all add: utf8_length_def)

lemma utf8_length_ge: "length s \<le> utf8_length s"
  by (induction s) auto

lemma lower_char_idem [simp]: "lower_char (lower_char c) = lower_char c"
proof -
  have "of_char c < (256 :: nat)" by simp
  then show ?thesis
    by (auto simp: lower_char_def Let_def)
qed

section \<open>Containment\<close>

text \<open>What the containment checks of the program have in common: containment composes along a chain of
  grants, so whatever every link covers the first grants cover.\<close>

locale containment =
  fixes contains :: "'a \<Rightarrow> 'a \<Rightarrow> bool" and valid :: "'a \<Rightarrow> bool"
  assumes contains_refl: "valid a \<Longrightarrow> contains a a"
    and contains_trans: "contains a b \<Longrightarrow> contains b c \<Longrightarrow> contains a c"
begin

lemma covered_self: "list_all valid as \<Longrightarrow> list_all (\<lambda>a. list_ex (\<lambda>g. contains g a) as) as"
  by (fastforce simp: list_all_iff list_ex_iff intro: contains_refl)

lemma covered_chain:
  "list_ex (\<lambda>b. contains b c) bs \<Longrightarrow> list_all (\<lambda>b. list_ex (\<lambda>a. contains a b) as) bs \<Longrightarrow>
   list_ex (\<lambda>a. contains a c) as"
  by (auto simp: list_all_iff list_ex_iff intro: contains_trans)

lemma covered_weaken: "list_ex (\<lambda>a. contains a c) as \<Longrightarrow> set as \<subseteq> set as' \<Longrightarrow> list_ex (\<lambda>a. contains a c) as'"
  by (auto simp: list_ex_iff)

end

end
