(* ===== verification/Regex.thy ===== *)
theory Regex
  imports Prelude
begin

text \<open>
  The fragment of JavaScript regular expressions the modelled files use, so that each
  pattern of the source is written down as it stands there. \<open>rx_test r s\<close> is
  \<open>/^r$/.test(s)\<close> (all patterns are anchored at both ends, without the \<open>m\<close> flag); it is
  computed by derivatives, and \<open>rx_test_iff\<close> proves it decides the language \<open>lang r\<close>.
  The last section characterises the shapes that occur, so that proofs about a pattern
  never unfold the matcher.
\<close>

section \<open>Patterns and their languages\<close>

datatype 'a rx =
    Never
  | Empty
  | Cls "'a \<Rightarrow> bool"                \<comment> \<open>one character of a class\<close>
  | Cat "'a rx" "'a rx"
  | Or "'a rx" "'a rx"
  | Many "'a rx"                    \<comment> \<open>\<open>r*\<close>\<close>
  | Between nat nat "'a rx"         \<comment> \<open>\<open>r{m,n}\<close>\<close>

text \<open>Literal text, \<open>r+\<close> and \<open>r?\<close>.\<close>

fun Lit :: "'a list \<Rightarrow> 'a rx" where
  "Lit [] = Empty"
| "Lit (c # cs) = Cat (Cls (\<lambda>x. x = c)) (Lit cs)"

abbreviation Some1 :: "'a rx \<Rightarrow> 'a rx" where
  "Some1 r \<equiv> Cat r (Many r)"

abbreviation Maybe :: "'a rx \<Rightarrow> 'a rx" where
  "Maybe r \<equiv> Or Empty r"

definition conc :: "'a list set \<Rightarrow> 'a list set \<Rightarrow> 'a list set" where
  "conc A B = {a @ b |a b. a \<in> A \<and> b \<in> B}"

definition power_between :: "nat \<Rightarrow> nat \<Rightarrow> 'a list set \<Rightarrow> 'a list set" where
  "power_between m n A = {concat ws |ws. set ws \<subseteq> A \<and> m \<le> length ws \<and> length ws \<le> n}"

fun lang :: "'a rx \<Rightarrow> 'a list set" where
  "lang Never = {}"
| "lang Empty = {[]}"
| "lang (Cls p) = {[c] |c. p c}"
| "lang (Cat r s) = conc (lang r) (lang s)"
| "lang (Or r s) = lang r \<union> lang s"
| "lang (Many r) = {concat ws |ws. set ws \<subseteq> lang r}"
| "lang (Between m n r) = power_between m n (lang r)"

section \<open>The matcher\<close>

fun nullable :: "'a rx \<Rightarrow> bool" where
  "nullable Never = False"
| "nullable Empty = True"
| "nullable (Cls p) = False"
| "nullable (Cat r s) = (nullable r \<and> nullable s)"
| "nullable (Or r s) = (nullable r \<or> nullable s)"
| "nullable (Many r) = True"
| "nullable (Between m n r) = (m \<le> n \<and> (m = 0 \<or> nullable r))"

text \<open>Smart constructors keep the derivatives small.\<close>

fun cat :: "'a rx \<Rightarrow> 'a rx \<Rightarrow> 'a rx" where
  "cat Never s = Never"
| "cat Empty s = s"
| "cat r s = Cat r s"

fun alt :: "'a rx \<Rightarrow> 'a rx \<Rightarrow> 'a rx" where
  "alt Never s = s"
| "alt r Never = r"
| "alt r s = Or r s"

fun deriv :: "'a \<Rightarrow> 'a rx \<Rightarrow> 'a rx" where
  "deriv c Never = Never"
| "deriv c Empty = Never"
| "deriv c (Cls p) = (if p c then Empty else Never)"
| "deriv c (Cat r s) =
     (if nullable r then alt (cat (deriv c r) s) (deriv c s) else cat (deriv c r) s)"
| "deriv c (Or r s) = alt (deriv c r) (deriv c s)"
| "deriv c (Many r) = cat (deriv c r) (Many r)"
| "deriv c (Between m n r) =
     (if n = 0 \<or> n < m then Never else cat (deriv c r) (Between (m - 1) (n - 1) r))"

fun rx_test :: "'a rx \<Rightarrow> 'a list \<Rightarrow> bool" where
  "rx_test r [] = nullable r"
| "rx_test r (c # cs) = rx_test (deriv c r) cs"

section \<open>Correctness of the matcher\<close>

lemma concI: "a \<in> A \<Longrightarrow> b \<in> B \<Longrightarrow> a @ b \<in> conc A B"
  by (auto simp: conc_def)

lemma Nil_conc [simp]: "[] \<in> conc A B \<longleftrightarrow> [] \<in> A \<and> [] \<in> B"
  by (auto simp: conc_def)

lemma Cons_conc:
  "c # w \<in> conc A B \<longleftrightarrow>
   (\<exists>u v. w = u @ v \<and> c # u \<in> A \<and> v \<in> B) \<or> ([] \<in> A \<and> c # w \<in> B)"
proof
  assume "c # w \<in> conc A B"
  then obtain a b where "c # w = a @ b" "a \<in> A" "b \<in> B"
    by (auto simp: conc_def)
  then show "(\<exists>u v. w = u @ v \<and> c # u \<in> A \<and> v \<in> B) \<or> ([] \<in> A \<and> c # w \<in> B)"
    by (cases a) auto
next
  assume "(\<exists>u v. w = u @ v \<and> c # u \<in> A \<and> v \<in> B) \<or> ([] \<in> A \<and> c # w \<in> B)"
  then show "c # w \<in> conc A B"
    using concI [of "c # _" A _ B] concI [of "[]" A "c # w" B] by auto
qed

lemma lang_cat [simp]: "lang (cat r s) = conc (lang r) (lang s)"
  by (induction r s rule: cat.induct) (auto simp: conc_def)

lemma lang_alt [simp]: "lang (alt r s) = lang r \<union> lang s"
  by (induction r s rule: alt.induct) auto

lemma Nil_power_between: "[] \<in> power_between m n A \<longleftrightarrow> m \<le> n \<and> (m = 0 \<or> [] \<in> A)"
proof
  assume "[] \<in> power_between m n A"
  then obtain ws where ws: "concat ws = []" "set ws \<subseteq> A" "m \<le> length ws" "length ws \<le> n"
    by (auto simp: power_between_def)
  then show "m \<le> n \<and> (m = 0 \<or> [] \<in> A)"
    by (cases ws) auto
next
  assume h: "m \<le> n \<and> (m = 0 \<or> [] \<in> A)"
  then have "concat (replicate m []) = ([] :: 'a list) \<and> set (replicate m []) \<subseteq> A"
    by (cases m) auto
  then show "[] \<in> power_between m n A"
    using h unfolding power_between_def by (intro CollectI exI [of _ "replicate m []"]) auto
qed

lemma nullable_iff: "nullable r \<longleftrightarrow> [] \<in> lang r"
  by (induction r) (auto simp: Nil_power_between intro: exI [of _ "[]"])

text \<open>A word of a starred language that starts with \<open>c\<close> has a first non-empty factor.\<close>

lemma concat_Cons_first:
  "concat ws = c # w \<Longrightarrow>
   \<exists>us u vs. ws = us @ (c # u) # vs \<and> set us \<subseteq> {[]} \<and> w = u @ concat vs"
proof (induction ws)
  case Nil
  then show ?case by simp
next
  case (Cons x xs)
  show ?case
  proof (cases x)
    case Nil
    then obtain us u vs where "xs = us @ (c # u) # vs" "set us \<subseteq> {[]}" "w = u @ concat vs"
      using Cons by auto
    with Nil show ?thesis
      by (intro exI [of _ "[] # us"]) auto
  next
    case (Cons y ys)
    with \<open>concat (x # xs) = c # w\<close> have "x # xs = [] @ (c # ys) # xs \<and> w = ys @ concat xs"
      by auto
    then show ?thesis
      by (metis empty_subsetI empty_set)
  qed
qed

lemma lang_deriv_Many:
  "c # w \<in> {concat ws |ws. set ws \<subseteq> A} \<longleftrightarrow>
   (\<exists>u v. w = u @ v \<and> c # u \<in> A \<and> v \<in> {concat ws |ws. set ws \<subseteq> A})"
proof
  assume "c # w \<in> {concat ws |ws. set ws \<subseteq> A}"
  then obtain ws where ws: "c # w = concat ws" "set ws \<subseteq> A"
    by blast
  obtain us u vs where "ws = us @ (c # u) # vs" "w = u @ concat vs"
    using concat_Cons_first [OF ws(1) [symmetric]] by blast
  with ws(2) show "\<exists>u v. w = u @ v \<and> c # u \<in> A \<and> v \<in> {concat ws |ws. set ws \<subseteq> A}"
    by auto
next
  assume "\<exists>u v. w = u @ v \<and> c # u \<in> A \<and> v \<in> {concat ws |ws. set ws \<subseteq> A}"
  then obtain u ws where "w = u @ concat ws" "c # u \<in> A" "set ws \<subseteq> A"
    by auto
  then show "c # w \<in> {concat ws |ws. set ws \<subseteq> A}"
    by (intro CollectI exI [of _ "(c # u) # ws"]) auto
qed

lemma lang_deriv_Between:
  "c # w \<in> power_between m n A \<longleftrightarrow>
   n \<noteq> 0 \<and> m \<le> n \<and>
   (\<exists>u v. w = u @ v \<and> c # u \<in> A \<and> v \<in> power_between (m - 1) (n - 1) A)"
proof
  assume "c # w \<in> power_between m n A"
  then obtain ws where ws: "concat ws = c # w" "set ws \<subseteq> A" "m \<le> length ws" "length ws \<le> n"
    by (auto simp: power_between_def)
  obtain us u vs where d: "ws = us @ (c # u) # vs" "set us \<subseteq> {[]}" "w = u @ concat vs"
    using concat_Cons_first [OF ws(1)] by blast
  have "concat us = []"
    using d(2) by (auto simp: concat_eq_Nil_conv)
  then have "concat vs = concat (us @ vs)" and "set (us @ vs) \<subseteq> A"
    and "m - 1 \<le> length (us @ vs)" and "length (us @ vs) \<le> n - 1"
    using ws(2-4) d(1) by auto
  then have "concat vs \<in> power_between (m - 1) (n - 1) A"
    unfolding power_between_def by blast
  with d ws show "n \<noteq> 0 \<and> m \<le> n \<and>
    (\<exists>u v. w = u @ v \<and> c # u \<in> A \<and> v \<in> power_between (m - 1) (n - 1) A)"
    by auto
next
  assume h: "n \<noteq> 0 \<and> m \<le> n \<and>
    (\<exists>u v. w = u @ v \<and> c # u \<in> A \<and> v \<in> power_between (m - 1) (n - 1) A)"
  then obtain u ws where "w = u @ concat ws" "c # u \<in> A" "set ws \<subseteq> A"
    "m - 1 \<le> length ws" "length ws \<le> n - 1"
    by (auto simp: power_between_def)
  then show "c # w \<in> power_between m n A"
    using h unfolding power_between_def by (intro CollectI exI [of _ "(c # u) # ws"]) auto
qed

lemma lang_deriv: "w \<in> lang (deriv c r) \<longleftrightarrow> c # w \<in> lang r"
proof (induction r arbitrary: w)
  case (Cat r s)
  then show ?case
    by (auto simp: Cons_conc nullable_iff) (auto simp: conc_def)
next
  case (Many r)
  have "w \<in> lang (deriv c (Many r)) \<longleftrightarrow>
    (\<exists>u v. w = u @ v \<and> c # u \<in> lang r \<and> v \<in> lang (Many r))"
    by (auto simp: conc_def Many.IH)
  then show ?case
    by (simp only: lang.simps lang_deriv_Many)
next
  case (Between m n r)
  then show ?case
    by (auto simp: lang_deriv_Between conc_def)
qed auto

theorem rx_test_iff: "rx_test r w \<longleftrightarrow> w \<in> lang r"
  by (induction w arbitrary: r) (simp_all add: nullable_iff lang_deriv)

section \<open>The shapes that occur in the source\<close>

named_theorems rx_shape \<open>languages of the pattern shapes the source uses\<close>

lemma lang_Lit [rx_shape]: "lang (Lit w) = {w}"
  by (induction w) (auto simp: conc_def)

lemma concat_singletons: "set ws \<subseteq> {[c] |c. p c} \<Longrightarrow> concat ws = map hd ws \<and> list_all p (map hd ws)"
  by (induction ws) auto

lemma lang_Many_Cls [rx_shape]: "lang (Many (Cls p)) = {w. list_all p w}"
proof -
  have "w \<in> lang (Many (Cls p)) \<Longrightarrow> list_all p w" for w
    using concat_singletons by fastforce
  moreover have "list_all p w \<Longrightarrow> w \<in> lang (Many (Cls p))" for w
    by (auto simp: list_all_iff intro!: exI [of _ "map (\<lambda>c. [c]) w"])
  ultimately show ?thesis by blast
qed

lemma lang_Between_Cls [rx_shape]:
  "lang (Between m n (Cls p)) = {w. list_all p w \<and> m \<le> length w \<and> length w \<le> n}"
proof -
  have "w \<in> lang (Between m n (Cls p)) \<Longrightarrow> list_all p w \<and> m \<le> length w \<and> length w \<le> n" for w
    using concat_singletons by (fastforce simp: power_between_def)
  moreover have "list_all p w \<Longrightarrow> m \<le> length w \<Longrightarrow> length w \<le> n \<Longrightarrow> w \<in> lang (Between m n (Cls p))" for w
    by (auto simp: list_all_iff power_between_def intro!: exI [of _ "map (\<lambda>c. [c]) w"])
  ultimately show ?thesis by blast
qed

lemma mem_conc_Cls [rx_shape]:
  "w \<in> conc {[c] |c. p c} A \<longleftrightarrow> (\<exists>c v. w = c # v \<and> p c \<and> v \<in> A)"
  by (cases w) (auto simp: Cons_conc)

lemma mem_conc_singleton [rx_shape]: "w \<in> conc {u} A \<longleftrightarrow> (\<exists>v. w = u @ v \<and> v \<in> A)"
  by (auto simp: conc_def)

text \<open>\<open>S(?:cS){m,n}\<close>, where no word of \<open>S\<close> has the separator \<open>c\<close>: the parts of
  \<open>s.split(c)\<close> are words of \<open>S\<close>, between \<open>m + 1\<close> and \<open>n + 1\<close> of them.\<close>

definition sep_rx :: "'a \<Rightarrow> nat \<Rightarrow> nat \<Rightarrow> 'a rx \<Rightarrow> 'a rx" where
  "sep_rx c m n S = Cat S (Between m n (Cat (Lit [c]) S))"

lemma joinWith_Cons_concat: "joinWith [c] (p # ps) = p @ concat (map (\<lambda>q. c # q) ps)"
  by (induction ps arbitrary: p) auto

lemma sep_rx_iff:
  assumes S: "\<And>w. w \<in> lang S \<Longrightarrow> c \<notin> set w"
  shows "w \<in> lang (sep_rx c m n S) \<longleftrightarrow>
    (\<forall>p \<in> set (splitOn c w). p \<in> lang S) \<and>
    m < length (splitOn c w) \<and> length (splitOn c w) \<le> Suc n"
    (is "?l \<longleftrightarrow> ?r")
proof
  assume ?l
  then obtain p ws where w: "w = p @ concat ws" and p: "p \<in> lang S"
    and ws: "set ws \<subseteq> lang (Cat (Lit [c]) S)" and len: "m \<le> length ws" "length ws \<le> n"
    by (auto simp: sep_rx_def conc_def power_between_def)
  have "\<forall>x \<in> set ws. \<exists>q. x = c # q \<and> q \<in> lang S"
    using ws by (auto simp: rx_shape conc_def)
  then have "\<exists>qs. ws = map (\<lambda>q. c # q) qs \<and> set qs \<subseteq> lang S"
    by (induction ws) (auto, metis list.simps(15) list.simps(9) insert_subset)
  then obtain qs where qs: "ws = map (\<lambda>q. c # q) qs" "set qs \<subseteq> lang S" by blast
  then have "w = joinWith [c] (p # qs)"
    using w by (simp add: joinWith_Cons_concat)
  then have "splitOn c w = p # qs"
    using p qs S by (simp add: splitOn_joinWith subset_iff)
  then show ?r
    using p qs len by auto
next
  assume r: ?r
  obtain p qs where ps: "splitOn c w = p # qs"
    by (cases "splitOn c w") auto
  then have w: "w = p @ concat (map (\<lambda>q. c # q) qs)"
    by (metis joinWith_Cons_concat joinWith_splitOn)
  have "set (map (\<lambda>q. c # q) qs) \<subseteq> lang (Cat (Lit [c]) S)"
    using r ps by (auto simp: conc_def)
  then have "concat (map (\<lambda>q. c # q) qs) \<in> lang (Between m n (Cat (Lit [c]) S))"
    using r ps by (auto simp: power_between_def intro!: exI [of _ "map (\<lambda>q. c # q) qs"])
  then show ?l
    using w r ps by (auto simp: sep_rx_def conc_def)
qed

text \<open>\<open>S(cS)*\<close>, the same without bounds.\<close>

lemma sep_many_iff:
  assumes S: "\<And>w. w \<in> lang S \<Longrightarrow> c \<notin> set w"
  shows "w \<in> lang (Cat S (Many (Cat (Lit [c]) S))) \<longleftrightarrow> (\<forall>p \<in> set (splitOn c w). p \<in> lang S)"
proof -
  have many: "lang (Many r) = (\<Union>n. lang (Between 0 n r))" for r :: "'a rx"
    by (auto simp: power_between_def)
  have "w \<in> lang (Cat S (Many (Cat (Lit [c]) S))) \<longleftrightarrow> (\<exists>n. w \<in> lang (sep_rx c 0 n S))"
    unfolding sep_rx_def lang.simps(4) many conc_def by blast
  also have "\<dots> \<longleftrightarrow> (\<forall>p \<in> set (splitOn c w). p \<in> lang S)"
    by (auto simp: sep_rx_iff [OF S] intro: exI [of _ "length (splitOn c w)"])
  finally show ?thesis .
qed

end
