(* ===== verification/NetworkId.thy ===== *)
theory NetworkId
  imports Regex
begin

text \<open>
  \<^verbatim>\<open>packages/sdk-services/src/encryption/networkId.ts\<close>: encryption network identifiers
  \<open>urn:tinycloud:encryption:<ownerDid>:<network>\<close>. Each \<open>throw new NetworkIdError\<close> is a
  constructor of \<open>network_id_error\<close>. Inputs are strings: the \<open>typeof\<close> tests of the code,
  which only untyped callers can fail, are the branch of an empty string where the code
  tests both together.
\<close>

section \<open>Constants and types\<close>

definition URN_PREFIX :: string where
  "URN_PREFIX = ''urn:tinycloud:encryption:''"

definition NETWORK_NAME_RE :: "char rx" where
  "NETWORK_NAME_RE =
     Cat (Cls (\<lambda>c. is_lower c \<or> is_digit c)) (Many (Cls (\<lambda>c. is_lower c \<or> is_digit c \<or> c = CHR ''-'')))"

text \<open>\<open>/^did:pkh:eip155:(\d+):(0x[a-fA-F0-9]{40})$/\<close>: the literal head and the two groups.\<close>

definition PKH_HEAD :: string where
  "PKH_HEAD = ''did:pkh:eip155:''"

definition DIGITS_RE :: "char rx" where
  "DIGITS_RE = Some1 (Cls is_digit)"

definition ADDRESS_RE :: "char rx" where
  "ADDRESS_RE = Cat (Lit ''0x'') (Between 40 40 (Cls is_hex))"

record parsed_network_id =
  pn_networkId :: string
  pn_ownerDid :: string
  pn_name :: string

datatype network_id_error =
    NetworkIdEmpty
  | NetworkIdPrefix string
  | NetworkIdSegments string
  | OwnerNotADid string
  | OwnerMalformed string
  | NetworkNamePattern string
  | InvalidKeyPath string

section \<open>Operations\<close>

definition parseNetworkId :: "string \<Rightarrow> network_id_error + parsed_network_id" where
  "parseNetworkId networkId =
     (if networkId = [] then Inl NetworkIdEmpty
      else if \<not> startsWith networkId URN_PREFIX then Inl (NetworkIdPrefix networkId)
      else (case splitLast CHR '':'' (drop (length URN_PREFIX) networkId) of
        None \<Rightarrow> Inl (NetworkIdSegments networkId)
      | Some (ownerDid, name) \<Rightarrow>
          if ownerDid = [] \<or> name = [] then Inl (NetworkIdSegments networkId)
          else if \<not> startsWith ownerDid ''did:'' then Inl (OwnerNotADid ownerDid)
          else (let didParts = splitOn CHR '':'' ownerDid
            in if length didParts < 3 \<or> list_ex (\<lambda>p. p = []) didParts
               then Inl (OwnerMalformed ownerDid)
               else if \<not> rx_test NETWORK_NAME_RE name then Inl (NetworkNamePattern name)
               else Inr \<lparr>pn_networkId = networkId, pn_ownerDid = ownerDid, pn_name = name\<rparr>)))"

text \<open>The second, looser resource parser of the file (exported beside the strict one of
  \<^verbatim>\<open>resource.ts\<close>): a network identifier with an optional key path.\<close>

definition control_or_backslash :: "char \<Rightarrow> bool" where
  "control_or_backslash c \<longleftrightarrow> (of_char c :: nat) \<le> 31 \<or> (of_char c :: nat) = 127 \<or> (of_char c :: nat) = 92"

definition parseNetworkResource ::
    "string \<Rightarrow> network_id_error + parsed_network_id \<times> string option" where
  "parseNetworkResource resource =
     (let (upto, nameAndPath) =
        (case splitLast CHR '':'' resource of
           None \<Rightarrow> ([], resource) | Some (a, b) \<Rightarrow> (a @ '':'', b))
      in case splitFirst CHR ''/'' nameAndPath of
        None \<Rightarrow> bindR (parseNetworkId resource) (\<lambda>parsed. Inr (parsed, None))
      | Some (name, keyPath) \<Rightarrow>
          bindR (parseNetworkId (upto @ name)) (\<lambda>parsed.
            let segments = splitOn CHR ''/'' keyPath;
                isPrefix = endsWith keyPath ''/''
            in if keyPath = [] \<or> list_ex control_or_backslash keyPath \<or>
                  list_ex (\<lambda>(index, segment).
                      segment = ''.'' \<or> segment = ''..'' \<or>
                      (segment = [] \<and> \<not> (isPrefix \<and> index = length segments - 1)))
                    (zip [0..<length segments] segments)
               then Inl (InvalidKeyPath resource)
               else Inr (parsed, Some keyPath)))"

definition buildNetworkId :: "string \<Rightarrow> string \<Rightarrow> network_id_error + string" where
  "buildNetworkId ownerDid name =
     (if \<not> startsWith ownerDid ''did:'' then Inl (OwnerNotADid ownerDid)
      else if \<not> rx_test NETWORK_NAME_RE name then Inl (NetworkNamePattern name)
      else (let networkId = URN_PREFIX @ ownerDid @ '':'' @ name
            in bindR (parseNetworkId networkId) (\<lambda>_. Inr networkId)))"

definition isNetworkId :: "string \<Rightarrow> bool" where
  "isNetworkId networkId = is_ok (parseNetworkId networkId)"

definition parsePkhOwnerDid :: "string \<Rightarrow> (string \<times> string) option" where
  "parsePkhOwnerDid ownerDid =
     (if \<not> startsWith ownerDid PKH_HEAD then None
      else (case splitFirst CHR '':'' (drop (length PKH_HEAD) ownerDid) of
        None \<Rightarrow> None
      | Some (chainId, address) \<Rightarrow>
          if rx_test DIGITS_RE chainId \<and> rx_test ADDRESS_RE address
          then Some (chainId, toLowerCase address) else None))"

definition ownerDidMatches :: "string \<Rightarrow> string \<Rightarrow> bool" where
  "ownerDidMatches a b =
     (case (parsePkhOwnerDid a, parsePkhOwnerDid b) of
        (Some (aChain, aAddress), Some (bChain, bAddress)) \<Rightarrow> aChain = bChain \<and> aAddress = bAddress
      | _ \<Rightarrow> a = b)"

definition networkDiscoveryKey :: "string \<Rightarrow> network_id_error + string" where
  "networkDiscoveryKey name =
     (if \<not> rx_test NETWORK_NAME_RE name then Inl (NetworkNamePattern name)
      else Inr (''.well-known/encryption/network/'' @ name))"

section \<open>Facts\<close>

lemma NETWORK_NAME_RE_iff:
  "rx_test NETWORK_NAME_RE w \<longleftrightarrow>
   (\<exists>c v. w = c # v \<and> (is_lower c \<or> is_digit c) \<and>
      list_all (\<lambda>c. is_lower c \<or> is_digit c \<or> c = CHR ''-'') v)"
proof -
  have "lang NETWORK_NAME_RE =
    conc {[c] |c. is_lower c \<or> is_digit c} (lang (Many (Cls (\<lambda>c. is_lower c \<or> is_digit c \<or> c = CHR ''-''))))"
    unfolding NETWORK_NAME_RE_def by (simp only: lang.simps(3,4))
  then show ?thesis
    by (simp only: rx_test_iff lang_Many_Cls mem_conc_Cls mem_Collect_eq)
qed

lemma DIGITS_RE_iff: "rx_test DIGITS_RE w \<longleftrightarrow> w \<noteq> [] \<and> list_all is_digit w"
proof -
  have "lang DIGITS_RE = conc {[x] |x. is_digit x} (lang (Many (Cls is_digit)))"
    unfolding DIGITS_RE_def by (simp only: lang.simps(3,4))
  then show ?thesis
    by (cases w) (auto simp: rx_test_iff mem_conc_Cls lang_Many_Cls simp del: lang.simps)
qed

lemma network_name_no_colon: "rx_test NETWORK_NAME_RE w \<Longrightarrow> CHR '':'' \<notin> set w \<and> w \<noteq> []"
proof -
  assume "rx_test NETWORK_NAME_RE w"
  then obtain c v where w: "w = c # v" and c: "is_lower c \<or> is_digit c"
    and v: "list_all (\<lambda>c. is_lower c \<or> is_digit c \<or> c = CHR ''-'') v"
    by (auto simp: NETWORK_NAME_RE_iff)
  have "CHR '':'' \<notin> set v"
    by (rule list_all_notin [OF v]) (simp add: char_class_defs)
  moreover have "c \<noteq> CHR '':''"
    using c by (auto simp: char_class_defs)
  ultimately show ?thesis
    using w by auto
qed

lemma parseNetworkId_Inr_iff:
  "parseNetworkId s = Inr p \<longleftrightarrow>
   s = URN_PREFIX @ pn_ownerDid p @ '':'' @ pn_name p \<and> pn_networkId p = s \<and>
   startsWith (pn_ownerDid p) ''did:'' \<and> rx_test NETWORK_NAME_RE (pn_name p) \<and>
   2 < length (splitOn CHR '':'' (pn_ownerDid p)) \<and> [] \<notin> set (splitOn CHR '':'' (pn_ownerDid p))"
    (is "?l \<longleftrightarrow> ?r")
proof
  assume ?l
  then obtain o' n where p: "p = \<lparr>pn_networkId = s, pn_ownerDid = o', pn_name = n\<rparr>"
    and pre: "startsWith s URN_PREFIX"
    and sp: "splitLast CHR '':'' (drop (length URN_PREFIX) s) = Some (o', n)"
    and rest: "startsWith o' ''did:''" "rx_test NETWORK_NAME_RE n"
      "2 < length (splitOn CHR '':'' o')" "[] \<notin> set (splitOn CHR '':'' o')"
    by (auto simp: parseNetworkId_def Let_def list_ex_iff split: if_splits option.splits)
  from sp have "drop (length URN_PREFIX) s = o' @ CHR '':'' # n"
    by (simp add: splitLast_Some_iff)
  then have "s = URN_PREFIX @ o' @ '':'' @ n"
    using startsWith_drop [OF pre] by simp
  with p rest show ?r by simp
next
  assume r: ?r
  let ?o = "pn_ownerDid p" and ?n = "pn_name p"
  have "splitLast CHR '':'' (?o @ CHR '':'' # ?n) = Some (?o, ?n)"
    using r network_name_no_colon by (simp add: splitLast_Some_iff)
  then show ?l
    using r network_name_no_colon [of ?n]
    by (cases p) (auto simp: parseNetworkId_def Let_def list_ex_iff URN_PREFIX_def)
qed

lemma parseNetworkId_InrD:
  assumes "parseNetworkId s = Inr p"
  shows "s = URN_PREFIX @ pn_ownerDid p @ '':'' @ pn_name p"
    and "pn_networkId p = s"
    and "startsWith (pn_ownerDid p) ''did:''"
    and "rx_test NETWORK_NAME_RE (pn_name p)"
  using assms [unfolded parseNetworkId_Inr_iff] by - (elim conjE, assumption)+

lemma parsePkhOwnerDid_Some_iff:
  "parsePkhOwnerDid d = Some (c, a) \<longleftrightarrow>
   (\<exists>a'. d = PKH_HEAD @ c @ '':'' @ a' \<and> rx_test DIGITS_RE c \<and> rx_test ADDRESS_RE a' \<and> a = toLowerCase a')"
  (is "?l \<longleftrightarrow> ?r")
proof
  assume l: ?l
  then obtain a' where pre: "startsWith d PKH_HEAD"
    and sp: "splitFirst CHR '':'' (drop (length PKH_HEAD) d) = Some (c, a')"
    and rest: "rx_test DIGITS_RE c" "rx_test ADDRESS_RE a'" "a = toLowerCase a'"
    by (auto simp: parsePkhOwnerDid_def split: if_splits option.splits)
  from sp have "drop (length PKH_HEAD) d = c @ CHR '':'' # a'"
    by (simp add: splitFirst_Some_iff)
  then show ?r
    using startsWith_drop [OF pre] rest by (metis append_Cons append_Nil)
next
  assume ?r
  then obtain a' where d: "d = PKH_HEAD @ c @ '':'' @ a'" and c: "rx_test DIGITS_RE c"
    and rest: "rx_test ADDRESS_RE a'" "a = toLowerCase a'" by blast
  have "CHR '':'' \<notin> set c"
    by (rule list_all_notin [of is_digit]) (use c in \<open>simp_all add: DIGITS_RE_iff char_class_defs\<close>)
  then have "splitFirst CHR '':'' (c @ CHR '':'' # a') = Some (c, a')"
    by (simp add: splitFirst_Some_iff)
  with d c rest show ?l
    by (simp add: parsePkhOwnerDid_def PKH_HEAD_def)
qed

section \<open>Properties\<close>

text \<open>Parsing and building network identifiers are inverse to each other: a string
  parses to an owner and a name exactly when those parts build that string.\<close>

theorem network_id_roundtrip:
  "buildNetworkId d n = Inr s \<longleftrightarrow>
   parseNetworkId s = Inr \<lparr>pn_networkId = s, pn_ownerDid = d, pn_name = n\<rparr>"
proof
  assume "buildNetworkId d n = Inr s"
  then have "rx_test NETWORK_NAME_RE n \<and> s = URN_PREFIX @ d @ '':'' @ n \<and> is_ok (parseNetworkId s)"
    unfolding buildNetworkId_def Let_def
    by (cases "parseNetworkId (URN_PREFIX @ d @ '':'' @ n)") (simp_all split: if_splits)
  then obtain p where n: "rx_test NETWORK_NAME_RE n" and s: "s = URN_PREFIX @ d @ '':'' @ n"
    and p: "parseNetworkId s = Inr p"
    by (metis is_ok_iff)
  note n' = parseNetworkId_InrD(4) [OF p]
  have "d @ '':'' @ n = pn_ownerDid p @ '':'' @ pn_name p"
    using trans [OF s [symmetric] parseNetworkId_InrD(1) [OF p]] by (simp only: same_append_eq)
  then have "splitLast CHR '':'' (d @ CHR '':'' # n) = Some (pn_ownerDid p, pn_name p)"
    using network_name_no_colon [OF n'] by (simp add: splitLast_Some_iff)
  moreover have "splitLast CHR '':'' (d @ CHR '':'' # n) = Some (d, n)"
    using network_name_no_colon [OF n] by (simp add: splitLast_Some_iff)
  ultimately have "p = \<lparr>pn_networkId = s, pn_ownerDid = d, pn_name = n\<rparr>"
    using parseNetworkId_InrD(2) [OF p] by (cases p) simp
  with p show "parseNetworkId s = Inr \<lparr>pn_networkId = s, pn_ownerDid = d, pn_name = n\<rparr>"
    by simp
next
  assume p: "parseNetworkId s = Inr \<lparr>pn_networkId = s, pn_ownerDid = d, pn_name = n\<rparr>"
  then have "s = URN_PREFIX @ d @ '':'' @ n" "startsWith d ''did:''" "rx_test NETWORK_NAME_RE n"
    using parseNetworkId_InrD [OF p] by simp_all
  with p show "buildNetworkId d n = Inr s"
    by (simp add: buildNetworkId_def Let_def)
qed

text \<open>\<open>ownerDidMatches\<close> is an equivalence relation on owner DIDs, so comparing principals
  with it is well defined although it ignores the letter case of \<open>did:pkh:eip155\<close> addresses.\<close>

theorem ownerDidMatches_equivp: "equivp ownerDidMatches"
proof (rule equivpI)
  show "reflp ownerDidMatches"
    by (auto simp: reflp_def ownerDidMatches_def split: option.splits)
  show "symp ownerDidMatches"
    by (auto simp: symp_def ownerDidMatches_def split: option.splits)
  show "transp ownerDidMatches"
    by (auto simp: transp_def ownerDidMatches_def split: option.splits)
qed

end
