(* ===== verification/Pkh.thy ===== *)
theory Pkh
  imports NetworkId
begin

text \<open>
  The identity functions of \<^verbatim>\<open>packages/bootstrap/src/index.ts\<close>: \<open>did:pkh:eip155\<close> DIDs and
  space identifiers. They call \<open>isAddress\<close> and \<open>getAddress\<close> of the \<open>viem\<close> package, which is
  not part of the repository: a record of the two functions is the first argument of every
  definition that reaches them, and \<open>evm_lib_ok\<close> states their documented behaviour.
\<close>

section \<open>The address library\<close>

record evm_lib =
  isAddress :: "string \<Rightarrow> bool"     \<comment> \<open>with \<open>strict: false\<close>\<close>
  getAddress :: "string \<Rightarrow> string"

text \<open>Documented behaviour of \<open>viem\<close>: a non-strict address is \<open>0x\<close> and 40 hexadecimal
  digits; \<open>getAddress\<close> changes the case of its letters only (EIP-55), and the result depends
  on the address alone, not on the case it is given in.\<close>

definition evm_lib_ok :: "evm_lib \<Rightarrow> bool" where
  "evm_lib_ok ev \<longleftrightarrow>
     (\<forall>a. isAddress ev a = rx_test ADDRESS_RE a) \<and>
     (\<forall>a. rx_test ADDRESS_RE a \<longrightarrow>
        rx_test ADDRESS_RE (getAddress ev a) \<and> toLowerCase (getAddress ev a) = toLowerCase a) \<and>
     (\<forall>a b. rx_test ADDRESS_RE a \<longrightarrow> rx_test ADDRESS_RE b \<longrightarrow>
        toLowerCase a = toLowerCase b \<longrightarrow> getAddress ev a = getAddress ev b)"

text \<open>A concrete library with this behaviour, for witnesses: all letters in lower case.\<close>

definition lower_evm :: evm_lib where
  "lower_evm = \<lparr>isAddress = rx_test ADDRESS_RE, getAddress = toLowerCase\<rparr>"

section \<open>Operations\<close>

datatype pkh_error = InvalidAddress string | InvalidChainId int | EmptySpaceName

definition MAX_SAFE_INTEGER :: int where
  "MAX_SAFE_INTEGER = 9007199254740991"

definition assertAddress :: "evm_lib \<Rightarrow> string \<Rightarrow> pkh_error + string" where
  "assertAddress ev address =
     (if \<not> isAddress ev address then Inl (InvalidAddress address) else Inr (getAddress ev address))"

text \<open>Chain ids are integers here; the code also refuses non-integers.\<close>

definition assertChainId :: "int \<Rightarrow> pkh_error + unit" where
  "assertChainId chainId = throw_if (MAX_SAFE_INTEGER < chainId \<or> chainId \<le> 0) (InvalidChainId chainId)"

definition pkhDid :: "evm_lib \<Rightarrow> string \<Rightarrow> int \<Rightarrow> pkh_error + string" where
  "pkhDid ev address chainId =
     bindR (assertChainId chainId) (\<lambda>_.
     bindR (assertAddress ev address) (\<lambda>a.
       Inr (''did:pkh:eip155:'' @ dec_of_nat (nat chainId) @ '':'' @ a)))"

definition makePkhSpaceId :: "evm_lib \<Rightarrow> string \<Rightarrow> int \<Rightarrow> string \<Rightarrow> pkh_error + string" where
  "makePkhSpaceId ev address chainId name =
     bindR (assertChainId chainId) (\<lambda>_.
     if name = [] then Inl EmptySpaceName
     else bindR (assertAddress ev address) (\<lambda>a.
       Inr (''tinycloud:pkh:eip155:'' @ dec_of_nat (nat chainId) @ '':'' @ a @ '':'' @ name)))"

section \<open>Facts\<close>

lemma ADDRESS_RE_iff:
  "rx_test ADDRESS_RE a \<longleftrightarrow> (\<exists>h. a = ''0x'' @ h \<and> list_all is_hex h \<and> length h = 40)"
proof -
  have "lang ADDRESS_RE = conc (lang (Lit ''0x'')) (lang (Between 40 40 (Cls is_hex)))"
    unfolding ADDRESS_RE_def by (simp only: lang.simps(4))
  then show ?thesis
    by (simp only: rx_test_iff lang_Lit lang_Between_Cls mem_conc_singleton mem_Collect_eq) auto
qed

lemma lower_hex: "is_hex c \<Longrightarrow> is_hex (lower_char c)"
  by (auto simp: lower_char_def Let_def char_class_defs)

lemma ADDRESS_RE_lower: "rx_test ADDRESS_RE a \<Longrightarrow> rx_test ADDRESS_RE (toLowerCase a)"
proof -
  assume "rx_test ADDRESS_RE a"
  then obtain h where h: "a = ''0x'' @ h" "list_all is_hex h" "length h = 40"
    by (auto simp: ADDRESS_RE_iff)
  have "lower_char CHR ''0'' = CHR ''0''" "lower_char CHR ''x'' = CHR ''x''"
    by (simp_all add: lower_char_def)
  then have "toLowerCase a = ''0x'' @ map lower_char h"
    using h(1) by (simp add: toLowerCase_def)
  moreover have "list_all is_hex (map lower_char h)"
    using h(2) by (simp add: list_all_iff lower_hex)
  ultimately show ?thesis
    using h(3) unfolding ADDRESS_RE_iff by (intro exI [of _ "map lower_char h"]) simp
qed

lemma toLowerCase_idem [simp]: "toLowerCase (toLowerCase s) = toLowerCase s"
  by (simp add: toLowerCase_def)

lemma lower_evm_ok: "evm_lib_ok lower_evm"
  unfolding evm_lib_ok_def lower_evm_def evm_lib.simps by (blast intro: ADDRESS_RE_lower toLowerCase_idem)

lemma evm_lib_okD:
  assumes "evm_lib_ok ev"
  shows "isAddress ev a = rx_test ADDRESS_RE a"
    and "rx_test ADDRESS_RE a \<Longrightarrow> rx_test ADDRESS_RE (getAddress ev a)"
    and "rx_test ADDRESS_RE a \<Longrightarrow> toLowerCase (getAddress ev a) = toLowerCase a"
    and "rx_test ADDRESS_RE a \<Longrightarrow> rx_test ADDRESS_RE b \<Longrightarrow> toLowerCase a = toLowerCase b
      \<Longrightarrow> getAddress ev a = getAddress ev b"
  using assms unfolding evm_lib_ok_def by blast+

lemma getAddress_idem:
  "evm_lib_ok ev \<Longrightarrow> rx_test ADDRESS_RE a \<Longrightarrow> getAddress ev (getAddress ev a) = getAddress ev a"
  by (meson evm_lib_okD)

lemma pkhDid_Inr_iff:
  "pkhDid ev a c = Inr d \<longleftrightarrow>
   0 < c \<and> c \<le> MAX_SAFE_INTEGER \<and> isAddress ev a \<and>
   d = ''did:pkh:eip155:'' @ dec_of_nat (nat c) @ '':'' @ getAddress ev a"
  by (auto simp: pkhDid_def assertChainId_def assertAddress_def result_iff)

end
