(* ===== verification/EncResource.thy ===== *)
theory EncResource
  imports Pkh
begin

text \<open>
  \<^verbatim>\<open>packages/sdk-services/src/encryption/resource.ts\<close>: typed encryption resources, that is
  bare networks, named keys and key prefixes, their parser, their builders and the coverage
  relation between them. Each code of \<open>EncryptionResourceError\<close> is a constructor of
  \<open>enc_error\<close>; \<open>LibraryError\<close> stands for an error of \<open>pkhDid\<close>, which the code lets pass.
\<close>

section \<open>Constants and types\<close>

definition segment_char :: "char \<Rightarrow> bool" where
  "segment_char c \<longleftrightarrow> is_lower c \<or> is_digit c \<or> c = CHR ''.'' \<or> c = CHR ''_'' \<or> c = CHR ''-''"

text \<open>\<open>[a-z0-9][a-z0-9._-]{0,63}\<close>\<close>

definition SEGMENT_SOURCE :: "char rx" where
  "SEGMENT_SOURCE = Cat (Cls (\<lambda>c. is_lower c \<or> is_digit c)) (Between 0 63 (Cls segment_char))"

text \<open>\<open>SEGMENT(?:/SEGMENT){0,7}\<close>\<close>

definition KEY_PATH_RE :: "char rx" where
  "KEY_PATH_RE = sep_rx CHR ''/'' 0 7 SEGMENT_SOURCE"

definition alnum :: "char \<Rightarrow> bool" where
  "alnum c \<longleftrightarrow> is_lower c \<or> is_upper c \<or> is_digit c"

definition KEY_NETWORK_RE :: "char rx" where
  "KEY_NETWORK_RE = Cat (Cls alnum)
     (Between 0 63 (Cls (\<lambda>c. alnum c \<or> c = CHR ''.'' \<or> c = CHR ''_'' \<or> c = CHR ''-'')))"

text \<open>The first group of \<open>RESOURCE_RE\<close>: \<open>did:[a-z0-9]+:[A-Za-z0-9._:-]+\<close>.\<close>

definition OWNER_RE :: "char rx" where
  "OWNER_RE = Cat (Lit ''did:'') (Cat (Some1 (Cls (\<lambda>c. is_lower c \<or> is_digit c)))
     (Cat (Lit '':'') (Some1 (Cls (\<lambda>c. alnum c \<or> c = CHR ''.'' \<or> c = CHR ''_'' \<or> c = CHR '':'' \<or> c = CHR ''-'')))))"

definition MAX_PATH_BYTES :: nat where "MAX_PATH_BYTES = 255"
definition MAX_U64 :: int where "MAX_U64 = 18446744073709551615"
definition PKH_EIP155_PREFIX :: string where "PKH_EIP155_PREFIX = ''did:pkh:eip155:''"

datatype path_kind = KeyPath | PrefixPath

datatype enc_error =
    NotEncryptionUrn
  | Malformed
  | BadOwner
  | NonCanonicalOwner string
  | BadNetwork
  | EmptyPath path_kind
  | BadPath path_kind
  | PathTooLong path_kind
  | LibraryError pkh_error

datatype enc_resource =
    NetworkResource (res_owner: string) (res_network: string) (res_networkId: string)
  | KeyResource (res_owner: string) (res_network: string) (res_networkId: string) (res_path: string)
  | PrefixResource (res_owner: string) (res_network: string) (res_networkId: string) (res_prefix: string)

section \<open>Parsing\<close>

definition canonicalOwner :: "evm_lib \<Rightarrow> string \<Rightarrow> enc_error + string" where
  "canonicalOwner ev ownerDid =
     (if \<not> startsWith ownerDid PKH_EIP155_PREFIX then Inr ownerDid
      else let rest = drop (length PKH_EIP155_PREFIX) ownerDid;
               (chain, address) =
                 (case splitFirst CHR '':'' rest of None \<Rightarrow> ([], []) | Some ca \<Rightarrow> ca)
           in if \<not> rx_test DIGITS_RE chain \<or> \<not> rx_test ADDRESS_RE address then Inl BadOwner
              else let chainId = nat_of_dec chain
                   in if chainId = 0 \<or> MAX_U64 < int chainId then Inl BadOwner
                      else (case pkhDid ev address 1 of
                          Inl e \<Rightarrow> Inl (LibraryError e)
                        | Inr did \<Rightarrow>
                            let checksummed = drop (length PKH_EIP155_PREFIX + 2) did
                            in Inr (PKH_EIP155_PREFIX @ dec_of_nat chainId @ '':'' @ checksummed)))"

definition assertCanonicalOwner :: "evm_lib \<Rightarrow> string \<Rightarrow> enc_error + unit" where
  "assertCanonicalOwner ev ownerDid =
     bindR (canonicalOwner ev ownerDid) (\<lambda>canonical.
       throw_if (canonical \<noteq> ownerDid) (NonCanonicalOwner canonical))"

definition assertPath :: "string \<Rightarrow> path_kind \<Rightarrow> enc_error + unit" where
  "assertPath path what =
     (if path = [] then Inl (EmptyPath what)
      else if MAX_PATH_BYTES < utf8_length path then Inl (PathTooLong what)
      else if \<not> rx_test KEY_PATH_RE path then Inl (BadPath what)
      else let segments = splitOn CHR ''/'' path
           in throw_if (hd segments = ''apps'' \<and>
                length segments < (if what = KeyPath then 3 else 2)) (BadPath what))"

text \<open>\<open>RESOURCE_RE.exec(body)\<close>: the owner, the network and the raw path. The owner and the
  network have no \<open>/\<close> and the network no \<open>:\<close>, so the groups are the text around the last
  \<open>:\<close> before the first \<open>/\<close> (\<open>resource_exec_iff\<close> below).\<close>

definition resource_exec :: "string \<Rightarrow> (string \<times> string \<times> string option) option" where
  "resource_exec body =
     (let (head, rawPath) =
        (case splitFirst CHR ''/'' body of None \<Rightarrow> (body, None) | Some (h, r) \<Rightarrow> (h, Some r))
      in case splitLast CHR '':'' head of
        None \<Rightarrow> None
      | Some (ownerDid, network) \<Rightarrow>
          if rx_test OWNER_RE ownerDid \<and> network \<noteq> [] then Some (ownerDid, network, rawPath) else None)"

definition parseEncryptionResource :: "evm_lib \<Rightarrow> string \<Rightarrow> enc_error + enc_resource" where
  "parseEncryptionResource ev uri =
     (if \<not> startsWith uri URN_PREFIX then Inl NotEncryptionUrn
      else case resource_exec (drop (length URN_PREFIX) uri) of
        None \<Rightarrow> Inl Malformed
      | Some (ownerDid, network, None) \<Rightarrow>
          bindR (canonicalOwner ev ownerDid) (\<lambda>canonicalOwnerDid.
            let bareId = URN_PREFIX @ canonicalOwnerDid @ '':'' @ network
            in bindR (or_throw (parseNetworkId bareId) BadNetwork) (\<lambda>_.
                 Inr (NetworkResource canonicalOwnerDid network bareId)))
      | Some (ownerDid, network, Some rawPath) \<Rightarrow>
          if \<not> rx_test KEY_NETWORK_RE network then Inl BadNetwork
          else bindR (assertCanonicalOwner ev ownerDid) (\<lambda>_.
            let networkId = URN_PREFIX @ ownerDid @ '':'' @ network
            in if endsWith rawPath ''/''
               then let pre = dropEnd 1 rawPath
                    in bindR (assertPath pre PrefixPath) (\<lambda>_.
                         Inr (PrefixResource ownerDid network networkId pre))
               else bindR (assertPath rawPath KeyPath) (\<lambda>_.
                         Inr (KeyResource ownerDid network networkId rawPath))))"

section \<open>Building\<close>

definition canonicalNetworkId :: "evm_lib \<Rightarrow> string \<Rightarrow> enc_error + string" where
  "canonicalNetworkId ev networkId =
     bindR (or_throw (parseNetworkId networkId) BadNetwork) (\<lambda>parsed.
     bindR (assertCanonicalOwner ev (pn_ownerDid parsed)) (\<lambda>_.
       Inr (pn_networkId parsed)))"

definition parseBuilt :: "evm_lib \<Rightarrow> string \<Rightarrow> string \<Rightarrow> enc_error + unit" where
  "parseBuilt ev resource networkId =
     bindR (parseEncryptionResource ev resource) (\<lambda>r.
       throw_if (res_networkId r \<noteq> networkId) Malformed)"

definition formatKeyResource :: "evm_lib \<Rightarrow> string \<Rightarrow> string \<Rightarrow> enc_error + string" where
  "formatKeyResource ev networkId path =
     bindR (canonicalNetworkId ev networkId) (\<lambda>id.
     bindR (assertPath path KeyPath) (\<lambda>_.
       let resource = id @ ''/'' @ path
       in bindR (parseBuilt ev resource id) (\<lambda>_. Inr resource)))"

definition formatPrefixResource :: "evm_lib \<Rightarrow> string \<Rightarrow> string \<Rightarrow> enc_error + string" where
  "formatPrefixResource ev networkId pre =
     bindR (canonicalNetworkId ev networkId) (\<lambda>id.
     bindR (assertPath pre PrefixPath) (\<lambda>_.
       let resource = id @ ''/'' @ pre @ ''/''
       in bindR (parseBuilt ev resource id) (\<lambda>_. Inr resource)))"

section \<open>Coverage\<close>

fun resource_covers :: "enc_resource \<Rightarrow> enc_resource \<Rightarrow> bool" where
  "resource_covers (NetworkResource _ _ _) r = (case r of NetworkResource _ _ _ \<Rightarrow> True | _ \<Rightarrow> False)"
| "resource_covers (KeyResource _ _ _ gpath) r =
     (case r of KeyResource _ _ _ rpath \<Rightarrow> rpath = gpath | _ \<Rightarrow> False)"
| "resource_covers (PrefixResource _ _ _ gprefix) r =
     (case r of
        KeyResource _ _ _ rpath \<Rightarrow> startsWith rpath (gprefix @ ''/'')
      | PrefixResource _ _ _ rprefix \<Rightarrow> startsWith (rprefix @ ''/'') (gprefix @ ''/'')
      | NetworkResource _ _ _ \<Rightarrow> False)"

definition encryptionResourceContains :: "evm_lib \<Rightarrow> string \<Rightarrow> string \<Rightarrow> bool" where
  "encryptionResourceContains ev granted requested =
     (case (parseEncryptionResource ev granted, parseEncryptionResource ev requested) of
        (Inr g, Inr r) \<Rightarrow> res_networkId g = res_networkId r \<and> resource_covers g r
      | _ \<Rightarrow> False)"

section \<open>Node support\<close>

definition NAMED_KEYS_FEATURE :: string where
  "NAMED_KEYS_FEATURE = ''encryption-named-keys-v1''"

text \<open>\<open>info?.features\<close>: \<open>None\<close> is a missing node answer or a \<open>features\<close> field that is not an
  array; the elements of an array are strings or other values (\<open>None\<close>).\<close>

definition nodeSupportsNamedKeys :: "string option list option \<Rightarrow> bool" where
  "nodeSupportsNamedKeys features =
     (case features of None \<Rightarrow> False | Some fs \<Rightarrow> Some NAMED_KEYS_FEATURE \<in> set fs)"

section \<open>Facts\<close>

lemma SEGMENT_iff:
  "w \<in> lang SEGMENT_SOURCE \<longleftrightarrow>
   (\<exists>c v. w = c # v \<and> (is_lower c \<or> is_digit c) \<and> list_all segment_char v \<and> length v \<le> 63)"
proof -
  have "lang SEGMENT_SOURCE =
    conc {[c] |c. is_lower c \<or> is_digit c} (lang (Between 0 63 (Cls segment_char)))"
    unfolding SEGMENT_SOURCE_def by (simp only: lang.simps(3,4))
  then show ?thesis
    by (simp only: lang_Between_Cls mem_conc_Cls mem_Collect_eq) auto
qed

lemma segment_no_slash: "w \<in> lang SEGMENT_SOURCE \<Longrightarrow> CHR ''/'' \<notin> set w"
proof -
  assume "w \<in> lang SEGMENT_SOURCE"
  then obtain c v where w: "w = c # v" "is_lower c \<or> is_digit c" and v: "list_all segment_char v"
    by (auto simp: SEGMENT_iff)
  have "CHR ''/'' \<notin> set v"
    by (rule list_all_notin [OF v]) (simp add: segment_char_def char_class_defs)
  moreover have "c \<noteq> CHR ''/''"
    using w(2) by (auto simp: char_class_defs)
  ultimately show ?thesis
    using w(1) by auto
qed

lemma KEY_PATH_RE_iff:
  "rx_test KEY_PATH_RE w \<longleftrightarrow>
   (\<forall>p \<in> set (splitOn CHR ''/'' w). p \<in> lang SEGMENT_SOURCE) \<and> length (splitOn CHR ''/'' w) \<le> 8"
  unfolding KEY_PATH_RE_def rx_test_iff
  by (subst sep_rx_iff) (auto simp: segment_no_slash)

lemma KEY_NETWORK_RE_iff:
  "rx_test KEY_NETWORK_RE w \<longleftrightarrow>
   (\<exists>c v. w = c # v \<and> alnum c \<and> list_all (\<lambda>c. alnum c \<or> c = CHR ''.'' \<or> c = CHR ''_'' \<or> c = CHR ''-'') v
      \<and> length v \<le> 63)"
proof -
  have "lang KEY_NETWORK_RE = conc {[c] |c. alnum c}
    (lang (Between 0 63 (Cls (\<lambda>c. alnum c \<or> c = CHR ''.'' \<or> c = CHR ''_'' \<or> c = CHR ''-''))))"
    unfolding KEY_NETWORK_RE_def by (simp only: lang.simps(3,4))
  then show ?thesis
    by (simp only: rx_test_iff lang_Between_Cls mem_conc_Cls mem_Collect_eq) auto
qed

lemma OWNER_RE_iff:
  "rx_test OWNER_RE w \<longleftrightarrow>
   (\<exists>m i. w = ''did:'' @ m @ '':'' @ i \<and> m \<noteq> [] \<and> list_all (\<lambda>c. is_lower c \<or> is_digit c) m \<and>
      i \<noteq> [] \<and> list_all (\<lambda>c. alnum c \<or> c = CHR ''.'' \<or> c = CHR ''_'' \<or> c = CHR '':'' \<or> c = CHR ''-'') i)"
proof -
  have plus: "w \<in> lang (Some1 (Cls p)) \<longleftrightarrow> w \<noteq> [] \<and> list_all p w" for p :: "char \<Rightarrow> bool" and w
  proof -
    have "lang (Some1 (Cls p)) = conc {[c] |c. p c} (lang (Many (Cls p)))"
      by (simp only: lang.simps(3,4))
    then show ?thesis
      by (cases w) (auto simp: mem_conc_Cls lang_Many_Cls simp del: lang.simps)
  qed
  have l: "lang OWNER_RE = conc (lang (Lit ''did:'')) (conc (lang (Some1 (Cls (\<lambda>c. is_lower c \<or> is_digit c))))
     (conc (lang (Lit '':'')) (lang (Some1 (Cls (\<lambda>c. alnum c \<or> c = CHR ''.'' \<or> c = CHR ''_'' \<or> c = CHR '':'' \<or> c = CHR ''-''))))))"
    unfolding OWNER_RE_def by (simp only: lang.simps(4))
  have "w \<in> lang OWNER_RE \<longleftrightarrow> (\<exists>v. w = ''did:'' @ v \<and>
     (\<exists>m t. v = m @ t \<and> m \<in> lang (Some1 (Cls (\<lambda>c. is_lower c \<or> is_digit c))) \<and>
       (\<exists>i. t = '':'' @ i \<and> i \<in> lang (Some1 (Cls (\<lambda>c. alnum c \<or> c = CHR ''.'' \<or> c = CHR ''_'' \<or> c = CHR '':'' \<or> c = CHR ''-''))))))"
    unfolding l lang_Lit mem_conc_singleton by (auto simp only: conc_def mem_conc_singleton [unfolded conc_def])
  then show ?thesis
    unfolding rx_test_iff plus by blast
qed

lemma owner_no_slash: "rx_test OWNER_RE w \<Longrightarrow> CHR ''/'' \<notin> set w"
proof -
  assume "rx_test OWNER_RE w"
  then obtain m i where w: "w = ''did:'' @ m @ '':'' @ i"
    and m: "list_all (\<lambda>c. is_lower c \<or> is_digit c) m"
    and i: "list_all (\<lambda>c. alnum c \<or> c = CHR ''.'' \<or> c = CHR ''_'' \<or> c = CHR '':'' \<or> c = CHR ''-'') i"
    by (auto simp: OWNER_RE_iff)
  have "CHR ''/'' \<notin> set m"
    by (rule list_all_notin [OF m]) (simp add: char_class_defs)
  moreover have "CHR ''/'' \<notin> set i"
    by (rule list_all_notin [OF i]) (simp add: alnum_def char_class_defs)
  ultimately show ?thesis
    using w by simp
qed

text \<open>The groups \<open>RESOURCE_RE\<close> captures, by the pattern itself.\<close>

lemma resource_exec_iff:
  "resource_exec body = Some (o', n, raw) \<longleftrightarrow>
   body = o' @ '':'' @ n @ (case raw of None \<Rightarrow> [] | Some r \<Rightarrow> ''/'' @ r) \<and>
   rx_test OWNER_RE o' \<and> n \<noteq> [] \<and> CHR '':'' \<notin> set n \<and> CHR ''/'' \<notin> set n"
  (is "?l \<longleftrightarrow> ?r")
proof
  assume ?l
  then obtain hd' where h: "(case splitFirst CHR ''/'' body of None \<Rightarrow> (body, None) | Some (h, r) \<Rightarrow> (h, Some r)) = (hd', raw)"
    and l: "splitLast CHR '':'' hd' = Some (o', n)" "rx_test OWNER_RE o'" "n \<noteq> []"
    by (auto simp: resource_exec_def split: prod.splits option.splits if_splits)
  have "hd' = o' @ CHR '':'' # n" and c: "CHR '':'' \<notin> set n"
    using l(1) by (simp_all add: splitLast_Some_iff)
  moreover have "body = hd' @ (case raw of None \<Rightarrow> [] | Some r \<Rightarrow> ''/'' @ r) \<and> CHR ''/'' \<notin> set hd'"
    using h by (auto simp: splitFirst_Some_iff splitFirst_None_iff split: option.splits)
  ultimately show ?r
    using l by simp
next
  assume r: ?r
  have ns: "CHR ''/'' \<notin> set (o' @ CHR '':'' # n)"
    using r owner_no_slash by simp
  have "(case splitFirst CHR ''/'' body of None \<Rightarrow> (body, None) | Some (h, r) \<Rightarrow> (h, Some r))
      = (o' @ CHR '':'' # n, raw)"
  proof (cases raw)
    case None
    then have "body = o' @ CHR '':'' # n" using r by simp
    moreover from this ns have "splitFirst CHR ''/'' body = None"
      by (simp add: splitFirst_None_iff)
    ultimately show ?thesis using None by simp
  next
    case (Some p)
    then have "splitFirst CHR ''/'' body = Some (o' @ CHR '':'' # n, p)"
      using r ns by (simp add: splitFirst_Some_iff)
    then show ?thesis using Some by simp
  qed
  moreover have "splitLast CHR '':'' (o' @ CHR '':'' # n) = Some (o', n)"
    using r by (simp add: splitLast_Some_iff)
  moreover have "rx_test OWNER_RE o' \<and> n \<noteq> []"
    using r by simp
  ultimately show ?l
    unfolding resource_exec_def by simp
qed

lemma resource_exec_None_iff:
  "resource_exec body = None \<longleftrightarrow> (\<nexists>o' n raw. resource_exec body = Some (o', n, raw))"
  by (cases "resource_exec body") auto

lemma key_network_plain: "rx_test KEY_NETWORK_RE n \<Longrightarrow> n \<noteq> [] \<and> CHR '':'' \<notin> set n \<and> CHR ''/'' \<notin> set n"
proof -
  assume "rx_test KEY_NETWORK_RE n"
  then obtain c v where n: "n = c # v" "alnum c"
    and v: "list_all (\<lambda>c. alnum c \<or> c = CHR ''.'' \<or> c = CHR ''_'' \<or> c = CHR ''-'') v"
    by (auto simp: KEY_NETWORK_RE_iff)
  have "CHR '':'' \<notin> set v" and "CHR ''/'' \<notin> set v"
    by (rule list_all_notin [OF v], simp add: alnum_def char_class_defs)+
  moreover have "c \<noteq> CHR '':''" and "c \<noteq> CHR ''/''"
    using n(2) by (auto simp: alnum_def char_class_defs)
  ultimately show ?thesis
    using n(1) by auto
qed

lemma assertPath_ok_iff:
  "assertPath p k = Inr u \<longleftrightarrow>
   utf8_length p \<le> 255 \<and> (\<forall>w \<in> set (splitOn CHR ''/'' p). w \<in> lang SEGMENT_SOURCE) \<and>
   length (splitOn CHR ''/'' p) \<le> 8 \<and>
   (hd (splitOn CHR ''/'' p) = ''apps'' \<longrightarrow> (if k = KeyPath then 3 else 2) \<le> length (splitOn CHR ''/'' p))"
  by (cases "p = []")
     (auto simp: assertPath_def KEY_PATH_RE_iff MAX_PATH_BYTES_def throw_if_def Let_def SEGMENT_iff)

lemma path_ok_no_trailing:
  assumes "assertPath p k = Inr u"
  shows "\<not> endsWith p ''/''"
proof
  assume "endsWith p ''/''"
  then obtain r where "p = r @ ''/''" by (auto simp: endsWith_iff)
  then have "[] \<in> set (splitOn CHR ''/'' p)"
    by (simp add: splitOn_sep)
  then have "[] \<in> lang SEGMENT_SOURCE"
    using assms by (auto simp: assertPath_ok_iff)
  then show False
    by (simp add: SEGMENT_iff)
qed

lemma parse_resource_cases:
  "parseEncryptionResource ev (URN_PREFIX @ o' @ '':'' @ n @ (case raw of None \<Rightarrow> [] | Some r \<Rightarrow> ''/'' @ r)) =
   (case raw of
      None \<Rightarrow> bindR (canonicalOwner ev o') (\<lambda>c.
        bindR (or_throw (parseNetworkId (URN_PREFIX @ c @ '':'' @ n)) BadNetwork) (\<lambda>_.
          Inr (NetworkResource c n (URN_PREFIX @ c @ '':'' @ n))))
    | Some r \<Rightarrow>
        if \<not> rx_test KEY_NETWORK_RE n then Inl BadNetwork
        else bindR (assertCanonicalOwner ev o') (\<lambda>_.
          if endsWith r ''/''
          then bindR (assertPath (dropEnd 1 r) PrefixPath) (\<lambda>_.
            Inr (PrefixResource o' n (URN_PREFIX @ o' @ '':'' @ n) (dropEnd 1 r)))
          else bindR (assertPath r KeyPath) (\<lambda>_.
            Inr (KeyResource o' n (URN_PREFIX @ o' @ '':'' @ n) r))))"
  if "rx_test OWNER_RE o'" "n \<noteq> []" "CHR '':'' \<notin> set n" "CHR ''/'' \<notin> set n"
proof -
  let ?body = "o' @ '':'' @ n @ (case raw of None \<Rightarrow> [] | Some r \<Rightarrow> ''/'' @ r)"
  have "resource_exec ?body = Some (o', n, raw)"
    using that by (simp only: resource_exec_iff) simp
  moreover have "drop (length URN_PREFIX) (URN_PREFIX @ ?body) = ?body"
    by simp
  moreover have "startsWith (URN_PREFIX @ ?body) URN_PREFIX"
    by (simp only: prefix_def) blast
  ultimately show ?thesis
    unfolding parseEncryptionResource_def by (cases raw) (simp_all only: Let_def option.case prod.case if_True if_False not_True_eq_False simp_thms)
qed

lemma parse_resource_shape:
  assumes "parseEncryptionResource ev s = Inr r"
  obtains o' n raw where "s = URN_PREFIX @ o' @ '':'' @ n @ (case raw of None \<Rightarrow> [] | Some r \<Rightarrow> ''/'' @ r)"
    "rx_test OWNER_RE o'" "n \<noteq> []" "CHR '':'' \<notin> set n" "CHR ''/'' \<notin> set n"
proof -
  have pre: "startsWith s URN_PREFIX"
    using assms by (auto simp: parseEncryptionResource_def split: if_splits)
  then obtain t where t: "resource_exec (drop (length URN_PREFIX) s) = Some t"
    using assms by (cases "resource_exec (drop (length URN_PREFIX) s)")
      (auto simp: parseEncryptionResource_def)
  obtain o' n raw where "t = (o', n, raw)" by (cases t) auto
  with t have e: "resource_exec (drop (length URN_PREFIX) s) = Some (o', n, raw)" by simp
  show ?thesis
  proof (rule that [of o' n raw])
    show "s = URN_PREFIX @ o' @ '':'' @ n @ (case raw of None \<Rightarrow> [] | Some r \<Rightarrow> ''/'' @ r)"
      using startsWith_drop [OF pre] e by (simp only: resource_exec_iff)
  qed (use e [unfolded resource_exec_iff] in blast)+
qed

lemma parse_key_iff:
  "parseEncryptionResource ev s = Inr (KeyResource o' n id' p) \<longleftrightarrow>
   s = id' @ ''/'' @ p \<and> id' = URN_PREFIX @ o' @ '':'' @ n \<and> rx_test OWNER_RE o' \<and>
   rx_test KEY_NETWORK_RE n \<and> assertCanonicalOwner ev o' = Inr () \<and> assertPath p KeyPath = Inr ()"
  (is "?l \<longleftrightarrow> ?r")
proof
  assume l: ?l
  obtain o1 n1 raw where s: "s = URN_PREFIX @ o1 @ '':'' @ n1 @ (case raw of None \<Rightarrow> [] | Some r \<Rightarrow> ''/'' @ r)"
    and ok: "rx_test OWNER_RE o1" "n1 \<noteq> []" "CHR '':'' \<notin> set n1" "CHR ''/'' \<notin> set n1"
    by (rule parse_resource_shape [OF l])
  show ?r
  proof (cases raw)
    case None
    then show ?thesis
      using l [unfolded s parse_resource_cases [OF ok]] by (auto simp: result_iff Let_def)
  next
    case (Some r)
    then show ?thesis
      using l [unfolded s parse_resource_cases [OF ok]] s ok(1)
      by (auto simp: result_iff Let_def split: if_splits)
  qed
next
  assume r: ?r
  then show ?l
    using key_network_plain [of n] path_ok_no_trailing [of p KeyPath "()"]
      parse_resource_cases [of o' n ev "Some p"] by auto
qed

lemma parse_prefix_iff:
  "parseEncryptionResource ev s = Inr (PrefixResource o' n id' p) \<longleftrightarrow>
   s = id' @ ''/'' @ p @ ''/'' \<and> id' = URN_PREFIX @ o' @ '':'' @ n \<and> rx_test OWNER_RE o' \<and>
   rx_test KEY_NETWORK_RE n \<and> assertCanonicalOwner ev o' = Inr () \<and> assertPath p PrefixPath = Inr ()"
  (is "?l \<longleftrightarrow> ?r")
proof
  assume l: ?l
  obtain o1 n1 raw where s: "s = URN_PREFIX @ o1 @ '':'' @ n1 @ (case raw of None \<Rightarrow> [] | Some r \<Rightarrow> ''/'' @ r)"
    and ok: "rx_test OWNER_RE o1" "n1 \<noteq> []" "CHR '':'' \<notin> set n1" "CHR ''/'' \<notin> set n1"
    by (rule parse_resource_shape [OF l])
  show ?r
  proof (cases raw)
    case None
    then show ?thesis
      using l [unfolded s parse_resource_cases [OF ok]] by (auto simp: result_iff Let_def)
  next
    case (Some r)
    then show ?thesis
      using l [unfolded s parse_resource_cases [OF ok]] s ok(1)
      by (auto simp: result_iff Let_def endsWith_iff split: if_splits)
  qed
next
  assume r: ?r
  then show ?l
    using key_network_plain [of n] parse_resource_cases [of o' n ev "Some (p @ ''/'')"] by auto
qed

lemma parse_network_iff:
  "parseEncryptionResource ev s = Inr (NetworkResource o' n id') \<longleftrightarrow>
   (\<exists>o0. s = URN_PREFIX @ o0 @ '':'' @ n \<and> rx_test OWNER_RE o0 \<and> canonicalOwner ev o0 = Inr o' \<and>
     id' = URN_PREFIX @ o' @ '':'' @ n \<and> CHR '':'' \<notin> set n \<and> CHR ''/'' \<notin> set n \<and> n \<noteq> [] \<and>
     isNetworkId id')"
  (is "?l \<longleftrightarrow> ?r")
proof
  assume l: ?l
  obtain o1 n1 raw where s: "s = URN_PREFIX @ o1 @ '':'' @ n1 @ (case raw of None \<Rightarrow> [] | Some r \<Rightarrow> ''/'' @ r)"
    and ok: "rx_test OWNER_RE o1" "n1 \<noteq> []" "CHR '':'' \<notin> set n1" "CHR ''/'' \<notin> set n1"
    by (rule parse_resource_shape [OF l])
  show ?r
  proof (cases raw)
    case None
    then show ?thesis
      using l [unfolded s parse_resource_cases [OF ok]] s ok
      by (auto simp: result_iff Let_def isNetworkId_def is_ok_iff)
  next
    case (Some r)
    then show ?thesis
      using l [unfolded s parse_resource_cases [OF ok]]
      by (auto simp: result_iff Let_def split: if_splits)
  qed
next
  assume ?r
  then show ?l
    using parse_resource_cases [of _ n ev None]
    by (auto simp: isNetworkId_def is_ok_iff)
qed

lemmas parse_resource_iffs = parse_key_iff parse_prefix_iff parse_network_iff

section \<open>What a resource covers\<close>

text \<open>The abstract meaning of a resource inside its network: the set of key paths, as lists of
  segments, that it stands for. A bare network stands for itself, written as the empty path,
  which no key has.\<close>

fun resource_scope :: "enc_resource \<Rightarrow> string list set" where
  "resource_scope (NetworkResource _ _ _) = {[]}"
| "resource_scope (KeyResource _ _ _ p) = {splitOn CHR ''/'' p}"
| "resource_scope (PrefixResource _ _ _ p) = {ks. strict_prefix (splitOn CHR ''/'' p) ks}"

lemma strict_extensions_subset:
  "{ks. strict_prefix xs ks} \<subseteq> {ks. strict_prefix ys ks} \<longleftrightarrow> prefix ys xs"
  for xs ys :: "string list"
proof
  assume sub: "{ks. strict_prefix xs ks} \<subseteq> {ks. strict_prefix ys ks}"
  fix a :: string
  have "strict_prefix ys (xs @ [a])"
    using subsetD [OF sub, of "xs @ [a]"] by simp
  then show "prefix ys xs"
    by simp
next
  assume "prefix ys xs"
  then show "{ks. strict_prefix xs ks} \<subseteq> {ks. strict_prefix ys ks}"
    by (auto intro: prefix_order.le_less_trans)
qed

lemma prefix_sep_sep: "prefix (a @ [c]) (b @ [c]) \<longleftrightarrow> prefix (splitOn c a) (splitOn c b)"
proof -
  have "prefix (a @ [c]) (b @ [c]) \<longleftrightarrow> strict_prefix (splitOn c a) (splitOn c b @ [[]])"
    by (simp only: prefix_sep_iff splitOn_sep splitOn.simps)
  then show ?thesis
    by simp
qed

lemma splitOn_neq_Nil [simp]: "[] \<noteq> splitOn c s"
  by (metis splitOn_not_Nil)

lemma resource_covers_iff: "resource_covers g r \<longleftrightarrow> resource_scope r \<subseteq> resource_scope g"
proof (cases g)
  case (NetworkResource x1 x2 x3)
  moreover have "\<not> {ks. strict_prefix xs ks} \<subseteq> {[]}" for xs :: "string list"
  proof
    assume "{ks. strict_prefix xs ks} \<subseteq> {[]}"
    moreover have "strict_prefix xs (xs @ [[]])" by simp
    ultimately show False by blast
  qed
  ultimately show ?thesis by (cases r) auto
next
  case (KeyResource x1 x2 x3 p)
  have "\<not> {ks. strict_prefix xs ks} \<subseteq> {ys}" for xs ys :: "string list"
  proof
    assume "{ks. strict_prefix xs ks} \<subseteq> {ys}"
    moreover have "strict_prefix xs (xs @ [[]])" and "strict_prefix xs ((xs @ [[]]) @ [[]])"
      by (simp, simp only: strict_prefix_snoc, simp)
    ultimately have "xs @ [[]] = (xs @ [[]]) @ [[]]" by blast
    then show False by simp
  qed
  with KeyResource show ?thesis by (cases r) auto
next
  case (PrefixResource x1 x2 x3 p)
  then show ?thesis
    by (cases r) (auto simp: prefix_sep_iff prefix_sep_sep strict_extensions_subset strict_prefix_def)
qed

section \<open>Properties\<close>

text \<open>C34: \<open>encryptionResourceContains\<close> is inclusion of what the two resources stand for: it
  holds exactly when both strings parse, name the same network, and every key path (as a list
  of whole segments) the requested resource stands for is one the granted resource stands for.\<close>

theorem encryptionResourceContains_scope:
  "encryptionResourceContains ev granted requested \<longleftrightarrow>
   (\<exists>g r. parseEncryptionResource ev granted = Inr g \<and> parseEncryptionResource ev requested = Inr r \<and>
      res_networkId g = res_networkId r \<and> resource_scope r \<subseteq> resource_scope g)"
  by (simp add: encryptionResourceContains_def resource_covers_iff split: sum.splits)

lemma canonicalNetworkId_iff:
  "canonicalNetworkId ev i = Inr j \<longleftrightarrow>
   j = i \<and> (\<exists>q. parseNetworkId i = Inr q \<and> assertCanonicalOwner ev (pn_ownerDid q) = Inr ())"
  by (auto simp: canonicalNetworkId_def result_iff dest: parseNetworkId_InrD(2))

lemma canonicalNetworkId_parts:
  assumes id: "isNetworkId i" "i = URN_PREFIX @ o' @ '':'' @ n" and n: "rx_test KEY_NETWORK_RE n"
    and o': "assertCanonicalOwner ev o' = Inr ()"
  shows "canonicalNetworkId ev i = Inr i"
proof -
  obtain q where q: "parseNetworkId i = Inr q"
    using id(1) by (auto simp: isNetworkId_def is_ok_iff)
  have "URN_PREFIX @ pn_ownerDid q @ '':'' @ pn_name q = URN_PREFIX @ o' @ '':'' @ n"
    using parseNetworkId_InrD(1) [OF q] id(2) by metis
  then have "pn_ownerDid q = o'"
    using last_sep_inject [of "pn_ownerDid q" _ "pn_name q" o' n]
      network_name_no_colon [OF parseNetworkId_InrD(4) [OF q]] key_network_plain [OF n] by auto
  with q o' show ?thesis
    by (simp add: canonicalNetworkId_iff)
qed

lemma network_resource_no_slash:
  "parseEncryptionResource ev s = Inr (NetworkResource o' n i) \<Longrightarrow> CHR ''/'' \<notin> set s"
  using owner_no_slash by (auto simp: parse_network_iff URN_PREFIX_def)

text \<open>The builder of key resources and the parser are inverse: a string is what
  \<open>formatKeyResource\<close> builds from a network id and a path exactly when it parses to the key
  with that path on that network, the network id being one \<open>parseNetworkId\<close> accepts.\<close>

theorem key_resource_roundtrip:
  "formatKeyResource ev networkId path = Inr s \<longleftrightarrow>
   isNetworkId networkId \<and>
   (\<exists>owner network. parseEncryptionResource ev s = Inr (KeyResource owner network networkId path))"
  (is "?l \<longleftrightarrow> ?r")
proof
  assume ?l
  then have id: "isNetworkId networkId" and path: "assertPath path KeyPath = Inr ()"
    and s: "s = networkId @ ''/'' @ path" and built: "parseBuilt ev s networkId = Inr ()"
    by (auto simp: formatKeyResource_def canonicalNetworkId_iff isNetworkId_def Let_def result_iff)
  then obtain r where r: "parseEncryptionResource ev s = Inr r" "res_networkId r = networkId"
    by (auto simp: parseBuilt_def result_iff)
  have "r = KeyResource (res_owner r) (res_network r) networkId path"
  proof (cases r)
    case (NetworkResource o' n i)
    with s r network_resource_no_slash show ?thesis by force
  next
    case (KeyResource o' n i p)
    with r s show ?thesis by (auto simp: parse_key_iff)
  next
    case (PrefixResource o' n i p)
    then have "path = p @ ''/''"
      using r s by (auto simp: parse_prefix_iff)
    then show ?thesis
      using path_ok_no_trailing [OF path] by simp
  qed
  with r id show ?r by metis
next
  assume r: ?r
  then obtain owner network where
    parse: "parseEncryptionResource ev s = Inr (KeyResource owner network networkId path)" by blast
  note k = parse [unfolded parse_key_iff]
  have "canonicalNetworkId ev networkId = Inr networkId"
    using r k canonicalNetworkId_parts [of networkId owner network ev] by blast
  moreover have "parseBuilt ev s networkId = Inr ()"
    using parse by (simp add: parseBuilt_def)
  ultimately show ?l
    using k by (auto simp: formatKeyResource_def Let_def)
qed

text \<open>The same for key prefixes: \<open>formatPrefixResource\<close> builds the string exactly when it
  parses to the prefix resource with that prefix on that network.\<close>

theorem prefix_resource_roundtrip:
  "formatPrefixResource ev networkId pre = Inr s \<longleftrightarrow>
   isNetworkId networkId \<and>
   (\<exists>owner network. parseEncryptionResource ev s = Inr (PrefixResource owner network networkId pre))"
  (is "?l \<longleftrightarrow> ?r")
proof
  assume ?l
  then have id: "isNetworkId networkId" and path: "assertPath pre PrefixPath = Inr ()"
    and s: "s = networkId @ ''/'' @ pre @ ''/''" and built: "parseBuilt ev s networkId = Inr ()"
    by (auto simp: formatPrefixResource_def canonicalNetworkId_iff isNetworkId_def Let_def result_iff)
  then obtain r where r: "parseEncryptionResource ev s = Inr r" "res_networkId r = networkId"
    by (auto simp: parseBuilt_def result_iff)
  have "r = PrefixResource (res_owner r) (res_network r) networkId pre"
  proof (cases r)
    case (NetworkResource o' n i)
    with s r network_resource_no_slash show ?thesis by force
  next
    case (KeyResource o' n i p)
    then have "p = pre @ ''/''" and "assertPath p KeyPath = Inr ()"
      using r s by (auto simp: parse_key_iff)
    then show ?thesis
      using path_ok_no_trailing by fastforce
  next
    case (PrefixResource o' n i p)
    with r s show ?thesis by (auto simp: parse_prefix_iff)
  qed
  with r id show ?r by metis
next
  assume r: ?r
  then obtain owner network where
    parse: "parseEncryptionResource ev s = Inr (PrefixResource owner network networkId pre)" by blast
  note k = parse [unfolded parse_prefix_iff]
  have "canonicalNetworkId ev networkId = Inr networkId"
    using r k canonicalNetworkId_parts [of networkId owner network ev] by blast
  moreover have "parseBuilt ev s networkId = Inr ()"
    using parse by (simp add: parseBuilt_def)
  ultimately show ?l
    using k by (auto simp: formatPrefixResource_def Let_def)
qed

section \<open>Canonical strings\<close>

fun res_string :: "enc_resource \<Rightarrow> string" where
  "res_string (NetworkResource _ _ i) = i"
| "res_string (KeyResource _ _ i p) = i @ ''/'' @ p"
| "res_string (PrefixResource _ _ i p) = i @ ''/'' @ p @ ''/''"

lemma colon_not_digit: "list_all is_digit c \<Longrightarrow> CHR '':'' \<notin> set c"
  by (erule list_all_notin) (simp add: char_class_defs)

lemma canonicalOwner_pkh:
  assumes c: "rx_test DIGITS_RE c" and a: "rx_test ADDRESS_RE a" and lib: "evm_lib_ok ev"
  shows "canonicalOwner ev (PKH_EIP155_PREFIX @ c @ '':'' @ a) =
    (if nat_of_dec c = 0 \<or> MAX_U64 < int (nat_of_dec c) then Inl BadOwner
     else Inr (PKH_EIP155_PREFIX @ dec_of_nat (nat_of_dec c) @ '':'' @ getAddress ev a))"
proof -
  have "splitFirst CHR '':'' (c @ CHR '':'' # a) = Some (c, a)"
    using c by (simp add: splitFirst_Some_iff DIGITS_RE_iff colon_not_digit)
  moreover have one: "dec_of_nat 1 = ''1''"
    by code_simp
  have "pkhDid ev a 1 = Inr (''did:pkh:eip155:'' @ ''1:'' @ getAddress ev a)"
    using evm_lib_okD(1) [OF lib, of a] a one
    by (simp add: pkhDid_Inr_iff MAX_SAFE_INTEGER_def)
  ultimately show ?thesis
    using c a by (simp add: canonicalOwner_def PKH_EIP155_PREFIX_def Let_def)
qed

lemma canonicalOwner_cases:
  assumes "canonicalOwner ev o1 = Inr o2" and lib: "evm_lib_ok ev"
  obtains (other) "\<not> startsWith o1 PKH_EIP155_PREFIX" "o2 = o1"
  | (pkh) c a where "o1 = PKH_EIP155_PREFIX @ c @ '':'' @ a" "rx_test DIGITS_RE c" "rx_test ADDRESS_RE a"
      "o2 = PKH_EIP155_PREFIX @ dec_of_nat (nat_of_dec c) @ '':'' @ getAddress ev a"
      "0 < nat_of_dec c" "int (nat_of_dec c) \<le> MAX_U64"
proof (cases "startsWith o1 PKH_EIP155_PREFIX")
  case False
  show ?thesis
    by (rule other [OF False]) (use assms(1) False in \<open>simp add: canonicalOwner_def\<close>)
next
  case True
  define rest where "rest = drop (length PKH_EIP155_PREFIX) o1"
  have o1: "o1 = PKH_EIP155_PREFIX @ rest"
    using startsWith_drop [OF True] by (simp add: rest_def)
  obtain c a where sp: "(case splitFirst CHR '':'' rest of None \<Rightarrow> ([], []) | Some ca \<Rightarrow> ca) = (c, a)"
    by (cases "splitFirst CHR '':'' rest") auto
  have re: "rx_test DIGITS_RE c" "rx_test ADDRESS_RE a"
    using assms(1) True sp by (auto simp: canonicalOwner_def rest_def [symmetric] Let_def split: if_splits)
  then have "c \<noteq> []"
    by (simp add: DIGITS_RE_iff)
  then have "rest = c @ CHR '':'' # a"
    using sp by (auto simp: splitFirst_Some_iff split: option.splits)
  with o1 have o1': "o1 = PKH_EIP155_PREFIX @ c @ '':'' @ a"
    by simp
  show ?thesis
    using pkh [OF o1' re] canonicalOwner_pkh [OF re lib] assms(1) o1'
    by (simp split: if_splits)
qed

lemma dec_of_nat_DIGITS: "rx_test DIGITS_RE (dec_of_nat n)"
  using dec_of_nat_digits [of n] by (simp add: DIGITS_RE_iff list_all_iff)

lemma canonicalOwner_idem:
  assumes "canonicalOwner ev o1 = Inr o2" and lib: "evm_lib_ok ev"
  shows "canonicalOwner ev o2 = Inr o2"
  using assms(1) lib
proof (cases rule: canonicalOwner_cases)
  case other
  then show ?thesis using assms(1) by simp
next
  case (pkh c a)
  then show ?thesis
    using canonicalOwner_pkh [OF dec_of_nat_DIGITS evm_lib_okD(2) [OF lib pkh(3)] lib]
      getAddress_idem [OF lib pkh(3)] by simp
qed

lemma canonicalOwner_OWNER_RE:
  assumes "canonicalOwner ev o1 = Inr o2" and lib: "evm_lib_ok ev" and o1: "rx_test OWNER_RE o1"
  shows "rx_test OWNER_RE o2"
  using assms(1) lib
proof (cases rule: canonicalOwner_cases)
  case other
  then show ?thesis using o1 by simp
next
  case (pkh c a)
  let ?i = "''eip155:'' @ dec_of_nat (nat_of_dec c) @ '':'' @ getAddress ev a"
  obtain h where h: "getAddress ev a = ''0x'' @ h" "list_all is_hex h"
    using evm_lib_okD(2) [OF lib pkh(3)] by (auto simp: ADDRESS_RE_iff)
  have hex: "is_hex x \<Longrightarrow> alnum x" for x
    by (auto simp: alnum_def char_class_defs)
  have "list_all alnum h"
    using h(2) hex by (auto simp: list_all_iff)
  moreover have "list_all alnum (dec_of_nat (nat_of_dec c))"
    using dec_of_nat_digits [of "nat_of_dec c"] by (auto simp: list_all_iff alnum_def)
  ultimately have "list_all (\<lambda>x. alnum x \<or> x = CHR ''.'' \<or> x = CHR ''_'' \<or> x = CHR '':'' \<or> x = CHR ''-'') ?i"
    using h(1) by (auto simp: list_all_iff alnum_def char_class_defs)
  moreover have "o2 = ''did:'' @ ''pkh'' @ '':'' @ ?i"
    using pkh(4) by (simp add: PKH_EIP155_PREFIX_def)
  moreover have "list_all (\<lambda>c. is_lower c \<or> is_digit c) ''pkh''"
    by (simp add: char_class_defs)
  ultimately show ?thesis
    unfolding OWNER_RE_iff by (intro exI [of _ "''pkh''"] exI [of _ ?i]) simp
qed

text \<open>Parsing canonicalises. The string rebuilt from what a resource parses to parses to the
  same resource again, under the documented behaviour of the address library; for keys and
  prefixes it is the very string that was parsed, so non-canonical input was refused.\<close>

theorem parse_resource_canonical:
  assumes lib: "evm_lib_ok ev" and "parseEncryptionResource ev s = Inr r"
  shows "parseEncryptionResource ev (res_string r) = Inr r \<and>
    ((\<exists>o' n i. r = NetworkResource o' n i) \<or> res_string r = s)"
proof (cases r)
  case (NetworkResource o' n i)
  then show ?thesis
    using assms(2) canonicalOwner_idem [OF _ lib] canonicalOwner_OWNER_RE [OF _ lib]
    by (auto simp: parse_network_iff)
next
  case (KeyResource o' n i p)
  then show ?thesis
    using assms(2) by (auto simp: parse_key_iff)
next
  case (PrefixResource o' n i p)
  then show ?thesis
    using assms(2) by (auto simp: parse_prefix_iff)
qed

lemma parse_resource_canonical_witness:
  "parseEncryptionResource lower_evm
     ''urn:tinycloud:encryption:did:pkh:eip155:007:0x00112233445566778899aAbBcCdDeEfF00112233:default''
   = Inr (NetworkResource ''did:pkh:eip155:7:0x00112233445566778899aabbccddeeff00112233'' ''default''
       ''urn:tinycloud:encryption:did:pkh:eip155:7:0x00112233445566778899aabbccddeeff00112233:default'') \<and>
   parseEncryptionResource lower_evm
     ''urn:tinycloud:encryption:did:pkh:eip155:7:0x00112233445566778899aabbccddeeff00112233:default''
   = Inr (NetworkResource ''did:pkh:eip155:7:0x00112233445566778899aabbccddeeff00112233'' ''default''
       ''urn:tinycloud:encryption:did:pkh:eip155:7:0x00112233445566778899aabbccddeeff00112233:default'')"
  (is "parseEncryptionResource _ ?raw = Inr ?r \<and> _")
proof -
  have p: "parseEncryptionResource lower_evm ?raw = Inr ?r"
    by code_simp
  show ?thesis
    using parse_resource_canonical [OF lower_evm_ok p] p by simp
qed

end
