(* ===== verification/SecretPaths.thy ===== *)
theory SecretPaths
  imports Regex
begin

text \<open>
  \<^verbatim>\<open>packages/sdk-services/src/secrets/paths.ts\<close>: names, scopes and storage paths of secrets.
  The three \<open>replace\<close> calls on scopes are the list functions \<open>replace_each\<close>,
  \<open>replace_runs\<close>, \<open>strip_one\<close> and \<open>strip_all\<close>; both scope functions are shown to compute
  one reference definition, the hyphenated words of the input (\<open>scope_words\<close>).
\<close>

section \<open>Constants and types\<close>

text \<open>\<open>/^[A-Z][A-Z0-9_]*$/\<close> and \<open>/^[a-z0-9]+(-[a-z0-9]+)*$/\<close>\<close>

definition SECRET_NAME_RE :: "char rx" where
  "SECRET_NAME_RE = Cat (Cls is_upper) (Many (Cls (\<lambda>c. is_upper c \<or> is_digit c \<or> c = CHR ''_'')))"

definition scope_char :: "char \<Rightarrow> bool" where
  "scope_char c \<longleftrightarrow> is_lower c \<or> is_digit c"

definition SECRET_SCOPE_RE :: "char rx" where
  "SECRET_SCOPE_RE =
     Cat (Some1 (Cls scope_char)) (Many (Cat (Lit ''-'') (Some1 (Cls scope_char))))"

definition SECRET_PREFIX :: string where "SECRET_PREFIX = ''secrets/''"
definition SCOPED_SECRET_PREFIX :: string where "SCOPED_SECRET_PREFIX = ''secrets/scoped/''"
definition RESERVED_SECRET_SCOPES :: "string list" where
  "RESERVED_SECRET_SCOPES = [''default'', ''global'']"
definition MAX_SECRET_SCOPE_LENGTH :: nat where "MAX_SECRET_SCOPE_LENGTH = 64"
definition TC832_RESERVED_SCOPES :: "string list" where
  "TC832_RESERVED_SCOPES = [''default'', ''global'', ''scoped'']"

datatype secret_error =
    EmptyAppId
  | AppIdWithoutLetter string
  | AppScopeTooLong string
  | AppScopeReserved string string
  | EmptySecretScope
  | SecretScopeWithoutLetter
  | SecretScopeReserved string
  | InvalidSecretName string

record resolved_secret_path =
  sp_name :: string
  sp_scope :: "string option"
  sp_vaultKey :: string
  sp_permission :: string      \<comment> \<open>\<open>permissionPaths.vault\<close>\<close>

section \<open>Operations\<close>

text \<open>\<open>s.replace(/[p]/g, c)\<close>, \<open>s.replace(/[p]+/g, c)\<close>, \<open>s.replace(/^c|c$/g, "")\<close> and
  \<open>s.replace(/^c+|c+$/g, "")\<close>.\<close>

definition replace_each :: "('a \<Rightarrow> bool) \<Rightarrow> 'a \<Rightarrow> 'a list \<Rightarrow> 'a list" where
  "replace_each p c s = map (\<lambda>x. if p x then c else x) s"

function replace_runs :: "('a \<Rightarrow> bool) \<Rightarrow> 'a \<Rightarrow> 'a list \<Rightarrow> 'a list" where
  "replace_runs p c [] = []"
| "replace_runs p c (x # xs) =
     (if p x then c # replace_runs p c (dropWhile p xs) else x # replace_runs p c xs)"
  by pat_completeness auto
termination
  by (relation "measure (\<lambda>(_, _, s). length s)") (auto simp: le_imp_less_Suc length_dropWhile_le)

fun strip_left :: "'a \<Rightarrow> 'a list \<Rightarrow> 'a list" where
  "strip_left c [] = []"
| "strip_left c (x # xs) = (if x = c then xs else x # xs)"

definition strip_one :: "'a \<Rightarrow> 'a list \<Rightarrow> 'a list" where
  "strip_one c s = rev (strip_left c (rev (strip_left c s)))"

definition strip_all :: "'a \<Rightarrow> 'a list \<Rightarrow> 'a list" where
  "strip_all c s = rev (dropWhile (\<lambda>x. x = c) (rev (dropWhile (\<lambda>x. x = c) s)))"

definition appSecretScope :: "string \<Rightarrow> secret_error + string" where
  "appSecretScope appId =
     (if trim appId = [] then Inl EmptyAppId
      else let scope = strip_all CHR ''-'' (replace_runs (\<lambda>c. \<not> scope_char c) CHR ''-'' (toLowerCase appId))
           in if scope = [] then Inl (AppIdWithoutLetter appId)
              else if MAX_SECRET_SCOPE_LENGTH < length scope then Inl (AppScopeTooLong appId)
              else if scope \<in> set TC832_RESERVED_SCOPES then Inl (AppScopeReserved appId scope)
              else Inr scope)"

definition canonicalizeSecretScope :: "string option \<Rightarrow> secret_error + string option" where
  "canonicalizeSecretScope scope =
     (case scope of
        None \<Rightarrow> Inr None
      | Some scope \<Rightarrow>
          let trimmed = trim scope
          in if trimmed = [] then Inl EmptySecretScope
             else let canonical =
                    strip_one CHR ''-''
                      (replace_runs (\<lambda>c. c = CHR ''-'') CHR ''-''
                        (replace_each (\<lambda>c. \<not> (scope_char c \<or> c = CHR ''-'')) CHR ''-''
                          (toLowerCase trimmed)))
                  in if canonical = [] then Inl SecretScopeWithoutLetter
                     else if canonical \<in> set RESERVED_SECRET_SCOPES then Inl (SecretScopeReserved scope)
                     else Inr (Some canonical))"

definition resolveSecretPath :: "string \<Rightarrow> string option \<Rightarrow> secret_error + resolved_secret_path" where
  "resolveSecretPath name scopeOption =
     (let normalizedName = trim name
      in if \<not> rx_test SECRET_NAME_RE normalizedName then Inl (InvalidSecretName name)
         else bindR (canonicalizeSecretScope scopeOption) (\<lambda>scope.
           let vaultKey = (case scope of
                 None \<Rightarrow> SECRET_PREFIX @ normalizedName
               | Some sc \<Rightarrow> SCOPED_SECRET_PREFIX @ sc @ ''/'' @ normalizedName)
           in Inr \<lparr>sp_name = normalizedName, sp_scope = scope, sp_vaultKey = vaultKey,
                   sp_permission = ''vault/'' @ vaultKey\<rparr>))"

definition resolveSecretListPrefix :: "string option \<Rightarrow> secret_error + string" where
  "resolveSecretListPrefix scopeOption =
     bindR (canonicalizeSecretScope scopeOption) (\<lambda>scope.
       Inr (case scope of
              None \<Rightarrow> ''vault/secrets/''
            | Some sc \<Rightarrow> ''vault/secrets/scoped/'' @ sc @ ''/''))"

definition parseSecretCatalogKey :: "string \<Rightarrow> (string \<times> string option) option" where
  "parseSecretCatalogKey key =
     (if rx_test SECRET_NAME_RE key then Some (key, None)
      else (case splitOn CHR ''/'' key of
        [p0, rawScope, name] \<Rightarrow>
          if p0 \<noteq> ''scoped'' then None
          else if name = [] \<or> \<not> rx_test SECRET_NAME_RE name then None
          else (case canonicalizeSecretScope (Some rawScope) of
            Inl _ \<Rightarrow> None
          | Inr scope \<Rightarrow> if scope \<noteq> Some rawScope then None else Some (name, scope))
      | _ \<Rightarrow> None))"

section \<open>The reference: hyphenated words\<close>

definition pieces :: "'a \<Rightarrow> 'a list \<Rightarrow> 'a list list" where
  "pieces c s = filter (\<lambda>w. w \<noteq> []) (splitOn c s)"

definition scope_words :: "string \<Rightarrow> string list" where
  "scope_words s = pieces CHR ''-'' (replace_each (\<lambda>c. \<not> scope_char c) CHR ''-'' (toLowerCase s))"

lemma pieces_simps:
  "pieces c [] = []"
  "pieces c (c # s) = pieces c s"
  by (simp_all add: pieces_def)

lemma pieces_snoc: "pieces c (s @ [c]) = pieces c s"
  by (simp add: pieces_def splitOn_sep)

lemma joinWith_Cons_Cons: "joinWith sep ((x # p) # ps) = x # joinWith sep (p # ps)"
  by (cases ps) auto

lemma joinWith_eq_Nil: "[] \<notin> set ps \<Longrightarrow> joinWith [c] ps = [] \<longleftrightarrow> ps = []"
  by (induction "[c]" ps rule: joinWith.induct) auto

lemma Nil_notin_pieces: "[] \<notin> set (pieces c s)"
  by (auto simp: pieces_def)

lemma dropWhile_runs_id:
  "ys = [] \<or> hd ys \<noteq> c \<Longrightarrow> dropWhile (\<lambda>x. x = c) (replace_runs (\<lambda>x. x = c) c ys) =
     replace_runs (\<lambda>x. x = c) c ys"
  by (cases ys) auto

lemma hd_dropWhile_neq: "dropWhile (\<lambda>x. x = c) t = [] \<or> hd (dropWhile (\<lambda>x. x = c) t) \<noteq> c"
  using hd_dropWhile [of "\<lambda>x. x = c" t] by blast

lemma dropWhile_replace_runs:
  "dropWhile (\<lambda>x. x = c) (replace_runs (\<lambda>x. x = c) c s) = replace_runs (\<lambda>x. x = c) c (dropWhile (\<lambda>x. x = c) s)"
proof (cases "s = [] \<or> hd s \<noteq> c")
  case True
  moreover from this have "dropWhile (\<lambda>x. x = c) s = s"
    by (cases s) auto
  ultimately show ?thesis
    using dropWhile_runs_id [of s c] by simp
next
  case False
  then obtain t where "s = c # t"
    by (cases s) auto
  then show ?thesis
    using dropWhile_runs_id [OF hd_dropWhile_neq, of c t] by simp
qed

lemma replace_runs_eq:
  "replace_runs (\<lambda>x. x = c) c s =
   (if s \<noteq> [] \<and> hd s = c then [c] else []) @ dropWhile (\<lambda>x. x = c) (replace_runs (\<lambda>x. x = c) c s)"
  by (cases s) (auto simp: dropWhile_replace_runs)

lemma rstrip_Cons:
  "rev (dropWhile (\<lambda>x. x = c) (rev (x # t))) =
   (if x = c \<and> rev (dropWhile (\<lambda>x. x = c) (rev t)) = [] then []
    else x # rev (dropWhile (\<lambda>x. x = c) (rev t)))"
  by (auto simp: dropWhile_append dropWhile_eq_Nil_conv)

lemma strip_all_runs:
  "strip_all c (replace_runs (\<lambda>x. x = c) c s) = joinWith [c] (pieces c s)"
proof (induction s)
  case Nil
  then show ?case by (simp add: strip_all_def pieces_def)
next
  case (Cons x xs)
  let ?R = "\<lambda>t. rev (dropWhile (\<lambda>x. x = c) (rev t))" and ?rr = "replace_runs (\<lambda>x. x = c) c"
  show ?case
  proof (cases "x = c")
    case True
    then show ?thesis
      using Cons by (simp add: strip_all_def dropWhile_replace_runs pieces_simps del: replace_runs.simps)
  next
    case False
    have L: "?R (dropWhile (\<lambda>x. x = c) (?rr xs)) = joinWith [c] (pieces c xs)"
      using Cons by (simp add: strip_all_def)
    obtain p ps where sp: "splitOn c xs = p # ps"
      by (cases "splitOn c xs") auto
    have p: "p = [] \<longleftrightarrow> xs = [] \<or> hd xs = c"
      using sp by (cases xs) (auto split: if_splits list.splits)
    have ps: "pieces c (x # xs) = (x # p) # filter (\<lambda>w. w \<noteq> []) ps"
      "pieces c xs = (if p = [] then [] else [p]) @ filter (\<lambda>w. w \<noteq> []) ps"
      using sp False by (auto simp: pieces_def)
    have "strip_all c (?rr (x # xs)) = x # ?R (?rr xs)"
      using False by (simp add: strip_all_def rstrip_Cons del: rev.simps)
    also have "?R (?rr xs) = (if xs \<noteq> [] \<and> hd xs = c \<and> pieces c xs \<noteq> []
        then c # joinWith [c] (pieces c xs) else joinWith [c] (pieces c xs))"
    proof (cases "xs \<noteq> [] \<and> hd xs = c")
      case True
      then have "?rr xs = c # dropWhile (\<lambda>x. x = c) (?rr xs)"
        using replace_runs_eq [of c xs] by simp
      then have "?R (?rr xs) = ?R (c # dropWhile (\<lambda>x. x = c) (?rr xs))"
        by (rule arg_cong)
      then show ?thesis
        using True L joinWith_eq_Nil [OF Nil_notin_pieces, of c c xs] by (simp only: rstrip_Cons) simp
    next
      case False
      then have "dropWhile (\<lambda>x. x = c) (?rr xs) = ?rr xs"
        using dropWhile_runs_id [of xs c] by blast
      with False L show ?thesis by auto
    qed
    also have "x # \<dots> = joinWith [c] (pieces c (x # xs))"
    proof (cases p)
      case Nil
      with sp p have "xs = [] \<Longrightarrow> ps = []" and "xs = [] \<or> hd xs = c"
        by auto
      with Nil ps show ?thesis
        by (cases "filter (\<lambda>w. w \<noteq> []) ps") (auto simp: pieces_simps)
    next
      case (Cons a list)
      then have "\<not> (xs \<noteq> [] \<and> hd xs = c)"
        using p by auto
      then show ?thesis
        unfolding ps using Cons by (auto simp: joinWith_Cons_Cons)
    qed
    finally show ?thesis .
  qed
qed

text \<open>After the runs are collapsed, removing one hyphen at each end removes all of them.\<close>

definition no_double :: "'a \<Rightarrow> 'a list \<Rightarrow> bool" where
  "no_double c = successively (\<lambda>x y. x = c \<longrightarrow> y \<noteq> c)"

lemma no_double_Nil [simp]: "no_double c []"
  by (simp add: no_double_def)

lemma no_double_Cons:
  "no_double c (x # t) \<longleftrightarrow> no_double c t \<and> (x = c \<longrightarrow> t = [] \<or> hd t \<noteq> c)"
  by (cases t) (auto simp: no_double_def)

lemma no_double_dropWhile: "no_double c t \<Longrightarrow> no_double c (dropWhile (\<lambda>x. x = c) t)"
  by (induction t) (auto simp: no_double_Cons)

lemma no_double_runs: "no_double c (replace_runs (\<lambda>x. x = c) c s)"
proof (induction s)
  case (Cons x xs)
  show ?case
  proof (cases "x = c")
    case True
    have d: "replace_runs (\<lambda>x. x = c) c (dropWhile (\<lambda>x. x = c) xs) =
        dropWhile (\<lambda>x. x = c) (replace_runs (\<lambda>x. x = c) c xs)"
      by (rule dropWhile_replace_runs [symmetric])
    have "no_double c (dropWhile (\<lambda>x. x = c) (replace_runs (\<lambda>x. x = c) c xs))"
      using Cons by (rule no_double_dropWhile)
    with True show ?thesis
      using hd_dropWhile_neq [of c "replace_runs (\<lambda>x. x = c) c xs"] by (simp add: no_double_Cons d)
  next
    case False
    then show ?thesis using Cons by (simp add: no_double_Cons)
  qed
qed simp

lemma strip_left_no_double: "no_double c t \<Longrightarrow> strip_left c t = dropWhile (\<lambda>x. x = c) t"
proof (cases t)
  case (Cons x xs)
  assume "no_double c t"
  then show ?thesis
    using Cons by (cases xs) (auto simp: no_double_Cons)
qed simp

lemma no_double_rev: "no_double c t \<Longrightarrow> no_double c (rev t)"
  unfolding no_double_def by (subst successively_rev) (auto elim: successively_mono)

lemma strip_one_eq: "no_double c t \<Longrightarrow> strip_one c t = strip_all c t"
  by (simp add: strip_one_def strip_all_def strip_left_no_double no_double_dropWhile no_double_rev)

lemma dropWhile_replace_each:
  "p c \<Longrightarrow> dropWhile (\<lambda>x. x = c) (replace_each p c t) = replace_each p c (dropWhile p t)"
  by (induction t) (auto simp: replace_each_def)

lemma replace_runs_each:
  "p c \<Longrightarrow> replace_runs p c s = replace_runs (\<lambda>x. x = c) c (replace_each p c s)"
proof (induction p c s rule: replace_runs.induct)
  case (2 p c x xs)
  then show ?case
    using dropWhile_replace_each [of p c xs] by (auto simp: replace_each_def)
qed (simp add: replace_each_def)

section \<open>Both scope functions compute the hyphenated words\<close>

definition scope_of :: "string \<Rightarrow> string" where
  "scope_of s = joinWith ''-'' (scope_words s)"

lemma space_not_scope: "is_space c \<Longrightarrow> \<not> scope_char (lower_char c)"
  by (auto simp: is_space_def scope_char_def lower_char_def Let_def char_class_defs)

lemma hyphen_not_scope: "\<not> scope_char CHR ''-''"
  by (simp add: scope_char_def char_class_defs)

lemma scope_words_Cons: "\<not> scope_char (lower_char c) \<Longrightarrow> scope_words (c # s) = scope_words s"
  by (simp add: scope_words_def replace_each_def toLowerCase_def pieces_simps)

lemma scope_words_snoc: "\<not> scope_char (lower_char c) \<Longrightarrow> scope_words (s @ [c]) = scope_words s"
  by (simp add: scope_words_def replace_each_def toLowerCase_def pieces_snoc)

lemma scope_words_lspace: "scope_words (dropWhile is_space s) = scope_words s"
  by (induction s) (auto simp: scope_words_Cons space_not_scope)

lemma scope_words_rspace: "scope_words (rev (dropWhile is_space (rev s))) = scope_words s"
  by (induction s rule: rev_induct) (auto simp: scope_words_snoc space_not_scope)

lemma scope_words_trim: "scope_words (trim s) = scope_words s"
  by (simp add: trim_def scope_words_rspace scope_words_lspace)

lemma trim_Nil_scope: "trim s = [] \<Longrightarrow> scope_of s = []"
proof -
  assume "trim s = []"
  then have "scope_words s = scope_words []"
    by (metis scope_words_trim)
  then show ?thesis
    by (simp add: scope_of_def scope_words_def replace_each_def toLowerCase_def pieces_simps)
qed

lemma app_scope_eq:
  "strip_all CHR ''-'' (replace_runs (\<lambda>c. \<not> scope_char c) CHR ''-'' (toLowerCase s)) = scope_of s"
  by (simp add: replace_runs_each [where p = "\<lambda>c. \<not> scope_char c", OF hyphen_not_scope] strip_all_runs scope_of_def scope_words_def)

lemma secret_scope_eq:
  "strip_one CHR ''-'' (replace_runs (\<lambda>c. c = CHR ''-'') CHR ''-''
     (replace_each (\<lambda>c. \<not> (scope_char c \<or> c = CHR ''-'')) CHR ''-'' (toLowerCase s))) = scope_of s"
proof -
  have "replace_each (\<lambda>c. \<not> (scope_char c \<or> c = CHR ''-'')) CHR ''-'' t =
      replace_each (\<lambda>c. \<not> scope_char c) CHR ''-'' t" for t
    by (auto simp: replace_each_def)
  then show ?thesis
    by (simp add: strip_one_eq [OF no_double_runs] strip_all_runs scope_of_def scope_words_def)
qed

lemma appSecretScope_iff:
  "appSecretScope a = Inr c \<longleftrightarrow>
   c = scope_of a \<and> c \<noteq> [] \<and> length c \<le> 64 \<and> c \<notin> {''default'', ''global'', ''scoped''}"
  using trim_Nil_scope [of a]
  by (auto simp: appSecretScope_def app_scope_eq Let_def MAX_SECRET_SCOPE_LENGTH_def
      TC832_RESERVED_SCOPES_def)

lemma canonicalizeSecretScope_iff:
  "canonicalizeSecretScope (Some a) = Inr r \<longleftrightarrow>
   r = Some (scope_of a) \<and> scope_of a \<noteq> [] \<and> scope_of a \<notin> {''default'', ''global''}"
  using trim_Nil_scope [of a] scope_words_trim [of a]
  unfolding canonicalizeSecretScope_def secret_scope_eq Let_def RESERVED_SECRET_SCOPES_def
  by (auto simp: scope_of_def)

lemma scope_words_char: "w \<in> set (scope_words s) \<Longrightarrow> w \<noteq> [] \<and> list_all scope_char w"
proof -
  assume w: "w \<in> set (scope_words s)"
  have nonempty: "w \<noteq> []" and "w \<in> set (splitOn CHR ''-'' (replace_each (\<lambda>c. \<not> scope_char c) CHR ''-'' (toLowerCase s)))"
    using w by (auto simp: scope_words_def pieces_def)
  then have "CHR ''-'' \<notin> set w"
    and "set w \<subseteq> set (replace_each (\<lambda>c. \<not> scope_char c) CHR ''-'' (toLowerCase s))"
    by (blast dest: splitOn_no_sep set_part_splitOn)+
  moreover have "x \<in> set (replace_each (\<lambda>c. \<not> scope_char c) CHR ''-'' t) \<Longrightarrow> x = CHR ''-'' \<or> scope_char x" for x t
    by (auto simp: replace_each_def)
  ultimately show ?thesis
    using nonempty unfolding list_all_iff by blast
qed

lemma SCOPE_RE_iff:
  "rx_test SECRET_SCOPE_RE w \<longleftrightarrow> (\<forall>p \<in> set (splitOn CHR ''-'' w). p \<noteq> [] \<and> list_all scope_char p)"
proof -
  have S: "p \<in> lang (Some1 (Cls scope_char)) \<longleftrightarrow> p \<noteq> [] \<and> list_all scope_char p" for p
  proof -
    have "lang (Some1 (Cls scope_char)) = conc {[x] |x. scope_char x} (lang (Many (Cls scope_char)))"
      by (simp only: lang.simps(3,4))
    then show ?thesis
      by (cases p) (auto simp: mem_conc_Cls lang_Many_Cls simp del: lang.simps)
  qed
  show ?thesis
    unfolding SECRET_SCOPE_RE_def rx_test_iff by (subst sep_many_iff) (auto simp: S list_all_iff hyphen_not_scope simp del: lang.simps)
qed

lemma scope_char_lower: "scope_char c \<Longrightarrow> lower_char c = c"
  by (auto simp: scope_char_def lower_char_def Let_def char_class_defs)

lemma scope_of_slug: "rx_test SECRET_SCOPE_RE c \<Longrightarrow> scope_of c = c"
proof -
  assume r: "rx_test SECRET_SCOPE_RE c"
  have "x \<in> set c \<Longrightarrow> x = CHR ''-'' \<or> scope_char x" for x
    using r [unfolded SCOPE_RE_iff list_all_iff] set_splitOn [of x c "CHR ''-''"] by blast
  moreover have "lower_char CHR ''-'' = CHR ''-''"
    by (simp add: lower_char_def)
  ultimately have "x \<in> set c \<Longrightarrow> (if \<not> scope_char (lower_char x) then CHR ''-'' else lower_char x) = x" for x
    using hyphen_not_scope scope_char_lower by metis
  then have "replace_each (\<lambda>c. \<not> scope_char c) CHR ''-'' (toLowerCase c) = c"
    unfolding replace_each_def toLowerCase_def map_map by (intro map_idI) simp
  moreover have "pieces CHR ''-'' c = splitOn CHR ''-'' c"
    using r by (auto simp: pieces_def SCOPE_RE_iff intro: filter_True)
  ultimately show ?thesis
    by (simp add: scope_of_def scope_words_def)
qed

lemma scope_of_RE: "scope_of s \<noteq> [] \<Longrightarrow> rx_test SECRET_SCOPE_RE (scope_of s)"
proof -
  assume "scope_of s \<noteq> []"
  then have "scope_words s \<noteq> []" by (auto simp: scope_of_def)
  moreover have "\<forall>p \<in> set (scope_words s). CHR ''-'' \<notin> set p"
    using scope_words_char hyphen_not_scope unfolding list_all_iff by blast
  ultimately have "splitOn CHR ''-'' (scope_of s) = scope_words s"
    by (simp add: scope_of_def splitOn_joinWith)
  then show ?thesis
    using scope_words_char by (simp add: SCOPE_RE_iff)
qed

lemma canonical_scope_iff:
  "canonicalizeSecretScope (Some c) = Inr (Some c) \<longleftrightarrow>
   rx_test SECRET_SCOPE_RE c \<and> c \<notin> {''default'', ''global''}"
proof (cases "rx_test SECRET_SCOPE_RE c")
  case True
  then have "c \<noteq> []" and "scope_of c = c"
    by (auto simp: SCOPE_RE_iff scope_of_slug)
  with True show ?thesis
    by (simp add: canonicalizeSecretScope_iff)
next
  case False
  then have "scope_of c \<noteq> c \<or> scope_of c = []"
    using scope_of_RE by metis
  with False show ?thesis
    by (auto simp: canonicalizeSecretScope_iff)
qed

section \<open>Properties\<close>

text \<open>The canonical scopes are the fixed points of \<open>canonicalizeSecretScope\<close>: every value it
  returns matches the scope grammar and is not reserved, and it returns exactly those strings
  unchanged.\<close>

theorem secret_scope_fixed_points:
  "(\<exists>s. canonicalizeSecretScope (Some s) = Inr (Some c)) =
     (rx_test SECRET_SCOPE_RE c \<and> c \<notin> {''default'', ''global''}) \<and>
   (canonicalizeSecretScope (Some c) = Inr (Some c)) =
     (rx_test SECRET_SCOPE_RE c \<and> c \<notin> {''default'', ''global''})"
  using canonical_scope_iff [of c] scope_of_RE by (auto simp: canonicalizeSecretScope_iff)

text \<open>The two scope functions of the file, written with different patterns, agree: the scope
  derived from an app id is the canonical form of that id as a scope, and it is refused only
  where canonicalisation fails or the result is too long or the word \<open>scoped\<close>.\<close>

theorem appSecretScope_canonicalize:
  "appSecretScope a = Inr c \<longleftrightarrow>
   canonicalizeSecretScope (Some a) = Inr (Some c) \<and> length c \<le> MAX_SECRET_SCOPE_LENGTH \<and> c \<noteq> ''scoped''"
  by (auto simp: appSecretScope_iff canonicalizeSecretScope_iff MAX_SECRET_SCOPE_LENGTH_def)

lemma SECRET_NAME_RE_iff:
  "rx_test SECRET_NAME_RE w \<longleftrightarrow>
   (\<exists>c v. w = c # v \<and> is_upper c \<and> list_all (\<lambda>c. is_upper c \<or> is_digit c \<or> c = CHR ''_'') v)"
proof -
  have "lang SECRET_NAME_RE =
      conc {[c] |c. is_upper c} (lang (Many (Cls (\<lambda>c. is_upper c \<or> is_digit c \<or> c = CHR ''_''))))"
    unfolding SECRET_NAME_RE_def by (simp only: lang.simps(3,4))
  then show ?thesis
    by (simp only: rx_test_iff lang_Many_Cls mem_conc_Cls mem_Collect_eq)
qed

lemma secret_name_char:
  "rx_test SECRET_NAME_RE w \<Longrightarrow> x \<in> set w \<Longrightarrow> is_upper x \<or> is_digit x \<or> x = CHR ''_''"
  by (auto simp: SECRET_NAME_RE_iff list_all_iff)

lemma secret_name_plain:
  assumes n: "rx_test SECRET_NAME_RE n"
  shows "CHR ''/'' \<notin> set n" and "trim n = n" and "n \<noteq> []"
proof -
  show "CHR ''/'' \<notin> set n"
    using secret_name_char [OF n, of "CHR ''/''"] by (auto simp: char_class_defs)
  have "x \<in> set n \<Longrightarrow> \<not> is_space x" for x
    using secret_name_char [OF n, of x] by (auto simp: is_space_def Let_def char_class_defs)
  then have "dropWhile is_space t = t" if "set t \<subseteq> set n" for t
    using that by (cases t) auto
  then show "trim n = n"
    by (simp add: trim_def)
  show "n \<noteq> []"
    using n by (auto simp: SECRET_NAME_RE_iff)
qed

lemma scope_no_slash:
  assumes "rx_test SECRET_SCOPE_RE c" shows "CHR ''/'' \<notin> set c"
proof
  assume "CHR ''/'' \<in> set c"
  then obtain p where "p \<in> set (splitOn CHR ''-'' c)" "CHR ''/'' \<in> set p"
    using set_splitOn [of "CHR ''/''" c "CHR ''-''"] by auto
  then have "scope_char CHR ''/''"
    using assms by (auto simp: SCOPE_RE_iff list_all_iff)
  then show False
    by (simp add: scope_char_def char_class_defs)
qed

lemma catalog_scoped_iff:
  "parseSecretCatalogKey key = Some (name, Some sc) \<longleftrightarrow>
   key = ''scoped/'' @ sc @ ''/'' @ name \<and> rx_test SECRET_NAME_RE name \<and>
   canonicalizeSecretScope (Some sc) = Inr (Some sc)"
  (is "?l \<longleftrightarrow> ?r")
proof
  assume ?l
  then have "splitOn CHR ''/'' key = [''scoped'', sc, name] \<and> rx_test SECRET_NAME_RE name \<and>
      canonicalizeSecretScope (Some sc) = Inr (Some sc)"
    by (auto simp: parseSecretCatalogKey_def split: if_splits list.splits sum.splits)
  moreover from this have "key = joinWith ''/'' [''scoped'', sc, name]"
    by (metis joinWith_splitOn)
  ultimately show ?r
    by simp
next
  assume r: ?r
  then have "splitOn CHR ''/'' key = [''scoped'', sc, name]"
    using splitOn_append [of "CHR ''/''" sc name] scope_no_slash [of sc] secret_name_plain(1) [of name]
    by (simp add: canonical_scope_iff splitOn_id)
  moreover have "\<not> rx_test SECRET_NAME_RE key"
    using r secret_name_plain(1) [of key] by auto
  ultimately show ?l
    using r secret_name_plain(3) [of name] by (simp add: parseSecretCatalogKey_def)
qed

lemma catalog_global_iff:
  "parseSecretCatalogKey key = Some (name, None) \<longleftrightarrow> key = name \<and> rx_test SECRET_NAME_RE name"
  by (auto simp: parseSecretCatalogKey_def split: if_splits list.splits sum.splits)

text \<open>Catalog keys and storage paths are inverse: a key below \<open>secrets/\<close> is listed as a name
  and a scope exactly when resolving that name and that scope is allowed, leaves both as they
  are, and stores the secret under that key.\<close>

theorem catalog_key_roundtrip:
  "parseSecretCatalogKey key = Some (name, scope) \<longleftrightarrow>
   (\<exists>p. resolveSecretPath name scope = Inr p \<and> sp_name p = name \<and> sp_scope p = scope \<and>
      sp_vaultKey p = SECRET_PREFIX @ key)"
proof -
  have n: "(trim name = name \<and> rx_test SECRET_NAME_RE (trim name)) = rx_test SECRET_NAME_RE name"
    using secret_name_plain(2) by metis
  show ?thesis
  proof (cases scope)
    case None
    then show ?thesis
      using n unfolding None catalog_global_iff
      by (auto simp: resolveSecretPath_def canonicalizeSecretScope_def Let_def)
  next
    case (Some sc)
    have "resolveSecretPath name (Some sc) = Inr p \<and> sp_name p = name \<and> sp_scope p = Some sc \<and>
        sp_vaultKey p = SECRET_PREFIX @ key \<longleftrightarrow>
        trim name = name \<and> rx_test SECRET_NAME_RE (trim name) \<and>
        canonicalizeSecretScope (Some sc) = Inr (Some sc) \<and> key = ''scoped/'' @ sc @ ''/'' @ name \<and>
        p = \<lparr>sp_name = name, sp_scope = Some sc, sp_vaultKey = SECRET_PREFIX @ key,
             sp_permission = ''vault/'' @ SECRET_PREFIX @ key\<rparr>" for p
      by (cases p) (auto simp: resolveSecretPath_def Let_def result_iff SECRET_PREFIX_def
          SCOPED_SECRET_PREFIX_def split: if_splits)
    then show ?thesis
      using n unfolding Some catalog_scoped_iff by (auto 0 3)
  qed
qed

text \<open>Every path \<open>resolveSecretPath\<close> returns lies under the prefix
  \<open>resolveSecretListPrefix\<close> lists for the same scope, directly below it: what follows the
  prefix is the secret's name, without a slash.\<close>

theorem secret_path_under_list_prefix:
  "(\<exists>p. resolveSecretPath name scope = Inr p \<and> sp_permission p = path) \<longleftrightarrow>
   rx_test SECRET_NAME_RE (trim name) \<and>
   (\<exists>pre. resolveSecretListPrefix scope = Inr pre \<and> path = pre @ trim name \<and> CHR ''/'' \<notin> set (trim name))"
proof (cases "canonicalizeSecretScope scope")
  case (Inr sc)
  then show ?thesis
    using secret_name_plain(1) [of "trim name"]
    by (cases sc) (auto simp: resolveSecretPath_def resolveSecretListPrefix_def Let_def SECRET_PREFIX_def
        SCOPED_SECRET_PREFIX_def)
qed (simp add: resolveSecretPath_def resolveSecretListPrefix_def Let_def)

lemma vaultKey_prefix:
  assumes "resolveSecretPath name scope = Inr p"
  shows "startsWith (sp_vaultKey p) ''secrets/''"
proof -
  have "sp_vaultKey p = (case sp_scope p of None \<Rightarrow> SECRET_PREFIX @ trim name
      | Some sc \<Rightarrow> SCOPED_SECRET_PREFIX @ sc @ ''/'' @ trim name)"
    using assms by (auto simp: resolveSecretPath_def bindR_Inr_iff Let_def split: if_split_asm)
  then show ?thesis
    by (cases "sp_scope p") (simp_all add: SECRET_PREFIX_def SCOPED_SECRET_PREFIX_def)
qed

end
