(* ===== verification/Json.thy ===== *)
theory Json
  imports Complex_Main Prelude "HOL-Library.Word"
begin

text \<open>
  JSON text as \<open>JSON.stringify\<close> writes it, on UTF-16 code units: the quoting of strings, the
  decimal form of numbers, arrays, and objects with their keys sorted by code unit, which is
  what \<^verbatim>\<open>packages/sdk-core/src/policy/jcs.ts\<close> and the ReCap caveats of
  \<^verbatim>\<open>packages/sdk-core/src/capabilities.ts\<close> serialise to.

  The main result is unique decodability: two values have the same text exactly when they are
  the same up to the order of object keys (\<open>serialize_inject\<close>).
\<close>

section \<open>Strings and numbers\<close>

type_synonym ustring = "16 word list"

text \<open>The code units of a string whose characters are below 256.\<close>

definition unit_of :: "char \<Rightarrow> 16 word" where
  "unit_of c = of_char c"

definition ustr :: "string \<Rightarrow> ustring" where
  "ustr s = map unit_of s"

text \<open>A finite number other than zero is the decimal the language prints it with: sign, the
  shortest digits \<open>s\<close> that determine it, and the exponent \<open>n\<close>, so that its value is
  \<open>s * 10 ^ (n - k)\<close> for the \<open>k\<close> digits of \<open>s\<close> (ECMA-262, Number::toString).\<close>

datatype jnumber = Nan | Infinite bool | Zero | Decimal bool nat int

fun finite_number :: "jnumber \<Rightarrow> bool" where
  "finite_number Nan = False"
| "finite_number (Infinite _) = False"
| "finite_number Zero = True"
| "finite_number (Decimal _ _ _) = True"

definition int_text :: "int \<Rightarrow> string" where
  "int_text i = (if i < 0 then ''-'' @ dec_of_nat (nat (- i)) else ''+'' @ dec_of_nat (nat i))"

definition decimal_text :: "string \<Rightarrow> int \<Rightarrow> string" where
  "decimal_text ds n =
     (let k = int (length ds)
      in if k \<le> n \<and> n \<le> 21 then ds @ replicate (nat (n - k)) CHR ''0''
         else if 0 < n \<and> n \<le> 21 then take (nat n) ds @ ''.'' @ drop (nat n) ds
         else if - 6 < n \<and> n \<le> 0 then ''0.'' @ replicate (nat (- n)) CHR ''0'' @ ds
         else if k = 1 then ds @ ''e'' @ int_text (n - 1)
         else take 1 ds @ ''.'' @ drop 1 ds @ ''e'' @ int_text (n - 1))"

fun number_text :: "jnumber \<Rightarrow> string" where
  "number_text (Decimal neg s n) = (if neg then ''-'' else []) @ decimal_text (dec_of_nat s) n"
| "number_text Zero = ''0''"
| "number_text _ = ''null''"

section \<open>Quoting\<close>

definition high :: "16 word \<Rightarrow> bool" where "high u \<longleftrightarrow> 0xD800 \<le> u \<and> u \<le> 0xDBFF"
definition low :: "16 word \<Rightarrow> bool" where "low u \<longleftrightarrow> 0xDC00 \<le> u \<and> u \<le> 0xDFFF"

definition hex_digit :: "nat \<Rightarrow> 16 word" where
  "hex_digit d = (if d < 10 then of_nat (48 + d) else of_nat (87 + d))"

definition u_escape :: "16 word \<Rightarrow> ustring" where
  "u_escape u = (let n = unat u in
     [0x5C, 0x75, hex_digit (n div 4096), hex_digit (n div 256 mod 16), hex_digit (n div 16 mod 16),
      hex_digit (n mod 16)])"

definition quote_unit :: "16 word \<Rightarrow> ustring" where
  "quote_unit u =
     (if u = 0x08 then [0x5C, 0x62] else if u = 0x09 then [0x5C, 0x74] else if u = 0x0A then [0x5C, 0x6E]
      else if u = 0x0C then [0x5C, 0x66] else if u = 0x0D then [0x5C, 0x72]
      else if u = 0x22 then [0x5C, 0x22] else if u = 0x5C then [0x5C, 0x5C]
      else if u < 0x20 then u_escape u else [u])"

text \<open>A lone surrogate is escaped, a pair is copied.\<close>

fun quote_units :: "ustring \<Rightarrow> ustring" where
  "quote_units [] = []"
| "quote_units (u # us) =
     (if high u then
        (case us of
           [] \<Rightarrow> u_escape u
         | v # vs \<Rightarrow> if low v then u # v # quote_units vs else u_escape u @ quote_units us)
      else if low u then u_escape u @ quote_units us
      else quote_unit u @ quote_units us)"

definition quote :: "ustring \<Rightarrow> ustring" where
  "quote s = 0x22 # quote_units s @ [0x22]"

section \<open>Values and their text\<close>

datatype json =
    NullJ
  | BoolJ bool
  | NumJ jnumber
  | StrJ ustring
  | ArrJ "json list"
  | ObjJ "(ustring \<times> json) list"

fun compareUtf16CodeUnits :: "ustring \<Rightarrow> ustring \<Rightarrow> int" where
  "compareUtf16CodeUnits (x # xs) (y # ys) =
     (if x \<noteq> y then uint x - uint y else compareUtf16CodeUnits xs ys)"
| "compareUtf16CodeUnits xs ys = int (length xs) - int (length ys)"

definition sort_units :: "ustring list \<Rightarrow> ustring list" where
  "sort_units ks = sort_by compareUtf16CodeUnits ks"

fun serialize :: "json \<Rightarrow> ustring" where
  "serialize NullJ = ustr ''null''"
| "serialize (BoolJ b) = (if b then ustr ''true'' else ustr ''false'')"
| "serialize (NumJ n) = ustr (number_text n)"
| "serialize (StrJ s) = quote s"
| "serialize (ArrJ xs) = 0x5B # joinWith [0x2C] (map serialize xs) @ [0x5D]"
| "serialize (ObjJ fs) =
     (let texts = map (\<lambda>(k, v). (k, serialize v)) fs
      in 0x7B # joinWith [0x2C]
           (map (\<lambda>k. quote k @ 0x3A # (case map_of texts k of Some t \<Rightarrow> t | None \<Rightarrow> []))
             (sort_units (dedupe (map fst texts)))) @ [0x7D])"

text \<open>What a value is up to the order of keys: objects with their keys sorted.\<close>

datatype canon =
    NullC
  | BoolC bool
  | NumC string
  | StrC ustring
  | ArrC "canon list"
  | ObjC "(ustring \<times> canon) list"

fun canon_of :: "json \<Rightarrow> canon" where
  "canon_of NullJ = NullC"
| "canon_of (BoolJ b) = BoolC b"
| "canon_of (NumJ n) = NumC (number_text n)"
| "canon_of (StrJ s) = StrC s"
| "canon_of (ArrJ xs) = ArrC (map canon_of xs)"
| "canon_of (ObjJ fs) =
     (let vals = map (\<lambda>(k, v). (k, canon_of v)) fs
      in ObjC (map (\<lambda>k. (k, the (map_of vals k))) (sort (dedupe (map fst vals)))))"

fun json_finite :: "json \<Rightarrow> bool" where
  "json_finite (NumJ n) = finite_number n"
| "json_finite (ArrJ xs) = list_all json_finite xs"
| "json_finite (ObjJ fs) = list_all (\<lambda>(k, v). json_finite v) fs"
| "json_finite _ = True"

section \<open>Order\<close>

lemma compareUtf16_le: "compareUtf16CodeUnits xs ys \<le> 0 \<longleftrightarrow> xs \<le> ys"
proof (induction xs ys rule: compareUtf16CodeUnits.induct)
  case (1 x xs y ys)
  have "uint x - uint y \<le> 0 \<longleftrightarrow> x < y" if "x \<noteq> y"
    using that by (metis diff_le_0_iff_le linorder_le_less_linear order_le_less word_le_def)
  then show ?case
    using 1 by auto
qed auto

lemma sort_units_eq: "sort_units ks = sort ks"
  unfolding sort_units_def using sort_by_key [where f = "\<lambda>x. x", of compareUtf16CodeUnits, OF compareUtf16_le] by simp

section \<open>Decoding quoted strings\<close>

definition hex_value :: "16 word \<Rightarrow> nat" where
  "hex_value c = (if c < 58 then unat c - 48 else unat c - 87)"

lemma hex_value_digit: "d < 16 \<Longrightarrow> hex_value (hex_digit d) = d"
proof -
  assume "d < 16"
  then have "d \<in> set [0..<16]" by simp
  moreover have "list_all (\<lambda>d. hex_value (hex_digit d) = d) [0..<16]"
    by code_simp
  ultimately show ?thesis
    by (simp only: list_all_iff)
qed

definition unescape :: "16 word \<Rightarrow> 16 word" where
  "unescape c =
     (if c = 0x62 then 0x08 else if c = 0x74 then 0x09 else if c = 0x6E then 0x0A
      else if c = 0x66 then 0x0C else if c = 0x72 then 0x0D else c)"

definition push :: "16 word \<Rightarrow> (ustring \<times> ustring) option \<Rightarrow> (ustring \<times> ustring) option" where
  "push u r = map_option (\<lambda>(s, rest). (u # s, rest)) r"

text \<open>Read a quoted string up to its closing quote; the rest of the text is returned too.\<close>

fun unquote :: "ustring \<Rightarrow> (ustring \<times> ustring) option" where
  "unquote [] = None"
| "unquote (u # us) =
     (if u = 0x22 then Some ([], us)
      else if u = 0x5C then
        (case us of
           [] \<Rightarrow> None
         | c # r \<Rightarrow>
             if c = 0x75 then
               (case r of
                  h1 # h2 # h3 # h4 # r' \<Rightarrow>
                    push (of_nat (4096 * hex_value h1 + 256 * hex_value h2 + 16 * hex_value h3 + hex_value h4))
                      (unquote r')
                | _ \<Rightarrow> None)
             else push (unescape c) (unquote r))
      else push u (unquote us))"

lemma unquote_hex:
  "unquote (0x5C # 0x75 # h1 # h2 # h3 # h4 # r) =
     push (of_nat (4096 * hex_value h1 + 256 * hex_value h2 + 16 * hex_value h3 + hex_value h4)) (unquote r)"
  by (subst unquote.simps) simp

lemma horner3:
  "n = 16 * a + x \<Longrightarrow> a = 16 * b + y \<Longrightarrow> b = 16 * c + z \<Longrightarrow> 4096 * c + 256 * z + 16 * y + x = n" for n :: nat
  by simp

lemma hex_digits_value:
  "n < 65536 \<Longrightarrow>
   4096 * hex_value (hex_digit (n div 4096)) + 256 * hex_value (hex_digit (n div 256 mod 16))
     + 16 * hex_value (hex_digit (n div 16 mod 16)) + hex_value (hex_digit (n mod 16)) = n"
proof -
  assume "n < 65536"
  then have hi: "hex_value (hex_digit (n div 4096)) = n div 4096"
    by (intro hex_value_digit) simp
  have lo: "hex_value (hex_digit (m mod 16)) = m mod 16" for m
    by (intro hex_value_digit) simp
  have d: "n div 256 = n div 16 div 16" "n div 4096 = n div 16 div 16 div 16"
    by (simp_all flip: div_mult2_eq)
  show ?thesis
    unfolding hi lo unfolding d by (rule horner3) (rule mult_div_mod_eq [symmetric])+
qed

lemma unquote_u_escape: "unquote (u_escape u @ r) = push u (unquote r)"
proof -
  have "unat u < 2 ^ LENGTH(16)"
    by (rule unsigned_less)
  then have "unat u < 65536" by simp
  from hex_digits_value [OF this] show ?thesis
    by (simp only: u_escape_def Let_def append_Cons append_Nil unquote_hex of_nat_unat ucast_id)
qed

lemma unquote_quote_unit: "\<not> high u \<Longrightarrow> \<not> low u \<Longrightarrow> unquote (quote_unit u @ r) = push u (unquote r)"
  by (simp add: quote_unit_def unescape_def unquote_u_escape)

lemma surrogate_not_special: "high u \<or> low u \<Longrightarrow> u \<noteq> 0x22 \<and> u \<noteq> 0x5C"
  by (auto simp: high_def low_def)

lemma unquote_pair: "high u \<Longrightarrow> low v \<Longrightarrow> unquote (u # v # r) = push u (push v (unquote r))"
  using surrogate_not_special [of u] surrogate_not_special [of v] by simp

lemma unquote_end: "unquote (0x22 # r) = Some ([], r)"
  by simp

lemma unquote_units: "unquote (quote_units s @ 0x22 # r) = Some (s, r)"
proof (induction s rule: quote_units.induct)
  case (2 u us)
  show ?case
  proof (cases "high u")
    case True
    then show ?thesis
      using 2 by (cases us) (auto simp: unquote_u_escape unquote_pair unquote_end push_def simp del: unquote.simps)
  next
    case False
    then show ?thesis
      using 2 by (cases "low u") (auto simp: unquote_u_escape unquote_quote_unit push_def simp del: unquote.simps)
  qed
qed simp

lemma quote_inject: "quote s @ x = quote t @ y \<Longrightarrow> s = t \<and> x = y"
proof -
  assume "quote s @ x = quote t @ y"
  then have "quote_units s @ 0x22 # x = quote_units t @ 0x22 # y"
    by (simp add: quote_def)
  then have "Some (s, x) = Some (t, y)"
    by (metis unquote_units)
  then show ?thesis by simp
qed

section \<open>Unique decodability\<close>

abbreviation (input) delim :: "16 word \<Rightarrow> bool" where
  "delim u \<equiv> u = 0x2C \<or> u = 0x5D \<or> u = 0x7D"

definition ends_value :: "ustring \<Rightarrow> bool" where
  "ends_value x \<longleftrightarrow> x = [] \<or> delim (hd x)"

definition number_char :: "char \<Rightarrow> bool" where
  "number_char c \<longleftrightarrow> is_digit c \<or> c = CHR ''-'' \<or> c = CHR ''+'' \<or> c = CHR ''.'' \<or> c = CHR ''e''"

lemma dec_number_chars: "list_all number_char (dec_of_nat n)"
  using dec_of_nat_digits [of n] by (auto simp: list_all_iff number_char_def)

lemma int_text_chars: "list_all number_char (int_text i)"
  using dec_number_chars by (auto simp: int_text_def number_char_def)

lemma list_all_take_drop: "list_all p xs \<Longrightarrow> list_all p (take n xs) \<and> list_all p (drop n xs)"
  by (metis append_take_drop_id list_all_append)

lemma list_all_replicate_zero: "list_all number_char (replicate n CHR ''0'')"
  by (induction n) (simp_all add: number_char_def is_digit_def less_eq_char_def)

lemma list_all_app: "list_all p xs \<Longrightarrow> list_all p ys \<Longrightarrow> list_all p (xs @ ys)"
  by simp

lemma number_char_literals:
  "list_all number_char ''.''" "list_all number_char ''0.''" "list_all number_char ''e''"
  "list_all number_char ''-''"
  by (simp_all add: number_char_def is_digit_def less_eq_char_def)

lemma decimal_text_chars:
  assumes "list_all number_char ds"
  shows "list_all number_char (decimal_text ds n)"
proof -
  note parts = list_all_app list_all_replicate_zero number_char_literals int_text_chars assms
    list_all_take_drop [OF assms, THEN conjunct1] list_all_take_drop [OF assms, THEN conjunct2]
  show ?thesis
    unfolding decimal_text_def Let_def by (simp only: split: if_split) (intro conjI impI parts)
qed

lemma decimal_text_nonempty: "ds \<noteq> [] \<Longrightarrow> decimal_text ds n \<noteq> []"
  by (auto simp: decimal_text_def Let_def)

lemma number_text_chars: "finite_number n \<Longrightarrow> list_all number_char (number_text n) \<and> number_text n \<noteq> []"
proof (cases n)
  case (Decimal neg s e)
  then show ?thesis
    using decimal_text_chars [OF dec_number_chars, of s e] decimal_text_nonempty [of "dec_of_nat s" e]
    by (auto simp: number_char_def)
qed (auto simp: number_char_def is_digit_def)

lemma unat_unit_of: "unat (unit_of c) = of_char c"
proof -
  have "of_nat (of_char c) = unit_of c"
    by (simp add: unit_of_def of_nat_of_char)
  moreover have "(of_char c :: nat) < 2 ^ LENGTH(16)"
    by (rule less_trans [OF nat_of_char_less_256]) simp
  ultimately show ?thesis
    by (rule of_nat_inverse)
qed

lemma unit_of_inject: "unit_of c = unit_of d \<longleftrightarrow> c = d"
  by (metis unat_unit_of of_char_eq_iff)

lemma ustr_inject: "ustr s = ustr t \<longleftrightarrow> s = t"
  by (simp add: ustr_def inj_map_eq_map inj_def unit_of_inject)

text \<open>The text of a value with its keys in order; a list of texts between commas.\<close>

fun text_of :: "canon \<Rightarrow> ustring" where
  "text_of NullC = ustr ''null''"
| "text_of (BoolC b) = (if b then ustr ''true'' else ustr ''false'')"
| "text_of (NumC t) = ustr t"
| "text_of (StrC s) = quote s"
| "text_of (ArrC xs) = 0x5B # joinWith [0x2C] (map text_of xs) @ [0x5D]"
| "text_of (ObjC fs) = 0x7B # joinWith [0x2C] (map (\<lambda>(k, v). quote k @ 0x3A # text_of v) fs) @ [0x7D]"

fun canon_ok :: "canon \<Rightarrow> bool" where
  "canon_ok (NumC t) = (t \<noteq> [] \<and> list_all number_char t)"
| "canon_ok (ArrC xs) = list_all canon_ok xs"
| "canon_ok (ObjC fs) = list_all (\<lambda>(k, v). canon_ok v) fs"
| "canon_ok _ = True"

definition rest_of :: "('a \<Rightarrow> ustring) \<Rightarrow> 'a list \<Rightarrow> ustring" where
  "rest_of t xs = concat (map (\<lambda>a. 0x2C # t a) xs)"

lemma rest_of_simps [simp]: "rest_of t [] = []" "rest_of t (a # xs) = 0x2C # t a @ rest_of t xs"
  by (simp_all add: rest_of_def)

lemma joinWith_rest: "joinWith [0x2C] (map t (a # xs)) = t a @ rest_of t xs"
  by (induction xs arbitrary: a) auto

lemma ends_value_simps [simp]:
  "ends_value []" "ends_value (0x2C # x)" "ends_value (0x5D # x)" "ends_value (0x7D # x)"
  by (simp_all add: ends_value_def)

lemma ends_value_rest: "delim c \<Longrightarrow> ends_value (rest_of t xs @ c # x)"
  by (cases xs) (auto simp: ends_value_def)

definition decodes :: "('a \<Rightarrow> ustring) \<Rightarrow> 'a \<Rightarrow> 'a set \<Rightarrow> bool" where
  "decodes t a B \<longleftrightarrow>
     (\<forall>b \<in> B. \<forall>x y. ends_value x \<longrightarrow> ends_value y \<longrightarrow> t a @ x = t b @ y \<longrightarrow> a = b \<and> x = y)"

lemma decodesD:
  "decodes t a B \<Longrightarrow> t a @ x = t b @ y \<Longrightarrow> b \<in> B \<Longrightarrow> ends_value x \<Longrightarrow> ends_value y \<Longrightarrow> a = b \<and> x = y"
  by (auto simp: decodes_def)

lemma rest_decodes:
  assumes "\<forall>a \<in> set xs. decodes t a B" and "set ys \<subseteq> B" and "delim c" and "c \<noteq> 0x2C"
    and "rest_of t xs @ c # x = rest_of t ys @ c # y"
  shows "xs = ys \<and> x = y"
  using assms
proof (induction xs arbitrary: ys)
  case Nil
  then show ?case by (cases ys) auto
next
  case (Cons a xs)
  then obtain b bs where ys: "ys = b # bs" by (cases ys) auto
  with Cons.prems have "t a @ rest_of t xs @ c # x = t b @ rest_of t bs @ c # y" by simp
  from decodesD [of t a B _ b, OF _ this] Cons.prems ys have *: "a = b \<and> rest_of t xs @ c # x = rest_of t bs @ c # y"
    by (simp add: ends_value_rest)
  with Cons.IH [of bs] Cons.prems ys show ?case by simp
qed

lemma list_decodes:
  assumes dec: "\<forall>a \<in> set xs. decodes t a B" and "set ys \<subseteq> B" and "delim c" and "c \<noteq> 0x2C"
    and head: "\<forall>a \<in> set xs \<union> B. t a \<noteq> [] \<and> hd (t a) \<noteq> c"
    and eq: "joinWith [0x2C] (map t xs) @ c # x = joinWith [0x2C] (map t ys) @ c # y"
  shows "xs = ys \<and> x = y"
proof (cases xs; cases ys)
  fix a as b bs
  assume xs: "xs = a # as" and ys: "ys = b # bs"
  have "rest_of t xs @ c # x = rest_of t ys @ c # y"
    using eq unfolding xs ys joinWith_rest by simp
  then show ?thesis
    using assms by (intro rest_decodes) auto
next
  fix b bs
  assume "xs = []" and ys: "ys = b # bs"
  then have "c # x = t b @ rest_of t bs @ c # y"
    using eq by (simp only: ys joinWith_rest) simp
  with head assms(2) ys show ?thesis by (cases "t b") force+
next
  fix a as
  assume xs: "xs = a # as" and "ys = []"
  then have "t a @ rest_of t as @ c # x = c # y"
    using eq by (simp only: xs joinWith_rest) simp
  with head xs show ?thesis by (cases "t a") auto
next
  assume "xs = []" "ys = []"
  with eq show ?thesis by simp
qed

text \<open>The first unit tells which kind of value follows.\<close>

fun tag :: "canon \<Rightarrow> nat" where
  "tag NullC = 0"
| "tag (BoolC b) = (if b then 1 else 2)"
| "tag (NumC _) = 3"
| "tag (StrC _) = 4"
| "tag (ArrC _) = 5"
| "tag (ObjC _) = 6"

definition unit_tag :: "16 word \<Rightarrow> nat" where
  "unit_tag u =
     (if u = 0x6E then 0 else if u = 0x74 then 1 else if u = 0x66 then 2 else if u = 0x22 then 4
      else if u = 0x5B then 5 else if u = 0x7B then 6 else 3)"

lemma unit_of_literals:
  "unit_of CHR ''n'' = 0x6E" "unit_of CHR ''t'' = 0x74" "unit_of CHR ''f'' = 0x66"
  "unit_of CHR 0x22 = 0x22" "unit_of CHR ''['' = 0x5B" "unit_of CHR ''{'' = 0x7B"
  "unit_of CHR '','' = 0x2C" "unit_of CHR '']'' = 0x5D" "unit_of CHR ''}'' = 0x7D"
  by (simp_all add: unit_of_def)

lemma number_unit: "number_char c \<Longrightarrow> unit_tag (unit_of c) = 3 \<and> \<not> delim (unit_of c)"
proof -
  assume "number_char c"
  then have "c \<notin> {CHR ''n'', CHR ''t'', CHR ''f'', CHR 0x22, CHR ''['', CHR ''{'', CHR '','', CHR '']'', CHR ''}''}"
    by (auto simp: number_char_def is_digit_def less_eq_char_def)
  then show ?thesis
    by (simp add: unit_tag_def unit_of_inject flip: unit_of_literals)
qed

lemma text_tag: "canon_ok b \<Longrightarrow> text_of b \<noteq> [] \<and> unit_tag (hd (text_of b)) = tag b"
proof (cases b)
  case (NumC t)
  assume "canon_ok b"
  then show ?thesis
    using NumC by (cases t) (auto simp: ustr_def number_unit)
qed (auto simp: ustr_def unit_tag_def unit_of_literals quote_def)

lemma text_tag_eq: "canon_ok a \<Longrightarrow> canon_ok b \<Longrightarrow> text_of a @ x = text_of b @ y \<Longrightarrow> tag a = tag b"
  by (metis hd_append2 text_tag)

lemma text_not_close: "canon_ok b \<Longrightarrow> text_of b \<noteq> [] \<and> hd (text_of b) \<noteq> 0x5D"
proof -
  assume ok: "canon_ok b"
  show ?thesis
  proof (cases "tag b = 3")
    case True
    then obtain t where "b = NumC t" by (cases b) (auto split: if_splits)
    with ok show ?thesis by (cases t) (auto simp: ustr_def dest: number_unit)
  next
    case False
    with text_tag [OF ok] show ?thesis by (auto simp: unit_tag_def)
  qed
qed

lemma ends_takeWhile: "ends_value x \<Longrightarrow> takeWhile (\<lambda>u. \<not> delim u) x = []"
  by (cases x) (auto simp: ends_value_def)

lemma number_takeWhile:
  "list_all number_char t \<Longrightarrow> ends_value x \<Longrightarrow> takeWhile (\<lambda>u. \<not> delim u) (ustr t @ x) = ustr t"
proof (induction t)
  case Nil
  then show ?case by (simp only: ustr_def list.map append_Nil ends_takeWhile)
next
  case (Cons c t)
  then show ?case using number_unit [of c] by (simp add: ustr_def)
qed

lemma atom_decodes: "canon_ok a \<Longrightarrow> tag a < 3 \<Longrightarrow> decodes text_of a {b. canon_ok b}"
proof -
  assume a: "canon_ok a" "tag a < 3"
  have "a = b" if "tag a = tag b" for b
    using a(2) that by (cases a; cases b) (auto split: if_split_asm)
  then have "a = b" if "canon_ok b" "text_of a @ x = text_of b @ y" for b x y
    using text_tag_eq [OF a(1) that] by blast
  then show ?thesis by (fastforce simp: decodes_def)
qed

lemma text_decodes: "canon_ok a \<Longrightarrow> decodes text_of a {b. canon_ok b}"
proof (induction a rule: text_of.induct)
  case (3 t)
  show ?case
    unfolding decodes_def
  proof (intro ballI allI impI)
    fix b x y
    assume b: "b \<in> {b. canon_ok b}" and ends: "ends_value x" "ends_value y"
      and eq: "text_of (NumC t) @ x = text_of b @ y"
    then obtain t' where t': "b = NumC t'"
      using text_tag_eq [OF 3(1) _ eq] by (cases b) (auto split: if_splits)
    with eq have u: "ustr t @ x = ustr t' @ y" by simp
    with number_takeWhile [of t x] number_takeWhile [of t' y] 3 b t' ends have "ustr t = ustr t'"
      by simp
    with u t' show "NumC t = b \<and> x = y" by (simp add: ustr_inject)
  qed
next
  case (4 s)
  show ?case
    unfolding decodes_def
  proof (intro ballI allI impI)
    fix b x y
    assume "b \<in> {b. canon_ok b}" and eq: "text_of (StrC s) @ x = text_of b @ y"
    then obtain s' where "b = StrC s'"
      using text_tag_eq [OF 4(1) _ eq] by (cases b) (auto split: if_splits)
    with eq show "StrC s = b \<and> x = y" by (auto dest: quote_inject)
  qed
next
  case (5 xs)
  have dec: "\<forall>a \<in> set xs. decodes text_of a {b. canon_ok b}"
    using 5 by (simp add: list_all_iff)
  show ?case
    unfolding decodes_def
  proof (intro ballI allI impI)
    fix b x y
    assume b: "b \<in> {b. canon_ok b}" and eq: "text_of (ArrC xs) @ x = text_of b @ y"
    then obtain ys where ys: "b = ArrC ys"
      using text_tag_eq [OF 5(2) _ eq] by (cases b) (auto split: if_splits)
    from eq ys have "joinWith [0x2C] (map text_of xs) @ 0x5D # x = joinWith [0x2C] (map text_of ys) @ 0x5D # y"
      by simp
    from list_decodes [OF dec _ _ _ _ this] b 5(2) ys have "xs = ys \<and> x = y"
      by (simp add: list_all_iff text_not_close subset_iff ball_Un)
    with ys show "ArrC xs = b \<and> x = y" by simp
  qed
next
  case (6 fs)
  let ?t = "\<lambda>(k, v). quote k @ 0x3A # text_of v"
  have dec: "\<forall>p \<in> set fs. decodes ?t p {(k, v). canon_ok v}"
  proof
    fix p
    assume p: "p \<in> set fs"
    obtain k v where kv: "p = (k, v)" by (cases p)
    have v: "decodes text_of v {b. canon_ok b}"
      using 6 p kv by (auto simp: list_all_iff)
    show "decodes ?t p {(k, v). canon_ok v}"
      unfolding decodes_def kv by (auto dest!: quote_inject decodesD [OF v])
  qed
  show ?case
    unfolding decodes_def
  proof (intro ballI allI impI)
    fix b x y
    assume b: "b \<in> {b. canon_ok b}" and eq: "text_of (ObjC fs) @ x = text_of b @ y"
    then obtain gs where gs: "b = ObjC gs"
      using text_tag_eq [OF 6(2) _ eq] by (cases b) (auto split: if_splits)
    from eq gs have joined: "joinWith [0x2C] (map ?t fs) @ 0x7D # x = joinWith [0x2C] (map ?t gs) @ 0x7D # y"
      by simp
    have head: "\<forall>p \<in> set fs \<union> {(k, v). canon_ok v}. ?t p \<noteq> [] \<and> hd (?t p) \<noteq> 0x7D"
      by (simp add: quote_def split_def)
    have "set gs \<subseteq> {(k, v). canon_ok v}"
      using b gs by (auto simp: list_all_iff)
    from list_decodes [OF dec this _ _ head joined] have "fs = gs \<and> x = y" by simp
    with gs show "ObjC fs = b \<and> x = y" by simp
  qed
qed (auto intro: atom_decodes simp del: text_of.simps)

section \<open>The text of a value\<close>

lemma map_of_entry:
  assumes "k \<in> fst ` set fs" obtains v where "map_of fs k = Some v" "(k, v) \<in> set fs"
proof (cases "map_of fs k")
  case None
  with assms show ?thesis by (simp add: map_of_eq_None_iff)
next
  case (Some v)
  show ?thesis by (rule that [OF Some map_of_SomeD [OF Some]])
qed

lemma canon_ok_of: "json_finite a \<Longrightarrow> canon_ok (canon_of a)"
proof (induction a rule: canon_of.induct)
  case (3 n)
  then show ?case by (simp add: number_text_chars)
next
  case (6 fs)
  have val: "canon_ok (the (map_of (map (\<lambda>(k, v). (k, canon_of v)) fs) k))" if k: "k \<in> fst ` set fs" for k
  proof -
    obtain v where v: "map_of fs k = Some v" "(k, v) \<in> set fs"
      using k by (rule map_of_entry)
    moreover have "canon_ok (canon_of v)"
      using 6(1) [OF v(2) refl] 6(2) v(2) by (auto simp: list_all_iff)
    ultimately show ?thesis by (simp add: map_of_map)
  qed
  have "fst ` set (map (\<lambda>(k, v). (k, canon_of v)) fs) = fst ` set fs"
    by force
  then show ?case
    by (simp only: canon_of.simps canon_ok.simps Let_def list_all_iff set_map set_sort set_merge_new list.set(1)
        sup_bot_left image_image) (simp add: val)
qed (auto simp: list_all_iff)

lemma serialize_text: "serialize a = text_of (canon_of a)"
proof (induction a rule: serialize.induct)
  case (5 xs)
  then have "map serialize xs = map (\<lambda>x. text_of (canon_of x)) xs" by simp
  then show ?case
    by (simp only: serialize.simps canon_of.simps text_of.simps map_map comp_def)
next
  case (6 fs)
  have *: "quote k @ 0x3A # (case map_of (map (\<lambda>(k, v). (k, serialize v)) fs) k of Some t \<Rightarrow> t | None \<Rightarrow> [])
      = quote k @ 0x3A # text_of (the (map_of (map (\<lambda>(k, v). (k, canon_of v)) fs) k))"
    if k: "k \<in> fst ` set fs" for k
  proof -
    obtain v where v: "map_of fs k = Some v" "(k, v) \<in> set fs"
      using k by (rule map_of_entry)
    with 6 have "serialize v = text_of (canon_of v)" by blast
    with v show ?thesis by (simp add: map_of_map)
  qed
  have fst: "map fst (map (\<lambda>(k, v). (k, f v)) fs) = map fst fs" for f :: "json \<Rightarrow> 'a"
    by auto
  have "map (\<lambda>k. quote k @ 0x3A # (case map_of (map (\<lambda>(k, v). (k, serialize v)) fs) k of Some t \<Rightarrow> t | None \<Rightarrow> []))
        (sort (dedupe (map fst fs)))
      = map (\<lambda>k. quote k @ 0x3A # text_of (the (map_of (map (\<lambda>(k, v). (k, canon_of v)) fs) k)))
        (sort (dedupe (map fst fs)))"
    by (rule map_cong [OF refl *]) auto
  then show ?case
    by (simp only: serialize.simps canon_of.simps text_of.simps Let_def fst sort_units_eq)
      (simp only: map_map comp_def prod.case)
qed auto

lemma serialize_inject:
  "json_finite a \<Longrightarrow> json_finite b \<Longrightarrow> serialize a = serialize b \<longleftrightarrow> canon_of a = canon_of b"
proof
  assume ok: "json_finite a" "json_finite b" and eq: "serialize a = serialize b"
  then have "text_of (canon_of a) @ [] = text_of (canon_of b) @ []"
    by (simp add: serialize_text)
  from decodesD [OF text_decodes this] ok show "canon_of a = canon_of b"
    by (simp add: canon_ok_of)
qed (simp add: serialize_text)

end
