(* ===== verification/JsValue.thy ===== *)
theory JsValue
  imports Json
begin

text \<open>
  JavaScript values that reach the code untyped: the input of \<open>validateManifest\<close>, ReCap
  caveats, policy documents. Objects are association lists in property order; property reads
  of absent keys give \<open>JUndefined\<close>. Numbers are those of \<open>Json\<close> (the two zeros are one value);
  characters are code units below 256.
\<close>

datatype jsv =
    JUndefined
  | JNull
  | JBool bool
  | JNumber jnumber
  | JString string
  | JArray "jsv list"
  | JObject "(string \<times> jsv) list"

text \<open>\<open>v.k\<close> for the values the code reads properties of.\<close>

fun js_get :: "jsv \<Rightarrow> string \<Rightarrow> jsv" where
  "js_get (JObject fs) k = (case map_of fs k of Some v \<Rightarrow> v | None \<Rightarrow> JUndefined)"
| "js_get _ k = JUndefined"

text \<open>\<open>Object.prototype.hasOwnProperty.call(v, k)\<close>\<close>

fun has_own :: "jsv \<Rightarrow> string \<Rightarrow> bool" where
  "has_own (JObject fs) k = (map_of fs k \<noteq> None)"
| "has_own _ k = False"

text \<open>\<open>v !== null && typeof v === "object"\<close>, arrays included.\<close>

fun is_object :: "jsv \<Rightarrow> bool" where
  "is_object (JObject _) = True"
| "is_object (JArray _) = True"
| "is_object _ = False"

text \<open>\<open>a ?? b\<close>\<close>

fun js_coalesce :: "jsv \<Rightarrow> jsv \<Rightarrow> jsv" where
  "js_coalesce JUndefined b = b"
| "js_coalesce JNull b = b"
| "js_coalesce a b = a"

text \<open>\<open>typeof v !== "string" || v.length === 0\<close> and its negation with the string.\<close>

fun nonempty_string :: "jsv \<Rightarrow> bool" where
  "nonempty_string (JString s) = (s \<noteq> [])"
| "nonempty_string _ = False"

fun js_string_opt :: "jsv \<Rightarrow> string option" where
  "js_string_opt (JString s) = Some s"
| "js_string_opt _ = None"

text \<open>\<open>JSON.parse(JSON.stringify(v))\<close>: undefined properties are dropped, undefined elements and
  non-finite numbers become \<open>null\<close>.\<close>

fun json_number :: "jnumber \<Rightarrow> jsv" where
  "json_number n = (if finite_number n then JNumber n else JNull)"

fun json_clone :: "jsv \<Rightarrow> jsv" where
  "json_clone JUndefined = JNull"
| "json_clone JNull = JNull"
| "json_clone (JBool b) = JBool b"
| "json_clone (JNumber n) = json_number n"
| "json_clone (JString s) = JString s"
| "json_clone (JArray xs) = JArray (map json_clone xs)"
| "json_clone (JObject fs) =
     JObject (map (\<lambda>(k, v). (k, json_clone v)) (filter (\<lambda>(k, v). v \<noteq> JUndefined) fs))"

lemma js_string_opt_Some [simp]: "js_string_opt v = Some s \<longleftrightarrow> v = JString s"
  by (cases v) auto

lemma nonempty_string_iff: "nonempty_string v \<longleftrightarrow> (\<exists>s. v = JString s \<and> s \<noteq> [])"
  by (cases v) auto

end
