(* ===== verification/Grouping.thy ===== *)
theory Grouping
  imports Prelude
begin

text \<open>
  The loop that recurs all over the program: walk a list, look each element's key up in a
  \<open>Map\<close>, insert an initial entry when the key is new and merge the element into the entry when
  it is not. \<open>Map\<close> keeps the order of first insertion and overwrites in place, so the table is
  an association list updated by \<open>AList.update\<close>.

  \<open>group_by_iff\<close> gives the table in closed form; the locale \<open>keyed_merge\<close> adds what an entry
  contributes (a set of observations) and concludes that the table contributes exactly what
  the elements do. The locale is interpreted where the loop is used: deduplication of
  resources, abilities maps, spaces, registry records.
\<close>

definition group_step ::
    "('a \<Rightarrow> 'k) \<Rightarrow> ('a \<Rightarrow> 'v) \<Rightarrow> ('v \<Rightarrow> 'a \<Rightarrow> 'v) \<Rightarrow> ('k \<times> 'v) list \<Rightarrow> 'a \<Rightarrow> ('k \<times> 'v) list" where
  "group_step key init merge tbl x =
     (case map_of tbl (key x) of
        None \<Rightarrow> tbl @ [(key x, init x)]
      | Some v \<Rightarrow> AList.update (key x) (merge v x) tbl)"

definition group_by ::
    "('a \<Rightarrow> 'k) \<Rightarrow> ('a \<Rightarrow> 'v) \<Rightarrow> ('v \<Rightarrow> 'a \<Rightarrow> 'v) \<Rightarrow> 'a list \<Rightarrow> ('k \<times> 'v) list" where
  "group_by key init merge xs = foldl (group_step key init merge) [] xs"

text \<open>The entry of a key: the elements with that key, merged left to right.\<close>

fun merged :: "('a \<Rightarrow> 'v) \<Rightarrow> ('v \<Rightarrow> 'a \<Rightarrow> 'v) \<Rightarrow> 'a list \<Rightarrow> 'v option" where
  "merged init merge [] = None"
| "merged init merge (x # xs) = Some (foldl merge (init x) xs)"

lemma merged_snoc:
  "merged init merge (xs @ [x]) =
   (case merged init merge xs of None \<Rightarrow> Some (init x) | Some v \<Rightarrow> Some (merge v x))"
  by (cases xs) auto

lemma merged_None [simp]: "merged init merge xs = None \<longleftrightarrow> xs = []"
  by (cases xs) auto

lemma map_of_snoc: "map_of (t @ [(k, v)]) k' = (if map_of t k' = None \<and> k' = k then Some v else map_of t k')"
  by (auto simp: map_add_def split: option.splits)

lemma fst_update_absent_present:
  "map fst (AList.update k v t) = (if k \<in> fst ` set t then map fst t else map fst t @ [k])"
  by (induction t) auto

lemma filter_key_Nil: "filter (\<lambda>x. key x = k) xs = [] \<longleftrightarrow> k \<notin> key ` set xs"
  by (auto simp: filter_empty_conv)

lemma map_of_group_by:
  "map_of (group_by key init merge xs) k = merged init merge (filter (\<lambda>x. key x = k) xs)"
proof (induction xs arbitrary: k rule: rev_induct)
  case Nil
  then show ?case by (simp add: group_by_def)
next
  case (snoc x xs)
  have "group_by key init merge (xs @ [x]) = group_step key init merge (group_by key init merge xs) x"
    by (simp add: group_by_def)
  then show ?case
    using snoc [of k] snoc [of "key x"]
    by (auto simp: group_step_def merged_snoc map_of_snoc update_conv simp del: map_of_append
        split: option.splits)
qed

lemma keys_group_by: "map fst (group_by key init merge xs) = dedupe (map key xs)"
proof (induction xs rule: rev_induct)
  case Nil
  then show ?case by (simp add: group_by_def)
next
  case (snoc x xs)
  have "group_by key init merge (xs @ [x]) = group_step key init merge (group_by key init merge xs) x"
    by (simp add: group_by_def)
  moreover have "map_of (group_by key init merge xs) (key x) = None \<longleftrightarrow> key x \<notin> key ` set xs"
    by (simp add: map_of_group_by filter_key_Nil)
  moreover have "fst ` set (group_by key init merge xs) = key ` set xs"
    using arg_cong [OF snoc, of set] by simp
  ultimately show ?case
    using snoc by (auto simp: group_step_def fst_update_absent_present merge_new_append push_new_def
        split: option.splits)
qed

lemma distinct_group_by [simp]: "distinct (map fst (group_by key init merge xs))"
  by (simp add: keys_group_by)

lemma alist_by_keys: "distinct (map fst t) \<Longrightarrow> t = map (\<lambda>k. (k, the (map_of t k))) (map fst t)"
proof -
  assume d: "distinct (map fst t)"
  have "map (\<lambda>k. (k, the (map_of t k))) (map fst t) = map (\<lambda>x. x) t"
    unfolding map_map using d by (intro map_cong) (auto simp: map_of_is_SomeI)
  then show ?thesis
    by simp
qed

theorem group_by_iff:
  "group_by key init merge xs =
   map (\<lambda>k. (k, the (merged init merge (filter (\<lambda>x. key x = k) xs)))) (dedupe (map key xs))"
  using alist_by_keys [OF distinct_group_by [of key init merge xs]]
  by (simp add: map_of_group_by keys_group_by cong: map_cong)

lemma group_by_distinct:
  "distinct (map key xs) \<Longrightarrow> group_by key init merge xs = map (\<lambda>x. (key x, init x)) xs"
proof (induction xs rule: rev_induct)
  case Nil
  then show ?case by (simp add: group_by_def)
next
  case (snoc x xs)
  have "group_by key init merge (xs @ [x]) = group_step key init merge (group_by key init merge xs) x"
    by (simp add: group_by_def)
  moreover have "map_of (group_by key init merge xs) (key x) = None"
    using snoc.prems by (simp add: map_of_group_by filter_key_Nil)
  ultimately show ?case
    using snoc by (simp add: group_step_def)
qed

section \<open>What the entries contribute\<close>

locale keyed_merge =
  fixes key :: "'a \<Rightarrow> 'k"
    and init :: "'a \<Rightarrow> 'v"
    and merge :: "'v \<Rightarrow> 'a \<Rightarrow> 'v"
    and gives :: "'a \<Rightarrow> 'o set"
    and holds :: "'v \<Rightarrow> 'o set"
  assumes holds_init: "holds (init x) = gives x"
    and holds_merge: "holds (merge v x) = holds v \<union> gives x"
begin

lemma holds_foldl: "holds (foldl merge v xs) = holds v \<union> (\<Union>x \<in> set xs. gives x)"
  by (induction xs arbitrary: v) (auto simp: holds_merge)

lemma holds_merged: "merged init merge xs = Some v \<Longrightarrow> holds v = (\<Union>x \<in> set xs. gives x)"
  by (cases xs) (auto simp: holds_foldl holds_init)

lemma entry_holds:
  "map_of (group_by key init merge xs) k = Some v \<Longrightarrow> holds v = (\<Union>x \<in> {x \<in> set xs. key x = k}. gives x)"
  by (auto simp: map_of_group_by dest!: holds_merged)

lemma entry_exists: "map_of (group_by key init merge xs) k = None \<longleftrightarrow> k \<notin> key ` set xs"
  by (simp add: map_of_group_by filter_key_Nil)

lemma entry_in_table:
  "(k, v) \<in> set (group_by key init merge xs) \<longleftrightarrow> map_of (group_by key init merge xs) k = Some v"
  by (simp add: map_of_eq_Some_iff)

lemma table_holds:
  "{(k, o'). \<exists>v. (k, v) \<in> set (group_by key init merge xs) \<and> o' \<in> holds v} =
   {(key x, o') |x o'. x \<in> set xs \<and> o' \<in> gives x}"
proof -
  have "(\<exists>v. map_of (group_by key init merge xs) k = Some v \<and> o' \<in> holds v) \<longleftrightarrow>
      (\<exists>x \<in> set xs. key x = k \<and> o' \<in> gives x)" for k o'
  proof (cases "map_of (group_by key init merge xs) k")
    case None
    then have "k \<notin> key ` set xs" by (rule entry_exists [THEN iffD1])
    with None show ?thesis by force
  next
    case (Some v)
    then show ?thesis by (auto simp: entry_holds)
  qed
  then have "{(k, o'). \<exists>v. (k, v) \<in> set (group_by key init merge xs) \<and> o' \<in> holds v} =
      {(k, o'). \<exists>x \<in> set xs. key x = k \<and> o' \<in> gives x}"
    by (simp only: entry_in_table)
  then show ?thesis
    by blast
qed

lemma table_union: "(\<Union>(k, v) \<in> set (group_by key init merge xs). holds v) = (\<Union>x \<in> set xs. gives x)"
proof -
  have "(\<Union>(k, v) \<in> set (group_by key init merge xs). holds v) =
      snd ` {(k, o'). \<exists>v. (k, v) \<in> set (group_by key init merge xs) \<and> o' \<in> holds v}"
    by force
  also have "\<dots> = (\<Union>x \<in> set xs. gives x)"
    unfolding table_holds by force
  finally show ?thesis .
qed

end

text \<open>The loop that only collects the elements of each key: \<open>[x]\<close>, then \<open>push(x)\<close>.\<close>

abbreviation collect_by :: "('a \<Rightarrow> 'k) \<Rightarrow> 'a list \<Rightarrow> ('k \<times> 'a list) list" where
  "collect_by key xs \<equiv> group_by key (\<lambda>x. [x]) (\<lambda>v x. v @ [x]) xs"

lemma foldl_snoc: "foldl (\<lambda>v x. v @ [x]) ys xs = ys @ xs"
  by (induction xs arbitrary: ys) auto

lemma collect_by_iff:
  fixes xs :: "'a list"
  shows "collect_by key xs = map (\<lambda>k. (k, filter (\<lambda>x. key x = k) xs)) (dedupe (map key xs))"
proof -
  have "the (merged (\<lambda>x. [x]) (\<lambda>v x. v @ [x]) ys) = ys" if "ys \<noteq> []" for ys :: "'a list"
    using that by (cases ys) (auto simp: foldl_snoc)
  note singletons = this
  show ?thesis
    unfolding group_by_iff
  proof (rule map_cong [OF refl])
    fix k assume "k \<in> set (dedupe (map key xs))"
    then have "filter (\<lambda>x. key x = k) xs \<noteq> []"
      by (simp add: filter_key_Nil)
    from singletons [OF this]
    show "(k, the (merged (\<lambda>x. [x]) (\<lambda>v x. v @ [x]) (filter (\<lambda>x. key x = k) xs))) =
        (k, filter (\<lambda>x. key x = k) xs)"
      by (rule arg_cong)
  qed
qed

lemma collect_by_flatten: "(\<Union>(k, ys) \<in> set (collect_by key xs). set ys) = set xs"
  by (auto simp: collect_by_iff)

end
