(* ===== verification/Abilities.thy ===== *)
theory Abilities
  imports Grouping
begin

text \<open>
  The registry of capability URNs: the vendored table
  \<^verbatim>\<open>packages/bootstrap/src/generated/capabilities.ts\<close> and the constants
  \<^verbatim>\<open>packages/bootstrap/src/capabilities.ts\<close> derives from it by string transformation. The
  tables are transcribed entry by entry; the lemmas check that the derived tables agree with
  the registry they come from.
\<close>

section \<open>The vendored registry\<close>

datatype capability_status = Active | DeprecatedAlias | Reserved

record capability_entry =
  ce_urn :: string
  ce_service :: string
  ce_status :: capability_status
  ce_aliasOf :: "string option"
  ce_implies :: "string list"

abbreviation cap_entry where
  "cap_entry u s st a i \<equiv>
     \<lparr>ce_urn = u, ce_service = s, ce_status = st, ce_aliasOf = a, ce_implies = i\<rparr>"

definition GENERATED_CAPABILITIES :: "capability_entry list" where
  "GENERATED_CAPABILITIES = [
     cap_entry ''tinycloud.kv/get'' ''tinycloud.kv'' Active None [],
     cap_entry ''tinycloud.kv/list'' ''tinycloud.kv'' Active None [],
     cap_entry ''tinycloud.kv/metadata'' ''tinycloud.kv'' Active None [],
     cap_entry ''tinycloud.kv/put'' ''tinycloud.kv'' Active None [],
     cap_entry ''tinycloud.kv/del'' ''tinycloud.kv'' Active None [],
     cap_entry ''tinycloud.kv/delete'' ''tinycloud.kv'' DeprecatedAlias (Some ''tinycloud.kv/del'') [],
     cap_entry ''tinycloud.kv/sync'' ''tinycloud.kv'' Active None [],
     cap_entry ''tinycloud.kv/retain'' ''tinycloud.kv'' Active None [],
     cap_entry ''tinycloud.sql/read'' ''tinycloud.sql'' Active None [],
     cap_entry ''tinycloud.sql/select'' ''tinycloud.sql'' DeprecatedAlias (Some ''tinycloud.sql/read'') [],
     cap_entry ''tinycloud.sql/write'' ''tinycloud.sql'' Active None [],
     cap_entry ''tinycloud.sql/schema'' ''tinycloud.sql'' Active None [],
     cap_entry ''tinycloud.sql/admin'' ''tinycloud.sql'' Active None [''tinycloud.sql/schema''],
     cap_entry ''tinycloud.sql/*'' ''tinycloud.sql'' Active None [''tinycloud.sql/read'', ''tinycloud.sql/write'', ''tinycloud.sql/schema'', ''tinycloud.sql/admin''],
     cap_entry ''tinycloud.duckdb/read'' ''tinycloud.duckdb'' Active None [],
     cap_entry ''tinycloud.duckdb/write'' ''tinycloud.duckdb'' Active None [],
     cap_entry ''tinycloud.duckdb/admin'' ''tinycloud.duckdb'' Active None [],
     cap_entry ''tinycloud.duckdb/import'' ''tinycloud.duckdb'' Active None [],
     cap_entry ''tinycloud.duckdb/export'' ''tinycloud.duckdb'' Active None [],
     cap_entry ''tinycloud.duckdb/select'' ''tinycloud.duckdb'' DeprecatedAlias (Some ''tinycloud.duckdb/read'') [],
     cap_entry ''tinycloud.duckdb/*'' ''tinycloud.duckdb'' Active None [''tinycloud.duckdb/read'', ''tinycloud.duckdb/write'', ''tinycloud.duckdb/admin'', ''tinycloud.duckdb/import'', ''tinycloud.duckdb/export''],
     cap_entry ''tinycloud.capabilities/read'' ''tinycloud.capabilities'' Active None [],
     cap_entry ''tinycloud.delegation/status'' ''tinycloud.delegation'' Active None [],
     cap_entry ''tinycloud.delegation/list'' ''tinycloud.delegation'' Active None [],
     cap_entry ''tinycloud.hooks/subscribe'' ''tinycloud.hooks'' Active None [],
     cap_entry ''tinycloud.hooks/register'' ''tinycloud.hooks'' Active None [],
     cap_entry ''tinycloud.hooks/list'' ''tinycloud.hooks'' Active None [],
     cap_entry ''tinycloud.hooks/unregister'' ''tinycloud.hooks'' Active None [],
     cap_entry ''tinycloud.encryption/decrypt'' ''tinycloud.encryption'' Active None [],
     cap_entry ''tinycloud.encryption/network.create'' ''tinycloud.encryption'' Active None [],
     cap_entry ''tinycloud.encryption/network.revoke'' ''tinycloud.encryption'' Active None [],
     cap_entry ''tinycloud.space/host'' ''tinycloud.space'' Active None [],
     cap_entry ''tinycloud.space/create'' ''tinycloud.space'' Active None [],
     cap_entry ''tinycloud.space/list'' ''tinycloud.space'' Active None [],
     cap_entry ''tinycloud.space/info'' ''tinycloud.space'' Active None [],
     cap_entry ''tinycloud.vfs/get'' ''tinycloud.vfs'' Reserved None [],
     cap_entry ''tinycloud.vfs/list'' ''tinycloud.vfs'' Reserved None [],
     cap_entry ''tinycloud.vfs/metadata'' ''tinycloud.vfs'' Reserved None [],
     cap_entry ''tinycloud.vfs/put'' ''tinycloud.vfs'' Reserved None [],
     cap_entry ''tinycloud.vfs/delete'' ''tinycloud.vfs'' Reserved None []]"

definition ACCEPTED_ACTIONS :: "(string \<times> string list) list" where
  "ACCEPTED_ACTIONS = [
     (''tinycloud.capabilities'', [''tinycloud.capabilities/read'']),
     (''tinycloud.delegation'', [''tinycloud.delegation/list'', ''tinycloud.delegation/status'']),
     (''tinycloud.duckdb'', [''tinycloud.duckdb/*'', ''tinycloud.duckdb/admin'', ''tinycloud.duckdb/export'', ''tinycloud.duckdb/import'', ''tinycloud.duckdb/read'', ''tinycloud.duckdb/select'', ''tinycloud.duckdb/write'']),
     (''tinycloud.encryption'', [''tinycloud.encryption/decrypt'', ''tinycloud.encryption/network.create'', ''tinycloud.encryption/network.revoke'']),
     (''tinycloud.hooks'', [''tinycloud.hooks/list'', ''tinycloud.hooks/register'', ''tinycloud.hooks/subscribe'', ''tinycloud.hooks/unregister'']),
     (''tinycloud.kv'', [''tinycloud.kv/del'', ''tinycloud.kv/delete'', ''tinycloud.kv/get'', ''tinycloud.kv/list'', ''tinycloud.kv/metadata'', ''tinycloud.kv/put'', ''tinycloud.kv/retain'', ''tinycloud.kv/sync'']),
     (''tinycloud.space'', [''tinycloud.space/create'', ''tinycloud.space/host'', ''tinycloud.space/info'', ''tinycloud.space/list'']),
     (''tinycloud.sql'', [''tinycloud.sql/*'', ''tinycloud.sql/admin'', ''tinycloud.sql/read'', ''tinycloud.sql/schema'', ''tinycloud.sql/select'', ''tinycloud.sql/write'']),
     (''tinycloud.vfs'', [''tinycloud.vfs/delete'', ''tinycloud.vfs/get'', ''tinycloud.vfs/list'', ''tinycloud.vfs/metadata'', ''tinycloud.vfs/put''])]"

definition ALIASES :: "(string \<times> string) list" where
  "ALIASES = [
     (''tinycloud.duckdb/select'', ''tinycloud.duckdb/read''),
     (''tinycloud.kv/delete'', ''tinycloud.kv/del''),
     (''tinycloud.sql/select'', ''tinycloud.sql/read'')]"

definition IMPLICATIONS :: "(string \<times> string list) list" where
  "IMPLICATIONS = [
     (''tinycloud.duckdb/*'', [''tinycloud.duckdb/admin'', ''tinycloud.duckdb/export'', ''tinycloud.duckdb/import'', ''tinycloud.duckdb/read'', ''tinycloud.duckdb/write'']),
     (''tinycloud.sql/*'', [''tinycloud.sql/admin'', ''tinycloud.sql/read'', ''tinycloud.sql/schema'', ''tinycloud.sql/write'']),
     (''tinycloud.sql/admin'', [''tinycloud.sql/schema''])]"

definition resolveAlias :: "string \<Rightarrow> string" where
  "resolveAlias action = (case map_of ALIASES action of Some a \<Rightarrow> a | None \<Rightarrow> action)"

definition impliedActions :: "string \<Rightarrow> string list" where
  "impliedActions action = (case map_of IMPLICATIONS action of Some as \<Rightarrow> as | None \<Rightarrow> [])"

section \<open>Derived constants\<close>

text \<open>\<open>toUpperCase\<close> on ASCII, which the registry's actions are.\<close>

fun upper_char :: "char \<Rightarrow> char" where
  "upper_char (Char b0 b1 b2 b3 b4 b5 b6 b7) =
     (if is_lower (Char b0 b1 b2 b3 b4 b5 b6 b7) then Char b0 b1 b2 b3 b4 False b6 b7
      else Char b0 b1 b2 b3 b4 b5 b6 b7)"

definition actionKey :: "string \<Rightarrow> string" where
  "actionKey action =
     (if action = ''*'' then ''ALL''
      else map (\<lambda>c. if is_upper (upper_char c) \<or> is_digit (upper_char c) then upper_char c else CHR ''_'') action)"

definition serviceOf :: "string \<Rightarrow> string" where
  "serviceOf urn =
     drop (length ''tinycloud.'') (case splitFirst CHR ''/'' urn of Some (a, _) \<Rightarrow> a | None \<Rightarrow> dropEnd 1 urn)"

definition actionOf :: "string \<Rightarrow> string" where
  "actionOf urn = (case splitFirst CHR ''/'' urn of Some (_, b) \<Rightarrow> b | None \<Rightarrow> urn)"

definition deriveServiceConstants :: "string \<Rightarrow> (string \<times> string) list" where
  "deriveServiceConstants service =
     foldl (\<lambda>out entry.
         if serviceOf (ce_urn entry) \<noteq> service then out
         else AList.update (actionKey (actionOf (ce_urn entry))) (ce_urn entry) out)
       [] GENERATED_CAPABILITIES"

definition KV :: "(string \<times> string) list" where "KV = deriveServiceConstants ''kv''"

definition SQL :: "(string \<times> string) list" where
  "SQL = AList.update ''EXPORT'' ''tinycloud.sql/export''
    (AList.update ''EXECUTE'' ''tinycloud.sql/execute'' (deriveServiceConstants ''sql''))"

definition DUCKDB :: "(string \<times> string) list" where
  "DUCKDB = AList.update ''EXECUTE'' ''tinycloud.duckdb/execute''
    (AList.update ''DESCRIBE'' ''tinycloud.duckdb/describe'' (deriveServiceConstants ''duckdb''))"

definition CAPABILITIES :: "(string \<times> string) list" where
  "CAPABILITIES = deriveServiceConstants ''capabilities''"

definition ENCRYPTION :: "(string \<times> string) list" where
  "ENCRYPTION = deriveServiceConstants ''encryption''"

definition SPACE :: "(string \<times> string) list" where
  "SPACE = deriveServiceConstants ''space''"

text \<open>\<open>KV.GET\<close>: a key every table has (the casts in the code list them).\<close>

definition const_of :: "(string \<times> string) list \<Rightarrow> string \<Rightarrow> string" where
  "const_of tbl k = (case map_of tbl k of Some u \<Rightarrow> u | None \<Rightarrow> [])"

section \<open>Facts\<close>

lemma derived_constants:
  "const_of KV ''GET'' = ''tinycloud.kv/get''" "const_of KV ''PUT'' = ''tinycloud.kv/put''"
  "const_of KV ''DEL'' = ''tinycloud.kv/del''" "const_of KV ''LIST'' = ''tinycloud.kv/list''"
  "const_of KV ''METADATA'' = ''tinycloud.kv/metadata''"
  "const_of SQL ''READ'' = ''tinycloud.sql/read''" "const_of SQL ''WRITE'' = ''tinycloud.sql/write''"
  "const_of SQL ''SCHEMA'' = ''tinycloud.sql/schema''"
  "const_of CAPABILITIES ''READ'' = ''tinycloud.capabilities/read''"
  "const_of ENCRYPTION ''NETWORK_CREATE'' = ''tinycloud.encryption/network.create''"
  "const_of SPACE ''HOST'' = ''tinycloud.space/host''"
  by code_simp+

lemma set_some_pairs:
  "set (concat (map (\<lambda>e. case f e of None \<Rightarrow> [] | Some a \<Rightarrow> [(g e, a)]) es)) =
   {(g e, a) |e a. e \<in> set es \<and> f e = Some a}"
proof (induction es)
  case (Cons e es)
  then show ?case by (cases "f e") auto
qed simp

text \<open>The derived tables agree with the registry: the alias and implication tables list
  exactly the entries that carry an alias or implications (implications up to order), every
  service's accepted actions are its registry entries, aliases resolve in one hop to an active
  action of the same service, and no two actions of a service share a constant's key.\<close>

theorem registry_tables_agree:
  "set ALIASES = {(ce_urn e, a) |e a. e \<in> set GENERATED_CAPABILITIES \<and> ce_aliasOf e = Some a} \<and>
   (\<lambda>(u, is). (u, set is)) ` set IMPLICATIONS =
     {(ce_urn e, set (ce_implies e)) |e. e \<in> set GENERATED_CAPABILITIES \<and> ce_implies e \<noteq> []} \<and>
   list_all (\<lambda>(s, as). set as = ce_urn ` {e \<in> set GENERATED_CAPABILITIES. ce_service e = s}) ACCEPTED_ACTIONS \<and>
   fst ` set ACCEPTED_ACTIONS = ce_service ` set GENERATED_CAPABILITIES \<and>
   list_all (\<lambda>(u, a). resolveAlias a = a \<and> serviceOf a = serviceOf u) ALIASES \<and>
   distinct (map (\<lambda>e. (serviceOf (ce_urn e), actionKey (actionOf (ce_urn e)))) GENERATED_CAPABILITIES)"
  (is "?A \<and> ?I \<and> ?C \<and> ?S \<and> ?R \<and> ?D")
proof (intro conjI)
  show ?R by code_simp
  show ?D by code_simp
  have a: "set ALIASES =
      set (concat (map (\<lambda>e. case ce_aliasOf e of None \<Rightarrow> [] | Some a \<Rightarrow> [(ce_urn e, a)]) GENERATED_CAPABILITIES))"
    by code_simp
  show ?A
    unfolding a by (rule set_some_pairs)
  have "set (map (\<lambda>(u, is). (u, set is)) IMPLICATIONS) =
      set (map (\<lambda>e. (ce_urn e, set (ce_implies e))) (filter (\<lambda>e. ce_implies e \<noteq> []) GENERATED_CAPABILITIES))"
    by code_simp
  then show ?I
    by auto
  have "list_all (\<lambda>(s, as). set as = set (map ce_urn (filter (\<lambda>e. ce_service e = s) GENERATED_CAPABILITIES)))
      ACCEPTED_ACTIONS"
    by code_simp
  then show ?C
    by simp
  have "set (map fst ACCEPTED_ACTIONS) = set (map ce_service GENERATED_CAPABILITIES)"
    by code_simp
  then show ?S
    by simp
qed

end
