(* ===== verification/ManifestTypes.thy ===== *)
theory ManifestTypes
  imports EncResource SecretPaths JsValue Abilities
begin

text \<open>
  The data of \<^verbatim>\<open>packages/sdk-core/src/manifest.ts\<close> (and of the copies of its interfaces in
  \<^verbatim>\<open>packages/bootstrap/src/index.ts\<close>): permission entries, resource capabilities, manifests,
  resolved capabilities and composed requests, with the constants and the errors.

  Optional properties are \<open>option\<close> values. Properties whose type the code inspects at run
  time (defaults, knowledge, secrets, keys, the version) are \<open>jsv\<close> values; a manifest is
  turned into the object \<open>validateManifest\<close> inspects by \<open>manifest_value\<close>. Properties the code
  never reads (description, icon and version of a manifest) are left out.
\<close>

section \<open>Entries and resources\<close>

record permission_entry =
  pe_service :: string
  pe_space :: "string option"
  pe_path :: string
  pe_actions :: "string list"
  pe_caveats :: "jsv list option"
  pe_skipPrefix :: "bool option"
  pe_expiry :: "string option"
  pe_description :: "string option"

record resource_capability =
  rc_service :: string
  rc_space :: string
  rc_path :: string
  rc_actions :: "string list"
  rc_expiryMs :: "rat option"
  rc_description :: "string option"

abbreviation entry :: "string \<Rightarrow> string option \<Rightarrow> string \<Rightarrow> string list \<Rightarrow> bool option \<Rightarrow> permission_entry" where
  "entry service space path actions skip \<equiv>
     \<lparr>pe_service = service, pe_space = space, pe_path = path, pe_actions = actions, pe_caveats = None,
      pe_skipPrefix = skip, pe_expiry = None, pe_description = None\<rparr>"

abbreviation resource :: "string \<Rightarrow> string \<Rightarrow> string \<Rightarrow> string list \<Rightarrow> resource_capability" where
  "resource service space path actions \<equiv>
     \<lparr>rc_service = service, rc_space = space, rc_path = path, rc_actions = actions,
      rc_expiryMs = None, rc_description = None\<rparr>"

record resolved_delegate =
  rd_did :: string
  rd_name :: "string option"
  rd_expiryMs :: rat
  rd_permissions :: "resource_capability list"

section \<open>Manifests and requests\<close>

record manifest =
  m_manifest_version :: jsv
  m_app_id :: string
  m_keys_app_id :: "jsv option"      \<comment> \<open>\<open>None\<close>: no own property of that name\<close>
  m_name :: string
  m_did :: "string option"
  m_expiry :: "string option"
  m_space :: "string option"
  m_prefix :: "string option"
  m_defaults :: jsv
  m_includePublicSpace :: "bool option"
  m_knowledge :: jsv
  m_permissions :: "permission_entry list option"
  m_secrets :: jsv
  m_keys :: jsv

record resolved_capabilities =
  r_app_id :: string
  r_did :: "string option"
  r_space :: string
  r_resources :: "resource_capability list"
  r_expiryMs :: rat
  r_includePublicSpace :: bool
  r_additionalDelegates :: "resolved_delegate list"

record registry_record =
  rr_key :: string
  rr_app_id :: string
  rr_manifests :: "manifest list"

record composed_request =
  cr_manifests :: "manifest list"
  cr_resources :: "resource_capability list"
  cr_delegationTargets :: "resolved_delegate list"
  cr_registryRecords :: "registry_record list"
  cr_expiryMs :: rat
  cr_includePublicSpace :: bool

text \<open>The object a typed manifest is, property by property.\<close>

definition field :: "string \<Rightarrow> ('a \<Rightarrow> jsv) \<Rightarrow> 'a option \<Rightarrow> (string \<times> jsv) list" where
  "field k f x = (case x of None \<Rightarrow> [] | Some v \<Rightarrow> [(k, f v)])"

definition strings :: "string list \<Rightarrow> jsv" where
  "strings ss = JArray (map JString ss)"

definition entry_value :: "permission_entry \<Rightarrow> jsv" where
  "entry_value p = JObject (
     [(''service'', JString (pe_service p))] @ field ''space'' JString (pe_space p) @
     [(''path'', JString (pe_path p)), (''actions'', strings (pe_actions p))] @
     field ''caveats'' JArray (pe_caveats p) @ field ''skipPrefix'' JBool (pe_skipPrefix p) @
     field ''expiry'' JString (pe_expiry p) @ field ''description'' JString (pe_description p))"

definition manifest_value :: "manifest \<Rightarrow> jsv" where
  "manifest_value m = JObject (
     [(''manifest_version'', m_manifest_version m), (''app_id'', JString (m_app_id m))] @
     field ''keys_app_id'' (\<lambda>v. v) (m_keys_app_id m) @
     [(''name'', JString (m_name m))] @
     field ''did'' JString (m_did m) @ field ''expiry'' JString (m_expiry m) @
     field ''space'' JString (m_space m) @ field ''prefix'' JString (m_prefix m) @
     [(''defaults'', m_defaults m)] @
     field ''includePublicSpace'' JBool (m_includePublicSpace m) @
     [(''knowledge'', m_knowledge m)] @
     field ''permissions'' (\<lambda>ps. JArray (map entry_value ps)) (m_permissions m) @
     [(''secrets'', m_secrets m), (''keys'', m_keys m)])"

section \<open>Errors\<close>

text \<open>One constructor per \<open>throw\<close> of the file; the labels are those of the messages.\<close>

datatype manifest_error =
    ExpiryNotAString
  | ExpiryInvalid string
  | EncryptionPathNotUrn string
  | NamedKeysGoInKeys
  | EncryptionPathInvalid
  | UnknownEncryptionAction string
  | SharePrefixActions
  | SharePrefixOwner
  | RuntimeShareKeyExact
  | RuntimeShareKeyCanonical
  | DelegationKeyCanonical
  | DelegationKeyExact
  | ManifestNotAnObject
  | ManifestVersion
  | ManifestAppId
  | ManifestName
  | ManifestDid
  | ManifestSpace
  | PermissionsNotAnArray
  | KeysAppIdInvalid
  | KeysTooMany
  | KeysNeedAppId
  | KeyNotAnObject nat
  | KeyFields nat
  | KeyAbilitiesInvalid nat
  | KeyPathInvalid nat
  | KeyPrefixInvalid nat
  | KnowledgeInvalid
  | SecretsNotAnObject
  | SecretNamePattern string
  | SecretPathInvalid string
  | SecretSpecType string
  | SecretActionsType string
  | SecretActionsEmpty string
  | SecretActionsNotStrings string
  | UnknownSecretAction jsv
  | EntryNotAnObject nat
  | EntryService nat
  | EntrySpace nat
  | EntryPath nat
  | EntryActions nat
  | EntryActionStrings nat
  | EntryCaveats nat
  | UnknownVaultAction string
  | ForeignVaultAction string
  | NoManifests
  | UnknownService string
  | SecretResolution secret_error     \<comment> \<open>an error of \<open>resolveSecretPath\<close> that is not wrapped\<close>
  | InheritedProperty string          \<comment> \<open>the \<open>TypeError\<close> of iterating over a member of \<open>Object.prototype\<close>\<close>
  | NotAString                        \<comment> \<open>the \<open>TypeError\<close> of a string method on another value\<close>

section \<open>Constants\<close>

definition DEFAULT_KNOWLEDGE_ROOT :: string where "DEFAULT_KNOWLEDGE_ROOT = ''knowledge/index.md''"
definition DEFAULT_EXPIRY :: string where "DEFAULT_EXPIRY = ''30d''"
definition DEFAULT_MANIFEST_VERSION :: jsv where "DEFAULT_MANIFEST_VERSION = JNumber (Decimal False 1 1)"
definition DEFAULT_MANIFEST_SPACE :: string where "DEFAULT_MANIFEST_SPACE = ''applications''"
definition ACCOUNT_REGISTRY_SPACE :: string where "ACCOUNT_REGISTRY_SPACE = ''account''"
definition ACCOUNT_REGISTRY_PATH :: string where "ACCOUNT_REGISTRY_PATH = ''applications/''"
definition SECRETS_SPACE :: string where "SECRETS_SPACE = ''secrets''"
definition VAULT_PERMISSION_SERVICE :: string where "VAULT_PERMISSION_SERVICE = ''tinycloud.vault''"
definition ENCRYPTION_PERMISSION_SERVICE :: string where "ENCRYPTION_PERMISSION_SERVICE = ''tinycloud.encryption''"
definition ENCRYPTION_MANIFEST_SPACE :: string where "ENCRYPTION_MANIFEST_SPACE = ''encryption''"

definition SERVICE_SHORT_TO_LONG :: "(string \<times> string) list" where
  "SERVICE_SHORT_TO_LONG = [
     (''kv'', ''tinycloud.kv''),
     (''space'', ''tinycloud.space''),
     (''sql'', ''tinycloud.sql''),
     (''duckdb'', ''tinycloud.duckdb''),
     (''capabilities'', ''tinycloud.capabilities''),
     (''hooks'', ''tinycloud.hooks''),
     (''encryption'', ''tinycloud.encryption''),
     (''delegation'', ''tinycloud.delegation'')]"

definition SERVICE_LONG_TO_SHORT :: "(string \<times> string) list" where
  "SERVICE_LONG_TO_SHORT = map (\<lambda>(s, l). (l, s)) SERVICE_SHORT_TO_LONG"

lemmas service_constants =
  VAULT_PERMISSION_SERVICE_def ENCRYPTION_PERMISSION_SERVICE_def ENCRYPTION_MANIFEST_SPACE_def

section \<open>Durations\<close>

text \<open>A number as the arithmetic reads it: the IEEE doubles the code meets are rationals, the two
  infinities or NaN.\<close>

datatype jsnum = Fin rat | PosInf | NegInf | NaN

text \<open>\<open>ms\<close> is the function of the package of that name: a duration string to milliseconds,
  \<open>None\<close> for what it cannot read. It is an argument of every definition that reaches it.\<close>

type_synonym ms_lib = "string \<Rightarrow> jsnum option"

definition parseExpiry :: "ms_lib \<Rightarrow> jsv \<Rightarrow> manifest_error + rat" where
  "parseExpiry ms duration =
     (case duration of
        JString s \<Rightarrow>
          if s = [] then Inl ExpiryNotAString
          else (case ms s of
                  Some (Fin parsed) \<Rightarrow> if parsed \<le> 0 then Inl (ExpiryInvalid s) else Inr parsed
                | _ \<Rightarrow> Inl (ExpiryInvalid s))
      | _ \<Rightarrow> Inl ExpiryNotAString)"

lemma parseExpiry_pos: "parseExpiry ms d = Inr e \<Longrightarrow> 0 < e"
  by (auto simp: parseExpiry_def split: jsv.splits if_splits option.splits jsnum.splits)

section \<open>Facts on manifest objects\<close>

definition opt_value :: "('a \<Rightarrow> jsv) \<Rightarrow> 'a option \<Rightarrow> jsv" where
  "opt_value f x = (case x of Some v \<Rightarrow> f v | None \<Rightarrow> JUndefined)"

lemma map_of_field: "map_of (field k f x) k' = (if k' = k then map_option f x else None)"
  by (simp add: field_def split: option.splits)

lemma js_get_manifest:
  "js_get (manifest_value m) ''manifest_version'' = m_manifest_version m"
  "js_get (manifest_value m) ''app_id'' = JString (m_app_id m)"
  "js_get (manifest_value m) ''name'' = JString (m_name m)"
  "js_get (manifest_value m) ''did'' = opt_value JString (m_did m)"
  "js_get (manifest_value m) ''expiry'' = opt_value JString (m_expiry m)"
  "js_get (manifest_value m) ''space'' = opt_value JString (m_space m)"
  "js_get (manifest_value m) ''knowledge'' = m_knowledge m"
  "js_get (manifest_value m) ''permissions'' = opt_value (\<lambda>ps. JArray (map entry_value ps)) (m_permissions m)"
  "js_get (manifest_value m) ''secrets'' = m_secrets m"
  "js_get (manifest_value m) ''keys'' = m_keys m"
  "js_get (manifest_value m) ''keys_app_id'' = opt_value (\<lambda>v. v) (m_keys_app_id m)"
  by (simp_all add: manifest_value_def map_of_field map_add_def opt_value_def split: option.splits)

lemma js_get_entry:
  "js_get (entry_value p) ''service'' = JString (pe_service p)"
  "js_get (entry_value p) ''space'' = opt_value JString (pe_space p)"
  "js_get (entry_value p) ''path'' = JString (pe_path p)"
  "js_get (entry_value p) ''actions'' = strings (pe_actions p)"
  "js_get (entry_value p) ''caveats'' = opt_value JArray (pe_caveats p)"
  "js_get (entry_value p) ''expiry'' = opt_value JString (pe_expiry p)"
  by (simp_all add: entry_value_def map_of_field map_add_def opt_value_def split: option.splits)

end
