(* ===== verification/ManifestExpand.thy ===== *)
theory ManifestExpand
  imports ManifestTypes
begin

text \<open>
  Permission expansion of \<^verbatim>\<open>packages/sdk-core/src/manifest.ts\<close>: short action names, vault and
  encryption entries, the run-time and the delegation variants, path prefixes, secrets as
  vault entries. The properties are that expansion is a projection (expanding twice changes
  nothing), that it never emits an encryption action outside the four known ones, and where
  key creation can come from.
\<close>

section \<open>Action names and prefixes\<close>

definition expandActionShortNames :: "string \<Rightarrow> string list \<Rightarrow> string list" where
  "expandActionShortNames service actions =
     map (\<lambda>a. if hasChar a CHR ''/'' then a else service @ ''/'' @ a) actions"

definition applyPrefix :: "string \<Rightarrow> string \<Rightarrow> bool \<Rightarrow> string" where
  "applyPrefix pre path skipPrefix =
     (if skipPrefix then path
      else if pre = [] then path
      else if startsWith path ''/'' then pre @ path
      else pre @ ''/'' @ path)"

section \<open>Vault entries\<close>

definition normalizeVaultAction :: "string \<Rightarrow> manifest_error + string" where
  "normalizeVaultAction action =
     (if startsWith action (VAULT_PERMISSION_SERVICE @ ''/'')
      then Inr (drop (length (VAULT_PERMISSION_SERVICE @ ''/'')) action)
      else if startsWith action ''tinycloud.kv/'' then Inr (drop (length ''tinycloud.kv/'') action)
      else if hasChar action CHR ''/'' then Inl (ForeignVaultAction action)
      else Inr action)"

text \<open>The bases (always the one base \<open>vault\<close>) and the action.\<close>

definition vaultActionExpansion :: "string \<Rightarrow> manifest_error + string list \<times> string" where
  "vaultActionExpansion action =
     bindR (normalizeVaultAction action) (\<lambda>normalized.
       if normalized = ''read'' \<or> normalized = ''get'' then Inr ([''vault''], ''tinycloud.kv/get'')
       else if normalized = ''write'' \<or> normalized = ''put'' then Inr ([''vault''], ''tinycloud.kv/put'')
       else if normalized = ''delete'' \<or> normalized = ''del'' then Inr ([''vault''], ''tinycloud.kv/del'')
       else if normalized = ''list'' then Inr ([''vault''], ''tinycloud.kv/list'')
       else if normalized = ''head'' then Inr ([''vault''], ''tinycloud.kv/get'')
       else if normalized = ''metadata'' then Inr ([''vault''], ''tinycloud.kv/metadata'')
       else Inl (UnknownVaultAction action))"

definition vaultKVPath :: "string \<Rightarrow> string \<Rightarrow> string" where
  "vaultKVPath base path = base @ ''/'' @ (if startsWith path ''/'' then drop 1 path else path)"

definition expandVaultPermissionEntry :: "permission_entry \<Rightarrow> manifest_error + permission_entry list" where
  "expandVaultPermissionEntry e =
     bindR (mapR vaultActionExpansion (pe_actions e)) (\<lambda>expansions.
       let byBase = group_by fst (\<lambda>(_, action). [action]) (\<lambda>actions (_, action). push_new actions action)
             (concat (map (\<lambda>(bases, action). map (\<lambda>base. (base, action)) bases) expansions))
       in Inr (map (\<lambda>(base, actions). e\<lparr>pe_service := ''tinycloud.kv'', pe_path := vaultKVPath base (pe_path e),
                 pe_actions := actions, pe_skipPrefix := Some True\<rparr>) byBase))"

section \<open>Encryption entries\<close>

definition encryption_action :: "bool \<Rightarrow> string \<Rightarrow> manifest_error + string" where
  "encryption_action sharePrefix action =
     (if action = ''decrypt'' \<or> action = ''tinycloud.encryption/decrypt''
      then Inr ''tinycloud.encryption/decrypt''
      else if action = ''network.create'' \<or> action = ''tinycloud.encryption/network.create''
      then Inr ''tinycloud.encryption/network.create''
      else if action = ''network.revoke'' \<or> action = ''tinycloud.encryption/network.revoke''
      then Inr ''tinycloud.encryption/network.revoke''
      else if sharePrefix \<and> (action = ''key.create'' \<or> action = ''tinycloud.encryption/key.create'')
      then Inr ''tinycloud.encryption/key.create''
      else Inl (UnknownEncryptionAction action))"

definition canonical_share_prefix :: "evm_lib \<Rightarrow> string \<Rightarrow> bool" where
  "canonical_share_prefix ev path =
     (case parseEncryptionResource ev path of
        Inr (PrefixResource _ network _ pre) \<Rightarrow> network = ''default'' \<and> pre = ''share''
      | _ \<Rightarrow> False)"

definition expandEncryptionPermissionEntry ::
    "evm_lib \<Rightarrow> permission_entry \<Rightarrow> manifest_error + permission_entry list" where
  "expandEncryptionPermissionEntry ev e =
     (if \<not> startsWith (pe_path e) ''urn:tinycloud:encryption:'' then Inl (EncryptionPathNotUrn (pe_path e))
      else let sharePrefix = endsWith (pe_path e) ''/share/''
      in if hasChar (pe_path e) CHR ''/'' \<and> \<not> sharePrefix then Inl NamedKeysGoInKeys
      else (case parseNetworkId (if sharePrefix then dropEnd (length ''/share/'') (pe_path e) else pe_path e) of
        Inl _ \<Rightarrow> Inl EncryptionPathInvalid
      | Inr network \<Rightarrow>
          if sharePrefix \<and> pn_name network \<noteq> ''default'' then Inl EncryptionPathInvalid
          else bindR (mapR (encryption_action sharePrefix) (pe_actions e)) (\<lambda>normalizedActions.
            let dedupedActions = dedupe normalizedActions
            in if sharePrefix \<and> list_ex (\<lambda>action. action \<noteq> ''tinycloud.encryption/decrypt'' \<and>
                   action \<noteq> ''tinycloud.encryption/key.create'') dedupedActions
               then Inl SharePrefixActions
               else if ''tinycloud.encryption/key.create'' \<in> set dedupedActions \<and>
                       \<not> canonical_share_prefix ev (pe_path e)
               then Inl SharePrefixOwner
               else Inr [\<lparr>pe_service = ENCRYPTION_PERMISSION_SERVICE, pe_space = Some ENCRYPTION_MANIFEST_SPACE,
                          pe_path = pe_path e, pe_actions = dedupedActions, pe_caveats = None,
                          pe_skipPrefix = Some True, pe_expiry = pe_expiry e,
                          pe_description = pe_description e\<rparr>])))"

section \<open>Entries\<close>

definition expandPermissionEntry :: "evm_lib \<Rightarrow> permission_entry \<Rightarrow> manifest_error + permission_entry list" where
  "expandPermissionEntry ev e =
     (if pe_service e = ENCRYPTION_PERMISSION_SERVICE then expandEncryptionPermissionEntry ev e
      else if pe_service e \<noteq> VAULT_PERMISSION_SERVICE
      then Inr [e\<lparr>pe_actions := expandActionShortNames (pe_service e) (pe_actions e)\<rparr>]
      else expandVaultPermissionEntry e)"

definition expandPermissionEntries ::
    "evm_lib \<Rightarrow> permission_entry list \<Rightarrow> manifest_error + permission_entry list" where
  "expandPermissionEntries ev entries = flatMapR (expandPermissionEntry ev) entries"

text \<open>\<open>/^share\/[^/]+$/\<close>\<close>

definition SHARE_KEY_RE :: "char rx" where
  "SHARE_KEY_RE = Cat (Lit ''share/'') (Some1 (Cls (\<lambda>c. c \<noteq> CHR ''/'')))"

definition is_key_create :: "string \<Rightarrow> bool" where
  "is_key_create action \<longleftrightarrow> action = ''key.create'' \<or> action = ''tinycloud.encryption/key.create''"

definition expandRuntimePermissionEntry ::
    "evm_lib \<Rightarrow> string option \<Rightarrow> permission_entry \<Rightarrow> manifest_error + permission_entry list" where
  "expandRuntimePermissionEntry ev ownerDid e =
     (if pe_service e = ENCRYPTION_PERMISSION_SERVICE \<and> endsWith (pe_path e) ''/share/'' \<and>
         list_ex is_key_create (pe_actions e)
      then Inl RuntimeShareKeyExact
      else if pe_service e \<noteq> ENCRYPTION_PERMISSION_SERVICE \<or> \<not> hasChar (pe_path e) CHR ''/'' \<or>
              endsWith (pe_path e) ''/share/''
      then expandPermissionEntry ev e
      else (case parseEncryptionResource ev (pe_path e) of
        Inl _ \<Rightarrow> Inl RuntimeShareKeyCanonical
      | Inr res \<Rightarrow>
          (case ownerDid of
             None \<Rightarrow> Inl RuntimeShareKeyCanonical
           | Some owner \<Rightarrow>
               if owner = [] then Inl RuntimeShareKeyCanonical
               else (case parseEncryptionResource ev (''urn:tinycloud:encryption:'' @ owner @ '':default'') of
                 Inl _ \<Rightarrow> Inl RuntimeShareKeyCanonical
               | Inr ownerNetwork \<Rightarrow>
                   (case res of
                      KeyResource _ _ networkId path \<Rightarrow>
                        if networkId \<noteq> res_networkId ownerNetwork \<or> \<not> rx_test SHARE_KEY_RE path \<or>
                           (case pe_space e of None \<Rightarrow> False | Some sp \<Rightarrow> sp \<noteq> ENCRYPTION_MANIFEST_SPACE) \<or>
                           pe_actions e = [] \<or> list_ex (\<lambda>a. \<not> is_key_create a) (pe_actions e)
                        then Inl RuntimeShareKeyExact
                        else Inr [e\<lparr>pe_space := Some ENCRYPTION_MANIFEST_SPACE,
                                    pe_path := networkId @ ''/'' @ path,
                                    pe_actions := [''tinycloud.encryption/key.create''],
                                    pe_skipPrefix := Some True\<rparr>]
                    | _ \<Rightarrow> Inl RuntimeShareKeyExact)))))"

definition expandRuntimePermissionEntries ::
    "evm_lib \<Rightarrow> permission_entry list \<Rightarrow> string option \<Rightarrow> manifest_error + permission_entry list" where
  "expandRuntimePermissionEntries ev entries ownerDid =
     flatMapR (expandRuntimePermissionEntry ev ownerDid) entries"

definition expandDelegationPermissionEntry ::
    "evm_lib \<Rightarrow> permission_entry \<Rightarrow> manifest_error + permission_entry list" where
  "expandDelegationPermissionEntry ev e =
     (if pe_service e \<noteq> ENCRYPTION_PERMISSION_SERVICE \<or> \<not> hasChar (pe_path e) CHR ''/''
      then expandPermissionEntry ev e
      else (case parseEncryptionResource ev (pe_path e) of
        Inl _ \<Rightarrow> Inl DelegationKeyCanonical
      | Inr (KeyResource _ _ networkId path) \<Rightarrow>
          if pe_actions e = [] \<or>
             list_ex (\<lambda>a. a \<noteq> ''decrypt'' \<and> a \<noteq> ''tinycloud.encryption/decrypt'') (pe_actions e)
          then Inl DelegationKeyExact
          else Inr [e\<lparr>pe_space := Some ENCRYPTION_MANIFEST_SPACE, pe_path := networkId @ ''/'' @ path,
                      pe_actions := [''tinycloud.encryption/decrypt''], pe_skipPrefix := Some True\<rparr>]
      | Inr _ \<Rightarrow> Inl DelegationKeyExact))"

definition expandDelegationPermissionEntries ::
    "evm_lib \<Rightarrow> permission_entry list \<Rightarrow> manifest_error + permission_entry list" where
  "expandDelegationPermissionEntries ev entries = flatMapR (expandDelegationPermissionEntry ev) entries"

section \<open>Facts\<close>

lemma expandActionShortNames_slash: "a \<in> set (expandActionShortNames s as) \<Longrightarrow> CHR ''/'' \<in> set a"
  by (auto simp: expandActionShortNames_def)

lemma expandActionShortNames_id: "(\<And>a. a \<in> set as \<Longrightarrow> CHR ''/'' \<in> set a) \<Longrightarrow> expandActionShortNames s as = as"
  by (simp add: expandActionShortNames_def map_idI)

definition known_encryption_actions :: "string list" where
  "known_encryption_actions =
     [''tinycloud.encryption/decrypt'', ''tinycloud.encryption/network.create'', ''tinycloud.encryption/network.revoke'']"

lemma encryption_action_known:
  "encryption_action sp a = Inr b \<Longrightarrow>
   b \<in> set known_encryption_actions \<or> sp \<and> b = ''tinycloud.encryption/key.create''"
  by (auto simp: encryption_action_def known_encryption_actions_def split: if_splits)

lemma encryption_action_idem: "encryption_action sp a = Inr b \<Longrightarrow> encryption_action sp b = Inr b"
  by (auto simp: encryption_action_def split: if_splits)

text \<open>What an expanded encryption entry looks like.\<close>

lemma encryption_entry_shape:
  assumes "expandEncryptionPermissionEntry ev e = Inr es"
  obtains acts where "es = [\<lparr>pe_service = ENCRYPTION_PERMISSION_SERVICE,
      pe_space = Some ENCRYPTION_MANIFEST_SPACE, pe_path = pe_path e, pe_actions = acts, pe_caveats = None,
      pe_skipPrefix = Some True, pe_expiry = pe_expiry e, pe_description = pe_description e\<rparr>]"
    and "\<And>b. b \<in> set acts \<Longrightarrow> encryption_action (endsWith (pe_path e) ''/share/'') b = Inr b"
    and "distinct acts"
    and "endsWith (pe_path e) ''/share/'' \<Longrightarrow>
      set acts \<subseteq> {''tinycloud.encryption/decrypt'', ''tinycloud.encryption/key.create''}"
    and "''tinycloud.encryption/key.create'' \<in> set acts \<Longrightarrow> canonical_share_prefix ev (pe_path e)"
    and "endsWith (pe_path e) ''/share/'' \<or> CHR ''/'' \<notin> set (pe_path e)"
    and "startsWith (pe_path e) ''urn:tinycloud:encryption:''"
    and "\<exists>bs. mapR (encryption_action (endsWith (pe_path e) ''/share/'')) (pe_actions e) = Inr bs \<and> acts = dedupe bs"
    and "\<exists>network. parseNetworkId (if endsWith (pe_path e) ''/share/'' then dropEnd (length ''/share/'') (pe_path e)
      else pe_path e) = Inr network \<and> (endsWith (pe_path e) ''/share/'' \<longrightarrow> pn_name network = ''default'')"
proof -
  let ?sp = "endsWith (pe_path e) ''/share/''"
  obtain bs where bs: "mapR (encryption_action ?sp) (pe_actions e) = Inr bs"
    and es: "es = [\<lparr>pe_service = ENCRYPTION_PERMISSION_SERVICE,
      pe_space = Some ENCRYPTION_MANIFEST_SPACE, pe_path = pe_path e, pe_actions = dedupe bs, pe_caveats = None,
      pe_skipPrefix = Some True, pe_expiry = pe_expiry e, pe_description = pe_description e\<rparr>]"
    and share: "\<not> (?sp \<and> list_ex (\<lambda>a. a \<noteq> ''tinycloud.encryption/decrypt'' \<and>
      a \<noteq> ''tinycloud.encryption/key.create'') (dedupe bs))"
    and canon: "''tinycloud.encryption/key.create'' \<in> set (dedupe bs) \<Longrightarrow> canonical_share_prefix ev (pe_path e)"
    and slash: "?sp \<or> CHR ''/'' \<notin> set (pe_path e)"
    and urn: "startsWith (pe_path e) ''urn:tinycloud:encryption:''"
    and net: "\<exists>network. parseNetworkId (if ?sp then dropEnd (length ''/share/'') (pe_path e)
      else pe_path e) = Inr network \<and> (?sp \<longrightarrow> pn_name network = ''default'')"
    using assms by (auto simp: expandEncryptionPermissionEntry_def Let_def result_iff split: if_splits sum.splits)
  show ?thesis
  proof (rule that [OF es])
    fix b assume "b \<in> set (dedupe bs)"
    then obtain a where "encryption_action ?sp a = Inr b"
      using mapR_Inr_set' [OF bs, of b] by auto
    then show "encryption_action ?sp b = Inr b"
      by (rule encryption_action_idem)
  qed (use bs share canon slash urn net in \<open>auto simp: list_ex_iff\<close>)
qed

lemma expandEncryption_idem:
  assumes ok: "expandEncryptionPermissionEntry ev e = Inr es" and x: "x \<in> set es"
  shows "expandEncryptionPermissionEntry ev x = Inr [x]"
  using ok
proof (rule encryption_entry_shape, goal_cases)
  case (1 acts)
  let ?sp = "endsWith (pe_path e) ''/share/''"
  have x': "x = \<lparr>pe_service = ENCRYPTION_PERMISSION_SERVICE,
      pe_space = Some ENCRYPTION_MANIFEST_SPACE, pe_path = pe_path e, pe_actions = acts, pe_caveats = None,
      pe_skipPrefix = Some True, pe_expiry = pe_expiry e, pe_description = pe_description e\<rparr>"
    using x 1(1) by simp
  have "mapR (encryption_action ?sp) acts = Inr (map (\<lambda>b. b) acts)"
    using 1(2) by (rule mapR_Inr_map)
  then have m: "mapR (encryption_action ?sp) acts = Inr acts"
    by simp
  have share: "\<not> (?sp \<and> list_ex (\<lambda>a. a \<noteq> ''tinycloud.encryption/decrypt'' \<and>
      a \<noteq> ''tinycloud.encryption/key.create'') acts)"
    using 1(4) by (auto simp: list_ex_iff)
  have slash: "\<not> (CHR ''/'' \<in> set (pe_path e) \<and> \<not> ?sp)"
    using 1(6) by blast
  have canon: "\<not> (''tinycloud.encryption/key.create'' \<in> set acts \<and> \<not> canonical_share_prefix ev (pe_path e))"
    using 1(5) by blast
  obtain network where n: "parseNetworkId (if ?sp then dropEnd (length ''/share/'') (pe_path e)
      else pe_path e) = Inr network" "\<not> (?sp \<and> pn_name network \<noteq> ''default'')"
    using 1(9) by blast
  show ?case
    unfolding expandEncryptionPermissionEntry_def x' permission_entry.simps Let_def n(1) sum.case m bindR.simps
      dedupe_distinct [OF 1(3)]
    unfolding Eq_TrueI [OF 1(7)] Eq_FalseI [OF slash] Eq_FalseI [OF share] Eq_FalseI [OF canon] Eq_FalseI [OF n(2)]
      not_True_eq_False if_False ..
qed

definition vault_kv_actions :: "string list" where
  "vault_kv_actions = [''tinycloud.kv/get'', ''tinycloud.kv/put'', ''tinycloud.kv/del'', ''tinycloud.kv/list'',
     ''tinycloud.kv/metadata'']"

lemma vault_expansion_action:
  assumes "vaultActionExpansion a = Inr (bs, b)"
  shows "bs = [''vault'']" and "b \<in> set vault_kv_actions"
proof -
  obtain n where "normalizeVaultAction a = Inr n"
    using assms by (auto simp: vaultActionExpansion_def result_iff)
  then show "bs = [''vault'']" and "b \<in> set vault_kv_actions"
    using assms unfolding vaultActionExpansion_def vault_kv_actions_def
    by (simp_all split: if_split_asm)
qed

lemma vault_kv_actions_slash: "list_all (\<lambda>a. CHR ''/'' \<in> set a) vault_kv_actions"
  by (simp add: vault_kv_actions_def)

text \<open>There is one base, so a vault entry becomes one entry (none when it has no action).\<close>

lemma group_by_const:
  assumes "\<And>x. x \<in> set xs \<Longrightarrow> key x = k"
  shows "group_by key init merge xs = (case xs of [] \<Rightarrow> [] | y # ys \<Rightarrow> [(k, foldl merge (init y) ys)])"
proof (cases xs)
  case Nil
  then show ?thesis by (simp add: group_by_def)
next
  case (Cons y ys)
  have "key y = k" and "set (map key ys) \<subseteq> set [k]"
    using Cons assms by auto
  then have "dedupe (map key xs) = [k]"
    using Cons merge_new_subset [of "map key ys" "[k]"] by (simp add: push_new_def)
  moreover have "filter (\<lambda>x. key x = k) xs = xs"
    using assms by (simp add: filter_True)
  ultimately show ?thesis
    using Cons by (simp add: group_by_iff)
qed

lemma expandVault_iff:
  "expandVaultPermissionEntry e = Inr es \<longleftrightarrow>
   (\<exists>xs. mapR vaultActionExpansion (pe_actions e) = Inr xs \<and>
     es = (if xs = [] then [] else
       [e\<lparr>pe_service := ''tinycloud.kv'', pe_path := vaultKVPath ''vault'' (pe_path e),
          pe_actions := dedupe (map snd xs), pe_skipPrefix := Some True\<rparr>]))"
proof -
  have "map (\<lambda>(base, actions). f base actions)
      (group_by fst (\<lambda>(_, action). [action]) (\<lambda>actions (_, action). push_new actions action)
        (concat (map (\<lambda>(bases, action). map (\<lambda>base. (base, action)) bases) xs))) =
      (if xs = [] then [] else [f ''vault'' (dedupe (map snd xs))])"
    if xs: "mapR vaultActionExpansion (pe_actions e) = Inr xs" for xs and f :: "string \<Rightarrow> string list \<Rightarrow> permission_entry"
  proof -
    have "x \<in> set xs \<Longrightarrow> fst x = [''vault'']" for x
      using mapR_Inr_set' [OF xs, of x] vault_expansion_action(1) by (cases x) auto
    then have "concat (map (\<lambda>(bases, action). map (\<lambda>base. (base, action)) bases) xs) =
        map (\<lambda>x. (''vault'', snd x)) xs"
    proof (induction xs)
      case (Cons x xs)
      then have "fst x = [''vault'']" by simp
      with Cons show ?case by (cases x) simp
    qed simp
    moreover have "foldl (\<lambda>actions (_, action). push_new actions action) out (map (\<lambda>x. (''vault'', snd x)) ys) =
        merge_new out (map snd ys)" for out and ys :: "(string list \<times> string) list"
      by (induction ys arbitrary: out) auto
    ultimately show ?thesis
      by (subst group_by_const [of _ _ "''vault''"]) (auto split: list.splits)
  qed
  then show ?thesis
    by (auto simp: expandVaultPermissionEntry_def result_iff Let_def)
qed

section \<open>Properties\<close>

lemma expandEntry_idem:
  assumes e: "expandPermissionEntry ev e = Inr xs" and x: "x \<in> set xs"
  shows "expandPermissionEntry ev x = Inr [x]"
proof (cases "pe_service e = ENCRYPTION_PERMISSION_SERVICE")
  case True
  then have ex: "expandEncryptionPermissionEntry ev e = Inr xs"
    using e by (simp add: expandPermissionEntry_def)
  then have "pe_service x = ENCRYPTION_PERMISSION_SERVICE"
    using x by (rule_tac encryption_entry_shape [OF ex]) auto
  then show ?thesis
    using expandEncryption_idem [OF ex x] by (simp add: expandPermissionEntry_def)
next
  case False
  have plain: "pe_service x \<noteq> ENCRYPTION_PERMISSION_SERVICE \<and> pe_service x \<noteq> VAULT_PERMISSION_SERVICE \<and>
      (\<forall>a \<in> set (pe_actions x). CHR ''/'' \<in> set a)"
  proof (cases "pe_service e = VAULT_PERMISSION_SERVICE")
    case True
    then have "expandVaultPermissionEntry e = Inr xs"
      using False e by (simp add: expandPermissionEntry_def)
    then obtain ys where ys: "mapR vaultActionExpansion (pe_actions e) = Inr ys"
      and x': "x = e\<lparr>pe_service := ''tinycloud.kv'', pe_path := vaultKVPath ''vault'' (pe_path e),
          pe_actions := dedupe (map snd ys), pe_skipPrefix := Some True\<rparr>"
      using x by (auto simp: expandVault_iff split: if_splits)
    have "snd y \<in> set vault_kv_actions" if "y \<in> set ys" for y
      using mapR_Inr_set' [OF ys that] vault_expansion_action(2) by (cases y) auto
    then show ?thesis
      using x' vault_kv_actions_slash by (auto simp: service_constants list_all_iff)
  next
    case nv: False
    then show ?thesis
      using False e x expandActionShortNames_slash by (auto simp: expandPermissionEntry_def)
  qed
  then have "expandActionShortNames (pe_service x) (pe_actions x) = pe_actions x"
    by (intro expandActionShortNames_id) auto
  then show ?thesis
    using plain by (simp add: expandPermissionEntry_def)
qed

lemma canonical_share_prefixD:
  assumes "canonical_share_prefix ev path"
  shows "\<exists>owner i. parseEncryptionResource ev path = Inr (PrefixResource owner ''default'' i ''share'')"
proof (cases "parseEncryptionResource ev path")
  case (Inr r)
  then show ?thesis
    using assms by (cases r) (simp_all add: canonical_share_prefix_def)
qed (use assms in \<open>simp add: canonical_share_prefix_def\<close>)

text \<open>Expanding permission entries is a projection: what it returns is fully expanded, so
  expanding it again changes nothing.\<close>

theorem expandPermissionEntries_idem:
  assumes "expandPermissionEntries ev es = Inr out"
  shows "expandPermissionEntries ev out = Inr out"
proof -
  have "expandPermissionEntry ev x = Inr [x]" if "x \<in> set out" for x
    using assms that expandEntry_idem unfolding expandPermissionEntries_def by (metis flatMapR_InrD)
  then show ?thesis
    unfolding expandPermissionEntries_def by (rule flatMapR_singletons)
qed

lemma expanded_encryption_entry:
  assumes e: "expandPermissionEntry ev e = Inr xs" and x: "x \<in> set xs"
    and s: "pe_service x = ENCRYPTION_PERMISSION_SERVICE"
  shows "expandEncryptionPermissionEntry ev e = Inr xs \<and> pe_service e = ENCRYPTION_PERMISSION_SERVICE"
proof (cases "pe_service e = VAULT_PERMISSION_SERVICE")
  case True
  then have "expandVaultPermissionEntry e = Inr xs"
    using e by (simp add: expandPermissionEntry_def service_constants)
  then have "pe_service x = ''tinycloud.kv''"
    using x by (auto simp: expandVault_iff split: if_splits)
  with s show ?thesis
    by (simp add: service_constants)
next
  case False
  then show ?thesis
    using e x s by (auto simp: expandPermissionEntry_def split: if_splits)
qed

lemma encryption_entry_actions:
  assumes "expandEncryptionPermissionEntry ev e = Inr xs" "x \<in> set xs" "a \<in> set (pe_actions x)"
  shows "a \<in> set known_encryption_actions \<or>
    a = ''tinycloud.encryption/key.create'' \<and> canonical_share_prefix ev (pe_path x)"
  using assms(1)
proof (rule encryption_entry_shape, goal_cases)
  case (1 acts)
  then have a: "encryption_action (endsWith (pe_path e) ''/share/'') a = Inr a"
    and x: "pe_path x = pe_path e" "pe_actions x = acts"
    using assms(2,3) by auto
  have "a = ''tinycloud.encryption/key.create'' \<Longrightarrow> canonical_share_prefix ev (pe_path x)"
    using 1(5) assms(3) unfolding x by blast
  with encryption_action_known [OF a] show ?case
    by blast
qed

text \<open>C37: least privilege of encryption entries: whatever a list of entries asks for, an
  encryption entry in its expansion carries only the three network actions, or key creation on
  a path that parses as the canonical \<open>share\<close> prefix of the owner's default network; and it
  is labelled with the synthetic encryption space, never a data space.\<close>

theorem expansion_encryption_actions:
  assumes "expandPermissionEntries ev es = Inr out" and "x \<in> set out"
    and "pe_service x = ENCRYPTION_PERMISSION_SERVICE"
  shows "pe_space x = Some ENCRYPTION_MANIFEST_SPACE \<and>
    set (pe_actions x) \<subseteq> set known_encryption_actions \<union>
      {a. a = ''tinycloud.encryption/key.create'' \<and>
        (\<exists>owner i. parseEncryptionResource ev (pe_path x) = Inr (PrefixResource owner ''default'' i ''share''))}"
proof -
  obtain e xs where e: "expandPermissionEntry ev e = Inr xs" "x \<in> set xs"
    using assms(1,2) unfolding expandPermissionEntries_def by (metis flatMapR_InrD)
  have ex: "expandEncryptionPermissionEntry ev e = Inr xs"
    using expanded_encryption_entry [OF e assms(3)] by blast
  have "pe_space x = Some ENCRYPTION_MANIFEST_SPACE"
    using e(2) by (rule_tac encryption_entry_shape [OF ex]) auto
  then show ?thesis
    using encryption_entry_actions [OF ex e(2)] canonical_share_prefixD by blast
qed

text \<open>Key creation needs to be asked for, and a path with a slash.\<close>

lemma encryption_action_key_create:
  "encryption_action sp a = Inr ''tinycloud.encryption/key.create'' \<Longrightarrow> sp \<and> is_key_create a"
  by (simp add: encryption_action_def is_key_create_def split: if_split_asm)

lemma key_create_asked:
  assumes ex: "expandEncryptionPermissionEntry ev e = Inr xs" and "x \<in> set xs"
    and "''tinycloud.encryption/key.create'' \<in> set (pe_actions x)"
  shows "list_ex is_key_create (pe_actions e) \<and> endsWith (pe_path e) ''/share/''"
proof -
  let ?sp = "endsWith (pe_path e) ''/share/''"
  obtain bs where bs: "mapR (encryption_action ?sp) (pe_actions e) = Inr bs" and "pe_actions x = dedupe bs"
    using assms(2) by (rule_tac encryption_entry_shape [OF ex]) auto
  then have "''tinycloud.encryption/key.create'' \<in> set bs"
    using assms(3) by simp
  then obtain a where "a \<in> set (pe_actions e)" "encryption_action ?sp a = Inr ''tinycloud.encryption/key.create''"
    using mapR_Inr_set' [OF bs] by blast
  then show ?thesis
    using encryption_action_key_create unfolding list_ex_iff by blast
qed

lemma SHARE_KEY_RE_iff:
  "rx_test SHARE_KEY_RE w \<longleftrightarrow> (\<exists>k. w = ''share/'' @ k \<and> k \<noteq> [] \<and> CHR ''/'' \<notin> set k)"
proof -
  have plus: "u \<in> lang (Some1 (Cls (\<lambda>c. c \<noteq> CHR ''/''))) \<longleftrightarrow> u \<noteq> [] \<and> CHR ''/'' \<notin> set u" for u
  proof -
    have "lang (Some1 (Cls (\<lambda>c. c \<noteq> CHR ''/''))) =
        conc {[x] |x. x \<noteq> CHR ''/''} (lang (Many (Cls (\<lambda>c. c \<noteq> CHR ''/''))))"
      by (simp only: lang.simps(3,4))
    then show ?thesis
      by (cases u) (auto simp: mem_conc_Cls lang_Many_Cls list_all_iff simp del: lang.simps)
  qed
  have "lang SHARE_KEY_RE = conc (lang (Lit ''share/'')) (lang (Some1 (Cls (\<lambda>c. c \<noteq> CHR ''/''))))"
    unfolding SHARE_KEY_RE_def by (simp only: lang.simps(4))
  then show ?thesis
    by (simp only: rx_test_iff lang_Lit mem_conc_singleton plus)
qed

lemma runtime_key_shape:
  assumes e: "expandRuntimePermissionEntry ev owner e = Inr xs"
    and path: "\<not> (pe_service e \<noteq> ENCRYPTION_PERMISSION_SERVICE \<or> CHR ''/'' \<notin> set (pe_path e) \<or>
      endsWith (pe_path e) ''/share/'')"
  shows "\<exists>o' n i p. owner = Some o' \<and>
    parseEncryptionResource ev (''urn:tinycloud:encryption:'' @ o' @ '':default'') = Inr n \<and>
    i = res_networkId n \<and> rx_test SHARE_KEY_RE p \<and>
    xs = [e\<lparr>pe_space := Some ENCRYPTION_MANIFEST_SPACE, pe_path := i @ ''/'' @ p,
      pe_actions := [''tinycloud.encryption/key.create''], pe_skipPrefix := Some True\<rparr>]"
proof -
  have share: "(pe_service e = ENCRYPTION_PERMISSION_SERVICE \<and> endsWith (pe_path e) ''/share/'' \<and>
      list_ex is_key_create (pe_actions e)) = False"
    using path by blast
  note d = e [unfolded expandRuntimePermissionEntry_def share Eq_FalseI [OF path] if_False]
  obtain res where res: "parseEncryptionResource ev (pe_path e) = Inr res"
    using d by (cases "parseEncryptionResource ev (pe_path e)") simp_all
  obtain o' where o': "owner = Some o'" "o' \<noteq> []"
    using d res by (cases owner) (simp_all split: if_split_asm)
  obtain n where n: "parseEncryptionResource ev (''urn:tinycloud:encryption:'' @ o' @ '':default'') = Inr n"
    using d res o' by (cases "parseEncryptionResource ev (''urn:tinycloud:encryption:'' @ o' @ '':default'')") simp_all
  show ?thesis
    using d res o' n by (cases res) (auto split: if_split_asm)
qed

text \<open>At run time, key creation is for one exact key of the current owner: every entry the
  run-time expansion returns with the action \<open>key.create\<close> has that action only, and its path is
  \<open>share/<id>\<close>, one segment, on the default network of the owner it was called for.\<close>

theorem runtime_key_create_exact:
  assumes out: "expandRuntimePermissionEntries ev es owner = Inr out" and x: "x \<in> set out"
    and enc: "pe_service x = ENCRYPTION_PERMISSION_SERVICE"
    and key: "''tinycloud.encryption/key.create'' \<in> set (pe_actions x)"
  shows "pe_actions x = [''tinycloud.encryption/key.create''] \<and>
    (\<exists>o' net k. owner = Some o' \<and>
       parseEncryptionResource ev (''urn:tinycloud:encryption:'' @ o' @ '':default'') = Inr net \<and>
       pe_path x = res_networkId net @ ''/share/'' @ k \<and> k \<noteq> [] \<and> CHR ''/'' \<notin> set k)"
proof -
  obtain e xs where e: "expandRuntimePermissionEntry ev owner e = Inr xs" "x \<in> set xs"
    using out x unfolding expandRuntimePermissionEntries_def by (metis flatMapR_InrD)
  show ?thesis
  proof (cases "pe_service e \<noteq> ENCRYPTION_PERMISSION_SERVICE \<or> CHR ''/'' \<notin> set (pe_path e) \<or>
      endsWith (pe_path e) ''/share/''")
    case True
    then have ex: "expandPermissionEntry ev e = Inr xs"
      and no: "\<not> (pe_service e = ENCRYPTION_PERMISSION_SERVICE \<and> endsWith (pe_path e) ''/share/'' \<and>
        list_ex is_key_create (pe_actions e))"
      using e(1) by (auto simp: expandRuntimePermissionEntry_def split: if_splits)
    have ee: "expandEncryptionPermissionEntry ev e = Inr xs \<and> pe_service e = ENCRYPTION_PERMISSION_SERVICE"
      by (rule expanded_encryption_entry [OF ex e(2) enc])
    then show ?thesis
      using key_create_asked [OF conjunct1 [OF ee] e(2) key] no by blast
  next
    case False
    then obtain o' n i p where owner: "owner = Some o'"
      and net: "parseEncryptionResource ev (''urn:tinycloud:encryption:'' @ o' @ '':default'') = Inr n"
      and "i = res_networkId n" and p: "rx_test SHARE_KEY_RE p"
      and "xs = [e\<lparr>pe_space := Some ENCRYPTION_MANIFEST_SPACE, pe_path := i @ ''/'' @ p,
        pe_actions := [''tinycloud.encryption/key.create''], pe_skipPrefix := Some True\<rparr>]"
      using runtime_key_shape [OF e(1)] by metis
    then show ?thesis
      using e(2) p by (auto simp: SHARE_KEY_RE_iff)
  qed
qed

text \<open>Delegations never carry key creation: an encryption entry of the delegation expansion
  is either a bare network, or one exact named key with decryption only.\<close>

theorem delegation_named_key_exact:
  assumes out: "expandDelegationPermissionEntries ev es = Inr out" and x: "x \<in> set out"
    and enc: "pe_service x = ENCRYPTION_PERMISSION_SERVICE"
  shows "''tinycloud.encryption/key.create'' \<notin> set (pe_actions x) \<and>
    (CHR ''/'' \<in> set (pe_path x) \<longrightarrow> pe_actions x = [''tinycloud.encryption/decrypt''] \<and>
      (\<exists>o' n i k. parseEncryptionResource ev (pe_path x) = Inr (KeyResource o' n i k)))"
proof -
  obtain e xs where e: "expandDelegationPermissionEntry ev e = Inr xs" "x \<in> set xs"
    using out x unfolding expandDelegationPermissionEntries_def by (metis flatMapR_InrD)
  show ?thesis
  proof (cases "pe_service e \<noteq> ENCRYPTION_PERMISSION_SERVICE \<or> CHR ''/'' \<notin> set (pe_path e)")
    case True
    then have ex: "expandPermissionEntry ev e = Inr xs"
      using e(1) by (auto simp: expandDelegationPermissionEntry_def)
    have ee: "expandEncryptionPermissionEntry ev e = Inr xs" "pe_service e = ENCRYPTION_PERMISSION_SERVICE"
      using expanded_encryption_entry [OF ex e(2) enc] by blast+
    then have "CHR ''/'' \<notin> set (pe_path e)"
      using True by blast
    moreover have "pe_path x = pe_path e"
      using e(2) by (rule_tac encryption_entry_shape [OF ee(1)]) auto
    ultimately show ?thesis
      using key_create_asked [OF ee(1) e(2)] by (auto simp: endsWith_iff)
  next
    case False
    then obtain o' n i k where r: "parseEncryptionResource ev (pe_path e) = Inr (KeyResource o' n i k)"
      and x': "pe_path x = i @ ''/'' @ k" "pe_actions x = [''tinycloud.encryption/decrypt'']"
      using e by (auto simp: expandDelegationPermissionEntry_def
          split: if_splits sum.splits option.splits enc_resource.splits)
    moreover have "pe_path e = pe_path x"
      using r x'(1) by (simp add: parse_key_iff)
    ultimately show ?thesis
      by simp
  qed
qed

section \<open>Witnesses\<close>

definition sample_entries :: "permission_entry list" where
  "sample_entries =
     [entry ''tinycloud.vault'' (Some ''secrets'') ''/secrets/A'' [''read'', ''list'', ''get''] None,
      entry ''tinycloud.encryption'' None ''urn:tinycloud:encryption:did:key:z6Mk:default'' [''decrypt'', ''network.create'', ''decrypt''] None,
      entry ''tinycloud.encryption'' None ''urn:tinycloud:encryption:did:key:z6Mk:default/share/'' [''key.create''] None,
      entry ''tinycloud.kv'' None ''notes/'' [''get''] None]"

definition sample_expanded :: "permission_entry list" where
  "sample_expanded =
     [entry ''tinycloud.kv'' (Some ''secrets'') ''vault/secrets/A'' [''tinycloud.kv/get'', ''tinycloud.kv/list''] (Some True),
      entry ''tinycloud.encryption'' (Some ''encryption'') ''urn:tinycloud:encryption:did:key:z6Mk:default''
        [''tinycloud.encryption/decrypt'', ''tinycloud.encryption/network.create''] (Some True),
      entry ''tinycloud.encryption'' (Some ''encryption'') ''urn:tinycloud:encryption:did:key:z6Mk:default/share/''
        [''tinycloud.encryption/key.create''] (Some True),
      entry ''tinycloud.kv'' None ''notes/'' [''tinycloud.kv/get''] None]"

lemma sample_expands: "expandPermissionEntries lower_evm sample_entries = Inr sample_expanded"
  by code_simp

lemma expandPermissionEntries_idem_witness:
  "expandPermissionEntries lower_evm sample_expanded = Inr sample_expanded"
  using expandPermissionEntries_idem [OF sample_expands] .

lemma expansion_encryption_actions_witness:
  "sample_expanded ! 2 \<in> set sample_expanded \<and> pe_space (sample_expanded ! 2) = Some ENCRYPTION_MANIFEST_SPACE"
proof -
  have "sample_expanded ! 2 \<in> set sample_expanded"
    and "pe_service (sample_expanded ! 2) = ENCRYPTION_PERMISSION_SERVICE"
    by code_simp+
  then show ?thesis
    using expansion_encryption_actions [OF sample_expands] by blast
qed

definition sample_key_entry :: "string list \<Rightarrow> permission_entry" where
  "sample_key_entry acts = entry ''tinycloud.encryption'' (Some ''encryption'') ''urn:tinycloud:encryption:did:key:z6Mk:default/share/abc'' acts (Some True)"

lemma runtime_key_create_exact_witness:
  "pe_actions (sample_key_entry [''tinycloud.encryption/key.create'']) = [''tinycloud.encryption/key.create'']"
proof -
  have "expandRuntimePermissionEntries lower_evm
      [entry ''tinycloud.encryption'' None ''urn:tinycloud:encryption:did:key:z6Mk:default/share/abc'' [''key.create''] None] (Some ''did:key:z6Mk'') =
      Inr [sample_key_entry [''tinycloud.encryption/key.create'']]"
    by code_simp
  then show ?thesis
    by (rule runtime_key_create_exact [THEN conjunct1]) (simp_all add: sample_key_entry_def service_constants)
qed

lemma delegation_named_key_exact_witness:
  "''tinycloud.encryption/key.create'' \<notin> set (pe_actions (sample_key_entry [''tinycloud.encryption/decrypt'']))"
proof -
  have "expandDelegationPermissionEntries lower_evm
      [entry ''tinycloud.encryption'' None ''urn:tinycloud:encryption:did:key:z6Mk:default/share/abc'' [''decrypt''] None] =
      Inr [sample_key_entry [''tinycloud.encryption/decrypt'']]"
    by code_simp
  then show ?thesis
    by (rule delegation_named_key_exact [THEN conjunct1]) (simp_all add: sample_key_entry_def service_constants)
qed

end
