(* ===== verification/ManifestValidate.thy ===== *)
theory ManifestValidate
  imports ManifestExpand
begin

text \<open>
  \<open>validateManifest\<close> and its helpers (\<^verbatim>\<open>packages/sdk-core/src/manifest.ts\<close>, lines 749-988) on
  untyped values, and the secrets section (lines 1101-1234), whose helpers the validator
  shares with the resolver. A \<open>TypeError\<close> the code would raise on an ill-typed value is an error
  value too (\<open>NotAString\<close>); the lemmas show that it is wrapped or cannot happen after
  validation.
\<close>

section \<open>Secrets\<close>

fun secretNameFromSpec :: "string \<Rightarrow> jsv \<Rightarrow> jsv" where
  "secretNameFromSpec fallback (JObject fs) = js_coalesce (js_get (JObject fs) ''name'') (JString fallback)"
| "secretNameFromSpec fallback _ = JString fallback"

fun secretScopeFromSpec :: "jsv \<Rightarrow> jsv" where
  "secretScopeFromSpec (JObject fs) = js_get (JObject fs) ''scope''"
| "secretScopeFromSpec _ = JUndefined"

fun secretActionsFromSpec :: "string \<Rightarrow> jsv \<Rightarrow> manifest_error + jsv list" where
  "secretActionsFromSpec name (JBool True) = Inr [JString ''read'']"
| "secretActionsFromSpec name (JString s) = Inr [JString s]"
| "secretActionsFromSpec name (JArray xs) = Inr xs"
| "secretActionsFromSpec name (JObject fs) =
     (case js_get (JObject fs) ''actions'' of
        JUndefined \<Rightarrow> Inr [JString ''read'']
      | JString a \<Rightarrow> Inr [JString a]
      | JArray xs \<Rightarrow> Inr xs
      | _ \<Rightarrow> Inl (SecretActionsType name))"
| "secretActionsFromSpec name _ = Inl (SecretSpecType name)"

text \<open>\<open>resolveSecretPath(name, {scope})\<close> on untyped values: its \<open>trim\<close> calls raise on what is
  not a string, the name's before the scope's.\<close>

definition resolve_secret :: "jsv \<Rightarrow> jsv \<Rightarrow> manifest_error + resolved_secret_path" where
  "resolve_secret name scope =
     (case name of
        JString n \<Rightarrow>
          if \<not> rx_test SECRET_NAME_RE (trim n) then Inl (SecretResolution (InvalidSecretName n))
          else (case scope of
            JUndefined \<Rightarrow> map_sum SecretResolution id (resolveSecretPath n None)
          | JString sc \<Rightarrow> map_sum SecretResolution id (resolveSecretPath n (Some sc))
          | _ \<Rightarrow> Inl NotAString)
      | _ \<Rightarrow> Inl NotAString)"

definition normalize_secret_action :: "jsv \<Rightarrow> manifest_error + string" where
  "normalize_secret_action a =
     (if a = JString ''read'' then Inr ''get''
      else if a = JString ''write'' then Inr ''put''
      else if a = JString ''delete'' then Inr ''del''
      else (case a of
        JString action \<Rightarrow>
          if action \<in> {''get'', ''put'', ''del'', ''list'', ''metadata''} then Inr action
          else if action \<in> {''tinycloud.kv/get'', ''tinycloud.kv/put'', ''tinycloud.kv/del'', ''tinycloud.kv/list'',
                  ''tinycloud.kv/metadata''} then Inr action
          else Inl (UnknownSecretAction a)
      | _ \<Rightarrow> Inl (UnknownSecretAction a)))"

definition normalizeSecretActions :: "jsv list \<Rightarrow> manifest_error + string list" where
  "normalizeSecretActions actions = bindR (mapR normalize_secret_action actions) (\<lambda>as. Inr (dedupe as))"

definition secret_entry :: "string \<times> jsv \<Rightarrow> manifest_error + permission_entry" where
  "secret_entry = (\<lambda>(name, spec).
     bindR (secretActionsFromSpec name spec) (\<lambda>actions.
     bindR (resolve_secret (secretNameFromSpec name spec) (secretScopeFromSpec spec)) (\<lambda>secretPath.
     bindR (normalizeSecretActions actions) (\<lambda>normalized.
       Inr \<lparr>pe_service = VAULT_PERMISSION_SERVICE, pe_space = Some SECRETS_SPACE,
            pe_path = sp_vaultKey secretPath, pe_actions = normalized, pe_caveats = None,
            pe_skipPrefix = Some True, pe_expiry = js_string_opt (js_get spec ''expiry''),
            pe_description = js_string_opt (js_get spec ''description'')\<rparr>))))"

definition secretEntriesForManifest :: "jsv \<Rightarrow> manifest_error + permission_entry list" where
  "secretEntriesForManifest secrets =
     (case secrets of
        JUndefined \<Rightarrow> Inr []
      | JObject fs \<Rightarrow> mapR secret_entry fs
      | _ \<Rightarrow> Inl SecretsNotAnObject)"

definition validate_secret :: "ms_lib \<Rightarrow> string \<times> jsv \<Rightarrow> manifest_error + unit" where
  "validate_secret ms = (\<lambda>(name, spec).
     bindR (throw_if (\<not> rx_test SECRET_NAME_RE name) (SecretNamePattern name)) (\<lambda>_.
     bindR (or_throw (resolve_secret (secretNameFromSpec name spec) (secretScopeFromSpec spec))
        (SecretPathInvalid name)) (\<lambda>_.
     bindR (secretActionsFromSpec name spec) (\<lambda>actions.
     bindR (throw_if (actions = []) (SecretActionsEmpty name)) (\<lambda>_.
     bindR (throw_if (list_ex (\<lambda>a. \<not> nonempty_string a) actions) (SecretActionsNotStrings name)) (\<lambda>_.
       if js_get spec ''expiry'' \<noteq> JUndefined
       then bindR (parseExpiry ms (js_get spec ''expiry'')) (\<lambda>_. Inr ())
       else Inr ()))))))"

definition validateManifestSecrets :: "ms_lib \<Rightarrow> jsv \<Rightarrow> manifest_error + unit" where
  "validateManifestSecrets ms secrets =
     (case secrets of
        JObject fs \<Rightarrow> bindR (mapR (validate_secret ms) fs) (\<lambda>_. Inr ())
      | _ \<Rightarrow> Inl SecretsNotAnObject)"

section \<open>Permission entries\<close>

definition validate_action :: "string \<Rightarrow> nat \<Rightarrow> jsv \<Rightarrow> manifest_error + unit" where
  "validate_action service i a =
     (case a of
        JString action \<Rightarrow>
          if action = [] then Inl (EntryActionStrings i)
          else if service = VAULT_PERMISSION_SERVICE
          then bindR (vaultActionExpansion action) (\<lambda>_. Inr ())
          else Inr ()
      | _ \<Rightarrow> Inl (EntryActionStrings i))"

fun is_plain_object :: "jsv \<Rightarrow> bool" where
  "is_plain_object (JObject _) = True"
| "is_plain_object _ = False"

definition validatePermissionEntry :: "ms_lib \<Rightarrow> nat \<Rightarrow> jsv \<Rightarrow> manifest_error + unit" where
  "validatePermissionEntry ms i p =
     (if \<not> is_object p then Inl (EntryNotAnObject i)
      else (case js_get p ''service'' of
        JString service \<Rightarrow>
          if service = [] then Inl (EntryService i)
          else if js_get p ''space'' \<noteq> JUndefined \<and> \<not> nonempty_string (js_get p ''space'') then Inl (EntrySpace i)
          else if js_string_opt (js_get p ''path'') = None then Inl (EntryPath i)
          else (case js_get p ''actions'' of
            JArray actions \<Rightarrow>
              if actions = [] then Inl (EntryActions i)
              else bindR (mapR (validate_action service i) actions) (\<lambda>_.
                   bindR (case js_get p ''caveats'' of
                            JUndefined \<Rightarrow> Inr ()
                          | JArray cs \<Rightarrow> throw_if (list_ex (\<lambda>c. \<not> is_plain_object c) cs) (EntryCaveats i)
                          | _ \<Rightarrow> Inl (EntryCaveats i)) (\<lambda>_.
                   if js_get p ''expiry'' \<noteq> JUndefined
                   then bindR (parseExpiry ms (js_get p ''expiry'')) (\<lambda>_. Inr ())
                   else Inr ()))
          | _ \<Rightarrow> Inl (EntryActions i))
      | _ \<Rightarrow> Inl (EntryService i)))"

section \<open>Keys and knowledge\<close>

definition KEY_SEGMENT :: "char rx" where
  "KEY_SEGMENT = Cat (Cls (\<lambda>c. is_lower c \<or> is_digit c))
     (Between 0 63 (Cls (\<lambda>c. is_lower c \<or> is_digit c \<or> c = CHR ''.'' \<or> c = CHR ''_'' \<or> c = CHR ''-'')))"

definition KEY_APP_ID :: "char rx" where "KEY_APP_ID = KEY_SEGMENT"

definition KEY_PATH :: "char rx" where "KEY_PATH = sep_rx CHR ''/'' 2 7 KEY_SEGMENT"

definition KEY_ABILITIES :: "string list" where
  "KEY_ABILITIES = [''key.create'', ''decrypt'', ''key.block'', ''key.unblock'']"

text \<open>One declaration, with the paths and the prefix seen before it.\<close>

definition validate_key ::
    "string \<Rightarrow> nat \<Rightarrow> string list \<Rightarrow> bool \<Rightarrow> jsv \<Rightarrow> manifest_error + string list \<times> bool" where
  "validate_key appId index paths prefixSeen v =
     (case v of
        JObject fs \<Rightarrow>
          if (has_own v ''path'' = has_own v ''prefix'') \<or>
             list_ex (\<lambda>f. f \<notin> {''path'', ''prefix'', ''abilities''}) (map fst fs)
          then Inl (KeyFields index)
          else (case js_get v ''abilities'' of
            JArray abilities \<Rightarrow>
              if abilities = [] \<or> \<not> distinct abilities \<or>
                 list_ex (\<lambda>a. case a of JString s \<Rightarrow> s \<notin> set KEY_ABILITIES | _ \<Rightarrow> True) abilities
              then Inl (KeyAbilitiesInvalid index)
              else if has_own v ''path''
              then (case js_get v ''path'' of
                JString path \<Rightarrow>
                  if 255 < length path \<or> \<not> rx_test KEY_PATH path \<or>
                     \<not> startsWith path (''apps/'' @ appId @ ''/'') \<or> path \<in> set paths
                  then Inl (KeyPathInvalid index)
                  else Inr (paths @ [path], prefixSeen)
              | _ \<Rightarrow> Inl (KeyPathInvalid index))
              else if js_get v ''prefix'' \<noteq> JString (''apps/'' @ appId @ ''/'') \<or> prefixSeen
              then Inl (KeyPrefixInvalid index)
              else Inr (paths, True)
          | _ \<Rightarrow> Inl (KeyAbilitiesInvalid index))
      | _ \<Rightarrow> Inl (KeyNotAnObject index))"

fun validate_keys_from ::
    "string \<Rightarrow> nat \<Rightarrow> string list \<Rightarrow> bool \<Rightarrow> jsv list \<Rightarrow> manifest_error + unit" where
  "validate_keys_from appId index paths prefixSeen [] = Inr ()"
| "validate_keys_from appId index paths prefixSeen (v # vs) =
     bindR (validate_key appId index paths prefixSeen v) (\<lambda>(paths', seen').
       validate_keys_from appId (Suc index) paths' seen' vs)"

definition validateManifestKeys :: "string \<Rightarrow> jsv \<Rightarrow> manifest_error + unit" where
  "validateManifestKeys appId keys =
     (case keys of
        JUndefined \<Rightarrow> Inr ()
      | JArray ks \<Rightarrow>
          if 32 < length ks then Inl KeysTooMany
          else if ks = [] then Inr ()
          else if \<not> rx_test KEY_APP_ID appId then Inl KeysNeedAppId
          else validate_keys_from appId 0 [] False ks
      | _ \<Rightarrow> Inl KeysTooMany)"

text \<open>\<open>/^knowledge\/.+\.md$/\<close>; the dot excludes line terminators.\<close>

definition KNOWLEDGE_RE :: "char rx" where
  "KNOWLEDGE_RE = Cat (Lit ''knowledge/'')
     (Cat (Some1 (Cls (\<lambda>c. c \<noteq> CHR 0x0A \<and> c \<noteq> CHR 0x0D))) (Lit ''.md''))"

definition resolveManifestKnowledgeRoot :: "jsv \<Rightarrow> manifest_error + string option" where
  "resolveManifestKnowledgeRoot knowledge =
     (case knowledge of
        JUndefined \<Rightarrow> Inr None
      | JBool True \<Rightarrow> Inr (Some DEFAULT_KNOWLEDGE_ROOT)
      | JString k \<Rightarrow> if k = [] then Inl KnowledgeInvalid
                     else if \<not> rx_test KNOWLEDGE_RE k then Inl KnowledgeInvalid else Inr (Some k)
      | _ \<Rightarrow> Inl KnowledgeInvalid)"

section \<open>Manifests\<close>

definition validate_permissions :: "ms_lib \<Rightarrow> jsv \<Rightarrow> manifest_error + unit" where
  "validate_permissions ms v =
     (case v of
        JUndefined \<Rightarrow> Inr ()
      | JArray ps \<Rightarrow> bindR (mapR (\<lambda>(i, p). validatePermissionEntry ms i p) (zip [0..<length ps] ps)) (\<lambda>_. Inr ())
      | _ \<Rightarrow> Inl PermissionsNotAnArray)"

definition validateManifest :: "ms_lib \<Rightarrow> jsv \<Rightarrow> manifest_error + jsv" where
  "validateManifest ms m =
     (if \<not> is_object m then Inl ManifestNotAnObject
      else if js_get m ''manifest_version'' \<noteq> JUndefined \<and>
              js_get m ''manifest_version'' \<noteq> DEFAULT_MANIFEST_VERSION then Inl ManifestVersion
      else if \<not> nonempty_string (js_get m ''app_id'') then Inl ManifestAppId
      else if \<not> nonempty_string (js_get m ''name'') then Inl ManifestName
      else if js_get m ''did'' \<noteq> JUndefined \<and> \<not> nonempty_string (js_get m ''did'') then Inl ManifestDid
      else if js_get m ''space'' \<noteq> JUndefined \<and> \<not> nonempty_string (js_get m ''space'') then Inl ManifestSpace
      else
        bindR (if js_get m ''expiry'' \<noteq> JUndefined
               then bindR (parseExpiry ms (js_get m ''expiry'')) (\<lambda>_. Inr ()) else Inr ()) (\<lambda>_.
        bindR (if js_get m ''knowledge'' \<noteq> JUndefined
               then bindR (resolveManifestKnowledgeRoot (js_get m ''knowledge'')) (\<lambda>_. Inr ()) else Inr ()) (\<lambda>_.
        bindR (validate_permissions ms (js_get m ''permissions'')) (\<lambda>_.
        bindR (if js_get m ''secrets'' \<noteq> JUndefined then validateManifestSecrets ms (js_get m ''secrets'')
               else Inr ()) (\<lambda>_.
        bindR (throw_if (has_own m ''keys_app_id'' \<and>
                 (case js_get m ''keys_app_id'' of JString s \<Rightarrow> \<not> rx_test KEY_APP_ID s | _ \<Rightarrow> True))
               KeysAppIdInvalid) (\<lambda>_.
        case js_coalesce (js_get m ''keys_app_id'') (js_get m ''app_id'') of
          JString appId \<Rightarrow> bindR (validateManifestKeys appId (js_get m ''keys'')) (\<lambda>_. Inr m)
        | _ \<Rightarrow> Inl NotAString))))))"

section \<open>The validator returns its argument\<close>

lemma validateManifest_same: "validateManifest ms v = Inr w \<Longrightarrow> w = v"
  unfolding validateManifest_def
  by (auto simp: bindR_Inr_iff split: if_split_asm jsv.split_asm)

section \<open>Key declarations\<close>

lemma KEY_SEGMENT_eq: "KEY_SEGMENT = SEGMENT_SOURCE"
  by (simp add: KEY_SEGMENT_def SEGMENT_SOURCE_def segment_char_def fun_eq_iff)

lemma KEY_PATH_iff:
  "rx_test KEY_PATH w \<longleftrightarrow>
   (\<forall>p \<in> set (splitOn CHR ''/'' w). p \<in> lang SEGMENT_SOURCE) \<and>
   3 \<le> length (splitOn CHR ''/'' w) \<and> length (splitOn CHR ''/'' w) \<le> 8"
  unfolding KEY_PATH_def rx_test_iff KEY_SEGMENT_eq
  by (subst sep_rx_iff) (auto simp: segment_no_slash)

lemma utf8_length_ascii: "(\<And>c. c \<in> set w \<Longrightarrow> (of_char c :: nat) < 128) \<Longrightarrow> utf8_length w = length w"
  by (induction w) auto

lemma segment_char_ascii: "segment_char c \<Longrightarrow> (of_char c :: nat) < 128"
  by (auto simp: segment_char_def char_class_defs)

lemma segment_chars: "p \<in> lang SEGMENT_SOURCE \<Longrightarrow> list_all segment_char p"
  by (auto simp: SEGMENT_iff segment_char_def)

lemma key_path_ascii:
  assumes "\<forall>p \<in> set (splitOn CHR ''/'' w). p \<in> lang SEGMENT_SOURCE"
  shows "utf8_length w = length w"
proof (rule utf8_length_ascii)
  fix c assume "c \<in> set w"
  then consider "c = CHR ''/''" | p where "p \<in> set (splitOn CHR ''/'' w)" "c \<in> set p"
    using set_splitOn by metis
  then show "(of_char c :: nat) < 128"
  proof cases
    case 2
    then have "segment_char c"
      using assms segment_chars unfolding list_all_iff by blast
    then show ?thesis by (rule segment_char_ascii)
  qed simp
qed

lemma manifest_path_iff:
  assumes "startsWith p (''apps/'' @ a @ ''/'')"
  shows "\<not> 255 < length p \<and> rx_test KEY_PATH p \<longleftrightarrow> assertPath p KeyPath = Inr ()"
proof -
  obtain t where "p = ''apps'' @ CHR ''/'' # t"
    using assms by (auto simp: prefix_def)
  then have hd: "hd (splitOn CHR ''/'' p) = ''apps''"
    using splitOn_append [of "CHR ''/''" "''apps''" t] by simp
  show ?thesis
  proof (cases "\<forall>w \<in> set (splitOn CHR ''/'' p). w \<in> lang SEGMENT_SOURCE")
    case True
    then show ?thesis
      using key_path_ascii [OF True] hd by (simp only: KEY_PATH_iff assertPath_ok_iff) auto
  next
    case False
    then show ?thesis
      unfolding KEY_PATH_iff assertPath_ok_iff by blast
  qed
qed

lemma manifest_prefix_ok: "rx_test KEY_APP_ID a \<Longrightarrow> assertPath (''apps/'' @ a) PrefixPath = Inr ()"
proof -
  assume "rx_test KEY_APP_ID a"
  then have a: "a \<in> lang SEGMENT_SOURCE"
    by (simp only: KEY_APP_ID_def rx_test_iff KEY_SEGMENT_eq)
  have "rx_test SEGMENT_SOURCE ''apps''"
    by code_simp
  then have apps: "''apps'' \<in> lang SEGMENT_SOURCE"
    by (simp only: rx_test_iff)
  have sp: "splitOn CHR ''/'' (''apps/'' @ a) = [''apps'', a]"
    using splitOn_append [of "CHR ''/''" "''apps''" a] splitOn_id [OF segment_no_slash [OF a]] by simp
  have "length a \<le> 64"
    using a by (auto simp: SEGMENT_iff)
  moreover have "utf8_length (''apps/'' @ a) = length (''apps/'' @ a)"
    by (rule key_path_ascii) (use sp a apps in simp)
  ultimately show ?thesis
    using a apps by (simp only: assertPath_ok_iff sp) simp
qed

definition declared_paths :: "jsv list \<Rightarrow> string list" where
  "declared_paths ks = concat (map (\<lambda>k. case js_get k ''path'' of JString p \<Rightarrow> [p] | _ \<Rightarrow> []) ks)"

definition key_decl_ok :: "string \<Rightarrow> jsv \<Rightarrow> bool" where
  "key_decl_ok a k \<longleftrightarrow>
     (case js_get k ''path'' of
        JString p \<Rightarrow> startsWith p (''apps/'' @ a @ ''/'') \<and> assertPath p KeyPath = Inr () \<and> \<not> has_own k ''prefix''
      | _ \<Rightarrow> False) \<or>
     (\<not> has_own k ''path'' \<and> js_get k ''prefix'' = JString (''apps/'' @ a @ ''/''))"

lemma has_own_get: "\<not> has_own v k \<Longrightarrow> js_get v k = JUndefined"
  by (cases v) auto

lemma validate_key_cases:
  assumes "validate_key a i ps seen v = Inr (ps', seen')"
  obtains (path) p where "js_get v ''path'' = JString p" "startsWith p (''apps/'' @ a @ ''/'')"
      "assertPath p KeyPath = Inr ()" "\<not> has_own v ''prefix''" "p \<notin> set ps" "ps' = ps @ [p]" "seen' = seen"
  | (pre) "\<not> has_own v ''path''" "js_get v ''prefix'' = JString (''apps/'' @ a @ ''/'')" "\<not> seen"
      "ps' = ps" "seen'"
proof -
  obtain fs where v: "v = JObject fs"
    using assms by (cases v) (simp_all add: validate_key_def)
  have diff: "has_own v ''path'' \<noteq> has_own v ''prefix''"
    using assms by (auto simp: validate_key_def v split: if_split_asm)
  obtain abilities where ab: "js_get v ''abilities'' = JArray abilities"
    using assms by (auto simp: validate_key_def v split: if_split_asm jsv.split_asm)
  note d = assms [unfolded validate_key_def, unfolded v jsv.case, folded v, unfolded ab jsv.case]
  show ?thesis
  proof (cases "has_own v ''path''")
    case True
    then obtain p where p: "js_get v ''path'' = JString p"
      using d by (auto split: if_split_asm jsv.split_asm)
    then have "\<not> 255 < length p \<and> rx_test KEY_PATH p" "startsWith p (''apps/'' @ a @ ''/'')"
      "p \<notin> set ps" "ps' = ps @ [p]" "seen' = seen"
      using d True by (auto split: if_split_asm)
    with p diff True manifest_path_iff path show ?thesis
      by blast
  next
    case False
    then have "js_get v ''prefix'' = JString (''apps/'' @ a @ ''/'') \<and> \<not> seen \<and> ps' = ps \<and> seen'"
      using d by (simp split: if_split_asm)
    with False pre show ?thesis
      by blast
  qed
qed

lemma validate_keys_sound:
  "validate_keys_from a i ps seen ks = Inr () \<Longrightarrow> distinct ps \<Longrightarrow>
   list_all (key_decl_ok a) ks \<and> distinct (ps @ declared_paths ks) \<and>
   length (filter (\<lambda>k. has_own k ''prefix'') ks) \<le> (if seen then 0 else 1)"
proof (induction ks arbitrary: i ps seen)
  case Nil
  then show ?case by (simp add: declared_paths_def)
next
  case (Cons v vs)
  then obtain ps' seen' where v: "validate_key a i ps seen v = Inr (ps', seen')"
    and vs: "validate_keys_from a (Suc i) ps' seen' vs = Inr ()"
    by (auto simp: result_iff)
  from v show ?case
  proof (cases rule: validate_key_cases)
    case (path p)
    then show ?thesis
      using Cons.IH [OF vs] Cons.prems(2) by (auto simp: key_decl_ok_def declared_paths_def)
  next
    case pre
    then have "js_get v ''path'' = JUndefined" and "has_own v ''prefix''"
      using has_own_get [of v "''path''"] has_own_get [of v "''prefix''"] by auto
    then show ?thesis
      using pre Cons.IH [OF vs] Cons.prems(2) by (auto simp: key_decl_ok_def declared_paths_def)
  qed
qed

text \<open>The key declarations a manifest may make are key resources: when the declarations of a
  manifest validate, there are at most 32 of them, no path twice and at most one prefix, and
  every declared path is one the encryption resource grammar accepts as a key (every declared
  prefix, as a prefix) under the application's own \<open>apps/<id>/\<close>.\<close>

theorem manifest_keys_are_resources:
  assumes "validateManifestKeys a (JArray ks) = Inr ()"
  shows "length ks \<le> 32 \<and> distinct (declared_paths ks) \<and>
    length (filter (\<lambda>k. has_own k ''prefix'') ks) \<le> 1 \<and> list_all (key_decl_ok a) ks \<and>
    (ks = [] \<or> assertPath (''apps/'' @ a) PrefixPath = Inr ())"
proof (cases "ks = []")
  case True
  then show ?thesis by (simp add: declared_paths_def)
next
  case False
  then have "validate_keys_from a 0 [] False ks = Inr ()" "length ks \<le> 32" "rx_test KEY_APP_ID a"
    using assms by (auto simp: validateManifestKeys_def split: if_split_asm)
  then show ?thesis
    using validate_keys_sound [of a 0 "[]" False ks] manifest_prefix_ok by simp
qed

definition sample_keys :: "jsv list" where
  "sample_keys =
     [JObject [(''path'', JString ''apps/com.app/notes''), (''abilities'', strings [''decrypt''])],
      JObject [(''prefix'', JString ''apps/com.app/''), (''abilities'', strings [''key.create''])]]"

lemma manifest_keys_are_resources_witness:
  "list_all (key_decl_ok ''com.app'') sample_keys \<and> assertPath ''apps/com.app'' PrefixPath = Inr ()"
proof -
  have v: "validateManifestKeys ''com.app'' (JArray sample_keys) = Inr ()"
    by code_simp
  show ?thesis
    using manifest_keys_are_resources [OF v] by (simp add: sample_keys_def)
qed

section \<open>Secrets after validation\<close>

lemma normalizeSecretActions_Inl:
  "normalizeSecretActions as = Inl e \<Longrightarrow> \<exists>a. e = UnknownSecretAction a"
  by (auto simp: normalizeSecretActions_def result_iff normalize_secret_action_def
      dest!: mapR_Inl_set split: if_split_asm jsv.split_asm)

lemma validate_secret_ok:
  assumes "validate_secret ms (name, spec) = Inr u"
  obtains p as where "resolve_secret (secretNameFromSpec name spec) (secretScopeFromSpec spec) = Inr p"
    "secretActionsFromSpec name spec = Inr as" "as \<noteq> []"
  using assms by (auto simp: validate_secret_def result_iff)

text \<open>A validated secrets section can only fail later on an unknown action: after
  \<open>validateManifestSecrets\<close> accepts it, building its entries either succeeds or reports an
  action outside the accepted ones; no name, scope or type error is left.\<close>

theorem validated_secrets_resolve:
  assumes ok: "validateManifestSecrets ms secrets = Inr ()" and e: "secretEntriesForManifest secrets = Inl e"
  shows "\<exists>a. e = UnknownSecretAction a"
proof -
  obtain fs where fs: "secrets = JObject fs"
    using ok by (cases secrets) (simp_all add: validateManifestSecrets_def)
  then obtain name spec where ns: "(name, spec) \<in> set fs" and err: "secret_entry (name, spec) = Inl e"
    using e by (auto simp: secretEntriesForManifest_def dest!: mapR_Inl_set)
  have "is_ok (validate_secret ms (name, spec))"
    using ok ns by (auto simp: fs validateManifestSecrets_def result_iff is_ok_iff dest: mapR_Inr_set)
  then obtain p as where "resolve_secret (secretNameFromSpec name spec) (secretScopeFromSpec spec) = Inr p"
    "secretActionsFromSpec name spec = Inr as"
    unfolding is_ok_iff by (metis validate_secret_ok)
  then have "normalizeSecretActions as = Inl e"
    using err by (auto simp: secret_entry_def result_iff)
  then show ?thesis
    by (rule normalizeSecretActions_Inl)
qed

lemma validated_secrets_resolve_witness:
  "\<exists>a. UnknownSecretAction (JString ''rotate'') = UnknownSecretAction a"
proof -
  let ?s = "JObject [(''API_KEY'', JArray [JString ''read'', JString ''rotate''])]"
  have "validateManifestSecrets (\<lambda>_. None) ?s = Inr ()"
    by code_simp
  moreover have "secretEntriesForManifest ?s = Inl (UnknownSecretAction (JString ''rotate''))"
    by code_simp
  ultimately show ?thesis
    by (rule validated_secrets_resolve)
qed

text \<open>The entry of a secret, and what it expands to.\<close>

lemma map_sum_id_Inr [simp]: "map_sum f id m = Inr x \<longleftrightarrow> m = Inr x"
  by (cases m) auto

lemma resolve_secret_vaultKey:
  "resolve_secret name scope = Inr p \<Longrightarrow> startsWith (sp_vaultKey p) ''secrets/''"
  by (auto simp: resolve_secret_def dest: vaultKey_prefix split: jsv.split_asm if_split_asm)

definition secret_action_ok :: "string \<Rightarrow> bool" where
  "secret_action_ok a \<longleftrightarrow> is_ok (vaultActionExpansion a)"

lemma normalized_secret_action_ok: "normalize_secret_action a = Inr b \<Longrightarrow> secret_action_ok b"
proof -
  assume "normalize_secret_action a = Inr b"
  then have "b \<in> set [''get'', ''put'', ''del'', ''list'', ''metadata'', ''tinycloud.kv/get'', ''tinycloud.kv/put'',
      ''tinycloud.kv/del'', ''tinycloud.kv/list'', ''tinycloud.kv/metadata'']"
    by (auto simp: normalize_secret_action_def split: if_split_asm jsv.split_asm)
  moreover have "list_all secret_action_ok [''get'', ''put'', ''del'', ''list'', ''metadata'', ''tinycloud.kv/get'',
      ''tinycloud.kv/put'', ''tinycloud.kv/del'', ''tinycloud.kv/list'', ''tinycloud.kv/metadata'']"
    by code_simp
  ultimately show ?thesis
    unfolding list_all_iff by blast
qed

text \<open>The secrets section reaches vault paths only: every entry it produces expands, and
  each resource of the expansion is in the key-value service, in the secrets space, under
  \<open>vault/secrets/\<close>, with vault actions.\<close>

theorem secret_entries_confined:
  assumes "secretEntriesForManifest secrets = Inr es" and x: "x \<in> set es"
  shows "\<exists>ys. expandPermissionEntry ev x = Inr ys \<and>
    list_all (\<lambda>y. pe_service y = ''tinycloud.kv'' \<and> pe_space y = Some SECRETS_SPACE \<and>
      startsWith (pe_path y) ''vault/secrets/'' \<and> set (pe_actions y) \<subseteq> set vault_kv_actions) ys"
proof -
  obtain fs where "mapR secret_entry fs = Inr es"
    using assms by (cases secrets) (auto simp: secretEntriesForManifest_def)
  then obtain name spec where "secret_entry (name, spec) = Inr x"
    using x mapR_Inr_set' by fastforce
  then obtain p as bs where p: "resolve_secret (secretNameFromSpec name spec) (secretScopeFromSpec spec) = Inr p"
    and bs: "normalizeSecretActions as = Inr bs"
    and x': "pe_service x = VAULT_PERMISSION_SERVICE" "pe_space x = Some SECRETS_SPACE"
      "pe_path x = sp_vaultKey p" "pe_actions x = bs"
    by (auto simp: secret_entry_def result_iff)
  have "is_ok (vaultActionExpansion b)" if "b \<in> set bs" for b
    using bs that normalized_secret_action_ok unfolding secret_action_ok_def
    by (auto simp: normalizeSecretActions_def result_iff dest: mapR_Inr_set')
  then obtain ys where ys: "mapR vaultActionExpansion bs = Inr ys"
    using mapR_ok_iff [of vaultActionExpansion bs] by blast
  have "snd y \<in> set vault_kv_actions" if "y \<in> set ys" for y
    using mapR_Inr_set' [OF ys that] vault_expansion_action(2) by (cases y) auto
  moreover have "startsWith (vaultKVPath ''vault'' (sp_vaultKey p)) ''vault/secrets/''"
    using resolve_secret_vaultKey [OF p] by (auto simp: vaultKVPath_def prefix_def)
  ultimately show ?thesis
    using x' ys by (auto simp: expandPermissionEntry_def service_constants expandVault_iff list_all_iff)
qed

lemma secret_entries_confined_witness:
  "\<exists>ys. expandPermissionEntry lower_evm
      (entry ''tinycloud.vault'' (Some ''secrets'') ''secrets/API_KEY'' [''get''] (Some True)) = Inr ys \<and>
    list_all (\<lambda>y. startsWith (pe_path y) ''vault/secrets/'') ys"
proof -
  have "secretEntriesForManifest (JObject [(''API_KEY'', JBool True)]) =
      Inr [entry ''tinycloud.vault'' (Some ''secrets'') ''secrets/API_KEY'' [''get''] (Some True)]"
    by code_simp
  then have "\<exists>ys. expandPermissionEntry lower_evm
      (entry ''tinycloud.vault'' (Some ''secrets'') ''secrets/API_KEY'' [''get''] (Some True)) = Inr ys \<and>
    list_all (\<lambda>y. pe_service y = ''tinycloud.kv'' \<and> pe_space y = Some SECRETS_SPACE \<and>
      startsWith (pe_path y) ''vault/secrets/'' \<and> set (pe_actions y) \<subseteq> set vault_kv_actions) ys"
    by (rule secret_entries_confined) simp
  then show ?thesis
    by (auto simp: list_all_iff)
qed

end
