(* ===== verification/ManifestResolve.thy ===== *)
theory ManifestResolve
  imports ManifestValidate
begin

text \<open>
  Resolution and composition of manifests (\<^verbatim>\<open>packages/sdk-core/src/manifest.ts\<close>): default tiers,
  \<open>resolveManifest\<close>, the deduplication of resources, \<open>composeManifestRequest\<close>, and the
  abilities maps handed to the WASM layer.

  What a list of resources grants is the set of its (key, action) pairs (\<open>granted\<close>), the key
  being the string and the expiry the code groups by. The properties say that composition
  neither loses nor adds authority, and that delegations stay within the session.
\<close>

section \<open>Default tiers\<close>

datatype defaults_tier = NoDefaults | Standard | Admin | AllServices

definition normalizeDefaults :: "jsv \<Rightarrow> defaults_tier" where
  "normalizeDefaults v =
     (case v of
        JUndefined \<Rightarrow> Standard
      | JBool b \<Rightarrow> if b then Standard else NoDefaults
      | JString s \<Rightarrow>
          let normalized = toLowerCase (trim s)
          in if normalized = ''admin'' then Admin else if normalized = ''all'' then AllServices else Standard
      | _ \<Rightarrow> Standard)"

definition DEFAULT_STANDARD_ENTRIES :: "permission_entry list" where
  "DEFAULT_STANDARD_ENTRIES =
     [entry ''tinycloud.kv'' (Some DEFAULT_MANIFEST_SPACE) ''/'' [''get'', ''put'', ''del'', ''list'', ''metadata''] None,
      entry ''tinycloud.sql'' (Some DEFAULT_MANIFEST_SPACE) ''/'' [''read'', ''write''] None]"

definition DEFAULT_ADMIN_ENTRIES :: "permission_entry list" where
  "DEFAULT_ADMIN_ENTRIES =
     [entry ''tinycloud.kv'' (Some DEFAULT_MANIFEST_SPACE) ''/'' [''get'', ''put'', ''del'', ''list'', ''metadata''] None,
      entry ''tinycloud.sql'' (Some DEFAULT_MANIFEST_SPACE) ''/'' [''read'', ''write'', ''schema''] None]"

definition DEFAULT_ALL_ENTRIES :: "permission_entry list" where
  "DEFAULT_ALL_ENTRIES =
     [entry ''tinycloud.kv'' (Some DEFAULT_MANIFEST_SPACE) ''/'' [''get'', ''put'', ''del'', ''list'', ''metadata''] None,
      entry ''tinycloud.sql'' (Some DEFAULT_MANIFEST_SPACE) ''/'' [''read'', ''write'', ''schema''] None,
      entry ''tinycloud.duckdb'' (Some DEFAULT_MANIFEST_SPACE) ''/'' [''read'', ''write''] None]"

fun defaultEntriesForTier :: "defaults_tier \<Rightarrow> permission_entry list" where
  "defaultEntriesForTier NoDefaults = []"
| "defaultEntriesForTier Standard = DEFAULT_STANDARD_ENTRIES"
| "defaultEntriesForTier Admin = DEFAULT_ADMIN_ENTRIES"
| "defaultEntriesForTier AllServices = DEFAULT_ALL_ENTRIES"

section \<open>Deduplication\<close>

text \<open>The \<open>Map\<close> key: the three strings, each followed by U+0000, and the expiry (whose decimal
  form ends the code's key and determines it).\<close>

definition resource_key :: "resource_capability \<Rightarrow> string \<times> rat option" where
  "resource_key r =
     (rc_service r @ [CHR 0x00] @ rc_space r @ [CHR 0x00] @ rc_path r @ [CHR 0x00], rc_expiryMs r)"

definition merge_resource :: "resource_capability \<Rightarrow> resource_capability \<Rightarrow> resource_capability" where
  "merge_resource existing r = existing\<lparr>rc_actions := merge_new (rc_actions existing) (rc_actions r),
     rc_description := (case rc_description existing of None \<Rightarrow> rc_description r | d \<Rightarrow> d)\<rparr>"

text \<open>\<open>cloneResourceCapability\<close> copies every property: a copy is the value itself.\<close>

definition cloneResourceCapability :: "resource_capability \<Rightarrow> resource_capability" where
  "cloneResourceCapability r =
     \<lparr>rc_service = rc_service r, rc_space = rc_space r, rc_path = rc_path r, rc_actions = rc_actions r,
      rc_expiryMs = rc_expiryMs r, rc_description = rc_description r\<rparr>"

definition dedupeResources :: "resource_capability list \<Rightarrow> resource_capability list" where
  "dedupeResources rs = map snd (group_by resource_key cloneResourceCapability merge_resource rs)"

definition capabilitiesReadPermission :: "string \<Rightarrow> resource_capability" where
  "capabilitiesReadPermission space = resource ''tinycloud.capabilities'' space [] [''tinycloud.capabilities/read'']"

definition data_spaces :: "resource_capability list \<Rightarrow> string list" where
  "data_spaces rs = dedupe (map rc_space (filter (\<lambda>r. rc_service r \<noteq> ENCRYPTION_PERMISSION_SERVICE) rs))"

definition withCapabilitiesReadForSpaces :: "resource_capability list \<Rightarrow> resource_capability list" where
  "withCapabilitiesReadForSpaces rs =
     (if rs = [] then [] else dedupeResources (rs @ map capabilitiesReadPermission (data_spaces rs)))"

section \<open>Resolution\<close>

definition resolveEntry ::
    "ms_lib \<Rightarrow> evm_lib \<Rightarrow> permission_entry \<Rightarrow> string \<Rightarrow> string \<Rightarrow> manifest_error + resource_capability list" where
  "resolveEntry ms ev e pre inheritedSpace =
     (let skipPrefixForEntry = (pe_skipPrefix e = Some True \<or> pe_service e = ENCRYPTION_PERMISSION_SERVICE);
          resolvedPath = applyPrefix pre (pe_path e) skipPrefixForEntry
      in bindR (case pe_expiry e of
                  None \<Rightarrow> Inr None
                | Some d \<Rightarrow> bindR (parseExpiry ms (JString d)) (\<lambda>x. Inr (Some x))) (\<lambda>entryExpiryMs.
         bindR (expandPermissionEntry ev (e\<lparr>
             pe_space := Some (case pe_space e of Some sp \<Rightarrow> sp | None \<Rightarrow> inheritedSpace),
             pe_path := resolvedPath, pe_skipPrefix := Some True\<rparr>)) (\<lambda>es.
         Inr (map (\<lambda>expanded.
           \<lparr>rc_service = pe_service expanded,
            rc_space = (case pe_space expanded of Some sp \<Rightarrow> sp | None \<Rightarrow> inheritedSpace),
            rc_path = pe_path expanded, rc_actions = pe_actions expanded,
            rc_expiryMs = entryExpiryMs, rc_description = pe_description e\<rparr>) es))))"

definition manifest_prefix :: "manifest \<Rightarrow> string" where
  "manifest_prefix m = (case m_prefix m of Some p \<Rightarrow> p | None \<Rightarrow> m_app_id m)"

definition manifest_space :: "manifest \<Rightarrow> string" where
  "manifest_space m = (case m_space m of Some s \<Rightarrow> s | None \<Rightarrow> DEFAULT_MANIFEST_SPACE)"

definition resolveManifest :: "ms_lib \<Rightarrow> evm_lib \<Rightarrow> manifest \<Rightarrow> manifest_error + resolved_capabilities" where
  "resolveManifest ms ev m =
     bindR (validateManifest ms (manifest_value m)) (\<lambda>_.
       let pre = manifest_prefix m; space = manifest_space m
       in bindR (parseExpiry ms (JString (case m_expiry m of Some d \<Rightarrow> d | None \<Rightarrow> DEFAULT_EXPIRY))) (\<lambda>expiryMs.
          let includePublicSpace = (case m_includePublicSpace m of Some b \<Rightarrow> b | None \<Rightarrow> True);
              defaultEntries = defaultEntriesForTier (normalizeDefaults (m_defaults m));
              explicitEntries = (case m_permissions m of Some ps \<Rightarrow> ps | None \<Rightarrow> [])
          in bindR (secretEntriesForManifest (m_secrets m)) (\<lambda>secretEntries.
             bindR (flatMapR (\<lambda>e. resolveEntry ms ev e pre space)
                     (defaultEntries @ explicitEntries @ secretEntries)) (\<lambda>resolved.
             let resources = withCapabilitiesReadForSpaces resolved
             in Inr \<lparr>r_app_id = m_app_id m, r_did = m_did m, r_space = space, r_resources = resources,
                     r_expiryMs = expiryMs, r_includePublicSpace = includePublicSpace,
                     r_additionalDelegates =
                       (case m_did m of
                          None \<Rightarrow> []
                        | Some did \<Rightarrow>
                            [\<lparr>rd_did = did, rd_name = Some (m_name m), rd_expiryMs = expiryMs,
                              rd_permissions = map cloneResourceCapability resources\<rparr>])\<rparr>))))"

section \<open>Composition\<close>

definition ACCOUNT_MANIFEST_PERMISSIONS :: "resource_capability list" where
  "ACCOUNT_MANIFEST_PERMISSIONS =
     [resource ''tinycloud.kv'' ACCOUNT_REGISTRY_SPACE ACCOUNT_REGISTRY_PATH
        [const_of KV ''GET'', const_of KV ''PUT'', const_of KV ''LIST''],
      resource ''tinycloud.kv'' ACCOUNT_REGISTRY_SPACE ''spaces/''
        [const_of KV ''GET'', const_of KV ''PUT'', const_of KV ''LIST''],
      resource ''tinycloud.kv'' ACCOUNT_REGISTRY_SPACE ''system/bootstrap/complete''
        [const_of KV ''GET'', const_of KV ''PUT''],
      resource ''tinycloud.delegation'' ACCOUNT_REGISTRY_SPACE [] [''tinycloud.delegation/list''],
      resource ''tinycloud.sql'' ACCOUNT_REGISTRY_SPACE ''account''
        [const_of SQL ''READ'', const_of SQL ''WRITE'', const_of SQL ''SCHEMA''],
      resource ''tinycloud.capabilities'' ACCOUNT_REGISTRY_SPACE [] [const_of CAPABILITIES ''READ'']]"

definition clonePermissionEntry :: "permission_entry \<Rightarrow> permission_entry" where
  "clonePermissionEntry e = e\<lparr>pe_caveats := map_option (map json_clone) (pe_caveats e)\<rparr>"

definition registry_records :: "manifest list \<Rightarrow> registry_record list" where
  "registry_records ms =
     map (\<lambda>(app_id, appManifests).
         \<lparr>rr_key = ACCOUNT_REGISTRY_PATH @ app_id, rr_app_id = app_id,
          rr_manifests = map (\<lambda>m. m\<lparr>m_permissions := map_option (map clonePermissionEntry) (m_permissions m)\<rparr>)
            appManifests\<rparr>)
       (collect_by m_app_id ms)"

definition composeManifestRequest ::
    "ms_lib \<Rightarrow> evm_lib \<Rightarrow> manifest list \<Rightarrow> bool option \<Rightarrow> manifest_error + composed_request" where
  "composeManifestRequest ms ev inputs includeOption =
     (if inputs = [] then Inl NoManifests
      else let includeAccountRegistryPermissions = (case includeOption of Some b \<Rightarrow> b | None \<Rightarrow> True)
      in bindR (mapR (\<lambda>m. bindR (validateManifest ms (manifest_value m)) (\<lambda>_. Inr m)) inputs) (\<lambda>manifests.
         bindR (mapR (resolveManifest ms ev) manifests) (\<lambda>resolved.
         let resources = concat (map r_resources resolved) @
               (if includeAccountRegistryPermissions then ACCOUNT_MANIFEST_PERMISSIONS else [])
         in Inr \<lparr>cr_manifests = manifests,
                 cr_resources = withCapabilitiesReadForSpaces resources,
                 cr_delegationTargets = concat (map (\<lambda>r. map (\<lambda>d. d\<lparr>rd_permissions := dedupeResources (rd_permissions d)\<rparr>)
                   (r_additionalDelegates r)) resolved),
                 cr_registryRecords =
                   (if includeAccountRegistryPermissions then registry_records manifests else []),
                 cr_expiryMs = Max (set (map r_expiryMs resolved)),
                 cr_includePublicSpace = list_ex r_includePublicSpace resolved\<rparr>)))"

section \<open>Abilities maps\<close>

text \<open>The maps are plain objects (\<open>{}\<close>), so reading an absent name that \<open>Object.prototype\<close> has
  gives the inherited member, not \<open>undefined\<close>; what an inherited member reads as when it is
  used as a property name (\<open>native\<close>) depends on the engine and is an argument. Property order
  is that of insertion (an engine lists names that are array indices first).\<close>

definition OBJECT_PROTOTYPE_KEYS :: "string list" where
  "OBJECT_PROTOTYPE_KEYS =
     [''constructor'', ''__defineGetter__'', ''__defineSetter__'', ''hasOwnProperty'', ''__lookupGetter__'',
      ''__lookupSetter__'', ''isPrototypeOf'', ''propertyIsEnumerable'', ''toString'', ''valueOf'', ''__proto__'',
      ''toLocaleString'']"

type_synonym abilities_map = "(string \<times> (string \<times> string list) list) list"

definition short_service :: "(string \<Rightarrow> string) \<Rightarrow> string \<Rightarrow> string option" where
  "short_service native service =
     (case map_of SERVICE_LONG_TO_SHORT service of
        Some short \<Rightarrow> Some short
      | None \<Rightarrow> if service \<in> set OBJECT_PROTOTYPE_KEYS then Some (native service) else None)"

definition abilities_step ::
    "(string \<Rightarrow> string) \<Rightarrow> abilities_map \<Rightarrow> resource_capability \<Rightarrow> manifest_error + abilities_map" where
  "abilities_step native out r =
     (case short_service native (rc_service r) of
        None \<Rightarrow> Inl (UnknownService (rc_service r))
      | Some short \<Rightarrow>
          let pathsMap = (case map_of out short of Some m \<Rightarrow> m | None \<Rightarrow> [])
          in (case map_of pathsMap (rc_path r) of
                Some existing \<Rightarrow>
                  Inr (AList.update short
                    (AList.update (rc_path r) (merge_new existing (rc_actions r)) pathsMap) out)
              | None \<Rightarrow>
                  if rc_path r \<in> set OBJECT_PROTOTYPE_KEYS then Inl (InheritedProperty (rc_path r))
                  else Inr (AList.update short (AList.update (rc_path r) (rc_actions r) pathsMap) out)))"

fun abilities_from ::
    "(string \<Rightarrow> string) \<Rightarrow> abilities_map \<Rightarrow> resource_capability list \<Rightarrow> manifest_error + abilities_map" where
  "abilities_from native out [] = Inr out"
| "abilities_from native out (r # rs) =
     bindR (abilities_step native out r) (\<lambda>out'. abilities_from native out' rs)"

definition resourceCapabilitiesToAbilitiesMap ::
    "(string \<Rightarrow> string) \<Rightarrow> resource_capability list \<Rightarrow> manifest_error + abilities_map" where
  "resourceCapabilitiesToAbilitiesMap native rs = abilities_from native [] rs"

text \<open>Assigning to \<open>out["__proto__"]\<close> sets the prototype: a space of that name is lost.\<close>

definition resourceCapabilitiesToSpaceAbilitiesMap ::
    "(string \<Rightarrow> string) \<Rightarrow> resource_capability list \<Rightarrow> manifest_error + (string \<times> abilities_map) list" where
  "resourceCapabilitiesToSpaceAbilitiesMap native rs =
     bindR (mapR (\<lambda>(space, entries).
         bindR (resourceCapabilitiesToAbilitiesMap native entries) (\<lambda>m. Inr (space, m)))
       (collect_by rc_space rs)) (\<lambda>out. Inr (filter (\<lambda>(space, _). space \<noteq> ''__proto__'') out))"

definition manifestAbilitiesUnion ::
    "(string \<Rightarrow> string) \<Rightarrow> resolved_capabilities \<Rightarrow> manifest_error + abilities_map" where
  "manifestAbilitiesUnion native resolved =
     resourceCapabilitiesToAbilitiesMap native
       (r_resources resolved @ concat (map rd_permissions (r_additionalDelegates resolved)))"

section \<open>What resources grant\<close>

type_synonym grant = "(string \<times> rat option) \<times> string"

definition granted :: "resource_capability list \<Rightarrow> grant set" where
  "granted rs = {(resource_key r, a) |r a. r \<in> set rs \<and> a \<in> set (rc_actions r)}"

lemma granted_simps [simp]:
  "granted [] = {}"
  "granted (r # rs) = {(resource_key r, a) |a. a \<in> set (rc_actions r)} \<union> granted rs"
  "granted (rs @ qs) = granted rs \<union> granted qs"
  "granted (concat rss) = (\<Union>rs \<in> set rss. granted rs)"
  by (auto simp: granted_def)

lemma clone_same [simp]: "cloneResourceCapability r = r"
  by (simp add: cloneResourceCapability_def)

lemma resource_key_merge [simp]: "resource_key (merge_resource v r) = resource_key v"
  by (simp add: resource_key_def merge_resource_def)

interpretation resources: keyed_merge resource_key cloneResourceCapability merge_resource
  "\<lambda>r. set (rc_actions r)" "\<lambda>r. set (rc_actions r)"
  by unfold_locales (simp_all add: merge_resource_def)

lemma foldl_merge_key: "resource_key (foldl merge_resource v rs) = resource_key v"
  by (induction rs arbitrary: v) auto

lemma dedupe_entry_key:
  "(k, v) \<in> set (group_by resource_key cloneResourceCapability merge_resource rs) \<Longrightarrow> resource_key v = k"
proof -
  assume "(k, v) \<in> set (group_by resource_key cloneResourceCapability merge_resource rs)"
  then have "merged cloneResourceCapability merge_resource (filter (\<lambda>x. resource_key x = k) rs) = Some v"
    by (simp only: resources.entry_in_table map_of_group_by)
  moreover have "\<forall>x \<in> set (filter (\<lambda>x. resource_key x = k) rs). resource_key x = k"
    by simp
  ultimately show ?thesis
    by (cases "filter (\<lambda>x. resource_key x = k) rs") (auto simp: foldl_merge_key)
qed

lemma dedupe_resource_keys: "map resource_key (dedupeResources rs) = dedupe (map resource_key rs)"
proof -
  have "map resource_key (dedupeResources rs) =
      map fst (group_by resource_key cloneResourceCapability merge_resource rs)"
    unfolding dedupeResources_def map_map by (intro map_cong) (auto dest: dedupe_entry_key)
  then show ?thesis
    by (simp add: keys_group_by)
qed

lemma granted_table:
  assumes keys: "\<And>k v. (k, v) \<in> set t \<Longrightarrow> resource_key v = k"
  shows "granted (map snd t) = {(k, a). \<exists>v. (k, v) \<in> set t \<and> a \<in> set (rc_actions v)}"
proof (intro set_eqI iffI)
  fix g assume "g \<in> granted (map snd t)"
  then obtain k v a where "(k, v) \<in> set t" "g = (resource_key v, a)" "a \<in> set (rc_actions v)"
    by (auto simp: granted_def)
  then show "g \<in> {(k, a). \<exists>v. (k, v) \<in> set t \<and> a \<in> set (rc_actions v)}"
    using keys by auto
next
  fix g assume "g \<in> {(k, a). \<exists>v. (k, v) \<in> set t \<and> a \<in> set (rc_actions v)}"
  then obtain k v a where kv: "(k, v) \<in> set t" "g = (k, a)" "a \<in> set (rc_actions v)"
    by auto
  have "v \<in> set (map snd t)"
    using kv(1) by force
  moreover have "g = (resource_key v, a)"
    using keys [OF kv(1)] kv(2) by simp
  ultimately show "g \<in> granted (map snd t)"
    using kv(3) unfolding granted_def by blast
qed

lemma granted_dedupe: "granted (dedupeResources rs) = granted rs"
proof -
  let ?t = "group_by resource_key cloneResourceCapability merge_resource rs"
  have "granted (dedupeResources rs) = {(k, a). \<exists>v. (k, v) \<in> set ?t \<and> a \<in> set (rc_actions v)}"
    unfolding dedupeResources_def by (rule granted_table) (rule dedupe_entry_key)
  also have "\<dots> = granted rs"
    unfolding resources.table_holds by (auto simp: granted_def)
  finally show ?thesis .
qed

lemma dedupe_distinct_keys: "distinct (map resource_key rs) \<Longrightarrow> dedupeResources rs = rs"
  by (simp add: dedupeResources_def group_by_distinct o_def)

lemma granted_withCapabilities:
  "granted (withCapabilitiesReadForSpaces rs) =
   granted rs \<union> granted (map capabilitiesReadPermission (data_spaces rs))"
  by (simp add: withCapabilitiesReadForSpaces_def granted_dedupe data_spaces_def)

text \<open>Deduplication of resources is exact: the result grants the same (key, action) pairs,
  has every key once and in the order of first occurrence, and deduplicating it again changes
  nothing.\<close>

theorem dedupeResources_exact:
  "granted (dedupeResources rs) = granted rs \<and>
   map resource_key (dedupeResources rs) = dedupe (map resource_key rs) \<and>
   dedupeResources (dedupeResources rs) = dedupeResources rs"
  using granted_dedupe dedupe_resource_keys dedupe_distinct_keys [of "dedupeResources rs"] by simp

section \<open>Authority of composed requests\<close>

lemma data_spaces_resources:
  "granted (map capabilitiesReadPermission spaces) =
   {(resource_key (capabilitiesReadPermission sp), ''tinycloud.capabilities/read'') |sp. sp \<in> set spaces}"
proof (induction spaces)
  case (Cons sp spaces)
  moreover have "rc_actions (capabilitiesReadPermission sp) = [''tinycloud.capabilities/read'']"
    by (simp add: capabilitiesReadPermission_def)
  ultimately show ?case by auto
qed simp

lemma composeE:
  assumes "composeManifestRequest ms ev inputs opt = Inr req"
  obtains resolved where "mapR (resolveManifest ms ev) inputs = Inr resolved" and "inputs \<noteq> []"
    and "cr_manifests req = inputs"
    and "cr_resources req = withCapabilitiesReadForSpaces (concat (map r_resources resolved) @
          (if opt = Some False then [] else ACCOUNT_MANIFEST_PERMISSIONS))"
    and "cr_delegationTargets req = concat (map (\<lambda>r. map (\<lambda>d. d\<lparr>rd_permissions := dedupeResources (rd_permissions d)\<rparr>)
          (r_additionalDelegates r)) resolved)"
    and "cr_registryRecords req = (if opt = Some False then [] else registry_records inputs)"
    and "cr_expiryMs req = Max (set (map r_expiryMs resolved))"
    and "list_ex r_includePublicSpace resolved = cr_includePublicSpace req"
proof -
  have same: "mapR (\<lambda>m. bindR (validateManifest ms (manifest_value m)) (\<lambda>_. Inr m)) ns = Inr ns' \<Longrightarrow> ns' = ns" for ns ns'
    by (induction ns arbitrary: ns') (auto simp: result_iff)
  have opt: "(case opt of Some b \<Rightarrow> b | None \<Rightarrow> True) = (opt \<noteq> Some False)"
    by (cases opt) auto
  obtain ns resolved where "inputs \<noteq> []"
    and ns: "mapR (\<lambda>m. bindR (validateManifest ms (manifest_value m)) (\<lambda>_. Inr m)) inputs = Inr ns"
    and resolved: "mapR (resolveManifest ms ev) ns = Inr resolved"
    using assms by (auto simp: composeManifestRequest_def bindR_Inr_iff Let_def split: if_split_asm)
  moreover have "ns = inputs"
    by (rule same [OF ns])
  ultimately show ?thesis
    using that [of resolved] assms
    by (cases "opt = Some False") (auto simp: composeManifestRequest_def Let_def opt)
qed

text \<open>C1: composing manifests neither loses nor adds authority: the composed request grants what
  the manifests grant one by one, the account registry permissions unless they are switched
  off, and the reading of capabilities in every data space of these, and nothing else.\<close>

theorem compose_authority:
  assumes "composeManifestRequest ms ev inputs opt = Inr req"
  shows "\<exists>resolved. mapR (resolveManifest ms ev) inputs = Inr resolved \<and>
    (let rs = concat (map r_resources resolved) @ (if opt = Some False then [] else ACCOUNT_MANIFEST_PERMISSIONS)
     in granted (cr_resources req) = granted rs \<union>
          {(resource_key (capabilitiesReadPermission sp), ''tinycloud.capabilities/read'') |sp.
             sp \<in> set (data_spaces rs)})"
  using assms by (rule composeE) (auto simp: Let_def granted_withCapabilities data_spaces_resources)

lemma resolved_delegate_permissions:
  assumes "resolveManifest ms ev m = Inr r" and "d \<in> set (r_additionalDelegates r)"
  shows "rd_permissions d = r_resources r \<and> rd_expiryMs d = r_expiryMs r \<and> m_did m = Some (rd_did d)"
  using assms by (auto simp: resolveManifest_def result_iff Let_def map_idI split: option.split_asm)

text \<open>C27: delegations stay within the session: every delegation a composed request makes
  available after sign-in grants only (key, action) pairs the request itself asks the user
  for, and does not outlive it.\<close>

theorem delegations_within_session:
  assumes "composeManifestRequest ms ev inputs opt = Inr req" and "d \<in> set (cr_delegationTargets req)"
  shows "granted (rd_permissions d) \<subseteq> granted (cr_resources req) \<and> rd_expiryMs d \<le> cr_expiryMs req"
  using assms(1)
proof (rule composeE)
  fix resolved
  assume resolved: "mapR (resolveManifest ms ev) inputs = Inr resolved"
    and res: "cr_resources req = withCapabilitiesReadForSpaces (concat (map r_resources resolved) @
          (if opt = Some False then [] else ACCOUNT_MANIFEST_PERMISSIONS))"
    and del: "cr_delegationTargets req = concat (map (\<lambda>r. map (\<lambda>d. d\<lparr>rd_permissions := dedupeResources (rd_permissions d)\<rparr>)
          (r_additionalDelegates r)) resolved)"
    and ex: "cr_expiryMs req = Max (set (map r_expiryMs resolved))"
  obtain r d' where r: "r \<in> set resolved" and d': "d' \<in> set (r_additionalDelegates r)"
    and d: "d = d'\<lparr>rd_permissions := dedupeResources (rd_permissions d')\<rparr>"
    using assms(2) del by auto
  obtain m where "resolveManifest ms ev m = Inr r"
    using mapR_Inr_set' [OF resolved r] by blast
  then have p: "rd_permissions d' = r_resources r" "rd_expiryMs d' = r_expiryMs r"
    using resolved_delegate_permissions d' by blast+
  have "granted (rd_permissions d) = granted (r_resources r)"
    using d p by (simp add: granted_dedupe)
  also have "\<dots> \<subseteq> granted (cr_resources req)"
    using r res by (auto simp: granted_withCapabilities)
  finally show ?thesis
    using r d p ex by simp
qed

text \<open>The registry records of a composed request partition its manifests: one record per
  application id, in the order of first occurrence, holding that application's manifests in
  order, none lost and none under another id.\<close>

theorem registry_records_partition:
  "map rr_app_id (registry_records inputs) = dedupe (map m_app_id inputs) \<and>
   map rr_key (registry_records inputs) = map (\<lambda>a. ACCOUNT_REGISTRY_PATH @ a) (dedupe (map m_app_id inputs)) \<and>
   map (\<lambda>rr. map m_name (rr_manifests rr)) (registry_records inputs) =
     map (\<lambda>a. map m_name (filter (\<lambda>m. m_app_id m = a) inputs)) (dedupe (map m_app_id inputs))"
  by (simp add: registry_records_def collect_by_iff o_def case_prod_beta)

section \<open>What the abilities maps hold\<close>

definition abilities_at :: "abilities_map \<Rightarrow> string \<Rightarrow> string \<Rightarrow> string list option" where
  "abilities_at out short path = (case map_of out short of None \<Rightarrow> None | Some m \<Rightarrow> map_of m path)"

abbreviation (input) matching ::
    "(string \<Rightarrow> string) \<Rightarrow> string \<Rightarrow> string \<Rightarrow> resource_capability list \<Rightarrow> resource_capability list" where
  "matching native short path rs \<equiv>
     filter (\<lambda>r. short_service native (rc_service r) = Some short \<and> rc_path r = path) rs"

abbreviation (input) merge_actions :: "string list \<Rightarrow> resource_capability \<Rightarrow> string list" where
  "merge_actions \<equiv> \<lambda>v r. merge_new v (rc_actions r)"

lemma map_of_update: "map_of (AList.update k v t) k' = (if k' = k then Some v else map_of t k')"
  by (simp add: update_conv)

lemma abilities_at_step:
  assumes "abilities_step native out r = Inr out'" and "short_service native (rc_service r) = Some short"
  shows "abilities_at out' s p =
    (if s = short \<and> p = rc_path r
     then Some (case abilities_at out s p of None \<Rightarrow> rc_actions r | Some v \<Rightarrow> merge_new v (rc_actions r))
     else abilities_at out s p)"
  using assms
  by (auto simp: abilities_step_def abilities_at_def Let_def map_of_update split: option.split_asm if_split_asm
      split: option.splits)

lemma abilities_step_known: "abilities_step native out r = Inr out' \<Longrightarrow> \<exists>s. short_service native (rc_service r) = Some s"
  by (auto simp: abilities_step_def split: option.split_asm)

lemma abilities_from_at:
  "abilities_from native out rs = Inr out' \<Longrightarrow>
   abilities_at out' s p =
     (case abilities_at out s p of
        None \<Rightarrow> merged rc_actions merge_actions (matching native s p rs)
      | Some v \<Rightarrow> Some (foldl merge_actions v (matching native s p rs)))"
proof (induction rs arbitrary: out)
  case Nil
  then show ?case by (simp split: option.splits)
next
  case (Cons r rs)
  then obtain out1 where step: "abilities_step native out r = Inr out1"
    and rest: "abilities_from native out1 rs = Inr out'"
    by (auto simp: result_iff)
  obtain short where short: "short_service native (rc_service r) = Some short"
    using abilities_step_known [OF step] by blast
  show ?case
    using Cons.IH [OF rest] abilities_at_step [OF step short, of s p] short
    by (cases "abilities_at out s p") auto
qed

lemma abilities_at_Nil [simp]: "abilities_at [] s p = None"
  by (simp add: abilities_at_def)

lemma abilities_at_map:
  assumes "resourceCapabilitiesToAbilitiesMap native rs = Inr out"
  shows "abilities_at out s p =
    merged rc_actions (\<lambda>v r. merge_new v (rc_actions r))
      (filter (\<lambda>r. short_service native (rc_service r) = Some s \<and> rc_path r = p) rs)"
  using abilities_from_at [of native "[]" rs out s p] assms
  by (simp add: resourceCapabilitiesToAbilitiesMap_def)

text \<open>The abilities map is the resources, grouped: under a service and a path it holds the
  actions of the resources with that service and path, those of the first one followed by the
  new ones of the others in order, and nothing when there is no such resource.\<close>

theorem abilities_map_lookup:
  assumes "resourceCapabilitiesToAbilitiesMap native rs = Inr out"
  shows "abilities_at out s p =
    merged rc_actions (\<lambda>v r. merge_new v (rc_actions r))
      (filter (\<lambda>r. short_service native (rc_service r) = Some s \<and> rc_path r = p) rs)"
  using abilities_at_map [OF assms] .

lemma abilities_step_ok:
  assumes "\<And>s p. abilities_at out s p \<noteq> None \<Longrightarrow> p \<notin> set OBJECT_PROTOTYPE_KEYS"
  shows "is_ok (abilities_step native out r) \<longleftrightarrow>
    short_service native (rc_service r) \<noteq> None \<and> rc_path r \<notin> set OBJECT_PROTOTYPE_KEYS"
proof (cases "short_service native (rc_service r)")
  case None
  then show ?thesis by (simp add: abilities_step_def)
next
  case (Some s)
  then show ?thesis
    using assms [of s "rc_path r"]
    by (auto simp: abilities_step_def abilities_at_def Let_def split: option.splits)
qed

lemma abilities_from_ok:
  "(\<And>s p. abilities_at out s p \<noteq> None \<Longrightarrow> p \<notin> set OBJECT_PROTOTYPE_KEYS) \<Longrightarrow>
   is_ok (abilities_from native out rs) \<longleftrightarrow>
   list_all (\<lambda>r. short_service native (rc_service r) \<noteq> None \<and> rc_path r \<notin> set OBJECT_PROTOTYPE_KEYS) rs"
proof (induction rs arbitrary: out)
  case Nil
  then show ?case by simp
next
  case (Cons r rs)
  have step: "is_ok (abilities_step native out r) \<longleftrightarrow>
      short_service native (rc_service r) \<noteq> None \<and> rc_path r \<notin> set OBJECT_PROTOTYPE_KEYS"
    by (rule abilities_step_ok) (rule Cons.prems)
  show ?case
  proof (cases "abilities_step native out r")
    case (Inl e)
    then show ?thesis
      using step by auto
  next
    case (Inr out1)
    then have ok: "short_service native (rc_service r) \<noteq> None \<and> rc_path r \<notin> set OBJECT_PROTOTYPE_KEYS"
      using step by simp
    obtain short where "short_service native (rc_service r) = Some short"
      using ok by auto
    then have "abilities_at out1 s p \<noteq> None \<Longrightarrow> p \<notin> set OBJECT_PROTOTYPE_KEYS" for s p
      using abilities_at_step [OF Inr, of short s p] Cons.prems [of s p] ok by (auto split: if_split_asm)
    then show ?thesis
      using Cons.IH Inr ok by simp
  qed
qed

lemma abilities_map_defined_iff:
  "is_ok (resourceCapabilitiesToAbilitiesMap native rs) \<longleftrightarrow>
   list_all (\<lambda>r. short_service native (rc_service r) \<noteq> None \<and> rc_path r \<notin> set OBJECT_PROTOTYPE_KEYS) rs"
  unfolding resourceCapabilitiesToAbilitiesMap_def by (rule abilities_from_ok) simp

text \<open>The abilities map exists exactly when every resource has a service with a short form
  and no path is the name of a member every object inherits.\<close>

theorem abilities_map_defined:
  "is_ok (resourceCapabilitiesToAbilitiesMap native rs) \<longleftrightarrow>
   list_all (\<lambda>r. short_service native (rc_service r) \<noteq> None \<and> rc_path r \<notin> set OBJECT_PROTOTYPE_KEYS) rs"
  by (rule abilities_map_defined_iff)

lemma mapR_pairs:
  "mapR (\<lambda>(k, x). bindR (f x) (\<lambda>y. Inr (k, y))) t = Inr out \<Longrightarrow>
   map_of out k = (case map_of t k of None \<Rightarrow> None | Some x \<Rightarrow> Some (projr (f x)))"
  by (induction t arbitrary: out) (auto simp: result_iff split: option.splits)

lemma map_of_collect_by: "map_of (collect_by key xs) k =
   (if k \<in> key ` set xs then Some (filter (\<lambda>x. key x = k) xs) else None)"
proof -
  have "map_of (map (\<lambda>k. (k, f k)) ks) k = (if k \<in> set ks then Some (f k) else None)" for f :: "'b \<Rightarrow> 'a list" and ks
    by (induction ks) auto
  then show ?thesis
    by (simp add: collect_by_iff)
qed

lemma map_of_filter_key: "map_of (filter (\<lambda>(k, _). k \<noteq> c) t) k = (if k = c then None else map_of t k)"
  by (induction t) auto

text \<open>The abilities of a space are the abilities map of the resources of that space: grouping
  by space first changes nothing. The one space name it loses is \<open>__proto__\<close>.\<close>

theorem space_abilities_lookup:
  assumes "resourceCapabilitiesToSpaceAbilitiesMap native rs = Inr out"
  shows "map_of out sp =
    (if sp \<in> rc_space ` set rs \<and> sp \<noteq> ''__proto__''
     then Some (projr (resourceCapabilitiesToAbilitiesMap native (filter (\<lambda>r. rc_space r = sp) rs))) else None)"
  using assms
  by (auto simp: resourceCapabilitiesToSpaceAbilitiesMap_def result_iff map_of_filter_key map_of_collect_by
      dest!: mapR_pairs [where k = sp])

section \<open>Delegates add nothing to the union\<close>

interpretation abilities: keyed_merge "\<lambda>r. rc_path r" rc_actions "\<lambda>v r. merge_new v (rc_actions r)"
  "\<lambda>r. set (rc_actions r)" set
  by unfold_locales simp_all

lemma update_same: "map_of t k = Some v \<Longrightarrow> AList.update k v t = t"
  by (induction t) (auto split: if_split_asm)

lemma abilities_step_covered:
  assumes "short_service native (rc_service r) = Some s" and "abilities_at out s (rc_path r) = Some v"
    and "set (rc_actions r) \<subseteq> set v"
  shows "abilities_step native out r = Inr out"
  using assms
  by (auto simp: abilities_step_def abilities_at_def merge_new_subset update_same simp del: map_of_eq_Some_iff
      split: option.split_asm)

lemma abilities_from_covered:
  "(\<And>r. r \<in> set rs \<Longrightarrow> abilities_step native out r = Inr out) \<Longrightarrow> abilities_from native out rs = Inr out"
  by (induction rs) auto

lemma abilities_from_append:
  "abilities_from native out (rs @ qs) = bindR (abilities_from native out rs) (\<lambda>out'. abilities_from native out' qs)"
proof (induction rs arbitrary: out)
  case (Cons r rs)
  then show ?case by (cases "abilities_step native out r") auto
qed simp

lemma abilities_from_again:
  assumes out: "resourceCapabilitiesToAbilitiesMap native rs = Inr out" and r: "r \<in> set rs"
  shows "abilities_step native out r = Inr out"
proof -
  have "is_ok (resourceCapabilitiesToAbilitiesMap native rs)"
    using out by simp
  then obtain s where s: "short_service native (rc_service r) = Some s"
    using r by (auto simp: abilities_map_defined_iff list_all_iff)
  let ?m = "filter (\<lambda>q. short_service native (rc_service q) = Some s \<and> rc_path q = rc_path r) rs"
  have rm: "r \<in> set ?m"
    using r s by simp
  then obtain q qs where "?m = q # qs"
    by (meson list.set_cases)
  then have v: "merged rc_actions (\<lambda>v r. merge_new v (rc_actions r)) ?m =
      Some (foldl (\<lambda>v r. merge_new v (rc_actions r)) (rc_actions q) qs)" (is "_ = Some ?v")
    by (simp only: merged.simps)
  have "abilities_at out s (rc_path r) = Some ?v"
    using abilities_at_map [OF out, of s "rc_path r"] unfolding v .
  moreover have "set (rc_actions r) \<subseteq> set ?v"
    unfolding abilities.holds_merged [OF v] using rm by blast
  ultimately show ?thesis
    using s by (intro abilities_step_covered)
qed

text \<open>For a resolved manifest the abilities a session needs are those of its resources: the
  delegates' permissions, which \<open>manifestAbilitiesUnion\<close> adds, are already there, so the
  union is the abilities map of the resources, errors included.\<close>

theorem manifestAbilitiesUnion_resources:
  assumes "resolveManifest ms ev m = Inr r"
  shows "manifestAbilitiesUnion native r = resourceCapabilitiesToAbilitiesMap native (r_resources r)"
proof -
  let ?d = "concat (map rd_permissions (r_additionalDelegates r))"
  have d: "set ?d \<subseteq> set (r_resources r)"
    using resolved_delegate_permissions [OF assms] by auto
  show ?thesis
  proof (cases "resourceCapabilitiesToAbilitiesMap native (r_resources r)")
    case (Inl e)
    then show ?thesis
      by (simp add: manifestAbilitiesUnion_def resourceCapabilitiesToAbilitiesMap_def abilities_from_append)
  next
    case (Inr out)
    then have "abilities_from native out ?d = Inr out"
      using d abilities_from_again [OF Inr] by (intro abilities_from_covered) blast
    with Inr show ?thesis
      by (simp add: manifestAbilitiesUnion_def resourceCapabilitiesToAbilitiesMap_def abilities_from_append)
  qed
qed

section \<open>Prefixes\<close>

lemma applyPrefix_under: "pre \<noteq> [] \<Longrightarrow> \<exists>q. applyPrefix pre path False = pre @ ''/'' @ q"
proof (cases "startsWith path ''/''")
  case True
  then obtain q where "path = ''/'' @ q" by (auto simp: prefix_def)
  then show "pre \<noteq> [] \<Longrightarrow> ?thesis" by (simp add: applyPrefix_def)
qed (simp add: applyPrefix_def)

text \<open>An entry stays under its manifest's prefix: when the prefix is not empty and the entry
  neither skips it nor is an encryption entry, every resource it resolves to has the prefix
  followed by a slash at the start of its path (for vault entries, of the path inside the
  vault), so it cannot reach a sibling application's data.\<close>

theorem entry_paths_under_prefix:
  assumes ok: "resolveEntry ms ev e pre space = Inr rs" and r: "r \<in> set rs" and pre: "pre \<noteq> []"
    and skip: "pe_skipPrefix e \<noteq> Some True" and enc: "pe_service e \<noteq> ENCRYPTION_PERMISSION_SERVICE"
  shows "\<exists>q. rc_path r =
    (if pe_service e = VAULT_PERMISSION_SERVICE then vaultKVPath ''vault'' (pre @ ''/'' @ q) else pre @ ''/'' @ q)"
proof -
  let ?e = "e\<lparr>pe_space := Some (case pe_space e of Some sp \<Rightarrow> sp | None \<Rightarrow> space),
    pe_path := applyPrefix pre (pe_path e) False, pe_skipPrefix := Some True\<rparr>"
  obtain es x where es: "expandPermissionEntry ev ?e = Inr es" and x: "x \<in> set es" "rc_path r = pe_path x"
    using ok r skip enc by (auto simp: resolveEntry_def Let_def result_iff)
  obtain q where q: "applyPrefix pre (pe_path e) False = pre @ ''/'' @ q"
    using applyPrefix_under [OF pre] by blast
  show ?thesis
  proof (cases "pe_service e = VAULT_PERMISSION_SERVICE")
    case True
    then have "expandVaultPermissionEntry ?e = Inr es"
      using es enc by (simp add: expandPermissionEntry_def)
    then have "pe_path x = vaultKVPath ''vault'' (pre @ ''/'' @ q)"
      using x(1) q by (auto simp: expandVault_iff split: if_split_asm)
    with True x(2) show ?thesis by auto
  next
    case False
    then have "pe_path x = pre @ ''/'' @ q"
      using es x(1) enc q by (auto simp: expandPermissionEntry_def)
    with False x(2) show ?thesis by auto
  qed
qed

section \<open>Witnesses\<close>

definition sample_ms :: ms_lib where
  "sample_ms d = (if d = ''30d'' then Some (Fin 2592000000) else if d = ''1h'' then Some (Fin 3600000) else None)"

definition sample_manifest :: "string \<Rightarrow> string option \<Rightarrow> manifest" where
  "sample_manifest app did =
     \<lparr>m_manifest_version = DEFAULT_MANIFEST_VERSION, m_app_id = app, m_keys_app_id = None, m_name = ''Notes'', m_did = did,
      m_expiry = None, m_space = None, m_prefix = None, m_defaults = JUndefined, m_includePublicSpace = None,
      m_knowledge = JBool True,
      m_permissions = Some [entry ''tinycloud.kv'' (Some ''applications'') ''/'' [''get''] None],
      m_secrets = JObject [(''API_KEY'', JBool True)],
      m_keys = JArray [JObject [(''prefix'', JString (''apps/'' @ app @ ''/'')), (''abilities'', strings [''decrypt''])]]\<rparr>"

lemma ACCOUNT_MANIFEST_PERMISSIONS_code [code]:
  "ACCOUNT_MANIFEST_PERMISSIONS =
     [resource ''tinycloud.kv'' ''account'' ''applications/'' [''tinycloud.kv/get'', ''tinycloud.kv/put'', ''tinycloud.kv/list''],
      resource ''tinycloud.kv'' ''account'' ''spaces/'' [''tinycloud.kv/get'', ''tinycloud.kv/put'', ''tinycloud.kv/list''],
      resource ''tinycloud.kv'' ''account'' ''system/bootstrap/complete'' [''tinycloud.kv/get'', ''tinycloud.kv/put''],
      resource ''tinycloud.delegation'' ''account'' [] [''tinycloud.delegation/list''],
      resource ''tinycloud.sql'' ''account'' ''account'' [''tinycloud.sql/read'', ''tinycloud.sql/write'', ''tinycloud.sql/schema''],
      resource ''tinycloud.capabilities'' ''account'' [] [''tinycloud.capabilities/read'']]"
  by (simp add: ACCOUNT_MANIFEST_PERMISSIONS_def ACCOUNT_REGISTRY_SPACE_def ACCOUNT_REGISTRY_PATH_def derived_constants)

definition sample_resolved :: resolved_capabilities where
  "sample_resolved = projr (resolveManifest sample_ms lower_evm (sample_manifest ''com.notes'' (Some ''did:key:z6D'')))"

lemma sample_resolves:
  "resolveManifest sample_ms lower_evm (sample_manifest ''com.notes'' (Some ''did:key:z6D'')) = Inr sample_resolved"
proof -
  have "is_ok (resolveManifest sample_ms lower_evm (sample_manifest ''com.notes'' (Some ''did:key:z6D'')))"
    by code_simp
  then show ?thesis
    by (auto simp: is_ok_iff sample_resolved_def)
qed

definition sample_request :: composed_request where
  "sample_request = projr (composeManifestRequest sample_ms lower_evm [sample_manifest ''com.notes'' (Some ''did:key:z6D'')] None)"

lemma sample_composes:
  "composeManifestRequest sample_ms lower_evm [sample_manifest ''com.notes'' (Some ''did:key:z6D'')] None = Inr sample_request"
proof -
  have "is_ok (composeManifestRequest sample_ms lower_evm [sample_manifest ''com.notes'' (Some ''did:key:z6D'')] None)"
    by code_simp
  then show ?thesis
    by (auto simp: is_ok_iff sample_request_def)
qed

lemma compose_authority_witness:
  "(resource_key (resource ''tinycloud.kv'' ''account'' ''spaces/'' []), ''tinycloud.kv/get'') \<in> granted (cr_resources sample_request)"
proof -
  have "(resource_key (resource ''tinycloud.kv'' ''account'' ''spaces/'' []), ''tinycloud.kv/get'')
      \<in> granted ACCOUNT_MANIFEST_PERMISSIONS"
    by (simp add: ACCOUNT_MANIFEST_PERMISSIONS_code resource_key_def)
  then show ?thesis
    using compose_authority [OF sample_composes] by (auto simp: Let_def)
qed

lemma delegations_within_session_witness:
  "granted (rd_permissions (hd (cr_delegationTargets sample_request))) \<subseteq> granted (cr_resources sample_request)"
proof -
  have "cr_delegationTargets sample_request \<noteq> []"
    by code_simp
  then show ?thesis
    using delegations_within_session [OF sample_composes hd_in_set] by blast
qed

lemma manifestAbilitiesUnion_resources_witness:
  "is_ok (manifestAbilitiesUnion id sample_resolved)"
proof -
  have "is_ok (resourceCapabilitiesToAbilitiesMap id (r_resources sample_resolved))"
    by code_simp
  then show ?thesis
    by (simp add: manifestAbilitiesUnion_resources [OF sample_resolves])
qed

definition sample_resources :: "resource_capability list" where
  "sample_resources =
     [resource ''tinycloud.kv'' ''a'' ''x/'' [''tinycloud.kv/get''], resource ''tinycloud.sql'' ''b'' ''db'' [''tinycloud.sql/read''],
      resource ''tinycloud.kv'' ''a'' ''x/'' [''tinycloud.kv/put'', ''tinycloud.kv/get'']]"

lemma abilities_map_lookup_witness:
  "abilities_at (projr (resourceCapabilitiesToAbilitiesMap id sample_resources)) ''kv'' ''x/'' =
   Some [''tinycloud.kv/get'', ''tinycloud.kv/put'']"
proof -
  have "resourceCapabilitiesToAbilitiesMap id sample_resources =
      Inr (projr (resourceCapabilitiesToAbilitiesMap id sample_resources))"
    by code_simp
  from abilities_map_lookup [OF this, of "''kv''" "''x/''"] show ?thesis
    by code_simp
qed

lemma space_abilities_lookup_witness:
  "map_of (projr (resourceCapabilitiesToSpaceAbilitiesMap id sample_resources)) ''b'' =
   Some (projr (resourceCapabilitiesToAbilitiesMap id (filter (\<lambda>r. rc_space r = ''b'') sample_resources)))"
proof -
  have "resourceCapabilitiesToSpaceAbilitiesMap id sample_resources =
      Inr (projr (resourceCapabilitiesToSpaceAbilitiesMap id sample_resources))"
    by code_simp
  from space_abilities_lookup [OF this, of "''b''"] show ?thesis
    by (simp add: sample_resources_def)
qed

lemma entry_paths_under_prefix_witness:
  "\<exists>q. ''com.notes/todo'' = ''com.notes'' @ ''/'' @ q"
proof -
  have "resolveEntry sample_ms lower_evm (entry ''tinycloud.kv'' None ''todo'' [''get''] None) ''com.notes'' ''applications'' =
      Inr [resource ''tinycloud.kv'' ''applications'' ''com.notes/todo'' [''tinycloud.kv/get'']]"
    by code_simp
  from entry_paths_under_prefix [OF this, of "resource ''tinycloud.kv'' ''applications'' ''com.notes/todo'' [''tinycloud.kv/get'']"]
  show ?thesis
    by (simp add: service_constants)
qed

section \<open>Explicit entries and defaults\<close>

text \<open>The comment in \<open>resolveManifest\<close> says that explicit entries override the defaults for the
  same service, space and path. They do not: deduplication joins the actions. A manifest that
  asks for \<open>get\<close> alone on the default path, with prefix \<open>com.notes\<close>, resolves to a resource that
  keeps the default tier's \<open>del\<close>.\<close>

lemma explicit_entry_does_not_override:
  "(resource_key (resource ''tinycloud.kv'' ''applications'' ''com.notes/'' []), ''tinycloud.kv/del'')
     \<in> granted (r_resources sample_resolved)"
proof -
  have "list_ex (\<lambda>r. resource_key r = resource_key (resource ''tinycloud.kv'' ''applications'' ''com.notes/'' []) \<and>
      ''tinycloud.kv/del'' \<in> set (rc_actions r)) (r_resources sample_resolved)"
    by code_simp
  then obtain r where r: "r \<in> set (r_resources sample_resolved)"
    "resource_key r = resource_key (resource ''tinycloud.kv'' ''applications'' ''com.notes/'' [])"
    "''tinycloud.kv/del'' \<in> set (rc_actions r)"
    unfolding list_ex_iff by blast
  show ?thesis
    unfolding granted_def r(2) [symmetric] using r by blast
qed

end
