(* ===== verification/Capabilities.thy ===== *)
theory Capabilities
  imports ManifestTypes ManifestExpand
begin

text \<open>
  \<^verbatim>\<open>packages/sdk-core/src/capabilities.ts\<close>: is a requested set of permission entries
  covered by the granted one? This decides whether a delegation may be issued by the session
  key. The theory holds space normalisation, path and action containment, the equality of
  ReCap caveats, the subset check and the reading of a signed ReCap.

  The lemmas show that caveats are equal exactly when they are the same branches with
  multiplicity, that the check does not depend on how granted actions are grouped into
  entries, that explicit-only actions and named keys need a grant that names them, that outside
  encryption the check decides inclusion of accesses (defined without the code), and that it is
  transitive along a chain of delegations.
\<close>

section \<open>Spaces\<close>

definition normalizeSpace :: "string \<Rightarrow> string" where
  "normalizeSpace space =
     (if \<not> startsWith space ''tinycloud:'' then space
      else (case splitLast CHR '':'' space of
              None \<Rightarrow> space
            | Some (before, after) \<Rightarrow> if after = [] then space else after))"

section \<open>Caveats\<close>

datatype capability_error = CaveatsNotJson | RecapNotAnArray | RecapParser string

text \<open>The inner function of \<open>canonicalizeRecapCaveats\<close>. Objects of other prototypes, functions
  and symbols are not \<open>jsv\<close> values; the code throws on them as it does on undefined.\<close>

fun canonicalize :: "jsv \<Rightarrow> capability_error + ustring" where
  "canonicalize JUndefined = Inl CaveatsNotJson"
| "canonicalize JNull = Inr (ustr ''null'')"
| "canonicalize (JBool b) = Inr (if b then ustr ''true'' else ustr ''false'')"
| "canonicalize (JString s) = Inr (quote (ustr s))"
| "canonicalize (JNumber n) = (if finite_number n then Inr (ustr (number_text n)) else Inl CaveatsNotJson)"
| "canonicalize (JArray xs) =
     bindR (mapR canonicalize xs) (\<lambda>texts. Inr (0x5B # joinWith [0x2C] texts @ [0x5D]))"
| "canonicalize (JObject fs) =
     bindR (mapR (\<lambda>(k, v). bindR (canonicalize v) (\<lambda>t. Inr (ustr k, t))) fs) (\<lambda>texts.
       Inr (0x7B # joinWith [0x2C]
         (map (\<lambda>k. quote k @ 0x3A # (case map_of texts k of Some t \<Rightarrow> t | None \<Rightarrow> []))
           (sort_units (dedupe (map fst texts)))) @ [0x7D]))"

definition canonicalizeRecapCaveats :: "jsv list option \<Rightarrow> capability_error + ustring" where
  "canonicalizeRecapCaveats caveats =
     bindR (mapR canonicalize (case caveats of None \<Rightarrow> [] | Some cs \<Rightarrow> cs)) (\<lambda>texts.
       let branches = sort_units texts
       in if branches = [] \<or> (case branches of [b] \<Rightarrow> b = ustr ''{}'' | _ \<Rightarrow> False)
          then Inr (ustr ''[]'')
          else Inr (0x5B # joinWith [0x2C] branches @ [0x5D]))"

definition recapCaveatsEqual :: "jsv list option \<Rightarrow> jsv list option \<Rightarrow> capability_error + bool" where
  "recapCaveatsEqual left right =
     bindR (canonicalizeRecapCaveats left) (\<lambda>l.
     bindR (canonicalizeRecapCaveats right) (\<lambda>r. Inr (l = r)))"

section \<open>Actions and paths\<close>

definition EXPLICIT_ONLY_ACTIONS :: "string list" where
  "EXPLICIT_ONLY_ACTIONS = [''tinycloud.kv/sync'', ''tinycloud.kv/retain'']"

definition isExplicitOnlyAction :: "string \<Rightarrow> bool" where
  "isExplicitOnlyAction action \<longleftrightarrow> action \<in> set EXPLICIT_ONLY_ACTIONS"

definition actionContains :: "string \<Rightarrow> string \<Rightarrow> bool" where
  "actionContains grantedAction requestedAction =
     (if grantedAction = requestedAction then True
      else if isExplicitOnlyAction requestedAction then False
      else if grantedAction = ''*'' then True
      else if \<not> endsWith grantedAction ''/*'' then False
      else let service = dropEnd 2 grantedAction
           in requestedAction = service \<or> startsWith requestedAction (service @ ''/''))"

definition pathContains :: "string \<Rightarrow> string \<Rightarrow> bool" where
  "pathContains grantedPath requestedPath =
     (if grantedPath = '''' \<or> grantedPath = ''/'' then True
      else if endsWith grantedPath ''/'' then startsWith requestedPath grantedPath
      else requestedPath = grantedPath)"

section \<open>The subset check\<close>

record subset_check_result =
  sc_subset :: bool
  sc_missing :: "permission_entry list"

definition entry_space :: "permission_entry \<Rightarrow> string" where
  "entry_space e = (case pe_space e of None \<Rightarrow> DEFAULT_MANIFEST_SPACE | Some s \<Rightarrow> s)"

text \<open>The condition \<open>namedKeyRequest\<close> of both functions below.\<close>

definition namedKeyRequest :: "permission_entry \<Rightarrow> bool" where
  "namedKeyRequest req \<longleftrightarrow>
     pe_service req = ''tinycloud.encryption'' \<and>
     startsWith (pe_path req) ''urn:tinycloud:encryption:'' \<and> hasChar (pe_path req) CHR ''/''"

definition canonicalizeEntryScopeMatches ::
    "evm_lib \<Rightarrow> permission_entry \<Rightarrow> permission_entry \<Rightarrow> capability_error + bool" where
  "canonicalizeEntryScopeMatches ev requested granted =
     (if pe_service requested \<noteq> pe_service granted then Inr False
      else if normalizeSpace (entry_space requested) \<noteq> normalizeSpace (entry_space granted) then Inr False
      else let coveredPath = (if namedKeyRequest requested
                              then encryptionResourceContains ev (pe_path granted) (pe_path requested)
                              else pathContains (pe_path granted) (pe_path requested))
      in if \<not> coveredPath then Inr False
      else bindR (recapCaveatsEqual (pe_caveats requested) (pe_caveats granted)) (\<lambda>same.
        if \<not> same then Inr False else Inr True))"

definition cloneEntry :: "permission_entry \<Rightarrow> permission_entry" where
  "cloneEntry e = e\<lparr>pe_caveats := map_option (map json_clone) (pe_caveats e), pe_description := None\<rparr>"

definition entry_actions :: "permission_entry \<Rightarrow> string list" where
  "entry_actions e = expandActionShortNames (pe_service e) (pe_actions e)"

text \<open>The body of the loop: is one requested entry covered?\<close>

definition entry_covered ::
    "evm_lib \<Rightarrow> permission_entry list \<Rightarrow> permission_entry \<Rightarrow> capability_error + bool" where
  "entry_covered ev granted req =
     bindR (filterR (canonicalizeEntryScopeMatches ev req) granted) (\<lambda>matchingScope.
       let requestedActions = entry_actions req;
           grantedActions = concat (map entry_actions matchingScope)
       in Inr (list_all (\<lambda>requestedAction. list_ex (\<lambda>grantedAction.
            if namedKeyRequest req then grantedAction = requestedAction
            else actionContains grantedAction requestedAction) grantedActions) requestedActions))"

definition isCapabilitySubset ::
    "evm_lib \<Rightarrow> permission_entry list \<Rightarrow> permission_entry list \<Rightarrow> capability_error + subset_check_result" where
  "isCapabilitySubset ev requested granted =
     bindR (filterR (\<lambda>req. bindR (entry_covered ev granted req) (\<lambda>covered. Inr (\<not> covered))) requested)
       (\<lambda>uncovered. let missing = map cloneEntry uncovered
                    in Inr \<lparr>sc_subset = (missing = []), sc_missing = missing\<rparr>)"

section \<open>Reading a signed ReCap\<close>

text \<open>\<open>parseWasm\<close> is the export of the WASM module: it throws, returns something that is not an
  array (\<open>None\<close>), or entries whose service is the short name. Short names are compared with
  the keys of \<open>SERVICE_SHORT_TO_LONG\<close>; the names of members of \<open>Object.prototype\<close>, which that
  plain object would also find, are no service names and are left out.\<close>

record wasm_recap_entry =
  we_service :: string
  we_space :: string
  we_path :: string
  we_actions :: "string list"
  we_caveats :: "jsv list option"

type_synonym parse_recap = "string \<Rightarrow> string + wasm_recap_entry list option"

definition normalize_recap_entry :: "wasm_recap_entry \<Rightarrow> permission_entry" where
  "normalize_recap_entry e =
     (let longService = (case map_of SERVICE_SHORT_TO_LONG (we_service e) of
            Some l \<Rightarrow> l
          | None \<Rightarrow> if startsWith (we_service e) ''tinycloud.'' then we_service e
                    else ''tinycloud.'' @ we_service e)
      in (entry longService (Some (normalizeSpace (we_space e))) (we_path e) (we_actions e) None)
           \<lparr>pe_caveats := map_option (map json_clone) (we_caveats e)\<rparr>)"

definition compare_entries :: "permission_entry \<Rightarrow> permission_entry \<Rightarrow> int" where
  "compare_entries a b =
     (let aSpace = entry_space a; bSpace = entry_space b
      in if aSpace \<noteq> bSpace then (if aSpace < bSpace then - 1 else 1)
         else if pe_service a \<noteq> pe_service b then (if pe_service a < pe_service b then - 1 else 1)
         else if pe_path a \<noteq> pe_path b then (if pe_path a < pe_path b then - 1 else 1)
         else 0)"

definition parseRecapCapabilities ::
    "parse_recap \<Rightarrow> string \<Rightarrow> capability_error + permission_entry list" where
  "parseRecapCapabilities parseWasm siwe =
     (case parseWasm siwe of
        Inl e \<Rightarrow> Inl (RecapParser e)
      | Inr None \<Rightarrow> Inl RecapNotAnArray
      | Inr (Some raw) \<Rightarrow> Inr (sort_by compare_entries (map normalize_recap_entry raw)))"

section \<open>Caveats as sets of branches\<close>

text \<open>The JSON value a caveat is, and when it is one.\<close>

fun json_value :: "jsv \<Rightarrow> bool" where
  "json_value JUndefined = False"
| "json_value (JNumber n) = finite_number n"
| "json_value (JArray xs) = list_all json_value xs"
| "json_value (JObject fs) = list_all (\<lambda>(k, v). json_value v) fs"
| "json_value _ = True"

fun json_of :: "jsv \<Rightarrow> json" where
  "json_of JUndefined = NullJ"
| "json_of JNull = NullJ"
| "json_of (JBool b) = BoolJ b"
| "json_of (JNumber n) = NumJ n"
| "json_of (JString s) = StrJ (ustr s)"
| "json_of (JArray xs) = ArrJ (map json_of xs)"
| "json_of (JObject fs) = ObjJ (map (\<lambda>(k, v). (ustr k, json_of v)) fs)"

lemma json_value_finite: "json_value v \<Longrightarrow> json_finite (json_of v)"
  by (induction v rule: json_of.induct) (auto simp: list_all_iff)

lemma mapR_one_error:
  "(\<And>x. x \<in> set xs \<Longrightarrow> f x = (if p x then Inr (g x) else Inl e)) \<Longrightarrow>
   mapR f xs = (if list_all p xs then Inr (map g xs) else Inl e)"
  by (induction xs) auto

lemma canonicalize_serialize:
  "canonicalize v = (if json_value v then Inr (serialize (json_of v)) else Inl CaveatsNotJson)"
proof (induction v rule: canonicalize.induct)
  case (6 xs)
  have "mapR canonicalize xs =
      (if list_all json_value xs then Inr (map (\<lambda>v. serialize (json_of v)) xs) else Inl CaveatsNotJson)"
    by (rule mapR_one_error) (use 6 in blast)
  then show ?case by (simp add: comp_def)
next
  case (7 fs)
  have items: "mapR (\<lambda>(k, v). bindR (canonicalize v) (\<lambda>t. Inr (ustr k, t))) fs =
      (if list_all (\<lambda>(k, v). json_value v) fs
       then Inr (map (\<lambda>(k, v). (ustr k, serialize (json_of v))) fs) else Inl CaveatsNotJson)"
    by (rule mapR_one_error) (use 7 in \<open>auto split: prod.splits\<close>)
  have texts: "map (\<lambda>(k, v). (k, serialize v)) (map (\<lambda>(k, v). (ustr k, json_of v)) fs)
        = map (\<lambda>(k, v). (ustr k, serialize (json_of v))) fs"
    by (simp add: split_def comp_def)
  show ?case
    unfolding canonicalize.simps json_of.simps serialize.simps Let_def json_value.simps texts items
    by simp
qed auto

definition caveat_list :: "jsv list option \<Rightarrow> jsv list" where
  "caveat_list caveats = (case caveats of None \<Rightarrow> [] | Some cs \<Rightarrow> cs)"

text \<open>The branches of a caveat set with multiplicity, up to the order of keys; one empty
  branch, no branch and no caveats are the same.\<close>

definition branches :: "jsv list option \<Rightarrow> canon multiset" where
  "branches caveats =
     (let cs = map (\<lambda>v. canon_of (json_of v)) (caveat_list caveats)
      in if cs = [ObjC []] then {#} else mset cs)"

definition unconstrained_none :: "ustring list \<Rightarrow> ustring list" where
  "unconstrained_none ts = (if ts = [ustr ''{}''] then [] else ts)"

lemma canonicalizeRecapCaveats_eq:
  "canonicalizeRecapCaveats caveats =
     (if list_all json_value (caveat_list caveats)
      then Inr (0x5B # joinWith [0x2C] (unconstrained_none (sort
             (map (\<lambda>v. text_of (canon_of (json_of v))) (caveat_list caveats)))) @ [0x5D])
      else Inl CaveatsNotJson)"
proof -
  have c: "mapR canonicalize (caveat_list caveats) =
      (if list_all json_value (caveat_list caveats)
       then Inr (map (\<lambda>v. text_of (canon_of (json_of v))) (caveat_list caveats)) else Inl CaveatsNotJson)"
    by (rule mapR_one_error) (simp add: canonicalize_serialize serialize_text)
  have u: "ustr ''[]'' = [0x5B, 0x5D]" by (simp add: ustr_def unit_of_def)
  show ?thesis
    unfolding canonicalizeRecapCaveats_def caveat_list_def [symmetric] c
    by (auto simp: Let_def sort_units_eq unconstrained_none_def u split: list.split)
qed

text \<open>The text of a list of branches determines the branches.\<close>

lemma text_of_inject: "canon_ok a \<Longrightarrow> canon_ok b \<Longrightarrow> text_of a = text_of b \<longleftrightarrow> a = b"
proof
  assume ok: "canon_ok a" "canon_ok b" and "text_of a = text_of b"
  then have "text_of a @ [] = text_of b @ []" by simp
  from decodesD [OF text_decodes this] ok show "a = b" by simp
qed simp

lemma text_of_list_inject:
  assumes "list_all canon_ok as" and "list_all canon_ok bs"
    and "joinWith [0x2C] (map text_of as) @ [0x5D] = joinWith [0x2C] (map text_of bs) @ [0x5D]"
  shows "as = bs"
proof -
  have "text_of (ArrC as) @ [] = text_of (ArrC bs) @ []"
    using assms(3) by simp
  from decodesD [OF text_decodes this] assms(1,2) show ?thesis by simp
qed

lemma texts_inject:
  assumes "set ts \<subseteq> text_of ` Collect canon_ok" and "set us \<subseteq> text_of ` Collect canon_ok"
    and "joinWith [0x2C] ts @ [0x5D] = joinWith [0x2C] us @ [0x5D]"
  shows "ts = us"
proof -
  have "\<exists>cs. xs = map text_of cs \<and> list_all canon_ok cs" if "set xs \<subseteq> text_of ` Collect canon_ok" for xs
    using that
  proof (induction xs)
    case (Cons x xs)
    then obtain c cs where "x # xs = map text_of (c # cs)" "list_all canon_ok (c # cs)" by auto
    then show ?case by (intro exI [of _ "c # cs"] conjI)
  qed simp
  then obtain as bs where "ts = map text_of as" "list_all canon_ok as" "us = map text_of bs" "list_all canon_ok bs"
    using assms(1,2) by metis
  with text_of_list_inject assms(3) show ?thesis by metis
qed

definition branch_texts :: "jsv list option \<Rightarrow> ustring list" where
  "branch_texts caveats = map (\<lambda>v. text_of (canon_of (json_of v))) (caveat_list caveats)"

lemma empty_object_text: "canon_ok c \<Longrightarrow> text_of c = ustr ''{}'' \<longleftrightarrow> c = ObjC []"
proof -
  have "ustr ''{}'' = text_of (ObjC [])" by (simp add: ustr_def unit_of_def)
  then show "canon_ok c \<Longrightarrow> text_of c = ustr ''{}'' \<longleftrightarrow> c = ObjC []"
    by (simp only: text_of_inject canon_ok.simps list.pred_inject)
qed

lemma sort_singleton: "sort xs = [x] \<longleftrightarrow> xs = [x]" for x :: "'a :: linorder"
  by (metis insort_key.simps(1) mset_single_iff_right mset_sort sort_key_simps)

lemma branches_texts:
  assumes "list_all json_value (caveat_list c)"
  shows "mset (unconstrained_none (sort (branch_texts c))) = image_mset text_of (branches c)"
    and "\<forall>x \<in># branches c. canon_ok x"
    and "set (unconstrained_none (sort (branch_texts c))) \<subseteq> text_of ` Collect canon_ok"
proof -
  define cs where "cs = map (\<lambda>v. canon_of (json_of v)) (caveat_list c)"
  have ok: "\<forall>x \<in> set cs. canon_ok x"
    using assms by (auto simp: cs_def list_all_iff canon_ok_of json_value_finite)
  have t: "branch_texts c = map text_of cs" and b: "branches c = (if cs = [ObjC []] then {#} else mset cs)"
    by (simp_all add: branch_texts_def branches_def cs_def)
  have "map text_of cs = [ustr ''{}''] \<longleftrightarrow> cs = [ObjC []]"
    using ok by (cases cs) (auto simp: empty_object_text simp del: text_of.simps)
  then show "mset (unconstrained_none (sort (branch_texts c))) = image_mset text_of (branches c)"
    unfolding unconstrained_none_def sort_singleton t b by simp
  show "\<forall>x \<in># branches c. canon_ok x"
    using ok by (simp add: b)
  show "set (unconstrained_none (sort (branch_texts c))) \<subseteq> text_of ` Collect canon_ok"
    using ok by (auto simp: unconstrained_none_def t)
qed

lemma sorted_mset_unique: "sorted xs \<Longrightarrow> sorted ys \<Longrightarrow> mset xs = mset ys \<Longrightarrow> xs = ys" for xs :: "'a :: linorder list"
  by (metis properties_for_sort)

lemma sorted_unconstrained: "sorted (unconstrained_none (sort ts))"
  by (simp add: unconstrained_none_def)

lemma image_mset_inject:
  assumes "inj_on f (set_mset A \<union> set_mset B)" and "image_mset f A = image_mset f B"
  shows "A = B"
proof -
  let ?g = "the_inv_into (set_mset A \<union> set_mset B) f"
  have "image_mset ?g (image_mset f C) = C" if "set_mset C \<subseteq> set_mset A \<union> set_mset B" for C
  proof -
    have "(?g \<circ> f) x = x" if "x \<in># C" for x
      using the_inv_into_f_f [OF assms(1)] that \<open>set_mset C \<subseteq> _\<close> by auto
    then show ?thesis
      unfolding multiset.map_comp by (rule multiset.map_ident_strong)
  qed
  then show ?thesis using assms(2) by (metis Un_upper1 Un_upper2)
qed

lemma caveats_equal_iff:
  "recapCaveatsEqual left right =
     (if list_all json_value (caveat_list left) \<and> list_all json_value (caveat_list right)
      then Inr (branches left = branches right) else Inl CaveatsNotJson)"
proof (cases "list_all json_value (caveat_list left) \<and> list_all json_value (caveat_list right)")
  case True
  let ?t = "\<lambda>c. unconstrained_none (sort (branch_texts c))"
  have "joinWith [0x2C] (?t left) @ [0x5D] = joinWith [0x2C] (?t right) @ [0x5D] \<longleftrightarrow> ?t left = ?t right"
    by (rule iffI [OF texts_inject [OF branches_texts(3) branches_texts(3)] arg_cong]) (use True in simp_all)
  also have "\<dots> \<longleftrightarrow> mset (?t left) = mset (?t right)"
    by (auto intro: sorted_mset_unique [OF sorted_unconstrained sorted_unconstrained])
  also have "\<dots> \<longleftrightarrow> image_mset text_of (branches left) = image_mset text_of (branches right)"
    using True by (simp add: branches_texts(1))
  also have "\<dots> \<longleftrightarrow> branches left = branches right"
    using branches_texts(2) True
    by (auto intro!: image_mset_inject [of text_of] inj_onI simp: text_of_inject)
  finally show ?thesis
    using True by (simp add: recapCaveatsEqual_def canonicalizeRecapCaveats_eq branch_texts_def)
next
  case False
  then show ?thesis
    by (auto simp: recapCaveatsEqual_def canonicalizeRecapCaveats_eq)
qed

text \<open>Two caveat sets are equal for the subset check exactly when they have the same branches
  with the same multiplicity, up to the order of branches and of object keys, where one empty
  branch counts as no branch; a caveat that is not JSON makes the comparison throw.\<close>

theorem recapCaveatsEqual_branches:
  "recapCaveatsEqual left right =
     (if list_all json_value (caveat_list left @ caveat_list right)
      then Inr (branches left = branches right) else Inl CaveatsNotJson)"
  using caveats_equal_iff [of left right] by simp

section \<open>Containment\<close>

lemma pathContains_iff:
  "pathContains g r \<longleftrightarrow> g = [] \<or> g = ''/'' \<or> r = g \<or> endsWith g ''/'' \<and> startsWith r g"
  by (auto simp: pathContains_def)

interpretation paths: containment pathContains "\<lambda>_. True"
proof unfold_locales
  fix a b c
  assume ab: "pathContains a b" and bc: "pathContains b c"
  consider "b = []" | "b = ''/''" | "c = b" | "endsWith b ''/''" "startsWith c b"
    using bc by (auto simp: pathContains_iff)
  then show "pathContains a c"
  proof cases
    case 1
    then show ?thesis using ab by (auto simp: pathContains_iff endsWith_iff)
  next
    case 2
    then have "a = [] \<or> a = ''/''"
      using ab by (auto simp: pathContains_iff endsWith_iff prefix_Cons)
    then show ?thesis by (auto simp: pathContains_iff)
  next
    case 3
    then show ?thesis using ab by simp
  next
    case 4
    then show ?thesis
      using ab prefix_order.trans by (auto simp: pathContains_iff)
  qed
qed (simp add: pathContains_iff)

interpretation key_resources: containment "encryptionResourceContains ev" "\<lambda>r. is_ok (parseEncryptionResource ev r)"
  for ev
proof unfold_locales
  fix a b c
  assume "encryptionResourceContains ev a b" "encryptionResourceContains ev b c"
  then show "encryptionResourceContains ev a c"
    by (auto simp: encryptionResourceContains_def resource_covers_iff split: sum.splits)
qed (auto simp: encryptionResourceContains_def resource_covers_iff is_ok_iff)

text \<open>A pattern whose star, if there is one, is its last character.\<close>

definition plain_pattern :: "string \<Rightarrow> bool" where
  "plain_pattern a \<longleftrightarrow> CHR ''*'' \<notin> set (dropEnd 1 a)"

lemma actionContains_iff:
  "actionContains g r \<longleftrightarrow> g = r \<or> \<not> isExplicitOnlyAction r \<and>
     (g = ''*'' \<or> (\<exists>s. g = s @ ''/*'' \<and> (r = s \<or> startsWith r (s @ ''/''))))"
  by (auto simp: actionContains_def Let_def endsWith_iff)

lemma plain_service: "plain_pattern (s @ ''/*'') \<Longrightarrow> CHR ''*'' \<notin> set s"
  using dropEnd_append [of "''*''" 1 "s @ ''/''"] by (simp add: plain_pattern_def)

lemma actionContains_trans:
  assumes "plain_pattern a" and ab: "actionContains a b" and bc: "actionContains b c"
  shows "actionContains a c"
proof (cases "a = b \<or> b = c")
  case True
  then show ?thesis using ab bc by auto
next
  case False
  then have c: "\<not> isExplicitOnlyAction c" using bc by (auto simp: actionContains_iff)
  show ?thesis
  proof (cases "a = ''*''")
    case True
    then show ?thesis using c by (simp add: actionContains_iff)
  next
    case False
    then obtain s where s: "a = s @ ''/*''" "b = s \<or> startsWith b (s @ ''/'')"
      using ab \<open>\<not> (a = b \<or> b = c)\<close> by (auto simp: actionContains_iff)
    have star: "CHR ''*'' \<notin> set s"
      using plain_service assms(1) s(1) by blast
    then have "b \<noteq> ''*''" using s(2) by (auto simp: prefix_Cons)
    then obtain t where t: "b = t @ ''/*''" "c = t \<or> startsWith c (t @ ''/'')"
      using bc \<open>\<not> (a = b \<or> b = c)\<close> by (auto simp: actionContains_iff)
    have "startsWith b (s @ ''/'')" using s(2) t(1) star by auto
    then have "startsWith (t @ ''/'') (s @ ''/'')"
      using prefix_snoc [of "s @ ''/''" "t @ ''/''" "CHR ''*''"] by (simp add: t(1))
    then have "c = s \<or> startsWith c (s @ ''/'')"
      using t(2) prefix_order.trans [of "s @ ''/''" "t @ ''/''" c] by auto
    then show ?thesis using c s(1) by (auto simp: actionContains_iff)
  qed
qed

interpretation patterns: containment "\<lambda>a b. plain_pattern a \<and> actionContains a b" plain_pattern
proof unfold_locales
  fix a b c
  assume "plain_pattern a \<and> actionContains a b" "plain_pattern b \<and> actionContains b c"
  then show "plain_pattern a \<and> actionContains a c"
    using actionContains_trans by blast
qed (simp add: actionContains_iff)

section \<open>The subset check\<close>

definition action_granted :: "permission_entry \<Rightarrow> string \<Rightarrow> string \<Rightarrow> bool" where
  "action_granted req g a \<longleftrightarrow> (if namedKeyRequest req then g = a else actionContains g a)"

text \<open>What the granted entries authorise, one action at a time.\<close>

definition authorised :: "evm_lib \<Rightarrow> permission_entry list \<Rightarrow> permission_entry \<Rightarrow> string \<Rightarrow> bool" where
  "authorised ev granted req a \<longleftrightarrow>
     list_ex (\<lambda>e. canonicalizeEntryScopeMatches ev req e = Inr True \<and>
                  list_ex (\<lambda>g. action_granted req g a) (entry_actions e)) granted"

lemma authorised_iff:
  "authorised ev granted req a \<longleftrightarrow>
     (\<exists>e \<in> set granted. canonicalizeEntryScopeMatches ev req e = Inr True \<and>
        (\<exists>g \<in> set (entry_actions e). action_granted req g a))"
  by (auto simp: authorised_def list_ex_iff)

lemma entry_covered_iff:
  "entry_covered ev granted req = Inr b \<longleftrightarrow>
     (\<forall>e \<in> set granted. is_ok (canonicalizeEntryScopeMatches ev req e)) \<and>
     b = list_all (authorised ev granted req) (entry_actions req)"
proof -
  let ?m = "filter (\<lambda>e. canonicalizeEntryScopeMatches ev req e = Inr True) granted"
  have "list_ex (\<lambda>g. if namedKeyRequest req then g = a else actionContains g a) (concat (map entry_actions ?m))
      \<longleftrightarrow> authorised ev granted req a" for a
    by (auto simp: authorised_iff action_granted_def list_ex_iff)
  then show ?thesis
    unfolding entry_covered_def bindR_Inr_iff filterR_Inr_iff Let_def by auto
qed

lemma subset_result_iff:
  "isCapabilitySubset ev requested granted = Inr res \<longleftrightarrow>
     (\<forall>r \<in> set requested. \<forall>e \<in> set granted. is_ok (canonicalizeEntryScopeMatches ev r e)) \<and>
     res = (let missing = map cloneEntry (filter (\<lambda>r. \<not> list_all (authorised ev granted r) (entry_actions r)) requested)
            in \<lparr>sc_subset = (missing = []), sc_missing = missing\<rparr>)"
proof -
  let ?f = "\<lambda>req. bindR (entry_covered ev granted req) (\<lambda>covered. Inr (\<not> covered))"
  have ok: "is_ok (?f r) \<longleftrightarrow> (\<forall>e \<in> set granted. is_ok (canonicalizeEntryScopeMatches ev r e))" for r
    by (auto simp: is_ok_iff [of "?f r"] bindR_Inr_iff entry_covered_iff)
  have unc: "?f r = Inr True \<longleftrightarrow> (\<forall>e \<in> set granted. is_ok (canonicalizeEntryScopeMatches ev r e)) \<and>
      \<not> list_all (authorised ev granted r) (entry_actions r)" for r
    by (auto simp: bindR_Inr_iff entry_covered_iff)
  have "filter (\<lambda>r. ?f r = Inr True) requested =
      filter (\<lambda>r. \<not> list_all (authorised ev granted r) (entry_actions r)) requested"
    if "\<forall>r \<in> set requested. \<forall>e \<in> set granted. is_ok (canonicalizeEntryScopeMatches ev r e)"
    using that by (intro filter_cong) (auto simp: unc)
  then show ?thesis
    unfolding isCapabilitySubset_def bindR_Inr_iff filterR_Inr_iff ok by (auto simp: Let_def)
qed

lemma subset_iff:
  assumes "isCapabilitySubset ev requested granted = Inr res"
  shows "sc_subset res \<longleftrightarrow> (\<forall>r \<in> set requested. list_all (authorised ev granted r) (entry_actions r))"
  using assms by (auto simp: subset_result_iff Let_def filter_empty_conv)

lemma scope_matches_iff:
  "canonicalizeEntryScopeMatches ev r g = Inr True \<longleftrightarrow>
     pe_service r = pe_service g \<and> normalizeSpace (entry_space r) = normalizeSpace (entry_space g) \<and>
     (if namedKeyRequest r then encryptionResourceContains ev (pe_path g) (pe_path r)
      else pathContains (pe_path g) (pe_path r)) \<and>
     recapCaveatsEqual (pe_caveats r) (pe_caveats g) = Inr True"
  by (auto simp: canonicalizeEntryScopeMatches_def Let_def bindR_Inr_iff split: if_splits)

text \<open>One entry per granted action, the form a signed ReCap is read back in.\<close>

definition explode :: "permission_entry list \<Rightarrow> permission_entry list" where
  "explode es = concat (map (\<lambda>e. map (\<lambda>a. e\<lparr>pe_actions := [a]\<rparr>) (pe_actions e)) es)"

lemma scope_ignores_actions [simp]:
  "canonicalizeEntryScopeMatches ev r (e\<lparr>pe_actions := as\<rparr>) = canonicalizeEntryScopeMatches ev r e"
  by (simp add: canonicalizeEntryScopeMatches_def entry_space_def)

lemma explode_authorised: "authorised ev (explode es) = authorised ev es"
proof -
  have "(\<exists>x \<in> set (pe_actions e). \<exists>g \<in> set (entry_actions (e\<lparr>pe_actions := [x]\<rparr>)). P g)
      \<longleftrightarrow> (\<exists>g \<in> set (entry_actions e). P g)" for e P
    by (auto simp: entry_actions_def expandActionShortNames_def)
  then show ?thesis
    by (intro ext) (auto simp: authorised_iff explode_def)
qed

lemma explode_scope:
  "\<forall>e \<in> set es. P (canonicalizeEntryScopeMatches ev r e) \<Longrightarrow>
   \<forall>e \<in> set (explode es). P (canonicalizeEntryScopeMatches ev r e)"
  unfolding explode_def by fastforce

text \<open>The subset check does not depend on how the granted actions are grouped: splitting
  every granted entry into one entry per action changes neither the verdict nor the missing
  entries.\<close>

theorem isCapabilitySubset_regrouped:
  assumes "isCapabilitySubset ev requested granted = Inr res"
  shows "isCapabilitySubset ev requested (explode granted) = Inr res"
  using assms explode_scope [of granted is_ok ev] by (simp add: subset_result_iff explode_authorised)

lemma clone_missing_subset: "isCapabilitySubset ev rs gs = Inr res \<Longrightarrow> sc_subset res = (sc_missing res = [])"
  by (auto simp: subset_result_iff Let_def)

text \<open>What an entry grants, read off without the check. The space of an entry counts by its name:
  the last segment of a \<^verbatim>\<open>tinycloud:\<close> URI, any other text as it stands (so, other than the comment
  of \<^verbatim>\<open>isCapabilitySubset\<close> says, not exactly). An action pattern permits the action it names; a star or the
  star of a service permits more, but never one of the two actions that have to be named. A path
  reaches itself, everything below it when it ends with a slash, and everything when it is empty
  or the slash.\<close>

inductive space_named :: "string \<Rightarrow> string \<Rightarrow> bool" where
  short: "\<not> startsWith s ''tinycloud:'' \<Longrightarrow> space_named s s"
| uri: "startsWith (owner @ '':'') ''tinycloud:'' \<Longrightarrow> n \<noteq> [] \<Longrightarrow> CHR '':'' \<notin> set n \<Longrightarrow> space_named (owner @ '':'' @ n) n"
| unnamed: "startsWith (owner @ '':'') ''tinycloud:'' \<Longrightarrow> space_named (owner @ '':'') (owner @ '':'')"

inductive action_permits :: "string \<Rightarrow> string \<Rightarrow> bool" where
  named: "action_permits a a"
| any: "a \<notin> {''tinycloud.kv/sync'', ''tinycloud.kv/retain''} \<Longrightarrow> action_permits ''*'' a"
| whole: "service \<notin> {''tinycloud.kv/sync'', ''tinycloud.kv/retain''} \<Longrightarrow> action_permits (service @ ''/*'') service"
| within: "service @ ''/'' @ x \<notin> {''tinycloud.kv/sync'', ''tinycloud.kv/retain''} \<Longrightarrow>
    action_permits (service @ ''/*'') (service @ ''/'' @ x)"

inductive path_reaches :: "string \<Rightarrow> string \<Rightarrow> bool" where
  itself: "path_reaches p p"
| below: "path_reaches (d @ ''/'') (d @ ''/'' @ x)"
| everything: "g \<in> {'''', ''/''} \<Longrightarrow> path_reaches g p"

text \<open>An access: service, name of the space, path, action, and the caveat branches it is under.\<close>

type_synonym recap_access = "string \<times> string \<times> string \<times> string \<times> canon multiset"

definition entry_accesses :: "permission_entry \<Rightarrow> recap_access set" where
  "entry_accesses e =
     {(pe_service e, n, p, a, branches (pe_caveats e)) | n p a.
        space_named (entry_space e) n \<and> path_reaches (pe_path e) p \<and> (\<exists>g \<in> set (entry_actions e). action_permits g a)}"

lemma space_named_iff: "space_named s n \<longleftrightarrow> n = normalizeSpace s"
proof
  assume "space_named s n"
  then show "n = normalizeSpace s"
  proof cases
    case (uri owner)
    then have "splitLast CHR '':'' s = Some (owner, n)" by (simp add: splitLast_Some_iff)
    moreover have "startsWith s ''tinycloud:''" using uri prefix_order.trans [of "''tinycloud:''" "owner @ '':''" s] by simp
    ultimately show ?thesis using uri by (simp add: normalizeSpace_def)
  next
    case (unnamed owner)
    then have "splitLast CHR '':'' s = Some (owner, [])" by (simp add: splitLast_Some_iff)
    then show ?thesis using unnamed by (simp add: normalizeSpace_def)
  qed (simp add: normalizeSpace_def)
next
  have "space_named s (normalizeSpace s)"
  proof (cases "startsWith s ''tinycloud:''")
    case True
    then obtain r where r: "s = ''tinycloud'' @ '':'' @ r" by (auto simp: prefix_def)
    then have "CHR '':'' \<in> set s" by simp
    then obtain u v where sp: "splitLast CHR '':'' s = Some (u, v)" by (cases "splitLast CHR '':'' s") (auto simp: splitLast_None_iff)
    then have uv: "s = u @ '':'' @ v" "CHR '':'' \<notin> set v" by (auto simp: splitLast_Some_iff)
    have "startsWith (u @ '':'') ''tinycloud:''"
    proof (rule ccontr)
      assume "\<not> startsWith (u @ '':'') ''tinycloud:''"
      moreover have "startsWith ((u @ '':'') @ v) ''tinycloud:''" using True uv(1) by simp
      ultimately obtain us where us: "''tinycloud:'' = (u @ '':'') @ us" "prefix us v" unfolding prefix_append by blast
      then have "us \<noteq> []" using \<open>\<not> startsWith _ _\<close> by auto
      then have "last us = CHR '':''" using us(1) by (metis last_appendR last.simps list.distinct(1))
      then show False using us(2) uv(2) \<open>us \<noteq> []\<close> by (metis last_in_set set_mono_prefix subsetD)
    qed
    then show ?thesis
      using True sp uv space_named.uri [of u v] space_named.unnamed [of u] by (auto simp: normalizeSpace_def)
  qed (simp add: normalizeSpace_def space_named.short)
  then show "n = normalizeSpace s \<Longrightarrow> space_named s n" by simp
qed

lemma action_permits_iff: "action_permits g a \<longleftrightarrow> actionContains g a"
  unfolding actionContains_iff isExplicitOnlyAction_def EXPLICIT_ONLY_ACTIONS_def
  by (auto simp: action_permits.simps prefix_def)

lemma path_reaches_iff: "path_reaches g p \<longleftrightarrow> pathContains g p"
  unfolding pathContains_iff by (auto simp: path_reaches.simps prefix_def endsWith_iff)

lemmas access_iffs = space_named_iff action_permits_iff path_reaches_iff

text \<open>C35: when a request passes the subset check, an action that no wildcard covers (kv/sync,
  kv/retain) and every action on a named encryption key is granted by name, by an entry of the
  same service for a space of the same name. (The owner of a space URI is not compared.)\<close>

theorem explicit_actions_named:
  assumes "isCapabilitySubset ev requested granted = Inr res" and "sc_subset res"
    and "r \<in> set requested" and "a \<in> set (entry_actions r)"
    and "a \<in> {''tinycloud.kv/sync'', ''tinycloud.kv/retain''} \<or> namedKeyRequest r"
  shows "\<exists>g \<in> set granted. pe_service g = pe_service r \<and> a \<in> set (entry_actions g) \<and>
    (\<exists>n. space_named (entry_space g) n \<and> space_named (entry_space r) n)"
proof -
  have "authorised ev granted r a"
    using assms(2-4) subset_iff [OF assms(1)] by (auto simp: list_all_iff)
  moreover have "isExplicitOnlyAction a \<or> namedKeyRequest r"
    using assms(5) by (auto simp: isExplicitOnlyAction_def EXPLICIT_ONLY_ACTIONS_def)
  ultimately show ?thesis
    by (auto simp: authorised_iff scope_matches_iff action_granted_def actionContains_iff space_named_iff
        split: if_split_asm)
qed

lemma caveats_chain:
  "recapCaveatsEqual y z = Inr True \<Longrightarrow> recapCaveatsEqual x y = Inr True \<Longrightarrow> recapCaveatsEqual x z = Inr True"
  by (simp add: caveats_equal_iff split: if_split_asm)

lemma scope_chain:
  "canonicalizeEntryScopeMatches ev b a = Inr True \<Longrightarrow> canonicalizeEntryScopeMatches ev c b = Inr True \<Longrightarrow>
   \<not> namedKeyRequest b \<Longrightarrow> \<not> namedKeyRequest c \<Longrightarrow> canonicalizeEntryScopeMatches ev c a = Inr True"
  unfolding scope_matches_iff using paths.contains_trans caveats_chain by simp blast

text \<open>Delegation chains: what the second delegatee gets within the first delegatee's
  capabilities is within the root's, for services other than encryption and root patterns
  whose star is last.\<close>

theorem capability_chain:
  assumes "isCapabilitySubset ev cs bs = Inr rc" and "sc_subset rc"
    and "isCapabilitySubset ev bs as = Inr rb" and "sc_subset rb"
    and "isCapabilitySubset ev cs as = Inr ra"
    and "list_all (\<lambda>c. pe_service c \<noteq> ''tinycloud.encryption'') cs"
    and "list_all (\<lambda>e. list_all plain_pattern (entry_actions e)) as"
  shows "sc_subset ra"
proof -
  have "authorised ev as c x" if c: "c \<in> set cs" and x: "x \<in> set (entry_actions c)" for c x
  proof -
    have svc: "pe_service c \<noteq> ''tinycloud.encryption''" using assms(6) c by (simp add: list_all_iff)
    obtain b y where b: "b \<in> set bs" "canonicalizeEntryScopeMatches ev c b = Inr True"
        "y \<in> set (entry_actions b)" "actionContains y x"
      using subset_iff [OF assms(1)] assms(2) c x svc
      by (fastforce simp: list_all_iff authorised_iff action_granted_def namedKeyRequest_def)
    have svcb: "pe_service b \<noteq> ''tinycloud.encryption''" using b(2) svc by (simp add: scope_matches_iff)
    obtain a z where a: "a \<in> set as" "canonicalizeEntryScopeMatches ev b a = Inr True"
        "z \<in> set (entry_actions a)" "actionContains z y"
      using subset_iff [OF assms(3)] assms(4) b(1,3) svcb
      by (fastforce simp: list_all_iff authorised_iff action_granted_def namedKeyRequest_def)
    have "plain_pattern z" using assms(7) a(1,3) by (simp add: list_all_iff)
    then have "actionContains z x" using actionContains_trans a(4) b(4) by blast
    moreover have "canonicalizeEntryScopeMatches ev c a = Inr True"
      by (rule scope_chain [OF a(2) b(2)]) (use svc svcb in \<open>simp_all add: namedKeyRequest_def\<close>)
    ultimately show ?thesis
      using a(1,3) svc by (auto simp: authorised_iff action_granted_def namedKeyRequest_def)
  qed
  then show ?thesis
    using subset_iff [OF assms(5)] by (simp add: list_all_iff)
qed

lemma caveats_compared:
  "is_ok (canonicalizeEntryScopeMatches ev r e) \<Longrightarrow> pe_service r = pe_service e \<Longrightarrow>
   normalizeSpace (entry_space r) = normalizeSpace (entry_space e) \<Longrightarrow> \<not> namedKeyRequest r \<Longrightarrow>
   pathContains (pe_path e) (pe_path r) \<Longrightarrow> branches (pe_caveats r) = branches (pe_caveats e) \<Longrightarrow>
   canonicalizeEntryScopeMatches ev r e = Inr True"
  by (simp add: canonicalizeEntryScopeMatches_def caveats_equal_iff split: if_split_asm)

text \<open>C3: what the subset check decides: outside encryption, and for granted patterns whose star is
  last, a request passes exactly when every access it permits is permitted by some granted entry
  - an access being a service, a space name, a path, an action and the caveats it is under. The
  union of the granted entries gives nothing beyond what one of them gives.\<close>

theorem capability_subset_accesses:
  assumes "isCapabilitySubset ev requested granted = Inr res"
    and "\<forall>r \<in> set requested. pe_service r \<noteq> ''tinycloud.encryption''"
    and "\<forall>e \<in> set granted. \<forall>g \<in> set (entry_actions e). CHR ''*'' \<notin> set (butlast g)"
  shows "sc_subset res \<longleftrightarrow> (\<Union>r \<in> set requested. entry_accesses r) \<subseteq> (\<Union>e \<in> set granted. entry_accesses e)"
proof
  have other: "\<not> namedKeyRequest r" if "r \<in> set requested" for r
    using assms(2) that by (simp add: namedKeyRequest_def)
  have plain: "plain_pattern g" if "e \<in> set granted" "g \<in> set (entry_actions e)" for e g
    using assms(3) that by (simp add: plain_pattern_def dropEnd_def butlast_conv_take)
  show "(\<Union>r \<in> set requested. entry_accesses r) \<subseteq> (\<Union>e \<in> set granted. entry_accesses e)" if passes: "sc_subset res"
  proof safe
    fix r svc n p a bs
    assume r: "r \<in> set requested" and "(svc, n, p, a, bs) \<in> entry_accesses r"
    then obtain g where x: "svc = pe_service r" "n = normalizeSpace (entry_space r)" "pathContains (pe_path r) p"
        "bs = branches (pe_caveats r)" "g \<in> set (entry_actions r)" "actionContains g a"
      by (auto simp: entry_accesses_def access_iffs)
    obtain e h where e: "e \<in> set granted" "canonicalizeEntryScopeMatches ev r e = Inr True" "h \<in> set (entry_actions e)" "actionContains h g"
    proof -
      have "authorised ev granted r g" using subset_iff [OF assms(1)] passes r x(5) by (simp add: list_all_iff)
      then show thesis using other [OF r] that by (auto simp: authorised_iff action_granted_def)
    qed
    from e(2) have m: "pe_service r = pe_service e" "normalizeSpace (entry_space r) = normalizeSpace (entry_space e)"
        "pathContains (pe_path e) (pe_path r)" "branches (pe_caveats r) = branches (pe_caveats e)"
      using other [OF r] by (auto simp: scope_matches_iff caveats_equal_iff split: if_split_asm)
    have "actionContains h a" by (rule actionContains_trans [OF plain [OF e(1,3)] e(4) x(6)])
    moreover have "pathContains (pe_path e) p" using paths.contains_trans m(3) x(3) by blast
    ultimately have "(svc, n, p, a, bs) \<in> entry_accesses e"
      using x m e(3) by (auto simp: entry_accesses_def access_iffs)
    with e(1) show "(svc, n, p, a, bs) \<in> (\<Union>e \<in> set granted. entry_accesses e)" by blast
  qed
  show "sc_subset res" if sub: "(\<Union>r \<in> set requested. entry_accesses r) \<subseteq> (\<Union>e \<in> set granted. entry_accesses e)"
    unfolding subset_iff [OF assms(1)] list_all_iff authorised_iff
  proof (intro ballI)
    fix r a
    assume r: "r \<in> set requested" and a: "a \<in> set (entry_actions r)"
    let ?x = "(pe_service r, normalizeSpace (entry_space r), pe_path r, a, branches (pe_caveats r))"
    have "?x \<in> entry_accesses r"
      using a by (auto simp: entry_accesses_def access_iffs pathContains_iff actionContains_iff)
    with r sub obtain e where e: "e \<in> set granted" "?x \<in> entry_accesses e" by blast
    then obtain g where g: "g \<in> set (entry_actions e)" "actionContains g a" "pe_service r = pe_service e"
        "normalizeSpace (entry_space r) = normalizeSpace (entry_space e)" "pathContains (pe_path e) (pe_path r)"
        "branches (pe_caveats r) = branches (pe_caveats e)"
      by (auto simp: entry_accesses_def access_iffs)
    have "is_ok (canonicalizeEntryScopeMatches ev r e)" using assms(1) r e(1) by (simp add: subset_result_iff)
    from caveats_compared [OF this] g other [OF r] have "canonicalizeEntryScopeMatches ev r e = Inr True" by blast
    with e(1) g(1,2) other [OF r]
    show "\<exists>e \<in> set granted. canonicalizeEntryScopeMatches ev r e = Inr True \<and> (\<exists>g \<in> set (entry_actions e). action_granted r g a)"
      by (auto simp: action_granted_def)
  qed
qed

definition sample_grants :: "permission_entry list" where
  "sample_grants = [entry ''tinycloud.kv'' (Some ''applications'') ''notes/'' [''*'', ''sync''] None]"

definition sample_child :: "permission_entry list" where
  "sample_child = [entry ''tinycloud.kv'' None ''notes/shared/'' [''get'', ''sync''] None]"

definition sample_grandchild :: "permission_entry list" where
  "sample_grandchild = [entry ''tinycloud.kv'' None ''notes/shared/a'' [''get''] None]"

lemma sample_subsets:
  "isCapabilitySubset ev sample_child sample_grants = Inr \<lparr>sc_subset = True, sc_missing = []\<rparr>"
  "isCapabilitySubset ev sample_grandchild sample_child = Inr \<lparr>sc_subset = True, sc_missing = []\<rparr>"
  "isCapabilitySubset ev sample_grandchild sample_grants = Inr \<lparr>sc_subset = True, sc_missing = []\<rparr>"
  by code_simp+

lemma isCapabilitySubset_regrouped_witness:
  "isCapabilitySubset lower_evm sample_child (explode sample_grants) = Inr \<lparr>sc_subset = True, sc_missing = []\<rparr>"
  by (rule isCapabilitySubset_regrouped [OF sample_subsets(1) [of lower_evm]])

lemma explicit_actions_named_witness:
  "\<exists>g \<in> set sample_grants. pe_service g = ''tinycloud.kv'' \<and> ''tinycloud.kv/sync'' \<in> set (entry_actions g)"
proof -
  have "\<exists>g \<in> set sample_grants. pe_service g = pe_service (hd sample_child) \<and> ''tinycloud.kv/sync'' \<in> set (entry_actions g) \<and>
      (\<exists>n. space_named (entry_space g) n \<and> space_named (entry_space (hd sample_child)) n)"
    by (rule explicit_actions_named [OF sample_subsets(1) [of lower_evm]]) code_simp+
  then show ?thesis
    by (simp add: sample_grants_def sample_child_def)
qed

lemma capability_subset_accesses_witness:
  "(\<Union>r \<in> set sample_child. entry_accesses r) \<subseteq> (\<Union>e \<in> set sample_grants. entry_accesses e) \<and>
   \<not> (\<Union>r \<in> set sample_grants. entry_accesses r) \<subseteq> (\<Union>e \<in> set sample_child. entry_accesses e)"
proof
  have plain: "\<forall>e \<in> set es. \<forall>g \<in> set (entry_actions e). CHR ''*'' \<notin> set (butlast g)" if "es = sample_grants \<or> es = sample_child" for es
  proof -
    have "list_all (\<lambda>e. list_all (\<lambda>g. CHR ''*'' \<notin> set (butlast g)) (entry_actions e)) sample_grants"
      "list_all (\<lambda>e. list_all (\<lambda>g. CHR ''*'' \<notin> set (butlast g)) (entry_actions e)) sample_child" by code_simp+
    with that show ?thesis by (auto simp: list_all_iff)
  qed
  have kv: "\<forall>r \<in> set es. pe_service r \<noteq> ''tinycloud.encryption''" if "es = sample_grants \<or> es = sample_child" for es
    using that by (auto simp: sample_grants_def sample_child_def)
  show "(\<Union>r \<in> set sample_child. entry_accesses r) \<subseteq> (\<Union>e \<in> set sample_grants. entry_accesses e)"
    using capability_subset_accesses [OF sample_subsets(1) [of lower_evm] kv plain] by simp
  obtain res where res: "isCapabilitySubset lower_evm sample_grants sample_child = Inr res" "\<not> sc_subset res"
  proof -
    have "(case isCapabilitySubset lower_evm sample_grants sample_child of Inr res \<Rightarrow> \<not> sc_subset res | Inl _ \<Rightarrow> False)" by code_simp
    then show thesis using that by (auto split: sum.split_asm)
  qed
  show "\<not> (\<Union>r \<in> set sample_grants. entry_accesses r) \<subseteq> (\<Union>e \<in> set sample_child. entry_accesses e)"
    using capability_subset_accesses [OF res(1) kv plain] res(2) by simp
qed

section \<open>Reading a ReCap\<close>

definition entry_key :: "permission_entry \<Rightarrow> string \<times> string \<times> string" where
  "entry_key e = (entry_space e, pe_service e, pe_path e)"

lemma compare_entries_le: "compare_entries a b \<le> 0 \<longleftrightarrow> entry_key a \<le> entry_key b"
  by (auto simp: compare_entries_def entry_key_def Let_def)

lemma parse_recap_sorted:
  "parseWasm siwe = Inr (Some raw) \<Longrightarrow>
   parseRecapCapabilities parseWasm siwe = Inr (sort_key entry_key (map normalize_recap_entry raw))"
  by (simp add: parseRecapCapabilities_def sort_by_key [of compare_entries entry_key, OF compare_entries_le])

text \<open>Reading a ReCap loses no entry and invents none, and the order of the result depends
  on the entries only: it is sorted by space, service and path, and entries with
  different keys come out the same for every order the parser returns them in.\<close>

theorem parseRecapCapabilities_canonical:
  assumes "parseWasm siwe = Inr (Some raw)" and "parseWasm' siwe' = Inr (Some raw')"
    and "mset raw = mset raw'"
    and "distinct (map (entry_key \<circ> normalize_recap_entry) raw)"
  shows "parseRecapCapabilities parseWasm siwe = parseRecapCapabilities parseWasm' siwe'"
proof -
  have "mset (map normalize_recap_entry raw) = mset (map normalize_recap_entry raw')"
    by (simp add: assms(3))
  moreover have "inj_on entry_key (set (map normalize_recap_entry raw))"
    using assms(4) by (auto simp: distinct_map inj_on_def)
  ultimately have "sort_key entry_key (map normalize_recap_entry raw) = sort_key entry_key (map normalize_recap_entry raw')"
    by (intro sort_key_inj_key_eq) simp_all
  then show ?thesis using assms(1,2) by (simp add: parse_recap_sorted)
qed

definition sample_recap :: "wasm_recap_entry list" where
  "sample_recap =
     [\<lparr>we_service = ''kv'', we_space = ''tinycloud:pkh:eip155:1:0xd5:default'', we_path = ''b'', we_actions = [''tinycloud.kv/get''], we_caveats = None\<rparr>,
      \<lparr>we_service = ''kv'', we_space = ''default'', we_path = ''a'', we_actions = [''tinycloud.kv/put''], we_caveats = None\<rparr>]"

lemma parseRecapCapabilities_canonical_witness:
  "parseRecapCapabilities (\<lambda>_. Inr (Some sample_recap)) ''siwe'' = parseRecapCapabilities (\<lambda>_. Inr (Some (rev sample_recap))) ''siwe''"
proof (rule parseRecapCapabilities_canonical [where raw = sample_recap and raw' = "rev sample_recap"])
  show "distinct (map (entry_key \<circ> normalize_recap_entry) sample_recap)"
    by code_simp
qed simp_all

end
