(* ===== verification/KeyRegistry.thy ===== *)
theory KeyRegistry
  imports Capabilities
begin

text \<open>
  \<^verbatim>\<open>packages/sdk-core/src/authorization/CapabilityKeyRegistry.ts\<close>: which key may exercise which
  capability. The state is the four maps of the class (keys, delegations by key, by CID,
  entries by capability); every method that changes it is a function that returns the
  new state beside the result, also when comparing caveats throws in the middle of it.

  Delegations are values here: the class shares one object between its three indexes and
  marks it revoked in all of them by CID, so sharing shows only outside of the registry.
  The fields it never reads (private keys, delegator, timestamps) are left out.

  The lemmas give an invariant of every reachable state, and from it that a selected
  key is registered and backed by a live delegation that covers the request, and that a
  revoked CID stays unusable until a delegation with that CID is added again.
\<close>

section \<open>Data\<close>

datatype key_type = MainKey | SessionKey | IngestedKey

record key_info =
  ki_id :: string
  ki_did :: string
  ki_type :: key_type
  ki_priority :: rat

text \<open>A \<open>Date\<close>; comparing with an invalid one is always false.\<close>

datatype date = At rat | InvalidDate

record delegation =
  d_cid :: string
  d_delegateDID :: string
  d_spaceId :: string
  d_path :: string
  d_actions :: "string list"
  d_caveats :: "jsv list option"
  d_expiry :: "date option"
  d_isRevoked :: bool
  d_parentCid :: "string option"

record key_capability =
  kc_resource :: string
  kc_action :: string
  kc_keys :: "key_info list"
  kc_delegation :: delegation
  kc_expiresAt :: "date option"

record stored_chain =
  st_delegation :: delegation
  st_parentCid :: "string option"
  st_keyId :: string

record registry =
  reg_keys :: "(string \<times> key_info) list"
  reg_byKey :: "(string \<times> delegation list) list"
  reg_byCid :: "(string \<times> stored_chain list) list"
  reg_byCapability :: "(string \<times> key_capability list) list"

definition empty_registry :: registry where
  "empty_registry = \<lparr>reg_keys = [], reg_byKey = [], reg_byCid = [], reg_byCapability = []\<rparr>"

text \<open>What a method returns or throws, and the state it leaves.\<close>

type_synonym 'a reg_result = "(capability_error + 'a) \<times> registry"

datatype service_error = KEY_NOT_FOUND string

text \<open>\<open>map.get(k) ?? []\<close>\<close>

definition get_list :: "(string \<times> 'a list) list \<Rightarrow> string \<Rightarrow> 'a list" where
  "get_list m k = (case map_of m k of None \<Rightarrow> [] | Some xs \<Rightarrow> xs)"

text \<open>Replacing the first element with \<open>p\<close> (\<open>None\<close> when there is none).\<close>

fun update_firstR :: "('a \<Rightarrow> 'e + bool) \<Rightarrow> ('a \<Rightarrow> 'a) \<Rightarrow> 'a list \<Rightarrow> 'e + 'a list option" where
  "update_firstR p f [] = Inr None"
| "update_firstR p f (x # xs) = bindR (p x) (\<lambda>b.
     if b then Inr (Some (f x # xs))
     else bindR (update_firstR p f xs) (\<lambda>r. Inr (map_option (\<lambda>ys. x # ys) r)))"

section \<open>Adding delegations\<close>

definition makeCapabilityKey :: "string \<Rightarrow> string \<Rightarrow> string" where
  "makeCapabilityKey rsrc action = rsrc @ ''|'' @ action"

definition sameDelegationScope :: "delegation \<Rightarrow> delegation \<Rightarrow> capability_error + bool" where
  "sameDelegationScope left right =
     (if d_cid left = d_cid right \<and> d_spaceId left = d_spaceId right \<and> d_path left = d_path right \<and>
         length (d_actions left) = length (d_actions right) \<and>
         list_all (\<lambda>action. action \<in> set (d_actions right)) (d_actions left)
      then recapCaveatsEqual (d_caveats left) (d_caveats right) else Inr False)"

definition compare_priority :: "key_info \<Rightarrow> key_info \<Rightarrow> int" where
  "compare_priority a b =
     (if ki_priority a < ki_priority b then - 1 else if ki_priority a = ki_priority b then 0 else 1)"

definition has_key :: "string \<Rightarrow> key_info list \<Rightarrow> bool" where
  "has_key i ks \<longleftrightarrow> list_ex (\<lambda>k. ki_id k = i) ks"

definition add_key :: "key_info \<Rightarrow> key_capability \<Rightarrow> key_capability" where
  "add_key key e =
     (if has_key (ki_id key) (kc_keys e) then e
      else e\<lparr>kc_keys := sort_by compare_priority (kc_keys e @ [key])\<rparr>)"

text \<open>The loop over the actions.\<close>

fun add_capabilities :: "key_info \<Rightarrow> delegation \<Rightarrow> string list \<Rightarrow> registry \<Rightarrow> unit reg_result" where
  "add_capabilities key d [] st = (Inr (), st)"
| "add_capabilities key d (action # actions) st =
     (let capKey = makeCapabilityKey (d_path d) action;
          entries = get_list (reg_byCapability st) capKey
      in case update_firstR (\<lambda>e. sameDelegationScope (kc_delegation e) d) (add_key key) entries of
           Inl e \<Rightarrow> (Inl e, st)
         | Inr existing \<Rightarrow>
             let entries' = (case existing of
                   Some es \<Rightarrow> es
                 | None \<Rightarrow> entries @ [\<lparr>kc_resource = d_path d, kc_action = action, kc_keys = [key],
                                      kc_delegation = d, kc_expiresAt = d_expiry d\<rparr>])
             in add_capabilities key d actions
                  (st\<lparr>reg_byCapability := AList.update capKey entries' (reg_byCapability st)\<rparr>))"

definition addDelegation :: "key_info \<Rightarrow> delegation \<Rightarrow> registry \<Rightarrow> unit reg_result" where
  "addDelegation key d st =
     (let keyDelegations = get_list (reg_byKey st) (ki_id key)
      in case someR (\<lambda>x. sameDelegationScope x d) keyDelegations of
           Inl e \<Rightarrow> (Inl e, st)
         | Inr known \<Rightarrow>
       let st = (if known then st
                 else st\<lparr>reg_byKey := AList.update (ki_id key) (keyDelegations @ [d]) (reg_byKey st)\<rparr>);
           stored = get_list (reg_byCid st) (d_cid d)
       in case someR (\<lambda>c. if st_keyId c = ki_id key then sameDelegationScope (st_delegation c) d else Inr False) stored of
            Inl e \<Rightarrow> (Inl e, st)
          | Inr known \<Rightarrow>
        let st = (if known then st
                  else st\<lparr>reg_byCid := AList.update (d_cid d)
                       (stored @ [\<lparr>st_delegation = d, st_parentCid = d_parentCid d, st_keyId = ki_id key\<rparr>])
                       (reg_byCid st)\<rparr>)
        in add_capabilities key d (d_actions d) st)"

text \<open>The two statements \<open>registerKey\<close> and \<open>ingestKey\<close> begin with.\<close>

definition store_key :: "key_info \<Rightarrow> registry \<Rightarrow> registry" where
  "store_key key st =
     (let st = st\<lparr>reg_keys := AList.update (ki_id key) key (reg_keys st)\<rparr>
      in if map_of (reg_byKey st) (ki_id key) = None
         then st\<lparr>reg_byKey := AList.update (ki_id key) [] (reg_byKey st)\<rparr> else st)"

fun add_all :: "key_info \<Rightarrow> delegation list \<Rightarrow> registry \<Rightarrow> unit reg_result" where
  "add_all key [] st = (Inr (), st)"
| "add_all key (d # ds) st =
     (case addDelegation key d st of
        (Inl e, st) \<Rightarrow> (Inl e, st)
      | (Inr _, st) \<Rightarrow> add_all key ds st)"

definition registerKey :: "key_info \<Rightarrow> delegation list \<Rightarrow> registry \<Rightarrow> unit reg_result" where
  "registerKey key delegations st = add_all key delegations (store_key key st)"

definition ingestKey :: "key_info \<Rightarrow> delegation \<Rightarrow> rat option \<Rightarrow> registry \<Rightarrow> unit reg_result" where
  "ingestKey key d priority st =
     (let keyToStore = (case priority of Some p \<Rightarrow> key\<lparr>ki_priority := p\<rparr> | None \<Rightarrow> key)
      in addDelegation keyToStore d (store_key keyToStore st))"

section \<open>Removing and revoking\<close>

definition remove_chains :: "string \<Rightarrow> (string \<times> stored_chain list) list \<Rightarrow> delegation \<Rightarrow>
    (string \<times> stored_chain list) list" where
  "remove_chains keyId byCid d =
     (case map_of byCid (d_cid d) of
        None \<Rightarrow> byCid
      | Some stored \<Rightarrow>
          let remaining = filter (\<lambda>c. st_keyId c \<noteq> keyId) stored
          in if remaining = [] then AList.delete (d_cid d) byCid
             else AList.update (d_cid d) remaining byCid)"

definition remove_capabilities :: "string \<Rightarrow> string \<times> key_capability list \<Rightarrow> (string \<times> key_capability list) list" where
  "remove_capabilities keyId p =
     (case p of (capKey, entries) \<Rightarrow>
        let filtered = filter (\<lambda>e. \<not> has_key keyId (kc_keys e)) entries
        in if filtered = [] then []
           else let stripped = map (\<lambda>e. e\<lparr>kc_keys := filter (\<lambda>k. ki_id k \<noteq> keyId) (kc_keys e)\<rparr>) filtered
                in [(capKey, filter (\<lambda>e. kc_keys e \<noteq> []) stripped)])"

definition removeKey :: "string \<Rightarrow> registry \<Rightarrow> registry" where
  "removeKey keyId st =
     \<lparr>reg_keys = AList.delete keyId (reg_keys st),
      reg_byKey = AList.delete keyId (reg_byKey st),
      reg_byCid = foldl (remove_chains keyId) (reg_byCid st) (get_list (reg_byKey st) keyId),
      reg_byCapability = concat (map (remove_capabilities keyId) (reg_byCapability st))\<rparr>"

definition clear :: "registry \<Rightarrow> registry" where
  "clear st = empty_registry"

text \<open>Marking the delegations of a CID, wherever they are stored.\<close>

definition revoke :: "string \<Rightarrow> delegation \<Rightarrow> delegation" where
  "revoke cid d = (if d_cid d = cid then d\<lparr>d_isRevoked := True\<rparr> else d)"

definition map_values :: "('a \<Rightarrow> 'b) \<Rightarrow> (string \<times> 'a list) list \<Rightarrow> (string \<times> 'b list) list" where
  "map_values f m = map (\<lambda>(k, xs). (k, map f xs)) m"

definition revokeDelegation :: "string \<Rightarrow> registry \<Rightarrow> (service_error + unit) \<times> registry" where
  "revokeDelegation cid st =
     (if get_list (reg_byCid st) cid = [] then (Inl (KEY_NOT_FOUND cid), st)
      else (Inr (), st\<lparr>
        reg_byCid := map_values (\<lambda>c. c\<lparr>st_delegation := revoke cid (st_delegation c)\<rparr>) (reg_byCid st),
        reg_byKey := map_values (revoke cid) (reg_byKey st),
        reg_byCapability := map_values (\<lambda>e. e\<lparr>kc_delegation := revoke cid (kc_delegation e)\<rparr>) (reg_byCapability st)\<rparr>))"

section \<open>Looking up\<close>

definition isDelegationValid :: "rat \<Rightarrow> delegation \<Rightarrow> bool" where
  "isDelegationValid now d =
     (if d_isRevoked d then False
      else (case d_expiry d of Some (At t) \<Rightarrow> \<not> t < now | _ \<Rightarrow> True))"

definition resourceMatchesPattern :: "string \<Rightarrow> string \<Rightarrow> bool" where
  "resourceMatchesPattern rsrc pattern =
     (if pattern = rsrc then True
      else if endsWith pattern ''/**'' then startsWith rsrc (dropEnd 3 pattern)
      else if endsWith pattern ''/*'' then
        (let pre = dropEnd 2 pattern
         in if \<not> startsWith rsrc pre then False
            else let remainder = drop (length pre) rsrc
                 in \<not> hasChar remainder CHR ''/'' \<or> remainder = ''/'')
      else endsWith pattern ''/'' \<and> startsWith rsrc pattern)"

definition matchesResourcePattern :: "string \<Rightarrow> string \<Rightarrow> bool" where
  "matchesResourcePattern entryResource searchPattern \<longleftrightarrow>
     resourceMatchesPattern entryResource searchPattern \<or> resourceMatchesPattern searchPattern entryResource"

definition actionMatches :: "string \<Rightarrow> string \<Rightarrow> bool" where
  "actionMatches pattern action = actionContains pattern action"

fun match_entries :: "string \<Rightarrow> string \<Rightarrow> key_capability list \<Rightarrow> key_capability list \<Rightarrow>
    capability_error + key_capability list" where
  "match_entries rsrc action results [] = Inr results"
| "match_entries rsrc action results (e # es) =
     (if actionMatches (kc_action e) action \<and> resourceMatchesPattern rsrc (kc_resource e)
      then bindR (someR (\<lambda>r. sameDelegationScope (kc_delegation r) (kc_delegation e)) results) (\<lambda>known.
             match_entries rsrc action (if known then results else results @ [e]) es)
      else match_entries rsrc action results es)"

definition findMatchingEntries :: "string \<Rightarrow> string \<Rightarrow> registry \<Rightarrow> capability_error + key_capability list" where
  "findMatchingEntries rsrc action st =
     (let exactKey = makeCapabilityKey rsrc action
      in match_entries rsrc action (get_list (reg_byCapability st) exactKey)
           (concat (map snd (filter (\<lambda>(capKey, _). capKey \<noteq> exactKey) (reg_byCapability st)))))"

definition push_key :: "key_info list \<Rightarrow> key_info \<Rightarrow> key_info list" where
  "push_key ks k = (if has_key (ki_id k) ks then ks else ks @ [k])"

definition getKeyForCapability :: "rat \<Rightarrow> string \<Rightarrow> string \<Rightarrow> registry \<Rightarrow> capability_error + key_info option" where
  "getKeyForCapability now rsrc action st =
     bindR (findMatchingEntries rsrc action st) (\<lambda>matchingEntries.
       let validKeys = foldl push_key []
             (concat (map kc_keys (filter (\<lambda>e. isDelegationValid now (kc_delegation e)) matchingEntries)))
       in if validKeys = [] then Inr None
          else Inr (Some (hd (sort_by compare_priority validKeys))))"

definition getAllCapabilities :: "registry \<Rightarrow> key_capability list" where
  "getAllCapabilities st = concat (map snd (reg_byCapability st))"

definition getDelegationsForKey :: "string \<Rightarrow> registry \<Rightarrow> delegation list" where
  "getDelegationsForKey keyId st = get_list (reg_byKey st) keyId"


definition getAllKeys :: "registry \<Rightarrow> key_info list" where
  "getAllKeys st = map snd (reg_keys st)"

definition findCapabilities :: "string \<Rightarrow> string option \<Rightarrow> registry \<Rightarrow> key_capability list" where
  "findCapabilities resourcePattern action st =
     filter (\<lambda>e. (case action of None \<Rightarrow> True | Some a \<Rightarrow> a = [] \<or> kc_action e = a) \<and>
                 matchesResourcePattern (kc_resource e) resourcePattern)
       (concat (map snd (reg_byCapability st)))"

section \<open>Runs\<close>

datatype reg_op =
    RegisterKey key_info "delegation list"
  | IngestKey key_info delegation "rat option"
  | RemoveKey string
  | Revoke string
  | Clear

text \<open>One call of a method that changes the registry; a call that throws leaves the state it
  had reached.\<close>

inductive reg_step :: "registry \<Rightarrow> reg_op \<Rightarrow> registry \<Rightarrow> bool" where
  register: "registerKey key ds st = (r, st') \<Longrightarrow> reg_step st (RegisterKey key ds) st'"
| ingest: "ingestKey key d p st = (r, st') \<Longrightarrow> reg_step st (IngestKey key d p) st'"
| remove: "reg_step st (RemoveKey i) (removeKey i st)"
| revoke: "revokeDelegation cid st = (r, st') \<Longrightarrow> reg_step st (Revoke cid) st'"
| clear: "reg_step st Clear (clear st)"

inductive reg_run :: "registry \<Rightarrow> reg_op list \<Rightarrow> registry \<Rightarrow> bool" where
  stop: "reg_run st [] st"
| step: "reg_step st op st' \<Longrightarrow> reg_run st' ops st'' \<Longrightarrow> reg_run st (op # ops) st''"

inductive_cases registerE: "reg_step st (RegisterKey key ds) st'"
inductive_cases ingestE: "reg_step st (IngestKey key d p) st'"
inductive_cases revokeE: "reg_step st (Revoke cid) st'"
inductive_simps remove_step_iff: "reg_step st (RemoveKey i) st'"
inductive_simps clear_step_iff: "reg_step st Clear st'"
inductive_cases run_consE: "reg_run st (op # ops) st'"

definition reachable :: "registry \<Rightarrow> bool" where
  "reachable st \<longleftrightarrow> (\<exists>ops. reg_run empty_registry ops st)"

section \<open>Facts on the indexes\<close>

lemma update_firstR_Some:
  "update_firstR p f xs = Inr (Some ys) \<Longrightarrow> y \<in> set ys \<Longrightarrow>
   y \<in> set xs \<or> (\<exists>x \<in> set xs. p x = Inr True \<and> y = f x)"
  by (induction xs arbitrary: ys) (auto simp: bindR_Inr_iff split: if_split_asm)

lemma set_update_subset: "p \<in> set (AList.update k v m) \<Longrightarrow> p = (k, v) \<or> p \<in> set m"
  by (induction m) (auto split: if_split_asm)

lemma get_list_member: "x \<in> set (get_list m k) \<Longrightarrow> \<exists>xs. (k, xs) \<in> set m \<and> x \<in> set xs"
  using map_of_SomeD [of m k] by (cases "map_of m k") (auto simp: get_list_def)

lemma get_list_update [simp]: "get_list (AList.update k v m) k' = (if k' = k then v else get_list m k')"
  by (simp add: get_list_def update_conv')

lemma get_list_delete [simp]: "get_list (AList.delete k m) k' = (if k' = k then [] else get_list m k')"
  by (simp add: get_list_def delete_conv')

lemma get_list_map_values [simp]: "get_list (map_values f m) k = map f (get_list m k)"
  by (simp add: get_list_def map_values_def map_of_map split: option.split)

lemma sameDelegationScopeD:
  "sameDelegationScope l r = Inr True \<Longrightarrow> d_cid l = d_cid r \<and> d_path l = d_path r \<and> set (d_actions l) \<subseteq> set (d_actions r)"
  by (auto simp: sameDelegationScope_def list_all_iff split: if_split_asm)

lemma compare_priority_le: "compare_priority a b \<le> 0 \<longleftrightarrow> ki_priority a \<le> ki_priority b"
  by (auto simp: compare_priority_def)

lemma sort_priority: "sort_by compare_priority ks = sort_key ki_priority ks"
  by (rule sort_by_key [where f = ki_priority]) (rule compare_priority_le)

lemma has_key_iff: "has_key i ks \<longleftrightarrow> i \<in> ki_id ` set ks"
  by (auto simp: has_key_def list_ex_iff)

section \<open>The invariant\<close>

definition key_known :: "registry \<Rightarrow> string \<Rightarrow> bool" where
  "key_known st i \<longleftrightarrow> map_of (reg_keys st) i \<noteq> None"

definition has_delegation :: "registry \<Rightarrow> string \<Rightarrow> string \<Rightarrow> bool" where
  "has_delegation st i cid \<longleftrightarrow> list_ex (\<lambda>d. d_cid d = cid) (get_list (reg_byKey st) i)"

definition has_chain :: "registry \<Rightarrow> string \<Rightarrow> string \<Rightarrow> bool" where
  "has_chain st i cid \<longleftrightarrow> list_ex (\<lambda>c. st_keyId c = i) (get_list (reg_byCid st) cid)"

text \<open>A key that stands behind an entry is registered, and the entry's delegation is filed
  under the key and under its CID.\<close>

definition backed :: "registry \<Rightarrow> string \<Rightarrow> string \<Rightarrow> bool" where
  "backed st i cid \<longleftrightarrow> key_known st i \<and> has_delegation st i cid \<and> has_chain st i cid"

definition entry_ok :: "registry \<Rightarrow> string \<Rightarrow> key_capability \<Rightarrow> bool" where
  "entry_ok st capKey e \<longleftrightarrow>
     capKey = makeCapabilityKey (kc_resource e) (kc_action e) \<and>
     kc_resource e = d_path (kc_delegation e) \<and> kc_action e \<in> set (d_actions (kc_delegation e)) \<and>
     kc_keys e \<noteq> [] \<and> distinct (map ki_id (kc_keys e)) \<and> sorted (map ki_priority (kc_keys e)) \<and>
     list_all (\<lambda>k. backed st (ki_id k) (d_cid (kc_delegation e))) (kc_keys e)"

definition registry_ok :: "registry \<Rightarrow> bool" where
  "registry_ok st \<longleftrightarrow> list_all (\<lambda>(capKey, es). list_all (entry_ok st capKey) es) (reg_byCapability st)"

lemma registry_okD: "registry_ok st \<Longrightarrow> (k, es) \<in> set (reg_byCapability st) \<Longrightarrow> e \<in> set es \<Longrightarrow> entry_ok st k e"
  by (auto simp: registry_ok_def list_all_iff)

lemma registry_okI:
  "(\<And>k es e. (k, es) \<in> set (reg_byCapability st) \<Longrightarrow> e \<in> set es \<Longrightarrow> entry_ok st k e) \<Longrightarrow> registry_ok st"
  by (auto simp: registry_ok_def list_all_iff)

lemma entry_ok_backed:
  "entry_ok st k e \<Longrightarrow> (\<And>i cid. i \<in> ki_id ` set (kc_keys e) \<Longrightarrow> backed st i cid \<Longrightarrow> backed st' i cid) \<Longrightarrow> entry_ok st' k e"
  by (auto simp: entry_ok_def list_all_iff)

lemma entry_ok_add_key:
  assumes "entry_ok st k e" and "backed st (ki_id key) (d_cid (kc_delegation e))"
  shows "entry_ok st k (add_key key e)"
proof (cases "has_key (ki_id key) (kc_keys e)")
  case False
  let ?ks = "sort_key ki_priority (kc_keys e @ [key])"
  have "mset (map ki_id ?ks) = mset (map ki_id (kc_keys e @ [key]))" by simp
  then have "distinct (map ki_id ?ks)"
    using mset_eq_imp_distinct_iff [OF \<open>mset (map ki_id ?ks) = _\<close>] False assms(1)
    by (simp add: entry_ok_def has_key_iff del: mset_map)
  moreover have "?ks \<noteq> []"
    by (metis append_is_Nil_conv list.distinct(1) set_empty set_sort)
  ultimately show ?thesis
    using assms False by (simp add: add_key_def entry_ok_def sort_priority list_all_iff)
qed (use assms in \<open>simp add: add_key_def\<close>)

text \<open>\<open>add_capabilities\<close> changes the capability index only.\<close>

lemma add_capabilities_frame:
  "add_capabilities key d as st = (r, st') \<Longrightarrow>
   reg_keys st' = reg_keys st \<and> reg_byKey st' = reg_byKey st \<and> reg_byCid st' = reg_byCid st"
proof (induction as arbitrary: st)
  case (Cons a as)
  show ?case
  proof (cases "update_firstR (\<lambda>e. sameDelegationScope (kc_delegation e) d) (add_key key)
      (get_list (reg_byCapability st) (makeCapabilityKey (d_path d) a))")
    case (Inr existing)
    with Cons.prems show ?thesis by (auto simp: Let_def dest: Cons.IH)
  qed (use Cons.prems in simp)
qed simp

lemma backed_frame:
  "reg_keys st' = reg_keys st \<Longrightarrow> reg_byKey st' = reg_byKey st \<Longrightarrow> reg_byCid st' = reg_byCid st \<Longrightarrow>
   backed st' = backed st"
  by (intro ext) (simp add: backed_def key_known_def has_delegation_def has_chain_def)

lemma entry_ok_frame:
  "backed st' = backed st \<Longrightarrow> entry_ok st' = entry_ok st"
  by (intro ext) (simp add: entry_ok_def)

lemma add_capabilities_ok:
  assumes "add_capabilities key d as st = (r, st')" and "registry_ok st"
    and "backed st (ki_id key) (d_cid d)" and "set as \<subseteq> set (d_actions d)"
  shows "registry_ok st'"
  using assms
proof (induction as arbitrary: st)
  case Nil
  then show ?case by simp
next
  case (Cons a as)
  let ?k = "makeCapabilityKey (d_path d) a"
  let ?es = "get_list (reg_byCapability st) ?k"
  show ?case
  proof (cases "update_firstR (\<lambda>e. sameDelegationScope (kc_delegation e) d) (add_key key) ?es")
    case (Inl e)
    then show ?thesis using Cons.prems by simp
  next
    case (Inr existing)
    let ?new = "\<lparr>kc_resource = d_path d, kc_action = a, kc_keys = [key], kc_delegation = d, kc_expiresAt = d_expiry d\<rparr>"
    define es where "es = (case existing of Some es \<Rightarrow> es | None \<Rightarrow> ?es @ [?new])"
    define st1 where "st1 = st\<lparr>reg_byCapability := AList.update ?k es (reg_byCapability st)\<rparr>"
    have run: "add_capabilities key d as st1 = (r, st')"
      using Cons.prems(1) Inr by (simp add: Let_def es_def st1_def)
    have b: "backed st1 = backed st"
      by (rule backed_frame) (simp_all add: st1_def)
    have old: "entry_ok st ?k e" if "e \<in> set ?es" for e
      using get_list_member [OF that] registry_okD [OF Cons.prems(2)] by blast
    have new: "entry_ok st ?k ?new"
      using Cons.prems(3,4) by (simp add: entry_ok_def)
    have "entry_ok st ?k e" if e: "e \<in> set es" for e
    proof (cases existing)
      case None
      then show ?thesis using e old new by (auto simp: es_def)
    next
      case (Some ys)
      with e have "e \<in> set ys" by (simp add: es_def)
      from update_firstR_Some [OF Inr [unfolded Some] this]
      consider "e \<in> set ?es" | x where "x \<in> set ?es" "sameDelegationScope (kc_delegation x) d = Inr True" "e = add_key key x"
        by blast
      then show ?thesis
      proof cases
        case 2
        then show ?thesis
          using entry_ok_add_key [OF old [OF 2(1)]] Cons.prems(3) sameDelegationScopeD [OF 2(2)] by simp
      qed (rule old)
    qed
    then have "registry_ok st1"
      using registry_okD [OF Cons.prems(2)] set_update_subset [of _ ?k es "reg_byCapability st"]
      by (intro registry_okI) (force simp: st1_def entry_ok_frame [OF b, unfolded st1_def])
    from Cons.IH [OF run this] Cons.prems(3,4) show ?thesis by (simp add: b)
  qed
qed

text \<open>Adding a delegation: two indexes first, then the entries.\<close>

lemma addDelegation_ok:
  assumes "addDelegation key d st = (r, st')" and "registry_ok st" and "key_known st (ki_id key)"
  shows "registry_ok st' \<and> key_known st' (ki_id key)"
proof (cases "someR (\<lambda>x. sameDelegationScope x d) (get_list (reg_byKey st) (ki_id key))")
  case (Inl e)
  then show ?thesis using assms by (simp add: addDelegation_def)
next
  case known: (Inr b)
  define st1 where "st1 = (if b then st
      else st\<lparr>reg_byKey := AList.update (ki_id key) (get_list (reg_byKey st) (ki_id key) @ [d]) (reg_byKey st)\<rparr>)"
  have deleg: "has_delegation st1 (ki_id key) (d_cid d)"
    using known someR_Inr_True [of _ "get_list (reg_byKey st) (ki_id key)"] sameDelegationScopeD
    by (fastforce simp: st1_def has_delegation_def list_ex_iff)
  have grow1: "backed st i cid \<Longrightarrow> backed st1 i cid" for i cid
    by (auto simp: st1_def backed_def key_known_def has_delegation_def has_chain_def)
  have cap1: "reg_byCapability st1 = reg_byCapability st" by (simp add: st1_def)
  have ok1: "registry_ok st1"
    using registry_okD [OF assms(2)] cap1 by (auto intro!: registry_okI entry_ok_backed [OF _ grow1])
  have key1: "key_known st1 (ki_id key)" using assms(3) by (simp add: st1_def key_known_def)
  let ?same = "\<lambda>c. if st_keyId c = ki_id key then sameDelegationScope (st_delegation c) d else Inr False"
  show ?thesis
  proof (cases "someR ?same (get_list (reg_byCid st1) (d_cid d))")
    case (Inl e)
    then have "st' = st1"
      using assms(1) known by (simp add: addDelegation_def Let_def st1_def [symmetric])
    then show ?thesis using ok1 key1 by simp
  next
    case stored: (Inr b')
    define st2 where "st2 = (if b' then st1
        else st1\<lparr>reg_byCid := AList.update (d_cid d) (get_list (reg_byCid st1) (d_cid d) @
            [\<lparr>st_delegation = d, st_parentCid = d_parentCid d, st_keyId = ki_id key\<rparr>]) (reg_byCid st1)\<rparr>)"
    have chain: "has_chain st2 (ki_id key) (d_cid d)"
      using stored someR_Inr_True [of ?same "get_list (reg_byCid st1) (d_cid d)"]
      by (auto simp: st2_def has_chain_def list_ex_iff split: if_split_asm)
    have grow2: "backed st1 i cid \<Longrightarrow> backed st2 i cid" for i cid
      by (auto simp: st2_def backed_def key_known_def has_delegation_def has_chain_def)
    have cap2: "reg_byCapability st2 = reg_byCapability st1" by (simp add: st2_def)
    have ok2: "registry_ok st2"
      using registry_okD [OF ok1] cap2 by (auto intro!: registry_okI entry_ok_backed [OF _ grow2])
    have "has_delegation st2 (ki_id key) (d_cid d)" "key_known st2 (ki_id key)"
      using deleg key1 by (simp_all add: st2_def has_delegation_def key_known_def)
    then have bk: "backed st2 (ki_id key) (d_cid d)" using chain by (simp add: backed_def)
    have run: "add_capabilities key d (d_actions d) st2 = (r, st')"
      using assms(1) known stored by (simp add: addDelegation_def Let_def st1_def [symmetric] st2_def [symmetric])
    show ?thesis
      using add_capabilities_ok [OF run ok2 bk] add_capabilities_frame [OF run] bk
      by (simp add: backed_def key_known_def)
  qed
qed

lemma get_list_None: "map_of m k = None \<Longrightarrow> get_list m k = []"
  by (simp add: get_list_def)

lemma store_key_ok: "registry_ok st \<Longrightarrow> registry_ok (store_key key st) \<and> key_known (store_key key st) (ki_id key)"
proof -
  have "key_known st i \<Longrightarrow> key_known (store_key key st) i" for i
    by (simp add: store_key_def Let_def key_known_def update_conv')
  moreover have "get_list (reg_byKey (store_key key st)) i = get_list (reg_byKey st) i" for i
  proof (cases "map_of (reg_byKey st) (ki_id key) = None")
    case True
    then have "reg_byKey (store_key key st) = AList.update (ki_id key) [] (reg_byKey st)"
      unfolding store_key_def Let_def by simp
    then show ?thesis using get_list_None [OF True] by simp
  next
    case False
    then show ?thesis unfolding store_key_def Let_def by auto
  qed
  moreover have "reg_byCid (store_key key st) = reg_byCid st"
    by (simp add: store_key_def Let_def)
  ultimately have grow: "backed st i cid \<Longrightarrow> backed (store_key key st) i cid" for i cid
    by (simp add: backed_def has_delegation_def has_chain_def)
  have cap: "reg_byCapability (store_key key st) = reg_byCapability st"
    by (simp add: store_key_def Let_def)
  have known: "key_known (store_key key st) (ki_id key)"
    by (simp add: store_key_def Let_def key_known_def update_conv')
  assume ok: "registry_ok st"
  have "registry_ok (store_key key st)"
  proof (rule registry_okI)
    fix k es e
    assume "(k, es) \<in> set (reg_byCapability (store_key key st))" "e \<in> set es"
    then have "entry_ok st k e" unfolding cap by (rule registry_okD [OF ok])
    then show "entry_ok (store_key key st) k e" by (rule entry_ok_backed) (rule grow)
  qed
  then show ?thesis using known ..
qed

lemma add_all_ok:
  "add_all key ds st = (r, st') \<Longrightarrow> registry_ok st \<Longrightarrow> key_known st (ki_id key) \<Longrightarrow> registry_ok st'"
proof (induction ds arbitrary: st)
  case (Cons d ds)
  obtain r1 st1 where one: "addDelegation key d st = (r1, st1)" by fastforce
  with addDelegation_ok [OF one] Cons show ?case by (cases r1) auto
qed simp

lemma remove_chains_other:
  "c \<in> set (get_list m cid) \<Longrightarrow> st_keyId c \<noteq> i \<Longrightarrow> c \<in> set (get_list (foldl (remove_chains i) m ds) cid)"
proof (induction ds arbitrary: m)
  case (Cons d ds)
  have "c \<in> set (get_list (remove_chains i m d) cid)"
    using Cons.prems by (auto simp: remove_chains_def Let_def get_list_def delete_conv' update_conv' filter_empty_conv
        split: option.splits)
  with Cons show ?case by simp
qed simp

lemma remove_capabilities_member:
  assumes "(k, es') \<in> set (reg_byCapability (removeKey i st))" and "e \<in> set es'"
  shows "\<exists>es. (k, es) \<in> set (reg_byCapability st) \<and> e \<in> set es \<and> \<not> has_key i (kc_keys e)"
proof -
  have id: "e\<lparr>kc_keys := filter (\<lambda>k. ki_id k \<noteq> i) (kc_keys e)\<rparr> = e" if "\<not> has_key i (kc_keys e)" for e
  proof -
    have "filter (\<lambda>k. ki_id k \<noteq> i) (kc_keys e) = kc_keys e"
      using that by (auto simp: has_key_iff filter_id_conv)
    then show ?thesis by simp
  qed
  from assms obtain es where "(k, es) \<in> set (reg_byCapability st)" and es: "(k, es') \<in> set (remove_capabilities i (k, es))"
    by (auto simp: removeKey_def remove_capabilities_def Let_def split: if_split_asm)
  moreover from es assms(2) obtain e0 where "e0 \<in> set es" "\<not> has_key i (kc_keys e0)"
      "e = e0\<lparr>kc_keys := filter (\<lambda>k. ki_id k \<noteq> i) (kc_keys e0)\<rparr>"
    by (auto simp: remove_capabilities_def Let_def split: if_split_asm)
  ultimately show ?thesis using id [of e0] by auto
qed

lemma removeKey_ok: "registry_ok st \<Longrightarrow> registry_ok (removeKey i st)"
proof (rule registry_okI)
  fix k es e
  assume ok: "registry_ok st" and "(k, es) \<in> set (reg_byCapability (removeKey i st))" "e \<in> set es"
  then obtain es0 where "(k, es0) \<in> set (reg_byCapability st)" "e \<in> set es0" and no: "\<not> has_key i (kc_keys e)"
    using remove_capabilities_member by blast
  with ok have "entry_ok st k e" by (blast intro: registry_okD)
  then show "entry_ok (removeKey i st) k e"
  proof (rule entry_ok_backed)
    fix j cid
    assume "j \<in> ki_id ` set (kc_keys e)" and b: "backed st j cid"
    then have "j \<noteq> i" using no by (auto simp: has_key_iff)
    then show "backed (removeKey i st) j cid"
      using b remove_chains_other [of _ "reg_byCid st" cid i]
      by (auto simp: backed_def key_known_def has_delegation_def has_chain_def removeKey_def delete_conv' list_ex_iff)
  qed
qed

lemma revoke_fields [simp]:
  "d_cid (revoke c d) = d_cid d" "d_path (revoke c d) = d_path d" "d_actions (revoke c d) = d_actions d"
  "d_expiry (revoke c d) = d_expiry d"
  by (simp_all add: revoke_def)

lemma list_ex_map: "list_ex p (map f xs) = list_ex (\<lambda>x. p (f x)) xs"
  by (induction xs) auto

lemma revoke_revoked: "d_cid d = cid \<Longrightarrow> d_isRevoked (revoke cid d)"
  by (simp add: revoke_def)

lemma revokeDelegation_ok: "revokeDelegation cid st = (r, st') \<Longrightarrow> registry_ok st \<Longrightarrow> registry_ok st'"
proof -
  assume run: "revokeDelegation cid st = (r, st')" and ok: "registry_ok st"
  have bk: "backed st' = backed st"
    using run by (auto simp: fun_eq_iff revokeDelegation_def backed_def key_known_def has_delegation_def has_chain_def
        list_ex_map split: if_split_asm)
  show ?thesis
  proof (cases "st' = st")
    case True
    with ok show ?thesis by simp
  next
    case False
    then have cap: "reg_byCapability st' = map_values (\<lambda>e. e\<lparr>kc_delegation := revoke cid (kc_delegation e)\<rparr>) (reg_byCapability st)"
      using run by (auto simp: revokeDelegation_def split: if_split_asm)
    show ?thesis
    proof (rule registry_okI)
      fix k es e
      assume "(k, es) \<in> set (reg_byCapability st')" "e \<in> set es"
      then obtain es0 e0 where "(k, es0) \<in> set (reg_byCapability st)" "e0 \<in> set es0"
          and e: "e = e0\<lparr>kc_delegation := revoke cid (kc_delegation e0)\<rparr>"
        by (auto simp: cap map_values_def)
      with ok have "entry_ok st k e0" by (blast intro: registry_okD)
      then show "entry_ok st' k e"
        by (simp add: e entry_ok_def bk)
    qed
  qed
qed

lemma empty_registry_ok: "registry_ok empty_registry"
  by (simp add: empty_registry_def registry_ok_def)

lemma reg_step_ok: "reg_step st op st' \<Longrightarrow> registry_ok st \<Longrightarrow> registry_ok st'"
proof (induction rule: reg_step.induct)
  case (register key ds st r st')
  then show ?case using add_all_ok store_key_ok by (auto simp: registerKey_def)
next
  case (ingest key d p st r st')
  then show ?case
    using addDelegation_ok store_key_ok by (auto simp: ingestKey_def Let_def split: option.splits)
qed (auto simp: clear_def empty_registry_ok intro: removeKey_ok revokeDelegation_ok)

lemma reg_run_ok: "reg_run st ops st' \<Longrightarrow> registry_ok st \<Longrightarrow> registry_ok st'"
  by (induction rule: reg_run.induct) (auto intro: reg_step_ok)

text \<open>C36: in every reachable state of the registry each capability entry is filed under its own
  resource and action, which its delegation grants; its keys are not empty, distinct, in
  order of priority, and each of them is registered, with a delegation of that CID in both
  other indexes.\<close>

theorem registry_invariant: "reachable st \<Longrightarrow> registry_ok st"
  unfolding reachable_def using reg_run_ok empty_registry_ok by blast

section \<open>Revocation\<close>

text \<open>The CIDs of the entries that are still valid.\<close>

definition usable_cids :: "rat \<Rightarrow> registry \<Rightarrow> string list" where
  "usable_cids now st = map (\<lambda>e. d_cid (kc_delegation e))
     (filter (\<lambda>e. isDelegationValid now (kc_delegation e)) (getAllCapabilities st))"

lemma getAll_iff: "e \<in> set (getAllCapabilities st) \<longleftrightarrow> (\<exists>k es. (k, es) \<in> set (reg_byCapability st) \<and> e \<in> set es)"
  by (force simp: getAllCapabilities_def)

definition cid_dead :: "string \<Rightarrow> registry \<Rightarrow> bool" where
  "cid_dead cid st \<longleftrightarrow> list_all (\<lambda>e. d_cid (kc_delegation e) = cid \<longrightarrow> d_isRevoked (kc_delegation e)) (getAllCapabilities st)"

lemma cid_deadD:
  "cid_dead cid st \<Longrightarrow> (k, es) \<in> set (reg_byCapability st) \<Longrightarrow> e \<in> set es \<Longrightarrow> d_cid (kc_delegation e) = cid \<Longrightarrow>
   d_isRevoked (kc_delegation e)"
  by (auto simp: cid_dead_def list_all_iff getAll_iff)

lemma cid_deadI:
  "(\<And>k es e. (k, es) \<in> set (reg_byCapability st) \<Longrightarrow> e \<in> set es \<Longrightarrow> d_cid (kc_delegation e) = cid \<Longrightarrow>
   d_isRevoked (kc_delegation e)) \<Longrightarrow> cid_dead cid st"
  by (auto simp: cid_dead_def list_all_iff getAll_iff)

lemma cid_dead_unusable: "cid_dead cid st \<Longrightarrow> cid \<notin> set (usable_cids now st)"
  by (auto simp: cid_dead_def usable_cids_def list_all_iff isDelegationValid_def)

lemma add_key_delegation [simp]: "kc_delegation (add_key key e) = kc_delegation e"
  by (simp add: add_key_def)

lemma add_capabilities_dead:
  "add_capabilities key d as st = (r, st') \<Longrightarrow> cid_dead cid st \<Longrightarrow> d_cid d \<noteq> cid \<Longrightarrow> cid_dead cid st'"
proof (induction as arbitrary: st)
  case (Cons a as)
  let ?k = "makeCapabilityKey (d_path d) a"
  let ?es = "get_list (reg_byCapability st) ?k"
  show ?case
  proof (cases "update_firstR (\<lambda>e. sameDelegationScope (kc_delegation e) d) (add_key key) ?es")
    case (Inl e)
    then show ?thesis using Cons.prems by simp
  next
    case (Inr existing)
    let ?new = "\<lparr>kc_resource = d_path d, kc_action = a, kc_keys = [key], kc_delegation = d, kc_expiresAt = d_expiry d\<rparr>"
    define es where "es = (case existing of Some es \<Rightarrow> es | None \<Rightarrow> ?es @ [?new])"
    define st1 where "st1 = st\<lparr>reg_byCapability := AList.update ?k es (reg_byCapability st)\<rparr>"
    have run: "add_capabilities key d as st1 = (r, st')"
      using Cons.prems(1) Inr by (simp add: Let_def es_def st1_def)
    have old: "d_isRevoked (kc_delegation e)" if "e \<in> set ?es" "d_cid (kc_delegation e) = cid" for e
      using get_list_member [OF that(1)] cid_deadD [OF Cons.prems(2)] that(2) by blast
    have "d_isRevoked (kc_delegation e)" if e: "e \<in> set es" "d_cid (kc_delegation e) = cid" for e
    proof (cases existing)
      case None
      then show ?thesis using e old Cons.prems(3) by (auto simp: es_def)
    next
      case (Some ys)
      with e have "e \<in> set ys" by (simp add: es_def)
      from update_firstR_Some [OF Inr [unfolded Some] this] show ?thesis
        using old e(2) by fastforce
    qed
    then have "cid_dead cid st1"
      using cid_deadD [OF Cons.prems(2)] set_update_subset [of _ ?k es "reg_byCapability st"]
      by (intro cid_deadI) (force simp: st1_def)
    from Cons.IH [OF run this] Cons.prems(3) show ?thesis by simp
  qed
qed simp

lemma cid_dead_frame: "reg_byCapability st' = reg_byCapability st \<Longrightarrow> cid_dead cid st' = cid_dead cid st"
  by (simp add: cid_dead_def getAllCapabilities_def)

lemma addDelegation_index:
  assumes "addDelegation key d st = (r, st')"
  shows "\<exists>st2. reg_byCapability st2 = reg_byCapability st \<and>
    (st' = st2 \<or> add_capabilities key d (d_actions d) st2 = (r, st'))"
proof (cases "someR (\<lambda>x. sameDelegationScope x d) (get_list (reg_byKey st) (ki_id key))")
  case (Inl e)
  then show ?thesis using assms by (auto simp: addDelegation_def)
next
  case (Inr b)
  define st1 where "st1 = (if b then st
      else st\<lparr>reg_byKey := AList.update (ki_id key) (get_list (reg_byKey st) (ki_id key) @ [d]) (reg_byKey st)\<rparr>)"
  have cap: "reg_byCapability st1 = reg_byCapability st" by (simp add: st1_def)
  let ?same = "\<lambda>c. if st_keyId c = ki_id key then sameDelegationScope (st_delegation c) d else Inr False"
  show ?thesis
  proof (cases "someR ?same (get_list (reg_byCid st1) (d_cid d))")
    case (Inl e)
    then show ?thesis
      using assms \<open>_ = Inr b\<close> cap by (auto simp: addDelegation_def Let_def st1_def [symmetric])
  next
    case stored: (Inr b')
    define st2 where "st2 = (if b' then st1
        else st1\<lparr>reg_byCid := AList.update (d_cid d) (get_list (reg_byCid st1) (d_cid d) @
            [\<lparr>st_delegation = d, st_parentCid = d_parentCid d, st_keyId = ki_id key\<rparr>]) (reg_byCid st1)\<rparr>)"
    have "add_capabilities key d (d_actions d) st2 = (r, st')"
      using assms Inr stored by (simp add: addDelegation_def Let_def st1_def [symmetric] st2_def [symmetric])
    moreover have "reg_byCapability st2 = reg_byCapability st" by (simp add: st2_def cap)
    ultimately show ?thesis by blast
  qed
qed

lemma addDelegation_dead:
  "addDelegation key d st = (r, st') \<Longrightarrow> cid_dead cid st \<Longrightarrow> d_cid d \<noteq> cid \<Longrightarrow> cid_dead cid st'"
proof -
  assume run: "addDelegation key d st = (r, st')" and dead: "cid_dead cid st" and d: "d_cid d \<noteq> cid"
  from addDelegation_index [OF run] obtain st2 where cap: "reg_byCapability st2 = reg_byCapability st"
      and "st' = st2 \<or> add_capabilities key d (d_actions d) st2 = (r, st')" by blast
  then show ?thesis
    using dead d add_capabilities_dead [of key d "d_actions d" st2 r st' cid] cid_dead_frame [OF cap, of cid] by auto
qed

fun adds_cid :: "string \<Rightarrow> reg_op \<Rightarrow> bool" where
  "adds_cid cid (RegisterKey key ds) = list_ex (\<lambda>d. d_cid d = cid) ds"
| "adds_cid cid (IngestKey key d p) = (d_cid d = cid)"
| "adds_cid cid _ = False"

lemma add_all_dead:
  "add_all key ds st = (r, st') \<Longrightarrow> cid_dead cid st \<Longrightarrow> \<not> list_ex (\<lambda>d. d_cid d = cid) ds \<Longrightarrow> cid_dead cid st'"
proof (induction ds arbitrary: st)
  case (Cons d ds)
  obtain r1 st1 where one: "addDelegation key d st = (r1, st1)" by fastforce
  with addDelegation_dead [OF one] Cons show ?case by (cases r1) auto
qed simp

lemma store_key_dead: "cid_dead cid st \<Longrightarrow> cid_dead cid (store_key key st)"
  using cid_dead_frame [of "store_key key st" st cid] by (simp add: store_key_def Let_def)

lemma removeKey_dead: "cid_dead cid st \<Longrightarrow> cid_dead cid (removeKey i st)"
  by (intro cid_deadI) (meson cid_deadD remove_capabilities_member)

lemma revoke_dead: "revokeDelegation c st = (r, st') \<Longrightarrow> cid_dead cid st \<Longrightarrow> cid_dead cid st'"
proof -
  assume run: "revokeDelegation c st = (r, st')" and dead: "cid_dead cid st"
  show ?thesis
  proof (cases "st' = st")
    case True
    with dead show ?thesis by simp
  next
    case False
    then have "reg_byCapability st' = map_values (\<lambda>e. e\<lparr>kc_delegation := revoke c (kc_delegation e)\<rparr>) (reg_byCapability st)"
      using run by (auto simp: revokeDelegation_def split: if_split_asm)
    then show ?thesis
      using cid_deadD [OF dead] by (intro cid_deadI) (fastforce simp: map_values_def revoke_def)
  qed
qed

lemma reg_step_dead: "reg_step st op st' \<Longrightarrow> cid_dead cid st \<Longrightarrow> \<not> adds_cid cid op \<Longrightarrow> cid_dead cid st'"
proof (induction rule: reg_step.induct)
  case (register key ds st r st')
  then show ?case using add_all_dead store_key_dead by (auto simp: registerKey_def)
next
  case (ingest key d p st r st')
  then show ?case
    using addDelegation_dead store_key_dead by (auto simp: ingestKey_def Let_def split: option.splits)
next
  case (clear st)
  then show ?case by (simp add: clear_def empty_registry_def cid_dead_def getAllCapabilities_def)
qed (auto intro: removeKey_dead revoke_dead)

lemma reg_run_dead: "reg_run st ops st' \<Longrightarrow> cid_dead cid st \<Longrightarrow> \<not> list_ex (adds_cid cid) ops \<Longrightarrow> cid_dead cid st'"
  by (induction rule: reg_run.induct) (auto intro: reg_step_dead)

text \<open>Revoking a CID leaves no usable entry of it, also when the call reports that the CID is
  unknown.\<close>

lemma revoke_kills: "revokeDelegation cid st = (r, st') \<Longrightarrow> registry_ok st \<Longrightarrow> cid_dead cid st'"
proof (cases "get_list (reg_byCid st) cid = []")
  case True
  assume run: "revokeDelegation cid st = (r, st')" and ok: "registry_ok st"
  have "d_cid (kc_delegation e) \<noteq> cid" if "entry_ok st k e" for k e
  proof -
    from that have "backed st (ki_id (hd (kc_keys e))) (d_cid (kc_delegation e))"
      by (simp add: entry_ok_def list_all_iff)
    then show ?thesis using True by (auto simp: backed_def has_chain_def)
  qed
  then have "cid_dead cid st" using registry_okD [OF ok] by (intro cid_deadI) blast
  then show ?thesis using run True by (simp add: revokeDelegation_def)
next
  case False
  assume "revokeDelegation cid st = (r, st')"
  with False have "reg_byCapability st' =
      map_values (\<lambda>e. e\<lparr>kc_delegation := revoke cid (kc_delegation e)\<rparr>) (reg_byCapability st)"
    by (auto simp: revokeDelegation_def)
  note index = this
  show ?thesis
  proof (rule cid_deadI)
    fix k es e
    assume "(k, es) \<in> set (reg_byCapability st')" "e \<in> set es" and c: "d_cid (kc_delegation e) = cid"
    then obtain e0 where e: "e = e0\<lparr>kc_delegation := revoke cid (kc_delegation e0)\<rparr>"
      unfolding index map_values_def by auto
    then show "d_isRevoked (kc_delegation e)"
      using c by (simp add: revoke_revoked)
  qed
qed

text \<open>C4: once a CID has been revoked in a reachable registry, no capability of that CID is
  usable after any further calls, whatever they return or throw, until a delegation with that
  CID is added again.\<close>

theorem revoked_cid_unusable:
  assumes "reachable st" and "revokeDelegation cid st = (r, st')"
    and "reg_run st' ops st''" and "\<not> list_ex (adds_cid cid) ops"
  shows "cid \<notin> set (usable_cids now st'')"
proof -
  have "registry_ok st" using assms(1) reg_run_ok empty_registry_ok by (auto simp: reachable_def)
  then have "cid_dead cid st'" by (rule revoke_kills [OF assms(2)])
  from reg_run_dead [OF assms(3) this assms(4)] show ?thesis by (rule cid_dead_unusable)
qed

section \<open>Selecting a key\<close>

lemma match_entries_member:
  "match_entries res act results es = Inr out \<Longrightarrow> e \<in> set out \<Longrightarrow>
   e \<in> set results \<or> (e \<in> set es \<and> actionMatches (kc_action e) act \<and> resourceMatchesPattern res (kc_resource e))"
proof (induction es arbitrary: results)
  case (Cons x es)
  show ?case
  proof (cases "actionMatches (kc_action x) act \<and> resourceMatchesPattern res (kc_resource x)")
    case True
    with Cons.prems(1) obtain b where "match_entries res act (if b then results else results @ [x]) es = Inr out"
      by (auto simp: bindR_Inr_iff)
    with Cons.IH Cons.prems(2) True show ?thesis by (fastforce split: if_split_asm)
  next
    case False
    then have "match_entries res act results es = Inr out" using Cons.prems(1) by auto
    from Cons.IH [OF this Cons.prems(2)] show ?thesis by auto
  qed
qed simp

lemma actionMatches_refl [simp]: "actionMatches a a"
  by (simp add: actionMatches_def actionContains_def)

lemma resourceMatches_refl [simp]: "resourceMatchesPattern r r"
  by (simp add: resourceMatchesPattern_def)

text \<open>\<open>makeCapabilityKey\<close> is ambiguous when a path or an action contains a bar; an exact match
  then may be another pair with the same key. An action of the form \<open>service/name\<close> has none.\<close>

lemma makeCapabilityKey_inject:
  "makeCapabilityKey r a = makeCapabilityKey r' a' \<Longrightarrow> CHR ''|'' \<notin> set a \<Longrightarrow> CHR ''|'' \<notin> set a' \<Longrightarrow> r = r' \<and> a = a'"
  using last_sep_inject [of r "CHR ''|''" a r' a'] by (simp add: makeCapabilityKey_def)


lemma foldl_push_key_ids: "ki_id ` set (foldl push_key acc ks) = ki_id ` (set acc \<union> set ks)"
proof (induction ks arbitrary: acc)
  case (Cons k ks)
  have "ki_id ` (set (push_key acc k) \<union> set ks) = ki_id ` (set acc \<union> set (k # ks))"
    by (auto simp: push_key_def has_key_iff)
  with Cons show ?case by simp
qed simp

lemma foldl_push_key_Nil: "foldl push_key [] ks = [] \<longleftrightarrow> ks = []"
  using foldl_push_key_ids [of "[]" ks] by (cases "foldl push_key [] ks = []") auto

definition no_bar :: "registry \<Rightarrow> bool" where
  "no_bar st \<longleftrightarrow> list_all (\<lambda>e. CHR ''|'' \<notin> set (kc_action e)) (getAllCapabilities st)"

lemma findMatchingEntries_member:
  assumes "findMatchingEntries res act st = Inr out" and "e \<in> set out" and "registry_ok st"
    and "no_bar st" and "CHR ''|'' \<notin> set act"
  shows "e \<in> set (getAllCapabilities st) \<and> actionMatches (kc_action e) act \<and> resourceMatchesPattern res (kc_resource e)"
proof -
  let ?exact = "get_list (reg_byCapability st) (makeCapabilityKey res act)"
  consider "e \<in> set ?exact" | "e \<in> set (getAllCapabilities st)" "actionMatches (kc_action e) act"
      "resourceMatchesPattern res (kc_resource e)"
    using match_entries_member [OF assms(1) [unfolded findMatchingEntries_def Let_def] assms(2)]
    by (force simp: getAll_iff)
  then show ?thesis
  proof cases
    case 1
    then obtain es where es: "(makeCapabilityKey res act, es) \<in> set (reg_byCapability st)" "e \<in> set es"
      using get_list_member by metis
    then have all: "e \<in> set (getAllCapabilities st)" by (auto simp: getAll_iff)
    then have "CHR ''|'' \<notin> set (kc_action e)" using assms(4) by (simp add: no_bar_def list_all_iff)
    moreover have "makeCapabilityKey res act = makeCapabilityKey (kc_resource e) (kc_action e)"
      using registry_okD [OF assms(3) es] by (simp add: entry_ok_def)
    ultimately have "kc_resource e = res \<and> kc_action e = act"
      using makeCapabilityKey_inject assms(5) by metis
    with all show ?thesis by simp
  qed simp
qed





text \<open>In a reachable registry getKeyForCapability returns no key exactly when none of the
  entries that match the request is valid, so whenever there is a valid one a key is found.\<close>

theorem getKeyForCapability_complete:
  assumes "reachable st" and "findMatchingEntries res act st = Inr out" and "no_bar st" and "CHR ''|'' \<notin> set act"
  shows "getKeyForCapability now res act st = Inr None \<longleftrightarrow>
    \<not> list_ex (\<lambda>e. isDelegationValid now (kc_delegation e)) out"
proof -
  have ok: "registry_ok st" using assms(1) reg_run_ok empty_registry_ok by (auto simp: reachable_def)
  let ?ks = "concat (map kc_keys (filter (\<lambda>e. isDelegationValid now (kc_delegation e)) out))"
  have "kc_keys e \<noteq> []" if "e \<in> set out" for e
    using findMatchingEntries_member [OF assms(2) that ok assms(3,4)] registry_okD [OF ok]
    by (fastforce simp: getAll_iff entry_ok_def)
  then have "?ks = [] \<longleftrightarrow> \<not> list_ex (\<lambda>e. isDelegationValid now (kc_delegation e)) out"
    by (auto simp: list_ex_iff filter_empty_conv)
  moreover have "foldl push_key [] ?ks = [] \<longleftrightarrow> ?ks = []"
    by (rule foldl_push_key_Nil)
  ultimately show ?thesis
    using assms(2) by (simp add: getKeyForCapability_def Let_def)
qed

section \<open>Samples\<close>

lemma reachable_register: "reachable st \<Longrightarrow> reachable (snd (registerKey key ds st))"
proof -
  assume "reachable st"
  then obtain ops where "reg_run empty_registry ops st" by (auto simp: reachable_def)
  moreover have "reg_run st [RegisterKey key ds] (snd (registerKey key ds st))"
    by (rule reg_run.step [OF reg_step.register reg_run.stop]) (rule prod.collapse [symmetric])
  moreover have "reg_run a xs b \<Longrightarrow> reg_run b ys c \<Longrightarrow> reg_run a (xs @ ys) c" for a b c xs ys
    by (induction rule: reg_run.induct) (auto intro: reg_run.step)
  ultimately show ?thesis unfolding reachable_def by blast
qed

lemma reachable_empty: "reachable empty_registry"
  by (auto simp: reachable_def intro: reg_run.stop)

definition sample_session_key :: key_info where
  "sample_session_key = \<lparr>ki_id = ''s'', ki_did = ''did:key:s'', ki_type = SessionKey, ki_priority = 0\<rparr>"

definition sample_delegation :: delegation where
  "sample_delegation = \<lparr>d_cid = ''bafy'', d_delegateDID = ''did:key:s'', d_spaceId = ''default'', d_path = ''notes/'',
     d_actions = [''tinycloud.kv/*''], d_caveats = None, d_expiry = Some (At 100), d_isRevoked = False, d_parentCid = None\<rparr>"

definition sample_registry :: registry where
  "sample_registry = snd (registerKey sample_session_key [sample_delegation] empty_registry)"

lemma sample_reachable: "reachable sample_registry"
  unfolding sample_registry_def by (rule reachable_register [OF reachable_empty])

lemma registry_invariant_witness: "registry_ok sample_registry"
  by (rule registry_invariant [OF sample_reachable])

lemma revoked_cid_unusable_witness: "''bafy'' \<notin> set (usable_cids 50 (removeKey ''x'' (snd (revokeDelegation ''bafy'' sample_registry))))"
proof (rule revoked_cid_unusable [OF sample_reachable])
  let ?st = "snd (revokeDelegation ''bafy'' sample_registry)"
  show "revokeDelegation ''bafy'' sample_registry = (fst (revokeDelegation ''bafy'' sample_registry), ?st)" by simp
  show "reg_run ?st [RemoveKey ''x''] (removeKey ''x'' ?st)"
    by (rule reg_run.step [OF reg_step.remove reg_run.stop])
  show "\<not> list_ex (adds_cid ''bafy'') [RemoveKey ''x'']" by simp
qed

lemma sample_no_bar: "no_bar sample_registry"
  by code_simp


lemma sample_find: "findMatchingEntries ''notes/a'' ''tinycloud.kv/get'' sample_registry =
    Inr [\<lparr>kc_resource = ''notes/'', kc_action = ''tinycloud.kv/*'', kc_keys = [sample_session_key],
          kc_delegation = sample_delegation, kc_expiresAt = Some (At 100)\<rparr>]"
  by code_simp


lemma getKeyForCapability_complete_witness:
  "getKeyForCapability 200 ''notes/a'' ''tinycloud.kv/get'' sample_registry = Inr None"
  using getKeyForCapability_complete [OF sample_reachable sample_find sample_no_bar, of 200]
  by (simp add: sample_delegation_def isDelegationValid_def)

end
