(* ===== verification/Jcs.thy ===== *)
theory Jcs
  imports Json
begin

text \<open>
  \<^verbatim>\<open>packages/sdk-core/src/policy/jcs.ts\<close>: the encoder for signed objects. An input is any
  JavaScript value, described by what the code can observe of it: its own property names with
  their descriptors, whether it is an array and how long, whether its prototype is a plain
  one, and whether it has symbol properties. \<open>normalizeJson\<close> either throws, naming the path,
  or returns a JSON value; \<open>jcsCanonicalize\<close> writes that value with sorted keys.

  What the lemmas show: which strings are accepted (the UTF-16 encodings of Unicode scalar
  values), what a normalised value looks like, that normalising one changes nothing, and that
  two inputs have the same canonical text exactly when they are the same value.
\<close>

section \<open>Inputs\<close>

text \<open>\<open>OtherR\<close> stands for undefined, functions, symbols and big integers. \<open>ArrR sym len ps\<close>
  and \<open>ObjR sym plain ps\<close> are objects: \<open>sym\<close> says that there are symbol properties, \<open>ps\<close> lists
  the own property names in order with their descriptors (for an array without \<open>length\<close>, which
  the code skips).\<close>

datatype raw =
    NullR
  | BoolR bool
  | NumR jnumber
  | StrR ustring
  | OtherR
  | ArrR bool nat "(ustring \<times> descriptor) list"
  | ObjR bool bool "(ustring \<times> descriptor) list"
and descriptor = Data (enumerable: bool) raw | Accessor (enumerable: bool)

text \<open>\<open>new SignedObjectCanonicalizationError(message)\<close>\<close>

datatype canonicalization_error = SignedObjectCanonicalizationError ustring

definition jcs_error :: "ustring \<Rightarrow> string \<Rightarrow> canonicalization_error" where
  "jcs_error path msg = SignedObjectCanonicalizationError (path @ ustr msg)"

section \<open>Operations\<close>

fun assertUnicodeScalarString :: "ustring \<Rightarrow> ustring \<Rightarrow> (canonicalization_error, unit) result" where
  "assertUnicodeScalarString [] path = Inr ()"
| "assertUnicodeScalarString (code # rest) path =
     (if high code then
        (case rest of
           [] \<Rightarrow> Inl (jcs_error path '' contains a lone high surrogate'')
         | next # rest' \<Rightarrow>
             if next < 0xDC00 \<or> next > 0xDFFF
             then Inl (jcs_error path '' contains a lone high surrogate'')
             else assertUnicodeScalarString rest' path)
      else if low code then Inl (jcs_error path '' contains a lone low surrogate'')
      else assertUnicodeScalarString rest path)"

definition unit_digit :: "16 word \<Rightarrow> bool" where
  "unit_digit u \<longleftrightarrow> 0x30 \<le> u \<and> u \<le> 0x39"

definition units_number :: "ustring \<Rightarrow> nat" where
  "units_number s = foldl (\<lambda>n u. 10 * n + unat (u - 0x30)) 0 s"

text \<open>The pattern \<^verbatim>\<open>/^(0|[1-9]\d*)$/\<close>, then a safe integer below the length.\<close>

definition isArrayIndexKey :: "ustring \<Rightarrow> nat \<Rightarrow> bool" where
  "isArrayIndexKey key len \<longleftrightarrow>
     (if \<not> (key = [0x30] \<or> (key \<noteq> [] \<and> list_all unit_digit key \<and> hd key \<noteq> 0x30)) then False
      else units_number key \<le> 2 ^ 53 - 1 \<and> units_number key < len)"

definition index_key :: "nat \<Rightarrow> ustring" where
  "index_key i = ustr (dec_of_nat i)"

definition assertNoSymbolKeys :: "bool \<Rightarrow> ustring \<Rightarrow> (canonicalization_error, unit) result" where
  "assertNoSymbolKeys symbols path = throw_if symbols (jcs_error path '' must not have symbol properties'')"

text \<open>The loop over the own names of an array, and the one over those of an object (the
  value of a data property is normalised afterwards, in \<open>normalizeJson\<close>).\<close>

definition check_array_key ::
  "nat \<Rightarrow> ustring \<Rightarrow> ustring \<times> descriptor \<Rightarrow> (canonicalization_error, unit) result" where
  "check_array_key len path p =
     (case p of (key, d) \<Rightarrow>
        if \<not> isArrayIndexKey key len
        then Inl (jcs_error (path @ ustr ''.'' @ key) '' is not allowed on a JSON array'')
        else if \<not> enumerable d
        then Inl (jcs_error (path @ ustr ''['' @ key @ ustr '']'') '' must be an enumerable JSON array item'')
        else case d of
          Accessor _ \<Rightarrow> Inl (jcs_error (path @ ustr ''['' @ key @ ustr '']'') '' must be a JSON data property'')
        | Data _ _ \<Rightarrow> Inr ())"

definition check_object_key :: "ustring \<Rightarrow> ustring \<times> descriptor \<Rightarrow> (canonicalization_error, unit) result" where
  "check_object_key path p =
     (case p of (key, d) \<Rightarrow>
        bindR (assertUnicodeScalarString key (path @ ustr '' key'')) (\<lambda>_.
        if key = ustr ''__proto__'' \<or> key = ustr ''constructor''
        then Inl (jcs_error (path @ ustr ''.'' @ key) '' is not allowed'')
        else if \<not> enumerable d
        then Inl (jcs_error (path @ ustr ''.'' @ key) '' must be an enumerable JSON object property'')
        else case d of
          Accessor _ \<Rightarrow> Inl (jcs_error (path @ ustr ''.'' @ key) '' must be a JSON data property'')
        | Data _ _ \<Rightarrow> Inr ()))"

text \<open>\<open>normalizeJsonObjectOrArray\<close> is the last two equations. An item that is missing is a
  sparse hole. An accessor never reaches \<open>normalizeDescriptor\<close>: the checks before it throw.\<close>

fun normalizeJson :: "raw \<Rightarrow> ustring \<Rightarrow> (canonicalization_error, json) result"
  and normalizeDescriptor :: "descriptor \<Rightarrow> ustring \<Rightarrow> (canonicalization_error, json) result" where
  "normalizeJson NullR path = Inr NullJ"
| "normalizeJson (BoolR b) path = Inr (BoolJ b)"
| "normalizeJson (NumR n) path =
     (if \<not> finite_number n then Inl (jcs_error path '' must be a finite JSON number'') else Inr (NumJ n))"
| "normalizeJson (StrR s) path = bindR (assertUnicodeScalarString s path) (\<lambda>_. Inr (StrJ s))"
| "normalizeJson OtherR path = Inl (jcs_error path '' is not a JSON value'')"
| "normalizeJson (ArrR symbols len ps) path =
     bindR (assertNoSymbolKeys symbols path) (\<lambda>_.
     bindR (mapR (check_array_key len path) ps) (\<lambda>_.
     let items = map (\<lambda>(k, d). (k, normalizeDescriptor d (path @ ustr ''['' @ k @ ustr '']''))) ps
     in bindR (mapR (\<lambda>i. case map_of items (index_key i) of
                None \<Rightarrow> Inl (jcs_error (path @ ustr ''['' @ index_key i @ ustr '']'') '' must not be a sparse array hole'')
              | Some r \<Rightarrow> r) [0..<len]) (\<lambda>vs. Inr (ArrJ vs))))"
| "normalizeJson (ObjR symbols plain ps) path =
     bindR (assertNoSymbolKeys symbols path) (\<lambda>_.
     if \<not> plain then Inl (jcs_error path '' must be a plain JSON object'')
     else bindR (mapR (\<lambda>(key, d). bindR (check_object_key path (key, d)) (\<lambda>_.
            bindR (normalizeDescriptor d (path @ ustr ''.'' @ key)) (\<lambda>v. Inr (key, v)))) ps)
          (\<lambda>fs. Inr (ObjJ fs)))"
| "normalizeDescriptor (Data _ v) path = normalizeJson v path"
| "normalizeDescriptor (Accessor _) path = Inl (jcs_error path '' must be a JSON data property'')"

definition jcsCanonicalize :: "raw \<Rightarrow> (canonicalization_error, ustring) result" where
  "jcsCanonicalize input = bindR (normalizeJson input (ustr ''$'')) (\<lambda>v. Inr (serialize v))"

section \<open>Accepted strings\<close>

definition scalar_string :: "ustring \<Rightarrow> bool" where
  "scalar_string s = is_ok (assertUnicodeScalarString s [])"

lemma scalar_ok: "is_ok (assertUnicodeScalarString s path) = scalar_string s"
proof -
  have "is_ok (assertUnicodeScalarString s p) = is_ok (assertUnicodeScalarString s q)" for p q
    by (induction s p rule: assertUnicodeScalarString.induct) (auto split: list.splits)
  then show ?thesis by (simp add: scalar_string_def)
qed

lemma scalar_iff [result_iff]: "assertUnicodeScalarString s path = Inr u \<longleftrightarrow> scalar_string s"
  by (metis is_ok_iff old.unit.exhaust scalar_ok)

lemma not_low_iff: "u < 0xDC00 \<or> u > 0xDFFF \<longleftrightarrow> \<not> low u"
  by (auto simp: low_def not_less not_le)

lemma scalar_simps [simp]:
  "scalar_string []"
  "scalar_string (u # s) =
     (if high u then (case s of [] \<Rightarrow> False | v # r \<Rightarrow> low v \<and> scalar_string r)
      else \<not> low u \<and> scalar_string s)"
  by (auto simp: scalar_string_def not_low_iff split: list.split)

lemma scalar_induct [consumes 1, case_names Nil pair unit]:
  assumes "scalar_string s" and "P []"
    and "\<And>u v r. high u \<Longrightarrow> low v \<Longrightarrow> scalar_string r \<Longrightarrow> P r \<Longrightarrow> P (u # v # r)"
    and "\<And>u r. \<not> high u \<Longrightarrow> \<not> low u \<Longrightarrow> scalar_string r \<Longrightarrow> P r \<Longrightarrow> P (u # r)"
  shows "P s"
  using assms(1)
proof (induction s rule: length_induct)
  case (1 s)
  then show ?case
    using assms(2-) by (cases s; cases "tl s") (auto split: if_split_asm)
qed

text \<open>The UTF-16 encoding of a code point (Unicode, D91).\<close>

definition scalar_value :: "nat \<Rightarrow> bool" where
  "scalar_value n \<longleftrightarrow> n < 0xD800 \<or> (0xE000 \<le> n \<and> n < 0x110000)"

definition utf16 :: "nat \<Rightarrow> ustring" where
  "utf16 n = (if n < 0x10000 then [of_nat n]
     else [of_nat (0xD800 + (n - 0x10000) div 0x400), of_nat (0xDC00 + (n - 0x10000) mod 0x400)])"

lemma unat16_of_nat: "n < 65536 \<Longrightarrow> unat (of_nat n :: 16 word) = n"
  by (rule of_nat_inverse [OF refl]) simp

lemma high_unat: "high u \<longleftrightarrow> 0xD800 \<le> unat u \<and> unat u \<le> 0xDBFF" for u :: "16 word"
  by (simp add: word_le_nat_alt high_def)

lemma low_unat: "low u \<longleftrightarrow> 0xDC00 \<le> unat u \<and> unat u \<le> 0xDFFF" for u :: "16 word"
  by (simp add: word_le_nat_alt low_def)

lemma high_not_low: "high u \<Longrightarrow> \<not> low u"
  by (simp add: high_unat low_unat)

lemma scalar_utf16: "scalar_value n \<Longrightarrow> scalar_string (utf16 n @ s) = scalar_string s"
proof (cases "n < 0x10000")
  case True
  assume "scalar_value n"
  with True show ?thesis
    by (auto simp: utf16_def high_unat low_unat unat16_of_nat scalar_value_def)
next
  case False
  assume v: "scalar_value n"
  let ?m = "n - 0x10000"
  have "?m div 0x400 < 0x400" "?m mod 0x400 < 0x400"
    using v False by (auto simp: scalar_value_def)
  then have "high (of_nat (0xD800 + ?m div 0x400) :: 16 word)" "low (of_nat (0xDC00 + ?m mod 0x400) :: 16 word)"
    unfolding high_unat low_unat by (simp_all add: unat16_of_nat del: of_nat_add)
  with False show ?thesis
    by (simp add: utf16_def del: of_nat_add)
qed

lemma unat16_less: "unat (u :: 16 word) < 65536"
proof -
  have "unat u < 2 ^ LENGTH(16)" by (rule unsigned_less)
  then show ?thesis by simp
qed

lemma pair_utf16:
  fixes u v :: "16 word"
  assumes "high u" and "low v"
  shows "\<exists>n. scalar_value n \<and> utf16 n = [u, v]"
proof -
  define a b where "a = unat u - 0xD800" and "b = unat v - 0xDC00"
  have a: "unat u = 0xD800 + a" "a < 0x400" and b: "unat v = 0xDC00 + b" "b < 0x400"
    using assms unfolding high_unat low_unat a_def b_def by auto
  have n: "(0x400 * a + b) div 0x400 = a" "(0x400 * a + b) mod 0x400 = b"
    using b(2) by simp_all
  have "utf16 (0x10000 + (0x400 * a + b)) = [of_nat (unat u), of_nat (unat v)]"
    unfolding utf16_def a b using n by (simp del: of_nat_add)
  moreover have "scalar_value (0x10000 + (0x400 * a + b))"
    using a(2) b(2) by (simp add: scalar_value_def)
  ultimately show ?thesis
    by (metis of_nat_unat ucast_id)
qed

lemma scalar_decode: "scalar_string s \<Longrightarrow> \<exists>cps. list_all scalar_value cps \<and> s = concat (map utf16 cps)"
proof (induction s rule: scalar_induct)
  case Nil
  show ?case by (rule exI [of _ "[]"]) simp
next
  case (pair u v r)
  then obtain cps n where "list_all scalar_value cps" "r = concat (map utf16 cps)"
      "scalar_value n" "utf16 n = [u, v]"
    using pair_utf16 by blast
  then have "list_all scalar_value (n # cps)" "u # v # r = concat (map utf16 (n # cps))"
    by simp_all
  then show ?case by blast
next
  case (unit u r)
  then obtain cps where c: "list_all scalar_value cps" "r = concat (map utf16 cps)"
    by blast
  have "scalar_value (unat u)" "utf16 (unat u) = [u]"
    using unit(1,2) unat16_less [of u] unfolding high_unat low_unat scalar_value_def utf16_def by auto
  with c have "list_all scalar_value (unat u # cps)" "u # r = concat (map utf16 (unat u # cps))"
    by simp_all
  then show ?case by blast
qed

lemma scalar_encode: "list_all scalar_value cps \<Longrightarrow> scalar_string (concat (map utf16 cps))"
  by (induction cps) (simp_all add: scalar_utf16 del: scalar_simps(2))

text \<open>AssertUnicodeScalarString accepts a string exactly when it is the UTF-16 encoding
  of a sequence of Unicode scalar values: every accepted string can be encoded as UTF-8 and
  back without loss, and no string that can is refused.\<close>

theorem scalar_strings_are_utf16:
  "assertUnicodeScalarString s path = Inr () \<longleftrightarrow>
   (\<exists>cps. list_all scalar_value cps \<and> s = concat (map utf16 cps))"
  using scalar_decode [of s] scalar_encode by (auto simp: scalar_iff)

section \<open>Normalised values\<close>

definition allowed_key :: "ustring \<Rightarrow> bool" where
  "allowed_key k \<longleftrightarrow> scalar_string k \<and> k \<noteq> ustr ''__proto__'' \<and> k \<noteq> ustr ''constructor''"

fun json_ok :: "json \<Rightarrow> bool" where
  "json_ok (NumJ n) = finite_number n"
| "json_ok (StrJ s) = scalar_string s"
| "json_ok (ArrJ xs) = (length xs \<le> 2 ^ 53 \<and> list_all json_ok xs)"
| "json_ok (ObjJ fs) = list_all (\<lambda>(k, v). allowed_key k \<and> json_ok v) fs"
| "json_ok _ = True"

text \<open>A normalised value seen as an input again.\<close>

fun raw_of :: "json \<Rightarrow> raw" where
  "raw_of NullJ = NullR"
| "raw_of (BoolJ b) = BoolR b"
| "raw_of (NumJ n) = NumR n"
| "raw_of (StrJ s) = StrR s"
| "raw_of (ArrJ xs) =
     ArrR False (length xs) (zip (map index_key [0..<length xs]) (map (\<lambda>v. Data True (raw_of v)) xs))"
| "raw_of (ObjJ fs) = ObjR False True (map (\<lambda>(k, v). (k, Data True (raw_of v))) fs)"

lemma check_array_key_iff [result_iff]:
  "check_array_key len path (k, d) = Inr u \<longleftrightarrow> isArrayIndexKey k len \<and> (\<exists>v. d = Data True v)"
  by (cases d) (auto simp: check_array_key_def)

lemma check_object_key_iff [result_iff]:
  "check_object_key path (k, d) = Inr u \<longleftrightarrow> allowed_key k \<and> (\<exists>v. d = Data True v)"
  by (cases d) (auto simp: check_object_key_def allowed_key_def result_iff)

lemma unit_digit_of: "is_digit c \<Longrightarrow> unit_digit (unit_of c) \<and> unat (unit_of c - 0x30) = char_digit c"
proof -
  assume c: "is_digit c"
  then have r: "48 \<le> (of_char c :: nat)" "(of_char c :: nat) \<le> 57"
    by (auto simp: is_digit_def less_eq_char_def)
  have le: "0x30 \<le> unit_of c" "unit_of c \<le> 0x39"
    using r by (simp_all add: word_le_nat_alt unat_unit_of)
  have "unat (unit_of c - 0x30) = unat (unit_of c) - unat (0x30 :: 16 word)"
    by (rule unat_sub [OF le(1)])
  with le show ?thesis
    by (simp add: unit_digit_def unat_unit_of char_digit_def)
qed

lemma units_number_ustr: "list_all is_digit s \<Longrightarrow> units_number (ustr s) = nat_of_dec s"
proof -
  have "list_all is_digit s \<Longrightarrow>
    foldl (\<lambda>n u. 10 * n + unat (u - 0x30)) m (ustr s) = foldl (\<lambda>n c. 10 * n + char_digit c) m s" for m
    by (induction s arbitrary: m) (simp_all add: ustr_def unit_digit_of)
  then show "list_all is_digit s \<Longrightarrow> units_number (ustr s) = nat_of_dec s"
    by (simp add: units_number_def nat_of_dec_def)
qed

lemma dec_of_nat_list_all: "list_all is_digit (dec_of_nat n)"
  using dec_of_nat_digits [of n] by (simp add: list_all_iff)

lemma units_number_index: "units_number (index_key i) = i"
  by (simp add: index_key_def units_number_ustr dec_of_nat_list_all)

lemma dec_of_nat_head: "n \<noteq> 0 \<Longrightarrow> hd (dec_of_nat n) \<noteq> CHR ''0''"
proof (induction n rule: dec_of_nat.induct)
  case (1 n)
  show ?case
  proof (cases "n < 10")
    case True
    then have "n \<in> set [1..<10]" using 1(2) by simp
    moreover have "list_all (\<lambda>d. digit_char d \<noteq> CHR ''0'') [1..<10]" by code_simp
    ultimately have "digit_char n \<noteq> CHR ''0''" unfolding list_all_iff by blast
    with True show ?thesis by (simp add: dec_of_nat.simps [of n])
  next
    case False
    then show ?thesis using 1 by (simp add: dec_of_nat.simps [of n] div_eq_0_iff)
  qed
qed

lemma index_key_pattern: "index_key i = [0x30] \<or> index_key i \<noteq> [] \<and> list_all unit_digit (index_key i) \<and> hd (index_key i) \<noteq> 0x30"
proof (cases "i = 0")
  case True
  have "digit_char 0 = CHR ''0''" by code_simp
  with True show ?thesis by (simp add: index_key_def dec_of_nat.simps [of 0] ustr_def unit_of_def)
next
  case False
  have "list_all unit_digit (index_key i)"
    using dec_of_nat_list_all [of i] by (simp add: index_key_def ustr_def list_all_iff unit_digit_of)
  moreover have "hd (index_key i) = unit_of (hd (dec_of_nat i))"
    by (simp add: index_key_def ustr_def hd_map)
  moreover have "unit_of (hd (dec_of_nat i)) \<noteq> unit_of CHR ''0''"
    using dec_of_nat_head [OF False] by (simp add: unit_of_inject)
  ultimately show ?thesis
    by (simp add: unit_of_def index_key_def ustr_def)
qed

lemma index_key_ok: "isArrayIndexKey (index_key i) len \<longleftrightarrow> i < 2 ^ 53 \<and> i < len"
  using index_key_pattern [of i] by (auto simp: isArrayIndexKey_def units_number_index)

lemma index_key_inject: "index_key i = index_key j \<longleftrightarrow> i = j"
  by (metis units_number_index)

lemma items_lookup:
  "map_of (zip (map index_key [0..<length xs]) (map f xs)) (index_key i) =
     (if i < length xs then Some (f (xs ! i)) else None)"
proof -
  have d: "distinct (map index_key [0..<length xs])"
    by (simp add: distinct_map inj_on_def index_key_inject)
  show ?thesis
  proof (cases "i < length xs")
    case True
    with map_of_zip_nth [OF _ d, of "map f xs" i] show ?thesis by simp
  next
    case False
    then have "index_key i \<notin> set (map index_key [0..<length xs])"
      by (auto simp: index_key_inject)
    with False show ?thesis by (simp add: map_of_zip_is_None)
  qed
qed

text \<open>What normalising an array or an object amounts to.\<close>

lemma normalize_array_iff:
  "normalizeJson (ArrR symbols len ps) path = Inr v \<longleftrightarrow>
     \<not> symbols \<and> list_all (\<lambda>(k, d). isArrayIndexKey k len \<and> (\<exists>w. d = Data True w)) ps \<and>
     (\<exists>vs. v = ArrJ vs \<and> list_all2 (\<lambda>i x. \<exists>w. map_of ps (index_key i) = Some (Data True w) \<and>
        normalizeJson w (path @ ustr ''['' @ index_key i @ ustr '']'') = Inr x) [0..<len] vs)"
proof -
  let ?items = "map (\<lambda>(k, d). (k, normalizeDescriptor d (path @ ustr ''['' @ k @ ustr '']''))) ps"
  have keys: "(\<exists>u. mapR (check_array_key len path) ps = Inr u) \<longleftrightarrow>
      list_all (\<lambda>(k, d). isArrayIndexKey k len \<and> (\<exists>w. d = Data True w)) ps"
    by (auto simp: mapR_ok_iff is_ok_iff list_all_iff result_iff)
  have item: "(case map_of ?items (index_key i) of None \<Rightarrow> Inl e | Some r \<Rightarrow> r) = Inr x \<longleftrightarrow>
      (\<exists>w. map_of ps (index_key i) = Some (Data True w) \<and>
        normalizeJson w (path @ ustr ''['' @ index_key i @ ustr '']'') = Inr x)"
    if "list_all (\<lambda>(k, d). isArrayIndexKey k len \<and> (\<exists>w. d = Data True w)) ps" for i x e
  proof -
    have "map_of ?items (index_key i) =
        map_option (\<lambda>d. normalizeDescriptor d (path @ ustr ''['' @ index_key i @ ustr '']'')) (map_of ps (index_key i))"
      by (induction ps) auto
    moreover have "\<exists>w. d = Data True w" if "map_of ps (index_key i) = Some d" for d
      using map_of_SomeD [OF that] \<open>list_all _ ps\<close> by (auto simp: list_all_iff)
    ultimately show ?thesis by (cases "map_of ps (index_key i)") fastforce+
  qed
  show ?thesis
  proof (cases "list_all (\<lambda>(k, d). isArrayIndexKey k len \<and> (\<exists>w. d = Data True w)) ps")
    case True
    then obtain us where us: "mapR (check_array_key len path) ps = Inr us" using keys by blast
    show ?thesis
      unfolding normalizeJson.simps Let_def us bindR.simps bindR_Inr_iff mapR_Inr_iff item [OF True]
      using True by (auto simp: assertNoSymbolKeys_def throw_if_Inr_iff)
  next
    case False
    then have "mapR (check_array_key len path) ps \<noteq> Inr us" for us using keys by blast
    with False show ?thesis by (simp add: bindR_Inr_iff)
  qed
qed

lemma normalize_object_iff:
  "normalizeJson (ObjR symbols plain ps) path = Inr v \<longleftrightarrow>
     \<not> symbols \<and> plain \<and>
     (\<exists>fs. v = ObjJ fs \<and> list_all2 (\<lambda>p q. fst q = fst p \<and> allowed_key (fst p) \<and>
        (\<exists>w. snd p = Data True w \<and> normalizeJson w (path @ ustr ''.'' @ fst p) = Inr (snd q))) ps fs)"
proof -
  have entry: "(case p of (key, d) \<Rightarrow> bindR (check_object_key path (key, d)) (\<lambda>_.
            bindR (normalizeDescriptor d (path @ ustr ''.'' @ key)) (\<lambda>v. Inr (key, v)))) = Inr q \<longleftrightarrow>
        fst q = fst p \<and> allowed_key (fst p) \<and>
        (\<exists>w. snd p = Data True w \<and> normalizeJson w (path @ ustr ''.'' @ fst p) = Inr (snd q))" for p q
    by (cases p; cases q) (auto simp: result_iff)
  show ?thesis
    unfolding normalizeJson.simps assertNoSymbolKeys_def bindR_Inr_iff throw_if_Inr_iff
    by (cases plain) (simp_all only: not_True_eq_False not_False_eq_True if_False if_True bindR_Inr_iff mapR_Inr_iff entry, auto)
qed

text \<open>A normalised value, seen as an input, normalises to itself.\<close>

lemma normalize_raw_of: "json_ok v \<Longrightarrow> normalizeJson (raw_of v) path = Inr v"
proof (induction v arbitrary: path rule: json_ok.induct)
  case (3 xs)
  have "list_all (\<lambda>(k, d). isArrayIndexKey k (length xs) \<and> (\<exists>w. d = Data True w))
      (zip (map index_key [0..<length xs]) (map (\<lambda>v. Data True (raw_of v)) xs))"
    using 3(2) by (auto simp: list_all_length index_key_ok)
  moreover have "list_all2 (\<lambda>i x. normalizeJson (raw_of (xs ! i)) (path @ ustr ''['' @ index_key i @ ustr '']'') = Inr x)
      [0..<length xs] xs"
    using 3 by (auto simp: list_all2_conv_all_nth list_all_length)
  then have "list_all2 (\<lambda>i x. \<exists>w. map_of (zip (map index_key [0..<length xs]) (map (\<lambda>v. Data True (raw_of v)) xs)) (index_key i)
        = Some (Data True w) \<and> normalizeJson w (path @ ustr ''['' @ index_key i @ ustr '']'') = Inr x) [0..<length xs] xs"
    by (auto simp: items_lookup list_all2_conv_all_nth)
  ultimately show ?case
    unfolding raw_of.simps normalize_array_iff by blast
next
  case (4 fs)
  then show ?case
    unfolding raw_of.simps normalize_object_iff
    by (auto simp: list_all2_conv_all_nth list_all_length split_def) (metis nth_mem prod.collapse)
qed (auto simp: scalar_iff bindR_Inr_iff)

lemma normalize_ok:
  "normalizeJson r path = Inr v \<Longrightarrow> json_ok v"
  "normalizeDescriptor d path = Inr v \<Longrightarrow> json_ok v"
proof (induction r path and d path arbitrary: v and v rule: normalizeJson_normalizeDescriptor.induct)
  case (6 symbols len ps path)
  from 6(2) obtain vs where vs: "v = ArrJ vs"
    and items: "list_all2 (\<lambda>i x. \<exists>w. map_of ps (index_key i) = Some (Data True w) \<and>
        normalizeJson w (path @ ustr ''['' @ index_key i @ ustr '']'') = Inr x) [0..<len] vs"
    and keys: "list_all (\<lambda>(k, d). isArrayIndexKey k len \<and> (\<exists>w. d = Data True w)) ps"
    unfolding normalize_array_iff by blast
  have item: "\<exists>w. map_of ps (index_key i) = Some (Data True w) \<and>
        normalizeJson w (path @ ustr ''['' @ index_key i @ ustr '']'') = Inr (vs ! i)" if "i < length vs" for i
    using items that by (auto simp: list_all2_conv_all_nth)
  have len: "length vs = len"
    using items by (auto dest: list_all2_lengthD)
  have "i < 2 ^ 53" if i: "i < length vs" for i
  proof -
    obtain w where "(index_key i, Data True w) \<in> set ps"
      using item [OF i] map_of_SomeD by metis
    with keys show ?thesis by (auto simp: list_all_iff index_key_ok)
  qed
  then have "length vs \<le> 2 ^ 53" by (meson less_irrefl not_le)
  moreover have "json_ok (vs ! i)" if i: "i < length vs" for i
  proof -
    obtain w where w: "(index_key i, Data True w) \<in> set ps"
      "normalizeJson w (path @ ustr ''['' @ index_key i @ ustr '']'') = Inr (vs ! i)"
      using item [OF i] map_of_SomeD by metis
    show ?thesis
      using 6(1) [OF w(1) refl] w(2) by simp
  qed
  ultimately show ?case by (simp add: vs list_all_length)
next
  case (7 symbols plain ps path)
  from 7(2) obtain fs where fs: "v = ObjJ fs" and items: "list_all2 (\<lambda>p q. fst q = fst p \<and> allowed_key (fst p) \<and>
        (\<exists>w. snd p = Data True w \<and> normalizeJson w (path @ ustr ''.'' @ fst p) = Inr (snd q))) ps fs"
      and plain: "plain"
    unfolding normalize_object_iff by blast
  have "allowed_key (fst (fs ! i)) \<and> json_ok (snd (fs ! i))" if i: "i < length fs" for i
  proof -
    from items i obtain w where w: "i < length ps" "fst (fs ! i) = fst (ps ! i)" "allowed_key (fst (ps ! i))"
      "ps ! i = (fst (ps ! i), Data True w)" "normalizeJson w (path @ ustr ''.'' @ fst (ps ! i)) = Inr (snd (fs ! i))"
      by (auto simp: list_all2_conv_all_nth) (metis prod.collapse)
    show ?thesis
      using 7(1) [of "ps ! i" "fst (ps ! i)" "Data True w"] w plain by auto
  qed
  then show ?case by (simp add: fs list_all_length split_def)
qed (auto simp: result_iff split: if_split_asm)

text \<open>The values normalizeJson returns are exactly those with finite numbers, strings of
  Unicode scalar values and keys other than __proto__ and constructor, and it returns
  each of these unchanged when it is given as input.\<close>

theorem normalizeJson_image:
  "(json_ok v \<longleftrightarrow> (\<exists>r p. normalizeJson r p = Inr v)) \<and>
   (json_ok v \<longleftrightarrow> normalizeJson (raw_of v) path = Inr v)"
  using normalize_raw_of normalize_ok(1) by blast

lemma json_ok_finite: "json_ok v \<Longrightarrow> json_finite v"
  by (induction v rule: json_ok.induct) (auto simp: list_all_iff)

text \<open>C32: two inputs that normalise have the same canonical text exactly when they are the same
  value up to the order of object keys, so that a signature over the text of one holds for
  no other value.\<close>

theorem jcsCanonicalize_injective:
  assumes "normalizeJson a (ustr ''$'') = Inr u" and "normalizeJson b (ustr ''$'') = Inr v"
  shows "jcsCanonicalize a = jcsCanonicalize b \<longleftrightarrow> canon_of u = canon_of v"
  using assms normalize_ok(1) [OF assms(1)] normalize_ok(1) [OF assms(2)]
  by (simp add: jcsCanonicalize_def serialize_inject json_ok_finite)

definition sample_object :: "(ustring \<times> descriptor) list" where
  "sample_object = [(ustr ''b'', Data True (NumR (Decimal False 15 1))), (ustr ''a'', Data True NullR)]"

lemma jcsCanonicalize_injective_witness:
  "jcsCanonicalize (ObjR False True sample_object) = jcsCanonicalize (ObjR False True (rev sample_object))"
proof -
  have n: "normalizeJson (ObjR False True sample_object) (ustr ''$'')
        = Inr (ObjJ [(ustr ''b'', NumJ (Decimal False 15 1)), (ustr ''a'', NullJ)])"
      "normalizeJson (ObjR False True (rev sample_object)) (ustr ''$'')
        = Inr (ObjJ [(ustr ''a'', NullJ), (ustr ''b'', NumJ (Decimal False 15 1))])"
    by code_simp+
  show ?thesis
    unfolding jcsCanonicalize_injective [OF n] by code_simp
qed

section \<open>Canonical texts\<close>

lemma scalar_append: "scalar_string a \<Longrightarrow> scalar_string b \<Longrightarrow> scalar_string (a @ b)"
  by (induction a rule: scalar_induct) auto

definition plain_unit :: "16 word \<Rightarrow> bool" where
  "plain_unit u \<longleftrightarrow> \<not> high u \<and> \<not> low u"

lemma plain_units: "list_all plain_unit s \<Longrightarrow> scalar_string s"
  by (induction s) (auto simp: plain_unit_def)

lemma plain_ascii: "unat u < 0xD800 \<Longrightarrow> plain_unit u"
  by (simp add: plain_unit_def high_unat low_unat)

lemma plain_numerals:
  "plain_unit 0x22" "plain_unit 0x2C" "plain_unit 0x3A" "plain_unit 0x5B" "plain_unit 0x5C" "plain_unit 0x5D"
  "plain_unit 0x75" "plain_unit 0x7B" "plain_unit 0x7D" "plain_unit 0x62" "plain_unit 0x66" "plain_unit 0x6E"
  "plain_unit 0x72" "plain_unit 0x74"
  by (simp_all add: plain_ascii)

lemma plain_ustr: "list_all plain_unit (ustr s)"
proof -
  have "plain_unit (unit_of c)" for c
  proof (rule plain_ascii)
    show "unat (unit_of c) < 0xD800"
      unfolding unat_unit_of by (rule less_trans [OF nat_of_char_less_256]) simp
  qed
  then show ?thesis by (simp add: ustr_def list_all_iff)
qed

lemma plain_hex: "d < 16 \<Longrightarrow> plain_unit (hex_digit d)"
proof -
  assume "d < 16"
  then have "d \<in> set [0..<16]" by simp
  moreover have "list_all (\<lambda>d. hex_digit d \<le> 0x66) [0..<16]" by code_simp
  ultimately have "hex_digit d \<le> 0x66"
    unfolding list_all_iff by blast
  then have "unat (hex_digit d) \<le> 0x66"
    by (simp add: word_le_nat_alt)
  then show ?thesis
    by (intro plain_ascii) linarith
qed

lemma plain_u_escape: "list_all plain_unit (u_escape u)"
  using unat16_less [of u] by (simp add: u_escape_def Let_def plain_numerals plain_hex less_mult_imp_div_less)

lemma plain_quote_unit: "plain_unit u \<Longrightarrow> list_all plain_unit (quote_unit u)"
  by (simp add: quote_unit_def plain_numerals plain_u_escape)

lemma scalar_quote: "scalar_string s \<Longrightarrow> scalar_string (quote s)"
proof -
  assume "scalar_string s"
  then have "scalar_string (quote_units s)"
  proof (induction s rule: scalar_induct)
    case (unit u r)
    then have "plain_unit u" by (simp add: plain_unit_def)
    from scalar_append [OF plain_units [OF plain_quote_unit [OF this]] unit(4)] unit(1,2)
    show ?case by simp
  qed simp_all
  moreover have "scalar_string [0x22]"
    by (rule plain_units) (simp add: plain_numerals)
  ultimately have "scalar_string ([0x22] @ quote_units s @ [0x22])"
    by (intro scalar_append)
  then show ?thesis unfolding quote_def by simp
qed

lemma scalar_joinWith: "plain_unit c \<Longrightarrow> list_all scalar_string ps \<Longrightarrow> scalar_string (joinWith [c] ps)"
proof (induction "[c]" ps rule: joinWith.induct)
  case (3 p q ps)
  moreover have "scalar_string [c]" using 3 by (intro plain_units) simp
  ultimately have "scalar_string (p @ [c] @ joinWith [c] (q # ps))"
    by (intro scalar_append) simp_all
  then show ?case by simp
qed simp_all

lemma scalar_bracket:
  "plain_unit a \<Longrightarrow> plain_unit b \<Longrightarrow> scalar_string s \<Longrightarrow> scalar_string (a # s @ [b])"
proof -
  assume "plain_unit a" "plain_unit b" "scalar_string s"
  then have "scalar_string ([a] @ s @ [b])"
    using plain_units [of "[a]"] plain_units [of "[b]"] by (intro scalar_append) simp_all
  then show ?thesis by simp
qed

lemma scalar_serialize: "json_ok v \<Longrightarrow> scalar_string (serialize v)"
proof (induction v rule: serialize.induct)
  case (5 xs)
  then have "list_all scalar_string (map serialize xs)"
    by (auto simp: list_all_iff)
  then show ?case
    unfolding serialize.simps by (intro scalar_bracket scalar_joinWith plain_numerals)
next
  case (6 fs)
  let ?texts = "map (\<lambda>(k, v). (k, serialize v)) fs"
  have "scalar_string (quote k @ [0x3A] @ (case map_of ?texts k of Some t \<Rightarrow> t | None \<Rightarrow> []))"
    if k: "k \<in> fst ` set fs" for k
  proof (rule scalar_append [OF scalar_quote scalar_append])
    show "scalar_string k" using k 6(2) by (auto simp: list_all_iff allowed_key_def)
    show "scalar_string [0x3A]" by (rule plain_units) (simp add: plain_numerals)
    have "scalar_string t" if "map_of ?texts k = Some t" for t
      using map_of_SomeD [OF that] 6 by (fastforce simp: list_all_iff)
    then show "scalar_string (case map_of ?texts k of Some t \<Rightarrow> t | None \<Rightarrow> [])"
      by (simp split: option.split)
  qed
  moreover have "set (sort_units (dedupe (map fst ?texts))) = fst ` set fs"
    unfolding sort_units_eq by force
  ultimately have "list_all scalar_string (map (\<lambda>k. quote k @ 0x3A # (case map_of ?texts k of Some t \<Rightarrow> t | None \<Rightarrow> []))
      (sort_units (dedupe (map fst ?texts))))"
    by (simp add: list_all_iff)
  then show ?case
    unfolding serialize.simps Let_def by (intro scalar_bracket scalar_joinWith plain_numerals)
qed (auto simp: scalar_quote plain_units plain_ustr simp del: scalar_simps(2))

text \<open>A canonical text is itself the UTF-16 encoding of Unicode scalar values, so encoding
  it as UTF-8 for the signature loses nothing.\<close>

theorem jcsCanonicalize_scalar:
  assumes "jcsCanonicalize a = Inr t"
  shows "assertUnicodeScalarString t path = Inr ()"
  using assms normalize_ok(1) by (auto simp: jcsCanonicalize_def result_iff scalar_serialize)

lemma jcsCanonicalize_scalar_witness:
  "assertUnicodeScalarString (ustr ''{'' @ quote (ustr ''a'') @ ustr '':null}'') [] = Inr ()"
  by (rule jcsCanonicalize_scalar [of "ObjR False True [(ustr ''a'', Data True NullR)]"]) code_simp

end
