(* ===== verification/Utf8.thy ===== *)
theory Utf8
  imports Jcs
begin

text \<open>
  \<open>new TextEncoder().encode(s)\<close>: the UTF-8 bytes of a string of UTF-16 code units, where a
  lone surrogate becomes U+FFFD. The signatures and digests of the policy code are taken of
  these bytes, so what matters is that the bytes determine the string: they do for strings
  of Unicode scalar values (\<open>textEncode_inject\<close>), which is what the canonical JSON encoder
  accepts and produces.
\<close>

type_synonym bytes = "8 word list"

definition pair_point :: "16 word \<Rightarrow> 16 word \<Rightarrow> nat" where
  "pair_point u v = 0x10000 + 0x400 * (unat u - 0xD800) + (unat v - 0xDC00)"

fun code_points :: "ustring \<Rightarrow> nat list" where
  "code_points [] = []"
| "code_points (u # us) =
     (if high u then
        (case us of
           [] \<Rightarrow> [0xFFFD]
         | v # vs \<Rightarrow> if low v then pair_point u v # code_points vs else 0xFFFD # code_points us)
      else if low u then 0xFFFD # code_points us
      else unat u # code_points us)"

definition utf8_of :: "nat \<Rightarrow> nat list" where
  "utf8_of n =
     (if n < 0x80 then [n]
      else if n < 0x800 then [0xC0 + n div 64, 0x80 + n mod 64]
      else if n < 0x10000 then [0xE0 + n div 4096, 0x80 + n div 64 mod 64, 0x80 + n mod 64]
      else [0xF0 + n div 262144, 0x80 + n div 4096 mod 64, 0x80 + n div 64 mod 64, 0x80 + n mod 64])"

definition textEncode :: "ustring \<Rightarrow> bytes" where
  "textEncode s = map of_nat (concat (map utf8_of (code_points s)))"

section \<open>The bytes determine the string\<close>

lemma unat8_of_nat: "n < 256 \<Longrightarrow> unat (of_nat n :: 8 word) = n"
  by (rule of_nat_inverse [OF refl]) simp

lemma map_of_nat8_inject:
  "list_all (\<lambda>n. n < 256) xs \<Longrightarrow> list_all (\<lambda>n. n < 256) ys \<Longrightarrow>
   map (of_nat :: nat \<Rightarrow> 8 word) xs = map of_nat ys \<longleftrightarrow> xs = ys"
proof
  assume a: "list_all (\<lambda>n. n < 256) xs" "list_all (\<lambda>n. n < 256) ys"
    and e: "map (of_nat :: nat \<Rightarrow> 8 word) xs = map of_nat ys"
  have id: "map unat (map (of_nat :: nat \<Rightarrow> 8 word) zs) = zs" if "list_all (\<lambda>n. n < 256) zs" for zs
    using that by (induction zs) (simp_all add: unat8_of_nat)
  show "xs = ys"
    using arg_cong [OF e, of "map unat"] id [OF a(1)] id [OF a(2)] by simp
qed simp

lemma split64: "n div 64 = a \<Longrightarrow> n mod 64 = b \<Longrightarrow> n = 64 * a + b" for n :: nat
  by (metis mult_div_mod_eq)

lemma div_4096: "n div 4096 = n div 64 div 64" and div_262144: "n div 262144 = n div 64 div 64 div 64" for n :: nat
  by (simp_all flip: div_mult2_eq)

lemma utf8_of_bytes: "n < 0x110000 \<Longrightarrow> list_all (\<lambda>b. b < 256) (utf8_of n)"
proof -
  assume n: "n < 0x110000"
  have m: "a mod 64 < 128" for a :: nat by (rule less_trans [OF mod_less_divisor]) simp_all
  have "n < 0x800 \<Longrightarrow> n div 64 < 64" "n < 0x10000 \<Longrightarrow> n div 4096 < 32" "n div 262144 < 16"
    using n by (simp_all add: less_mult_imp_div_less)
  with m show ?thesis
    by (simp add: utf8_of_def)
qed

lemma utf8_decodes: 
  assumes "utf8_of m @ x = utf8_of n @ y" and "m < 0x110000" and "n < 0x110000"
  shows "m = n \<and> x = y"
proof -
  have two: "k < 0x800 \<Longrightarrow> k div 64 < 32" and three: "k < 0x10000 \<Longrightarrow> k div 4096 < 16" for k :: nat
    by (simp_all add: less_mult_imp_div_less)
  have eq64: "a = b" if "a div 64 = b div 64" "a mod 64 = b mod 64" for a b :: nat
    using that by (metis mult_div_mod_eq)
  consider "m < 0x80" | "0x80 \<le> m" "m < 0x800" | "0x800 \<le> m" "m < 0x10000" | "0x10000 \<le> m" by linarith
  then show ?thesis
  proof cases
    case 1
    with assms(1) show ?thesis by (auto simp: utf8_of_def split: if_split_asm)
  next
    case 2
    with assms(1) two [of m] show ?thesis
      by (auto simp: utf8_of_def split: if_split_asm intro: eq64)
  next
    case 3
    with assms(1) two [of n] three [of m] show ?thesis
      by (auto simp: utf8_of_def div_4096 split: if_split_asm intro!: eq64 [of m n] eq64 [of "m div 64" "n div 64"])
  next
    case 4
    with assms(1) two [of n] three [of n] show ?thesis
      by (auto simp: utf8_of_def div_4096 div_262144 split: if_split_asm
          intro!: eq64 [of m n] eq64 [of "m div 64" "n div 64"] eq64 [of "m div 64 div 64" "n div 64 div 64"])
  qed
qed

lemma utf8_not_Nil: "utf8_of n \<noteq> []"
  by (simp add: utf8_of_def)

lemma utf8_concat_inject:
  "list_all (\<lambda>n. n < 0x110000) ms \<Longrightarrow> list_all (\<lambda>n. n < 0x110000) ns \<Longrightarrow>
   concat (map utf8_of ms) = concat (map utf8_of ns) \<Longrightarrow> ms = ns"
proof (induction ms arbitrary: ns)
  case Nil
  then show ?case by (cases ns) (simp_all add: utf8_not_Nil)
next
  case (Cons m ms)
  show ?case
  proof (cases ns)
    case Nil
    with Cons.prems(3) show ?thesis by (simp add: utf8_not_Nil)
  next
    case (Cons n ns')
    with Cons.prems have "m = n \<and> concat (map utf8_of ms) = concat (map utf8_of ns')"
      by (intro utf8_decodes) simp_all
    with Cons.prems Cons.IH [of ns'] Cons show ?thesis by simp
  qed
qed

lemma code_points_bound: "list_all (\<lambda>n. n < 0x110000) (code_points s)"
proof (induction s rule: code_points.induct)
  case (2 u us)
  have "pair_point u v < 0x110000" if "high u" "low v" for v
    using that unfolding pair_point_def high_unat low_unat by linarith
  moreover have "unat u < 0x110000"
    using unat16_less [of u] by linarith
  ultimately show ?case
    using 2 by (auto split: list.split)
qed simp

lemma code_points_pair: "high u \<Longrightarrow> low v \<Longrightarrow> code_points (u # v # r) = pair_point u v # code_points r"
  and code_points_unit: "\<not> high u \<Longrightarrow> \<not> low u \<Longrightarrow> code_points (u # r) = unat u # code_points r"
  by simp_all

lemma utf16_pair_point:
  assumes "high u" and "low v"
  shows "utf16 (pair_point u v) = [u, v]"
proof -
  define a b where "a = unat u - 0xD800" and "b = unat v - 0xDC00"
  have a: "unat u = 0xD800 + a" "a < 0x400" and b: "unat v = 0xDC00 + b" "b < 0x400"
    using assms unfolding high_unat low_unat a_def b_def by auto
  have p: "pair_point u v = 0x10000 + (0x400 * a + b)"
    by (simp add: pair_point_def a_def b_def)
  have "(0x400 * a + b) div 0x400 = a" "(0x400 * a + b) mod 0x400 = b"
    using b(2) by simp_all
  then have "utf16 (pair_point u v) = [of_nat (unat u), of_nat (unat v)]"
    unfolding utf16_def p a b by (simp del: of_nat_add)
  then show ?thesis by simp
qed

lemma utf16_code_points: "scalar_string s \<Longrightarrow> concat (map utf16 (code_points s)) = s"
proof (induction s rule: scalar_induct)
  case (pair u v r)
  then show ?case by (simp add: code_points_pair utf16_pair_point del: code_points.simps)
next
  case (unit u r)
  have "utf16 (unat u) = [u]"
    using unat16_less [of u] by (simp add: utf16_def)
  with unit show ?case by (simp add: code_points_unit del: code_points.simps)
qed simp

lemma textEncode_inject:
  assumes "scalar_string s" and "scalar_string t"
  shows "textEncode s = textEncode t \<longleftrightarrow> s = t"
proof
  assume "textEncode s = textEncode t"
  moreover have "list_all (\<lambda>n. n < 256) (concat (map utf8_of (code_points r)))" for r
    using code_points_bound [of r] utf8_of_bytes by (auto simp: list_all_iff)
  ultimately have "concat (map utf8_of (code_points s)) = concat (map utf8_of (code_points t))"
    by (simp add: textEncode_def map_of_nat8_inject)
  then have "code_points s = code_points t"
    by (rule utf8_concat_inject [OF code_points_bound code_points_bound])
  then show "s = t"
    using assms utf16_code_points by metis
qed simp

end
