(* ===== verification/PolicyCapability.thy ===== *)
theory PolicyCapability
  imports Utf8 Abilities
begin

text \<open>
  \<^verbatim>\<open>packages/sdk-core/src/policy/capability.ts\<close>: the capabilities a policy can be signed for.
  The input is any JavaScript value (\<open>raw\<close>, see \<open>Jcs\<close>); \<open>normalizePolicyCapability\<close> is the
  strict validator of authoring, \<open>canonicalizePolicyCapability\<close> the form the engine vectors
  use, which rewrites paths and sorts actions, \<open>policyCapabilityContains\<close> decides containment.

  Two things are parameters: \<open>nfc\<close>, the normalisation form the Unicode tables give
  (\<open>String.prototype.normalize\<close>), and \<open>sha256\<close>, which the code imports from viem.

  The lemmas show that what the validator accepts it returns unchanged, that containment is
  inclusion of the accesses the two capabilities permit, and that the digest is taken of a
  text that determines the capability.
\<close>

section \<open>Data\<close>

datatype policy_capability_error_code =
    CapMalformed | CapUnknownKey | CapMalformedService | CapMalformedSpace | CapMalformedPath
  | CapMalformedAction | CapEmptyActions | CapMalformedCaveats

datatype policy_capability_error = PolicyCapabilityError policy_capability_error_code ustring

type_synonym json_object = "(ustring \<times> json) list"

record policy_capability =
  pc_service :: ustring
  pc_space :: ustring
  pc_path :: ustring
  pc_actions :: "ustring list"
  pc_caveats :: "json_object option"

record normalize_options =
  allowPrefixPaths :: bool
  requireCanonical :: bool

definition CEILING_SERVICES :: "ustring list" where
  "CEILING_SERVICES = [ustr ''tinycloud.kv'', ustr ''tinycloud.sql'', ustr ''tinycloud.vfs'']"

text \<open>The loop over the registry. An entry without implications has the empty list.\<close>

definition GRANTABLE_ACTIONS :: "(ustring \<times> ustring list) list" where
  "GRANTABLE_ACTIONS =
     foldl (\<lambda>granted entry.
         let service = ustr (ce_service entry); urn = ustr (ce_urn entry)
         in if service \<notin> set CEILING_SERVICES then granted
            else if ce_aliasOf entry \<noteq> None \<or> ce_implies entry \<noteq> [] \<or> endsWith (ce_urn entry) ''/*'' then granted
            else (case map_of granted service of
                    None \<Rightarrow> AList.update service [urn] granted
                  | Some existing \<Rightarrow> AList.update service (push_new existing urn) granted))
       [] GENERATED_CAPABILITIES"

definition cap_error :: "policy_capability_error_code \<Rightarrow> ustring \<Rightarrow> string \<Rightarrow> policy_capability_error" where
  "cap_error code path msg = PolicyCapabilityError code (path @ ustr msg)"

abbreviation (input) dollar :: ustring where
  "dollar \<equiv> ustr ''$''"

definition hasOwn :: "json_object \<Rightarrow> ustring \<Rightarrow> bool" where
  "hasOwn obj key \<longleftrightarrow> map_of obj key \<noteq> None"

section \<open>Reading the object\<close>

definition expectObject :: "raw \<Rightarrow> ustring \<Rightarrow> (policy_capability_error, json_object) result" where
  "expectObject input path =
     (case normalizeJson input dollar of
        Inl (SignedObjectCanonicalizationError msg) \<Rightarrow> Inl (PolicyCapabilityError CapMalformed msg)
      | Inr (ObjJ fs) \<Rightarrow> Inr fs
      | Inr _ \<Rightarrow> Inl (cap_error CapMalformed path '' must be an object''))"

definition assertExactKeys_pc ::
  "json_object \<Rightarrow> ustring list \<Rightarrow> ustring \<Rightarrow> (policy_capability_error, unit list) result" where
  "assertExactKeys_pc obj allowed path =
     mapR (\<lambda>(key, _). throw_if (key \<notin> set allowed)
       (PolicyCapabilityError (if key = ustr ''id'' \<or> key = ustr ''scope'' then CapMalformed else CapUnknownKey)
         (path @ ustr '' has unknown field '' @ key))) obj"

definition requiredValue_pc ::
  "json_object \<Rightarrow> string \<Rightarrow> ustring \<Rightarrow> policy_capability_error_code \<Rightarrow> (policy_capability_error, json) result" where
  "requiredValue_pc obj key path code =
     (case map_of obj (ustr key) of
        None \<Rightarrow> Inl (cap_error code (path @ ustr (''.'' @ key)) '' is required'')
      | Some v \<Rightarrow> Inr v)"

definition requiredString_pc ::
  "json_object \<Rightarrow> string \<Rightarrow> ustring \<Rightarrow> policy_capability_error_code \<Rightarrow> (policy_capability_error, ustring) result" where
  "requiredString_pc obj key path code =
     bindR (requiredValue_pc obj key path code) (\<lambda>v.
       case v of
         StrJ s \<Rightarrow> if s = [] then Inl (cap_error code (path @ ustr (''.'' @ key)) '' must be a non-empty string'') else Inr s
       | _ \<Rightarrow> Inl (cap_error code (path @ ustr (''.'' @ key)) '' must be a non-empty string''))"

definition requiredArray_pc ::
  "json_object \<Rightarrow> string \<Rightarrow> ustring \<Rightarrow> policy_capability_error_code \<Rightarrow> (policy_capability_error, json list) result" where
  "requiredArray_pc obj key path code =
     bindR (requiredValue_pc obj key path code) (\<lambda>v.
       case v of
         ArrJ xs \<Rightarrow> Inr xs
       | _ \<Rightarrow> Inl (cap_error code (path @ ustr (''.'' @ key)) '' must be an array''))"

section \<open>Spaces and paths\<close>

definition validateConcreteSpace :: "ustring \<Rightarrow> (policy_capability_error, unit) result" where
  "validateConcreteSpace space =
     throw_if (space = ustr ''*'' \<or> hasChar space 0x2A \<or> hasChar space 0x3F \<or> hasChar space 0x2F)
       (cap_error CapMalformedSpace dollar ''.space must be concrete'')"

definition check_segment ::
  "normalize_options \<Rightarrow> nat \<Rightarrow> nat \<times> ustring \<Rightarrow> (policy_capability_error, unit) result" where
  "check_segment options parts p =
     (case p of (index, segment) \<Rightarrow>
        let isTrailingPrefixSegment = allowPrefixPaths options \<and> index = parts - 1 \<and> segment = []
        in if segment = [] \<and> \<not> isTrailingPrefixSegment
           then Inl (cap_error CapMalformedPath dollar ''.path has an empty segment'')
           else if segment = ustr ''.'' \<or> segment = ustr ''..''
           then Inl (cap_error CapMalformedPath dollar ''.path has a traversal segment'')
           else if segment = ustr ''*'' \<or> segment = ustr ''?'' \<or> hasChar segment 0x2A \<or> hasChar segment 0x3F
           then Inl (cap_error CapMalformedPath dollar ''.path has a wildcard segment'')
           else Inr ())"

definition validateRawPath :: "ustring \<Rightarrow> normalize_options \<Rightarrow> (policy_capability_error, unit) result" where
  "validateRawPath path options =
     (if path = [] then Inl (cap_error CapMalformedPath dollar ''.path is empty'')
      else if \<not> allowPrefixPaths options \<and> endsWith path (ustr ''/'')
      then Inl (cap_error CapMalformedPath dollar ''.path must be an exact concrete path, not a prefix'')
      else if endsWith path (ustr ''/*'') \<or> hasSub path (ustr ''**'')
      then Inl (cap_error CapMalformedPath dollar ''.path is a prefix form'')
      else let segments = splitOn 0x2F path
           in bindR (mapR (check_segment options (length segments)) (zip [0..<length segments] segments))
                (\<lambda>_. Inr ()))"

definition hex_unit :: "16 word \<Rightarrow> bool" where
  "hex_unit u \<longleftrightarrow> (0x30 \<le> u \<and> u \<le> 0x39) \<or> (0x41 \<le> u \<and> u \<le> 0x46) \<or> (0x61 \<le> u \<and> u \<le> 0x66)"

definition hex_unit_value :: "16 word \<Rightarrow> 16 word" where
  "hex_unit_value u = (if u \<le> 0x39 then u - 0x30 else if u \<le> 0x46 then u - 0x37 else u - 0x57)"

definition unreserved_unit :: "16 word \<Rightarrow> bool" where
  "unreserved_unit u \<longleftrightarrow> (0x41 \<le> u \<and> u \<le> 0x5A) \<or> (0x61 \<le> u \<and> u \<le> 0x7A) \<or> (0x30 \<le> u \<and> u \<le> 0x39) \<or>
     u = 0x2E \<or> u = 0x5F \<or> u = 0x7E \<or> u = 0x2D"

definition upper_hex :: "16 word \<Rightarrow> 16 word" where
  "upper_hex u = (if 0x61 \<le> u then u - 0x20 else u)"

text \<open>The replacement of one match of \<^verbatim>\<open>%[0-9A-Fa-f]{2}\<close>, and the scan for matches.\<close>

definition decode_match :: "16 word \<Rightarrow> 16 word \<Rightarrow> ustring" where
  "decode_match a b =
     (let char = 16 * hex_unit_value a + hex_unit_value b
      in if unreserved_unit char then [char] else [0x25, upper_hex a, upper_hex b])"

fun decodeUnreserved :: "ustring \<Rightarrow> ustring" where
  "decodeUnreserved (u # a # b # r) =
     (if u = 0x25 \<and> hex_unit a \<and> hex_unit b then decode_match a b @ decodeUnreserved r
      else u # decodeUnreserved (a # b # r))"
| "decodeUnreserved us = us"

definition normalizePath_pc :: "(ustring \<Rightarrow> ustring) \<Rightarrow> ustring \<Rightarrow> ustring" where
  "normalizePath_pc nfc path = nfc (decodeUnreserved path)"

section \<open>Actions\<close>

definition index_path :: "string \<Rightarrow> nat \<Rightarrow> ustring" where
  "index_path base i = ustr base @ ustr ''['' @ index_key i @ ustr '']''"

definition check_action ::
  "ustring \<Rightarrow> ustring list \<Rightarrow> nat \<times> json \<Rightarrow> (policy_capability_error, ustring) result" where
  "check_action service accepted p =
     (case p of (index, action) \<Rightarrow>
        let empty = Inl (cap_error CapMalformedAction (index_path ''$.actions'' index) '' must be a non-empty action URN'')
        in case action of
             StrJ a \<Rightarrow>
               if a = [] then empty
               else if \<not> startsWith a (service @ ustr ''/'') \<or> hasChar a 0x2A \<or> a \<notin> set accepted
               then Inl (cap_error CapMalformedAction (index_path ''$.actions'' index) '' is not a grantable action URN'')
               else Inr a
           | _ \<Rightarrow> empty)"

definition normalizeActions_pc ::
  "json list \<Rightarrow> ustring \<Rightarrow> normalize_options \<Rightarrow> (policy_capability_error, ustring list) result" where
  "normalizeActions_pc actions service options =
     (case map_of GRANTABLE_ACTIONS service of
        None \<Rightarrow> Inl (cap_error CapMalformedService dollar ''.service is unsupported'')
      | Some accepted \<Rightarrow>
          bindR (mapR (check_action service accepted) (zip [0..<length actions] actions)) (\<lambda>rawActions.
          let unique = dedupe rawActions
          in if unique = [] then Inl (cap_error CapEmptyActions dollar ''.actions must not be empty'')
             else let normalizedActions = sort_units unique
                  in if requireCanonical options \<and> rawActions \<noteq> normalizedActions
                     then Inl (cap_error CapMalformedAction dollar
                            ''.actions must already be sorted, deduplicated canonical action URNs'')
                     else Inr normalizedActions))"

section \<open>Caveats\<close>

definition assertCaveatKeys ::
  "json_object \<Rightarrow> ustring list \<Rightarrow> ustring \<Rightarrow> (policy_capability_error, unit list) result" where
  "assertCaveatKeys obj allowed path =
     mapR (\<lambda>(key, _). throw_if (key \<notin> set allowed)
       (PolicyCapabilityError CapMalformedCaveats (path @ ustr '' has unknown field '' @ key))) obj"

definition requiredCaveat :: "json_object \<Rightarrow> string \<Rightarrow> ustring \<Rightarrow> (policy_capability_error, json) result" where
  "requiredCaveat obj key path =
     (case map_of obj (ustr key) of
        None \<Rightarrow> Inl (cap_error CapMalformedCaveats (path @ ustr (''.'' @ key)) '' is required'')
      | Some v \<Rightarrow> Inr v)"

definition caveatString :: "json_object \<Rightarrow> string \<Rightarrow> ustring \<Rightarrow> (policy_capability_error, ustring) result" where
  "caveatString obj key path =
     bindR (requiredCaveat obj key path) (\<lambda>v.
       case v of
         StrJ s \<Rightarrow> if s = [] then Inl (cap_error CapMalformedCaveats (path @ ustr (''.'' @ key)) '' must be a non-empty string'') else Inr s
       | _ \<Rightarrow> Inl (cap_error CapMalformedCaveats (path @ ustr (''.'' @ key)) '' must be a non-empty string''))"

text \<open>\<open>Number.isSafeInteger(n)\<close>, with the integer it is.\<close>

fun safe_integer :: "jnumber \<Rightarrow> int option" where
  "safe_integer Zero = Some 0"
| "safe_integer (Decimal neg s n) =
     (let k = length (dec_of_nat s);
          m = (if int k \<le> n then Some (s * 10 ^ nat (n - int k))
               else if 10 ^ nat (int k - n) dvd s then Some (s div 10 ^ nat (int k - n)) else None)
      in case m of
           Some v \<Rightarrow> if v \<le> 2 ^ 53 - 1 then Some (if neg then - int v else int v) else None
         | None \<Rightarrow> None)"
| "safe_integer _ = None"

definition validateFixedParam :: "json \<Rightarrow> ustring \<Rightarrow> (policy_capability_error, unit) result" where
  "validateFixedParam input path =
     (case input of
        ObjJ obj \<Rightarrow>
          bindR (assertCaveatKeys obj [ustr ''index'', ustr ''value''] path) (\<lambda>_.
          bindR (requiredCaveat obj ''index'' path) (\<lambda>index.
          bindR (throw_if (case index of NumJ n \<Rightarrow> (case safe_integer n of Some i \<Rightarrow> i < 0 | None \<Rightarrow> True) | _ \<Rightarrow> True)
            (cap_error CapMalformedCaveats path ''.index must be a non-negative integer'')) (\<lambda>_.
          bindR (requiredCaveat obj ''value'' path) (\<lambda>_. Inr ()))))
      | _ \<Rightarrow> Inl (cap_error CapMalformedCaveats path '' must be an object''))"

definition validateSqlStatement :: "json \<Rightarrow> ustring \<Rightarrow> (policy_capability_error, unit) result" where
  "validateSqlStatement input path =
     (case input of
        ObjJ obj \<Rightarrow>
          bindR (assertCaveatKeys obj [ustr ''name'', ustr ''sql'', ustr ''fixedParams''] path) (\<lambda>_.
          bindR (caveatString obj ''name'' path) (\<lambda>_.
          bindR (caveatString obj ''sql'' path) (\<lambda>_.
          bindR (requiredCaveat obj ''fixedParams'' path) (\<lambda>fixedParams.
          case fixedParams of
            ArrJ ps \<Rightarrow> bindR (mapR (\<lambda>(i, p). validateFixedParam p (path @ index_path ''.fixedParams'' i))
                          (zip [0..<length ps] ps)) (\<lambda>_. Inr ())
          | _ \<Rightarrow> Inl (cap_error CapMalformedCaveats path ''.fixedParams must be an array'')))))
      | _ \<Rightarrow> Inl (cap_error CapMalformedCaveats path '' must be an object''))"

definition validateSqlCaveats :: "json_object \<Rightarrow> (policy_capability_error, json_object) result" where
  "validateSqlCaveats input =
     bindR (assertCaveatKeys input [ustr ''mode'', ustr ''readOnly'', ustr ''statements''] (ustr ''$.caveats'')) (\<lambda>_.
     bindR (caveatString input ''mode'' (ustr ''$.caveats'')) (\<lambda>mode.
     bindR (throw_if (mode \<noteq> ustr ''constrained-statements'')
       (cap_error CapMalformedCaveats dollar ''.caveats.mode is unsupported'')) (\<lambda>_.
     bindR (requiredCaveat input ''readOnly'' (ustr ''$.caveats'')) (\<lambda>readOnly.
     bindR (throw_if (readOnly \<noteq> BoolJ True)
       (cap_error CapMalformedCaveats dollar ''.caveats.readOnly must be true'')) (\<lambda>_.
     bindR (requiredCaveat input ''statements'' (ustr ''$.caveats'')) (\<lambda>statements.
     case statements of
       ArrJ (s # ss) \<Rightarrow>
         bindR (mapR (\<lambda>(i, st). validateSqlStatement st (index_path ''$.caveats.statements'' i))
           (zip [0..<length (s # ss)] (s # ss))) (\<lambda>_. Inr input)
     | _ \<Rightarrow> Inl (cap_error CapMalformedCaveats dollar ''.caveats.statements must be a non-empty array'')))))))"

definition validateCaveats :: "json \<Rightarrow> ustring \<Rightarrow> (policy_capability_error, json_object) result" where
  "validateCaveats input service =
     (case input of
        ObjJ obj \<Rightarrow>
          if service = ustr ''tinycloud.sql'' then validateSqlCaveats obj
          else Inl (cap_error CapMalformedCaveats dollar ''.caveats are not defined for this service'')
      | _ \<Rightarrow> Inl (cap_error CapMalformedCaveats dollar ''.caveats must be an object''))"

section \<open>The validator\<close>

definition normalizePolicyCapabilityWithOptions ::
  "(ustring \<Rightarrow> ustring) \<Rightarrow> raw \<Rightarrow> normalize_options \<Rightarrow> (policy_capability_error, policy_capability) result" where
  "normalizePolicyCapabilityWithOptions nfc input options =
     bindR (expectObject input dollar) (\<lambda>obj.
     bindR (assertExactKeys_pc obj [ustr ''service'', ustr ''space'', ustr ''path'', ustr ''actions'', ustr ''caveats''] dollar) (\<lambda>_.
     bindR (requiredString_pc obj ''service'' dollar CapMalformedService) (\<lambda>service.
     bindR (throw_if (service \<notin> set CEILING_SERVICES)
       (cap_error CapMalformedService dollar ''.service is outside the frozen permissionsCeiling vocabulary'')) (\<lambda>_.
     bindR (requiredString_pc obj ''space'' dollar CapMalformedSpace) (\<lambda>space.
     bindR (validateConcreteSpace space) (\<lambda>_.
     bindR (throw_if (requireCanonical options \<and> nfc space \<noteq> space)
       (cap_error CapMalformedSpace dollar ''.space must already be canonical NFC'')) (\<lambda>_.
     bindR (requiredString_pc obj ''path'' dollar CapMalformedPath) (\<lambda>rawPath.
     bindR (validateRawPath rawPath options) (\<lambda>_.
     let path = normalizePath_pc nfc rawPath in
     bindR (throw_if (requireCanonical options \<and> path \<noteq> rawPath)
       (cap_error CapMalformedPath dollar ''.path must already be canonical'')) (\<lambda>_.
     bindR (validateRawPath path options) (\<lambda>_.
     bindR (requiredArray_pc obj ''actions'' dollar CapMalformedAction) (\<lambda>rawActions.
     bindR (normalizeActions_pc rawActions service options) (\<lambda>actions.
     let capability = \<lambda>caveats. \<lparr>pc_service = service, pc_space = nfc space, pc_path = path, pc_actions = actions, pc_caveats = caveats\<rparr>
     in if hasOwn obj (ustr ''caveats'')
        then bindR (requiredValue_pc obj ''caveats'' dollar CapMalformedCaveats) (\<lambda>v.
             bindR (validateCaveats v service) (\<lambda>caveats. Inr (capability (Some caveats))))
        else Inr (capability None))))))))))))))"

definition normalizePolicyCapability ::
  "(ustring \<Rightarrow> ustring) \<Rightarrow> raw \<Rightarrow> (policy_capability_error, policy_capability) result" where
  "normalizePolicyCapability nfc input =
     normalizePolicyCapabilityWithOptions nfc input \<lparr>allowPrefixPaths = False, requireCanonical = True\<rparr>"

definition canonicalizePolicyCapability ::
  "(ustring \<Rightarrow> ustring) \<Rightarrow> raw \<Rightarrow> (policy_capability_error, policy_capability) result" where
  "canonicalizePolicyCapability nfc input =
     normalizePolicyCapabilityWithOptions nfc input \<lparr>allowPrefixPaths = True, requireCanonical = False\<rparr>"

section \<open>Containment and digests\<close>

definition pathContains_pc :: "ustring \<Rightarrow> ustring \<Rightarrow> bool" where
  "pathContains_pc authority request \<longleftrightarrow>
     (if authority = request then True else endsWith authority (ustr ''/'') \<and> startsWith request authority)"

definition caveat_statements :: "json_object \<Rightarrow> json list" where
  "caveat_statements obj = (case map_of obj (ustr ''statements'') of Some (ArrJ xs) \<Rightarrow> xs | _ \<Rightarrow> [])"

definition caveatsContain ::
  "json_object option \<Rightarrow> json_object option \<Rightarrow> (canonicalization_error, bool) result" where
  "caveatsContain authority request =
     (case authority of
        None \<Rightarrow> Inr (request = None)
      | Some auth \<Rightarrow>
          (case request of
             None \<Rightarrow> Inr (auth = [])
           | Some req \<Rightarrow>
               if map_of auth (ustr ''mode'') \<noteq> Some (StrJ (ustr ''constrained-statements'')) \<or>
                  map_of req (ustr ''mode'') \<noteq> Some (StrJ (ustr ''constrained-statements''))
               then Inr False
               else everyR (\<lambda>statement.
                      someR (\<lambda>candidate.
                          bindR (jcsCanonicalize (raw_of candidate)) (\<lambda>l.
                          bindR (jcsCanonicalize (raw_of statement)) (\<lambda>r. Inr (l = r))))
                        (caveat_statements auth))
                      (caveat_statements req)))"

definition policyCapabilityContains ::
  "(ustring \<Rightarrow> ustring) \<Rightarrow> raw \<Rightarrow> raw \<Rightarrow> (canonicalization_error, bool) result" where
  "policyCapabilityContains nfc authority request =
     (case (canonicalizePolicyCapability nfc authority, canonicalizePolicyCapability nfc request) of
        (Inr auth, Inr req) \<Rightarrow>
          if pc_service auth \<noteq> pc_service req \<or> pc_space auth \<noteq> pc_space req then Inr False
          else if \<not> pathContains_pc (pc_path auth) (pc_path req) then Inr False
          else if \<not> list_all (\<lambda>action. action \<in> set (pc_actions auth)) (pc_actions req) then Inr False
          else caveatsContain (pc_caveats auth) (pc_caveats req)
      | _ \<Rightarrow> Inr False)"

text \<open>The capability as an object, in the order the code assigns its fields; the bytes a
  digest is taken of.\<close>

definition pc_fields :: "policy_capability \<Rightarrow> json_object" where
  "pc_fields c =
     [(ustr ''service'', StrJ (pc_service c)), (ustr ''space'', StrJ (pc_space c)), (ustr ''path'', StrJ (pc_path c)),
      (ustr ''actions'', ArrJ (map StrJ (pc_actions c)))]
     @ (case pc_caveats c of None \<Rightarrow> [] | Some obj \<Rightarrow> [(ustr ''caveats'', ObjJ obj)])"

definition POLICY_CAPABILITY_DOMAIN :: ustring where
  "POLICY_CAPABILITY_DOMAIN = ustr ''xyz.tinycloud.policy/PolicyCapability/v0''"

definition policy_capability_preimage ::
  "(ustring \<Rightarrow> ustring) \<Rightarrow> raw \<Rightarrow> (policy_capability_error + canonicalization_error, bytes) result" where
  "policy_capability_preimage nfc input =
     (case canonicalizePolicyCapability nfc input of
        Inl e \<Rightarrow> Inl (Inl e)
      | Inr canonical \<Rightarrow>
          (case jcsCanonicalize (raw_of (ObjJ (pc_fields canonical))) of
             Inl e \<Rightarrow> Inl (Inr e)
           | Inr jcs \<Rightarrow> Inr (textEncode (POLICY_CAPABILITY_DOMAIN @ [0]) @ textEncode jcs)))"

definition policyCapabilityDigestHex ::
  "(ustring \<Rightarrow> ustring) \<Rightarrow> (bytes \<Rightarrow> bytes) \<Rightarrow> (bytes \<Rightarrow> string) \<Rightarrow> raw \<Rightarrow>
   (policy_capability_error + canonicalization_error, string) result" where
  "policyCapabilityDigestHex nfc sha256 bytesToHex input =
     bindR (policy_capability_preimage nfc input) (\<lambda>bytes. Inr (drop 2 (bytesToHex (sha256 bytes))))"

section \<open>What is accepted\<close>

lemma requiredValue_pc_iff [result_iff]: "requiredValue_pc obj key path code = Inr v \<longleftrightarrow> map_of obj (ustr key) = Some v"
  by (auto simp: requiredValue_pc_def split: option.splits)

lemma requiredString_pc_iff [result_iff]:
  "requiredString_pc obj key path code = Inr s \<longleftrightarrow> map_of obj (ustr key) = Some (StrJ s) \<and> s \<noteq> []"
  by (auto simp: requiredString_pc_def result_iff split: json.split_asm if_split_asm)

lemma requiredArray_pc_iff [result_iff]:
  "requiredArray_pc obj key path code = Inr xs \<longleftrightarrow> map_of obj (ustr key) = Some (ArrJ xs)"
  by (auto simp: requiredArray_pc_def result_iff split: json.split_asm)

lemma requiredCaveat_iff [result_iff]: "requiredCaveat obj key path = Inr v \<longleftrightarrow> map_of obj (ustr key) = Some v"
  by (auto simp: requiredCaveat_def split: option.splits)

lemma caveatString_iff [result_iff]:
  "caveatString obj key path = Inr s \<longleftrightarrow> map_of obj (ustr key) = Some (StrJ s) \<and> s \<noteq> []"
  by (auto simp: caveatString_def result_iff split: json.split_asm if_split_asm)

lemma expectObject_iff [result_iff]: "expectObject input path = Inr fs \<longleftrightarrow> normalizeJson input dollar = Inr (ObjJ fs)"
  by (auto simp: expectObject_def split: sum.splits canonicalization_error.splits json.splits)

lemma assertExactKeys_pc_ok: "assertExactKeys_pc obj allowed path = Inr us \<Longrightarrow> fst ` set obj \<subseteq> set allowed"
  by (force simp: assertExactKeys_pc_def mapR_Inr_iff list_all2_conv_all_nth in_set_conv_nth result_iff split_def)

lemma zip_upt_all2:
  "list_all2 P (zip [0..<length xs] xs) ys \<longleftrightarrow> length ys = length xs \<and> (\<forall>i < length xs. P (i, xs ! i) (ys ! i))"
  by (auto simp: list_all2_conv_all_nth)

lemma check_action_iff [result_iff]:
  "check_action service accepted (i, v) = Inr a \<longleftrightarrow>
     v = StrJ a \<and> a \<noteq> [] \<and> startsWith a (service @ ustr ''/'') \<and> 0x2A \<notin> set a \<and> a \<in> set accepted"
  by (auto simp: check_action_def Let_def split: json.splits if_splits)

lemma check_actions: 
  assumes "mapR (check_action service accepted) (zip [0..<length vs] vs) = Inr as"
  shows "vs = map StrJ as" and "set as \<subseteq> set accepted"
proof -
  have l: "length as = length vs" and i: "\<forall>i < length vs. vs ! i = StrJ (as ! i) \<and> as ! i \<in> set accepted"
    using assms by (auto simp: mapR_Inr_iff zip_upt_all2 result_iff)
  from l i show "vs = map StrJ as" by (auto intro: nth_equalityI)
  from l i show "set as \<subseteq> set accepted" by (auto simp: in_set_conv_nth)
qed

lemma normalizeActions_pcE:
  assumes "normalizeActions_pc vs service options = Inr as"
  obtains raw accepted where "map_of GRANTABLE_ACTIONS service = Some accepted"
    "mapR (check_action service accepted) (zip [0..<length vs] vs) = Inr raw"
    "dedupe raw \<noteq> []" "as = sort_units (dedupe raw)" "requireCanonical options \<Longrightarrow> raw = as"
  using assms by (auto simp: normalizeActions_pc_def result_iff Let_def split: option.splits if_splits)

lemma normalizeActions_pc_lax:
  assumes "normalizeActions_pc vs service options = Inr as" and "\<not> requireCanonical options'"
  shows "normalizeActions_pc vs service options' = Inr as"
proof -
  from assms(1) obtain raw accepted where "map_of GRANTABLE_ACTIONS service = Some accepted"
    "mapR (check_action service accepted) (zip [0..<length vs] vs) = Inr raw"
    "dedupe raw \<noteq> []" "as = sort_units (dedupe raw)"
    by (rule normalizeActions_pcE)
  with assms(2) show ?thesis by (simp add: normalizeActions_pc_def)
qed

lemma normalizeActions_pc_ok:
  assumes "normalizeActions_pc vs service options = Inr as"
  shows "as \<noteq> []" and "distinct as" and "sorted as" and "\<exists>raw. vs = map StrJ raw \<and> set raw = set as"
    and "requireCanonical options \<Longrightarrow> vs = map StrJ as"
proof -
  from assms obtain raw accepted where raw: "mapR (check_action service accepted) (zip [0..<length vs] vs) = Inr raw"
    and ne: "dedupe raw \<noteq> []" and as: "as = sort_units (dedupe raw)"
    and canon: "requireCanonical options \<Longrightarrow> raw = as"
    by (rule normalizeActions_pcE) blast
  have s: "set as = set raw"
    by (simp add: as sort_units_eq)
  show "as \<noteq> []" using ne by (simp add: as sort_units_eq flip: set_empty2)
  show "distinct as" "sorted as" by (simp_all add: as sort_units_eq)
  show "\<exists>raw. vs = map StrJ raw \<and> set raw = set as"
    using check_actions(1) [OF raw] s by blast
  show "requireCanonical options \<Longrightarrow> vs = map StrJ as"
    using check_actions(1) [OF raw] canon by simp
qed

lemma validateSqlCaveats_ok:
  assumes "validateSqlCaveats fs = Inr obj"
  shows "fs = obj \<and> map_of obj (ustr ''mode'') = Some (StrJ (ustr ''constrained-statements'')) \<and>
    (\<exists>s ss. map_of obj (ustr ''statements'') = Some (ArrJ (s # ss)))"
  using assms unfolding validateSqlCaveats_def result_iff
  by (elim exE conjE) (simp split: json.split_asm list.split_asm add: result_iff)

lemma validateCaveats_ok:
  assumes "validateCaveats v service = Inr obj"
  shows "v = ObjJ obj" and "map_of obj (ustr ''mode'') = Some (StrJ (ustr ''constrained-statements''))"
    and "\<exists>s ss. map_of obj (ustr ''statements'') = Some (ArrJ (s # ss))"
  using assms
  by (auto simp: validateCaveats_def dest!: validateSqlCaveats_ok split: json.split_asm if_split_asm)

text \<open>What a capability that was accepted comes from.\<close>

definition caveats_of :: "json_object \<Rightarrow> ustring \<Rightarrow> json_object option \<Rightarrow> bool" where
  "caveats_of fs service caveats \<longleftrightarrow>
     map_of fs (ustr ''caveats'') = map_option ObjJ caveats \<and>
     (\<forall>obj. caveats = Some obj \<longrightarrow> validateCaveats (ObjJ obj) service = Inr obj)"

lemma caveats_of_iff:
  "(if hasOwn fs (ustr ''caveats'')
    then bindR (requiredValue_pc fs ''caveats'' dollar CapMalformedCaveats) (\<lambda>v.
         bindR (validateCaveats v service) (\<lambda>caveats. Inr \<lparr>pc_service = service', pc_space = space, pc_path = path, pc_actions = as, pc_caveats = Some caveats\<rparr>))
    else Inr \<lparr>pc_service = service', pc_space = space, pc_path = path, pc_actions = as, pc_caveats = None\<rparr>) = Inr c \<longleftrightarrow>
   (\<exists>cav. c = \<lparr>pc_service = service', pc_space = space, pc_path = path, pc_actions = as, pc_caveats = cav\<rparr> \<and> caveats_of fs service cav)"
proof (cases "map_of fs (ustr ''caveats'')")
  case None
  then show ?thesis by (auto simp: hasOwn_def caveats_of_def)
next
  case (Some v)
  have "(\<exists>obj. validateCaveats v service = Inr obj \<and> c = \<lparr>pc_service = service', pc_space = space, pc_path = path, pc_actions = as, pc_caveats = Some obj\<rparr>) \<longleftrightarrow>
      (\<exists>obj. v = ObjJ obj \<and> validateCaveats (ObjJ obj) service = Inr obj \<and> c = \<lparr>pc_service = service', pc_space = space, pc_path = path, pc_actions = as, pc_caveats = Some obj\<rparr>)"
    using validateCaveats_ok(1) by blast
  also have "\<dots> \<longleftrightarrow> (\<exists>cav. c = \<lparr>pc_service = service', pc_space = space, pc_path = path, pc_actions = as, pc_caveats = cav\<rparr> \<and> Some v = map_option ObjJ cav \<and>
      (\<forall>obj. cav = Some obj \<longrightarrow> validateCaveats (ObjJ obj) service = Inr obj))"
    by (auto simp: option.map_sel map_option_case split: option.splits)
  finally show ?thesis
    using Some by (auto simp: hasOwn_def result_iff caveats_of_def)
qed

lemma pc_fields_lookup:
  "map_of (pc_fields c) (ustr ''service'') = Some (StrJ (pc_service c))"
  "map_of (pc_fields c) (ustr ''space'') = Some (StrJ (pc_space c))"
  "map_of (pc_fields c) (ustr ''path'') = Some (StrJ (pc_path c))"
  "map_of (pc_fields c) (ustr ''actions'') = Some (ArrJ (map StrJ (pc_actions c)))"
  "map_of (pc_fields c) (ustr ''caveats'') = map_option ObjJ (pc_caveats c)"
  by (simp_all add: pc_fields_def ustr_inject split: option.split)

lemma pc_fields_other:
  "k \<notin> {ustr ''service'', ustr ''space'', ustr ''path'', ustr ''actions'', ustr ''caveats''} \<Longrightarrow> map_of (pc_fields c) k = None"
  by (simp add: pc_fields_def split: option.split)

text \<open>The steps of an accepted input, and back.\<close>

definition accepted_steps ::
  "(ustring \<Rightarrow> ustring) \<Rightarrow> normalize_options \<Rightarrow> json_object \<Rightarrow> ustring \<Rightarrow> ustring \<Rightarrow> json list \<Rightarrow> policy_capability \<Rightarrow> bool" where
  "accepted_steps nfc options fs space path vs c \<longleftrightarrow>
     is_ok (assertExactKeys_pc fs [ustr ''service'', ustr ''space'', ustr ''path'', ustr ''actions'', ustr ''caveats''] dollar) \<and>
     requiredString_pc fs ''service'' dollar CapMalformedService = Inr (pc_service c) \<and> pc_service c \<in> set CEILING_SERVICES \<and>
     requiredString_pc fs ''space'' dollar CapMalformedSpace = Inr space \<and> validateConcreteSpace space = Inr () \<and>
     (requireCanonical options \<longrightarrow> nfc space = space) \<and> pc_space c = nfc space \<and>
     requiredString_pc fs ''path'' dollar CapMalformedPath = Inr path \<and> validateRawPath path options = Inr () \<and>
     (requireCanonical options \<longrightarrow> pc_path c = path) \<and> pc_path c = normalizePath_pc nfc path \<and>
     validateRawPath (pc_path c) options = Inr () \<and>
     requiredArray_pc fs ''actions'' dollar CapMalformedAction = Inr vs \<and>
     normalizeActions_pc vs (pc_service c) options = Inr (pc_actions c) \<and>
     caveats_of fs (pc_service c) (pc_caveats c)"

lemma bindR_InrE: "bindR m f = Inr y \<Longrightarrow> (\<And>x. m = Inr x \<Longrightarrow> f x = Inr y \<Longrightarrow> P) \<Longrightarrow> P"
  by (cases m) auto

lemma throw_if_E: "throw_if b e = Inr u \<Longrightarrow> (\<not> b \<Longrightarrow> P) \<Longrightarrow> P"
  by (simp add: throw_if_Inr_iff)

lemma normalizeD:
  assumes "normalizePolicyCapabilityWithOptions nfc input options = Inr c"
  obtains fs space path vs where "normalizeJson input dollar = Inr (ObjJ fs)" "accepted_steps nfc options fs space path vs c"
proof -
  note steps = assms [unfolded normalizePolicyCapabilityWithOptions_def Let_def caveats_of_iff]
  show thesis
    using steps
    apply (elim bindR_InrE throw_if_E)
    apply (simp only: caveats_of_iff)
    apply (elim exE conjE)
    apply (rule that)
     apply (simp only: expectObject_iff)
    apply (unfold accepted_steps_def)
    apply (intro conjI; (assumption | simp))
    done
qed

lemma normalizeI:
  assumes "normalizeJson input dollar = Inr (ObjJ fs)" and "accepted_steps nfc options fs space path vs c"
  shows "normalizePolicyCapabilityWithOptions nfc input options = Inr c"
proof -
  have fs: "expectObject input dollar = Inr fs"
    using assms(1) by (simp add: expectObject_iff)
  note steps = assms(2) [unfolded accepted_steps_def]
  obtain us where us: "assertExactKeys_pc fs [ustr ''service'', ustr ''space'', ustr ''path'', ustr ''actions'', ustr ''caveats''] dollar = Inr us"
    using steps [THEN conjunct1] unfolding is_ok_iff by (rule exE)
  have read: "requiredString_pc fs ''service'' dollar CapMalformedService = Inr (pc_service c)"
      "requiredString_pc fs ''space'' dollar CapMalformedSpace = Inr space" "validateConcreteSpace space = Inr ()"
      "requiredString_pc fs ''path'' dollar CapMalformedPath = Inr path" "validateRawPath path options = Inr ()"
      "validateRawPath (pc_path c) options = Inr ()" "pc_path c = normalizePath_pc nfc path"
      "requiredArray_pc fs ''actions'' dollar CapMalformedAction = Inr vs"
      "normalizeActions_pc vs (pc_service c) options = Inr (pc_actions c)"
    by ((insert steps, elim conjE, assumption)+)
  have checks: "(pc_service c \<notin> set CEILING_SERVICES) = False" "(requireCanonical options \<and> nfc space \<noteq> space) = False"
      "(requireCanonical options \<and> normalizePath_pc nfc path \<noteq> path) = False"
    using steps by auto
  have c: "c = \<lparr>pc_service = pc_service c, pc_space = nfc space, pc_path = normalizePath_pc nfc path,
      pc_actions = pc_actions c, pc_caveats = pc_caveats c\<rparr>" "caveats_of fs (pc_service c) (pc_caveats c)"
    using steps by simp_all
  show ?thesis
    unfolding normalizePolicyCapabilityWithOptions_def Let_def fs bindR.simps us read(1-5) checks throw_if_simps
      read(6) [unfolded read(7)] read(8-) caveats_of_iff
    using c by (intro exI conjI)
qed

lemma validateRawPath_prefix:
  assumes "validateRawPath path options = Inr ()" and lax: "allowPrefixPaths options'"
  shows "validateRawPath path options' = Inr ()"
proof -
  have "is_ok (check_segment options' n p)" if "is_ok (check_segment options n p)" for n p
    using that lax by (cases p) (auto simp: check_segment_def Let_def split: if_splits)
  with assms(1) show ?thesis
    unfolding validateRawPath_def Let_def
    using lax by (auto simp: result_iff mapR_ok_iff split: if_split_asm)
qed

lemma accepted_steps_lax:
  assumes "accepted_steps nfc options fs space path vs c" and "allowPrefixPaths options'" and "\<not> requireCanonical options'"
  shows "accepted_steps nfc options' fs space path vs c"
  using assms(1) unfolding accepted_steps_def
  by (elim conjE, intro conjI) (assumption | rule validateRawPath_prefix normalizeActions_pc_lax assms | simp add: assms)+

text \<open>What the strict validator accepts it returns unchanged: the object it returns has, key
  by key, the members of the object it was given, and the canonicaliser the digests use
  maps the same input to the same capability.\<close>

theorem normalizePolicyCapability_unchanged:
  assumes "normalizePolicyCapability nfc input = Inr c"
  shows "(\<exists>fs. normalizeJson input (ustr ''$'') = Inr (ObjJ fs) \<and> map_of fs = map_of (pc_fields c)) \<and>
    canonicalizePolicyCapability nfc input = Inr c"
proof -
  let ?strict = "\<lparr>allowPrefixPaths = False, requireCanonical = True\<rparr>"
  let ?lax = "\<lparr>allowPrefixPaths = True, requireCanonical = False\<rparr>"
  from assms obtain fs space path vs where n: "normalizeJson input dollar = Inr (ObjJ fs)"
    and steps: "accepted_steps nfc ?strict fs space path vs c"
    unfolding normalizePolicyCapability_def by (rule normalizeD)
  then have keys: "is_ok (assertExactKeys_pc fs [ustr ''service'', ustr ''space'', ustr ''path'', ustr ''actions'', ustr ''caveats''] dollar)"
    and service: "map_of fs (ustr ''service'') = Some (StrJ (pc_service c))" 
    and space: "map_of fs (ustr ''space'') = Some (StrJ (pc_space c))" 
    and path: "map_of fs (ustr ''path'') = Some (StrJ (pc_path c))" "validateRawPath path ?strict = Inr ()"
      "validateRawPath (pc_path c) ?strict = Inr ()"
    and actions: "map_of fs (ustr ''actions'') = Some (ArrJ vs)" "normalizeActions_pc vs (pc_service c) ?strict = Inr (pc_actions c)"
    and caveats: "caveats_of fs (pc_service c) (pc_caveats c)"
    by (simp_all add: accepted_steps_def result_iff)
  have vs: "vs = map StrJ (pc_actions c)"
    by (rule normalizeActions_pc_ok(5) [OF actions(2)]) simp
  have "fst ` set fs \<subseteq> {ustr ''service'', ustr ''space'', ustr ''path'', ustr ''actions'', ustr ''caveats''}"
    using keys assertExactKeys_pc_ok by (fastforce simp: is_ok_iff)
  then have other: "k \<notin> {ustr ''service'', ustr ''space'', ustr ''path'', ustr ''actions'', ustr ''caveats''} \<Longrightarrow> map_of fs k = None" for k
    by (auto simp: map_of_eq_None_iff)
  have "map_of fs k = map_of (pc_fields c) k" for k
  proof (cases "k \<in> {ustr ''service'', ustr ''space'', ustr ''path'', ustr ''actions'', ustr ''caveats''}")
    case True
    then have "k = ustr ''service'' \<or> k = ustr ''space'' \<or> k = ustr ''path'' \<or> k = ustr ''actions'' \<or> k = ustr ''caveats''"
      by simp
    then show ?thesis
      by (elim disjE) (simp_all only: pc_fields_lookup service space path(1) actions(1) vs caveats [unfolded caveats_of_def, THEN conjunct1])
  next
    case False
    with other [OF False] show ?thesis by (simp add: pc_fields_other)
  qed
  then have same: "map_of fs = map_of (pc_fields c)" by blast
  have "accepted_steps nfc ?lax fs space path vs c"
    by (rule accepted_steps_lax [OF steps]) simp_all
  then have "canonicalizePolicyCapability nfc input = Inr c"
    unfolding canonicalizePolicyCapability_def by (rule normalizeI [OF n])
  with n same show ?thesis by blast
qed

section \<open>Containment\<close>

text \<open>An access names a service, a space, a path, an action and a statement (a JSON value up to the order
  of keys). A path that ends in a slash reaches everything under it; a capability without caveats
  permits every statement, a constrained one those it lists.\<close>

definition reach :: "ustring \<Rightarrow> ustring set" where
  "reach path = (if endsWith path (ustr ''/'') then {p. startsWith p path} else {path})"

definition statement_accesses :: "json_object option \<Rightarrow> canon set" where
  "statement_accesses caveats = (case caveats of None \<Rightarrow> UNIV | Some obj \<Rightarrow> canon_of ` set (caveat_statements obj))"

definition accesses :: "policy_capability \<Rightarrow> (ustring \<times> ustring \<times> ustring \<times> ustring \<times> canon) set" where
  "accesses c = {pc_service c} \<times> {pc_space c} \<times> reach (pc_path c) \<times> set (pc_actions c) \<times> statement_accesses (pc_caveats c)"

lemma path_in_reach: "p \<in> reach p"
  by (simp add: reach_def)

lemma pathContains_reach: "pathContains_pc a b \<longleftrightarrow> reach b \<subseteq> reach a"
proof -
  have "b = a \<or> prefix a b \<and> endsWith a (ustr ''/'')" if "reach b \<subseteq> reach a"
    using subsetD [OF that path_in_reach] by (auto simp: reach_def split: if_split_asm)
  moreover have "\<not> reach b \<subseteq> {b}" if "endsWith b (ustr ''/'')"
  proof -
    have "b @ [0] \<in> reach b" using that by (simp add: reach_def)
    then show ?thesis by blast
  qed
  moreover have "reach b \<subseteq> reach a" if "prefix a b" "endsWith a (ustr ''/'')"
    using that by (auto simp: reach_def intro: prefix_order.trans)
  ultimately show ?thesis
    by (auto simp: pathContains_pc_def)
qed

text \<open>The parts of a capability that was accepted.\<close>

definition pc_ok :: "policy_capability \<Rightarrow> bool" where
  "pc_ok c \<longleftrightarrow> pc_service c \<in> set CEILING_SERVICES \<and> pc_path c \<noteq> [] \<and> pc_actions c \<noteq> [] \<and> distinct (pc_actions c) \<and> sorted (pc_actions c) \<and>
     (\<forall>obj. pc_caveats c = Some obj \<longrightarrow>
        pc_service c = ustr ''tinycloud.sql'' \<and> json_ok (ObjJ obj) \<and> map_of obj (ustr ''mode'') = Some (StrJ (ustr ''constrained-statements'')) \<and>
        caveat_statements obj \<noteq> [])"

lemma json_ok_member: "json_ok (ObjJ fs) \<Longrightarrow> map_of fs k = Some v \<Longrightarrow> json_ok v"
  by (auto simp: list_all_iff dest!: map_of_SomeD)

lemma canonicalize_ok: "canonicalizePolicyCapability nfc input = Inr c \<Longrightarrow> pc_ok c"
proof -
  let ?lax = "\<lparr>allowPrefixPaths = True, requireCanonical = False\<rparr>"
  assume "canonicalizePolicyCapability nfc input = Inr c"
  then obtain fs space path vs where n: "normalizeJson input dollar = Inr (ObjJ fs)"
    and steps: "accepted_steps nfc ?lax fs space path vs c"
    unfolding canonicalizePolicyCapability_def by (rule normalizeD)
  have service: "pc_service c \<in> set CEILING_SERVICES" and path: "validateRawPath (pc_path c) ?lax = Inr ()"
    and actions: "normalizeActions_pc vs (pc_service c) ?lax = Inr (pc_actions c)"
    and caveats: "caveats_of fs (pc_service c) (pc_caveats c)"
    using steps unfolding accepted_steps_def by blast+
  have "pc_service c = ustr ''tinycloud.sql'' \<and> json_ok (ObjJ obj) \<and> map_of obj (ustr ''mode'') = Some (StrJ (ustr ''constrained-statements'')) \<and>
      caveat_statements obj \<noteq> []" if obj: "pc_caveats c = Some obj" for obj
  proof -
    have m: "map_of fs (ustr ''caveats'') = Some (ObjJ obj)" and v: "validateCaveats (ObjJ obj) (pc_service c) = Inr obj"
      using caveats obj by (simp_all add: caveats_of_def)
    from v have s: "pc_service c = ustr ''tinycloud.sql''"
      by (simp add: validateCaveats_def split: if_split_asm)
    from validateCaveats_ok(3) [OF v] obtain s ss where "map_of obj (ustr ''statements'') = Some (ArrJ (s # ss))" by blast
    then have "caveat_statements obj \<noteq> []" by (simp add: caveat_statements_def)
    with s validateCaveats_ok(2) [OF v] json_ok_member [OF normalize_ok(1) [OF n] m] show ?thesis by blast
  qed
  moreover have "pc_path c \<noteq> []"
    using path by (auto simp: validateRawPath_def)
  ultimately show ?thesis
    unfolding pc_ok_def using service normalizeActions_pc_ok(1,2,3) [OF actions] by blast
qed

lemma jcs_of_normalised: "json_ok v \<Longrightarrow> jcsCanonicalize (raw_of v) = Inr (serialize v)"
  by (simp add: jcsCanonicalize_def normalize_raw_of)

lemma statements_ok: "json_ok (ObjJ obj) \<Longrightarrow> s \<in> set (caveat_statements obj) \<Longrightarrow> json_ok s"
proof -
  assume ok: "json_ok (ObjJ obj)" and s: "s \<in> set (caveat_statements obj)"
  then obtain xs where m: "map_of obj (ustr ''statements'') = Some (ArrJ xs)" and "s \<in> set xs"
    by (cases "map_of obj (ustr ''statements'')") (auto simp: caveat_statements_def split: json.split_asm)
  with json_ok_member [OF ok m] show ?thesis by (simp add: list_all_iff)
qed

lemma statements_limited: "statement_accesses (Some obj) \<noteq> UNIV"
proof -
  have "inj StrC" by (simp add: inj_def)
  then have "infinite (range StrC)" using infinite_UNIV_listI finite_imageD by blast
  then have "infinite (UNIV :: canon set)" using finite_subset subset_UNIV by blast
  moreover have "finite (canon_of ` set (caveat_statements obj))" by simp
  ultimately show ?thesis unfolding statement_accesses_def option.case by metis
qed

lemma caveatsContain_accesses:
  assumes "pc_ok a" and "pc_ok r"
  shows "caveatsContain (pc_caveats a) (pc_caveats r) =
    Inr (statement_accesses (pc_caveats r) \<subseteq> statement_accesses (pc_caveats a) \<and> (pc_caveats a = None \<longrightarrow> pc_caveats r = None))"
proof (cases "pc_caveats a")
  case None
  then show ?thesis
    by (cases "pc_caveats r") (simp_all add: caveatsContain_def statement_accesses_def)
next
  case (Some auth)
  note a = this
  have auth: "json_ok (ObjJ auth)" "map_of auth (ustr ''mode'') = Some (StrJ (ustr ''constrained-statements''))"
      "caveat_statements auth \<noteq> []"
    using assms(1) a unfolding pc_ok_def by blast+
  show ?thesis
  proof (cases "pc_caveats r")
    case None
    have "\<not> statement_accesses None \<subseteq> statement_accesses (Some auth)"
      using statements_limited [of auth] by (auto simp: statement_accesses_def)
    then show ?thesis
      using a None auth(2) by (auto simp: caveatsContain_def)
  next
    case (Some req)
    have req: "json_ok (ObjJ req)" "map_of req (ustr ''mode'') = Some (StrJ (ustr ''constrained-statements''))"
      using assms(2) Some unfolding pc_ok_def by blast+
    let ?some = "\<lambda>s. list_ex (\<lambda>c. serialize c = serialize s) (caveat_statements auth)"
    have some: "someR (\<lambda>c. bindR (jcsCanonicalize (raw_of c)) (\<lambda>l. bindR (jcsCanonicalize (raw_of s)) (\<lambda>r. Inr (l = r))))
        (caveat_statements auth) = Inr (?some s)" if "s \<in> set (caveat_statements req)" for s
      by (rule someR_Inr) (simp add: jcs_of_normalised statements_ok [OF auth(1)] statements_ok [OF req(1) that])
    have same: "serialize c = serialize s \<longleftrightarrow> canon_of c = canon_of s"
      if "c \<in> set (caveat_statements auth)" "s \<in> set (caveat_statements req)" for c s
      using that statements_ok [OF auth(1)] statements_ok [OF req(1)] serialize_inject json_ok_finite by blast
    have "caveatsContain (pc_caveats a) (pc_caveats r) = Inr (list_all ?some (caveat_statements req))"
      unfolding caveatsContain_def a Some option.case using auth(2) req(2) by (simp add: everyR_Inr [OF some])
    also have "list_all ?some (caveat_statements req) \<longleftrightarrow> statement_accesses (pc_caveats r) \<subseteq> statement_accesses (pc_caveats a)"
      unfolding a Some statement_accesses_def option.case list_all_iff list_ex_iff image_subset_iff
      using same by (auto simp: image_iff) (metis, metis)
    finally show ?thesis by (simp add: a)
  qed
qed

lemma statement_accesses_nonempty: "pc_ok c \<Longrightarrow> statement_accesses (pc_caveats c) \<noteq> {}"
  by (auto simp: statement_accesses_def pc_ok_def split: option.split)

lemma accesses_subset:
  assumes "pc_ok r"
  shows "accesses r \<subseteq> accesses a \<longleftrightarrow>
    pc_service a = pc_service r \<and> pc_space a = pc_space r \<and> reach (pc_path r) \<subseteq> reach (pc_path a) \<and>
    set (pc_actions r) \<subseteq> set (pc_actions a) \<and> statement_accesses (pc_caveats r) \<subseteq> statement_accesses (pc_caveats a)"
proof -
  have "reach (pc_path r) \<noteq> {}" "set (pc_actions r) \<noteq> {}" "statement_accesses (pc_caveats r) \<noteq> {}"
    using path_in_reach assms statement_accesses_nonempty [OF assms] by (auto simp: pc_ok_def)
  then show ?thesis
    unfolding accesses_def times_subset_iff by auto
qed

lemma contains_accesses:
  assumes "canonicalizePolicyCapability nfc authority = Inr a" and "canonicalizePolicyCapability nfc request = Inr r"
  shows "policyCapabilityContains nfc authority request =
    Inr (accesses r \<subseteq> accesses a \<and> (pc_caveats a = None \<longrightarrow> pc_caveats r = None))"
proof -
  note ok = canonicalize_ok [OF assms(1)] canonicalize_ok [OF assms(2)]
  show ?thesis
    unfolding policyCapabilityContains_def assms sum.case prod.case accesses_subset [OF ok(2)]
      caveatsContain_accesses [OF ok] pathContains_reach
    by (auto simp: list_all_iff)
qed

text \<open>C12: of two capabilities the canonicaliser accepts, the first contains the second exactly when every
  access the second permits is permitted by the first, where no caveats permit every statement - except
  that a capability without caveats is not taken to contain a constrained one, though it permits
  more. So what is contained is never broader, in particular a request without caveats is never within
  a constrained authority.\<close>

theorem policyCapabilityContains_accesses:
  assumes "canonicalizePolicyCapability nfc authority = Inr a" and "canonicalizePolicyCapability nfc request = Inr r"
  shows "policyCapabilityContains nfc authority request =
    Inr (accesses r \<subseteq> accesses a \<and> (pc_caveats a = None \<longrightarrow> pc_caveats r = None))"
  by (rule contains_accesses [OF assms])

text \<open>Containment is the same contract the capability subset check keeps.\<close>

lemma contains_canonical:
  "policyCapabilityContains nfc a r = Inr True \<Longrightarrow>
   \<exists>ca cr. canonicalizePolicyCapability nfc a = Inr ca \<and> canonicalizePolicyCapability nfc r = Inr cr \<and> accesses cr \<subseteq> accesses ca \<and>
     (pc_caveats ca = None \<longrightarrow> pc_caveats cr = None)"
proof -
  assume h: "policyCapabilityContains nfc a r = Inr True"
  then obtain ca cr where c: "canonicalizePolicyCapability nfc a = Inr ca" "canonicalizePolicyCapability nfc r = Inr cr"
    by (cases "canonicalizePolicyCapability nfc a"; cases "canonicalizePolicyCapability nfc r")
      (simp_all add: policyCapabilityContains_def)
  with h contains_accesses [OF c] show ?thesis by auto
qed

interpretation policies: containment "\<lambda>a r. policyCapabilityContains nfc a r = Inr True"
    "\<lambda>a. is_ok (canonicalizePolicyCapability nfc a)" for nfc
proof unfold_locales
  fix a b c
  assume "policyCapabilityContains nfc a b = Inr True" "policyCapabilityContains nfc b c = Inr True"
  then show "policyCapabilityContains nfc a c = Inr True"
    by (auto dest!: contains_canonical simp: contains_accesses)
qed (auto simp: is_ok_iff contains_accesses)

section \<open>Digests\<close>

text \<open>A value that can be encoded is one the normaliser returns.\<close>

lemma raw_of_ok: "normalizeJson (raw_of v) path = Inr u \<Longrightarrow> json_ok v"
proof (induction v arbitrary: path u rule: json_ok.induct)
  case (3 xs)
  let ?ps = "zip (map index_key [0..<length xs]) (map (\<lambda>v. Data True (raw_of v)) xs)"
  from 3(2) have keys: "list_all (\<lambda>(k, d). isArrayIndexKey k (length xs) \<and> (\<exists>w. d = Data True w)) ?ps"
    and items: "\<exists>vs. list_all2 (\<lambda>i x. \<exists>w. map_of ?ps (index_key i) = Some (Data True w) \<and>
        normalizeJson w (path @ ustr ''['' @ index_key i @ ustr '']'') = Inr x) [0..<length xs] vs"
    unfolding raw_of.simps normalize_array_iff by blast+
  have "i < 2 ^ 53" if "i < length xs" for i
  proof -
    have "isArrayIndexKey (index_key i) (length xs)"
      using keys that by (auto simp: list_all_length)
    then show ?thesis by (simp add: index_key_ok)
  qed
  then have "length xs \<le> 2 ^ 53" by (meson less_irrefl not_le)
  moreover have "json_ok (xs ! i)" if i: "i < length xs" for i
  proof -
    obtain x where "normalizeJson (raw_of (xs ! i)) (path @ ustr ''['' @ index_key i @ ustr '']'') = Inr x"
      using items i by (auto simp: items_lookup list_all2_conv_all_nth)
    with 3(1) [of "xs ! i"] i show ?thesis by auto
  qed
  ultimately show ?case by (simp add: list_all_length)
next
  case (4 fs)
  from 4(2) obtain gs where gs: "list_all2 (\<lambda>p q. fst q = fst p \<and> allowed_key (fst p) \<and>
        (\<exists>w. snd p = Data True w \<and> normalizeJson w (path @ ustr ''.'' @ fst p) = Inr (snd q)))
        (map (\<lambda>(k, v). (k, Data True (raw_of v))) fs) gs"
    unfolding raw_of.simps normalize_object_iff by blast
  have "allowed_key k \<and> json_ok v" if p: "(k, v) \<in> set fs" for k v
  proof -
    obtain i where i: "i < length fs" "fs ! i = (k, v)" using p by (auto simp: in_set_conv_nth)
    then have "allowed_key k" and "\<exists>u. normalizeJson (raw_of v) (path @ ustr ''.'' @ k) = Inr u"
      using gs by (auto simp: list_all2_conv_all_nth)
    then show ?thesis using 4(1) [OF p refl] by blast
  qed
  then show ?case by (auto simp: list_all_iff)
qed (auto simp: scalar_iff result_iff split: if_split_asm)

lemma jcs_of_raw:
  assumes "jcsCanonicalize (raw_of v) = Inr t"
  shows "json_ok v" and "t = serialize v" and "scalar_string t"
proof -
  from assms obtain u where u: "normalizeJson (raw_of v) dollar = Inr u" "t = serialize u"
    by (auto simp: jcsCanonicalize_def result_iff)
  show ok: "json_ok v" by (rule raw_of_ok [OF u(1)])
  with u show t: "t = serialize v" by (simp add: normalize_raw_of)
  show "scalar_string t" unfolding t by (rule scalar_serialize [OF ok])
qed

lemma jcs_of_raw_inject:
  assumes "jcsCanonicalize (raw_of v) = Inr s" and "jcsCanonicalize (raw_of w) = Inr t"
  shows "textEncode s = textEncode t \<longleftrightarrow> canon_of v = canon_of w"
  using jcs_of_raw [OF assms(1)] jcs_of_raw [OF assms(2)]
  by (simp add: textEncode_inject serialize_inject json_ok_finite)

text \<open>Two objects have the same canonical form exactly when they agree key by key.\<close>

lemma canon_object_iff:
  "canon_of (ObjJ fs) = canon_of (ObjJ gs) \<longleftrightarrow> (\<forall>k. map_option canon_of (map_of fs k) = map_option canon_of (map_of gs k))"
proof -
  let ?vals = "\<lambda>fs. map (\<lambda>(k, v). (k, canon_of v)) fs"
  let ?keys = "\<lambda>fs. sort (dedupe (map fst (?vals fs)))"
  have vals: "map_of (?vals fs) k = map_option canon_of (map_of fs k)" for fs k
    by (simp add: map_of_map)
  have keys: "set (?keys fs) = dom (map_of fs)" for fs
    by (simp add: dom_map_of_conv_image_fst image_image split_def)
  have lookup: "map_of (map (\<lambda>k. (k, the (map_of (?vals fs) k))) (?keys fs)) k = map_option canon_of (map_of fs k)" for fs k
  proof (cases "k \<in> dom (map_of fs)")
    case True
    then show ?thesis using keys [of fs] by (auto simp: map_of_map_restrict vals)
  next
    case False
    then show ?thesis using keys [of fs] by (auto simp: map_of_map_restrict domIff)
  qed
  show ?thesis
  proof
    assume "canon_of (ObjJ fs) = canon_of (ObjJ gs)"
    then have same: "map (\<lambda>k. (k, the (map_of (?vals fs) k))) (?keys fs) = map (\<lambda>k. (k, the (map_of (?vals gs) k))) (?keys gs)"
      by (simp only: canon_of.simps Let_def canon.inject)
    show "\<forall>k. map_option canon_of (map_of fs k) = map_option canon_of (map_of gs k)"
      unfolding lookup [of fs, symmetric] lookup [of gs, symmetric] same by simp
  next
    assume eq: "\<forall>k. map_option canon_of (map_of fs k) = map_option canon_of (map_of gs k)"
    then have v: "map_of (?vals fs) = map_of (?vals gs)"
      unfolding vals [abs_def] by (intro ext) simp
    have "dom (map_of fs) = dom (map_of gs)"
      using eq by (auto simp: dom_def) (metis map_option_is_None option.exhaust)+
    then have "?keys fs = ?keys gs"
      by (intro sorted_distinct_set_unique)
        (simp_all only: keys sorted_sort distinct_sort distinct_merge_new distinct.simps(1))
    then show "canon_of (ObjJ fs) = canon_of (ObjJ gs)"
      by (simp only: canon_of.simps Let_def v)
  qed
qed

lemma pc_fields_canon:
  "canon_of (ObjJ (pc_fields c)) = canon_of (ObjJ (pc_fields d)) \<longleftrightarrow>
     pc_service c = pc_service d \<and> pc_space c = pc_space d \<and> pc_path c = pc_path d \<and> pc_actions c = pc_actions d \<and>
     map_option (\<lambda>obj. canon_of (ObjJ obj)) (pc_caveats c) = map_option (\<lambda>obj. canon_of (ObjJ obj)) (pc_caveats d)"
  (is "?l \<longleftrightarrow> ?r")
proof
  assume ?l
  then have k: "map_option canon_of (map_of (pc_fields c) k) = map_option canon_of (map_of (pc_fields d) k)" for k
    unfolding canon_object_iff by blast
  have strs: "map (canon_of \<circ> StrJ) as = map (canon_of \<circ> StrJ) bs \<longleftrightarrow> as = bs" for as bs
    by (rule inj_map_eq_map) (simp add: inj_def)
  show ?r
    using k [of "ustr ''service''"] k [of "ustr ''space''"] k [of "ustr ''path''"] k [of "ustr ''actions''"] k [of "ustr ''caveats''"]
    unfolding pc_fields_lookup option.map_comp comp_def by (simp add: strs del: canon_of.simps(6))
next
  assume r: ?r
  have "map_option canon_of (map_of (pc_fields c) k) = map_option canon_of (map_of (pc_fields d) k)" for k
  proof (cases "k \<in> {ustr ''service'', ustr ''space'', ustr ''path'', ustr ''actions'', ustr ''caveats''}")
    case True
    then have "k = ustr ''service'' \<or> k = ustr ''space'' \<or> k = ustr ''path'' \<or> k = ustr ''actions'' \<or> k = ustr ''caveats''"
      by simp
    with r show ?thesis
      by (elim disjE) (simp_all only: pc_fields_lookup option.map_comp comp_def option.map)
  next
    case False
    then show ?thesis by (simp add: pc_fields_other)
  qed
  then show ?l unfolding canon_object_iff by blast
qed

text \<open>The bytes a policy-capability digest is taken of determine the capability: they are the
  same for two inputs exactly when service, space, path, actions and caveats (up to the
  order of keys) are, so equal digests of different capabilities are SHA-256 collisions.\<close>

theorem policy_capability_preimage_inject:
  assumes "canonicalizePolicyCapability nfc x = Inr c" and "policy_capability_preimage nfc x = Inr m"
    and "canonicalizePolicyCapability nfc y = Inr d" and "policy_capability_preimage nfc y = Inr n"
  shows "m = n \<longleftrightarrow>
    pc_service c = pc_service d \<and> pc_space c = pc_space d \<and> pc_path c = pc_path d \<and> pc_actions c = pc_actions d \<and>
    map_option (\<lambda>obj. canon_of (ObjJ obj)) (pc_caveats c) = map_option (\<lambda>obj. canon_of (ObjJ obj)) (pc_caveats d)"
proof -
  have "\<exists>t. m = textEncode (POLICY_CAPABILITY_DOMAIN @ [0]) @ textEncode t \<and> jcsCanonicalize (raw_of (ObjJ (pc_fields c))) = Inr t"
    if "canonicalizePolicyCapability nfc x = Inr c" "policy_capability_preimage nfc x = Inr m" for x c m
    using that by (auto simp: policy_capability_preimage_def split: sum.split_asm)
  with assms obtain s t where m: "m = textEncode (POLICY_CAPABILITY_DOMAIN @ [0]) @ textEncode s"
      "jcsCanonicalize (raw_of (ObjJ (pc_fields c))) = Inr s"
    and n: "n = textEncode (POLICY_CAPABILITY_DOMAIN @ [0]) @ textEncode t"
      "jcsCanonicalize (raw_of (ObjJ (pc_fields d))) = Inr t"
    by meson
  have "m = n \<longleftrightarrow> textEncode s = textEncode t"
    by (simp add: m(1) n(1))
  then show ?thesis
    by (simp only: jcs_of_raw_inject [OF m(2) n(2)] pc_fields_canon)
qed

section \<open>Samples\<close>

definition cap_input :: "string \<Rightarrow> string list \<Rightarrow> raw" where
  "cap_input path actions = raw_of (ObjJ
     [(ustr ''actions'', ArrJ (map (\<lambda>a. StrJ (ustr a)) actions)), (ustr ''service'', StrJ (ustr ''tinycloud.kv'')),
      (ustr ''space'', StrJ (ustr ''s'')), (ustr ''path'', StrJ (ustr path))])"

definition kv_cap :: "string \<Rightarrow> string list \<Rightarrow> policy_capability" where
  "kv_cap path actions = \<lparr>pc_service = ustr ''tinycloud.kv'', pc_space = ustr ''s'', pc_path = ustr path,
     pc_actions = map ustr actions, pc_caveats = None\<rparr>"

lemma kv_grantable:
  "map_of GRANTABLE_ACTIONS (ustr ''tinycloud.kv'') = Some (map ustr
     [''tinycloud.kv/get'', ''tinycloud.kv/list'', ''tinycloud.kv/metadata'', ''tinycloud.kv/put'', ''tinycloud.kv/del'',
      ''tinycloud.kv/sync'', ''tinycloud.kv/retain''])"
  by (simp add: GRANTABLE_ACTIONS_def GENERATED_CAPABILITIES_def CEILING_SERVICES_def ustr_inject endsWith_def push_new_def Let_def)

lemma scalar_ustr: "scalar_string (ustr s)"
  by (rule plain_units [OF plain_ustr])

lemma cap_input_object:
  "length actions < 2 ^ 53 \<Longrightarrow> normalizeJson (cap_input path actions) dollar = Inr (ObjJ
     [(ustr ''actions'', ArrJ (map (\<lambda>a. StrJ (ustr a)) actions)), (ustr ''service'', StrJ (ustr ''tinycloud.kv'')),
      (ustr ''space'', StrJ (ustr ''s'')), (ustr ''path'', StrJ (ustr path))])"
  unfolding cap_input_def
  by (intro normalize_raw_of) (simp add: list_all_iff allowed_key_def ustr_inject scalar_ustr del: scalar_simps)

lemma ustr_empty: "ustr s = [] \<longleftrightarrow> s = []"
  by (simp add: ustr_def)

lemma ustr_prefix: "prefix (ustr a @ ustr b) (ustr s) \<longleftrightarrow> prefix (a @ b) s"
proof -
  have "ustr a @ ustr b = ustr (a @ b)" by (simp add: ustr_def)
  moreover have "prefix (map unit_of u) (map unit_of v) \<longleftrightarrow> prefix u v" for u v
    by (induction u v rule: list_induct2') (auto simp: unit_of_inject)
  ultimately show ?thesis by (metis ustr_def)
qed

lemma ustr_char: "unit_of c \<in> set (ustr s) \<longleftrightarrow> c \<in> set s"
  by (auto simp: ustr_def unit_of_inject)

lemma kv_action:
  assumes "a \<in> {''tinycloud.kv/get'', ''tinycloud.kv/put''}"
  shows "check_action (ustr ''tinycloud.kv'') (map ustr
     [''tinycloud.kv/get'', ''tinycloud.kv/list'', ''tinycloud.kv/metadata'', ''tinycloud.kv/put'', ''tinycloud.kv/del'',
      ''tinycloud.kv/sync'', ''tinycloud.kv/retain'']) (i, StrJ (ustr a)) = Inr (ustr a)"
proof -
  have "unit_of CHR ''*'' = 0x2A" by (simp add: unit_of_def)
  then have "0x2A \<notin> set (ustr a)" using assms by (auto simp flip: ustr_char [of "CHR ''*''"] simp: ustr_def unit_of_def)
  then show ?thesis
    using assms by (auto simp: check_action_iff ustr_empty ustr_prefix ustr_inject)
qed

lemma kv_sample:
  assumes "length actions < 2 ^ 53" and "validateRawPath (ustr path) options = Inr ()"
    and "normalizePath_pc (\<lambda>s. s) (ustr path) = ustr path'" and "validateRawPath (ustr path') options = Inr ()"
    and "requireCanonical options \<longrightarrow> path' = path"
    and "normalizeActions_pc (map (\<lambda>a. StrJ (ustr a)) actions) (ustr ''tinycloud.kv'') options = Inr (map ustr actions')"
    and "path \<noteq> []"
  shows "normalizePolicyCapabilityWithOptions (\<lambda>s. s) (cap_input path actions) options = Inr (kv_cap path' actions')"
proof (rule normalizeI [OF cap_input_object])
  have "validateConcreteSpace (ustr ''s'') = Inr ()" by code_simp
  with assms show "accepted_steps (\<lambda>s. s) options
     [(ustr ''actions'', ArrJ (map (\<lambda>a. StrJ (ustr a)) actions)), (ustr ''service'', StrJ (ustr ''tinycloud.kv'')),
      (ustr ''space'', StrJ (ustr ''s'')), (ustr ''path'', StrJ (ustr path))] (ustr ''s'') (ustr path)
     (map (\<lambda>a. StrJ (ustr a)) actions) (kv_cap path' actions')"
    by (simp add: accepted_steps_def assertExactKeys_pc_def result_iff kv_cap_def CEILING_SERVICES_def ustr_inject
        ustr_empty caveats_of_def)
qed (use assms in simp)

lemma kv_get:
  "normalizeActions_pc (map (\<lambda>a. StrJ (ustr a)) [''tinycloud.kv/get'']) (ustr ''tinycloud.kv'') options
    = Inr (map ustr [''tinycloud.kv/get''])"
  by (simp add: normalizeActions_pc_def kv_grantable [simplified] kv_action [simplified] sort_units_eq Let_def)

lemma kv_put_get:
  "normalizeActions_pc (map (\<lambda>a. StrJ (ustr a)) [''tinycloud.kv/put'', ''tinycloud.kv/get'']) (ustr ''tinycloud.kv'')
     \<lparr>allowPrefixPaths = True, requireCanonical = False\<rparr> = Inr (map ustr [''tinycloud.kv/get'', ''tinycloud.kv/put''])"
proof -
  have "compareUtf16CodeUnits (ustr ''tinycloud.kv/put'') (ustr ''tinycloud.kv/get'') = 9" by code_simp
  then have "sort_units [ustr ''tinycloud.kv/put'', ustr ''tinycloud.kv/get''] = [ustr ''tinycloud.kv/get'', ustr ''tinycloud.kv/put'']"
    by (simp add: sort_units_def sort_by_def)
  then show ?thesis
    by (simp add: normalizeActions_pc_def kv_grantable [simplified] kv_action [simplified] push_new_def ustr_inject Let_def)
qed

abbreviation (input) engine_options :: normalize_options where
  "engine_options \<equiv> \<lparr>allowPrefixPaths = True, requireCanonical = False\<rparr>"

lemma sample_paths:
  "validateRawPath (ustr ''a/'') engine_options = Inr ()" "validateRawPath (ustr ''a/b'') engine_options = Inr ()"
  "validateRawPath (ustr ''a/%62'') engine_options = Inr ()" "validateRawPath (ustr ''%%341'') engine_options = Inr ()"
  "validateRawPath (ustr ''%41'') engine_options = Inr ()" "validateRawPath (ustr ''A'') engine_options = Inr ()"
  "validateRawPath (ustr ''a/b'') \<lparr>allowPrefixPaths = False, requireCanonical = True\<rparr> = Inr ()"
  by code_simp+

lemma sample_decoded:
  "normalizePath_pc (\<lambda>s. s) (ustr ''a/'') = ustr ''a/''" "normalizePath_pc (\<lambda>s. s) (ustr ''a/b'') = ustr ''a/b''"
  "normalizePath_pc (\<lambda>s. s) (ustr ''a/%62'') = ustr ''a/b''" "normalizePath_pc (\<lambda>s. s) (ustr ''%%341'') = ustr ''%41''"
  "normalizePath_pc (\<lambda>s. s) (ustr ''%41'') = ustr ''A''"
  unfolding normalizePath_pc_def by code_simp+

lemma kv_get_sample:
  assumes "validateRawPath (ustr path) options = Inr ()" and "normalizePath_pc (\<lambda>s. s) (ustr path) = ustr path'"
    and "validateRawPath (ustr path') options = Inr ()" and "requireCanonical options \<longrightarrow> path' = path"
  shows "normalizePolicyCapabilityWithOptions (\<lambda>s. s) (cap_input path [''tinycloud.kv/get'']) options
    = Inr (kv_cap path' [''tinycloud.kv/get''])"
proof -
  have "path \<noteq> []" using assms(1) by (auto simp: validateRawPath_def ustr_def)
  with assms show ?thesis by (intro kv_sample kv_get) simp_all
qed

lemma sample_canonical:
  "canonicalizePolicyCapability (\<lambda>s. s) (cap_input ''a/'' [''tinycloud.kv/put'', ''tinycloud.kv/get''])
    = Inr (kv_cap ''a/'' [''tinycloud.kv/get'', ''tinycloud.kv/put''])"
  unfolding canonicalizePolicyCapability_def by (rule kv_sample) (simp_all only: sample_paths sample_decoded kv_put_get, simp_all)

lemma sample_accepts:
  "canonicalizePolicyCapability (\<lambda>s. s) (cap_input ''a/%62'' [''tinycloud.kv/get'']) = Inr (kv_cap ''a/b'' [''tinycloud.kv/get''])"
  "canonicalizePolicyCapability (\<lambda>s. s) (cap_input ''a/b'' [''tinycloud.kv/get'']) = Inr (kv_cap ''a/b'' [''tinycloud.kv/get''])"
  unfolding canonicalizePolicyCapability_def by (rule kv_get_sample; simp add: sample_paths sample_decoded)+

lemma sample_strict:
  "normalizePolicyCapability (\<lambda>s. s) (cap_input ''a/b'' [''tinycloud.kv/get'']) = Inr (kv_cap ''a/b'' [''tinycloud.kv/get''])"
  unfolding normalizePolicyCapability_def by (rule kv_get_sample; simp add: sample_paths sample_decoded)

lemma normalizePolicyCapability_unchanged_witness:
  "canonicalizePolicyCapability (\<lambda>s. s) (cap_input ''a/b'' [''tinycloud.kv/get'']) = Inr (kv_cap ''a/b'' [''tinycloud.kv/get''])"
  using normalizePolicyCapability_unchanged [OF sample_strict] by simp

lemma policyCapabilityContains_accesses_witness:
  "policyCapabilityContains (\<lambda>s. s) (cap_input ''a/'' [''tinycloud.kv/put'', ''tinycloud.kv/get''])
     (cap_input ''a/%62'' [''tinycloud.kv/get'']) = Inr True"
proof -
  have "accesses (kv_cap ''a/b'' [''tinycloud.kv/get'']) \<subseteq> accesses (kv_cap ''a/'' [''tinycloud.kv/get'', ''tinycloud.kv/put''])"
    by (auto simp: accesses_def kv_cap_def reach_def statement_accesses_def endsWith_def ustr_def unit_of_def)
  then show ?thesis
    unfolding policyCapabilityContains_accesses [OF sample_canonical sample_accepts(1)] by (simp add: kv_cap_def)
qed

lemma policy_capability_preimage_inject_witness:
  "policy_capability_preimage (\<lambda>s. s) (cap_input ''a/%62'' [''tinycloud.kv/get''])
    = policy_capability_preimage (\<lambda>s. s) (cap_input ''a/b'' [''tinycloud.kv/get''])"
proof -
  have "json_ok (ObjJ (pc_fields (kv_cap ''a/b'' [''tinycloud.kv/get''])))"
    by (simp add: pc_fields_def kv_cap_def allowed_key_def ustr_inject scalar_ustr del: scalar_simps)
  then obtain m n where m: "policy_capability_preimage (\<lambda>s. s) (cap_input ''a/%62'' [''tinycloud.kv/get'']) = Inr m"
    and n: "policy_capability_preimage (\<lambda>s. s) (cap_input ''a/b'' [''tinycloud.kv/get'']) = Inr n"
    unfolding policy_capability_preimage_def sample_accepts by (simp only: sum.case jcs_of_normalised)
  show ?thesis
    using policy_capability_preimage_inject [OF sample_accepts(1) m sample_accepts(2) n] m n by simp
qed

text \<open>Canonicalising a path is not idempotent: the percent sign a decoded escape follows may
  start a new one.\<close>

lemma canonicalize_path_twice:
  "canonicalizePolicyCapability (\<lambda>s. s) (cap_input ''%%341'' [''tinycloud.kv/get'']) = Inr (kv_cap ''%41'' [''tinycloud.kv/get''])"
  "canonicalizePolicyCapability (\<lambda>s. s) (cap_input ''%41'' [''tinycloud.kv/get'']) = Inr (kv_cap ''A'' [''tinycloud.kv/get''])"
  unfolding canonicalizePolicyCapability_def by (rule kv_get_sample; simp add: sample_paths sample_decoded)+

end
