(* ===== verification/Encodings.thy ===== *)
theory Encodings
  imports Utf8
begin

unbundle bit_operations_syntax

text \<open>
  The text encodings of \<^verbatim>\<open>packages/sdk-core/src/policy/signed-object.ts\<close>: the base-32 text of
  an object id, the unpadded base64url text of a signature and the reader of hexadecimal
  signatures. The loops keep their bits in a 32-bit integer, as JavaScript's bit operations
  do; older bits are shifted out of it, and the right shift is the signed one.

  Both encoders are shown to regroup the bits of the bytes, in groups of five and six
  (\<open>base32_groups\<close>, \<open>base64_groups\<close>); lengths, alphabets, injectivity and the base64url round
  trip follow from that.
\<close>

section \<open>The code\<close>

definition BASE32_ALPHABET :: ustring where
  "BASE32_ALPHABET = ustr ''abcdefghijklmnopqrstuvwxyz234567''"

definition BASE64URL_ALPHABET :: ustring where
  "BASE64URL_ALPHABET = ustr ''ABCDEFGHIJKLMNOPQRSTUVWXYZabcdefghijklmnopqrstuvwxyz0123456789-_''"

text \<open>The inner loop: while there are five bits, write the topmost five.\<close>

fun base32_drain :: "32 word \<Rightarrow> nat \<Rightarrow> ustring \<Rightarrow> nat \<times> ustring" where
  "base32_drain buffer bits out =
     (if 5 \<le> bits
      then base32_drain buffer (bits - 5) (out @ [BASE32_ALPHABET ! unat (signed_drop_bit (bits - 5) buffer AND 31)])
      else (bits, out))"

declare base32_drain.simps [simp del]

fun base32_loop :: "bytes \<Rightarrow> 32 word \<Rightarrow> nat \<Rightarrow> ustring \<Rightarrow> ustring" where
  "base32_loop [] buffer bits out =
     (if 0 < bits then out @ [BASE32_ALPHABET ! unat (push_bit (5 - bits) buffer AND 31)] else out)"
| "base32_loop (byte # bytes) buffer bits out =
     (let buffer' = push_bit 8 buffer OR ucast byte
      in case base32_drain buffer' (bits + 8) out of (bits', out') \<Rightarrow> base32_loop bytes buffer' bits' out')"

definition base32LowerNoPad :: "bytes \<Rightarrow> ustring" where
  "base32LowerNoPad bytes = base32_loop bytes 0 0 []"

definition base64_digit :: "32 word \<Rightarrow> nat \<Rightarrow> 16 word" where
  "base64_digit triplet shift = BASE64URL_ALPHABET ! unat (signed_drop_bit shift triplet AND 63)"

definition base64_triplet :: "8 word \<Rightarrow> 8 word \<Rightarrow> 8 word \<Rightarrow> 32 word" where
  "base64_triplet a b c = push_bit 16 (ucast a) OR push_bit 8 (ucast b) OR ucast c"

fun base64UrlEncode :: "bytes \<Rightarrow> ustring" where
  "base64UrlEncode [] = []"
| "base64UrlEncode [a] = (let t = base64_triplet a 0 0 in [base64_digit t 18, base64_digit t 12])"
| "base64UrlEncode [a, b] = (let t = base64_triplet a b 0 in [base64_digit t 18, base64_digit t 12, base64_digit t 6])"
| "base64UrlEncode (a # b # c # bytes) =
     (let t = base64_triplet a b c
      in [base64_digit t 18, base64_digit t 12, base64_digit t 6, base64_digit t 0] @ base64UrlEncode bytes)"

text \<open>\<open>alphabet.indexOf(c)\<close>, where \<open>None\<close> is -1.\<close>

fun indexOf :: "'a list \<Rightarrow> 'a \<Rightarrow> nat option" where
  "indexOf [] c = None"
| "indexOf (x # xs) c = (if x = c then Some 0 else map_option Suc (indexOf xs c))"

text \<open>The two messages of \<open>SignatureMaterialError\<close> the decoder throws.\<close>

datatype base64_error = NotCanonicalBase64url | NotBase64url

fun base64_loop :: "ustring \<Rightarrow> 32 word \<Rightarrow> nat \<Rightarrow> bytes \<Rightarrow> (base64_error, bytes) result" where
  "base64_loop [] buffer bits bytes = Inr bytes"
| "base64_loop (char # rest) buffer bits bytes =
     (case indexOf BASE64URL_ALPHABET char of
        None \<Rightarrow> Inl NotBase64url
      | Some index \<Rightarrow>
          let buffer' = push_bit 6 buffer OR of_nat index; bits' = bits + 6
          in if 8 \<le> bits'
             then base64_loop rest buffer' (bits' - 8) (bytes @ [ucast (signed_drop_bit (bits' - 8) buffer' AND 0xFF)])
             else base64_loop rest buffer' bits' bytes)"

definition base64UrlDecode :: "ustring \<Rightarrow> (base64_error, bytes) result" where
  "base64UrlDecode val =
     (if length val mod 4 = 1 then Inl NotCanonicalBase64url
      else bindR (base64_loop val 0 0 []) (\<lambda>decoded.
           if base64UrlEncode decoded \<noteq> val then Inl NotCanonicalBase64url else Inr decoded))"

section \<open>Bits\<close>

text \<open>The low bits of a word, highest first; the digit a group of bits selects.\<close>

definition low_bits :: "nat \<Rightarrow> 'a::len word \<Rightarrow> bool list" where
  "low_bits n w = map (bit w) (rev [0..<n])"

definition byte_bits :: "bytes \<Rightarrow> bool list" where
  "byte_bits bytes = concat (map (low_bits 8) bytes)"

definition group_value :: "bool list \<Rightarrow> nat" where
  "group_value bs = foldl (\<lambda>n b. 2 * n + of_bool b) 0 bs"

fun groups :: "nat \<Rightarrow> bool list \<Rightarrow> bool list list" where
  "groups k bs =
     (if bs = [] \<or> k = 0 then []
      else if length bs < k then [bs @ replicate (k - length bs) False]
      else take k bs # groups k (drop k bs))"

declare groups.simps [simp del]

lemma groups_Nil [simp]: "groups k [] = []"
  by (simp add: groups.simps)

lemma groups_append: "0 < k \<Longrightarrow> length g = k \<Longrightarrow> groups k (g @ bs) = g # groups k bs"
  by (subst groups.simps) auto

lemma groups_short: "bs \<noteq> [] \<Longrightarrow> length bs < k \<Longrightarrow> groups k bs = [bs @ replicate (k - length bs) False]"
  by (subst groups.simps) auto

lemma length_low_bits [simp]: "length (low_bits n w) = n"
  by (simp add: low_bits_def)

lemma length_byte_bits [simp]: "length (byte_bits bytes) = 8 * length bytes"
  by (induction bytes) (simp_all add: byte_bits_def)

lemma byte_bits_simps [simp]: "byte_bits [] = []" "byte_bits (b # bytes) = low_bits 8 b @ byte_bits bytes"
  by (simp_all add: byte_bits_def)

lemma low_bits_Suc: "low_bits (Suc n) w = bit w n # low_bits n w"
  by (simp add: low_bits_def)

lemma low_bits_0 [simp]: "low_bits 0 w = []"
  by (simp add: low_bits_def)

lemma low_bits_split: "low_bits (m + n) w = low_bits m (drop_bit n w) @ low_bits n w"
  by (induction m) (simp_all add: low_bits_Suc bit_drop_bit_eq add.commute)

lemma low_bits_cong: "(\<And>i. i < n \<Longrightarrow> bit v i = bit w i) \<Longrightarrow> low_bits n v = low_bits n w"
  by (simp add: low_bits_def)

lemma low_bits_inject:
  fixes v w :: "'a::len word"
  assumes "low_bits LENGTH('a) v = low_bits LENGTH('a) w"
  shows "v = w"
proof (rule bit_word_eqI)
  fix n
  assume "n < LENGTH('a)"
  then have "bit v n = low_bits LENGTH('a) v ! (LENGTH('a) - Suc n)" "bit w n = low_bits LENGTH('a) w ! (LENGTH('a) - Suc n)"
    by (simp_all add: low_bits_def rev_nth)
  with assms show "bit v n = bit w n" by simp
qed

lemma byte_bits_inject: "byte_bits xs = byte_bits ys \<longleftrightarrow> xs = ys"
proof (induction xs arbitrary: ys)
  case Nil
  then show ?case by (cases ys) (simp_all add: low_bits_Suc eval_nat_numeral)
next
  case (Cons x xs)
  show ?case
  proof (cases ys)
    case Nil
    then show ?thesis by (simp add: low_bits_Suc eval_nat_numeral)
  next
    case (Cons y ys')
    have "low_bits 8 x = low_bits 8 y \<longleftrightarrow> x = y" for x y :: "8 word"
      using low_bits_inject [of x y] by auto
    with Cons Cons.IH show ?thesis by simp
  qed
qed

lemma group_value_bound: "group_value bs < 2 ^ length bs"
proof -
  have "foldl (\<lambda>n b. 2 * n + of_bool b) m bs < (m + 1) * 2 ^ length bs" for m :: nat
  proof (induction bs arbitrary: m)
    case (Cons b bs)
    have "foldl (\<lambda>n b. 2 * n + of_bool b) (2 * m + of_bool b) bs < (2 * m + of_bool b + 1) * 2 ^ length bs"
      by (rule Cons)
    also have "\<dots> \<le> (2 * m + 2) * 2 ^ length bs" by (cases b) simp_all
    finally show ?case by (simp add: algebra_simps)
  qed simp
  from this [of 0] show ?thesis by (simp add: group_value_def)
qed

lemma group_value_snoc: "group_value (bs @ [b]) = 2 * group_value bs + of_bool b"
  by (simp add: group_value_def)

lemma low_bits_snoc: "low_bits (Suc n) w = low_bits n (drop_bit 1 w) @ [bit w 0]"
  using low_bits_split [of n 1 w] by (simp add: low_bits_Suc)

lemma group_value_low_bits: "group_value (low_bits n w) = unat (take_bit n w)"
proof (induction n arbitrary: w)
  case 0
  then show ?case by (simp add: group_value_def)
next
  case (Suc n)
  have "unat (take_bit (Suc n) w) = take_bit (Suc n) (unat w)"
    by (simp add: unsigned_take_bit_eq)
  also have "\<dots> = 2 * take_bit n (drop_bit 1 (unat w)) + of_bool (bit (unat w) 0)"
    by (simp add: take_bit_Suc mod_2_eq_odd drop_bit_Suc bit_0)
  also have "take_bit n (drop_bit 1 (unat w)) = unat (take_bit n (drop_bit 1 w))"
    by (simp only: unsigned_take_bit_eq unat_drop_bit_eq)
  finally show ?case
    by (simp add: low_bits_snoc group_value_snoc Suc bit_unsigned_iff)
qed

lemma masked_shift:
  fixes w :: "32 word"
  assumes "k + n \<le> 32"
  shows "unat (signed_drop_bit n w AND mask k) = group_value (low_bits k (drop_bit n w))"
proof -
  have "signed_drop_bit n w AND mask k = take_bit k (drop_bit n w)"
    using assms by (intro bit_word_eqI) (auto simp: bit_simps)
  then show ?thesis by (simp add: group_value_low_bits)
qed

lemma mask_31: "31 = (mask 5 :: 32 word)" and mask_63: "63 = (mask 6 :: 32 word)" and mask_255: "255 = (mask 8 :: 32 word)"
  by (simp_all add: mask_eq_exp_minus_1)

section \<open>Base 32\<close>

definition base32_digit :: "bool list \<Rightarrow> 16 word" where
  "base32_digit g = BASE32_ALPHABET ! group_value g"

definition base32_groups :: "bytes \<Rightarrow> ustring" where
  "base32_groups bytes = map base32_digit (groups 5 (byte_bits bytes))"

lemma base32_drain_groups:
  "base32_drain buffer bits out = (bits', out') \<Longrightarrow> bits \<le> 32 \<Longrightarrow>
   bits' < 5 \<and> (\<exists>gs. out' = out @ map base32_digit gs \<and>
     (\<forall>rest. groups 5 (low_bits bits buffer @ rest) = gs @ groups 5 (low_bits bits' buffer @ rest)))"
proof (induction buffer bits out rule: base32_drain.induct)
  case (1 buffer bits out)
  show ?case
  proof (cases "5 \<le> bits")
    case True
    let ?g = "low_bits 5 (drop_bit (bits - 5) buffer)"
    have d: "BASE32_ALPHABET ! unat (signed_drop_bit (bits - 5) buffer AND 31) = base32_digit ?g"
      using True 1(3) unfolding base32_digit_def mask_31 by (subst masked_shift) simp_all
    have split: "low_bits bits buffer = ?g @ low_bits (bits - 5) buffer"
      using low_bits_split [of 5 "bits - 5" buffer] True by simp
    from 1(2) True have run: "base32_drain buffer (bits - 5) (out @ [base32_digit ?g]) = (bits', out')"
      by (simp add: base32_drain.simps [of buffer bits] d)
    have "bits - 5 \<le> 32" using 1(3) by simp
    from 1(1) [OF True, unfolded d, OF run this] obtain gs where "bits' < 5"
      "out' = (out @ [base32_digit ?g]) @ map base32_digit gs"
      "\<forall>rest. groups 5 (low_bits (bits - 5) buffer @ rest) = gs @ groups 5 (low_bits bits' buffer @ rest)"
      by auto
    then have "bits' < 5 \<and> out' = out @ map base32_digit (?g # gs) \<and>
        (\<forall>rest. groups 5 (low_bits bits buffer @ rest) = (?g # gs) @ groups 5 (low_bits bits' buffer @ rest))"
      by (simp add: split groups_append)
    then show ?thesis by blast
  next
    case False
    with 1(2) show ?thesis by (auto simp: base32_drain.simps [of buffer bits])
  qed
qed

lemma low_bits_push: "n \<le> 24 \<Longrightarrow> low_bits (n + 8) (push_bit 8 buffer OR ucast byte) = low_bits n buffer @ low_bits 8 byte"
  for buffer :: "32 word" and byte :: "8 word"
proof -
  assume "n \<le> 24"
  then have "low_bits n (drop_bit 8 (push_bit 8 buffer OR ucast byte)) = low_bits n buffer"
    by (intro low_bits_cong) (auto simp: bit_simps dest: bit_imp_le_length)
  moreover have "low_bits 8 (push_bit 8 buffer OR ucast byte) = low_bits 8 byte"
    unfolding low_bits_def by (rule map_cong) (auto simp: bit_simps)
  ultimately show ?thesis by (simp add: low_bits_split)
qed

lemma base32_last:
  fixes buffer :: "32 word"
  assumes "0 < bits" and "bits < 5"
  shows "BASE32_ALPHABET ! unat (push_bit (5 - bits) buffer AND 31) = base32_digit (low_bits bits buffer @ replicate (5 - bits) False)"
    (is "_ = base32_digit ?g")
proof -
  have "low_bits 5 (push_bit (5 - bits) buffer) = ?g"
  proof -
    have "low_bits bits (drop_bit (5 - bits) (push_bit (5 - bits) buffer)) = low_bits bits buffer"
      using assms by (intro low_bits_cong) (auto simp: bit_simps)
    moreover have "low_bits (5 - bits) (push_bit (5 - bits) buffer) = replicate (5 - bits) False"
      by (rule nth_equalityI) (auto simp: low_bits_def rev_nth bit_simps)
    ultimately show ?thesis
      using low_bits_split [of bits "5 - bits" "push_bit (5 - bits) buffer"] assms by simp
  qed
  then show ?thesis
    unfolding base32_digit_def mask_31 by (metis group_value_low_bits take_bit_eq_mask)
qed

lemma base32_loop_groups:
  "bits < 5 \<Longrightarrow> base32_loop bytes buffer bits out = out @ map base32_digit (groups 5 (low_bits bits buffer @ byte_bits bytes))"
proof (induction bytes arbitrary: buffer bits out)
  case Nil
  then show ?case by (cases "bits = 0") (auto simp: base32_last groups_short simp flip: length_0_conv)
next
  case (Cons byte bytes)
  let ?buffer = "push_bit 8 buffer OR ucast byte"
  obtain bits' out' where d: "base32_drain ?buffer (bits + 8) out = (bits', out')" by fastforce
  from base32_drain_groups [OF d] Cons.prems obtain gs where b: "bits' < 5" "out' = out @ map base32_digit gs"
      "groups 5 (low_bits (bits + 8) ?buffer @ byte_bits bytes) = gs @ groups 5 (low_bits bits' ?buffer @ byte_bits bytes)"
    by auto
  then show ?case
    using Cons by (simp add: d low_bits_push)
qed

lemma base32_eq: "base32LowerNoPad bytes = base32_groups bytes"
  by (simp add: base32LowerNoPad_def base32_loop_groups base32_groups_def)

lemma length_groups: "0 < k \<Longrightarrow> length (groups k bs) = (length bs + k - 1) div k"
proof (induction k bs rule: groups.induct)
  case (1 k bs)
  show ?case
  proof (cases "length bs < k")
    case True
    have "bs \<noteq> [] \<Longrightarrow> (length bs + k - 1) div k = 1"
      using True by (intro div_nat_eqI) (simp_all flip: length_greater_0_conv)
    with True show ?thesis
      using 1(2) by (cases "bs = []") (simp_all add: groups_short)
  next
    case False
    then have "groups k bs = take k bs # groups k (drop k bs)"
      using 1(2) by (subst groups.simps) auto
    moreover define n where "n = length (drop k bs)"
    moreover have "length (groups k (drop k bs)) = (n + k - 1) div k"
      unfolding n_def using 1 False by (cases "bs = []") simp_all
    moreover have "length bs + k - 1 = (n + k - 1) + k"
      using False 1(2) by (simp add: n_def)
    ultimately show ?thesis
      using 1(2) by (simp only: list.size div_add_self2)
  qed
qed

lemma groups_lengths: "g \<in> set (groups k bs) \<Longrightarrow> length g = k"
proof (induction k bs rule: groups.induct)
  case (1 k bs)
  then show ?case
    by (auto simp: groups.simps [of k bs] split: if_split_asm)
qed

lemma concat_groups: "0 < k \<Longrightarrow> \<exists>m < k. concat (groups k bs) = bs @ replicate m False"
proof (induction k bs rule: groups.induct)
  case (1 k bs)
  consider "bs = []" | "bs \<noteq> []" "length bs < k" | "k \<le> length bs" by linarith
  then show ?case
  proof cases
    case 2
    then show ?thesis by (intro exI [of _ "k - length bs"]) (simp add: groups_short)
  next
    case 3
    then have "groups k bs = take k bs # groups k (drop k bs)"
      using 1(2) by (subst groups.simps) auto
    with 1 3 show ?thesis by (metis append.assoc append_take_drop_id concat.simps(2) gr_implies_not0 leD list.size(3))
  qed (use 1(2) in auto)
qed

lemma groups_inject:
  assumes "0 < k" and "groups k xs = groups k ys" and "length xs = length ys"
  shows "xs = ys"
proof -
  obtain m n where "concat (groups k xs) = xs @ replicate m False" "concat (groups k ys) = ys @ replicate n False"
    using concat_groups [OF assms(1)] by meson
  with assms(2,3) show ?thesis by (metis append_eq_append_conv)
qed

lemma map_inject_on: "inj_on f A \<Longrightarrow> set xs \<subseteq> A \<Longrightarrow> set ys \<subseteq> A \<Longrightarrow> map f xs = map f ys \<longleftrightarrow> xs = ys"
  by (meson inj_on_map_eq_map inj_on_subset sup.boundedI)

lemma group_value_inject: "length g = length h \<Longrightarrow> group_value g = group_value h \<longleftrightarrow> g = h"
proof (induction g arbitrary: h rule: rev_induct)
  case (snoc b g)
  then obtain h' c where h: "h = h' @ [c]" by (cases h rule: rev_cases) auto
  have "2 * m + of_bool b = 2 * n + of_bool c \<longleftrightarrow> m = n \<and> b = c" for m n :: nat
    by (cases b; cases c; simp only: of_bool_eq; presburger)
  with snoc h show ?case by (simp add: group_value_snoc)
qed simp

lemma nth_inject: "distinct xs \<Longrightarrow> i < length xs \<Longrightarrow> j < length xs \<Longrightarrow> xs ! i = xs ! j \<longleftrightarrow> i = j"
  by (simp add: nth_eq_iff_index_eq)

lemma base32_alphabet: "length BASE32_ALPHABET = 32" "distinct BASE32_ALPHABET"
  by (simp_all add: BASE32_ALPHABET_def ustr_def distinct_map inj_on_def unit_of_inject)

lemma base32_digit_inj: "inj_on base32_digit {g. length g = 5}"
proof (rule inj_onI)
  fix g h
  assume gh: "g \<in> {g. length g = 5}" "h \<in> {g. length g = 5}" "base32_digit g = base32_digit h"
  then have "group_value g < 32" "group_value h < 32"
    using group_value_bound [of g] group_value_bound [of h] by simp_all
  with gh have "group_value g = group_value h"
    unfolding base32_digit_def by (simp add: nth_inject base32_alphabet)
  with gh show "g = h" by (simp add: group_value_inject)
qed

lemma base32_inject:
  assumes "length xs = length ys"
  shows "base32LowerNoPad xs = base32LowerNoPad ys \<longleftrightarrow> xs = ys"
proof
  assume "base32LowerNoPad xs = base32LowerNoPad ys"
  moreover have "set (groups 5 (byte_bits bs)) \<subseteq> {g. length g = 5}" for bs
    by (auto dest: groups_lengths)
  ultimately have "groups 5 (byte_bits xs) = groups 5 (byte_bits ys)"
    by (simp add: base32_eq base32_groups_def map_inject_on [OF base32_digit_inj])
  then have "byte_bits xs = byte_bits ys"
    using assms by (intro groups_inject [of 5]) simp_all
  then show "xs = ys" by (simp add: byte_bits_inject)
qed simp

text \<open>The base-32 loop, whose buffer overflows its 32 bits after the fourth byte, writes the
  bits of all the bytes in groups of five: a text of one character per five bits, the last
  group filled with zeros, and different bytes of one length have different texts.\<close>

theorem base32_regroups:
  "base32LowerNoPad bytes = map base32_digit (groups 5 (byte_bits bytes)) \<and>
   length (base32LowerNoPad bytes) = (8 * length bytes + 4) div 5 \<and>
   set (base32LowerNoPad bytes) \<subseteq> set BASE32_ALPHABET \<and>
   inj_on base32LowerNoPad {b. length b = length bytes}"
proof -
  have "base32_digit g \<in> set BASE32_ALPHABET" if "g \<in> set (groups 5 (byte_bits bytes))" for g
    using groups_lengths [OF that] group_value_bound [of g] by (simp add: base32_digit_def base32_alphabet)
  moreover have "inj_on base32LowerNoPad {b. length b = length bytes}"
    by (auto simp: inj_on_def base32_inject)
  ultimately show ?thesis
    by (auto simp: base32_eq [unfolded base32_groups_def] length_groups)
qed

section \<open>Base64url\<close>

definition base64_group :: "bool list \<Rightarrow> 16 word" where
  "base64_group g = BASE64URL_ALPHABET ! group_value g"

lemma base64_alphabet: "length BASE64URL_ALPHABET = 64" "distinct BASE64URL_ALPHABET"
  by (simp_all add: BASE64URL_ALPHABET_def ustr_def distinct_map inj_on_def unit_of_inject)

lemma base64_digit_group: "n \<le> 18 \<Longrightarrow> base64_digit t n = base64_group (low_bits 6 (drop_bit n t))"
  unfolding base64_digit_def base64_group_def mask_63 by (subst masked_shift) simp_all

lemma triplet_bits: "low_bits 24 (base64_triplet a b c) = low_bits 8 a @ low_bits 8 b @ low_bits 8 c"
proof -
  let ?t = "base64_triplet a b c"
  have "low_bits 24 ?t = low_bits 8 (drop_bit 16 ?t) @ low_bits 8 (drop_bit 8 ?t) @ low_bits 8 ?t"
    using low_bits_split [of 8 16 ?t] low_bits_split [of 8 8 ?t] by simp
  moreover have "low_bits 8 (drop_bit 16 ?t) = low_bits 8 a" "low_bits 8 (drop_bit 8 ?t) = low_bits 8 b" "low_bits 8 ?t = low_bits 8 c"
    unfolding base64_triplet_def low_bits_def by (rule map_cong; auto simp: bit_simps dest: bit_imp_le_length)+
  ultimately show ?thesis by simp
qed

lemma triplet_digits:
  "low_bits 24 t = low_bits 6 (drop_bit 18 t) @ low_bits 6 (drop_bit 12 t) @ low_bits 6 (drop_bit 6 t) @ low_bits 6 (drop_bit 0 t)"
  using low_bits_split [of 6 18 t] low_bits_split [of 6 12 t] low_bits_split [of 6 6 t] by simp

lemma zero_bits: "low_bits n 0 = replicate n False"
  by (rule nth_equalityI) (simp_all add: low_bits_def)

lemma four_groups:
  assumes "bs = g1 @ g2 @ g3 @ g4" and "list_all (\<lambda>g. length g = 6) [g1, g2, g3, g4]"
  shows "groups 6 (bs @ rest) = [g1, g2, g3, g4] @ groups 6 rest"
  using assms by (simp add: groups_append)

lemma base64_groups: "base64UrlEncode bytes = map base64_group (groups 6 (byte_bits bytes))"
proof (induction bytes rule: base64UrlEncode.induct)
  case (2 a)
  let ?t = "base64_triplet a 0 0"
  have "low_bits 8 a @ replicate 4 False = low_bits 6 (drop_bit 18 ?t) @ low_bits 6 (drop_bit 12 ?t)"
    using arg_cong [OF triplet_bits [of a 0 0, unfolded triplet_digits zero_bits], of "take 12"] by (simp add: take_replicate)
  then have g: "take 6 (low_bits 8 a) = low_bits 6 (drop_bit 18 ?t)"
      "drop 6 (low_bits 8 a) @ replicate 4 False = low_bits 6 (drop_bit 12 ?t)"
    by (auto dest: arg_cong [of _ _ "take 6"] arg_cong [of _ _ "drop 6"])
  have "groups 6 (low_bits 8 a) = [take 6 (low_bits 8 a), drop 6 (low_bits 8 a) @ replicate 4 False]"
    using groups_append [of 6 "take 6 (low_bits 8 a)" "drop 6 (low_bits 8 a)"] by (simp add: groups_short)
  then show ?case by (simp add: g Let_def base64_digit_group)
next
  case (3 a b)
  let ?t = "base64_triplet a b 0" and ?bs = "low_bits 8 a @ low_bits 8 b"
  have "?bs @ replicate 2 False = low_bits 6 (drop_bit 18 ?t) @ low_bits 6 (drop_bit 12 ?t) @ low_bits 6 (drop_bit 6 ?t)"
    using arg_cong [OF triplet_bits [of a b 0, unfolded triplet_digits zero_bits], of "take 18"] by (simp add: take_replicate)
  then have g: "take 6 ?bs = low_bits 6 (drop_bit 18 ?t)" "take 6 (drop 6 ?bs) = low_bits 6 (drop_bit 12 ?t)"
      "drop 12 ?bs @ replicate 2 False = low_bits 6 (drop_bit 6 ?t)"
    by (auto dest: arg_cong [of _ _ "take 6"] arg_cong [of _ _ "\<lambda>x. take 6 (drop 6 x)"] arg_cong [of _ _ "drop 12"])
  have "length bs = 16 \<Longrightarrow> groups 6 bs = [take 6 bs, take 6 (drop 6 bs), drop 12 bs @ replicate 2 False]" for bs
  proof -
    fix bs :: "bool list"
    assume bs: "length bs = 16"
    then have "bs \<noteq> []" by auto
    with bs show "groups 6 bs = [take 6 bs, take 6 (drop 6 bs), drop 12 bs @ replicate 2 False]"
      by (simp add: groups.simps [of 6 bs] groups.simps [of 6 "drop 6 bs"] groups_short)
  qed
  then have "groups 6 ?bs = [take 6 ?bs, take 6 (drop 6 ?bs), drop 12 ?bs @ replicate 2 False]"
    by (simp del: take_append drop_append)
  then show ?case by (simp add: g Let_def base64_digit_group del: take_append drop_append)
next
  case (4 a b c bytes)
  let ?t = "base64_triplet a b c"
  have "groups 6 (byte_bits (a # b # c # bytes)) = [low_bits 6 (drop_bit 18 ?t), low_bits 6 (drop_bit 12 ?t),
      low_bits 6 (drop_bit 6 ?t), low_bits 6 (drop_bit 0 ?t)] @ groups 6 (byte_bits bytes)"
    using four_groups [OF triplet_digits, of ?t "byte_bits bytes"] by (simp add: triplet_bits)
  with 4 show ?case by (simp add: Let_def base64_digit_group)
qed simp

text \<open>Reading digits back.\<close>

lemma indexOf_nth: "distinct xs \<Longrightarrow> i < length xs \<Longrightarrow> indexOf xs (xs ! i) = Some i"
proof (induction xs arbitrary: i)
  case (Cons x xs)
  then show ?case by (cases i) auto
qed simp

lemma group_bits:
  "length g \<le> LENGTH('a) \<Longrightarrow> low_bits (length g) (of_nat (group_value g) :: 'a::len word) = g"
proof -
  have n: "map (bit (group_value g)) (rev [0..<length g]) = g"
  proof (induction g rule: rev_induct)
    case (snoc b g)
    have "bit (2 * m + of_bool b) (Suc i) = bit m i" "bit (2 * m + of_bool b) 0 = b" for m i :: nat
      by (simp_all add: bit_Suc bit_0)
    moreover have "rev [0..<Suc (length g)] = map Suc (rev [0..<length g]) @ [0]"
      by (simp add: rev_map [symmetric] map_Suc_upt upt_conv_Cons del: upt_Suc)
    ultimately show ?case
      using snoc by (simp add: group_value_snoc comp_def del: upt_Suc)
  qed simp
  assume "length g \<le> LENGTH('a)"
  then have "low_bits (length g) (of_nat (group_value g) :: 'a word) = map (bit (group_value g)) (rev [0..<length g])"
    unfolding low_bits_def by (intro map_cong) (auto simp: bit_simps)
  with n show ?thesis by simp
qed

fun octets :: "bool list \<Rightarrow> bytes" where
  "octets bs = (if length bs < 8 then [] else of_nat (group_value (take 8 bs)) # octets (drop 8 bs))"

declare octets.simps [simp del]

lemma octets_short: "length bs < 8 \<Longrightarrow> octets bs = []"
  by (simp add: octets.simps)

lemma octets_append: "length g = 8 \<Longrightarrow> octets (g @ bs) = of_nat (group_value g) # octets bs"
  by (subst octets.simps) simp

lemma octets_bytes: "length r < 8 \<Longrightarrow> octets (byte_bits bytes @ r) = bytes"
proof (induction bytes)
  case (Cons b bytes)
  have "of_nat (group_value (low_bits 8 b)) = b"
    by (simp add: group_value_low_bits take_bit_word_eq_self)
  with Cons show ?case by (simp add: octets_append)
qed (simp add: octets_short)

lemma base64_loop_octets:
  "\<forall>g \<in> set gs. length g = 6 \<Longrightarrow> bits < 8 \<Longrightarrow>
   base64_loop (map base64_group gs) buffer bits bytes = Inr (bytes @ octets (low_bits bits buffer @ concat gs))"
proof (induction gs arbitrary: buffer bits bytes)
  case Nil
  then show ?case by (simp add: octets_short)
next
  case (Cons g gs)
  let ?buffer = "push_bit 6 buffer OR of_nat (group_value g) :: 32 word"
  have len: "length g = 6" using Cons.prems by simp
  have v: "group_value g < 64" using group_value_bound [of g] len by simp
  have i: "indexOf BASE64URL_ALPHABET (base64_group g) = Some (group_value g)"
    unfolding base64_group_def using v by (intro indexOf_nth) (simp_all add: base64_alphabet)
  have b: "low_bits (bits + 6) ?buffer = low_bits bits buffer @ g"
  proof -
    have "bit (of_nat (group_value g) :: 32 word) (6 + j) = False" for j
    proof -
      have "group_value g < 2 ^ (6 + j)"
        using v by (rule less_le_trans) (simp add: power_add)
      then have "\<not> bit (group_value g) (6 + j)" by (simp add: bit_iff_odd)
      then show ?thesis by (simp add: bit_simps)
    qed
    then have "low_bits bits (drop_bit 6 ?buffer) = low_bits bits buffer"
      using Cons.prems by (intro low_bits_cong) (auto simp: bit_simps)
    moreover have "low_bits 6 ?buffer = low_bits 6 (of_nat (group_value g) :: 32 word)"
      by (intro low_bits_cong) (auto simp: bit_simps)
    ultimately show ?thesis
      using group_bits [where 'a = 32, of g] len by (simp only: low_bits_split) simp
  qed
  show ?case
  proof (cases "8 \<le> bits + 6")
    case True
    let ?h = "low_bits 8 (drop_bit (bits - 2) ?buffer)"
    have "unat (signed_drop_bit (bits - 2) ?buffer AND 0xFF) = group_value ?h"
      unfolding mask_255 by (rule masked_shift) (use Cons.prems in simp)
    then have "ucast (signed_drop_bit (bits - 2) ?buffer AND 0xFF) = (of_nat (group_value ?h) :: 8 word)"
      by (erule_tac subst) simp
    moreover have "low_bits (bits + 6) ?buffer = ?h @ low_bits (bits - 2) ?buffer"
      using low_bits_split [of 8 "bits - 2" ?buffer] True by (simp add: add.commute)
    ultimately have "octets (low_bits bits buffer @ concat (g # gs))
        = ucast (signed_drop_bit (bits - 2) ?buffer AND 0xFF) # octets (low_bits (bits - 2) ?buffer @ concat gs)"
      using b by (metis append_assoc concat.simps(2) length_low_bits octets_append)
    moreover have "bits - 2 < 8" using Cons.prems by simp
    ultimately show ?thesis
      using Cons.IH [of "bits - 2" ?buffer] Cons.prems True i by (simp add: Let_def)
  next
    case False
    then have "octets (low_bits bits buffer @ concat (g # gs)) = octets (low_bits (bits + 6) ?buffer @ concat gs)"
      using b by simp
    with False show ?thesis
      using Cons.IH [of "bits + 6" ?buffer] Cons.prems i by (simp add: Let_def)
  qed
qed

lemma base64_length: "length (base64UrlEncode bytes) mod 4 \<noteq> 1"
  by (induction bytes rule: base64UrlEncode.induct) (simp_all add: Let_def)

lemma base64_decode_encode: "base64UrlDecode (base64UrlEncode bytes) = Inr bytes"
proof -
  obtain m where m: "m < 6" "concat (groups 6 (byte_bits bytes)) = byte_bits bytes @ replicate m False"
    using concat_groups [of 6] by auto
  have "base64_loop (map base64_group (groups 6 (byte_bits bytes))) 0 0 [] = Inr bytes"
    using m by (simp add: base64_loop_octets groups_lengths octets_bytes)
  then show ?thesis
    using base64_length [of bytes] by (simp add: base64UrlDecode_def flip: base64_groups)
qed

lemma encode_alphabet: "set (base64UrlEncode bytes) \<subseteq> set BASE64URL_ALPHABET"
proof -
  have "base64_group g \<in> set BASE64URL_ALPHABET" if "g \<in> set (groups 6 (byte_bits bytes))" for g
    using groups_lengths [OF that] group_value_bound [of g] by (simp add: base64_group_def base64_alphabet)
  then show ?thesis by (auto simp: base64_groups)
qed

text \<open>Decoding base64url is the exact inverse of encoding: every byte string decodes from its
  text, and a text is accepted only if it is the one text of the bytes it decodes to, so a
  signature has one encoding.\<close>

theorem base64url_exact: "base64UrlDecode text = Inr bytes \<longleftrightarrow> text = base64UrlEncode bytes"
proof
  assume "base64UrlDecode text = Inr bytes"
  then show "text = base64UrlEncode bytes"
    by (auto simp: base64UrlDecode_def result_iff split: if_split_asm)
qed (simp add: base64_decode_encode)

end
