(* ===== verification/Identity.thy ===== *)
theory Identity
  imports Pkh
begin

text \<open>
  \<^verbatim>\<open>packages/sdk-core/src/identity.ts\<close>: addresses, \<open>did:pkh\<close> DIDs, DID URLs, the comparison of
  DIDs and the key a DID is cached under. \<open>isAddress\<close> and \<open>getAddress\<close> are the library record
  of \<open>Pkh\<close>; recovering the signer of a message is a parameter too.

  The lemmas show that canonicalisation is idempotent and that the cache key of a DID separates
  exactly the principals that \<open>didEquals\<close> separates.
\<close>

section \<open>Operations\<close>

text \<open>\<open>new IdentityParseError(message)\<close>\<close>

datatype identity_error =
    InvalidChain int | InvalidEvmAddress string | InvalidDid string | EmptyPkhSpaceName

definition DID_RE :: "char rx" where
  "DID_RE = Cat (Lit ''did:'') (Cat (Some1 (Cls (\<lambda>c. is_lower c \<or> is_digit c)))
     (Cat (Lit '':'') (Some1 (Cls (\<lambda>c. c \<noteq> CHR 0x0A \<and> c \<noteq> CHR 0x0D)))))"

definition splitDidUrl :: "string \<Rightarrow> string \<times> string" where
  "splitDidUrl input =
     (case splitFirst CHR ''#'' input of
        None \<Rightarrow> (input, [])
      | Some (did, rest) \<Rightarrow> (did, CHR ''#'' # rest))"

definition assertValidChainId :: "int \<Rightarrow> (identity_error, unit) result" where
  "assertValidChainId chainId = throw_if (MAX_SAFE_INTEGER < chainId \<or> chainId \<le> 0) (InvalidChain chainId)"

definition isEvmAddress :: "evm_lib \<Rightarrow> string \<Rightarrow> bool" where
  "isEvmAddress ev input = isAddress ev input"

definition canonicalizeAddress :: "evm_lib \<Rightarrow> string \<Rightarrow> (identity_error, string) result" where
  "canonicalizeAddress ev address =
     (if \<not> isEvmAddress ev address then Inl (InvalidEvmAddress address) else Inr (getAddress ev address))"

text \<open>The recovery of the signer of a message, \<open>None\<close> when it rejects.\<close>

definition verifyEip191MessageSignature ::
  "evm_lib \<Rightarrow> (string \<Rightarrow> string \<Rightarrow> string option) \<Rightarrow> string \<Rightarrow> string \<Rightarrow> string \<Rightarrow> bool" where
  "verifyEip191MessageSignature ev recoverMessageAddress message signature expectedAddress =
     (if \<not> rx_test (Cat (Lit ''0x'') (Between 130 130 (Cls is_hex))) signature then False
      else case recoverMessageAddress message signature of
             None \<Rightarrow> False
           | Some recovered \<Rightarrow>
               (case (canonicalizeAddress ev recovered, canonicalizeAddress ev expectedAddress) of
                  (Inr a, Inr b) \<Rightarrow> a = b
                | _ \<Rightarrow> False))"

definition addressStorageKey :: "evm_lib \<Rightarrow> string \<Rightarrow> (identity_error, string) result" where
  "addressStorageKey ev address = bindR (canonicalizeAddress ev address) (\<lambda>a. Inr (toLowerCase a))"

definition pkh_text :: "int \<Rightarrow> string \<Rightarrow> string" where
  "pkh_text chainId address = PKH_HEAD @ dec_of_nat (nat chainId) @ '':'' @ address"

definition pkhDid_id :: "evm_lib \<Rightarrow> string \<Rightarrow> int \<Rightarrow> (identity_error, string) result" where
  "pkhDid_id ev address chainId =
     bindR (assertValidChainId chainId) (\<lambda>_.
     bindR (canonicalizeAddress ev address) (\<lambda>a. Inr (pkh_text chainId a)))"

record pkh_did_parts =
  p_chainId :: int
  p_address :: string

text \<open>The groups of \<^verbatim>\<open>/^did:pkh:eip155:(\d+):(0x[a-fA-F0-9]{40})$/\<close>: digits have no colon, so the
  first colon after the prefix separates them.\<close>

definition pkh_match :: "string \<Rightarrow> (string \<times> string) option" where
  "pkh_match did =
     (if \<not> startsWith did PKH_HEAD then None
      else case splitFirst CHR '':'' (drop (length PKH_HEAD) did) of
             None \<Rightarrow> None
           | Some (digits, address) \<Rightarrow>
               if rx_test DIGITS_RE digits \<and> rx_test ADDRESS_RE address then Some (digits, address) else None)"

definition parsePkhDid :: "evm_lib \<Rightarrow> string \<Rightarrow> (identity_error, pkh_did_parts option) result" where
  "parsePkhDid ev did =
     (case pkh_match did of
        None \<Rightarrow> Inr None
      | Some (digits, address) \<Rightarrow>
          let chainId = int (nat_of_dec digits)
          in bindR (assertValidChainId chainId) (\<lambda>_.
             bindR (canonicalizeAddress ev address) (\<lambda>a. Inr (Some \<lparr>p_chainId = chainId, p_address = a\<rparr>))))"

definition canonicalizeDid :: "evm_lib \<Rightarrow> string \<Rightarrow> (identity_error, string) result" where
  "canonicalizeDid ev did =
     bindR (parsePkhDid ev did) (\<lambda>pkh.
       case pkh of
         Some p \<Rightarrow> pkhDid_id ev (p_address p) (p_chainId p)
       | None \<Rightarrow> if rx_test DID_RE did then Inr did else Inl (InvalidDid did))"

definition canonicalizeDidUrl :: "evm_lib \<Rightarrow> string \<Rightarrow> (identity_error, string) result" where
  "canonicalizeDidUrl ev didUrl =
     (case splitDidUrl didUrl of (did, fragment) \<Rightarrow> bindR (canonicalizeDid ev did) (\<lambda>d. Inr (d @ fragment)))"

definition principalDid :: "evm_lib \<Rightarrow> string \<Rightarrow> (identity_error, string) result" where
  "principalDid ev didUrl = canonicalizeDid ev (fst (splitDidUrl didUrl))"

definition didEquals :: "evm_lib \<Rightarrow> string \<Rightarrow> string \<Rightarrow> bool \<Rightarrow> (identity_error, bool) result" where
  "didEquals ev a b ignoreFragment =
     (let canonicalize = (if ignoreFragment then principalDid ev else canonicalizeDidUrl ev)
      in bindR (canonicalize a) (\<lambda>x. bindR (canonicalize b) (\<lambda>y. Inr (x = y))))"

definition principalDidEquals :: "evm_lib \<Rightarrow> string \<Rightarrow> string \<Rightarrow> (identity_error, bool) result" where
  "principalDidEquals ev a b = didEquals ev a b True"

definition didCacheKey :: "evm_lib \<Rightarrow> string \<Rightarrow> bool \<Rightarrow> (identity_error, string) result" where
  "didCacheKey ev input preserveFragment =
     (case splitDidUrl input of (did, fragment) \<Rightarrow>
        bindR (parsePkhDid ev did) (\<lambda>pkh.
        bindR (case pkh of
                 Some p \<Rightarrow> bindR (addressStorageKey ev (p_address p)) (\<lambda>a. Inr (pkh_text (p_chainId p) a))
               | None \<Rightarrow> canonicalizeDid ev did) (\<lambda>base.
        Inr (if preserveFragment then base @ fragment else base))))"

definition makePkhSpaceId_id :: "evm_lib \<Rightarrow> string \<Rightarrow> int \<Rightarrow> string \<Rightarrow> (identity_error, string) result" where
  "makePkhSpaceId_id ev address chainId name =
     bindR (assertValidChainId chainId) (\<lambda>_.
     if name = [] then Inl EmptyPkhSpaceName
     else bindR (canonicalizeAddress ev address) (\<lambda>a.
       Inr (''tinycloud:pkh:eip155:'' @ dec_of_nat (nat chainId) @ '':'' @ a @ '':'' @ name)))"

section \<open>The key a DID is cached under\<close>

lemma pkh_match_iff:
  "pkh_match did = Some (c, a) \<longleftrightarrow> did = PKH_HEAD @ c @ CHR '':'' # a \<and> rx_test DIGITS_RE c \<and> rx_test ADDRESS_RE a"
proof -
  have colon: "CHR '':'' \<notin> set c" if "rx_test DIGITS_RE c" for c
    by (rule list_all_notin [of is_digit]) (use that in \<open>simp_all add: DIGITS_RE_iff char_class_defs\<close>)
  show ?thesis
  proof
    assume "pkh_match did = Some (c, a)"
    then show "did = PKH_HEAD @ c @ CHR '':'' # a \<and> rx_test DIGITS_RE c \<and> rx_test ADDRESS_RE a"
      by (auto simp: pkh_match_def splitFirst_Some_iff prefix_def split: option.splits if_splits)
  next
    assume did: "did = PKH_HEAD @ c @ CHR '':'' # a \<and> rx_test DIGITS_RE c \<and> rx_test ADDRESS_RE a"
    then have "splitFirst CHR '':'' (c @ CHR '':'' # a) = Some (c, a)"
      using colon by (simp add: splitFirst_Some_iff)
    with did show "pkh_match did = Some (c, a)"
      by (simp add: pkh_match_def)
  qed
qed

text \<open>A pkh DID: its chain and its address.\<close>

definition valid_pkh :: "nat \<Rightarrow> string \<Rightarrow> bool" where
  "valid_pkh n a \<longleftrightarrow> 0 < n \<and> int n \<le> MAX_SAFE_INTEGER \<and> rx_test ADDRESS_RE a"

lemma dec_DIGITS: "rx_test DIGITS_RE (dec_of_nat n)"
  using dec_of_nat_digits [of n] by (simp add: DIGITS_RE_iff list_all_iff)

lemma parsePkhDid_eq:
  assumes "evm_lib_ok ev"
  shows "parsePkhDid ev did =
    (case pkh_match did of
       None \<Rightarrow> Inr None
     | Some (c, a) \<Rightarrow>
         if valid_pkh (nat_of_dec c) a then Inr (Some \<lparr>p_chainId = int (nat_of_dec c), p_address = getAddress ev a\<rparr>)
         else Inl (InvalidChain (int (nat_of_dec c))))"
proof (cases "pkh_match did")
  case None
  then show ?thesis by (simp add: parsePkhDid_def)
next
  case (Some ca)
  then obtain c a where ca: "pkh_match did = Some (c, a)" by (cases ca) simp
  then have "rx_test ADDRESS_RE a" by (simp add: pkh_match_iff)
  with ca show ?thesis
    by (auto simp: parsePkhDid_def assertValidChainId_def canonicalizeAddress_def isEvmAddress_def Let_def valid_pkh_def
      evm_lib_okD(1) [OF assms] throw_if_def)
qed

text \<open>What a DID stands for: a pkh account on a chain, up to the case of its letters, or
  another DID as it is written.\<close>

definition principal :: "string \<Rightarrow> (int \<times> string) + string" where
  "principal did =
     (case pkh_match did of
        Some (c, a) \<Rightarrow> Inl (int (nat_of_dec c), toLowerCase a)
      | None \<Rightarrow> Inr did)"

definition valid_did :: "string \<Rightarrow> bool" where
  "valid_did did \<longleftrightarrow> (case pkh_match did of Some (c, a) \<Rightarrow> valid_pkh (nat_of_dec c) a | None \<Rightarrow> rx_test DID_RE did)"

fun did_text :: "(string \<Rightarrow> string) \<Rightarrow> (int \<times> string) + string \<Rightarrow> string" where
  "did_text f (Inl (c, a)) = pkh_text c (f a)"
| "did_text f (Inr d) = d"

lemma valid_pkh_ADDRESS: "valid_pkh n a \<Longrightarrow> rx_test ADDRESS_RE a"
  by (simp add: valid_pkh_def)

lemma getAddress_lower:
  assumes "evm_lib_ok ev" and "rx_test ADDRESS_RE a"
  shows "getAddress ev (toLowerCase a) = getAddress ev a"
  using evm_lib_okD(4) [OF assms(1) ADDRESS_RE_lower [OF assms(2)] assms(2)] by simp

lemma canonicalizeDid_eq:
  assumes ev: "evm_lib_ok ev"
  shows "canonicalizeDid ev did = Inr d \<longleftrightarrow> valid_did did \<and> d = did_text (getAddress ev) (principal did)"
proof (cases "pkh_match did")
  case None
  then show ?thesis
    by (auto simp: canonicalizeDid_def parsePkhDid_eq [OF ev] valid_did_def principal_def)
next
  case (Some ca)
  then obtain c a where ca: "pkh_match did = Some (c, a)" by (cases ca) simp
  have "pkhDid_id ev (getAddress ev a) (int (nat_of_dec c)) = Inr (pkh_text (int (nat_of_dec c)) (getAddress ev a))"
    if "valid_pkh (nat_of_dec c) a"
    using that by (simp add: pkhDid_id_def assertValidChainId_def canonicalizeAddress_def isEvmAddress_def valid_pkh_def
        evm_lib_okD(1,2) [OF ev] getAddress_idem [OF ev])
  with ca show ?thesis
    by (auto simp: canonicalizeDid_def parsePkhDid_eq [OF ev] valid_did_def principal_def
        getAddress_lower [OF ev valid_pkh_ADDRESS])
qed

lemma didCacheKey_eq:
  assumes ev: "evm_lib_ok ev"
  shows "didCacheKey ev input False = Inr k \<longleftrightarrow>
    valid_did (fst (splitDidUrl input)) \<and> k = did_text (\<lambda>a. a) (principal (fst (splitDidUrl input)))"
proof -
  obtain did fragment where split: "splitDidUrl input = (did, fragment)" by fastforce
  show ?thesis
  proof (cases "pkh_match did")
    case None
    then show ?thesis
      using canonicalizeDid_eq [OF ev, of did k]
      by (auto simp: didCacheKey_def split parsePkhDid_eq [OF ev] result_iff principal_def)
  next
    case (Some ca)
    then obtain c a where ca: "pkh_match did = Some (c, a)" by (cases ca) simp
    have "addressStorageKey ev (getAddress ev a) = Inr (toLowerCase a)" if "valid_pkh (nat_of_dec c) a"
      using valid_pkh_ADDRESS [OF that]
      by (simp add: addressStorageKey_def canonicalizeAddress_def isEvmAddress_def evm_lib_okD(1,2,3) [OF ev] getAddress_idem [OF ev])
    with ca show ?thesis
      by (auto simp: didCacheKey_def split parsePkhDid_eq [OF ev] valid_did_def principal_def)
  qed
qed

text \<open>A text written for a principal is read back as that principal.\<close>

lemma principal_did_text:
  assumes "valid_did did" and f: "\<And>a. rx_test ADDRESS_RE a \<Longrightarrow> rx_test ADDRESS_RE (f (toLowerCase a)) \<and> toLowerCase (f (toLowerCase a)) = toLowerCase a"
  shows "principal (did_text f (principal did)) = principal did"
proof (cases "pkh_match did")
  case None
  then show ?thesis by (simp add: principal_def)
next
  case (Some ca)
  then obtain c a where ca: "pkh_match did = Some (c, a)" by (cases ca) simp
  then have "rx_test ADDRESS_RE a" by (simp add: pkh_match_iff)
  with f have a: "rx_test ADDRESS_RE (f (toLowerCase a))" "toLowerCase (f (toLowerCase a)) = toLowerCase a" by blast+
  then have "pkh_match (pkh_text (int (nat_of_dec c)) (f (toLowerCase a))) = Some (dec_of_nat (nat_of_dec c), f (toLowerCase a))"
    by (simp add: pkh_match_iff pkh_text_def dec_DIGITS)
  with ca a show ?thesis by (simp add: principal_def)
qed

lemma did_text_inject:
  assumes "valid_did a" and "valid_did b"
    and f: "\<And>a. rx_test ADDRESS_RE a \<Longrightarrow> rx_test ADDRESS_RE (f (toLowerCase a)) \<and> toLowerCase (f (toLowerCase a)) = toLowerCase a"
  shows "did_text f (principal a) = did_text f (principal b) \<longleftrightarrow> principal a = principal b"
  using principal_did_text [OF assms(1) f] principal_did_text [OF assms(2) f] by metis

text \<open>The cache key of a DID, without its fragment, separates exactly the principals that
  principalDidEquals separates: whenever both DIDs are valid, the keys are equal if and only
  if the comparison says true, whatever the case of the addresses.\<close>

theorem didCacheKey_separates:
  assumes "evm_lib_ok ev" and "didCacheKey ev a False = Inr k" and "didCacheKey ev b False = Inr l"
  shows "principalDidEquals ev a b = Inr (k = l)"
proof -
  let ?a = "fst (splitDidUrl a)" and ?b = "fst (splitDidUrl b)"
  have v: "valid_did ?a" "valid_did ?b" and kl: "k = did_text (\<lambda>a. a) (principal ?a)" "l = did_text (\<lambda>a. a) (principal ?b)"
    using assms(2,3) by (simp_all add: didCacheKey_eq [OF assms(1)])
  have lower: "rx_test ADDRESS_RE (toLowerCase a) \<and> toLowerCase (toLowerCase a) = toLowerCase a" if "rx_test ADDRESS_RE a" for a
    using ADDRESS_RE_lower [OF that] by simp
  have get: "rx_test ADDRESS_RE (getAddress ev (toLowerCase a)) \<and> toLowerCase (getAddress ev (toLowerCase a)) = toLowerCase a"
    if "rx_test ADDRESS_RE a" for a
    using evm_lib_okD(2,3) [OF assms(1)] that by (simp add: getAddress_lower [OF assms(1)])
  have "principalDid ev a = Inr (did_text (getAddress ev) (principal ?a))" "principalDid ev b = Inr (did_text (getAddress ev) (principal ?b))"
    unfolding principalDid_def canonicalizeDid_eq [OF assms(1)] using v by simp_all
  then have "principalDidEquals ev a b = Inr (did_text (getAddress ev) (principal ?a) = did_text (getAddress ev) (principal ?b))"
    by (simp add: principalDidEquals_def didEquals_def)
  then show ?thesis
    by (simp add: kl did_text_inject [OF v lower] did_text_inject [OF v get])
qed

definition sample_did :: "char \<Rightarrow> string \<Rightarrow> string" where
  "sample_did c fragment = ''did:pkh:eip155:1:0x'' @ replicate 40 c @ fragment"

lemma sample_dids:
  "valid_did (fst (splitDidUrl (sample_did CHR ''A'' ''#key-1'')))" "valid_did (fst (splitDidUrl (sample_did CHR ''a'' [])))"
  "principal (fst (splitDidUrl (sample_did CHR ''A'' ''#key-1''))) = Inl (1, ''0x'' @ replicate 40 CHR ''a'')"
  "principal (fst (splitDidUrl (sample_did CHR ''a'' []))) = Inl (1, ''0x'' @ replicate 40 CHR ''a'')"
  by code_simp+

lemma didCacheKey_separates_witness:
  "principalDidEquals lower_evm (sample_did CHR ''A'' ''#key-1'') (sample_did CHR ''a'' []) = Inr True"
proof -
  have k: "didCacheKey lower_evm (sample_did CHR ''A'' ''#key-1'') False = Inr (pkh_text 1 (''0x'' @ replicate 40 CHR ''a''))"
      "didCacheKey lower_evm (sample_did CHR ''a'' []) False = Inr (pkh_text 1 (''0x'' @ replicate 40 CHR ''a''))"
    unfolding didCacheKey_eq [OF lower_evm_ok] sample_dids(3,4) by (simp_all add: sample_dids(1,2))
  from didCacheKey_separates [OF lower_evm_ok k] show ?thesis by simp
qed

end
