(* ===== verification/SignedObject.thy ===== *)
theory SignedObject
  imports PolicyCapability Encodings Identity
begin

text \<open>
  \<^verbatim>\<open>packages/sdk-core/src/policy/signed-object.ts\<close> and its errors: policies, policy status
  objects and policy-engine records. Each is validated key by key, its identifier is the
  base-32 text of a SHA-256 digest over a domain, a zero byte and the canonical JSON of the
  object without its own identifier and signature, and the signature is one of two suites.

  What the code imports is a record of functions (\<open>signing_lib\<close>): SHA-256 and the hexadecimal
  text of bytes (viem), Ed25519 verification (noble), base58 (multiformats), message
  recovery and addresses (viem), Unicode normalisation, and the ISO form of a parsed date, which
  ECMA-262 leaves partly to the engine. A failed call is \<open>None\<close>.

  The lemmas show that a signed object verifies, what verification guarantees, that the
  identifier determines the content, and which \<open>when\<close> expressions are accepted.
\<close>

section \<open>Errors and data\<close>

datatype signed_object_error_code =
    SchemaInvalid | CanonicalizationMismatch | DigestMismatch | IdMismatch | SigningKeyBinding
  | SignatureMaterialInvalid | SignatureSuiteUnsupported | SignatureInvalid

text \<open>\<open>OtherError\<close> is an error of another class than \<open>SignedObjectProfileError\<close>.\<close>

datatype thrown = SignedObjectProfileError signed_object_error_code ustring | OtherError ustring

definition toSignedObjectError :: "thrown \<Rightarrow> thrown" where
  "toSignedObjectError e =
     (case e of
        SignedObjectProfileError _ _ \<Rightarrow> e
      | OtherError message \<Rightarrow> SignedObjectProfileError SchemaInvalid message)"

definition schema_error :: "ustring \<Rightarrow> string \<Rightarrow> thrown" where
  "schema_error path msg = SignedObjectProfileError SchemaInvalid (path @ ustr msg)"

definition material_error :: "string \<Rightarrow> thrown" where
  "material_error msg = SignedObjectProfileError SignatureMaterialInvalid (ustr msg)"

record signing_lib =
  lib_nfc :: "ustring \<Rightarrow> ustring"
  lib_sha256 :: "bytes \<Rightarrow> bytes"
  lib_bytesToHex :: "bytes \<Rightarrow> ustring"
  lib_isoString :: "ustring \<Rightarrow> ustring option"
  lib_base58 :: "ustring \<Rightarrow> bytes option"
  lib_ed25519_verify :: "bytes \<Rightarrow> bytes \<Rightarrow> bytes \<Rightarrow> bool option"
  lib_verifyMessage :: "string \<Rightarrow> bytes \<Rightarrow> ustring \<Rightarrow> bool option"
  lib_evm :: evm_lib

definition POLICY_SCHEMA :: ustring where "POLICY_SCHEMA = ustr ''xyz.tinycloud.policy/policy/v0''"
definition POLICY_STATUS_SCHEMA :: ustring where "POLICY_STATUS_SCHEMA = ustr ''xyz.tinycloud.policy/status/v0''"
definition POLICY_ENGINE_RECORD_SCHEMA :: ustring where
  "POLICY_ENGINE_RECORD_SCHEMA = ustr ''xyz.tinycloud.policy/engine-record/v0''"
definition ED25519_JCS_SIGNATURE_SUITE :: ustring where "ED25519_JCS_SIGNATURE_SUITE = ustr ''eddsa-ed25519-sha256-jcs-v1''"
definition EIP191_JCS_SIGNATURE_SUITE :: ustring where "EIP191_JCS_SIGNATURE_SUITE = ustr ''eip191-secp256k1-sha256-jcs-v1''"

datatype object_kind = Policy | PolicyStatus | PolicyEngineRecord

record signature =
  sig_suite :: ustring
  sig_signerDid :: ustring
  sig_value :: ustring

record object_descriptor =
  d_kind :: object_kind
  d_schema :: ustring
  d_idField :: string
  d_idPrefix :: ustring
  d_domain :: ustring

fun DESCRIPTORS :: "object_kind \<Rightarrow> object_descriptor" where
  "DESCRIPTORS Policy = \<lparr>d_kind = Policy, d_schema = POLICY_SCHEMA, d_idField = ''policyId'', d_idPrefix = ustr ''pol_'', d_domain = POLICY_SCHEMA\<rparr>"
| "DESCRIPTORS PolicyStatus = \<lparr>d_kind = PolicyStatus, d_schema = POLICY_STATUS_SCHEMA, d_idField = ''statusId'', d_idPrefix = ustr ''polst_'', d_domain = POLICY_STATUS_SCHEMA\<rparr>"
| "DESCRIPTORS PolicyEngineRecord = \<lparr>d_kind = PolicyEngineRecord, d_schema = POLICY_ENGINE_RECORD_SCHEMA, d_idField = ''engineRecordId'', d_idPrefix = ustr ''peng_'', d_domain = POLICY_ENGINE_RECORD_SCHEMA\<rparr>"

record material =
  m_kind :: object_kind
  m_idField :: string
  m_id :: ustring
  m_domain :: ustring
  m_unsigned :: json_object
  m_jcs :: ustring
  m_jcsBytes :: bytes
  m_digest :: bytes
  m_digestHex :: ustring

text \<open>What a signer returns for a digest: bytes or text; \<open>None\<close> when it fails.\<close>

datatype signer_value = SignedBytes bytes | SignedText ustring

record signer =
  s_suite :: ustring
  s_signerDid :: ustring
  s_signDigest :: "bytes \<Rightarrow> signer_value option"

section \<open>Reading members\<close>

text \<open>\<open>normalizeJson(input)\<close>, with its error in this file's terms.\<close>

definition normalized :: "raw \<Rightarrow> (thrown, json) result" where
  "normalized input =
     (case normalizeJson input dollar of
        Inl (SignedObjectCanonicalizationError msg) \<Rightarrow> Inl (SignedObjectProfileError CanonicalizationMismatch msg)
      | Inr v \<Rightarrow> Inr v)"

definition canonicalizeSignedObjectUnsigned :: "raw \<Rightarrow> (thrown, ustring) result" where
  "canonicalizeSignedObjectUnsigned input =
     (case jcsCanonicalize input of
        Inl (SignedObjectCanonicalizationError msg) \<Rightarrow> Inl (SignedObjectProfileError CanonicalizationMismatch msg)
      | Inr t \<Rightarrow> Inr t)"

definition eachR :: "(nat \<Rightarrow> 'a \<Rightarrow> 'e + unit) \<Rightarrow> 'a list \<Rightarrow> 'e + unit" where
  "eachR f xs = bindR (mapR (\<lambda>(i, x). f i x) (zip [0..<length xs] xs)) (\<lambda>_. Inr ())"

definition item_path :: "ustring \<Rightarrow> nat \<Rightarrow> ustring" where
  "item_path path i = path @ ustr ''['' @ index_key i @ ustr '']''"

definition member_path :: "ustring \<Rightarrow> string \<Rightarrow> ustring" where
  "member_path path key = path @ ustr (''.'' @ key)"

definition expectJsonObject :: "json \<Rightarrow> ustring \<Rightarrow> (thrown, json_object) result" where
  "expectJsonObject input path =
     (case input of ObjJ fs \<Rightarrow> Inr fs | _ \<Rightarrow> Inl (schema_error path '' must be an object''))"

definition assertExactKeys :: "json_object \<Rightarrow> string list \<Rightarrow> ustring \<Rightarrow> (thrown, unit) result" where
  "assertExactKeys obj allowed path =
     bindR (mapR (\<lambda>(key, _). throw_if (key \<notin> ustr ` set allowed)
       (SignedObjectProfileError SchemaInvalid (path @ ustr '' has unknown field '' @ key))) obj) (\<lambda>_. Inr ())"

definition requiredValue :: "json_object \<Rightarrow> string \<Rightarrow> ustring \<Rightarrow> (thrown, json) result" where
  "requiredValue obj key path =
     (case map_of obj (ustr key) of
        None \<Rightarrow> Inl (schema_error (member_path path key) '' is required'')
      | Some v \<Rightarrow> Inr v)"

definition requireStringType :: "json \<Rightarrow> ustring \<Rightarrow> (thrown, ustring) result" where
  "requireStringType val path =
     (case val of
        StrJ s \<Rightarrow> if s = [] then Inl (schema_error path '' must be a non-empty string'') else Inr s
      | _ \<Rightarrow> Inl (schema_error path '' must be a non-empty string''))"

definition requiredString :: "json_object \<Rightarrow> string \<Rightarrow> ustring \<Rightarrow> (thrown, ustring) result" where
  "requiredString obj key path =
     bindR (requiredValue obj key path) (\<lambda>v. requireStringType v (member_path path key))"

definition optionalString :: "json_object \<Rightarrow> string \<Rightarrow> ustring \<Rightarrow> (thrown, unit) result" where
  "optionalString obj key path =
     (if \<not> hasOwn obj (ustr key) then Inr ()
      else bindR (requiredValue obj key path) (\<lambda>v. bindR (requireStringType v (member_path path key)) (\<lambda>_. Inr ())))"

definition optionalBoolean :: "json_object \<Rightarrow> string \<Rightarrow> ustring \<Rightarrow> (thrown, unit) result" where
  "optionalBoolean obj key path =
     (if \<not> hasOwn obj (ustr key) then Inr ()
      else bindR (requiredValue obj key path) (\<lambda>v.
             case v of BoolJ _ \<Rightarrow> Inr () | _ \<Rightarrow> Inl (schema_error (member_path path key) '' must be a boolean'')))"

definition requiredInteger :: "json_object \<Rightarrow> string \<Rightarrow> ustring \<Rightarrow> nat \<Rightarrow> (thrown, int) result" where
  "requiredInteger obj key path minimum =
     bindR (requiredValue obj key path) (\<lambda>v.
       let bad = Inl (schema_error (member_path path key) ('' must be an integer >= '' @ dec_of_nat minimum))
       in case v of
            NumJ n \<Rightarrow> (case safe_integer n of
                         None \<Rightarrow> bad
                       | Some i \<Rightarrow> if i < int minimum then bad else Inr i)
          | _ \<Rightarrow> bad)"

definition requiredArray :: "json_object \<Rightarrow> string \<Rightarrow> ustring \<Rightarrow> nat \<Rightarrow> (thrown, json list) result" where
  "requiredArray obj key path minimum =
     bindR (requiredValue obj key path) (\<lambda>v.
       let bad = Inl (schema_error (member_path path key) ('' must be an array with at least '' @ dec_of_nat minimum @ '' item(s)''))
       in case v of ArrJ xs \<Rightarrow> if length xs < minimum then bad else Inr xs | _ \<Rightarrow> bad)"

definition requiredStringArray ::
  "json_object \<Rightarrow> string \<Rightarrow> ustring \<Rightarrow> (ustring \<Rightarrow> ustring \<Rightarrow> (thrown, unit) result) \<Rightarrow> (thrown, unit) result" where
  "requiredStringArray obj key path check =
     bindR (requiredArray obj key path 0) (\<lambda>vals.
       eachR (\<lambda>i v. let itemPath = item_path (member_path path key) i
                     in bindR (requireStringType v itemPath) (\<lambda>s. check s itemPath)) vals)"

definition expectConst :: "ustring \<Rightarrow> ustring \<Rightarrow> ustring \<Rightarrow> (thrown, unit) result" where
  "expectConst actual expected path =
     throw_if (actual \<noteq> expected) (SignedObjectProfileError SchemaInvalid (path @ ustr '' must be '' @ expected))"

definition expectOneOf :: "ustring \<Rightarrow> string list \<Rightarrow> ustring \<Rightarrow> (thrown, unit) result" where
  "expectOneOf actual allowed path =
     throw_if (actual \<notin> ustr ` set allowed) (SignedObjectProfileError SchemaInvalid (path @ ustr '' has unsupported value '' @ actual))"

section \<open>Dates\<close>

text \<open>The pattern \<^verbatim>\<open>/^(\d{4})-(\d{2})-(\d{2})T(\d{2}):(\d{2}):(\d{2})(\.\d+)?(Z|[+-]\d{2}:\d{2})$/\<close>.\<close>

definition digits_rx :: "nat \<Rightarrow> 16 word rx" where
  "digits_rx n = Between n n (Cls unit_digit)"

definition RFC3339_RE :: "16 word rx" where
  "RFC3339_RE =
     Cat (digits_rx 4) (Cat (Lit (ustr ''-'')) (Cat (digits_rx 2) (Cat (Lit (ustr ''-'')) (Cat (digits_rx 2)
     (Cat (Lit (ustr ''T'')) (Cat (digits_rx 2) (Cat (Lit (ustr '':'')) (Cat (digits_rx 2) (Cat (Lit (ustr '':'')) (Cat (digits_rx 2)
     (Cat (Maybe (Cat (Lit (ustr ''.'')) (Some1 (Cls unit_digit))))
       (Or (Lit (ustr ''Z'')) (Cat (Cls (\<lambda>u. u = 0x2B \<or> u = 0x2D)) (Cat (digits_rx 2) (Cat (Lit (ustr '':'')) (digits_rx 2))))))))))))))))"

text \<open>\<open>s.replace(".000Z", "Z")\<close>: the first occurrence.\<close>

fun replace_first :: "ustring \<Rightarrow> ustring \<Rightarrow> ustring \<Rightarrow> ustring" where
  "replace_first old new [] = []"
| "replace_first old new (u # us) =
     (if prefix old (u # us) then new @ drop (length old) (u # us) else u # replace_first old new us)"

definition assertRfc3339 :: "signing_lib \<Rightarrow> ustring \<Rightarrow> ustring \<Rightarrow> (thrown, unit) result" where
  "assertRfc3339 lib val path =
     (if \<not> rx_test RFC3339_RE val then Inl (schema_error path '' must be strict RFC 3339'')
      else case lib_isoString lib val of
             None \<Rightarrow> Inl (schema_error path '' must be a parseable RFC 3339 timestamp'')
           | Some canonical \<Rightarrow>
               if replace_first (ustr ''.000Z'') (ustr ''Z'') canonical \<noteq> val
               then Inl (schema_error path '' must be a normalizable RFC 3339 timestamp'')
               else Inr ())"

definition requiredDateString :: "signing_lib \<Rightarrow> json_object \<Rightarrow> string \<Rightarrow> ustring \<Rightarrow> (thrown, unit) result" where
  "requiredDateString lib obj key path =
     bindR (requiredString obj key path) (\<lambda>s. assertRfc3339 lib s (member_path path key))"

definition optionalDateString :: "signing_lib \<Rightarrow> json_object \<Rightarrow> string \<Rightarrow> ustring \<Rightarrow> (thrown, unit) result" where
  "optionalDateString lib obj key path =
     (if \<not> hasOwn obj (ustr key) then Inr ()
      else bindR (requiredString obj key path) (\<lambda>s. assertRfc3339 lib s (member_path path key)))"

section \<open>Signature values and keys\<close>

definition assertSupportedSignatureSuite :: "ustring \<Rightarrow> (thrown, unit) result" where
  "assertSupportedSignatureSuite suite =
     throw_if (suite \<noteq> ED25519_JCS_SIGNATURE_SUITE \<and> suite \<noteq> EIP191_JCS_SIGNATURE_SUITE)
       (SignedObjectProfileError SignatureSuiteUnsupported (ustr ''unsupported signature suite: '' @ suite))"

definition BASE64URL_RE :: "16 word rx" where
  "BASE64URL_RE = Some1 (Cls (\<lambda>u. u \<in> set BASE64URL_ALPHABET))"

definition decode_base64 :: "ustring \<Rightarrow> (thrown, bytes) result" where
  "decode_base64 val =
     (case base64UrlDecode val of
        Inl NotCanonicalBase64url \<Rightarrow> Inl (material_error ''signature value is not canonical base64url'')
      | Inl NotBase64url \<Rightarrow> Inl (material_error ''signature value is not base64url'')
      | Inr bytes \<Rightarrow> Inr bytes)"

definition decodeSignatureValue :: "ustring \<Rightarrow> ustring \<Rightarrow> (thrown, bytes) result" where
  "decodeSignatureValue val suite =
     (if val = [] \<or> \<not> rx_test BASE64URL_RE val \<or> hasChar val 0x3D
      then Inl (material_error ''signature value must be base64url without padding'')
      else bindR (decode_base64 val) (\<lambda>bytes.
        if suite = ED25519_JCS_SIGNATURE_SUITE \<and> length bytes \<noteq> 64
        then Inl (material_error ''Ed25519 signature must be 64 bytes'')
        else if suite = EIP191_JCS_SIGNATURE_SUITE \<and> length bytes \<noteq> 65
        then Inl (material_error ''EIP-191 signature must be 65 bytes'')
        else if suite = EIP191_JCS_SIGNATURE_SUITE \<and> bytes ! 64 \<noteq> 27 \<and> bytes ! 64 \<noteq> 28
        then Inl (material_error ''EIP-191 signature recovery id must be 27 or 28'')
        else Inr bytes))"

definition hexToBytes :: "ustring \<Rightarrow> (thrown, bytes) result" where
  "hexToBytes val =
     (let hex = drop 2 val
      in if length hex mod 2 \<noteq> 0 \<or> \<not> list_all hex_unit hex
         then Inl (material_error ''hex signature must have even length'')
         else Inr (map (\<lambda>i. ucast (16 * hex_unit_value (hex ! (2 * i)) + hex_unit_value (hex ! (2 * i + 1))))
                [0..<length hex div 2]))"

definition encodeSignatureValue :: "signer_value \<Rightarrow> ustring \<Rightarrow> (thrown, ustring) result" where
  "encodeSignatureValue val suite =
     bindR (case val of
              SignedText t \<Rightarrow>
                if startsWith t (ustr ''0x'') then bindR (hexToBytes t) (\<lambda>bytes. Inr (base64UrlEncode bytes)) else Inr t
            | SignedBytes bytes \<Rightarrow> Inr (base64UrlEncode bytes)) (\<lambda>encoded.
     bindR (decodeSignatureValue encoded suite) (\<lambda>_. Inr encoded))"

definition ed25519PublicKeyFromDidKey :: "signing_lib \<Rightarrow> ustring \<Rightarrow> (thrown, bytes) result" where
  "ed25519PublicKeyFromDidKey lib did =
     (if \<not> startsWith did (ustr ''did:key:'') then Inl (material_error ''Ed25519 signerDid must be did:key'')
      else let identifier = drop (length ''did:key:'') did
           in if \<not> startsWith identifier (ustr ''z'') then Inl (material_error ''did:key must use base58btc multibase'')
              else case lib_base58 lib identifier of
                     None \<Rightarrow> Inl (material_error ''did:key signerDid is undecodable'')
                   | Some bytes \<Rightarrow>
                       if length bytes = 34 \<and> bytes ! 0 = 0xED \<and> bytes ! 1 = 0x01 then Inr (drop 2 bytes)
                       else Inl (material_error ''did:key signerDid is not an Ed25519 key''))"

text \<open>The characters of a DID; a code unit above 127, which no \<open>did:pkh\<close> has, becomes a null
  character.\<close>

definition did_chars :: "ustring \<Rightarrow> string" where
  "did_chars s = map (\<lambda>u. if u < 0x80 then char_of (unat u) else CHR 0x00) s"

definition parseDidPkh :: "signing_lib \<Rightarrow> ustring \<Rightarrow> (thrown, string) result" where
  "parseDidPkh lib did =
     (case parsePkhDid (lib_evm lib) (did_chars did) of
        Inl _ \<Rightarrow> Inl (material_error ''did:pkh signerDid is undecodable'')
      | Inr None \<Rightarrow> Inl (material_error ''EIP-191 signerDid must be did:pkh'')
      | Inr (Some parsed) \<Rightarrow> Inr (p_address parsed))"

definition assertSignerDidMatchesSuite :: "signing_lib \<Rightarrow> ustring \<Rightarrow> ustring \<Rightarrow> (thrown, unit) result" where
  "assertSignerDidMatchesSuite lib signerDid suite =
     (if suite = ED25519_JCS_SIGNATURE_SUITE then bindR (ed25519PublicKeyFromDidKey lib signerDid) (\<lambda>_. Inr ())
      else if suite = EIP191_JCS_SIGNATURE_SUITE then bindR (parseDidPkh lib signerDid) (\<lambda>_. Inr ())
      else Inl (SignedObjectProfileError SignatureSuiteUnsupported (ustr ''unsupported signature suite: '' @ suite)))"

text \<open>The Ed25519 call is guarded; the rejection of \<open>verifyMessage\<close> is not, since its promise is
  returned and not awaited inside the \<open>try\<close>.\<close>

definition verifySignature :: "signing_lib \<Rightarrow> signature \<Rightarrow> bytes \<Rightarrow> (thrown, bool) result" where
  "verifySignature lib sig digest =
     (if sig_suite sig = ED25519_JCS_SIGNATURE_SUITE
      then bindR (ed25519PublicKeyFromDidKey lib (sig_signerDid sig)) (\<lambda>publicKey.
           bindR (decodeSignatureValue (sig_value sig) (sig_suite sig)) (\<lambda>signatureBytes.
           case lib_ed25519_verify lib signatureBytes digest publicKey of
             None \<Rightarrow> Inl (SignedObjectProfileError SignatureInvalid (ustr ''Ed25519 signature verification failed''))
           | Some ok \<Rightarrow> Inr ok))
      else if sig_suite sig = EIP191_JCS_SIGNATURE_SUITE
      then bindR (parseDidPkh lib (sig_signerDid sig)) (\<lambda>address.
           bindR (decodeSignatureValue (sig_value sig) (sig_suite sig)) (\<lambda>signatureBytes.
           case lib_verifyMessage lib address digest (lib_bytesToHex lib signatureBytes) of
             None \<Rightarrow> Inl (OtherError (ustr ''verifyMessage''))
           | Some ok \<Rightarrow> Inr ok))
      else Inl (SignedObjectProfileError SignatureSuiteUnsupported (ustr ''unsupported signature suite: '' @ sig_suite sig)))"

section \<open>Shapes\<close>

definition validateSignature :: "json \<Rightarrow> (thrown, signature) result" where
  "validateSignature input =
     bindR (expectJsonObject input (ustr ''$.signature'')) (\<lambda>obj.
     bindR (assertExactKeys obj [''suite'', ''signerDid'', ''value''] (ustr ''$.signature'')) (\<lambda>_.
     bindR (requiredString obj ''suite'' (ustr ''$.signature'')) (\<lambda>suite.
     bindR (assertSupportedSignatureSuite suite) (\<lambda>_.
     bindR (requiredString obj ''signerDid'' (ustr ''$.signature'')) (\<lambda>signerDid.
     bindR (requiredString obj ''value'' (ustr ''$.signature'')) (\<lambda>val.
     bindR (decodeSignatureValue val suite) (\<lambda>_.
       Inr \<lparr>sig_suite = suite, sig_signerDid = signerDid, sig_value = val\<rparr>)))))))"

text \<open>The capabilities of a policy: the form is the canonicaliser's for a policy that is read, and
  the strict validator's for one that is signed. Every other error becomes a schema error.\<close>

definition check_capability ::
  "(raw \<Rightarrow> (policy_capability_error, policy_capability) result) \<Rightarrow> string \<Rightarrow> json \<Rightarrow> ustring \<Rightarrow> (thrown, unit) result" where
  "check_capability accept msg input path =
     bindR (expectJsonObject input path) (\<lambda>obj.
       case accept (raw_of (ObjJ obj)) of
         Inl (PolicyCapabilityError _ m) \<Rightarrow> Inl (SignedObjectProfileError SchemaInvalid m)
       | Inr canonical \<Rightarrow>
           (case (jcsCanonicalize (raw_of (ObjJ obj)), jcsCanonicalize (raw_of (ObjJ (pc_fields canonical)))) of
              (Inl (SignedObjectCanonicalizationError m), _) \<Rightarrow> Inl (SignedObjectProfileError SchemaInvalid m)
            | (_, Inl (SignedObjectCanonicalizationError m)) \<Rightarrow> Inl (SignedObjectProfileError SchemaInvalid m)
            | (Inr a, Inr b) \<Rightarrow> throw_if (a \<noteq> b) (schema_error path msg)))"

definition validatePolicyCapability :: "signing_lib \<Rightarrow> json \<Rightarrow> ustring \<Rightarrow> (thrown, unit) result" where
  "validatePolicyCapability lib =
     check_capability (canonicalizePolicyCapability (lib_nfc lib)) '' must be canonical PolicyCapability JSON''"

definition validatePolicyCapabilityForSigning :: "signing_lib \<Rightarrow> json \<Rightarrow> ustring \<Rightarrow> (thrown, unit) result" where
  "validatePolicyCapabilityForSigning lib =
     check_capability (normalizePolicyCapability (lib_nfc lib)) '' must be strict canonical PolicyCapability JSON''"

definition validatePolicyResource :: "signing_lib \<Rightarrow> json \<Rightarrow> ustring \<Rightarrow> (thrown, unit) result" where
  "validatePolicyResource lib input path =
     bindR (expectJsonObject input path) (\<lambda>obj.
     bindR (assertExactKeys obj [''resourceType'', ''resourceId'', ''permissionsCeiling''] path) (\<lambda>_.
     bindR (requiredString obj ''resourceType'' path) (\<lambda>_.
     bindR (requiredString obj ''resourceId'' path) (\<lambda>_.
     bindR (requiredArray obj ''permissionsCeiling'' path 1) (\<lambda>ceiling.
       eachR (\<lambda>i c. validatePolicyCapability lib c (item_path (member_path path ''permissionsCeiling'') i)) ceiling)))))"

definition validatePolicyPermissionsCeilingForSigning :: "signing_lib \<Rightarrow> json_object \<Rightarrow> (thrown, unit) result" where
  "validatePolicyPermissionsCeilingForSigning lib input =
     bindR (requiredValue input ''resource'' dollar) (\<lambda>v.
     bindR (expectJsonObject v (ustr ''$.resource'')) (\<lambda>resource.
     bindR (requiredArray resource ''permissionsCeiling'' (ustr ''$.resource'') 1) (\<lambda>ceiling.
       eachR (\<lambda>i c. validatePolicyCapabilityForSigning lib c (item_path (ustr ''$.resource.permissionsCeiling'') i)) ceiling)))"

definition validate_authority :: "json_object \<Rightarrow> ustring \<Rightarrow> (thrown, unit) result" where
  "validate_authority obj path =
     (let path' = member_path path ''authority''
      in bindR (requiredValue obj ''authority'' path) (\<lambda>v.
         bindR (expectJsonObject v path') (\<lambda>authority.
         bindR (assertExactKeys authority [''profile'', ''acceptedIssuers'', ''allowOwnerAuthorizedIssuer''] path') (\<lambda>_.
         bindR (optionalString authority ''profile'' path') (\<lambda>_.
         bindR (if hasOwn authority (ustr ''acceptedIssuers'')
                then requiredStringArray authority ''acceptedIssuers'' path' (\<lambda>_ _. Inr ()) else Inr ()) (\<lambda>_.
         optionalBoolean authority ''allowOwnerAuthorizedIssuer'' path'))))))"

definition validate_freshness :: "json_object \<Rightarrow> ustring \<Rightarrow> (thrown, unit) result" where
  "validate_freshness obj path =
     (let path' = member_path path ''freshness''
      in bindR (requiredValue obj ''freshness'' path) (\<lambda>v.
         bindR (expectJsonObject v path') (\<lambda>freshness.
         bindR (assertExactKeys freshness [''maxStatusAgeSeconds''] path') (\<lambda>_.
         bindR (requiredInteger freshness ''maxStatusAgeSeconds'' path' 0) (\<lambda>_. Inr ())))))"

definition validateEvidenceRequirement :: "json \<Rightarrow> ustring \<Rightarrow> (thrown, unit) result" where
  "validateEvidenceRequirement input path =
     bindR (expectJsonObject input path) (\<lambda>obj.
     bindR (assertExactKeys obj [''requirementId'', ''verifier'', ''requirements'', ''authority'', ''freshness''] path) (\<lambda>_.
     bindR (requiredString obj ''requirementId'' path) (\<lambda>_.
     bindR (requiredString obj ''verifier'' path) (\<lambda>_.
     bindR (requiredValue obj ''requirements'' path) (\<lambda>_.
     bindR (if hasOwn obj (ustr ''authority'') then validate_authority obj path else Inr ()) (\<lambda>_.
     if hasOwn obj (ustr ''freshness'') then validate_freshness obj path else Inr ()))))))"

definition validate_subject :: "json \<Rightarrow> ustring \<Rightarrow> (thrown, unit) result" where
  "validate_subject input path =
     bindR (expectJsonObject input path) (\<lambda>subject.
     bindR (assertExactKeys subject [''did''] path) (\<lambda>_.
     bindR (requiredString subject ''did'' path) (\<lambda>_. Inr ())))"

text \<open>The recursion over \<open>when\<close> expressions: an object with one key, whose value is \<open>v\<close>.\<close>

lemma eachR_cong [fundef_cong]:
  "xs = ys \<Longrightarrow> (\<And>i x. x \<in> set ys \<Longrightarrow> f i x = g i x) \<Longrightarrow> eachR f xs = eachR g ys"
  unfolding eachR_def by (auto intro!: arg_cong [where f = "\<lambda>m. bindR m (\<lambda>_. Inr ())"] mapR_cong dest: set_zip_rightD)

fun validateExpression :: "json \<Rightarrow> ustring \<Rightarrow> (thrown, unit) result" where
  "validateExpression (ObjJ [(key, v)]) path =
     (if key = ustr ''allOf'' \<or> key = ustr ''anyOf'' then
        (case v of
           ArrJ (x # xs) \<Rightarrow>
             eachR (\<lambda>i y. validateExpression y (item_path (path @ ustr ''.'' @ key) i)) (x # xs)
         | _ \<Rightarrow> Inl (schema_error (path @ ustr ''.'' @ key) '' must be an array with at least 1 item(s)''))
      else if key = ustr ''subject'' then validate_subject v (member_path path ''subject'')
      else if key = ustr ''evidence'' then validateEvidenceRequirement v (member_path path ''evidence'')
      else Inl (SignedObjectProfileError SchemaInvalid (path @ ustr '' has unknown expression key '' @ key)))"
| "validateExpression (ObjJ fs) path = Inl (schema_error path '' must have exactly one expression key'')"
| "validateExpression input path = Inl (schema_error path '' must be an object'')"

definition validateGrant :: "json \<Rightarrow> ustring \<Rightarrow> (thrown, unit) result" where
  "validateGrant input path =
     bindR (expectJsonObject input path) (\<lambda>obj.
     bindR (assertExactKeys obj [''output'', ''maxTtlSeconds'', ''delegationMode'', ''revocation''] path) (\<lambda>_.
     bindR (requiredString obj ''output'' path) (\<lambda>out.
     bindR (expectConst out (ustr ''portable-delegation'') (member_path path ''output'')) (\<lambda>_.
     bindR (requiredInteger obj ''maxTtlSeconds'' path 1) (\<lambda>_.
     bindR (requiredString obj ''delegationMode'' path) (\<lambda>mode.
     bindR (expectOneOf mode [''terminal'', ''attenuable''] (member_path path ''delegationMode'')) (\<lambda>_.
     bindR (requiredString obj ''revocation'' path) (\<lambda>revocation.
     expectOneOf revocation [''refresh_only'', ''active_cutoff''] (member_path path ''revocation'')))))))))"

definition validateDisclosure :: "json \<Rightarrow> ustring \<Rightarrow> (thrown, unit) result" where
  "validateDisclosure input path =
     bindR (expectJsonObject input path) (\<lambda>obj.
     bindR (assertExactKeys obj [''denial''] path) (\<lambda>_.
     bindR (requiredString obj ''denial'' path) (\<lambda>denial.
     expectOneOf denial [''none'', ''code'', ''debug''] (member_path path ''denial''))))"

definition validateAudit :: "json \<Rightarrow> ustring \<Rightarrow> (thrown, unit) result" where
  "validateAudit input path =
     bindR (expectJsonObject input path) (\<lambda>obj.
     bindR (assertExactKeys obj [''issuance''] path) (\<lambda>_.
     bindR (requiredString obj ''issuance'' path) (\<lambda>issuance.
     expectOneOf issuance [''off'', ''security'', ''full''] (member_path path ''issuance''))))"

section \<open>The three objects\<close>

text \<open>What the three validators do first: normalise, check the keys and the schema and, for a
  signed object, its identifier and signature. The members that are left come after it.\<close>

definition shape_frame ::
  "string list \<Rightarrow> string list \<Rightarrow> ustring \<Rightarrow> string \<Rightarrow> (json_object \<Rightarrow> (thrown, unit) result) \<Rightarrow> raw \<Rightarrow> bool \<Rightarrow> (thrown, json_object) result" where
  "shape_frame signedKeys unsignedKeys schema idField members input isSigned =
     bindR (normalized input) (\<lambda>v.
     bindR (expectJsonObject v dollar) (\<lambda>obj.
     bindR (assertExactKeys obj (if isSigned then signedKeys else unsignedKeys) dollar) (\<lambda>_.
     bindR (requiredString obj ''schema'' dollar) (\<lambda>s.
     bindR (expectConst s schema (ustr ''$.schema'')) (\<lambda>_.
     bindR (if isSigned
            then bindR (requiredString obj idField dollar) (\<lambda>_.
                 bindR (requiredValue obj ''signature'' dollar) (\<lambda>s.
                 bindR (validateSignature s) (\<lambda>_. Inr ())))
            else Inr ()) (\<lambda>_.
     bindR (members obj) (\<lambda>_. Inr obj)))))))"

definition policy_members :: "signing_lib \<Rightarrow> json_object \<Rightarrow> (thrown, unit) result" where
  "policy_members lib obj =
     bindR (requiredString obj ''ownerDid'' dollar) (\<lambda>_.
     bindR (requiredString obj ''signingKeyDid'' dollar) (\<lambda>_.
     bindR (requiredDateString lib obj ''createdAt'' dollar) (\<lambda>_.
     bindR (optionalDateString lib obj ''expiresAt'' dollar) (\<lambda>_.
     bindR (requiredValue obj ''resource'' dollar) (\<lambda>resource.
     bindR (validatePolicyResource lib resource (ustr ''$.resource'')) (\<lambda>_.
     bindR (requiredValue obj ''when'' dollar) (\<lambda>condition.
     bindR (validateExpression condition (ustr ''$.when'')) (\<lambda>_.
     bindR (requiredValue obj ''grant'' dollar) (\<lambda>grant.
     bindR (validateGrant grant (ustr ''$.grant'')) (\<lambda>_.
     bindR (if hasOwn obj (ustr ''disclosure'')
            then bindR (requiredValue obj ''disclosure'' dollar) (\<lambda>d. validateDisclosure d (ustr ''$.disclosure'')) else Inr ()) (\<lambda>_.
     if hasOwn obj (ustr ''audit'')
     then bindR (requiredValue obj ''audit'' dollar) (\<lambda>a. validateAudit a (ustr ''$.audit'')) else Inr ())))))))))))"

definition validatePolicyShape :: "signing_lib \<Rightarrow> raw \<Rightarrow> bool \<Rightarrow> (thrown, json_object) result" where
  "validatePolicyShape lib =
     shape_frame
       [''schema'', ''policyId'', ''ownerDid'', ''signingKeyDid'', ''createdAt'', ''expiresAt'', ''resource'', ''when'', ''grant'',
        ''disclosure'', ''audit'', ''signature'']
       [''schema'', ''ownerDid'', ''signingKeyDid'', ''createdAt'', ''expiresAt'', ''resource'', ''when'', ''grant'', ''disclosure'',
        ''audit'']
       POLICY_SCHEMA ''policyId'' (policy_members lib)"

definition status_members :: "signing_lib \<Rightarrow> json_object \<Rightarrow> (thrown, unit) result" where
  "status_members lib obj =
     bindR (requiredString obj ''policyId'' dollar) (\<lambda>_.
     bindR (requiredString obj ''ownerDid'' dollar) (\<lambda>_.
     bindR (requiredInteger obj ''sequence'' dollar 0) (\<lambda>_.
     bindR (requiredString obj ''disposition'' dollar) (\<lambda>disposition.
     bindR (expectOneOf disposition [''active'', ''suspended'', ''revoked''] (ustr ''$.disposition'')) (\<lambda>_.
     bindR (requiredDateString lib obj ''effectiveAt'' dollar) (\<lambda>_.
     bindR (optionalString obj ''reasonCode'' dollar) (\<lambda>_.
     bindR (requiredString obj ''signingKeyDid'' dollar) (\<lambda>_. Inr ()))))))))"

definition validatePolicyStatusShape :: "signing_lib \<Rightarrow> raw \<Rightarrow> bool \<Rightarrow> (thrown, json_object) result" where
  "validatePolicyStatusShape lib =
     shape_frame
       [''schema'', ''statusId'', ''policyId'', ''ownerDid'', ''sequence'', ''disposition'', ''effectiveAt'', ''reasonCode'',
        ''signingKeyDid'', ''signature'']
       [''schema'', ''policyId'', ''ownerDid'', ''sequence'', ''disposition'', ''effectiveAt'', ''reasonCode'', ''signingKeyDid'']
       POLICY_STATUS_SCHEMA ''statusId'' (status_members lib)"

definition record_members :: "signing_lib \<Rightarrow> json_object \<Rightarrow> (thrown, unit) result" where
  "record_members lib obj =
     bindR (requiredString obj ''ownerDid'' dollar) (\<lambda>_.
     bindR (requiredString obj ''endpoint'' dollar) (\<lambda>_.
     bindR (requiredString obj ''audience'' dollar) (\<lambda>_.
     bindR (requiredStringArray obj ''supportedPolicyVersions'' dollar (\<lambda>v path. expectConst v (ustr ''v0'') path)) (\<lambda>_.
     bindR (requiredStringArray obj ''supportedEvidenceVerifiers'' dollar (\<lambda>_ _. Inr ())) (\<lambda>_.
     bindR (requiredString obj ''grantIssuerDid'' dollar) (\<lambda>_.
     requiredDateString lib obj ''expiresAt'' dollar))))))"

definition validatePolicyEngineRecordShape :: "signing_lib \<Rightarrow> raw \<Rightarrow> bool \<Rightarrow> (thrown, json_object) result" where
  "validatePolicyEngineRecordShape lib =
     shape_frame
       [''schema'', ''engineRecordId'', ''ownerDid'', ''endpoint'', ''audience'', ''supportedPolicyVersions'',
        ''supportedEvidenceVerifiers'', ''grantIssuerDid'', ''expiresAt'', ''signature'']
       [''schema'', ''ownerDid'', ''endpoint'', ''audience'', ''supportedPolicyVersions'', ''supportedEvidenceVerifiers'',
        ''grantIssuerDid'', ''expiresAt'']
       POLICY_ENGINE_RECORD_SCHEMA ''engineRecordId'' (record_members lib)"

text \<open>\<open>validatePolicyUnsigned\<close>, \<open>validatePolicySignedShape\<close> and their siblings.\<close>

fun validate_shape :: "signing_lib \<Rightarrow> object_kind \<Rightarrow> raw \<Rightarrow> bool \<Rightarrow> (thrown, json_object) result" where
  "validate_shape lib Policy input isSigned = validatePolicyShape lib input isSigned"
| "validate_shape lib PolicyStatus input isSigned = validatePolicyStatusShape lib input isSigned"
| "validate_shape lib PolicyEngineRecord input isSigned = validatePolicyEngineRecordShape lib input isSigned"

definition descriptorForSchema :: "ustring \<Rightarrow> (thrown, object_descriptor) result" where
  "descriptorForSchema schema =
     (if schema = POLICY_SCHEMA then Inr (DESCRIPTORS Policy)
      else if schema = POLICY_STATUS_SCHEMA then Inr (DESCRIPTORS PolicyStatus)
      else if schema = POLICY_ENGINE_RECORD_SCHEMA then Inr (DESCRIPTORS PolicyEngineRecord)
      else Inl (SignedObjectProfileError SchemaInvalid (ustr ''unsupported signed-object schema: '' @ schema)))"

definition descriptorForUnsigned :: "raw \<Rightarrow> (thrown, object_descriptor) result" where
  "descriptorForUnsigned input =
     bindR (normalized input) (\<lambda>v.
     bindR (expectJsonObject v dollar) (\<lambda>obj.
     bindR (requiredString obj ''schema'' dollar) descriptorForSchema))"

definition validateSignedObjectShape :: "signing_lib \<Rightarrow> raw \<Rightarrow> (thrown, json_object) result" where
  "validateSignedObjectShape lib input =
     bindR (normalized input) (\<lambda>v.
     bindR (expectJsonObject v dollar) (\<lambda>obj.
     bindR (requiredString obj ''schema'' dollar) (\<lambda>schema.
     bindR (descriptorForSchema schema) (\<lambda>descriptor.
       validate_shape lib (d_kind descriptor) (raw_of (ObjJ obj)) True))))"

definition validateUnsignedForDescriptor :: "signing_lib \<Rightarrow> raw \<Rightarrow> object_descriptor \<Rightarrow> (thrown, json_object) result" where
  "validateUnsignedForDescriptor lib input descriptor = validate_shape lib (d_kind descriptor) input False"

section \<open>Identifiers, signing and verification\<close>

definition stripOwnIdAndSignature :: "json_object \<Rightarrow> object_descriptor \<Rightarrow> json_object" where
  "stripOwnIdAndSignature obj descriptor =
     filter (\<lambda>(key, _). \<not> (key = ustr (d_idField descriptor) \<or> key = ustr ''signature'')) obj"

text \<open>The bytes a digest is taken of.\<close>

definition digest_input :: "ustring \<Rightarrow> ustring \<Rightarrow> bytes" where
  "digest_input domain jcs = textEncode (domain @ [0]) @ textEncode jcs"

definition materialForUnsigned :: "signing_lib \<Rightarrow> json_object \<Rightarrow> object_descriptor \<Rightarrow> (thrown, material) result" where
  "materialForUnsigned lib body descriptor =
     bindR (canonicalizeSignedObjectUnsigned (raw_of (ObjJ body))) (\<lambda>jcs.
     let digest = lib_sha256 lib (digest_input (d_domain descriptor) jcs)
     in Inr \<lparr>m_kind = d_kind descriptor, m_idField = d_idField descriptor,
              m_id = d_idPrefix descriptor @ base32LowerNoPad digest, m_domain = d_domain descriptor, m_unsigned = body,
              m_jcs = jcs, m_jcsBytes = textEncode jcs, m_digest = digest, m_digestHex = drop 2 (lib_bytesToHex lib digest)\<rparr>)"

definition deriveSignedObjectMaterial :: "signing_lib \<Rightarrow> raw \<Rightarrow> (thrown, material) result" where
  "deriveSignedObjectMaterial lib input =
     bindR (descriptorForUnsigned input) (\<lambda>descriptor.
     bindR (validateUnsignedForDescriptor lib input descriptor) (\<lambda>body.
       materialForUnsigned lib body descriptor))"

definition signedObjectIdFor :: "signing_lib \<Rightarrow> raw \<Rightarrow> (thrown, ustring) result" where
  "signedObjectIdFor lib input = bindR (deriveSignedObjectMaterial lib input) (\<lambda>m. Inr (m_id m))"

definition id_digest_RE :: "ustring \<Rightarrow> 16 word rx" where
  "id_digest_RE idPrefix = Cat (Lit idPrefix) (Between 52 52 (Cls (\<lambda>u. u \<in> set BASE32_ALPHABET)))"

definition assertIdMatches :: "json_object \<Rightarrow> material \<Rightarrow> object_descriptor \<Rightarrow> (thrown, unit) result" where
  "assertIdMatches obj material descriptor =
     bindR (requiredString obj (d_idField descriptor) dollar) (\<lambda>actual.
       if actual = m_id material then Inr ()
       else if rx_test (id_digest_RE (d_idPrefix descriptor)) actual
       then Inl (SignedObjectProfileError DigestMismatch (ustr (d_idField descriptor @ '' was not derived from the signed object digest'')))
       else Inl (SignedObjectProfileError IdMismatch (ustr (d_idField descriptor @ '' does not match '') @ d_idPrefix descriptor)))"

definition assertSigningKeyBindingForCreate :: "json_object \<Rightarrow> ustring \<Rightarrow> (thrown, unit) result" where
  "assertSigningKeyBindingForCreate body signerDid =
     (if \<not> hasOwn body (ustr ''signingKeyDid'') then Inr ()
      else bindR (requiredString body ''signingKeyDid'' dollar) (\<lambda>signingKeyDid.
        throw_if (signingKeyDid \<noteq> signerDid)
          (SignedObjectProfileError SigningKeyBinding (ustr ''signer DID '' @ signerDid @ ustr '' does not match signingKeyDid '' @ signingKeyDid))))"

definition assertSigningKeyBindingForVerify :: "json_object \<Rightarrow> signature \<Rightarrow> (thrown, unit) result" where
  "assertSigningKeyBindingForVerify obj sig =
     (if \<not> hasOwn obj (ustr ''signingKeyDid'') then Inr ()
      else bindR (requiredString obj ''signingKeyDid'' dollar) (\<lambda>signingKeyDid.
        throw_if (sig_signerDid sig \<noteq> signingKeyDid)
          (SignedObjectProfileError SigningKeyBinding
            (ustr ''signature signerDid '' @ sig_signerDid sig @ ustr '' does not match signingKeyDid '' @ signingKeyDid))))"

definition signature_json :: "signature \<Rightarrow> json" where
  "signature_json sig = ObjJ [(ustr ''suite'', StrJ (sig_suite sig)), (ustr ''signerDid'', StrJ (sig_signerDid sig)),
     (ustr ''value'', StrJ (sig_value sig))]"

text \<open>The signature is validated as the object literal it is, without being normalised first.\<close>

definition createAndSignSignedObject :: "signing_lib \<Rightarrow> raw \<Rightarrow> signer \<Rightarrow> (thrown, json_object) result" where
  "createAndSignSignedObject lib input signer =
     bindR (normalized input) (\<lambda>v.
     bindR (expectJsonObject v dollar) (\<lambda>normal.
     bindR (descriptorForUnsigned (raw_of (ObjJ normal))) (\<lambda>descriptor.
     bindR (validateUnsignedForDescriptor lib (raw_of (ObjJ (stripOwnIdAndSignature normal descriptor))) descriptor) (\<lambda>body.
     bindR (if d_kind descriptor = Policy then validatePolicyPermissionsCeilingForSigning lib body else Inr ()) (\<lambda>_.
     bindR (assertSupportedSignatureSuite (s_suite signer)) (\<lambda>_.
     bindR (requireStringType (StrJ (s_signerDid signer)) (ustr ''$.signer.signerDid'')) (\<lambda>_.
     bindR (assertSignerDidMatchesSuite lib (s_signerDid signer) (s_suite signer)) (\<lambda>_.
     bindR (assertSigningKeyBindingForCreate body (s_signerDid signer)) (\<lambda>_.
     bindR (materialForUnsigned lib body descriptor) (\<lambda>material.
     bindR (case s_signDigest signer (m_digest material) of None \<Rightarrow> Inl (OtherError (ustr ''signDigest'')) | Some val \<Rightarrow> Inr val) (\<lambda>val.
     bindR (encodeSignatureValue val (s_suite signer)) (\<lambda>signatureValue.
     bindR (validateSignature (signature_json
        \<lparr>sig_suite = s_suite signer, sig_signerDid = s_signerDid signer, sig_value = signatureValue\<rparr>)) (\<lambda>sig.
       Inr (AList.update (ustr ''signature'') (signature_json sig)
             (AList.update (ustr (d_idField descriptor)) (StrJ (m_id material)) body)))))))))))))))"

definition verifySignedObject :: "signing_lib \<Rightarrow> raw \<Rightarrow> (thrown, json_object \<times> material) result" where
  "verifySignedObject lib input =
     bindR (validateSignedObjectShape lib input) (\<lambda>signed.
     bindR (requiredString signed ''schema'' dollar) (\<lambda>schema.
     bindR (descriptorForSchema schema) (\<lambda>descriptor.
     bindR (requiredValue signed ''signature'' dollar) (\<lambda>s.
     bindR (validateSignature s) (\<lambda>sig.
     bindR (assertSigningKeyBindingForVerify signed sig) (\<lambda>_.
     let body = stripOwnIdAndSignature signed descriptor
     in bindR (materialForUnsigned lib body descriptor) (\<lambda>material.
        bindR (assertIdMatches signed material descriptor) (\<lambda>_.
        bindR (verifySignature lib sig (m_digest material)) (\<lambda>ok.
          if \<not> ok then Inl (SignedObjectProfileError SignatureInvalid (ustr ''signature verification failed''))
          else Inr (signed, material))))))))))"

text \<open>\<open>createAndSignPolicy\<close>, \<open>verifyPolicy\<close>, \<open>validatePolicySigned\<close> and their siblings: the object is
  checked again for the kind that was asked for.\<close>

definition createAndSign :: "signing_lib \<Rightarrow> object_kind \<Rightarrow> raw \<Rightarrow> signer \<Rightarrow> (thrown, json_object) result" where
  "createAndSign lib kind input signer =
     bindR (createAndSignSignedObject lib input signer) (\<lambda>obj. validate_shape lib kind (raw_of (ObjJ obj)) True)"

definition verify_kind :: "signing_lib \<Rightarrow> object_kind \<Rightarrow> raw \<Rightarrow> (thrown, json_object \<times> material) result" where
  "verify_kind lib kind input =
     bindR (verifySignedObject lib input) (\<lambda>(obj, material).
     bindR (validate_shape lib kind (raw_of (ObjJ obj)) True) (\<lambda>obj'. Inr (obj', material)))"

datatype verification_result = VerifiedObject json_object material | RejectedObject thrown

definition validate_signed :: "signing_lib \<Rightarrow> object_kind \<Rightarrow> raw \<Rightarrow> verification_result" where
  "validate_signed lib kind input =
     (case verify_kind lib kind input of
        Inr (obj, material) \<Rightarrow> VerifiedObject obj material
      | Inl e \<Rightarrow> RejectedObject (toSignedObjectError e))"

end
