(* ===== verification/SignedVerification.thy ===== *)
theory SignedVerification
  imports SignedObject
begin

text \<open>
  Properties of the signed objects of \<open>SignedObject\<close>: what is signed verifies, what verifies was
  signed by the key it names over the digest its identifier spells, identifiers of verified
  objects separate their contents, and the \<open>when\<close> expressions that are accepted.
\<close>

section \<open>Readers\<close>

lemma requiredValue_iff [result_iff]: "requiredValue obj key path = Inr v \<longleftrightarrow> map_of obj (ustr key) = Some v"
  by (auto simp: requiredValue_def split: option.splits)

lemma requireStringType_iff [result_iff]: "requireStringType v path = Inr s \<longleftrightarrow> v = StrJ s \<and> s \<noteq> []"
  by (auto simp: requireStringType_def split: json.splits if_splits)

lemma requiredString_iff [result_iff]:
  "requiredString obj key path = Inr s \<longleftrightarrow> map_of obj (ustr key) = Some (StrJ s) \<and> s \<noteq> []"
  by (auto simp: requiredString_def result_iff)

lemma expectJsonObject_iff [result_iff]: "expectJsonObject v path = Inr fs \<longleftrightarrow> v = ObjJ fs"
  by (auto simp: expectJsonObject_def split: json.splits)

lemma expectConst_iff [result_iff]: "expectConst a b path = Inr u \<longleftrightarrow> a = b"
  by (auto simp: expectConst_def throw_if_Inr_iff)

lemma assertExactKeys_iff [result_iff]: "assertExactKeys obj allowed path = Inr u \<longleftrightarrow> fst ` set obj \<subseteq> ustr ` set allowed"
  by (auto simp: assertExactKeys_def bindR_Inr_iff mapR_ok_iff is_ok_iff throw_if_Inr_iff split_def)

lemma normalized_iff [result_iff]: "normalized input = Inr v \<longleftrightarrow> normalizeJson input dollar = Inr v"
  by (auto simp: normalized_def split: sum.splits canonicalization_error.splits)

lemma normalized_raw_of: "json_ok v \<Longrightarrow> normalized (raw_of v) = Inr v"
  by (simp add: normalized_iff normalize_raw_of)

lemma normalized_raw_ofD: "normalized (raw_of v) = Inr w \<Longrightarrow> json_ok v \<and> w = v"
  using raw_of_ok [of v dollar w] by (auto simp: normalized_iff normalize_raw_of)

text \<open>The members of an object are read by name, so an object with more members reads the same.\<close>

lemma reader_cong:
  assumes "map_of o' (ustr key) = map_of obj (ustr key)"
  shows "requiredValue o' key path = requiredValue obj key path"
    and "requiredString o' key path = requiredString obj key path"
    and "optionalString o' key path = optionalString obj key path"
    and "requiredInteger o' key path n = requiredInteger obj key path n"
    and "requiredStringArray o' key path check = requiredStringArray obj key path check"
    and "requiredDateString lib o' key path = requiredDateString lib obj key path"
    and "optionalDateString lib o' key path = optionalDateString lib obj key path"
    and "hasOwn o' (ustr key) = hasOwn obj (ustr key)"
  using assms
  by (simp_all add: requiredValue_def requiredString_def optionalString_def requiredInteger_def requiredStringArray_def
      requiredArray_def requiredDateString_def optionalDateString_def hasOwn_def)

definition agree :: "string list \<Rightarrow> json_object \<Rightarrow> json_object \<Rightarrow> bool" where
  "agree ks o' obj \<longleftrightarrow> (\<forall>k \<in> set ks. map_of o' (ustr k) = map_of obj (ustr k))"

lemma agreeD: "agree ks o' obj \<Longrightarrow> k \<in> set ks \<Longrightarrow> map_of o' (ustr k) = map_of obj (ustr k)"
  by (simp add: agree_def)

lemma policy_members_cong:
  "agree [''ownerDid'', ''signingKeyDid'', ''createdAt'', ''expiresAt'', ''resource'', ''when'', ''grant'', ''disclosure'', ''audit''] o' obj
    \<Longrightarrow> policy_members lib o' = policy_members lib obj"
  unfolding policy_members_def by (simp add: reader_cong [OF agreeD])

lemma status_members_cong:
  "agree [''policyId'', ''ownerDid'', ''sequence'', ''disposition'', ''effectiveAt'', ''reasonCode'', ''signingKeyDid''] o' obj
    \<Longrightarrow> status_members lib o' = status_members lib obj"
  unfolding status_members_def by (simp add: reader_cong [OF agreeD])

lemma record_members_cong:
  "agree [''ownerDid'', ''endpoint'', ''audience'', ''supportedPolicyVersions'', ''supportedEvidenceVerifiers'', ''grantIssuerDid'', ''expiresAt''] o' obj
    \<Longrightarrow> record_members lib o' = record_members lib obj"
  unfolding record_members_def by (simp add: reader_cong [OF agreeD])

section \<open>The frame of a shape\<close>

lemma shape_frame_iff:
  "shape_frame sk uk schema idf members input isSigned = Inr obj \<longleftrightarrow>
     normalizeJson input dollar = Inr (ObjJ obj) \<and>
     fst ` set obj \<subseteq> ustr ` set (if isSigned then sk else uk) \<and>
     map_of obj (ustr ''schema'') = Some (StrJ schema) \<and> schema \<noteq> [] \<and>
     (isSigned \<longrightarrow> (\<exists>i s. map_of obj (ustr idf) = Some (StrJ i) \<and> i \<noteq> [] \<and> map_of obj (ustr ''signature'') = Some s \<and>
        is_ok (validateSignature s))) \<and>
     members obj = Inr ()"
  unfolding shape_frame_def by (cases isSigned) (auto simp: result_iff is_ok_iff)

text \<open>The object that is returned for a body, an identifier and a signature.\<close>

definition sign_object :: "json_object \<Rightarrow> string \<Rightarrow> ustring \<Rightarrow> signature \<Rightarrow> json_object" where
  "sign_object body idf i sig = AList.update (ustr ''signature'') (signature_json sig) (AList.update (ustr idf) (StrJ i) body)"

lemma update_absent: "k \<notin> fst ` set al \<Longrightarrow> AList.update k v al = al @ [(k, v)]"
  by (induction al) auto

lemma keys_update: "fst ` set (AList.update k v al) = insert k (fst ` set al)"
  using arg_cong [OF AList.update_conv' [of k v al], of dom] by (simp add: dom_map_of_conv_image_fst)

lemma sign_object_map: "map_of (sign_object body idf i sig) = (map_of body)(ustr idf \<mapsto> StrJ i, ustr ''signature'' \<mapsto> signature_json sig)"
  by (simp add: sign_object_def AList.update_conv')

lemma sign_object_keys: "fst ` set (sign_object body idf i sig) = insert (ustr ''signature'') (insert (ustr idf) (fst ` set body))"
  by (simp add: sign_object_def keys_update)

lemma sign_object_absent:
  assumes "ustr idf \<notin> fst ` set body" and "ustr ''signature'' \<notin> fst ` set body" and "idf \<noteq> ''signature''"
  shows "sign_object body idf i sig = body @ [(ustr idf, StrJ i), (ustr ''signature'', signature_json sig)]"
  using assms by (simp add: sign_object_def update_absent ustr_inject)

lemma strip_sign_object:
  assumes "ustr (d_idField d) \<notin> fst ` set body" and "ustr ''signature'' \<notin> fst ` set body" and "d_idField d \<noteq> ''signature''"
  shows "stripOwnIdAndSignature (sign_object body (d_idField d) i sig) d = body"
proof -
  have "filter (\<lambda>(key, _). \<not> (key = ustr (d_idField d) \<or> key = ustr ''signature'')) body = body"
    using assms(1,2) by (intro filter_True) force
  then show ?thesis
    by (simp add: sign_object_absent [OF assms] stripOwnIdAndSignature_def)
qed

lemma frame_signed:
  assumes body: "shape_frame sk uk schema idf members input False = Inr body"
    and ok: "json_ok (ObjJ (sign_object body idf i sig))" and sig: "is_ok (validateSignature (signature_json sig))" and "i \<noteq> []"
    and keys: "insert idf (insert ''signature'' (set uk)) \<subseteq> set sk" and idf: "idf \<noteq> ''signature''" "idf \<noteq> ''schema''"
    and members: "members (sign_object body idf i sig) = members body"
  shows "shape_frame sk uk schema idf members (raw_of (ObjJ (sign_object body idf i sig))) True = Inr (sign_object body idf i sig)"
proof -
  have "fst ` set (sign_object body idf i sig) \<subseteq> ustr ` set sk"
    using body keys unfolding sign_object_keys shape_frame_iff by auto
  then show ?thesis
    using assms normalize_raw_of [OF ok, of dollar] unfolding shape_frame_iff
    by (simp add: sign_object_map ustr_inject del: json_ok.simps raw_of.simps)
qed

text \<open>For the three kinds.\<close>

lemma validate_shape_ok:
  assumes "validate_shape lib k input isSigned = Inr obj"
  shows "normalizeJson input dollar = Inr (ObjJ obj)" and "map_of obj (ustr ''schema'') = Some (StrJ (d_schema (DESCRIPTORS k)))"
    and "json_ok (ObjJ obj)"
proof -
  show n: "normalizeJson input dollar = Inr (ObjJ obj)"
    using assms by (cases k) (simp_all add: validatePolicyShape_def validatePolicyStatusShape_def validatePolicyEngineRecordShape_def shape_frame_iff)
  show "map_of obj (ustr ''schema'') = Some (StrJ (d_schema (DESCRIPTORS k)))"
    using assms by (cases k) (simp_all add: validatePolicyShape_def validatePolicyStatusShape_def validatePolicyEngineRecordShape_def shape_frame_iff)
  show "json_ok (ObjJ obj)" by (rule normalize_ok(1) [OF n])
qed

lemma unsigned_keys:
  assumes "validate_shape lib k input False = Inr body"
  shows "ustr (d_idField (DESCRIPTORS k)) \<notin> fst ` set body" and "ustr ''signature'' \<notin> fst ` set body"
proof -
  have frame: "\<exists>ks. fst ` set body \<subseteq> ustr ` set ks \<and> idf \<notin> set ks \<and> ''signature'' \<notin> set ks"
    if "shape_frame sk uk schema idf members input False = Inr body" "idf \<notin> set uk" "''signature'' \<notin> set uk" for sk uk schema idf members
    using that by (intro exI [of _ uk]) (simp add: shape_frame_iff)
  have "\<exists>ks. fst ` set body \<subseteq> ustr ` set ks \<and> d_idField (DESCRIPTORS k) \<notin> set ks \<and> ''signature'' \<notin> set ks"
    using assms
    by (cases k) (simp_all only: validate_shape.simps validatePolicyShape_def validatePolicyStatusShape_def
        validatePolicyEngineRecordShape_def DESCRIPTORS.simps object_descriptor.simps, (erule frame; simp)+)
  then show "ustr (d_idField (DESCRIPTORS k)) \<notin> fst ` set body" "ustr ''signature'' \<notin> fst ` set body"
    by (auto simp: ustr_inject)
qed

lemma idField_facts: "d_idField (DESCRIPTORS k) \<noteq> ''signature''" "d_kind (DESCRIPTORS k) = k"
  "descriptorForSchema (d_schema (DESCRIPTORS k)) = Inr (DESCRIPTORS k)" "d_schema (DESCRIPTORS k) \<noteq> []"
  "d_idField (DESCRIPTORS k) \<noteq> ''signingKeyDid''" "d_idField (DESCRIPTORS k) \<noteq> ''schema''"
  by (cases k; simp add: descriptorForSchema_def POLICY_SCHEMA_def POLICY_STATUS_SCHEMA_def POLICY_ENGINE_RECORD_SCHEMA_def
      ustr_inject ustr_empty)+

lemma agree_sign_object: "idf \<notin> set ks \<Longrightarrow> ''signature'' \<notin> set ks \<Longrightarrow> agree ks (sign_object body idf i sig) body"
  by (auto simp: agree_def sign_object_map ustr_inject)

lemma validate_shape_signed:
  assumes "validate_shape lib k input False = Inr body"
    and "json_ok (ObjJ (sign_object body (d_idField (DESCRIPTORS k)) i sig))"
    and "is_ok (validateSignature (signature_json sig))" and "i \<noteq> []"
  shows "validate_shape lib k (raw_of (ObjJ (sign_object body (d_idField (DESCRIPTORS k)) i sig))) True
    = Inr (sign_object body (d_idField (DESCRIPTORS k)) i sig)"
proof (cases k)
  case Policy
  then show ?thesis
    using assms by (auto simp del: json_ok.simps raw_of.simps simp: validatePolicyShape_def
        intro!: frame_signed policy_members_cong agree_sign_object)
next
  case PolicyStatus
  then show ?thesis
    using assms by (auto simp del: json_ok.simps raw_of.simps simp: validatePolicyStatusShape_def
        intro!: frame_signed status_members_cong agree_sign_object)
next
  case PolicyEngineRecord
  then show ?thesis
    using assms by (auto simp del: json_ok.simps raw_of.simps simp: validatePolicyEngineRecordShape_def
        intro!: frame_signed record_members_cong agree_sign_object)
qed

section \<open>Signing, then verifying\<close>

lemma validateSignature_json:
  "validateSignature (signature_json s) = Inr sig \<longleftrightarrow>
     sig = s \<and> assertSupportedSignatureSuite (sig_suite s) = Inr () \<and> sig_signerDid s \<noteq> [] \<and> sig_suite s \<noteq> [] \<and> sig_value s \<noteq> [] \<and>
     is_ok (decodeSignatureValue (sig_value s) (sig_suite s))"
  unfolding validateSignature_def signature_json_def
  by (cases s) (auto simp: result_iff ustr_inject is_ok_iff)

lemma validateSignature_ok:
  assumes "validateSignature v = Inr sig"
  shows "is_ok (decodeSignatureValue (sig_value sig) (sig_suite sig))" and "assertSupportedSignatureSuite (sig_suite sig) = Inr ()"
  using assms by (auto simp: validateSignature_def result_iff is_ok_iff)

lemma alphabet_scalar: "set u \<subseteq> set (ustr s) \<Longrightarrow> scalar_string u"
  using plain_ustr [of s] by (intro plain_units) (auto simp: list_all_iff)

lemma decoded_scalar: "is_ok (decodeSignatureValue v suite) \<Longrightarrow> scalar_string v"
proof -
  assume "is_ok (decodeSignatureValue v suite)"
  then obtain bytes where "base64UrlDecode v = Inr bytes"
    by (auto simp: decodeSignatureValue_def decode_base64_def is_ok_iff result_iff split: if_splits sum.splits base64_error.splits)
  then have "v = map base64_group (groups 6 (byte_bits bytes))"
    by (auto simp: base64UrlDecode_def result_iff base64_groups split: if_split_asm)
  moreover have "base64_group g \<in> set BASE64URL_ALPHABET" if "g \<in> set (groups 6 (byte_bits bytes))" for g
    using groups_lengths [OF that] group_value_bound [of g] by (simp add: base64_group_def base64_alphabet)
  ultimately show ?thesis
    by (intro alphabet_scalar) (auto simp: BASE64URL_ALPHABET_def)
qed

lemma base32_scalar: "scalar_string (base32LowerNoPad bytes)"
proof -
  have "base32_digit g \<in> set BASE32_ALPHABET" if "g \<in> set (groups 5 (byte_bits bytes))" for g
    using groups_lengths [OF that] group_value_bound [of g] by (simp add: base32_digit_def base32_alphabet)
  then show ?thesis
    unfolding base32_eq base32_groups_def BASE32_ALPHABET_def by (intro alphabet_scalar) auto
qed

lemma material_eq:
  "materialForUnsigned lib body d = Inr m \<longleftrightarrow>
     json_ok (ObjJ body) \<and>
     m = \<lparr>m_kind = d_kind d, m_idField = d_idField d,
          m_id = d_idPrefix d @ base32LowerNoPad (lib_sha256 lib (digest_input (d_domain d) (serialize (ObjJ body)))),
          m_domain = d_domain d, m_unsigned = body, m_jcs = serialize (ObjJ body), m_jcsBytes = textEncode (serialize (ObjJ body)),
          m_digest = lib_sha256 lib (digest_input (d_domain d) (serialize (ObjJ body))),
          m_digestHex = drop 2 (lib_bytesToHex lib (lib_sha256 lib (digest_input (d_domain d) (serialize (ObjJ body)))))\<rparr>"
proof -
  have "canonicalizeSignedObjectUnsigned (raw_of (ObjJ body)) = Inr t \<longleftrightarrow> json_ok (ObjJ body) \<and> t = serialize (ObjJ body)" for t
    unfolding canonicalizeSignedObjectUnsigned_def
    using jcs_of_raw(1,2) [of "ObjJ body" t] jcs_of_normalised [of "ObjJ body"]
    by (auto simp del: raw_of.simps json_ok.simps serialize.simps split: sum.splits canonicalization_error.splits)
  then show ?thesis
    by (auto simp: materialForUnsigned_def result_iff Let_def simp del: json_ok.simps serialize.simps)
qed

lemma descriptorForSchema_kind: "descriptorForSchema s = Inr d \<Longrightarrow> \<exists>k. d = DESCRIPTORS k \<and> s = d_schema (DESCRIPTORS k)"
  unfolding descriptorForSchema_def by (auto simp del: DESCRIPTORS.simps split: if_split_asm) (auto intro: exI [of _ Policy] exI [of _ PolicyStatus] exI [of _ PolicyEngineRecord])

text \<open>What a created object is made of.\<close>

lemma createD:
  assumes "createAndSignSignedObject lib input signer = Inr obj"
  obtains k b0 body m val v where
    "validate_shape lib k (raw_of (ObjJ b0)) False = Inr body"
    "k = Policy \<Longrightarrow> validatePolicyPermissionsCeilingForSigning lib body = Inr ()"
    "assertSigningKeyBindingForCreate body (s_signerDid signer) = Inr ()"
    "materialForUnsigned lib body (DESCRIPTORS k) = Inr m"
    "s_signDigest signer (m_digest m) = Some val" "encodeSignatureValue val (s_suite signer) = Inr v"
    "validateSignature (signature_json \<lparr>sig_suite = s_suite signer, sig_signerDid = s_signerDid signer, sig_value = v\<rparr>)
       = Inr \<lparr>sig_suite = s_suite signer, sig_signerDid = s_signerDid signer, sig_value = v\<rparr>"
    "obj = sign_object body (d_idField (DESCRIPTORS k)) (m_id m) \<lparr>sig_suite = s_suite signer, sig_signerDid = s_signerDid signer, sig_value = v\<rparr>"
proof -
  have desc: "\<exists>k. d = DESCRIPTORS k" if "descriptorForUnsigned r = Inr d" for r d
    using that by (auto simp: descriptorForUnsigned_def result_iff dest: descriptorForSchema_kind)
  show thesis
    using assms unfolding createAndSignSignedObject_def
    apply (elim bindR_InrE)
    apply (drule desc)
    apply (erule exE)
    apply (rule that)
           apply (simp only: validateUnsignedForDescriptor_def idField_facts)
          apply (simp add: idField_facts)
         apply simp
        apply simp
       apply (simp split: option.split_asm)
      apply simp
     apply (simp add: validateSignature_json)
    apply (simp add: validateSignature_json sign_object_def)
    done
qed

lemma allowed_members: "allowed_key (ustr (d_idField (DESCRIPTORS k)))" "allowed_key (ustr ''signature'')" "allowed_key (ustr ''suite'')"
  "allowed_key (ustr ''signerDid'')" "allowed_key (ustr ''value'')"
  by (cases k) (simp_all add: allowed_key_def ustr_inject scalar_ustr del: scalar_simps)

lemma suite_scalar: "assertSupportedSignatureSuite suite = Inr () \<Longrightarrow> scalar_string suite"
  by (auto simp: assertSupportedSignatureSuite_def throw_if_Inr_iff ED25519_JCS_SIGNATURE_SUITE_def EIP191_JCS_SIGNATURE_SUITE_def
      scalar_ustr simp del: scalar_simps)

lemma sign_object_json_ok:
  assumes "validate_shape lib k input False = Inr body" and "scalar_string i" and "scalar_string (sig_signerDid sig)"
    and "validateSignature (signature_json sig) = Inr sig"
  shows "json_ok (ObjJ (sign_object body (d_idField (DESCRIPTORS k)) i sig))"
proof -
  have "scalar_string (sig_suite sig)" "scalar_string (sig_value sig)"
    using assms(4) unfolding validateSignature_json by (auto intro: suite_scalar decoded_scalar)
  then have "json_ok (signature_json sig)"
    using assms(3) by (simp add: signature_json_def allowed_members del: scalar_simps)
  with validate_shape_ok(3) [OF assms(1)] assms(2) show ?thesis
    unfolding sign_object_absent [OF unsigned_keys [OF assms(1)] idField_facts(1)] by (simp add: allowed_members del: scalar_simps)
qed

text \<open>Verification, step by step. A normalised object is validated like the input it comes from.\<close>

lemma validate_shape_again:
  assumes "normalizeJson input dollar = Inr (ObjJ obj)"
  shows "validate_shape lib k (raw_of (ObjJ obj)) b = validate_shape lib k input b"
proof -
  have "normalized (raw_of (ObjJ obj)) = normalized input"
    using normalize_raw_of [OF normalize_ok(1) [OF assms], of dollar] assms by (simp add: normalized_def)
  then have "shape_frame sk uk schema idf members (raw_of (ObjJ obj)) b = shape_frame sk uk schema idf members input b" for sk uk schema idf members
    by (simp add: shape_frame_def)
  then show ?thesis
    by (cases k) (simp_all only: validate_shape.simps validatePolicyShape_def validatePolicyStatusShape_def validatePolicyEngineRecordShape_def)
qed

lemma verify_iff:
  "verifySignedObject lib input = Inr (obj, m) \<longleftrightarrow>
    (\<exists>k s sig. validate_shape lib k input True = Inr obj \<and>
       map_of obj (ustr ''signature'') = Some s \<and> validateSignature s = Inr sig \<and>
       assertSigningKeyBindingForVerify obj sig = Inr () \<and>
       materialForUnsigned lib (stripOwnIdAndSignature obj (DESCRIPTORS k)) (DESCRIPTORS k) = Inr m \<and>
       map_of obj (ustr (d_idField (DESCRIPTORS k))) = Some (StrJ (m_id m)) \<and> m_id m \<noteq> [] \<and>
       verifySignature lib sig (m_digest m) = Inr True)" (is "?l \<longleftrightarrow> ?r")
proof
  assume ?l
  then obtain schema d s sig where shape: "validateSignedObjectShape lib input = Inr obj"
    and d: "map_of obj (ustr ''schema'') = Some (StrJ schema)" "descriptorForSchema schema = Inr d"
    and s: "map_of obj (ustr ''signature'') = Some s" "validateSignature s = Inr sig" "assertSigningKeyBindingForVerify obj sig = Inr ()"
    and m: "materialForUnsigned lib (stripOwnIdAndSignature obj d) d = Inr m" "assertIdMatches obj m d = Inr ()"
    and v: "verifySignature lib sig (m_digest m) = Inr True"
    by (auto simp: verifySignedObject_def Let_def result_iff split: if_split_asm)
  from shape obtain j fs where j: "normalizeJson input dollar = Inr (ObjJ fs)" "validate_shape lib j (raw_of (ObjJ fs)) True = Inr obj"
    by (auto simp: validateSignedObjectShape_def result_iff idField_facts simp del: raw_of.simps dest!: descriptorForSchema_kind)
  have fs: "fs = obj"
    using normalized_raw_ofD [of "ObjJ fs" "ObjJ obj"] validate_shape_ok(1) [OF j(2)] unfolding normalized_iff by simp
  with j have "validate_shape lib j input True = Inr obj"
    by (simp only: validate_shape_again)
  moreover have "d = DESCRIPTORS j"
    using validate_shape_ok(2) [OF j(2)] d by (simp add: idField_facts)
  ultimately show ?r
    using s m v by (auto simp: assertIdMatches_def result_iff split: if_split_asm)
next
  assume ?r
  then obtain k s sig where shape: "validate_shape lib k input True = Inr obj"
    and s: "map_of obj (ustr ''signature'') = Some s" "validateSignature s = Inr sig" "assertSigningKeyBindingForVerify obj sig = Inr ()"
    and m: "materialForUnsigned lib (stripOwnIdAndSignature obj (DESCRIPTORS k)) (DESCRIPTORS k) = Inr m"
      "map_of obj (ustr (d_idField (DESCRIPTORS k))) = Some (StrJ (m_id m))" "m_id m \<noteq> []"
    and v: "verifySignature lib sig (m_digest m) = Inr True"
    by blast
  note obj = validate_shape_ok [OF shape]
  have schema: "requiredString obj ''schema'' dollar = Inr (d_schema (DESCRIPTORS k))"
    using obj(2) by (simp add: requiredString_iff idField_facts)
  have "validate_shape lib k (raw_of (ObjJ obj)) True = Inr obj"
    using shape by (simp only: validate_shape_again [OF obj(1)])
  then have "validateSignedObjectShape lib input = Inr obj"
    using obj(1) schema by (simp add: validateSignedObjectShape_def normalized_def expectJsonObject_def idField_facts del: raw_of.simps)
  moreover have "requiredValue obj ''signature'' dollar = Inr s"
    using s(1) by (simp add: requiredValue_iff)
  moreover have "assertIdMatches obj m (DESCRIPTORS k) = Inr ()"
    using m(2,3) by (simp add: assertIdMatches_def requiredString_def requiredValue_def requireStringType_def)
  ultimately show ?l
    using schema s m(1) v by (simp add: verifySignedObject_def idField_facts Let_def)
qed

text \<open>A created object passes every check up to the signature, over the digest that was signed.\<close>

lemma created_object:
  assumes created: "createAndSignSignedObject lib input signer = Inr obj" and did: "scalar_string (s_signerDid signer)"
  obtains m val v where "s_signDigest signer (m_digest m) = Some val" "encodeSignatureValue val (s_suite signer) = Inr v"
    "map_of obj (ustr (m_idField m)) = Some (StrJ (m_id m))"
    "verifySignature lib \<lparr>sig_suite = s_suite signer, sig_signerDid = s_signerDid signer, sig_value = v\<rparr> (m_digest m) = Inr True
      \<Longrightarrow> verifySignedObject lib (raw_of (ObjJ obj)) = Inr (obj, m)"
proof -
  from createD [OF created] obtain k b0 body m val v where
    shape: "validate_shape lib k (raw_of (ObjJ b0)) False = Inr body"
    and binding: "assertSigningKeyBindingForCreate body (s_signerDid signer) = Inr ()"
    and m: "materialForUnsigned lib body (DESCRIPTORS k) = Inr m"
    and val: "s_signDigest signer (m_digest m) = Some val" "encodeSignatureValue val (s_suite signer) = Inr v"
    and sig: "validateSignature (signature_json \<lparr>sig_suite = s_suite signer, sig_signerDid = s_signerDid signer, sig_value = v\<rparr>)
       = Inr \<lparr>sig_suite = s_suite signer, sig_signerDid = s_signerDid signer, sig_value = v\<rparr>"
    and obj: "obj = sign_object body (d_idField (DESCRIPTORS k)) (m_id m) \<lparr>sig_suite = s_suite signer, sig_signerDid = s_signerDid signer, sig_value = v\<rparr>"
    by metis
  let ?sig = "\<lparr>sig_suite = s_suite signer, sig_signerDid = s_signerDid signer, sig_value = v\<rparr>"
  have id: "m_id m = d_idPrefix (DESCRIPTORS k) @ base32LowerNoPad (m_digest m)" "m_idField m = d_idField (DESCRIPTORS k)"
    using m by (simp_all add: material_eq del: json_ok.simps serialize.simps)
  have "scalar_string (d_idPrefix (DESCRIPTORS k))" "d_idPrefix (DESCRIPTORS k) \<noteq> []"
    by (cases k; simp add: scalar_ustr ustr_empty del: scalar_simps)+
  then have i: "scalar_string (m_id m)" "m_id m \<noteq> []"
    by (simp_all add: id(1) scalar_append base32_scalar del: scalar_simps)
  have ok: "json_ok (ObjJ obj)"
    unfolding obj by (rule sign_object_json_ok [OF shape i(1)]) (use did sig in simp_all)
  have signed: "validate_shape lib k (raw_of (ObjJ obj)) True = Inr obj"
    unfolding obj by (rule validate_shape_signed [OF shape ok [unfolded obj]]) (use sig i(2) in \<open>simp_all add: is_ok_iff\<close>)
  have strip: "stripOwnIdAndSignature obj (DESCRIPTORS k) = body"
    unfolding obj by (rule strip_sign_object [OF unsigned_keys [OF shape] idField_facts(1)])
  have lookup: "map_of obj (ustr ''signature'') = Some (signature_json ?sig)"
      "map_of obj (ustr (d_idField (DESCRIPTORS k))) = Some (StrJ (m_id m))" "map_of obj (ustr ''signingKeyDid'') = map_of body (ustr ''signingKeyDid'')"
    using idField_facts(1,5) [of k] by (auto simp: obj sign_object_map ustr_inject)
  have "assertSigningKeyBindingForVerify obj ?sig = Inr ()"
    using binding lookup(3)
    by (auto simp: assertSigningKeyBindingForVerify_def assertSigningKeyBindingForCreate_def hasOwn_def result_iff requiredString_def
        requiredValue_def requireStringType_def split: if_split_asm option.split_asm)
  then have "verifySignature lib ?sig (m_digest m) = Inr True \<Longrightarrow> verifySignedObject lib (raw_of (ObjJ obj)) = Inr (obj, m)"
    unfolding verify_iff using signed lookup sig strip m i(2) by blast
  with val lookup(2) id(2) show thesis by (intro that) auto
qed

section \<open>What a signature is, without the code\<close>

text \<open>The base64url text of bytes: their bits in groups of six, each group a digit.\<close>

definition base64url_text :: "bytes \<Rightarrow> ustring" where
  "base64url_text b = map base64_group (groups 6 (byte_bits b))"

text \<open>A signature holds for a DID when the library verifies it with the key the DID spells: an Ed25519
  key behind its multicodec prefix in base58, or an account of a wallet.\<close>

inductive key_verifies :: "signing_lib \<Rightarrow> ustring \<Rightarrow> ustring \<Rightarrow> bytes \<Rightarrow> bytes \<Rightarrow> bool" for lib where
  ed25519: "lib_base58 lib (ustr ''z'' @ i) = Some ([0xED, 0x01] @ key) \<Longrightarrow> length key = 32 \<Longrightarrow> length sig = 64 \<Longrightarrow>
    lib_ed25519_verify lib sig digest key = Some True \<Longrightarrow>
    key_verifies lib (ustr ''eddsa-ed25519-sha256-jcs-v1'') (ustr ''did:key:z'' @ i) digest sig"
| eip191: "list_all is_digit c \<Longrightarrow> c \<noteq> [] \<Longrightarrow> 0 < nat_of_dec c \<Longrightarrow> int (nat_of_dec c) \<le> 2 ^ 53 - 1 \<Longrightarrow>
    rx_test ADDRESS_RE a \<Longrightarrow> isAddress (lib_evm lib) a \<Longrightarrow> length sig = 65 \<Longrightarrow> sig ! 64 \<in> {27, 28} \<Longrightarrow>
    lib_verifyMessage lib (getAddress (lib_evm lib) a) digest (lib_bytesToHex lib sig) = Some True \<Longrightarrow>
    key_verifies lib (ustr ''eip191-secp256k1-sha256-jcs-v1'') (ustr (''did:pkh:eip155:'' @ c @ '':'' @ a)) digest sig"

text \<open>The bytes a signer's answer stands for: bytes, hexadecimal text, or base64url text.\<close>

definition nibble :: "16 word \<Rightarrow> nat \<Rightarrow> bool" where
  "nibble u n \<longleftrightarrow> n < 16 \<and> u \<in> {ustr ''0123456789abcdef'' ! n, ustr ''0123456789ABCDEF'' ! n}"

inductive hex_spells :: "ustring \<Rightarrow> bytes \<Rightarrow> bool" where
  nothing: "hex_spells [] []"
| byte: "nibble u m \<Longrightarrow> nibble v n \<Longrightarrow> hex_spells t b \<Longrightarrow> hex_spells (u # v # t) (of_nat (16 * m + n) # b)"

inductive value_spells :: "signer_value \<Rightarrow> bytes \<Rightarrow> bool" where
  raw: "value_spells (SignedBytes b) b"
| hexadecimal: "hex_spells t b \<Longrightarrow> value_spells (SignedText (ustr ''0x'' @ t)) b"
| base64url: "value_spells (SignedText (base64url_text b)) b"

lemma base64url_text_encode: "base64url_text b = base64UrlEncode b"
  by (simp add: base64url_text_def base64_groups)

lemma suite_facts: "ED25519_JCS_SIGNATURE_SUITE \<noteq> EIP191_JCS_SIGNATURE_SUITE"
  by (simp add: ED25519_JCS_SIGNATURE_SUITE_def EIP191_JCS_SIGNATURE_SUITE_def ustr_inject)

lemma decodeSignatureValue_ok:
  assumes "decodeSignatureValue v suite = Inr b"
  shows "v = base64UrlEncode b" and "suite = ED25519_JCS_SIGNATURE_SUITE \<Longrightarrow> length b = 64"
    and "suite = EIP191_JCS_SIGNATURE_SUITE \<Longrightarrow> length b = 65 \<and> b ! 64 \<in> {27, 28}"
proof -
  from assms obtain c where c: "decode_base64 v = Inr c" "(if suite = ED25519_JCS_SIGNATURE_SUITE \<and> length c \<noteq> 64
        then Inl (material_error ''Ed25519 signature must be 64 bytes'')
        else if suite = EIP191_JCS_SIGNATURE_SUITE \<and> length c \<noteq> 65
        then Inl (material_error ''EIP-191 signature must be 65 bytes'')
        else if suite = EIP191_JCS_SIGNATURE_SUITE \<and> c ! 64 \<noteq> 27 \<and> c ! 64 \<noteq> 28
        then Inl (material_error ''EIP-191 signature recovery id must be 27 or 28'')
        else Inr c) = Inr b"
    by (auto simp: decodeSignatureValue_def split: if_split_asm elim!: bindR_InrE)
  then have "c = b" by (simp split: if_split_asm)
  with c(1) have "base64UrlDecode v = Inr b"
    by (simp add: decode_base64_def split: sum.split_asm base64_error.split_asm)
  then show "v = base64UrlEncode b" by (auto simp: base64UrlDecode_def result_iff split: if_split_asm)
  show "suite = ED25519_JCS_SIGNATURE_SUITE \<Longrightarrow> length b = 64"
    using c(2) by (simp split: if_split_asm)
  show "suite = EIP191_JCS_SIGNATURE_SUITE \<Longrightarrow> length b = 65 \<and> b ! 64 \<in> {27, 28}"
    using c(2) suite_facts by (simp split: if_split_asm)
qed

lemma did_chars_ustr: "list_all (\<lambda>c. of_char c < (128 :: nat)) s \<Longrightarrow> did_chars (ustr s) = s"
proof (induction s)
  case (Cons c s)
  then have "of_char c < (128 :: nat)" by simp
  then have "unit_of c < 0x80" "char_of (unat (unit_of c)) = c"
    by (simp_all add: word_less_nat_alt unat_unit_of)
  with Cons show ?case by (simp add: did_chars_def ustr_def)
qed (simp add: did_chars_def ustr_def)

lemma did_chars_eq: "did_chars u = s \<Longrightarrow> CHR 0x00 \<notin> set s \<Longrightarrow> u = ustr s"
proof (induction u arbitrary: s)
  case (Cons x u)
  define r where "r = did_chars u"
  have s: "s = (if x < 0x80 then char_of (unat x) else CHR 0x00) # r" "did_chars u = r"
    using Cons.prems(1) by (auto simp: did_chars_def r_def)
  with Cons.prems have x: "x < 0x80" by (simp split: if_split_asm)
  then have "unat x < 128" by (simp add: word_less_nat_alt)
  then have "of_char (char_of (unat x) :: char) = unat x" by simp
  then have "unit_of (char_of (unat x)) = x" by (intro word_unat_eq_iff [THEN iffD2]) (simp add: unat_unit_of)
  with Cons.IH [OF s(2)] Cons.prems(2) s(1) x show ?case by (simp add: ustr_def)
qed (simp add: did_chars_def ustr_def)

lemma ed25519_key_iff:
  "ed25519PublicKeyFromDidKey lib did = Inr key \<longleftrightarrow>
     (\<exists>i. did = ustr ''did:key:z'' @ i \<and> lib_base58 lib (ustr ''z'' @ i) = Some ([0xED, 0x01] @ key) \<and> length key = 32)"
proof -
  have split: "ustr ''did:key:z'' = ustr ''did:key:'' @ ustr ''z''" by (simp add: ustr_def)
  have len: "length (ustr ''did:key:'') = length ''did:key:''" by (simp add: ustr_def)
  have mat: "length m = 34 \<and> m ! 0 = 0xED \<and> m ! 1 = 0x01 \<and> drop 2 m = key \<longleftrightarrow> m = [0xED, 0x01] @ key \<and> length key = 32" for m :: bytes
  proof
    assume h: "length m = 34 \<and> m ! 0 = 0xED \<and> m ! 1 = 0x01 \<and> drop 2 m = key"
    then obtain x y r where "m = x # y # r" by (cases m; cases "tl m") auto
    with h show "m = [0xED, 0x01] @ key \<and> length key = 32" by auto
  qed auto
  show ?thesis
  proof
    assume "ed25519PublicKeyFromDidKey lib did = Inr key"
    then obtain m where m: "startsWith did (ustr ''did:key:'')" "startsWith (drop (length ''did:key:'') did) (ustr ''z'')"
      "lib_base58 lib (drop (length ''did:key:'') did) = Some m" "m = [0xED, 0x01] @ key \<and> length key = 32"
      unfolding ed25519PublicKeyFromDidKey_def Let_def mat [symmetric] by (auto split: if_split_asm option.split_asm)
    from m(1) obtain r where r: "did = ustr ''did:key:'' @ r" by (auto simp: prefix_def)
    then have "drop (length ''did:key:'') did = r" using len by simp
    with m(2) obtain i where "r = ustr ''z'' @ i" by (auto simp: prefix_def)
    with r m(3,4) len show "\<exists>i. did = ustr ''did:key:z'' @ i \<and> lib_base58 lib (ustr ''z'' @ i) = Some ([0xED, 0x01] @ key) \<and> length key = 32"
      unfolding split by (intro exI [of _ i]) simp
  next
    assume "\<exists>i. did = ustr ''did:key:z'' @ i \<and> lib_base58 lib (ustr ''z'' @ i) = Some ([0xED, 0x01] @ key) \<and> length key = 32"
    then show "ed25519PublicKeyFromDidKey lib did = Inr key"
      using len by (auto simp: ed25519PublicKeyFromDidKey_def Let_def split)
  qed
qed

lemma pkh_account_iff:
  "parseDidPkh lib did = Inr address \<longleftrightarrow>
     (\<exists>c a. did = ustr (''did:pkh:eip155:'' @ c @ '':'' @ a) \<and> list_all is_digit c \<and> c \<noteq> [] \<and> 0 < nat_of_dec c \<and>
        int (nat_of_dec c) \<le> 2 ^ 53 - 1 \<and> rx_test ADDRESS_RE a \<and> isAddress (lib_evm lib) a \<and> address = getAddress (lib_evm lib) a)"
proof -
  have chars: "list_all (\<lambda>x. of_char x < (128 :: nat) \<and> x \<noteq> CHR 0x00) (''did:pkh:eip155:'' @ c @ '':'' @ a)"
    if "rx_test DIGITS_RE c" "rx_test ADDRESS_RE a" for c a
  proof -
    have "list_all (\<lambda>x. of_char x < (128 :: nat) \<and> x \<noteq> CHR 0x00) h" if "list_all is_hex h" for h
    proof -
      have "of_char x < (128 :: nat) \<and> x \<noteq> CHR 0x00" if "is_hex x" for x
        using that by (auto simp: char_class_defs)
      with that show ?thesis by (auto simp: list_all_iff)
    qed
    moreover have "list_all is_hex c" using that(1) by (auto simp: DIGITS_RE_iff list_all_iff is_hex_def)
    ultimately show ?thesis using that(2) unfolding ADDRESS_RE_iff by auto
  qed
  have iff: "did_chars did = d \<longleftrightarrow> did = ustr d" if "list_all (\<lambda>x. of_char x < (128 :: nat) \<and> x \<noteq> CHR 0x00) d" for d
    using that did_chars_eq [of did d] did_chars_ustr [of d] by (auto simp: list_all_iff)
  have "parseDidPkh lib did = Inr address \<longleftrightarrow>
      (\<exists>c a. pkh_match (did_chars did) = Some (c, a) \<and> 0 < nat_of_dec c \<and> int (nat_of_dec c) \<le> 2 ^ 53 - 1 \<and>
         isAddress (lib_evm lib) a \<and> address = getAddress (lib_evm lib) a)"
    unfolding parseDidPkh_def parsePkhDid_def
    by (auto simp: assertValidChainId_def canonicalizeAddress_def isEvmAddress_def MAX_SAFE_INTEGER_def Let_def result_iff
        split: option.splits sum.splits if_splits)
  also have "\<dots> \<longleftrightarrow> (\<exists>c a. did = ustr (''did:pkh:eip155:'' @ c @ '':'' @ a) \<and> list_all is_digit c \<and> c \<noteq> [] \<and> 0 < nat_of_dec c \<and>
        int (nat_of_dec c) \<le> 2 ^ 53 - 1 \<and> rx_test ADDRESS_RE a \<and> isAddress (lib_evm lib) a \<and> address = getAddress (lib_evm lib) a)"
  proof -
    have "did_chars did = PKH_HEAD @ c @ CHR '':'' # a \<and> rx_test DIGITS_RE c \<and> rx_test ADDRESS_RE a \<longleftrightarrow>
        did = ustr (''did:pkh:eip155:'' @ c @ '':'' @ a) \<and> rx_test DIGITS_RE c \<and> rx_test ADDRESS_RE a" for c a
      using iff [OF chars, of c a] by (auto simp: PKH_HEAD_def)
    then show ?thesis unfolding pkh_match_iff by (auto simp: DIGITS_RE_iff)
  qed
  finally show ?thesis .
qed

lemma verifySignature_key:
  assumes "verifySignature lib sig digest = Inr True"
  obtains b where "sig_value sig = base64url_text b" "key_verifies lib (sig_suite sig) (sig_signerDid sig) digest b"
proof (cases "sig_suite sig = ED25519_JCS_SIGNATURE_SUITE")
  case True
  with assms obtain key b where k: "ed25519PublicKeyFromDidKey lib (sig_signerDid sig) = Inr key"
      "decodeSignatureValue (sig_value sig) (sig_suite sig) = Inr b" "lib_ed25519_verify lib b digest key = Some True"
    unfolding verifySignature_def by (auto elim!: bindR_InrE split: option.split_asm)
  then have "key_verifies lib (sig_suite sig) (sig_signerDid sig) digest b"
    using decodeSignatureValue_ok(2) [OF k(2)] True unfolding ed25519_key_iff
    by (auto simp: ED25519_JCS_SIGNATURE_SUITE_def intro: key_verifies.ed25519 [simplified])
  with decodeSignatureValue_ok(1) [OF k(2)] show thesis by (intro that) (simp_all add: base64url_text_encode)
next
  case False
  with assms have suite: "sig_suite sig = EIP191_JCS_SIGNATURE_SUITE" by (simp add: verifySignature_def split: if_split_asm)
  with assms False obtain address b where k: "parseDidPkh lib (sig_signerDid sig) = Inr address"
      "decodeSignatureValue (sig_value sig) (sig_suite sig) = Inr b"
      "lib_verifyMessage lib address digest (lib_bytesToHex lib b) = Some True"
    unfolding verifySignature_def by (auto elim!: bindR_InrE split: option.split_asm)
  then obtain c a where pkh: "sig_signerDid sig = ustr (''did:pkh:eip155:'' @ c @ '':'' @ a)" "list_all is_digit c" "c \<noteq> []"
      "0 < nat_of_dec c" "int (nat_of_dec c) \<le> 2 ^ 53 - 1" "rx_test ADDRESS_RE a" "isAddress (lib_evm lib) a"
      "address = getAddress (lib_evm lib) a"
    unfolding pkh_account_iff by blast
  have "key_verifies lib (sig_suite sig) (sig_signerDid sig) digest b"
    unfolding suite EIP191_JCS_SIGNATURE_SUITE_def pkh(1)
    by (rule key_verifies.eip191) (use pkh k(3) decodeSignatureValue_ok(3) [OF k(2) suite] in blast)+
  with decodeSignatureValue_ok(1) [OF k(2)] show thesis by (intro that) (simp_all add: base64url_text_encode)
qed

lemma key_verifies_accepted:
  assumes "key_verifies lib suite did digest b" and "decodeSignatureValue v suite = Inr b"
  shows "verifySignature lib \<lparr>sig_suite = suite, sig_signerDid = did, sig_value = v\<rparr> digest = Inr True"
  using assms(1)
proof cases
  case (ed25519 i key)
  then have "ed25519PublicKeyFromDidKey lib did = Inr key" unfolding ed25519_key_iff by blast
  with ed25519 assms(2) show ?thesis by (simp add: verifySignature_def ED25519_JCS_SIGNATURE_SUITE_def)
next
  case (eip191 c a)
  then have "parseDidPkh lib did = Inr (getAddress (lib_evm lib) a)" unfolding pkh_account_iff by blast
  with eip191 assms(2) show ?thesis
    by (simp add: verifySignature_def EIP191_JCS_SIGNATURE_SUITE_def ED25519_JCS_SIGNATURE_SUITE_def ustr_inject)
qed

lemma nibble_unit: "nibble u n \<Longrightarrow> hex_unit u \<and> unat (hex_unit_value u) = n"
proof -
  have "list_all (\<lambda>n. hex_unit (ustr ''0123456789abcdef'' ! n) \<and> unat (hex_unit_value (ustr ''0123456789abcdef'' ! n)) = n \<and>
      hex_unit (ustr ''0123456789ABCDEF'' ! n) \<and> unat (hex_unit_value (ustr ''0123456789ABCDEF'' ! n)) = n) [0..<16]"
    by code_simp
  then show "nibble u n \<Longrightarrow> hex_unit u \<and> unat (hex_unit_value u) = n"
    by (auto simp: nibble_def list_all_iff)
qed

lemma nibble_byte: "nibble u m \<Longrightarrow> nibble v n \<Longrightarrow> ucast (16 * hex_unit_value u + hex_unit_value v) = (of_nat (16 * m + n) :: 8 word)"
proof -
  assume "nibble u m" "nibble v n"
  have "hex_unit_value w = of_nat k" if "nibble w k" for w k
    using that nibble_unit [OF that] by (intro word_unat_eq_iff [THEN iffD2]) (simp add: unat_of_nat nibble_def)
  then have "hex_unit_value u = of_nat m" "hex_unit_value v = of_nat n" using \<open>nibble u m\<close> \<open>nibble v n\<close> by blast+
  moreover have "m < 16" "n < 16" using \<open>nibble u m\<close> \<open>nibble v n\<close> by (simp_all add: nibble_def)
  then have "unat (16 * of_nat m + of_nat n :: 16 word) = 16 * m + n"
    by (simp add: unat_word_ariths unat_of_nat)
  ultimately have "unat (16 * hex_unit_value u + hex_unit_value v) = 16 * m + n" by simp
  then show ?thesis by (metis of_nat_unat)
qed

lemma hex_spells_read:
  "hex_spells t b \<Longrightarrow> length t = 2 * length b \<and> list_all hex_unit t \<and>
     map (\<lambda>i. ucast (16 * hex_unit_value (t ! (2 * i)) + hex_unit_value (t ! (2 * i + 1)))) [0..<length t div 2] = b"
proof (induction rule: hex_spells.induct)
  case (byte u m v n t b)
  have "map (\<lambda>i. ucast (16 * hex_unit_value ((u # v # t) ! (2 * i)) + hex_unit_value ((u # v # t) ! (2 * i + 1)))) [0..<Suc (length b)]
      = ucast (16 * hex_unit_value u + hex_unit_value v) #
        map (\<lambda>i. ucast (16 * hex_unit_value (t ! (2 * i)) + hex_unit_value (t ! (2 * i + 1)))) [0..<length b]"
    by (simp add: upt_conv_Cons map_Suc_upt [symmetric] comp_def del: upt_Suc)
  note front = this
  have l: "length t = 2 * length b" "length t div 2 = length b" "length (u # v # t) div 2 = Suc (length b)"
    using byte.IH by auto
  have rest: "map (\<lambda>i. ucast (16 * hex_unit_value (t ! (2 * i)) + hex_unit_value (t ! (2 * i + 1)))) [0..<length b] = b"
    using byte.IH unfolding l(2) by blast
  show ?case
    unfolding l(3) front rest nibble_byte [OF byte.hyps(1,2)]
    using l(1) byte.IH nibble_unit [OF byte.hyps(1)] nibble_unit [OF byte.hyps(2)] by simp
qed simp

lemma encoded_value:
  assumes "value_spells val b" and "encodeSignatureValue val suite = Inr v"
    and "suite = ED25519_JCS_SIGNATURE_SUITE \<and> length b = 64 \<or> suite = EIP191_JCS_SIGNATURE_SUITE \<and> length b = 65"
  shows "decodeSignatureValue v suite = Inr b"
proof -
  have same: "decodeSignatureValue v suite = Inr b" if "v = base64UrlEncode b" "is_ok (decodeSignatureValue v suite)"
  proof -
    from that(2) obtain x where x: "decodeSignatureValue v suite = Inr x" by (auto simp: is_ok_iff)
    with that(1) decodeSignatureValue_ok(1) [OF x] have "base64UrlEncode b = base64UrlEncode x" by simp
    then have "x = b" using base64_decode_encode by (metis sum.inject(2))
    with x show ?thesis by simp
  qed
  have ok: "is_ok (decodeSignatureValue v suite)"
    using assms(2) by (auto simp: encodeSignatureValue_def result_iff is_ok_iff)
  from assms(1) show ?thesis
  proof cases
    case raw
    with assms(2) have "v = base64UrlEncode b" by (auto simp: encodeSignatureValue_def result_iff)
    then show ?thesis using ok same by blast
  next
    case (hexadecimal t)
    have d: "drop 2 (ustr ''0x'' @ t) = t" by (simp add: ustr_def)
    from hex_spells_read [OF hexadecimal(2)] have l: "length t = 2 * length b" "list_all hex_unit t"
      and m: "map (\<lambda>i. ucast (16 * hex_unit_value (t ! (2 * i)) + hex_unit_value (t ! (2 * i + 1)))) [0..<length t div 2] = b"
      by blast+
    have "hexToBytes (ustr ''0x'' @ t) = Inr b"
      unfolding hexToBytes_def Let_def d m using l(2) by (simp add: l(1))
    with assms(2) hexadecimal(1) have "v = base64UrlEncode b" by (auto simp: encodeSignatureValue_def result_iff)
    then show ?thesis using ok same by blast
  next
    case base64url
    show ?thesis
    proof (cases "startsWith (base64UrlEncode b) (ustr ''0x'')")
      case False
      with assms(2) base64url have "v = base64UrlEncode b"
        by (auto simp: encodeSignatureValue_def result_iff base64url_text_encode)
      then show ?thesis using ok same by blast
    next
      case True
      with assms(2) base64url obtain c where c: "hexToBytes (base64UrlEncode b) = Inr c" "v = base64UrlEncode c"
        by (auto simp: encodeSignatureValue_def result_iff base64url_text_encode)
      have len: "length (base64UrlEncode b) = (8 * length b + 5) div 6" by (simp add: base64_groups length_groups)
      from c(1) have even: "(length (base64UrlEncode b) - 2) mod 2 = 0" and lc: "length c = (length (base64UrlEncode b) - 2) div 2"
        by (auto simp: hexToBytes_def Let_def split: if_split_asm)
      obtain d where d: "decodeSignatureValue v suite = Inr d" using ok by (auto simp: is_ok_iff)
      then have "base64UrlEncode d = base64UrlEncode c" using decodeSignatureValue_ok(1) [OF d] c(2) by simp
      then have "d = c" using base64_decode_encode by (metis sum.inject(2))
      then have "length c = length b" using decodeSignatureValue_ok(2,3) [OF d] assms(3) by auto
      with assms(3) len lc even show ?thesis by auto
    qed
  qed
qed

lemma signed_object_verified:
  assumes "createAndSignSignedObject lib input signer = Inr obj" and "scalar_string (s_signerDid signer)"
    and honest: "\<And>digest val. s_signDigest signer digest = Some val \<Longrightarrow>
      \<exists>b. value_spells val b \<and> key_verifies lib (s_suite signer) (s_signerDid signer) digest b"
  shows "\<exists>m. verifySignedObject lib (raw_of (ObjJ obj)) = Inr (obj, m) \<and>
    map_of obj (ustr (m_idField m)) = Some (StrJ (m_id m))"
proof -
  from created_object [OF assms(1,2)] obtain m val v where m: "s_signDigest signer (m_digest m) = Some val"
    "encodeSignatureValue val (s_suite signer) = Inr v" "map_of obj (ustr (m_idField m)) = Some (StrJ (m_id m))"
    "verifySignature lib \<lparr>sig_suite = s_suite signer, sig_signerDid = s_signerDid signer, sig_value = v\<rparr> (m_digest m) = Inr True
      \<Longrightarrow> verifySignedObject lib (raw_of (ObjJ obj)) = Inr (obj, m)" by metis
  from honest [OF m(1)] obtain b where b: "value_spells val b"
    "key_verifies lib (s_suite signer) (s_signerDid signer) (m_digest m) b" by blast
  from b(2) have "s_suite signer = ED25519_JCS_SIGNATURE_SUITE \<and> length b = 64 \<or> s_suite signer = EIP191_JCS_SIGNATURE_SUITE \<and> length b = 65"
    by cases (simp_all add: ED25519_JCS_SIGNATURE_SUITE_def EIP191_JCS_SIGNATURE_SUITE_def)
  from key_verifies_accepted [OF b(2) encoded_value [OF b(1) m(2) this]] m(3,4) show ?thesis by blast
qed

text \<open>C8: an object that createAndSignSignedObject returns verifies: the validators, the identifier
  derived again, the binding of the key and the signature all accept it, for every honest signer -
  one whose answers, as bytes, hexadecimal or base64url text, stand for signatures of the digest
  that the library verifies with the key its DID spells.\<close>

theorem signed_object_verifies:
  assumes "createAndSignSignedObject lib input signer = Inr obj" and "scalar_string (s_signerDid signer)"
    and honest: "\<And>digest val. s_signDigest signer digest = Some val \<Longrightarrow>
      \<exists>b. value_spells val b \<and> key_verifies lib (s_suite signer) (s_signerDid signer) digest b"
  shows "\<exists>m. verifySignedObject lib (raw_of (ObjJ obj)) = Inr (obj, m) \<and>
    map_of obj (ustr (m_idField m)) = Some (StrJ (m_id m))"
  by (rule signed_object_verified [OF assms])

section \<open>What verification guarantees\<close>

text \<open>The digested bytes start with the units of the domain.\<close>

lemma textEncode_unit: "unat u < 128 \<Longrightarrow> textEncode (u # r) = of_nat (unat u) # textEncode r"
proof -
  assume u: "unat u < 128"
  then have "code_points (u # r) = unat u # code_points r" "utf8_of (unat u) = [unat u]"
    by (simp_all add: high_unat low_unat utf8_of_def)
  then show ?thesis by (simp add: textEncode_def del: code_points.simps)
qed

lemma textEncode_ascii:
  "list_all (\<lambda>c. of_char c < (128 :: nat)) s \<Longrightarrow> textEncode (ustr s @ t) = map (\<lambda>c. of_nat (of_char c)) s @ textEncode t"
  by (induction s) (simp_all add: ustr_def textEncode_unit unat_unit_of)

lemma textEncode_domain:
  "list_all (\<lambda>c. of_char c < (128 :: nat)) s \<Longrightarrow>
   digest_input (ustr s) t = map (\<lambda>c. of_nat (of_char c)) s @ 0 # textEncode t"
  by (simp add: digest_input_def textEncode_ascii textEncode_unit) (simp add: textEncode_def)

text \<open>C2: a verified object was signed, by the key its signature names, over the digest its
  identifier spells: its schema and its identifier have one kind, the identifier is the prefix of
  the kind and the base-32 digest of domain, zero byte and canonical text of all members but the
  identifier and the signature; the signature has exactly suite, signer and the base64url text of
  some bytes, a signing key that the object names is the signer, and the library verifies these bytes over
  the digest with the Ed25519 key or the wallet account that the signer's DID spells.\<close>

theorem verified_object_signed:
  assumes "verifySignedObject lib input = Inr (obj, m)"
  shows "\<exists>k body digest fs suite did b.
    map_of obj (ustr ''schema'') = Some (StrJ (d_schema (DESCRIPTORS k))) \<and>
    body = filter (\<lambda>(key, _). key \<noteq> ustr (d_idField (DESCRIPTORS k)) \<and> key \<noteq> ustr ''signature'') obj \<and>
    digest = lib_sha256 lib (textEncode (d_domain (DESCRIPTORS k)) @ 0 # textEncode (serialize (ObjJ body))) \<and>
    map_of obj (ustr (d_idField (DESCRIPTORS k))) = Some (StrJ (d_idPrefix (DESCRIPTORS k) @ base32LowerNoPad digest)) \<and>
    map_of obj (ustr ''signature'') = Some (ObjJ fs) \<and> fst ` set fs = {ustr ''suite'', ustr ''signerDid'', ustr ''value''} \<and>
    map_of fs (ustr ''suite'') = Some (StrJ suite) \<and> map_of fs (ustr ''signerDid'') = Some (StrJ did) \<and>
    map_of fs (ustr ''value'') = Some (StrJ (base64url_text b)) \<and>
    (\<forall>key. map_of obj (ustr ''signingKeyDid'') = Some (StrJ key) \<longrightarrow> did = key) \<and>
    key_verifies lib suite did digest b"
proof -
  from assms obtain k s sig where shape: "validate_shape lib k input True = Inr obj"
    and s: "map_of obj (ustr ''signature'') = Some s" "validateSignature s = Inr sig"
    and binding: "assertSigningKeyBindingForVerify obj sig = Inr ()"
    and m: "materialForUnsigned lib (stripOwnIdAndSignature obj (DESCRIPTORS k)) (DESCRIPTORS k) = Inr m"
    and id: "map_of obj (ustr (d_idField (DESCRIPTORS k))) = Some (StrJ (m_id m))"
    and v: "verifySignature lib sig (m_digest m) = Inr True"
    unfolding verify_iff by blast
  let ?body = "stripOwnIdAndSignature obj (DESCRIPTORS k)"
  have body: "?body = filter (\<lambda>(key, _). key \<noteq> ustr (d_idField (DESCRIPTORS k)) \<and> key \<noteq> ustr ''signature'') obj"
    by (simp add: stripOwnIdAndSignature_def)
  obtain d where dom: "d_domain (DESCRIPTORS k) = ustr d" "list_all (\<lambda>c. of_char c < (128 :: nat)) d"
    by (cases k) (auto simp: POLICY_SCHEMA_def POLICY_STATUS_SCHEMA_def POLICY_ENGINE_RECORD_SCHEMA_def)
  have "digest_input (ustr d) t = textEncode (ustr d) @ 0 # textEncode t" for t
    using textEncode_domain [OF dom(2)] textEncode_ascii [OF dom(2), of "[]"] by (simp add: textEncode_def [of "[]"])
  then have digest: "m_digest m = lib_sha256 lib (textEncode (d_domain (DESCRIPTORS k)) @ 0 # textEncode (serialize (ObjJ ?body)))"
    and mid: "m_id m = d_idPrefix (DESCRIPTORS k) @ base32LowerNoPad (m_digest m)"
    using m dom(1) unfolding material_eq by (simp_all del: json_ok.simps serialize.simps)
  from s(2) obtain fs where fs: "s = ObjJ fs" "fst ` set fs \<subseteq> {ustr ''suite'', ustr ''signerDid'', ustr ''value''}"
      "map_of fs (ustr ''suite'') = Some (StrJ (sig_suite sig))" "map_of fs (ustr ''signerDid'') = Some (StrJ (sig_signerDid sig))"
      "map_of fs (ustr ''value'') = Some (StrJ (sig_value sig))"
    unfolding validateSignature_def by (auto simp: result_iff)
  have keys: "fst ` set fs = {ustr ''suite'', ustr ''signerDid'', ustr ''value''}"
  proof
    have "k \<in> fst ` set fs" if "map_of fs k = Some x" for k x
      using map_of_SomeD [OF that] by force
    with fs(3-5) show "{ustr ''suite'', ustr ''signerDid'', ustr ''value''} \<subseteq> fst ` set fs" by blast
  qed (rule fs(2))
  have key: "\<forall>key. map_of obj (ustr ''signingKeyDid'') = Some (StrJ key) \<longrightarrow> sig_signerDid sig = key"
    using binding by (auto simp: assertSigningKeyBindingForVerify_def hasOwn_def result_iff split: if_split_asm)
  from verifySignature_key [OF v] obtain b where b: "sig_value sig = base64url_text b"
    "key_verifies lib (sig_suite sig) (sig_signerDid sig) (m_digest m) b" by blast
  show ?thesis
    by (rule exI [of _ k], rule exI [of _ ?body], rule exI [of _ "m_digest m"], rule exI [of _ fs], rule exI [of _ "sig_suite sig"],
        rule exI [of _ "sig_signerDid sig"], rule exI [of _ b], intro conjI validate_shape_ok(2) [OF shape] body digest keys key)
      (use fs s(1) id b in \<open>simp_all add: mid\<close>)
qed

text \<open>The bytes of a digest determine the kind and the body.\<close>

lemma domains: "\<exists>s. d_domain (DESCRIPTORS k) = ustr s \<and> list_all (\<lambda>c. of_char c < (128 :: nat) \<and> of_char c \<noteq> (0 :: nat)) s"
  by (cases k) (auto simp: POLICY_SCHEMA_def POLICY_STATUS_SCHEMA_def POLICY_ENGINE_RECORD_SCHEMA_def)

lemma domain_inject: "d_domain (DESCRIPTORS j) = d_domain (DESCRIPTORS k) \<longleftrightarrow> j = k"
  by (cases j; cases k) (simp_all add: POLICY_SCHEMA_def POLICY_STATUS_SCHEMA_def POLICY_ENGINE_RECORD_SCHEMA_def ustr_inject)

lemma zero_separated:
  "a @ 0 # x = b @ 0 # y \<Longrightarrow> 0 \<notin> set a \<Longrightarrow> 0 \<notin> set b \<Longrightarrow> a = b \<and> x = y" for a :: "'a::zero list"
  by (metis splitFirst_Some_iff option.inject prod.inject)

lemma digest_input_inject:
  assumes "scalar_string s" and "scalar_string t"
  shows "digest_input (d_domain (DESCRIPTORS j)) s = digest_input (d_domain (DESCRIPTORS k)) t \<longleftrightarrow> j = k \<and> s = t"
proof
  obtain a b where a: "d_domain (DESCRIPTORS j) = ustr a" "list_all (\<lambda>c. of_char c < (128 :: nat) \<and> of_char c \<noteq> (0 :: nat)) a"
    and b: "d_domain (DESCRIPTORS k) = ustr b" "list_all (\<lambda>c. of_char c < (128 :: nat) \<and> of_char c \<noteq> (0 :: nat)) b"
    using domains by blast
  let ?bytes = "map (\<lambda>c. of_nat (of_char c) :: 8 word)"
  have inj: "?bytes x = ?bytes y \<longleftrightarrow> x = y" for x y
    by (rule inj_map_eq_map) (metis injI nat_of_char_less_256 of_char_eq_iff unat8_of_nat)
  have nz: "0 \<notin> set (?bytes x)" if "list_all (\<lambda>c. of_char c < (128 :: nat) \<and> of_char c \<noteq> (0 :: nat)) x" for x
  proof -
    have "of_nat (of_char c) \<noteq> (0 :: 8 word)" if "of_char c \<noteq> (0 :: nat)" for c
      using unat8_of_nat [OF nat_of_char_less_256, of c] that by (metis unat_0)
    with that show ?thesis by (force simp: list_all_iff)
  qed
  have dom: "digest_input (d_domain (DESCRIPTORS j)) s = ?bytes a @ 0 # textEncode s"
      "digest_input (d_domain (DESCRIPTORS k)) t = ?bytes b @ 0 # textEncode t"
    using a b by (auto simp: list_all_iff intro!: textEncode_domain)
  assume "digest_input (d_domain (DESCRIPTORS j)) s = digest_input (d_domain (DESCRIPTORS k)) t"
  then have "?bytes a = ?bytes b \<and> textEncode s = textEncode t"
    unfolding dom by (rule zero_separated) (use nz a b in blast)+
  then show "j = k \<and> s = t"
    using a(1) b(1) assms by (simp add: inj textEncode_inject flip: domain_inject)
qed simp

text \<open>C33: identifiers of verified objects separate their contents: when two verified objects have
  the same identifier, their digests are equal, and the digests are taken of bytes that agree
  exactly when the objects are of one kind with the same body up to the order of keys. So two
  different objects share an identifier only if SHA-256 collides on two given inputs.\<close>

theorem verified_ids_separate:
  assumes "verifySignedObject lib x = Inr (a, m)" and "verifySignedObject lib y = Inr (b, n)"
    and "m_id m = m_id n" and "\<And>bytes. length (lib_sha256 lib bytes) = 32"
  shows "lib_sha256 lib (digest_input (m_domain m) (m_jcs m)) = lib_sha256 lib (digest_input (m_domain n) (m_jcs n)) \<and>
    (digest_input (m_domain m) (m_jcs m) = digest_input (m_domain n) (m_jcs n) \<longleftrightarrow>
      m_kind m = m_kind n \<and> canon_of (ObjJ (m_unsigned m)) = canon_of (ObjJ (m_unsigned n)))"
proof -
  from assms(1) obtain j where j: "materialForUnsigned lib (stripOwnIdAndSignature a (DESCRIPTORS j)) (DESCRIPTORS j) = Inr m"
    unfolding verify_iff by blast
  from assms(2) obtain k where k: "materialForUnsigned lib (stripOwnIdAndSignature b (DESCRIPTORS k)) (DESCRIPTORS k) = Inr n"
    unfolding verify_iff by blast
  note jk = j [unfolded material_eq] k [unfolded material_eq]
  have ok: "json_ok (ObjJ (m_unsigned m))" "json_ok (ObjJ (m_unsigned n))"
    using jk by (simp_all del: json_ok.simps)
  have f: "m_domain m = d_domain (DESCRIPTORS j)" "m_domain n = d_domain (DESCRIPTORS k)" "m_kind m = j" "m_kind n = k"
      "m_jcs m = serialize (ObjJ (m_unsigned m))" "m_jcs n = serialize (ObjJ (m_unsigned n))"
      "m_id m = d_idPrefix (DESCRIPTORS j) @ base32LowerNoPad (lib_sha256 lib (digest_input (m_domain m) (m_jcs m)))"
      "m_id n = d_idPrefix (DESCRIPTORS k) @ base32LowerNoPad (lib_sha256 lib (digest_input (m_domain n) (m_jcs n)))"
    using jk by (simp_all add: idField_facts del: json_ok.simps serialize.simps DESCRIPTORS.simps)
  have "digest_input (m_domain m) (m_jcs m) = digest_input (m_domain n) (m_jcs n) \<longleftrightarrow>
      m_kind m = m_kind n \<and> canon_of (ObjJ (m_unsigned m)) = canon_of (ObjJ (m_unsigned n))"
    unfolding f(1-6) digest_input_inject [OF scalar_serialize [OF ok(1)] scalar_serialize [OF ok(2)]]
      serialize_inject [OF json_ok_finite [OF ok(1)] json_ok_finite [OF ok(2)]] ..
  moreover have "base32LowerNoPad (lib_sha256 lib (digest_input (m_domain m) (m_jcs m)))
      = base32LowerNoPad (lib_sha256 lib (digest_input (m_domain n) (m_jcs n)))"
  proof -
    have len: "length (base32LowerNoPad (lib_sha256 lib p)) = length (base32LowerNoPad (lib_sha256 lib q))" for p q
      by (simp add: base32_eq base32_groups_def length_groups assms(4))
    show ?thesis
      using assms(3) unfolding f(7,8) by (metis append_eq_append_conv len)
  qed
  ultimately show ?thesis
    by (simp add: base32_inject assms(4))
qed

section \<open>What a policy is signed for\<close>

lemma eachR_iff [result_iff]: "eachR f xs = Inr () \<longleftrightarrow> (\<forall>i < length xs. f i (xs ! i) = Inr ())"
proof -
  have "(\<exists>us. mapR (\<lambda>(i, x). f i x) (zip [0..<length xs] xs) = Inr us) \<longleftrightarrow> (\<forall>i < length xs. is_ok (f i (xs ! i)))"
    unfolding mapR_ok_iff by (auto simp: set_zip) (metis diff_zero length_upt nth_upt add_0)
  then show ?thesis
    by (simp add: eachR_def bindR_Inr_iff is_ok_iff)
qed

lemma eachR_all: "(\<And>i x. x \<in> set xs \<Longrightarrow> f i x = Inr () \<longleftrightarrow> P x) \<Longrightarrow> eachR f xs = Inr () \<longleftrightarrow> (\<forall>x \<in> set xs. P x)"
  unfolding eachR_iff all_set_conv_all_nth by (metis nth_mem)

lemma requiredArray_iff [result_iff]:
  "requiredArray obj key path n = Inr xs \<longleftrightarrow> map_of obj (ustr key) = Some (ArrJ xs) \<and> n \<le> length xs"
  by (auto simp: requiredArray_def result_iff Let_def split: json.split_asm if_split_asm)

lemma check_capability_iff:
  "check_capability accept msg v path = Inr () \<longleftrightarrow>
     (\<exists>fs c. v = ObjJ fs \<and> accept (raw_of v) = Inr c \<and> json_ok v \<and> json_ok (ObjJ (pc_fields c)) \<and>
        serialize v = serialize (ObjJ (pc_fields c)))" (is "?l \<longleftrightarrow> ?r")
proof -
  have jcs: "jcsCanonicalize (raw_of v) = Inr t \<longleftrightarrow> json_ok v \<and> t = serialize v" for v t
    using jcs_of_raw(1,2) [of v t] jcs_of_normalised [of v] by auto
  show ?thesis
  proof
    assume ?l
    then obtain fs where v: "v = ObjJ fs" and "(case accept (raw_of v) of
        Inl (PolicyCapabilityError _ m) \<Rightarrow> Inl (SignedObjectProfileError SchemaInvalid m)
      | Inr canonical \<Rightarrow>
          (case (jcsCanonicalize (raw_of v), jcsCanonicalize (raw_of (ObjJ (pc_fields canonical)))) of
             (Inl (SignedObjectCanonicalizationError m), _) \<Rightarrow> Inl (SignedObjectProfileError SchemaInvalid m)
           | (_, Inl (SignedObjectCanonicalizationError m)) \<Rightarrow> Inl (SignedObjectProfileError SchemaInvalid m)
           | (Inr a, Inr b) \<Rightarrow> throw_if (a \<noteq> b) (schema_error path msg))) = Inr ()"
      by (auto simp: check_capability_def bindR_Inr_iff expectJsonObject_iff simp del: raw_of.simps)
    then obtain c where c: "accept (raw_of v) = Inr c" and "(case (jcsCanonicalize (raw_of v), jcsCanonicalize (raw_of (ObjJ (pc_fields c)))) of
             (Inl (SignedObjectCanonicalizationError m), _) \<Rightarrow> Inl (SignedObjectProfileError SchemaInvalid m)
           | (_, Inl (SignedObjectCanonicalizationError m)) \<Rightarrow> Inl (SignedObjectProfileError SchemaInvalid m)
           | (Inr a, Inr b) \<Rightarrow> throw_if (a \<noteq> b) (schema_error path msg)) = Inr ()"
      by (cases "accept (raw_of v)") (simp_all del: raw_of.simps split: policy_capability_error.split_asm)
    then obtain a where "jcsCanonicalize (raw_of v) = Inr a" "jcsCanonicalize (raw_of (ObjJ (pc_fields c))) = Inr a"
      by (cases "jcsCanonicalize (raw_of v)"; cases "jcsCanonicalize (raw_of (ObjJ (pc_fields c)))")
        (simp_all del: raw_of.simps add: throw_if_Inr_iff split: canonicalization_error.split_asm)
    with v c show ?r unfolding jcs by auto
  next
    assume ?r
    then obtain fs c where v: "v = ObjJ fs" "accept (raw_of v) = Inr c" and ok: "json_ok v" "json_ok (ObjJ (pc_fields c))"
      and eq: "serialize v = serialize (ObjJ (pc_fields c))" by blast
    from jcs_of_normalised [OF ok(1)] jcs_of_normalised [OF ok(2)] v eq show ?l
      by (simp add: check_capability_def expectJsonObject_def del: raw_of.simps serialize.simps)
  qed
qed

text \<open>A policy that was signed has a non-empty permissions ceiling, and each entry is a
  capability the strict validator accepts and returns as it stands (up to the order of keys).\<close>

theorem signed_policy_ceiling:
  assumes "createAndSignSignedObject lib input signer = Inr obj" and "map_of obj (ustr ''schema'') = Some (StrJ POLICY_SCHEMA)"
  shows "\<exists>resource ceiling. map_of obj (ustr ''resource'') = Some (ObjJ resource) \<and>
    map_of resource (ustr ''permissionsCeiling'') = Some (ArrJ ceiling) \<and> ceiling \<noteq> [] \<and>
    (\<forall>entry \<in> set ceiling. \<exists>c. normalizePolicyCapability (lib_nfc lib) (raw_of entry) = Inr c \<and>
       canon_of entry = canon_of (ObjJ (pc_fields c)))"
proof -
  from createD [OF assms(1)] obtain k b0 body i sig where shape: "validate_shape lib k (raw_of (ObjJ b0)) False = Inr body"
    and ceiling: "k = Policy \<Longrightarrow> validatePolicyPermissionsCeilingForSigning lib body = Inr ()"
    and obj: "obj = sign_object body (d_idField (DESCRIPTORS k)) i sig"
    by metis
  have "map_of obj (ustr ''schema'') = map_of body (ustr ''schema'')"
    using idField_facts(1,6) [of k] by (auto simp: obj sign_object_map ustr_inject)
  then have k: "k = Policy"
    using assms(2) validate_shape_ok(2) [OF shape]
    by (cases k) (simp_all add: POLICY_SCHEMA_def POLICY_STATUS_SCHEMA_def POLICY_ENGINE_RECORD_SCHEMA_def ustr_inject)
  from ceiling [OF k] obtain resource cs where r: "map_of body (ustr ''resource'') = Some (ObjJ resource)"
      "map_of resource (ustr ''permissionsCeiling'') = Some (ArrJ cs)" "1 \<le> length cs"
    and each: "\<forall>i < length cs. validatePolicyCapabilityForSigning lib (cs ! i) (item_path (ustr ''$.resource.permissionsCeiling'') i) = Inr ()"
    by (auto simp: validatePolicyPermissionsCeilingForSigning_def result_iff)
  have "\<exists>c. normalizePolicyCapability (lib_nfc lib) (raw_of entry) = Inr c \<and> canon_of entry = canon_of (ObjJ (pc_fields c))"
    if entry: "entry \<in> set cs" for entry
  proof -
    obtain fs c where c: "entry = ObjJ fs" "normalizePolicyCapability (lib_nfc lib) (raw_of entry) = Inr c" "json_ok entry"
        "json_ok (ObjJ (pc_fields c))" "serialize entry = serialize (ObjJ (pc_fields c))"
      using each entry unfolding in_set_conv_nth validatePolicyCapabilityForSigning_def check_capability_iff by blast
    then show ?thesis using serialize_inject json_ok_finite by blast
  qed
  moreover have "map_of obj (ustr ''resource'') = Some (ObjJ resource)"
    using r(1) by (simp add: obj k sign_object_map ustr_inject)
  ultimately show ?thesis using r(2,3) by auto
qed

section \<open>The \<open>when\<close> expressions\<close>

definition nonempty_text :: "json option \<Rightarrow> bool" where
  "nonempty_text v = (case v of Some (StrJ s) \<Rightarrow> s \<noteq> [] | _ \<Rightarrow> False)"

definition only_keys :: "json_object \<Rightarrow> string list \<Rightarrow> bool" where
  "only_keys obj ks \<longleftrightarrow> fst ` set obj \<subseteq> ustr ` set ks"

definition authority_ok :: "json \<Rightarrow> bool" where
  "authority_ok v = (case v of
     ObjJ obj \<Rightarrow> only_keys obj [''profile'', ''acceptedIssuers'', ''allowOwnerAuthorizedIssuer''] \<and>
       (case map_of obj (ustr ''profile'') of None \<Rightarrow> True | s \<Rightarrow> nonempty_text s) \<and>
       (case map_of obj (ustr ''acceptedIssuers'') of None \<Rightarrow> True
        | Some (ArrJ xs) \<Rightarrow> list_all (\<lambda>x. nonempty_text (Some x)) xs | _ \<Rightarrow> False) \<and>
       (case map_of obj (ustr ''allowOwnerAuthorizedIssuer'') of None \<Rightarrow> True | Some (BoolJ _) \<Rightarrow> True | _ \<Rightarrow> False)
   | _ \<Rightarrow> False)"

definition freshness_ok :: "json \<Rightarrow> bool" where
  "freshness_ok v = (case v of
     ObjJ obj \<Rightarrow> only_keys obj [''maxStatusAgeSeconds''] \<and>
       (case map_of obj (ustr ''maxStatusAgeSeconds'') of
          Some (NumJ n) \<Rightarrow> (case safe_integer n of Some i \<Rightarrow> 0 \<le> i | None \<Rightarrow> False)
        | _ \<Rightarrow> False)
   | _ \<Rightarrow> False)"

text \<open>The grammar: conjunctions and disjunctions of at least one expression, a subject, or an
  evidence requirement.\<close>

inductive when_expression :: "json \<Rightarrow> bool" where
  combination: "key \<in> {''allOf'', ''anyOf''} \<Longrightarrow> xs \<noteq> [] \<Longrightarrow> \<forall>x \<in> set xs. when_expression x \<Longrightarrow>
    when_expression (ObjJ [(ustr key, ArrJ xs)])"
| subject: "only_keys obj [''did''] \<Longrightarrow> nonempty_text (map_of obj (ustr ''did'')) \<Longrightarrow>
    when_expression (ObjJ [(ustr ''subject'', ObjJ obj)])"
| evidence: "only_keys obj [''requirementId'', ''verifier'', ''requirements'', ''authority'', ''freshness''] \<Longrightarrow>
    nonempty_text (map_of obj (ustr ''requirementId'')) \<Longrightarrow> nonempty_text (map_of obj (ustr ''verifier'')) \<Longrightarrow>
    map_of obj (ustr ''requirements'') \<noteq> None \<Longrightarrow>
    (\<forall>v. map_of obj (ustr ''authority'') = Some v \<longrightarrow> authority_ok v) \<Longrightarrow>
    (\<forall>v. map_of obj (ustr ''freshness'') = Some v \<longrightarrow> freshness_ok v) \<Longrightarrow>
    when_expression (ObjJ [(ustr ''evidence'', ObjJ obj)])"

inductive_cases when_object: "when_expression (ObjJ fs)"
inductive_simps when_single: "when_expression (ObjJ [(key, v)])"

lemma nonempty_iff: "(\<exists>s. m = Some (StrJ s) \<and> s \<noteq> []) \<longleftrightarrow> nonempty_text m"
  by (auto simp: nonempty_text_def split: option.splits json.splits)

lemma optionalString_iff [result_iff]:
  "optionalString obj key path = Inr () \<longleftrightarrow> (case map_of obj (ustr key) of None \<Rightarrow> True | s \<Rightarrow> nonempty_text s)"
  by (auto simp: optionalString_def hasOwn_def result_iff nonempty_text_def split: option.splits json.splits)

lemma optionalBoolean_iff [result_iff]:
  "optionalBoolean obj key path = Inr () \<longleftrightarrow> (case map_of obj (ustr key) of None \<Rightarrow> True | Some (BoolJ _) \<Rightarrow> True | _ \<Rightarrow> False)"
  by (auto simp: optionalBoolean_def hasOwn_def requiredValue_def split: option.splits json.splits)

lemma requiredInteger_iff [result_iff]:
  "requiredInteger obj key path n = Inr i \<longleftrightarrow>
     (\<exists>x. map_of obj (ustr key) = Some (NumJ x) \<and> safe_integer x = Some i \<and> int n \<le> i)"
  by (auto simp: requiredInteger_def result_iff Let_def split: json.split_asm option.split_asm if_split_asm)

lemma requiredStringArray_iff:
  "requiredStringArray obj key path (\<lambda>_ _. Inr ()) = Inr () \<longleftrightarrow>
     (\<exists>xs. map_of obj (ustr key) = Some (ArrJ xs) \<and> list_all (\<lambda>x. nonempty_text (Some x)) xs)"
proof -
  have "eachR (\<lambda>i v. let itemPath = p i in bindR (requireStringType v itemPath) (\<lambda>s. Inr ())) xs = Inr () \<longleftrightarrow>
      (\<forall>x \<in> set xs. nonempty_text (Some x))" for p xs
    by (rule eachR_all) (auto simp: Let_def result_iff nonempty_text_def split: json.splits)
  then show ?thesis
    by (simp add: requiredStringArray_def bindR_Inr_iff requiredArray_iff list_all_iff)
qed

lemma validate_authority_iff:
  "map_of obj (ustr ''authority'') = Some v \<Longrightarrow> validate_authority obj path = Inr () \<longleftrightarrow> authority_ok v"
  unfolding validate_authority_def Let_def
  by (cases v) (auto simp: requiredValue_def expectJsonObject_def authority_ok_def bindR_Inr_iff assertExactKeys_iff only_keys_def
      optionalString_iff optionalBoolean_iff requiredStringArray_iff hasOwn_def split: option.splits json.splits if_splits)

lemma validate_freshness_iff:
  "map_of obj (ustr ''freshness'') = Some v \<Longrightarrow> validate_freshness obj path = Inr () \<longleftrightarrow> freshness_ok v"
  unfolding validate_freshness_def Let_def
  by (cases v) (auto simp: requiredValue_def expectJsonObject_def freshness_ok_def bindR_Inr_iff assertExactKeys_iff only_keys_def
      requiredInteger_iff split: option.splits json.splits)

lemma validateEvidence_iff:
  "validateEvidenceRequirement v path = Inr () \<longleftrightarrow>
     (\<exists>obj. v = ObjJ obj \<and> only_keys obj [''requirementId'', ''verifier'', ''requirements'', ''authority'', ''freshness''] \<and>
        nonempty_text (map_of obj (ustr ''requirementId'')) \<and> nonempty_text (map_of obj (ustr ''verifier'')) \<and>
        map_of obj (ustr ''requirements'') \<noteq> None \<and>
        (\<forall>v. map_of obj (ustr ''authority'') = Some v \<longrightarrow> authority_ok v) \<and>
        (\<forall>v. map_of obj (ustr ''freshness'') = Some v \<longrightarrow> freshness_ok v))"
proof -
  have a: "(if hasOwn obj (ustr ''authority'') then validate_authority obj path else Inr ()) = Inr () \<longleftrightarrow>
      (\<forall>v. map_of obj (ustr ''authority'') = Some v \<longrightarrow> authority_ok v)" for obj
    by (auto simp: hasOwn_def validate_authority_iff)
  have f: "(if hasOwn obj (ustr ''freshness'') then validate_freshness obj path else Inr ()) = Inr () \<longleftrightarrow>
      (\<forall>v. map_of obj (ustr ''freshness'') = Some v \<longrightarrow> freshness_ok v)" for obj
    by (auto simp: hasOwn_def validate_freshness_iff)
  have unit: "(\<exists>u. m = Inr u \<and> P) \<longleftrightarrow> m = Inr () \<and> P" for m :: "(thrown, unit) result" and P
    by (metis old.unit.exhaust)
  show ?thesis
    unfolding validateEvidenceRequirement_def bindR_Inr_iff expectJsonObject_iff assertExactKeys_iff requiredString_iff requiredValue_iff
      only_keys_def nonempty_iff [symmetric] unit a f by auto
qed

lemma validate_subject_iff:
  "validate_subject v path = Inr () \<longleftrightarrow> (\<exists>obj. v = ObjJ obj \<and> only_keys obj [''did''] \<and> nonempty_text (map_of obj (ustr ''did'')))"
  unfolding validate_subject_def bindR_Inr_iff expectJsonObject_iff assertExactKeys_iff requiredString_iff only_keys_def nonempty_iff [symmetric]
  by auto

text \<open>C38: the validator of when expressions, which always returns, accepts exactly the expressions
  of the grammar: nested allOf and anyOf over at least one expression, subjects with a DID and
  well-formed evidence requirements, whatever the path it reports errors under.\<close>

theorem validateExpression_grammar: "validateExpression v path = Inr () \<longleftrightarrow> when_expression v"
proof (induction v path rule: validateExpression.induct)
  case (1 key v path)
  have strs: "ustr ''allOf'' \<noteq> ustr ''subject''" "ustr ''anyOf'' \<noteq> ustr ''subject''" "ustr ''allOf'' \<noteq> ustr ''evidence''"
      "ustr ''anyOf'' \<noteq> ustr ''evidence''" "ustr ''subject'' \<noteq> ustr ''evidence''"
    by (simp_all add: ustr_inject)
  show ?case
  proof (cases "key = ustr ''allOf'' \<or> key = ustr ''anyOf''")
    case True
    then have w: "when_expression (ObjJ [(key, v)]) \<longleftrightarrow> (\<exists>xs. v = ArrJ xs \<and> xs \<noteq> [] \<and> (\<forall>x \<in> set xs. when_expression x))"
      unfolding when_single using strs by (auto simp: ustr_inject)
    have "eachR (\<lambda>i y. validateExpression y (item_path (path @ ustr ''.'' @ key) i)) (x # xs) = Inr () \<longleftrightarrow>
        (\<forall>y \<in> set (x # xs). when_expression y)" if "v = ArrJ (x # xs)" for x xs
      using 1(1) True that by (intro eachR_all) blast
    with True w show ?thesis
      by (auto simp: neq_Nil_conv split: json.splits list.splits)
  next
    case False
    then show ?thesis
      unfolding when_single using strs
      by (auto simp: validate_subject_iff validateEvidence_iff)
  qed
qed (auto elim: when_object when_expression.cases)


section \<open>A signed policy\<close>

text \<open>What a signer's bytes become, for the suite they fit.\<close>

lemma decode_ed25519:
  assumes "length bytes = 64"
  shows "decodeSignatureValue (base64UrlEncode bytes) ED25519_JCS_SIGNATURE_SUITE = Inr bytes"
proof -
  let ?t = "base64UrlEncode bytes"
  have "length ?t = 86"
    using assms by (simp add: base64_groups length_groups)
  then have t: "?t \<noteq> []" by auto
  have all: "list_all (\<lambda>u. u \<in> set BASE64URL_ALPHABET) ?t"
    using encode_alphabet by (auto simp: list_all_iff)
  have "?t \<in> lang BASE64URL_RE"
    using all t unfolding BASE64URL_RE_def by (cases ?t) (simp_all add: rx_shape del: lang.simps(6))
  moreover have "0x3D \<notin> set BASE64URL_ALPHABET"
    by code_simp
  then have "\<not> hasChar ?t 0x3D"
    using encode_alphabet by auto
  ultimately show ?thesis
    using assms t by (simp add: decodeSignatureValue_def rx_test_iff decode_base64_def base64_decode_encode ED25519_JCS_SIGNATURE_SUITE_def
        EIP191_JCS_SIGNATURE_SUITE_def ustr_inject)
qed

lemma createI:
  assumes shape: "validate_shape lib k (raw_of (ObjJ body)) False = Inr body"
    and ceiling: "k = Policy \<Longrightarrow> validatePolicyPermissionsCeilingForSigning lib body = Inr ()"
    and suite: "s_suite signer = ED25519_JCS_SIGNATURE_SUITE" and did: "s_signerDid signer \<noteq> []"
      "assertSignerDidMatchesSuite lib (s_signerDid signer) (s_suite signer) = Inr ()"
    and binding: "assertSigningKeyBindingForCreate body (s_signerDid signer) = Inr ()"
    and signs: "\<And>digest. \<exists>bytes. s_signDigest signer digest = Some (SignedBytes bytes) \<and> length bytes = 64"
  shows "\<exists>obj. createAndSignSignedObject lib (raw_of (ObjJ body)) signer = Inr obj \<and>
    map_of obj (ustr ''schema'') = Some (StrJ (d_schema (DESCRIPTORS k)))"
proof -
  note ok = validate_shape_ok(2,3) [OF shape] and absent = unsigned_keys [OF shape]
  obtain m where m: "materialForUnsigned lib body (DESCRIPTORS k) = Inr m"
    using ok(2) material_eq by blast
  from signs obtain bytes where bytes: "s_signDigest signer (m_digest m) = Some (SignedBytes bytes)" "length bytes = 64"
    by blast
  let ?v = "base64UrlEncode bytes"
  let ?sig = "\<lparr>sig_suite = s_suite signer, sig_signerDid = s_signerDid signer, sig_value = ?v\<rparr>"
  have "stripOwnIdAndSignature body (DESCRIPTORS k) = body"
    unfolding stripOwnIdAndSignature_def using absent by (intro filter_True) force
  moreover have "normalized (raw_of (ObjJ body)) = Inr (ObjJ body)"
    by (rule normalized_raw_of [OF ok(2)])
  moreover from this have "descriptorForUnsigned (raw_of (ObjJ body)) = Inr (DESCRIPTORS k)"
    using ok(1) by (simp add: descriptorForUnsigned_def expectJsonObject_def requiredString_def requiredValue_def requireStringType_def
        idField_facts del: raw_of.simps)
  moreover have known: "assertSupportedSignatureSuite (s_suite signer) = Inr ()" "s_suite signer \<noteq> []"
    by (simp_all add: suite assertSupportedSignatureSuite_def throw_if_def ED25519_JCS_SIGNATURE_SUITE_def ustr_empty)
  moreover have "encodeSignatureValue (SignedBytes bytes) (s_suite signer) = Inr ?v"
    by (simp add: encodeSignatureValue_def suite decode_ed25519 [OF bytes(2)])
  moreover have "?v \<noteq> []"
    using bytes(2) by (auto simp: base64_groups length_groups simp flip: length_0_conv)
  then have "validateSignature (signature_json ?sig) = Inr ?sig"
    unfolding validateSignature_json using known did(1) by (simp add: suite decode_ed25519 [OF bytes(2)] is_ok_iff)
  ultimately have "createAndSignSignedObject lib (raw_of (ObjJ body)) signer = Inr (sign_object body (d_idField (DESCRIPTORS k)) (m_id m) ?sig)"
    using shape ceiling did binding m bytes(1) by (simp add: createAndSignSignedObject_def expectJsonObject_def validateUnsignedForDescriptor_def
        idField_facts requireStringType_def sign_object_def del: raw_of.simps)
  then show ?thesis
    using ok(1) idField_facts(6) [of k] by (auto simp: sign_object_map ustr_inject)
qed


text \<open>A policy that lets the holder of one DID read one key.\<close>

definition sample_signature :: bytes where "sample_signature = map of_nat [0..<64]"

definition sample_lib :: signing_lib where
  "sample_lib = \<lparr>lib_nfc = (\<lambda>s. s), lib_sha256 = (\<lambda>_. replicate 32 0), lib_bytesToHex = (\<lambda>_. []), lib_isoString = Some,
     lib_base58 = (\<lambda>_. Some (0xED # 0x01 # replicate 32 0)), lib_ed25519_verify = (\<lambda>s _ k. Some (s = sample_signature \<and> k = replicate 32 0)),
     lib_verifyMessage = (\<lambda>_ _ _. None), lib_evm = lower_evm\<rparr>"

definition sample_signer :: signer where
  "sample_signer = \<lparr>s_suite = ED25519_JCS_SIGNATURE_SUITE, s_signerDid = ustr ''did:key:z6'',
     s_signDigest = (\<lambda>_. Some (SignedBytes sample_signature))\<rparr>"

abbreviation sample_entry :: json where
  "sample_entry \<equiv> ObjJ (pc_fields (kv_cap ''a/b'' [''tinycloud.kv/get'']))"

definition sample_resource :: json_object where
  "sample_resource = [(ustr ''resourceType'', StrJ (ustr ''kv'')), (ustr ''resourceId'', StrJ (ustr ''r'')),
     (ustr ''permissionsCeiling'', ArrJ [sample_entry])]"

definition sample_grant :: json_object where
  "sample_grant = [(ustr ''output'', StrJ (ustr ''portable-delegation'')), (ustr ''maxTtlSeconds'', NumJ (Decimal False 6 2)),
     (ustr ''delegationMode'', StrJ (ustr ''terminal'')), (ustr ''revocation'', StrJ (ustr ''refresh_only''))]"

definition sample_policy :: json_object where
  "sample_policy = [(ustr ''schema'', StrJ POLICY_SCHEMA), (ustr ''ownerDid'', StrJ (ustr ''did:key:z6'')),
     (ustr ''signingKeyDid'', StrJ (ustr ''did:key:z6'')), (ustr ''createdAt'', StrJ (ustr ''2026-01-01T00:00:00Z'')),
     (ustr ''resource'', ObjJ sample_resource),
     (ustr ''when'', ObjJ [(ustr ''subject'', ObjJ [(ustr ''did'', StrJ (ustr ''did:key:z7''))])]),
     (ustr ''grant'', ObjJ sample_grant)]"

lemma sample_date: "assertRfc3339 sample_lib (ustr ''2026-01-01T00:00:00Z'') path = Inr ()"
proof -
  have "rx_test RFC3339_RE (ustr ''2026-01-01T00:00:00Z'')" by code_simp
  moreover have "replace_first (ustr ''.000Z'') (ustr ''Z'') (ustr ''2026-01-01T00:00:00Z'') = ustr ''2026-01-01T00:00:00Z''" by code_simp
  ultimately show ?thesis by (simp add: assertRfc3339_def sample_lib_def)
qed

lemma sample_json_ok: "json_ok sample_entry" "json_ok (ObjJ sample_policy)"
  by (simp_all add: pc_fields_def kv_cap_def sample_policy_def sample_resource_def sample_grant_def POLICY_SCHEMA_def
      allowed_key_def ustr_inject scalar_ustr del: scalar_simps)

lemma sample_accepted:
  "normalizePolicyCapability (\<lambda>s. s) (raw_of sample_entry) = Inr (kv_cap ''a/b'' [''tinycloud.kv/get''])"
  "canonicalizePolicyCapability (\<lambda>s. s) (raw_of sample_entry) = Inr (kv_cap ''a/b'' [''tinycloud.kv/get''])"
proof -
  have n: "normalizeJson (raw_of sample_entry) dollar = Inr sample_entry"
    by (rule normalize_raw_of [OF sample_json_ok(1)])
  have space: "validateConcreteSpace (ustr ''s'') = Inr ()" by code_simp
  have steps: "accepted_steps (\<lambda>s. s) options (pc_fields (kv_cap ''a/b'' [''tinycloud.kv/get''])) (ustr ''s'') (ustr ''a/b'')
      (map (\<lambda>a. StrJ (ustr a)) [''tinycloud.kv/get'']) (kv_cap ''a/b'' [''tinycloud.kv/get''])"
    if "validateRawPath (ustr ''a/b'') options = Inr ()" for options
    using that space kv_get by (simp add: accepted_steps_def assertExactKeys_pc_def requiredString_pc_def requiredArray_pc_def
        requiredValue_pc_def is_ok_iff throw_if_def pc_fields_def kv_cap_def CEILING_SERVICES_def ustr_inject ustr_empty caveats_of_def sample_decoded)
  show "normalizePolicyCapability (\<lambda>s. s) (raw_of sample_entry) = Inr (kv_cap ''a/b'' [''tinycloud.kv/get''])"
      "canonicalizePolicyCapability (\<lambda>s. s) (raw_of sample_entry) = Inr (kv_cap ''a/b'' [''tinycloud.kv/get''])"
    unfolding normalizePolicyCapability_def canonicalizePolicyCapability_def
    by (rule normalizeI [OF n steps [OF sample_paths(7)]], rule normalizeI [OF n steps [OF sample_paths(2)]])
qed

lemma sample_capability:
  "validatePolicyCapability sample_lib sample_entry path = Inr ()"
  "validatePolicyCapabilityForSigning sample_lib sample_entry path = Inr ()"
proof -
  have nfc: "lib_nfc sample_lib = (\<lambda>s. s)" by (simp add: sample_lib_def)
  show "validatePolicyCapability sample_lib sample_entry path = Inr ()" "validatePolicyCapabilityForSigning sample_lib sample_entry path = Inr ()"
    unfolding validatePolicyCapability_def validatePolicyCapabilityForSigning_def check_capability_iff nfc
    using sample_accepted sample_json_ok(1) by blast+
qed


lemma sample_shape: "validate_shape sample_lib Policy (raw_of (ObjJ sample_policy)) False = Inr sample_policy"
proof -
  note readers = requiredString_def optionalDateString_def requiredDateString_def requiredValue_def requireStringType_def requiredArray_def
    requiredInteger_def hasOwn_def expectJsonObject_def expectConst_def expectOneOf_def eachR_def throw_if_def Let_def
  have resource: "validatePolicyResource sample_lib (ObjJ sample_resource) path = Inr ()" for path
    by (simp add: validatePolicyResource_def readers assertExactKeys_iff sample_resource_def ustr_inject ustr_empty sample_capability assertExactKeys_def)
  have condition: "validateExpression (ObjJ [(ustr ''subject'', ObjJ [(ustr ''did'', StrJ (ustr ''did:key:z7''))])]) path = Inr ()" for path
    by (simp add: validate_subject_def readers assertExactKeys_def ustr_inject ustr_empty)
  have "dec_of_nat 6 = ''6''" by code_simp
  then have "safe_integer (Decimal False 6 2) = Some 60" by simp
  then have grant: "validateGrant (ObjJ sample_grant) path = Inr ()" for path
    by (simp add: validateGrant_def readers assertExactKeys_def sample_grant_def ustr_inject ustr_empty del: safe_integer.simps)
  have "policy_members sample_lib sample_policy = Inr ()"
    by (simp add: policy_members_def readers sample_policy_def ustr_inject ustr_empty sample_date resource condition grant del: validateExpression.simps)
  then show ?thesis
    unfolding validate_shape.simps validatePolicyShape_def shape_frame_iff
    using normalize_raw_of [OF sample_json_ok(2), of dollar]
    by (simp add: sample_policy_def POLICY_SCHEMA_def ustr_inject ustr_empty)
qed

lemma startsWith_ustr: "startsWith (ustr s) (ustr p) \<longleftrightarrow> startsWith s p"
  using ustr_prefix [of p "[]" s] by (simp add: ustr_def)

lemma drop_ustr: "drop n (ustr s) = ustr (drop n s)"
  by (simp add: ustr_def drop_map)

lemma sample_created:
  "\<exists>obj. createAndSignSignedObject sample_lib (raw_of (ObjJ sample_policy)) sample_signer = Inr obj \<and>
     map_of obj (ustr ''schema'') = Some (StrJ POLICY_SCHEMA)"
proof -
  have "validatePolicyPermissionsCeilingForSigning sample_lib sample_policy = Inr ()"
    by (simp add: validatePolicyPermissionsCeilingForSigning_def requiredValue_def expectJsonObject_def requiredArray_def eachR_def Let_def
        sample_policy_def sample_resource_def ustr_inject sample_capability)
  moreover have "assertSignerDidMatchesSuite sample_lib (s_signerDid sample_signer) (s_suite sample_signer) = Inr ()"
    by (simp add: assertSignerDidMatchesSuite_def ed25519PublicKeyFromDidKey_def sample_signer_def sample_lib_def Let_def startsWith_ustr drop_ustr)
  moreover have "assertSigningKeyBindingForCreate sample_policy (s_signerDid sample_signer) = Inr ()"
    by (simp add: assertSigningKeyBindingForCreate_def requiredString_def requiredValue_def requireStringType_def throw_if_def
        sample_policy_def sample_signer_def hasOwn_def ustr_inject ustr_empty)
  ultimately show ?thesis
    using createI [OF sample_shape, of sample_signer] by (simp add: sample_signer_def ustr_empty sample_signature_def)
qed

lemma sample_scalar: "scalar_string (s_signerDid sample_signer)"
  by (simp add: sample_signer_def scalar_ustr del: scalar_simps)

lemma sample_honest:
  assumes "s_signDigest sample_signer digest = Some val"
  shows "\<exists>b. value_spells val b \<and> key_verifies sample_lib (s_suite sample_signer) (s_signerDid sample_signer) digest b"
proof -
  have did: "ustr ''did:key:z6'' = ustr ''did:key:z'' @ ustr ''6''" by (simp add: ustr_def)
  have "key_verifies sample_lib (s_suite sample_signer) (s_signerDid sample_signer) digest sample_signature"
    unfolding sample_signer_def signer.simps ED25519_JCS_SIGNATURE_SUITE_def did
    by (rule key_verifies.ed25519 [where key = "replicate 32 0"]) (simp_all add: sample_lib_def sample_signature_def)
  moreover have "val = SignedBytes sample_signature" using assms by (simp add: sample_signer_def)
  ultimately show ?thesis by (blast intro: value_spells.raw)
qed

lemma signed_object_verifies_witness:
  "\<exists>obj m. createAndSignSignedObject sample_lib (raw_of (ObjJ sample_policy)) sample_signer = Inr obj \<and>
     verifySignedObject sample_lib (raw_of (ObjJ obj)) = Inr (obj, m)"
proof -
  obtain obj where obj: "createAndSignSignedObject sample_lib (raw_of (ObjJ sample_policy)) sample_signer = Inr obj"
    using sample_created by blast
  have "\<exists>m. verifySignedObject sample_lib (raw_of (ObjJ obj)) = Inr (obj, m) \<and> map_of obj (ustr (m_idField m)) = Some (StrJ (m_id m))"
    by (rule signed_object_verifies [OF obj sample_scalar]) (rule sample_honest)
  with obj show ?thesis by blast
qed

lemma sample_verified:
  "\<exists>obj m. verifySignedObject sample_lib (raw_of (ObjJ obj)) = Inr (obj, m)"
  using signed_object_verified sample_created sample_honest sample_scalar by blast

lemma signed_policy_ceiling_witness:
  "\<exists>obj resource ceiling. createAndSignSignedObject sample_lib (raw_of (ObjJ sample_policy)) sample_signer = Inr obj \<and>
     map_of obj (ustr ''resource'') = Some (ObjJ resource) \<and> map_of resource (ustr ''permissionsCeiling'') = Some (ArrJ ceiling) \<and> ceiling \<noteq> []"
proof -
  obtain obj where "createAndSignSignedObject sample_lib (raw_of (ObjJ sample_policy)) sample_signer = Inr obj"
      "map_of obj (ustr ''schema'') = Some (StrJ POLICY_SCHEMA)"
    using sample_created by blast
  from signed_policy_ceiling [OF this] this(1) show ?thesis by blast
qed

lemma verified_object_signed_witness:
  "\<exists>obj m did b. verifySignedObject sample_lib (raw_of (ObjJ obj)) = Inr (obj, m) \<and>
     key_verifies sample_lib (ustr ''eddsa-ed25519-sha256-jcs-v1'') did (replicate 32 0) b"
proof -
  obtain obj m where obj: "verifySignedObject sample_lib (raw_of (ObjJ obj)) = Inr (obj, m)"
    using sample_verified by blast
  obtain suite did digest b where "key_verifies sample_lib suite did digest b" "digest = replicate 32 0"
    using verified_object_signed [OF obj] by (auto simp: sample_lib_def)
  then have "key_verifies sample_lib (ustr ''eddsa-ed25519-sha256-jcs-v1'') did (replicate 32 0) b"
    by (cases rule: key_verifies.cases) (auto simp: sample_lib_def intro: key_verifies.ed25519 [simplified])
  with obj show ?thesis by blast
qed

lemma verified_ids_separate_witness:
  "\<exists>obj m. verifySignedObject sample_lib (raw_of (ObjJ obj)) = Inr (obj, m) \<and>
     (lib_sha256 sample_lib (digest_input (m_domain m) (m_jcs m)) = lib_sha256 sample_lib (digest_input (m_domain m) (m_jcs m)) \<and>
     (digest_input (m_domain m) (m_jcs m) = digest_input (m_domain m) (m_jcs m) \<longleftrightarrow>
      m_kind m = m_kind m \<and> canon_of (ObjJ (m_unsigned m)) = canon_of (ObjJ (m_unsigned m))))"
proof -
  obtain obj m where obj: "verifySignedObject sample_lib (raw_of (ObjJ obj)) = Inr (obj, m)"
    using sample_verified by blast
  have "length (lib_sha256 sample_lib bytes) = 32" for bytes
    by (simp add: sample_lib_def)
  from verified_ids_separate [OF obj obj refl this] obj show ?thesis by blast
qed

end
