(* ===== verification/StrictJson.thy ===== *)
theory StrictJson
  imports PolicyCapability
begin

text \<open>
  The strict JSON reader of \<^verbatim>\<open>packages/sdk-core/src/registry-verdict.ts\<close> (\<open>parseStrictJson\<close>):
  RFC 8259 without duplicate keys, fractions, exponents, unpaired surrogate escapes or nesting
  deeper than 32. The reader's index into the text is the rest of the text, and the error
  it throws, whose message only says where it stopped, is \<open>None\<close>.

  The reader consumes input with every value (\<open>rest_shorter\<close>), so its loops end, and it
  accepts exactly the texts of a grammar, with the value the grammar gives them
  (\<open>parseStrictJson_grammar\<close>).
\<close>

section \<open>Values\<close>

text \<open>A number is kept as its text.\<close>

datatype strict_json =
    TextS ustring
  | BoolS bool
  | NullS
  | IntegerS ustring
  | ArrayS "strict_json list"
  | MapS "(ustring \<times> strict_json) list"

definition MAX_JSON_DEPTH :: nat where "MAX_JSON_DEPTH = 32"

definition JSON_SIMPLE_ESCAPES :: "(16 word \<times> 16 word) list" where
  "JSON_SIMPLE_ESCAPES =
     [(0x22, 0x22), (0x5C, 0x5C), (0x2F, 0x2F), (0x62, 0x08), (0x66, 0x0C), (0x6E, 0x0A), (0x72, 0x0D), (0x74, 0x09)]"

definition json_space :: "16 word \<Rightarrow> bool" where
  "json_space u \<longleftrightarrow> u = 0x20 \<or> u = 0x09 \<or> u = 0x0A \<or> u = 0x0D"

section \<open>The reader\<close>

definition skipWhitespace :: "ustring \<Rightarrow> ustring" where
  "skipWhitespace text = dropWhile json_space text"

fun readHex4 :: "ustring \<Rightarrow> (16 word \<times> ustring) option" where
  "readHex4 (a # b # c # d # r) =
     (if hex_unit a \<and> hex_unit b \<and> hex_unit c \<and> hex_unit d
      then Some (16 * (16 * (16 * hex_unit_value a + hex_unit_value b) + hex_unit_value c) + hex_unit_value d, r)
      else None)"
| "readHex4 _ = None"

lemma readHex4_length: "readHex4 t = Some (u, r) \<Longrightarrow> length t = length r + 4"
  by (cases t rule: readHex4.cases) (auto split: if_split_asm)

definition read_more :: "ustring \<Rightarrow> (ustring \<times> ustring) option \<Rightarrow> (ustring \<times> ustring) option" where
  "read_more s m = map_option (\<lambda>(out, rest). (s @ out, rest)) m"

text \<open>The loop of \<open>parseString\<close>, after the opening quote.\<close>

function (sequential) parseString :: "ustring \<Rightarrow> (ustring \<times> ustring) option" where
  "parseString [] = None"
| "parseString (code # text) =
     (if code = 0x22 then Some ([], text)
      else if code < 0x20 then None
      else if code = 0x5C then
        (case text of
           [] \<Rightarrow> None
         | escape # text' \<Rightarrow>
             (case map_of JSON_SIMPLE_ESCAPES escape of
                Some c \<Rightarrow> read_more [c] (parseString text')
              | None \<Rightarrow>
                  if escape \<noteq> 0x75 then None
                  else (case readHex4 text' of
                          None \<Rightarrow> None
                        | Some (unit, r) \<Rightarrow>
                            if high unit then
                              (if startsWith r [0x5C, 0x75] then
                                 (case readHex4 (drop 2 r) of
                                    None \<Rightarrow> None
                                  | Some (lo, r') \<Rightarrow>
                                      if \<not> low lo then None else read_more [unit, lo] (parseString r'))
                               else None)
                            else if low unit then None
                            else read_more [unit] (parseString r))))
      else read_more [code] (parseString text))"
  by pat_completeness auto

termination parseString
  by (relation "measure length") (auto dest!: readHex4_length)

text \<open>The sticky pattern \<^verbatim>\<open>/-?(0|[1-9][0-9]*)(\.[0-9]+)?([eE][+-]?[0-9]+)?/y\<close>: the integer
  part, and whether a fraction or an exponent follows.\<close>

definition integer_part :: "ustring \<Rightarrow> (ustring \<times> ustring) option" where
  "integer_part text =
     (let sign = (if startsWith text [0x2D] then [0x2D] else []); digits = drop (length sign) text
      in case digits of
           [] \<Rightarrow> None
         | d # ds \<Rightarrow>
             if d = 0x30 then Some (sign @ [d], ds)
             else if unit_digit d then Some (sign @ d # takeWhile unit_digit ds, dropWhile unit_digit ds)
             else None)"

definition has_fraction :: "ustring \<Rightarrow> bool" where
  "has_fraction rest = (case rest of dot # d # _ \<Rightarrow> dot = 0x2E \<and> unit_digit d | _ \<Rightarrow> False)"

definition has_exponent :: "ustring \<Rightarrow> bool" where
  "has_exponent rest =
     (case rest of
        e # r \<Rightarrow> (e = 0x65 \<or> e = 0x45) \<and>
          (case (if startsWith r [0x2B] \<or> startsWith r [0x2D] then drop 1 r else r) of d # _ \<Rightarrow> unit_digit d | [] \<Rightarrow> False)
      | [] \<Rightarrow> False)"

definition parse_number :: "ustring \<Rightarrow> (strict_json \<times> ustring) option" where
  "parse_number text =
     (case integer_part text of
        None \<Rightarrow> None
      | Some (lexeme, rest) \<Rightarrow> if has_fraction rest \<or> has_exponent rest then None else Some (IntegerS lexeme, rest))"

text \<open>The strings, literals and numbers.\<close>

definition parse_scalar :: "ustring \<Rightarrow> (strict_json \<times> ustring) option" where
  "parse_scalar text =
     (if startsWith text [0x22] then map_option (map_prod TextS (\<lambda>r. r)) (parseString (drop 1 text))
      else if startsWith text (ustr ''true'') then Some (BoolS True, drop 4 text)
      else if startsWith text (ustr ''false'') then Some (BoolS False, drop 5 text)
      else if startsWith text (ustr ''null'') then Some (NullS, drop 4 text)
      else parse_number text)"

text \<open>The loops over elements and members collect into \<open>vs\<close> and \<open>ms\<close>.\<close>

function (sequential) parseValue :: "nat \<Rightarrow> ustring \<Rightarrow> (strict_json \<times> ustring) option"
  and parse_elements :: "nat \<Rightarrow> strict_json list \<Rightarrow> ustring \<Rightarrow> (strict_json \<times> ustring) option"
  and parse_members :: "nat \<Rightarrow> (ustring \<times> strict_json) list \<Rightarrow> ustring \<Rightarrow> (strict_json \<times> ustring) option" where
  "parseValue depth input =
     (let text = skipWhitespace input
      in if startsWith text [0x7B] \<or> startsWith text [0x5B] then
           (if MAX_JSON_DEPTH \<le> depth then None
            else let r = skipWhitespace (drop 1 text)
                 in if startsWith text [0x7B]
                    then (if startsWith r [0x7D] then Some (MapS [], drop 1 r) else parse_members depth [] r)
                    else (if startsWith r [0x5D] then Some (ArrayS [], drop 1 r) else parse_elements depth [] r))
         else parse_scalar text)"
| "parse_elements depth vs text =
     (case parseValue (depth + 1) text of
        None \<Rightarrow> None
      | Some (v, r) \<Rightarrow>
          (let r' = skipWhitespace r
           in if startsWith r' [0x2C] then parse_elements depth (vs @ [v]) (drop 1 r')
              else if startsWith r' [0x5D] then Some (ArrayS (vs @ [v]), drop 1 r')
              else None))"
| "parse_members depth ms input =
     (let text = skipWhitespace input
      in if \<not> startsWith text [0x22] then None
         else case parseString (drop 1 text) of
                None \<Rightarrow> None
              | Some (key, r) \<Rightarrow>
                  if key \<in> fst ` set ms then None
                  else (let r' = skipWhitespace r
                        in if \<not> startsWith r' [0x3A] then None
                           else case parseValue (depth + 1) (drop 1 r') of
                                  None \<Rightarrow> None
                                | Some (v, s) \<Rightarrow>
                                    (let s' = skipWhitespace s
                                     in if startsWith s' [0x2C] then parse_members depth (ms @ [(key, v)]) (drop 1 s')
                                        else if startsWith s' [0x7D] then Some (MapS (ms @ [(key, v)]), drop 1 s')
                                        else None)))"
  by pat_completeness auto

section \<open>Termination\<close>

lemma skip_length: "length (skipWhitespace t) \<le> length t"
  by (simp add: skipWhitespace_def length_dropWhile_le)

lemma parseString_length: "parseString t = Some (s, r) \<Longrightarrow> length r < length t"
proof (induction t arbitrary: s r rule: parseString.induct)
  case (2 code us)
  then show ?case
    by (auto simp: read_more_def split: if_split_asm list.split_asm option.split_asm)
      (fastforce dest: readHex4_length)+
qed simp

lemma integer_part_length: "integer_part t = Some (l, r) \<Longrightarrow> length r < length t"
proof -
  have d: "length (dropWhile unit_digit ds) < Suc (length ds)" for ds
    using length_dropWhile_le [of unit_digit ds] by simp
  assume "integer_part t = Some (l, r)"
  then show ?thesis
    by (cases t; cases "drop 1 t") (auto simp: integer_part_def Let_def d less_SucI split: if_split_asm list.split_asm)
qed

lemma parse_scalar_length: "parse_scalar t = Some (v, r) \<Longrightarrow> length r < length t"
proof -
  have lit: "startsWith t p \<Longrightarrow> length p = n \<Longrightarrow> 0 < n \<Longrightarrow> length (drop n t) < length t" for p n
    by (cases t) (auto dest: prefix_length_le)
  assume "parse_scalar t = Some (v, r)"
  then show ?thesis
    by (cases t) (auto simp: parse_scalar_def parse_number_def ustr_def intro!: lit [of _ 4, simplified] lit [of _ 5, simplified]
        dest!: parseString_length integer_part_length split: if_split_asm option.split_asm)
qed

lemma startsWith_unit: "startsWith t [u] \<longleftrightarrow> (\<exists>r. t = u # r)"
  by (cases t) auto

lemma skip_startsWith: "startsWith (skipWhitespace t) p \<Longrightarrow> length p \<le> length t"
  by (meson le_trans prefix_length_le skip_length)

text \<open>Each call that returns has read something, on the domain of the functions first.\<close>

lemma rest_shorter:
  "parseValue_parse_elements_parse_members_dom (Inl (depth, input)) \<Longrightarrow>
     \<forall>v r. parseValue depth input = Some (v, r) \<longrightarrow> length r < length input"
  "parseValue_parse_elements_parse_members_dom (Inr (Inl (depth, vs, t))) \<Longrightarrow>
     \<forall>v r. parse_elements depth vs t = Some (v, r) \<longrightarrow> length r < length t"
  "parseValue_parse_elements_parse_members_dom (Inr (Inr (depth, ms, input))) \<Longrightarrow>
     \<forall>v r. parse_members depth ms input = Some (v, r) \<longrightarrow> length r < length input"
proof (induction depth input and depth vs t and depth ms input rule: parseValue_parse_elements_parse_members.pinduct)
  case (1 depth input)
  have s: "length (skipWhitespace (drop 1 (skipWhitespace input))) \<le> length (skipWhitespace input) - 1"
    using skip_length [of "drop 1 (skipWhitespace input)"] by simp
  show ?case
  proof (intro allI impI)
    fix v r assume r: "parseValue depth input = Some (v, r)"
    show "length r < length input"
    proof (cases "startsWith (skipWhitespace input) [0x7B] \<or> startsWith (skipWhitespace input) [0x5B]")
      case True
      let ?t = "skipWhitespace input" and ?r = "skipWhitespace (drop 1 (skipWhitespace input))"
      have nd: "\<not> MAX_JSON_DEPTH \<le> depth" using r True by (simp add: parseValue.psimps [OF 1(1)] Let_def split: if_split_asm)
      have "length r \<le> length ?r"
      proof (cases "startsWith ?t [0x7B]")
        case obj: True
        show ?thesis
        proof (cases "startsWith ?r [0x7D]")
          case False
          then have "parse_members depth [] ?r = Some (v, r)"
            using r True nd obj by (simp add: parseValue.psimps [OF 1(1)] Let_def)
          with 1(2) [OF refl True nd refl obj False] show ?thesis by simp
        qed (use r True nd obj in \<open>auto simp: parseValue.psimps [OF 1(1)] Let_def\<close>)
      next
        case arr: False
        show ?thesis
        proof (cases "startsWith ?r [0x5D]")
          case False
          then have "parse_elements depth [] ?r = Some (v, r)"
            using r True nd arr by (simp add: parseValue.psimps [OF 1(1)] Let_def)
          with 1(3) [OF refl True nd refl arr False] show ?thesis by simp
        qed (use r True nd arr in \<open>auto simp: parseValue.psimps [OF 1(1)] Let_def\<close>)
      qed
      moreover have "0 < length ?t" using True by (auto dest: prefix_length_le)
      ultimately show ?thesis using s skip_length [of input] by linarith
    next
      case False
      with r 1(1) have "parse_scalar (skipWhitespace input) = Some (v, r)"
        by (simp add: parseValue.psimps Let_def)
      with skip_length [of input] show ?thesis
        by (fastforce dest: parse_scalar_length)
    qed
  qed
next
  case (2 depth vs t)
  show ?case
  proof (intro allI impI)
    fix v r assume r: "parse_elements depth vs t = Some (v, r)"
    from r 2(1) obtain w s where s: "parseValue (depth + 1) t = Some (w, s)"
      by (auto simp: parse_elements.psimps split: option.split_asm)
    then have "length s < length t" using 2(2) by simp
    moreover have "length r \<le> length s"
    proof (cases "startsWith (skipWhitespace s) [0x2C]")
      case True
      with r s have "parse_elements depth (vs @ [w]) (drop 1 (skipWhitespace s)) = Some (v, r)"
        by (simp add: parse_elements.psimps [OF 2(1)] Let_def)
      with 2(3) [OF s refl refl True] skip_length [of s] show ?thesis by simp
    qed (use r s skip_length [of s] in \<open>auto simp: parse_elements.psimps [OF 2(1)] Let_def split: if_split_asm\<close>)
    ultimately show "length r < length t" by simp
  qed
next
  case (3 depth ms input)
  show ?case
  proof (intro allI impI)
    fix v r assume r: "parse_members depth ms input = Some (v, r)"
    from r 3(1) obtain key a w s where a: "parseString (drop 1 (skipWhitespace input)) = Some (key, a)"
      and key: "key \<notin> fst ` set ms" and q: "startsWith (skipWhitespace input) [0x22]" "startsWith (skipWhitespace a) [0x3A]"
      and s: "parseValue (depth + 1) (drop 1 (skipWhitespace a)) = Some (w, s)"
      by (auto simp: parse_members.psimps Let_def split: option.split_asm if_split_asm)
    have "length s < length (drop 1 (skipWhitespace a))"
      using 3(2) [OF refl _ a refl key refl] q s by blast
    moreover have "length a < length input"
      using parseString_length [OF a] skip_length [of input] by simp
    ultimately have "length s < length input"
      using skip_length [of a] by simp
    moreover have "length r \<le> length s"
    proof (cases "startsWith (skipWhitespace s) [0x2C]")
      case True
      with r a key q s have "parse_members depth (ms @ [(key, w)]) (drop 1 (skipWhitespace s)) = Some (v, r)"
        by (simp add: parse_members.psimps [OF 3(1)] Let_def)
      with 3(3) [OF refl _ a refl key refl _ s refl refl True] q skip_length [of s] show ?thesis by simp
    qed (use r a key q s skip_length [of s] in \<open>auto simp: parse_members.psimps [OF 3(1)] Let_def split: if_split_asm\<close>)
    ultimately show "length r < length input" by simp
  qed
qed


termination parseValue
proof (relation "measure (\<lambda>x. case x of Inl (_, t) \<Rightarrow> 2 * length t | Inr (Inl (_, _, t)) \<Rightarrow> 2 * length t + 1
    | Inr (Inr (_, _, t)) \<Rightarrow> 2 * length t + 1)", goal_cases)
  case 1
  show ?case by simp
next
  case (2 depth input t r)
  then have "0 < length t" "length r \<le> length t - 1" "length t \<le> length input"
    using skip_length [of "drop 1 t"] skip_length [of input] by (auto dest: prefix_length_le)
  then have "length r < length input" by linarith
  then show ?case by simp
next
  case (3 depth input t r)
  then have "0 < length t" "length r \<le> length t - 1" "length t \<le> length input"
    using skip_length [of "drop 1 t"] skip_length [of input] by (auto dest: prefix_length_le)
  then have "length r < length input" by linarith
  then show ?case by simp
next
  case (4 depth vs t)
  show ?case by simp
next
  case (5 depth vs t p v r r')
  then have "length r < length t" using rest_shorter(1) by blast
  with 5 skip_length [of r] show ?case by simp
next
  case (6 depth ms input t p key r r')
  then have "length r < length t" "length t \<le> length input"
    using parseString_length [of "drop 1 t" key r] skip_length [of input] by simp_all
  with 6 skip_length [of r] show ?case by simp
next
  case (7 depth ms input t p key r r' q v s s')
  then have "length s < length (drop 1 r')" using rest_shorter(1) by blast
  moreover have "length r < length t" "length t \<le> length input"
    using 7 parseString_length [of "drop 1 t" key r] skip_length [of input] by simp_all
  ultimately show ?case
    using 7 skip_length [of r] skip_length [of s] by simp
qed

declare parseValue.simps [simp del] parse_elements.simps [simp del] parse_members.simps [simp del]

definition parseStrictJson :: "ustring \<Rightarrow> strict_json option" where
  "parseStrictJson text =
     (case parseValue 0 text of
        None \<Rightarrow> None
      | Some (v, r) \<Rightarrow> if skipWhitespace r = [] then Some v else None)"

section \<open>The grammar\<close>

inductive string_text :: "ustring \<Rightarrow> ustring \<Rightarrow> bool" where
  end_of: "string_text [] []"
| plain: "0x20 \<le> u \<Longrightarrow> u \<noteq> 0x22 \<Longrightarrow> u \<noteq> 0x5C \<Longrightarrow> string_text s t \<Longrightarrow> string_text (u # s) (u # t)"
| simple: "(e, c) \<in> set JSON_SIMPLE_ESCAPES \<Longrightarrow> string_text s t \<Longrightarrow> string_text (c # s) (0x5C # e # t)"
| unit: "readHex4 h = Some (u, []) \<Longrightarrow> \<not> high u \<Longrightarrow> \<not> low u \<Longrightarrow> string_text s t \<Longrightarrow>
    string_text (u # s) (0x5C # 0x75 # h @ t)"
| pair: "readHex4 h = Some (u, []) \<Longrightarrow> high u \<Longrightarrow> readHex4 l = Some (v, []) \<Longrightarrow> low v \<Longrightarrow> string_text s t \<Longrightarrow>
    string_text (u # v # s) (0x5C # 0x75 # h @ 0x5C # 0x75 # l @ t)"

definition quoted :: "ustring \<Rightarrow> ustring \<Rightarrow> bool" where
  "quoted s t \<longleftrightarrow> (\<exists>b. string_text s b \<and> t = 0x22 # b @ [0x22])"

definition spaces :: "ustring \<Rightarrow> bool" where "spaces w \<longleftrightarrow> list_all json_space w"

definition padded :: "ustring \<Rightarrow> ustring \<Rightarrow> bool" where
  "padded t p \<longleftrightarrow> (\<exists>w w'. spaces w \<and> spaces w' \<and> p = w @ t @ w')"

definition integer_lexeme :: "ustring \<Rightarrow> bool" where
  "integer_lexeme l \<longleftrightarrow> (\<exists>sign digits. l = sign @ digits \<and> (sign = [] \<or> sign = [0x2D]) \<and>
     digits \<noteq> [] \<and> list_all unit_digit digits \<and> (hd digits = 0x30 \<longrightarrow> digits = [0x30]))"

text \<open>A value at a depth and its text; a list of elements or members is the list of values with
  the texts they have.\<close>

inductive json_text :: "nat \<Rightarrow> strict_json \<Rightarrow> ustring \<Rightarrow> bool" where
  text_value: "quoted s t \<Longrightarrow> json_text d (TextS s) t"
| true_value: "json_text d (BoolS True) (ustr ''true'')"
| false_value: "json_text d (BoolS False) (ustr ''false'')"
| null_value: "json_text d NullS (ustr ''null'')"
| integer_value: "integer_lexeme l \<Longrightarrow> json_text d (IntegerS l) l"
| empty_array: "d < MAX_JSON_DEPTH \<Longrightarrow> spaces w \<Longrightarrow> json_text d (ArrayS []) (0x5B # w @ [0x5D])"
| array: "d < MAX_JSON_DEPTH \<Longrightarrow> items \<noteq> [] \<Longrightarrow>
    \<forall>v p. (v, p) \<in> set items \<longrightarrow> (\<exists>t. json_text (Suc d) v t \<and> padded t p) \<Longrightarrow>
    json_text d (ArrayS (map fst items)) (0x5B # joinWith [0x2C] (map snd items) @ [0x5D])"
| empty_object: "d < MAX_JSON_DEPTH \<Longrightarrow> spaces w \<Longrightarrow> json_text d (MapS []) (0x7B # w @ [0x7D])"
| object: "d < MAX_JSON_DEPTH \<Longrightarrow> items \<noteq> [] \<Longrightarrow> distinct (map (fst \<circ> fst) items) \<Longrightarrow>
    \<forall>k v p. ((k, v), p) \<in> set items \<longrightarrow>
      (\<exists>q q' t t'. quoted k q \<and> padded q q' \<and> json_text (Suc d) v t \<and> padded t t' \<and> p = q' @ 0x3A # t') \<Longrightarrow>
    json_text d (MapS (map fst items)) (0x7B # joinWith [0x2C] (map snd items) @ [0x7D])"


section \<open>What is read is in the grammar\<close>

lemma skip_split: "\<exists>w. spaces w \<and> t = w @ skipWhitespace t"
  unfolding spaces_def skipWhitespace_def
  by (metis list_all_iff set_takeWhileD takeWhile_dropWhile_id)

lemma skip_spaces: "spaces w \<Longrightarrow> skipWhitespace (w @ t) = skipWhitespace t"
  by (simp add: skipWhitespace_def spaces_def list_all_iff dropWhile_append2)

lemma skip_unit: "\<not> json_space u \<Longrightarrow> skipWhitespace (u # t) = u # t"
  by (simp add: skipWhitespace_def)

lemma readHex4_split: "readHex4 t = Some (u, r) \<Longrightarrow> \<exists>h. t = h @ r \<and> readHex4 h = Some (u, [])"
  by (cases t rule: readHex4.cases) (auto split: if_split_asm)

lemma readHex4_append: "readHex4 h = Some (u, []) \<Longrightarrow> readHex4 (h @ r) = Some (u, r)"
  by (cases h rule: readHex4.cases) (auto split: if_split_asm)

lemma parseString_sound: "parseString t = Some (s, r) \<Longrightarrow> \<exists>b. string_text s b \<and> t = b @ 0x22 # r"
proof (induction t arbitrary: s r rule: parseString.induct)
  case (2 code us)
  consider (stop) "code = 0x22" | (escape) "code = 0x5C" | (plain) "code \<noteq> 0x22" "code \<noteq> 0x5C" by blast
  then show ?case
  proof cases
    case stop
    with 2 show ?thesis by (auto intro: string_text.end_of)
  next
    case plain
    with 2(5) obtain s' where "parseString us = Some (s', r)" "s = code # s'" "\<not> code < 0x20"
      by (auto simp: read_more_def split: if_split_asm)
    moreover from this plain 2(4) obtain b where "string_text s' b" "us = b @ 0x22 # r" by blast
    ultimately show ?thesis using plain by (intro exI [of _ "code # b"]) (auto intro: string_text.plain)
  next
    case escape
    then have base: "code \<noteq> 0x22" "\<not> code < 0x20" by simp_all
    from escape 2(5) obtain e us' where us: "us = e # us'" by (auto split: list.split_asm)
    show ?thesis
    proof (cases "map_of JSON_SIMPLE_ESCAPES e")
      case (Some c)
      with 2(5) escape us obtain s' where s: "parseString us' = Some (s', r)" "s = c # s'"
        by (auto simp: read_more_def split: if_split_asm)
      from 2(3) [OF base escape us Some s(1)] obtain b where "string_text s' b" "us' = b @ 0x22 # r" by blast
      with escape us s(2) map_of_SomeD [OF Some] show ?thesis
        by (intro exI [of _ "0x5C # e # b"]) (auto intro: string_text.simple)
    next
      case None
      with 2(5) escape us obtain u a where u: "e = 0x75" "readHex4 us' = Some (u, a)"
        by (auto split: option.split_asm if_split_asm)
      from readHex4_split [OF u(2)] obtain h where h: "us' = h @ a" "readHex4 h = Some (u, [])" by blast
      show ?thesis
      proof (cases "high u")
        case True
        with 2(5) escape us u None obtain v c s' where p: "startsWith a [0x5C, 0x75]" "readHex4 (drop 2 a) = Some (v, c)" "low v"
            "parseString c = Some (s', r)" "s = u # v # s'"
          by (auto simp: read_more_def split: option.split_asm if_split_asm)
        from readHex4_split [OF p(2)] obtain l where l: "drop 2 a = l @ c" "readHex4 l = Some (v, [])" by blast
        have a: "a = 0x5C # 0x75 # l @ c" using p(1) l(1) by (auto simp: prefix_def)
        have "\<not> e \<noteq> 0x75" "\<not> \<not> low v" using u(1) p(3) by simp_all
        from 2(1) [OF base escape us None this(1) u(2) refl True p(1,2) refl this(2) p(4)] obtain b
          where "string_text s' b" "c = b @ 0x22 # r" by blast
        with a h l p us u(1) True escape show ?thesis
          by (intro exI [of _ "0x5C # 0x75 # h @ 0x5C # 0x75 # l @ b"]) (auto intro: string_text.pair)
      next
        case False
        with 2(5) escape us u None obtain s' where p: "\<not> low u" "parseString a = Some (s', r)" "s = u # s'"
          by (auto simp: read_more_def split: if_split_asm)
        have "\<not> e \<noteq> 0x75" using u(1) by simp
        from 2(2) [OF base escape us None this u(2) refl False p(1,2)] obtain b
          where "string_text s' b" "a = b @ 0x22 # r" by blast
        with h p us u(1) False escape show ?thesis
          by (intro exI [of _ "0x5C # 0x75 # h @ b"]) (auto intro: string_text.unit)
      qed
    qed
  qed
qed simp

lemma parseString_complete: "string_text s b \<Longrightarrow> parseString (b @ 0x22 # r) = Some (s, r)"
proof (induction s b rule: string_text.induct)
  case (simple e c s t)
  have "distinct (map fst JSON_SIMPLE_ESCAPES)" by (simp add: JSON_SIMPLE_ESCAPES_def)
  with simple(1) have "map_of JSON_SIMPLE_ESCAPES e = Some c" by simp
  with simple show ?case by (simp add: read_more_def)
next
  case (unit h u s t)
  have "map_of JSON_SIMPLE_ESCAPES 0x75 = None" by (simp add: JSON_SIMPLE_ESCAPES_def)
  with unit show ?case by (simp add: read_more_def readHex4_append)
next
  case (pair h u l v s t)
  have "map_of JSON_SIMPLE_ESCAPES 0x75 = None" by (simp add: JSON_SIMPLE_ESCAPES_def)
  with pair show ?case by (simp add: read_more_def readHex4_append)
qed (auto simp: read_more_def linorder_not_less)


text \<open>Where a number ends.\<close>

definition stops :: "ustring \<Rightarrow> bool" where
  "stops r \<longleftrightarrow> r = [] \<or> json_space (hd r) \<or> hd r \<in> {0x2C, 0x5D, 0x7D}"

lemma integer_part_sound: "integer_part t = Some (l, r) \<Longrightarrow> t = l @ r \<and> integer_lexeme l"
proof -
  assume a: "integer_part t = Some (l, r)"
  define sign where "sign = (if startsWith t [0x2D] then [0x2D] else [] :: ustring)"
  from a obtain d ds where ds: "drop (length sign) t = d # ds"
      "l = sign @ (if d = 0x30 then [d] else d # takeWhile unit_digit ds)"
      "r = (if d = 0x30 then ds else dropWhile unit_digit ds)" "unit_digit d"
    by (auto simp: integer_part_def sign_def Let_def unit_digit_def split: list.split_asm if_split_asm)
  have "t = sign @ drop (length sign) t" by (cases t) (auto simp: sign_def)
  with ds(1) have "t = sign @ d # ds" by simp
  moreover have "list_all unit_digit (takeWhile unit_digit ds)" by (auto simp: list_all_iff dest: set_takeWhileD)
  moreover have "sign = [] \<or> sign = [0x2D]" by (simp add: sign_def)
  ultimately show ?thesis
    unfolding integer_lexeme_def ds(2,3) using ds(4)
    by (intro conjI exI [of _ sign] exI [of _ "if d = 0x30 then [d] else d # takeWhile unit_digit ds"]) auto
qed

lemma integer_part_complete:
  assumes "integer_lexeme l" and "stops r"
  shows "integer_part (l @ r) = Some (l, r)"
proof -
  from assms(1) obtain sign digits where "l = sign @ digits" "sign = [] \<or> sign = [0x2D]" "digits \<noteq> []" "list_all unit_digit digits"
      "hd digits = 0x30 \<longrightarrow> digits = [0x30]"
    unfolding integer_lexeme_def by blast
  then obtain d ds where l: "l = sign @ d # ds" "sign = [] \<or> sign = [0x2D]" "unit_digit d" "list_all unit_digit ds"
      "d = 0x30 \<Longrightarrow> ds = []"
    by (cases digits) auto
  have r: "takeWhile unit_digit r = []" "dropWhile unit_digit r = r"
    using assms(2) by (cases r; auto simp: stops_def json_space_def unit_digit_def)+
  have "d \<noteq> 0x2D" using l(3) by (auto simp: unit_digit_def)
  with l r show ?thesis
    by (auto simp: integer_part_def Let_def takeWhile_append2 list_all_iff)
qed

lemma stops_number: "stops r \<Longrightarrow> \<not> has_fraction r \<and> \<not> has_exponent r"
  by (cases r) (auto simp: stops_def json_space_def has_fraction_def has_exponent_def split: list.split)

lemma if4: "(if a then Some (x, r) else if b then Some (y, s) else if c then Some (z, t) else m) = Some (v, w) \<Longrightarrow>
    a \<and> v = x \<and> w = r \<or> b \<and> v = y \<and> w = s \<or> c \<and> v = z \<and> w = t \<or> m = Some (v, w)"
  by (auto split: if_split_asm)

lemma parse_scalar_sound:
  assumes "parse_scalar t = Some (v, r)"
  shows "\<exists>p. t = p @ r \<and> json_text d v p"
proof -
  have lit: "t = p @ drop n t" if "startsWith t p" "length p = n" for p n
    using that by (auto simp: prefix_def)
  have len: "length (ustr ''true'') = 4" "length (ustr ''false'') = 5" "length (ustr ''null'') = 4"
    by (simp_all add: ustr_def)
  consider (string) s where "startsWith t [0x22]" "parseString (drop 1 t) = Some (s, r)" "v = TextS s"
    | (const) c where "startsWith t c" "r = drop (length c) t" "json_text d v c"
    | (num) l where "integer_part t = Some (l, r)" "v = IntegerS l"
  proof (cases "startsWith t [0x22]")
    case True
    with assms string show thesis by (auto simp: parse_scalar_def)
  next
    case q: False
    consider "startsWith t (ustr ''true'')" "v = BoolS True" "r = drop 4 t" | "startsWith t (ustr ''false'')" "v = BoolS False" "r = drop 5 t"
      | "startsWith t (ustr ''null'')" "v = NullS" "r = drop 4 t" | "parse_number t = Some (v, r)"
      using if4 [OF assms [unfolded parse_scalar_def if_not_P [OF q]]] by blast
    then show thesis
    proof cases
      case 1
      show thesis by (rule const [of "ustr ''true''"]) (use 1 len in \<open>simp_all add: true_value\<close>)
    next
      case 2
      show thesis by (rule const [of "ustr ''false''"]) (use 2 len in \<open>simp_all add: false_value\<close>)
    next
      case 3
      show thesis by (rule const [of "ustr ''null''"]) (use 3 len in \<open>simp_all add: null_value\<close>)
    next
      case 4
      with num show thesis by (auto simp: parse_number_def split: option.split_asm if_split_asm)
    qed
  qed
  then show ?thesis
  proof cases
    case string
    from parseString_sound [OF string(2)] obtain b where "string_text s b" "drop 1 t = b @ 0x22 # r" by blast
    with string show ?thesis
      by (intro exI [of _ "0x22 # b @ [0x22]"]) (cases t; auto simp: quoted_def intro: text_value)
  next
    case const
    with lit [OF const(1)] show ?thesis by auto
  next
    case num
    with integer_part_sound show ?thesis by (blast intro: integer_value)
  qed
qed

text \<open>The cases of the three functions, read backwards.\<close>

definition items_ok :: "nat \<Rightarrow> (strict_json \<times> ustring) list \<Rightarrow> bool" where
  "items_ok d items \<longleftrightarrow> items \<noteq> [] \<and> (\<forall>v p. (v, p) \<in> set items \<longrightarrow> (\<exists>t. json_text (Suc d) v t \<and> padded t p))"

definition members_ok :: "nat \<Rightarrow> ((ustring \<times> strict_json) \<times> ustring) list \<Rightarrow> bool" where
  "members_ok d items \<longleftrightarrow> items \<noteq> [] \<and>
     (\<forall>k v p. ((k, v), p) \<in> set items \<longrightarrow>
        (\<exists>q q' t t'. quoted k q \<and> padded q q' \<and> json_text (Suc d) v t \<and> padded t t' \<and> p = q' @ 0x3A # t'))"

lemma items_Cons: "items_ok d ((v, p) # items) \<longleftrightarrow> (\<exists>t. json_text (Suc d) v t \<and> padded t p) \<and> (items = [] \<or> items_ok d items)"
  by (auto simp: items_ok_def)

lemma members_Cons: "members_ok d (((k, v), p) # items) \<longleftrightarrow>
    (\<exists>q q' t t'. quoted k q \<and> padded q q' \<and> json_text (Suc d) v t \<and> padded t t' \<and> p = q' @ 0x3A # t') \<and> (items = [] \<or> members_ok d items)"
  by (auto simp: members_ok_def)

lemma join_Cons: "joinWith [c] (p # ps) = p @ (if ps = [] then [] else c # joinWith [c] ps)"
  by (cases ps) simp_all

lemma padded_around: "spaces w \<Longrightarrow> t = w @ p @ r \<Longrightarrow> skipWhitespace r = u # s \<Longrightarrow> \<exists>q. padded p q \<and> t = q @ u # s"
  by (metis append.assoc padded_def skip_split)

text \<open>White space before a list belongs to its first element.\<close>

lemma padded_front: "spaces w \<Longrightarrow> padded t p \<Longrightarrow> padded t (w @ p)"
  unfolding padded_def spaces_def by (metis append.assoc list_all_append)

lemma items_front:
  assumes "items_ok d items" and "spaces w"
  shows "\<exists>items'. items_ok d items' \<and> map fst items' = map fst items \<and> joinWith [c] (map snd items') = w @ joinWith [c] (map snd items)"
proof -
  obtain v p rest where i: "items = (v, p) # rest" using assms(1) by (cases items) (auto simp: items_ok_def)
  show ?thesis
    using assms padded_front unfolding i by (intro exI [of _ "(v, w @ p) # rest"]) (auto simp: items_Cons join_Cons)
qed

lemma members_front:
  assumes "members_ok d items" and "spaces w"
  shows "\<exists>items'. members_ok d items' \<and> map fst items' = map fst items \<and> joinWith [c] (map snd items') = w @ joinWith [c] (map snd items)"
proof -
  obtain k v p rest where i: "items = ((k, v), p) # rest" using assms(1) by (cases items) (auto simp: members_ok_def)
  then obtain q q' t t' where p: "quoted k q" "padded q q'" "json_text (Suc d) v t" "padded t t'" "p = q' @ 0x3A # t'"
    using assms(1) by (auto simp: members_Cons)
  then have "\<exists>q q' t t'. quoted k q \<and> padded q q' \<and> json_text (Suc d) v t \<and> padded t t' \<and> w @ p = q' @ 0x3A # t'"
    using padded_front [OF assms(2) p(2)] by (metis append.assoc)
  with assms(1) show ?thesis
    unfolding i by (intro exI [of _ "((k, v), w @ p) # rest"]) (auto simp: members_Cons join_Cons)
qed

lemma startsWithD: "startsWith t [u] \<Longrightarrow> t = u # drop 1 t"
  by (cases t) auto

lemma container_sound:
  assumes t: "skipWhitespace input = u # b" and r: "skipWhitespace b = c # r"
  shows "\<exists>w w'. spaces w \<and> spaces w' \<and> input = w @ (u # w' @ [c]) @ r"
  using skip_split [of input] skip_split [of b] t r by force

lemma parse_sound:
  "parseValue d t = Some (v, r) \<Longrightarrow> \<exists>w p. spaces w \<and> t = w @ p @ r \<and> json_text d v p"
  "parse_elements d vs t = Some (v, r) \<Longrightarrow>
     \<exists>items. items_ok d items \<and> v = ArrayS (vs @ map fst items) \<and> t = joinWith [0x2C] (map snd items) @ 0x5D # r"
  "parse_members d ms t = Some (v, r) \<Longrightarrow>
     \<exists>items. members_ok d items \<and> v = MapS (ms @ map fst items) \<and>
       (distinct (map fst ms) \<longrightarrow> distinct (map fst ms @ map (fst \<circ> fst) items)) \<and> t = joinWith [0x2C] (map snd items) @ 0x7D # r"
proof (induction d t and d vs t and d ms t arbitrary: v r and v r and v r rule: parseValue_parse_elements_parse_members.induct)
  case (1 depth input)
  let ?t = "skipWhitespace input" and ?r = "skipWhitespace (drop 1 (skipWhitespace input))"
  from skip_split [of input] obtain w where w: "spaces w" "input = w @ ?t" by blast
  show ?case
  proof (cases "startsWith ?t [0x7B] \<or> startsWith ?t [0x5B]")
    case False
    with 1(3) have "parse_scalar ?t = Some (v, r)" by (simp add: parseValue.simps Let_def)
    from parse_scalar_sound [OF this] w show ?thesis by metis
  next
    case True
    then have nd: "\<not> MAX_JSON_DEPTH \<le> depth" using 1(3) by (simp add: parseValue.simps Let_def split: if_split_asm)
    from skip_split [of "drop 1 ?t"] obtain w' where w': "spaces w'" "drop 1 ?t = w' @ ?r" by blast
    show ?thesis
    proof (cases "startsWith ?t [0x7B]")
      case obj: True
      note input = startsWithD [OF obj, folded One_nat_def] w'(2) w(2)
      show ?thesis
      proof (cases "startsWith ?r [0x7D]")
        case c: True
        with 1(3) True nd obj have "v = MapS []" "r = drop 1 ?r" by (auto simp: parseValue.simps Let_def)
        moreover have "input = w @ (0x7B # w' @ [0x7D]) @ drop 1 ?r"
          using w(2) w'(2) startsWithD [OF obj] startsWithD [OF c] by (metis append.assoc append_Cons append_Nil)
        ultimately show ?thesis using w(1) w'(1) nd by (metis empty_object linorder_not_le)
      next
        case c: False
        have "parseValue depth input = parse_members depth [] ?r"
          unfolding parseValue.simps [of depth input] Let_def using True nd obj c by (simp only: if_True if_False)
        with 1(3) have "parse_members depth [] ?r = Some (v, r)" by simp
        from 1(1) [OF refl True nd refl obj c this] obtain items where items: "members_ok depth items \<and> v = MapS ([] @ map fst items) \<and>
            (distinct (map fst ([] :: (ustring \<times> strict_json) list)) \<longrightarrow> distinct (map fst ([] :: (ustring \<times> strict_json) list) @ map (fst \<circ> fst) items)) \<and>
            ?r = joinWith [0x2C] (map snd items) @ 0x7D # r" by (rule exE)
        then have v: "v = MapS ([] @ map fst items)" and r: "?r = joinWith [0x2C] (map snd items) @ 0x7D # r" by simp_all
        from items members_front [of depth items w' "0x2C"] w'(1) obtain items' where items': "members_ok depth items'" "map fst items' = map fst items"
            "joinWith [0x2C] (map snd items') = w' @ joinWith [0x2C] (map snd items)" by blast
        have "distinct (map fst (map fst items'))" using items unfolding items'(2) by simp
        then have d: "distinct (map (fst \<circ> fst) items')" by simp
        have "json_text depth (MapS (map fst items')) (0x7B # joinWith [0x2C] (map snd items') @ [0x7D])"
          using items'(1) d nd by (intro object) (auto simp: members_ok_def)
        moreover have "input = w @ (0x7B # joinWith [0x2C] (map snd items') @ [0x7D]) @ r"
          using w(2) w'(2) r items'(3) startsWithD [OF obj] by (metis append.assoc append_Cons append_Nil)
        ultimately show ?thesis using w(1) v items'(2) by (metis append_Nil)
      qed
    next
      case arr: False
      with True have arr': "startsWith ?t [0x5B]" by simp
      show ?thesis
      proof (cases "startsWith ?r [0x5D]")
        case c: True
        with 1(3) True nd arr have "v = ArrayS []" "r = drop 1 ?r" by (auto simp: parseValue.simps Let_def)
        moreover have "input = w @ (0x5B # w' @ [0x5D]) @ drop 1 ?r"
          using w(2) w'(2) startsWithD [OF arr'] startsWithD [OF c] by (metis append.assoc append_Cons append_Nil)
        ultimately show ?thesis using w(1) w'(1) nd by (metis empty_array linorder_not_le)
      next
        case c: False
        have "parseValue depth input = parse_elements depth [] ?r"
          unfolding parseValue.simps [of depth input] Let_def using True nd arr c by (simp only: if_True if_False)
        with 1(3) have "parse_elements depth [] ?r = Some (v, r)" by simp
        from 1(2) [OF refl True nd refl arr c this] obtain items where "items_ok depth items" and v: "v = ArrayS ([] @ map fst items)"
            and r: "?r = joinWith [0x2C] (map snd items) @ 0x5D # r" by blast
        with items_front [OF _ w'(1)] obtain items' where items': "items_ok depth items'" "map fst items' = map fst items"
            "joinWith [0x2C] (map snd items') = w' @ joinWith [0x2C] (map snd items)"
          by metis
        have "json_text depth (ArrayS (map fst items')) (0x5B # joinWith [0x2C] (map snd items') @ [0x5D])"
          using items'(1) nd by (intro array) (auto simp: items_ok_def)
        moreover have "input = w @ (0x5B # joinWith [0x2C] (map snd items') @ [0x5D]) @ r"
          using w(2) w'(2) r items'(3) startsWithD [OF arr'] by (metis append.assoc append_Cons append_Nil)
        ultimately show ?thesis using w(1) v items'(2) by (metis append_Nil)
      qed
    qed
  qed
next
  case (2 depth vs t)
  from 2(3) obtain w s where s: "parseValue (depth + 1) t = Some (w, s)"
    by (auto simp: parse_elements.simps split: option.split_asm)
  from 2(1) [OF s] obtain a p where p: "spaces a" "t = a @ p @ s" "json_text (Suc depth) w p" by auto
  show ?case
  proof (cases "startsWith (skipWhitespace s) [0x2C]")
    case True
    with 2(3) s have "parse_elements depth (vs @ [w]) (drop 1 (skipWhitespace s)) = Some (v, r)"
      by (simp add: parse_elements.simps Let_def)
    from 2(2) [OF s refl refl True this] obtain items where items: "items_ok depth items" "v = ArrayS ((vs @ [w]) @ map fst items)"
        "drop 1 (skipWhitespace s) = joinWith [0x2C] (map snd items) @ 0x5D # r" by blast
    from padded_around [OF p(1,2) startsWithD [OF True]] obtain q where q: "padded p q" "t = q @ 0x2C # drop 1 (skipWhitespace s)" by blast
    have "items \<noteq> []" using items(1) by (simp add: items_ok_def)
    with items p q show ?thesis
      by (intro exI [of _ "(w, q) # items"]) (auto simp: items_Cons join_Cons)
  next
    case False
    with 2(3) s have c: "startsWith (skipWhitespace s) [0x5D]" "v = ArrayS (vs @ [w])" "r = drop 1 (skipWhitespace s)"
      by (auto simp: parse_elements.simps Let_def split: if_split_asm)
    from padded_around [OF p(1,2) startsWithD [OF c(1)]] obtain q where "padded p q" "t = q @ 0x5D # r" unfolding c(3) by blast
    with c p show ?thesis
      by (intro exI [of _ "[(w, q)]"]) (auto simp: items_Cons)
  qed
next
  case (3 depth ms input)
  let ?t = "skipWhitespace input"
  from 3(3) obtain key a w s where a: "parseString (drop 1 ?t) = Some (key, a)"
    and key: "key \<notin> fst ` set ms" and q: "startsWith ?t [0x22]" "startsWith (skipWhitespace a) [0x3A]"
    and s: "parseValue (depth + 1) (drop 1 (skipWhitespace a)) = Some (w, s)"
    by (auto simp: parse_members.simps Let_def split: option.split_asm if_split_asm)
  have nq: "\<not> \<not> startsWith ?t [0x22]" "\<not> \<not> startsWith (skipWhitespace a) [0x3A]" using q by simp_all
  from 3(1) [OF refl nq(1) a refl key refl nq(2) s] obtain b p where p: "spaces b" "drop 1 (skipWhitespace a) = b @ p @ s" "json_text (Suc depth) w p"
    by auto
  from skip_split [of input] obtain w0 where w0: "spaces w0" "input = w0 @ ?t" by blast
  from parseString_sound [OF a] obtain body where body: "string_text key body" "drop 1 ?t = body @ 0x22 # a" by blast
  then have k: "quoted key (0x22 # body @ [0x22])" by (auto simp: quoted_def)
  have "input = w0 @ (0x22 # body @ [0x22]) @ a"
    using w0(2) body(2) startsWithD [OF q(1)] by (metis append.assoc append_Cons append_Nil)
  from padded_around [OF w0(1) this startsWithD [OF q(2)]] obtain q' where q': "padded (0x22 # body @ [0x22]) q'" "input = q' @ 0x3A # drop 1 (skipWhitespace a)"
    by blast
  have member: "\<exists>q q' t t'. quoted key q \<and> padded q q' \<and> json_text (Suc depth) w t \<and> padded t t' \<and> m @ 0x3A # p' = q' @ 0x3A # t'"
    if "m = q'" "padded p p'" for m p'
    using that k q'(1) p(3) by blast
  show ?case
  proof (cases "startsWith (skipWhitespace s) [0x2C]")
    case True
    with 3(3) a key q s have "parse_members depth (ms @ [(key, w)]) (drop 1 (skipWhitespace s)) = Some (v, r)"
      by (simp add: parse_members.simps Let_def)
    from 3(2) [OF refl nq(1) a refl key refl nq(2) s refl refl True this] obtain items where items: "members_ok depth items"
        "v = MapS ((ms @ [(key, w)]) @ map fst items)"
        "distinct (map fst (ms @ [(key, w)])) \<longrightarrow> distinct (map fst (ms @ [(key, w)]) @ map (fst \<circ> fst) items)"
        "drop 1 (skipWhitespace s) = joinWith [0x2C] (map snd items) @ 0x7D # r" by blast
    from padded_around [OF p(1,2) startsWithD [OF True]] obtain p' where p': "padded p p'" "drop 1 (skipWhitespace a) = p' @ 0x2C # drop 1 (skipWhitespace s)"
      by blast
    have "items \<noteq> []" using items(1) by (simp add: members_ok_def)
    with items p' q'(2) key member [OF refl p'(1)] show ?thesis
      by (intro exI [of _ "((key, w), q' @ 0x3A # p') # items"]) (auto simp: members_Cons join_Cons comp_def)
  next
    case False
    with 3(3) a key q s have c: "startsWith (skipWhitespace s) [0x7D]" "v = MapS (ms @ [(key, w)])" "r = drop 1 (skipWhitespace s)"
      by (auto simp: parse_members.simps Let_def split: if_split_asm)
    from padded_around [OF p(1,2) startsWithD [OF c(1)]] obtain p' where p': "padded p p'" "drop 1 (skipWhitespace a) = p' @ 0x7D # r"
      unfolding c(3) by blast
    with c q'(2) key member [OF refl p'(1)] show ?thesis
      by (intro exI [of _ "[((key, w), q' @ 0x3A # p')]"]) (auto simp: members_Cons)
  qed
qed


section \<open>What is in the grammar is read\<close>

lemma integer_lexeme_start: "integer_lexeme l \<Longrightarrow> \<exists>u us. l = u # us \<and> (unit_digit u \<or> u = 0x2D)"
  unfolding integer_lexeme_def by (auto simp: neq_Nil_conv)

lemma ustr_Cons: "ustr (c # s) = unit_of c # ustr s" and ustr_Nil: "ustr [] = []"
  by (simp_all add: ustr_def)

lemma literals: "ustr ''true'' = [0x74, 0x72, 0x75, 0x65]" "ustr ''false'' = [0x66, 0x61, 0x6C, 0x73, 0x65]" "ustr ''null'' = [0x6E, 0x75, 0x6C, 0x6C]"
  by code_simp+

text \<open>A value does not begin with white space, and only containers with brackets.\<close>

lemma json_text_start: "json_text d v t \<Longrightarrow> \<exists>u us. t = u # us \<and> \<not> json_space u"
proof (induction rule: json_text.induct)
  case (integer_value l d)
  then show ?case using integer_lexeme_start [of l] by (auto simp: json_space_def unit_digit_def)
qed (auto simp: quoted_def literals json_space_def)

lemma skip_padded: "spaces w \<Longrightarrow> json_text d v t \<Longrightarrow> skipWhitespace (w @ t @ r) = t @ r"
  using json_text_start [of d v t] by (auto simp: skip_spaces skip_unit)

lemma parse_scalar_literals:
  "parse_scalar (ustr ''true'' @ r) = Some (BoolS True, r)" "parse_scalar (ustr ''false'' @ r) = Some (BoolS False, r)"
  "parse_scalar (ustr ''null'' @ r) = Some (NullS, r)"
  by (simp_all add: parse_scalar_def literals)

lemma parse_scalar_quoted: "quoted s t \<Longrightarrow> parse_scalar (t @ r) = Some (TextS s, r)"
  by (auto simp: quoted_def parse_scalar_def parseString_complete)

lemma parse_scalar_integer:
  assumes "integer_lexeme l" and "stops r"
  shows "parse_scalar (l @ r) = Some (IntegerS l, r)"
proof -
  obtain u us where "l = u # us" "unit_digit u \<or> u = 0x2D" using integer_lexeme_start [OF assms(1)] by blast
  then have "parse_scalar (l @ r) = parse_number (l @ r)"
    by (auto simp: parse_scalar_def literals unit_digit_def)
  then show ?thesis
    using integer_part_complete [OF assms] stops_number [OF assms(2)] by (simp add: parse_number_def)
qed

lemma parseValue_scalar:
  assumes "spaces w" and "json_text d v t" and "\<not> startsWith (t @ r) [0x7B]" "\<not> startsWith (t @ r) [0x5B]"
  shows "parseValue d (w @ t @ r) = parse_scalar (t @ r)"
  using assms(3,4) by (simp add: parseValue.simps skip_padded [OF assms(1,2)] Let_def)

lemma stops_simps [simp]: "stops (0x2C # r)" "stops (0x5D # r)" "stops (0x7D # r)" "stops []"
  by (simp_all add: stops_def)

lemma stops_spaces: "spaces w \<Longrightarrow> stops r \<Longrightarrow> stops (w @ r)"
  by (cases w) (auto simp: stops_def spaces_def)

definition reads :: "nat \<Rightarrow> strict_json \<Rightarrow> ustring \<Rightarrow> bool" where
  "reads d v p \<longleftrightarrow> (\<forall>r. stops r \<longrightarrow> (\<exists>s. parseValue d (p @ r) = Some (v, s) \<and> skipWhitespace s = skipWhitespace r))"

lemma elements_complete:
  assumes "items \<noteq> []" and "\<And>v p. (v, p) \<in> set items \<Longrightarrow> reads (Suc d) v p"
  shows "parse_elements d vs (joinWith [0x2C] (map snd items) @ 0x5D # r) = Some (ArrayS (vs @ map fst items), r)"
  using assms
proof (induction items arbitrary: vs)
  case (Cons i items)
  obtain v p where i: "i = (v, p)" by fastforce
  then have reads: "reads (Suc d) v p" using Cons.prems(2) by simp
  have skip: "skipWhitespace (u # t) = u # t" if "u \<in> {0x2C, 0x5D}" for u t
    using that by (intro skip_unit) (auto simp: json_space_def)
  show ?case
  proof (cases "items = []")
    case True
    from reads obtain s where "parseValue (Suc d) (p @ 0x5D # r) = Some (v, s)" "skipWhitespace s = 0x5D # r"
      unfolding reads_def using skip by force
    then show ?thesis using True i by (simp add: parse_elements.simps)
  next
    case False
    let ?rest = "joinWith [0x2C] (map snd items) @ 0x5D # r"
    from reads obtain s where "parseValue (Suc d) (p @ 0x2C # ?rest) = Some (v, s)" "skipWhitespace s = 0x2C # ?rest"
      unfolding reads_def using skip by force
    then have "parse_elements d vs (p @ 0x2C # ?rest) = parse_elements d (vs @ [v]) ?rest"
      by (simp add: parse_elements.simps [of d vs])
    also have "\<dots> = Some (ArrayS ((vs @ [v]) @ map fst items), r)"
      using Cons.IH [OF False] Cons.prems(2) by simp
    finally show ?thesis using False i by (simp add: join_Cons)
  qed
qed simp

lemma members_complete:
  assumes "items \<noteq> []" and "distinct (map fst ms @ map (fst \<circ> fst) items)"
    and "\<And>k v p. ((k, v), p) \<in> set items \<Longrightarrow> \<exists>q q' p'. quoted k q \<and> padded q q' \<and> reads (Suc d) v p' \<and> p = q' @ 0x3A # p'"
  shows "parse_members d ms (joinWith [0x2C] (map snd items) @ 0x7D # r) = Some (MapS (ms @ map fst items), r)"
  using assms
proof (induction items arbitrary: ms)
  case (Cons i items)
  obtain k v p where i: "i = ((k, v), p)" by (metis prod.exhaust)
  then have "((k, v), p) \<in> set (i # items)" by simp
  from Cons.prems(3) [OF this] obtain q q' p' where p: "quoted k q" "padded q q'" "reads (Suc d) v p'" "p = q' @ 0x3A # p'"
    by blast
  from p(1) obtain b where b: "string_text k b" "q = 0x22 # b @ [0x22]" by (auto simp: quoted_def)
  from p(2) obtain w w' where w: "spaces w" "spaces w'" "q' = w @ q @ w'" by (auto simp: padded_def)
  have skip: "skipWhitespace (u # t) = u # t" if "u \<in> {0x2C, 0x7D, 0x3A, 0x22}" for u t
    using that by (intro skip_unit) (auto simp: json_space_def)
  have start: "skipWhitespace (p @ t) = 0x22 # b @ 0x22 # w' @ 0x3A # p' @ t" for t
    using w(1) by (simp add: p(4) w(3) b(2) skip_spaces skip)
  have key: "parseString (b @ 0x22 # w' @ 0x3A # p' @ t) = Some (k, w' @ 0x3A # p' @ t)"
      "skipWhitespace (w' @ 0x3A # p' @ t) = 0x3A # p' @ t" for t
    using parseString_complete [OF b(1)] w(2) by (simp_all add: skip_spaces skip)
  have new: "k \<notin> fst ` set ms" using Cons.prems(2) i by auto
  show ?case
  proof (cases "items = []")
    case True
    from p(3) obtain s where "parseValue (Suc d) (p' @ 0x7D # r) = Some (v, s)" "skipWhitespace s = 0x7D # r"
      unfolding reads_def using skip by force
    then show ?thesis using True i new by (simp add: parse_members.simps start key Let_def)
  next
    case False
    let ?rest = "joinWith [0x2C] (map snd items) @ 0x7D # r"
    from p(3) obtain s where "parseValue (Suc d) (p' @ 0x2C # ?rest) = Some (v, s)" "skipWhitespace s = 0x2C # ?rest"
      unfolding reads_def using skip by force
    then have "parse_members d ms (p @ 0x2C # ?rest) = parse_members d (ms @ [(k, v)]) ?rest"
      using new by (simp add: parse_members.simps [of d ms] start key Let_def)
    also have "\<dots> = Some (MapS ((ms @ [(k, v)]) @ map fst items), r)"
      using Cons.prems(2,3) i by (intro Cons.IH [OF False]) auto
    finally show ?thesis using False i by (simp add: join_Cons)
  qed
qed simp


lemma reads_scalar:
  assumes "json_text d v t" and "padded t p" and "\<And>r. stops r \<Longrightarrow> parse_scalar (t @ r) = Some (v, r)" and "hd t \<noteq> 0x7B" "hd t \<noteq> 0x5B"
  shows "reads d v p"
  unfolding reads_def
proof (intro allI impI)
  fix r assume r: "stops r"
  from assms(2) obtain w w' where p: "spaces w" "spaces w'" "p = w @ t @ w'" by (auto simp: padded_def)
  from json_text_start [OF assms(1)] assms(4,5) have "\<not> startsWith (t @ w' @ r) [0x7B]" "\<not> startsWith (t @ w' @ r) [0x5B]" by auto
  from parseValue_scalar [OF p(1) assms(1) this] assms(3) [OF stops_spaces [OF p(2) r]]
  have "parseValue d (p @ r) = Some (v, w' @ r)" by (simp add: p(3))
  then show "\<exists>s. parseValue d (p @ r) = Some (v, s) \<and> skipWhitespace s = skipWhitespace r"
    using p(2) by (simp add: skip_spaces)
qed

text \<open>A container, given what its loop does with the text after the bracket.\<close>

lemma reads_container:
  assumes "padded (u # body @ [c]) p" and "d < MAX_JSON_DEPTH" and "u \<in> {0x5B, 0x7B}"
    and "\<And>w r. spaces w \<Longrightarrow> parseValue d (w @ u # body @ c # r) = Some (v, r)"
  shows "reads d v p"
proof -
  from assms(1) obtain w w' where p: "spaces w" "spaces w'" "p = w @ (u # body @ [c]) @ w'" by (auto simp: padded_def)
  show ?thesis
    unfolding reads_def using assms(4) [OF p(1)] p(2) by (simp add: p(3) skip_spaces)
qed

lemma parseValue_container:
  assumes "spaces w" and "d < MAX_JSON_DEPTH"
  shows "skipWhitespace b = 0x5D # r \<Longrightarrow> parseValue d (w @ 0x5B # b) = Some (ArrayS [], r)"
    and "\<not> startsWith (skipWhitespace b) [0x5D] \<Longrightarrow> parseValue d (w @ 0x5B # b) = parse_elements d [] (skipWhitespace b)"
    and "skipWhitespace b = 0x7D # r \<Longrightarrow> parseValue d (w @ 0x7B # b) = Some (MapS [], r)"
    and "\<not> startsWith (skipWhitespace b) [0x7D] \<Longrightarrow> parseValue d (w @ 0x7B # b) = parse_members d [] (skipWhitespace b)"
  using assms by (simp_all add: parseValue.simps [of d] skip_spaces skip_unit json_space_def Let_def)

text \<open>The white space that is skipped before a loop begins does not matter to it.\<close>

lemma parse_scalar_start: "parse_scalar (u # t) = Some x \<Longrightarrow> u \<noteq> 0x5D"
  by (auto simp: parse_scalar_def parse_number_def integer_part_def literals unit_digit_def Let_def split: if_split_asm option.split_asm)

lemma reads_start: "reads d v (p @ q) \<Longrightarrow> stops r \<Longrightarrow> \<not> startsWith (skipWhitespace (p @ q @ r)) [0x5D]"
proof
  assume a: "reads d v (p @ q)" "stops r" and "startsWith (skipWhitespace (p @ q @ r)) [0x5D]"
  then obtain t where t: "skipWhitespace (p @ q @ r) = 0x5D # t" by (meson startsWith_unit)
  from a obtain s where "parseValue d (p @ q @ r) = Some (v, s)" by (auto simp: reads_def)
  with t show False using parse_scalar_start by (auto simp: parseValue.simps Let_def)
qed

lemma parse_skip: "parseValue d (skipWhitespace t) = parseValue d t" "parse_elements d vs (skipWhitespace t) = parse_elements d vs t"
  "parse_members d ms (skipWhitespace t) = parse_members d ms t"
proof -
  have idem: "skipWhitespace (skipWhitespace t) = skipWhitespace t" for t
    by (simp add: skipWhitespace_def)
  show v: "parseValue d (skipWhitespace t) = parseValue d t" for d
    by (simp add: parseValue.simps [of d] idem)
  show "parse_elements d vs (skipWhitespace t) = parse_elements d vs t"
    by (simp add: parse_elements.simps [of d vs] v)
  show "parse_members d ms (skipWhitespace t) = parse_members d ms t"
    by (simp add: parse_members.simps [of d ms] idem)
qed

lemma parse_complete: "json_text d v t \<Longrightarrow> padded t p \<Longrightarrow> reads d v p"
proof (induction arbitrary: p rule: json_text.induct)
  case (text_value s t d)
  show ?case
    by (rule reads_scalar [OF json_text.text_value [OF text_value(1)] text_value(2)])
      (use text_value(1) in \<open>auto simp: parse_scalar_quoted quoted_def dest: parse_scalar_quoted [unfolded quoted_def]\<close>)
next
  case (true_value d)
  then show ?case by (intro reads_scalar [OF json_text.true_value]) (simp_all add: parse_scalar_literals, simp_all add: literals)
next
  case (false_value d)
  then show ?case by (intro reads_scalar [OF json_text.false_value]) (simp_all add: parse_scalar_literals, simp_all add: literals)
next
  case (null_value d)
  then show ?case by (intro reads_scalar [OF json_text.null_value]) (simp_all add: parse_scalar_literals, simp_all add: literals)
next
  case (integer_value l d)
  then show ?case
    using integer_lexeme_start [OF integer_value(1)]
    by (intro reads_scalar [OF json_text.integer_value]) (auto simp: parse_scalar_integer unit_digit_def)
next
  case (empty_array d w)
  then show ?case
    by (intro reads_container [OF empty_array(3)]) (simp_all add: parseValue_container skip_spaces skip_unit json_space_def)
next
  case (empty_object d w)
  then show ?case
    by (intro reads_container [OF empty_object(3)]) (simp_all add: parseValue_container skip_spaces skip_unit json_space_def)
next
  case (array d items)
  have reads: "reads (Suc d) v p" if "(v, p) \<in> set items" for v p
    using array.IH that by blast
  have "parseValue d (w @ 0x5B # joinWith [0x2C] (map snd items) @ 0x5D # r) = Some (ArrayS (map fst items), r)" if "spaces w" for w r
  proof -
    obtain v q rest where i: "items = (v, q) # rest" using array.hyps(2) by (cases items) auto
    let ?x = "joinWith [0x2C] (map snd items) @ 0x5D # r"
    have "\<not> startsWith (skipWhitespace ?x) [0x5D]"
      using reads_start [of "Suc d" v q "[]" "if rest = [] then 0x5D # r else 0x2C # joinWith [0x2C] (map snd rest) @ 0x5D # r"] reads [of v q]
      unfolding i by (cases "rest = []") (simp_all add: join_Cons)
    with that array.hyps(1) have "parseValue d (w @ 0x5B # ?x) = parse_elements d [] ?x"
      by (simp add: parseValue_container parse_skip)
    with elements_complete [OF array.hyps(2) reads] show ?thesis by simp
  qed
  then show ?case
    using array by (intro reads_container [OF array.prems]) simp_all
next
  case (object d items)
  have members: "\<exists>q q' p'. quoted k q \<and> padded q q' \<and> reads (Suc d) v p' \<and> p = q' @ 0x3A # p'" if "((k, v), p) \<in> set items" for k v p
    using object.IH that by blast
  have "parseValue d (w @ 0x7B # joinWith [0x2C] (map snd items) @ 0x7D # r) = Some (MapS (map fst items), r)" if "spaces w" for w r
  proof -
    obtain k v q rest where i: "items = ((k, v), q) # rest" using object.hyps(2) by (cases items) auto
    let ?x = "joinWith [0x2C] (map snd items) @ 0x7D # r"
    obtain a a' p' where "quoted k a" "padded a a'" "q = a' @ 0x3A # p'" using members [of k v q] i by auto
    then obtain b s where "skipWhitespace ?x = 0x22 # b @ s"
      unfolding i padded_def quoted_def by (force simp: join_Cons skip_spaces skip_unit json_space_def)
    then have "\<not> startsWith (skipWhitespace ?x) [0x7D]" by simp
    with that object.hyps(1) have "parseValue d (w @ 0x7B # ?x) = parse_members d [] ?x"
      by (simp add: parseValue_container parse_skip)
    with members_complete [OF object.hyps(2) _ members, of "[]"] object.hyps(3) show ?thesis by simp
  qed
  then show ?case
    using object by (intro reads_container [OF object.prems]) simp_all
qed

lemma parseStrictJson_reads:
  assumes "json_text 0 v t" and "padded t text"
  shows "parseStrictJson text = Some v"
proof -
  from assms have "reads 0 v text" by (rule parse_complete)
  then obtain s where "parseValue 0 (text @ []) = Some (v, s)" "skipWhitespace s = skipWhitespace []"
    unfolding reads_def using stops_simps(4) by blast
  then show ?thesis
    by (simp add: parseStrictJson_def skipWhitespace_def)
qed

text \<open>C18: the strict reader, which always returns, accepts exactly the texts of the strict
  grammar with white space around them, and returns the value of which it is a text.\<close>

theorem parseStrictJson_grammar: "parseStrictJson text = Some v \<longleftrightarrow> (\<exists>t. json_text 0 v t \<and> padded t text)"
proof
  assume a: "parseStrictJson text = Some v"
  then obtain r where r: "parseValue 0 text = Some (v, r)" "skipWhitespace r = []"
    by (auto simp: parseStrictJson_def split: option.split_asm if_split_asm)
  from parse_sound(1) [OF r(1)] obtain w t where "spaces w" "text = w @ t @ r" "json_text 0 v t" by blast
  moreover have "spaces r"
    using skip_split [of r] r(2) by simp
  ultimately show "\<exists>t. json_text 0 v t \<and> padded t text"
    by (auto simp: padded_def)
next
  assume "\<exists>t. json_text 0 v t \<and> padded t text"
  then show "parseStrictJson text = Some v" by (auto intro: parseStrictJson_reads)
qed

end
