(* ===== verification/RegistryVerdict.thy ===== *)
theory RegistryVerdict
  imports StrictJson SignedObject
begin

text \<open>
  \<^verbatim>\<open>packages/sdk-core/src/registry-verdict.ts\<close>: the classification of one answer of the location
  registry as \<open>registered\<close>, \<open>unregistered\<close> or \<open>unavailable\<close>, with the signed bytes of a record
  (\<open>canonicalLocationPayload\<close> of \<^verbatim>\<open>location.ts\<close>), the check of its signature and the origins of its
  addresses.

  Strings are UTF-16 code units. The libraries (viem, noble, multiformats, multiaddr), the WHATWG URL
  parser and the date parser of the platform are the fields of \<open>registry_lib\<close>; \<open>None\<close> is a call that throws. The
  fields of a verdict that are the same in every verdict of this classifier (its source, and
  the absent node DID and expiry of a host) are left out, and so is the message of an
  unavailable verdict, which the code declares to be no part of the contract.

  The lemmas show that the signed bytes determine the record and that the bytes of a signature
  in base64url are the ones that were encoded.
\<close>

section \<open>Data\<close>

record url =
  url_protocol :: ustring
  url_hostname :: ustring
  url_username :: ustring
  url_password :: ustring
  url_pathname :: ustring
  url_search :: ustring
  url_hash :: ustring
  url_origin :: ustring
  url_href :: ustring

record registry_lib =
  rl_evm :: evm_lib
  rl_base58 :: "ustring \<Rightarrow> bytes option"
  rl_verifyMessage :: "ustring \<Rightarrow> ustring \<Rightarrow> ustring \<Rightarrow> bool option"
  rl_ed25519_strict :: "bytes \<Rightarrow> bytes \<Rightarrow> bytes \<Rightarrow> bool option"    \<comment> \<open>\<open>zip215: false\<close>\<close>
  rl_ed25519_verify :: "bytes \<Rightarrow> bytes \<Rightarrow> bytes \<Rightarrow> bool option"
  rl_URL :: "ustring \<Rightarrow> url option"
  rl_multiaddr :: "ustring \<Rightarrow> bool"                            \<comment> \<open>\<open>multiaddr(s)\<close> does not throw\<close>
  rl_multiaddrToUri :: "ustring \<Rightarrow> ustring option"
  rl_uriToMultiaddr :: "ustring \<Rightarrow> ustring option"
  rl_decodeUtf8 :: "bytes \<Rightarrow> ustring option"                  \<comment> \<open>\<open>new TextDecoder("utf-8", { fatal: true })\<close>\<close>
  rl_dateParses :: "ustring \<Rightarrow> bool"                           \<comment> \<open>\<open>Date.parse(s)\<close> is a number\<close>

datatype unavailable_reason =
    NetworkFailure | TimedOut | HttpStatus | MalformedResponse | OversizeResponse | SubjectMismatch
  | InvalidSignature | Rollback | NotFoundAfterRegistered

record registry_host =
  rh_urls :: "ustring list"

datatype registry_verdict =
    Registered ustring nat "registry_host list"
  | Unregistered ustring
  | Unavailable ustring unavailable_reason

datatype registry_response = HttpResponse int ustring | NetworkErrorResponse | TimeoutResponse

datatype lookup_input_error = InvalidSubject | InvalidRememberedSequence

definition REGISTRY_LOOKUP_MAX_BODY_BYTES :: nat where "REGISTRY_LOOKUP_MAX_BODY_BYTES = 64 * 1024"

definition REGISTRY_NOT_FOUND_BODY :: ustring where
  "REGISTRY_NOT_FOUND_BODY = ustr ''{\"error\":\"location record not found\"}''"

definition SECP256K1_N :: nat where
  "SECP256K1_N = 0xfffffffffffffffffffffffffffffffebaaedce6af48a03bbfd25e8cd0364141"

record v1_record =
  v1_subject :: ustring
  v1_multiaddrs :: "ustring list"
  v1_updated_at :: ustring
  v1_sequence :: nat
  v1_signature :: ustring

section \<open>Subjects\<close>

text \<open>\<^verbatim>\<open>/^did:pkh:eip155:([1-9][0-9]*):(0x[0-9a-fA-F]{40})$/\<close>: as the pattern of \<open>Identity\<close>, but the
  chain does not begin with a zero.\<close>

definition subject_match :: "ustring \<Rightarrow> (string \<times> string) option" where
  "subject_match subject =
     (case pkh_match (did_chars subject) of
        Some (digits, address) \<Rightarrow> if hd digits = CHR ''0'' then None else Some (digits, address)
      | None \<Rightarrow> None)"

definition ed25519KeyFromDidKey :: "registry_lib \<Rightarrow> ustring \<Rightarrow> bytes option" where
  "ed25519KeyFromDidKey lib did =
     (if \<not> startsWith did (ustr ''did:key:z'') then None
      else case rl_base58 lib (drop (length ''did:key:'') did) of
             None \<Rightarrow> None
           | Some bytes \<Rightarrow>
               if length bytes \<noteq> 34 \<or> bytes ! 0 \<noteq> 0xED \<or> bytes ! 1 \<noteq> 0x01 then None else Some (drop 2 bytes))"

definition isCanonicalSubject :: "registry_lib \<Rightarrow> ustring \<Rightarrow> bool" where
  "isCanonicalSubject lib subject =
     (case subject_match subject of
        Some (digits, address) \<Rightarrow>
          (case pkhDid_id (rl_evm lib) address (int (nat_of_dec digits)) of
             Inl _ \<Rightarrow> False
           | Inr did \<Rightarrow> ustr did = subject)
      | None \<Rightarrow> ed25519KeyFromDidKey lib subject \<noteq> None)"

section \<open>Records\<close>

definition number_at :: "nat \<Rightarrow> nat \<Rightarrow> ustring \<Rightarrow> nat" where
  "number_at i n val = units_number (take n (drop i val))"

definition days_in_month :: "nat \<Rightarrow> nat \<Rightarrow> nat option" where
  "days_in_month year month =
     (let leap = (year mod 4 = 0 \<and> year mod 100 \<noteq> 0) \<or> year mod 400 = 0
      in if 1 \<le> month \<and> month \<le> 12
         then Some ([31, if leap then 29 else 28, 31, 30, 31, 30, 31, 31, 30, 31, 30, 31] ! (month - 1)) else None)"

text \<open>The six numbers of a match stand at fixed positions, the offset at the end.\<close>

definition isRfc3339DateTime :: "ustring \<Rightarrow> bool" where
  "isRfc3339DateTime val =
     (if \<not> rx_test RFC3339_RE val then False
      else let day = number_at 8 2 val
           in (case days_in_month (number_at 0 4 val) (number_at 5 2 val) of
                 None \<Rightarrow> False
               | Some daysInMonth \<Rightarrow>
                   1 \<le> day \<and> day \<le> daysInMonth \<and> number_at 11 2 val \<le> 23 \<and> number_at 14 2 val \<le> 59 \<and> number_at 17 2 val \<le> 59 \<and>
                   (last val = 0x5A \<or> number_at (length val - 5) 2 val \<le> 23 \<and> number_at (length val - 2) 2 val \<le> 59)))"

definition nonempty_texts :: "strict_json list \<Rightarrow> ustring list option" where
  "nonempty_texts entries =
     (if list_all (\<lambda>e. case e of TextS s \<Rightarrow> s \<noteq> [] | _ \<Rightarrow> False) entries
      then Some (map (\<lambda>e. case e of TextS s \<Rightarrow> s | _ \<Rightarrow> []) entries) else None)"

text \<open>\<^verbatim>\<open>/^(0|[1-9][0-9]*)$/\<close> and a safe integer.\<close>

definition sequence_of :: "ustring \<Rightarrow> nat option" where
  "sequence_of lexeme =
     (if (lexeme = [0x30] \<or> lexeme \<noteq> [] \<and> list_all unit_digit lexeme \<and> hd lexeme \<noteq> 0x30) \<and> units_number lexeme \<le> 2 ^ 53 - 1
      then Some (units_number lexeme) else None)"

definition read_record :: "(ustring \<times> strict_json) list \<Rightarrow> v1_record option" where
  "read_record members =
     (let get = (\<lambda>k. map_of members (ustr k))
      in case (get ''version'', get ''subject'', get ''multiaddrs'', get ''updated_at'', get ''sequence'', get ''signature'') of
           (Some (IntegerS version), Some (TextS subject), Some (ArrayS entries), Some (TextS updatedAt), Some (IntegerS seq), Some (TextS sig)) \<Rightarrow>
             if version = ustr ''1'' \<and> isRfc3339DateTime updatedAt \<and> sig \<noteq> []
             then (case (nonempty_texts entries, sequence_of seq) of
                     (Some multiaddrs, Some n) \<Rightarrow>
                       Some \<lparr>v1_subject = subject, v1_multiaddrs = multiaddrs, v1_updated_at = updatedAt, v1_sequence = n, v1_signature = sig\<rparr>
                   | _ \<Rightarrow> None)
             else None
         | _ \<Rightarrow> None)"

definition parseRecordResponse :: "ustring \<Rightarrow> v1_record option" where
  "parseRecordResponse body =
     (case parseStrictJson body of
        Some (MapS body_members) \<Rightarrow> (case map_of body_members (ustr ''record'') of Some (MapS members) \<Rightarrow> read_record members | _ \<Rightarrow> None)
      | _ \<Rightarrow> None)"

section \<open>Signatures\<close>

text \<open>\<open>canonicalLocationPayload\<close> for version 1: \<open>JSON.stringify\<close> writes the members in the order of the
  object literal.\<close>

definition canonicalLocationPayload :: "ustring \<Rightarrow> ustring list \<Rightarrow> ustring \<Rightarrow> nat \<Rightarrow> ustring" where
  "canonicalLocationPayload subject multiaddrs updated_at seq =
     ustr ''{\"version\":1,\"subject\":'' @ quote subject @
     ustr '',\"multiaddrs\":['' @ joinWith [0x2C] (map quote multiaddrs) @
     ustr ''],\"updated_at\":'' @ quote updated_at @ ustr '',\"sequence\":'' @ ustr (dec_of_nat seq) @ ustr ''}''"

definition hex_number :: "ustring \<Rightarrow> nat" where
  "hex_number us = foldl (\<lambda>n u. 16 * n + unat (hex_unit_value u)) 0 us"

text \<open>The loop over the characters of an Ed25519 signature; a character that is not in the alphabet
  would have the index -1.\<close>

fun signature_loop :: "ustring \<Rightarrow> 32 word \<Rightarrow> nat \<Rightarrow> bytes \<Rightarrow> bytes" where
  "signature_loop [] buffer bits bytes = bytes"
| "signature_loop (char # chars) buffer bits bytes =
     (let buffer' = (push_bit 6 buffer OR (case indexOf BASE64URL_ALPHABET char of None \<Rightarrow> - 1 | Some i \<Rightarrow> of_nat i)) AND 0xFFFF
      in if 8 \<le> bits + 6
         then signature_loop chars buffer' (bits + 6 - 8) (bytes @ [ucast (signed_drop_bit (bits + 6 - 8) buffer' AND 0xFF)])
         else signature_loop chars buffer' (bits + 6) bytes)"

definition address_of :: "ustring \<Rightarrow> ustring" where
  "address_of subject = (case splitLast 0x3A subject of Some (_, address) \<Rightarrow> address | None \<Rightarrow> subject)"

definition verifyRecordSignature :: "registry_lib \<Rightarrow> v1_record \<Rightarrow> bool" where
  "verifyRecordSignature lib record =
     (let payload = canonicalLocationPayload (v1_subject record) (v1_multiaddrs record) (v1_updated_at record) (v1_sequence record);
          signature = v1_signature record
      in if startsWith (v1_subject record) (ustr ''did:pkh:'')
         then (if \<not> (startsWith signature (ustr ''0x'') \<and> length signature = 132 \<and> list_all hex_unit (drop 2 signature)) then False
               else let r = hex_number (take 64 (drop 2 signature)); s = hex_number (take 64 (drop 66 signature));
                        v = hex_number (drop 130 signature)
                    in if r = 0 \<or> SECP256K1_N \<le> r \<or> s = 0 \<or> SECP256K1_N div 2 < s then False
                       else if v \<noteq> 0 \<and> v \<noteq> 1 \<and> v \<noteq> 27 \<and> v \<noteq> 28 then False
                       else (case rl_verifyMessage lib (address_of (v1_subject record)) payload signature of
                               None \<Rightarrow> False
                             | Some ok \<Rightarrow> ok))
         else (case ed25519KeyFromDidKey lib (v1_subject record) of
                 None \<Rightarrow> False
               | Some publicKey \<Rightarrow>
                   if \<not> (length signature = 86 \<and> list_all (\<lambda>u. u \<in> set BASE64URL_ALPHABET) signature) then False
                   else (case rl_ed25519_strict lib (signature_loop signature 0 0 []) (textEncode payload) publicKey of
                           None \<Rightarrow> False
                         | Some ok \<Rightarrow> ok)))"

section \<open>Addresses\<close>

definition between :: "16 word \<Rightarrow> 16 word \<Rightarrow> 16 word rx" where
  "between a b = Cls (\<lambda>u. a \<le> u \<and> u \<le> b)"

definition unit_alnum :: "16 word \<Rightarrow> bool" where
  "unit_alnum u \<longleftrightarrow> unit_digit u \<or> (0x41 \<le> u \<and> u \<le> 0x5A) \<or> (0x61 \<le> u \<and> u \<le> 0x7A)"

text \<open>\<^verbatim>\<open>25[0-5]|2[0-4][0-9]|1[0-9][0-9]|[1-9]?[0-9]\<close>, four times with dots between.\<close>

definition IPV4_OCTET :: "16 word rx" where
  "IPV4_OCTET =
     Or (Cat (Lit (ustr ''25'')) (between 0x30 0x35))
     (Or (Cat (Lit (ustr ''2'')) (Cat (between 0x30 0x34) (Cls unit_digit)))
     (Or (Cat (Lit (ustr ''1'')) (Cat (Cls unit_digit) (Cls unit_digit)))
         (Cat (Maybe (between 0x31 0x39)) (Cls unit_digit))))"

definition IPV4 :: "16 word rx" where
  "IPV4 = Cat IPV4_OCTET (Between 3 3 (Cat (Lit (ustr ''.'')) IPV4_OCTET))"

text \<open>\<^verbatim>\<open>[A-Za-z0-9]([A-Za-z0-9-]{0,61}[A-Za-z0-9])?\<close>, one or more with dots between.\<close>

definition DNS_LABEL :: "16 word rx" where
  "DNS_LABEL = Cat (Cls unit_alnum) (Maybe (Cat (Between 0 61 (Cls (\<lambda>u. unit_alnum u \<or> u = 0x2D))) (Cls unit_alnum)))"

definition DNS_NAME :: "16 word rx" where
  "DNS_NAME = Cat DNS_LABEL (Many (Cat (Lit (ustr ''.'')) DNS_LABEL))"

definition NUMERIC_LABEL :: "16 word rx" where
  "NUMERIC_LABEL = Or (Cat (Lit (ustr ''0'')) (Cat (Cls (\<lambda>u. u = 0x78 \<or> u = 0x58)) (Many (Cls hex_unit)))) (Some1 (Cls unit_digit))"

text \<open>The groups of \<open>HOST_MULTIADDR\<close>,
  \<^verbatim>\<open>/^\/(ip4|ip6|dns|dns4|dns6)\/([^/]+)\/tcp\/([1-9][0-9]{0,4})\/(https|http|tls\/http)$/\<close>: none but
  the last has a slash, so they are parts between slashes.\<close>

definition host_multiaddr :: "ustring \<Rightarrow> (ustring \<times> ustring \<times> ustring \<times> ustring) option" where
  "host_multiaddr address =
     (case splitOn 0x2F address of
        start # protocol # host # tcp # port # transport \<Rightarrow>
          if start = [] \<and> protocol \<in> ustr ` {''ip4'', ''ip6'', ''dns'', ''dns4'', ''dns6''} \<and> host \<noteq> [] \<and> tcp = ustr ''tcp'' \<and>
             rx_test (Cat (between 0x31 0x39) (Between 0 4 (Cls unit_digit))) port \<and>
             joinWith [0x2F] transport \<in> ustr ` {''https'', ''http'', ''tls/http''}
          then Some (protocol, host, port, joinWith [0x2F] transport) else None
      | _ \<Rightarrow> None)"

definition last_label :: "ustring \<Rightarrow> ustring" where
  "last_label host = (case splitLast 0x2E host of Some (_, l) \<Rightarrow> l | None \<Rightarrow> host)"

definition multiaddr_authority :: "ustring \<Rightarrow> ustring \<Rightarrow> ustring option" where
  "multiaddr_authority protocol host =
     (if protocol = ustr ''ip4'' then (if rx_test IPV4 host then Some host else None)
      else if protocol = ustr ''ip6''
      then (if \<not> (host \<noteq> [] \<and> list_all (\<lambda>u. hex_unit u \<or> u = 0x3A \<or> u = 0x2E) host) \<or> \<not> hasChar host 0x3A then None
            else Some (ustr ''['' @ host @ ustr '']''))
      else if 253 < length host \<or> \<not> rx_test DNS_NAME host \<or> rx_test NUMERIC_LABEL (last_label host) then None
      else Some host)"

definition multiaddrOrigin :: "registry_lib \<Rightarrow> ustring \<Rightarrow> ustring option" where
  "multiaddrOrigin lib address =
     (case host_multiaddr address of
        None \<Rightarrow> None
      | Some (protocol, host, portText, transport) \<Rightarrow>
          if 65535 < units_number portText then None
          else (case multiaddr_authority protocol host of
                  None \<Rightarrow> None
                | Some authority \<Rightarrow>
                    let scheme = (if transport = ustr ''http'' then ustr ''http'' else ustr ''https'')
                    in map_option url_origin (rl_URL lib (scheme @ ustr ''://'' @ authority @ ustr '':'' @ ustr (dec_of_nat (units_number portText))))))"

section \<open>Classification\<close>

definition trim_space :: "ustring \<Rightarrow> ustring" where
  "trim_space body = rev (dropWhile json_space (rev (dropWhile json_space body)))"

definition record_hosts :: "registry_lib \<Rightarrow> v1_record \<Rightarrow> registry_host list" where
  "record_hosts lib record = map (\<lambda>origin. \<lparr>rh_urls = [origin]\<rparr>) (List.map_filter (multiaddrOrigin lib) (v1_multiaddrs record))"

definition classify_body :: "registry_lib \<Rightarrow> ustring \<Rightarrow> int \<Rightarrow> ustring \<Rightarrow> int option \<Rightarrow> registry_verdict" where
  "classify_body lib subject status body remembered =
     (if status \<noteq> 200 \<and> status \<noteq> 404 then Unavailable subject HttpStatus
      else if REGISTRY_LOOKUP_MAX_BODY_BYTES < length body \<or> REGISTRY_LOOKUP_MAX_BODY_BYTES < length (textEncode body)
      then Unavailable subject OversizeResponse
      else if status = 404
      then (if trim_space body \<noteq> REGISTRY_NOT_FOUND_BODY then Unavailable subject MalformedResponse
            else if remembered \<noteq> None then Unavailable subject NotFoundAfterRegistered
            else Unregistered subject)
      else case parseRecordResponse body of
             None \<Rightarrow> Unavailable subject MalformedResponse
           | Some record \<Rightarrow>
               if v1_subject record \<noteq> subject then Unavailable subject SubjectMismatch
               else if \<not> verifyRecordSignature lib record then Unavailable subject InvalidSignature
               else if (case remembered of None \<Rightarrow> False | Some n \<Rightarrow> int (v1_sequence record) < n)
               then Unavailable subject Rollback
               else Registered subject (v1_sequence record) (record_hosts lib record))"

definition classifyRegistryLookup ::
  "registry_lib \<Rightarrow> ustring \<Rightarrow> registry_response \<Rightarrow> int option \<Rightarrow> (lookup_input_error, registry_verdict) result" where
  "classifyRegistryLookup lib subject response remembered =
     (if \<not> isCanonicalSubject lib subject then Inl InvalidSubject
      else if (case remembered of None \<Rightarrow> False | Some n \<Rightarrow> MAX_SAFE_INTEGER < n \<or> n < 0) then Inl InvalidRememberedSequence
      else Inr (case response of
             NetworkErrorResponse \<Rightarrow> Unavailable subject NetworkFailure
           | TimeoutResponse \<Rightarrow> Unavailable subject TimedOut
           | HttpResponse status body \<Rightarrow> classify_body lib subject status body remembered))"


section \<open>The signed bytes\<close>

lemma quote_decodes: "decodes quote s UNIV"
  unfolding decodes_def by (blast dest: quote_inject)

lemma quote_start: "quote s \<noteq> [] \<and> hd (quote s) = 0x22"
  by (simp add: quote_def)

lemma quotes_inject:
  "joinWith [0x2C] (map quote xs) @ 0x5D # x = joinWith [0x2C] (map quote ys) @ 0x5D # y \<Longrightarrow> xs = ys \<and> x = y"
  using list_decodes [of xs quote UNIV ys "0x5D" x y] by (simp add: quote_decodes quote_start)



text \<open>The bytes a location record is signed over determine it: two records with the same payload
  have the same subject, addresses, time and sequence, whatever characters they contain.\<close>

lemma canonicalLocationPayload_inject:
  "canonicalLocationPayload s addrs t n = canonicalLocationPayload s' addrs' t' n' \<longleftrightarrow> s = s' \<and> addrs = addrs' \<and> t = t' \<and> n = n'"
proof
  let ?tail = "\<lambda>t n. quote t @ ustr '',\"sequence\":'' @ ustr (dec_of_nat n) @ ustr ''}''"
  assume "canonicalLocationPayload s addrs t n = canonicalLocationPayload s' addrs' t' n'"
  then have "quote s @ ustr '',\"multiaddrs\":['' @ joinWith [0x2C] (map quote addrs) @ ustr ''],\"updated_at\":'' @ ?tail t n
      = quote s' @ ustr '',\"multiaddrs\":['' @ joinWith [0x2C] (map quote addrs') @ ustr ''],\"updated_at\":'' @ ?tail t' n'"
    unfolding canonicalLocationPayload_def append_assoc same_append_eq .
  from quote_inject [OF this] have s: "s = s'"
    and r: "joinWith [0x2C] (map quote addrs) @ ustr ''],\"updated_at\":'' @ ?tail t n
      = joinWith [0x2C] (map quote addrs') @ ustr ''],\"updated_at\":'' @ ?tail t' n'"
    by simp_all
  have c: "ustr ''],\"updated_at\":'' @ x = 0x5D # ustr '',\"updated_at\":'' @ x" for x
    by (simp add: ustr_def unit_of_def)
  from r have a: "addrs = addrs'" and e: "?tail t n = ?tail t' n'"
    unfolding c by (auto dest: quotes_inject)
  from quote_inject [OF e] have "t = t'" "n = n'"
    by (auto simp: ustr_inject)
  with s a show "s = s' \<and> addrs = addrs' \<and> t = t' \<and> n = n'" by simp
qed simp

section \<open>The bytes of a signature\<close>

lemma low_bits_bit: "low_bits n v = low_bits n w \<Longrightarrow> j < n \<Longrightarrow> bit v j = bit w j"
proof -
  assume a: "low_bits n v = low_bits n w" "j < n"
  from arg_cong [OF a(1), of "\<lambda>bs. bs ! (n - Suc j)"] a(2) show "bit v j = bit w j"
    by (simp add: low_bits_def rev_nth)
qed

lemma dropped_byte:
  fixes v w :: "32 word"
  assumes "n < 16" and "\<And>j. j < n + 8 \<Longrightarrow> bit v j = bit w j"
  shows "signed_drop_bit n v AND 0xFF = signed_drop_bit n w AND 0xFF"
  unfolding mask_255 by (rule bit_word_eqI) (use assms in \<open>auto simp: bit_simps add.commute\<close>)

lemma signature_loop_base64:
  assumes "base64_loop chars b bits bytes = Inr out" and "bits < 8" and "low_bits bits b = low_bits bits b'"
  shows "signature_loop chars b' bits bytes = out"
  using assms
proof (induction chars arbitrary: b b' bits bytes)
  case (Cons char chars)
  then obtain i where i: "indexOf BASE64URL_ALPHABET char = Some i" by (auto split: option.split_asm)
  let ?b = "push_bit 6 b OR of_nat i :: 32 word" and ?c = "(push_bit 6 b' OR of_nat i) AND 0xFFFF :: 32 word"
  have m: "(0xFFFF :: 32 word) = mask 16" by (simp add: mask_eq_exp_minus_1)
  have same: "bit b j = bit b' j" if "j < bits" for j
    using Cons.prems(3) that by (rule low_bits_bit)
  have bits: "bit ?b j = bit ?c j" if "j < bits + 6" for j
    using that Cons.prems(2) same [of "j - 6"] unfolding m by (auto simp: bit_simps)
  show ?case
  proof (cases "8 \<le> bits + 6")
    case True
    have "signed_drop_bit (bits + 6 - 8) ?b AND 0xFF = signed_drop_bit (bits + 6 - 8) ?c AND 0xFF"
      using Cons.prems(2) True by (intro dropped_byte bits) simp_all
    moreover have "low_bits (bits + 6 - 8) ?b = low_bits (bits + 6 - 8) ?c"
      using bits by (intro low_bits_cong) simp
    ultimately show ?thesis
      using Cons.prems(1,2) i True Cons.IH [of ?b "bits + 6 - 8" _ ?c] by (simp add: Let_def)
  next
    case False
    have "low_bits (bits + 6) ?b = low_bits (bits + 6) ?c"
      using bits by (intro low_bits_cong) simp
    with False show ?thesis
      using Cons.prems(1) i Cons.IH [of ?b "bits + 6" _ ?c] by (simp add: Let_def)
  qed
qed simp

lemma base64_loop_encode: "base64_loop (base64UrlEncode bytes) 0 0 [] = Inr bytes"
  using base64_decode_encode [of bytes] by (auto simp: base64UrlDecode_def result_iff split: if_split_asm)

lemma signature_loop_encode: "signature_loop (base64UrlEncode bytes) 0 0 [] = bytes"
  by (rule signature_loop_base64 [OF base64_loop_encode]) simp_all

end
