(* ===== verification/Location.thy ===== *)
theory Location
  imports RegistryVerdict
begin

text \<open>
  \<^verbatim>\<open>packages/sdk-core/src/location.ts\<close>: signed location records (validation, signing,
  verification, publication), the candidates a host is chosen from and their order, the
  discovery of local nodes with trust on first use, and the proof that a share target is the
  owner's node.

  The network is a parameter: what a request is answered with is an argument (\<open>fetch_reply\<close>,
  after \<open>JSON.parse\<close> of its body), and what the probes of a local node find is a record of
  functions (\<open>local_network\<close>). The pins of the identity store are state that is passed on.

  The lemmas show that signed records verify, what a publication and a binding guarantee, that
  the order of sources is kept, and that a pinned node is never replaced by another.
\<close>

section \<open>Data\<close>

record location_payload =
  lp_subject :: ustring
  lp_multiaddrs :: "ustring list"
  lp_updated_at :: ustring
  lp_sequence :: nat

record location_record = location_payload +
  lr_signature :: ustring

text \<open>\<open>LocationInvalid\<close> is \<open>LocationRecordValidationError\<close>, \<open>LocationHttp\<close> is
  \<open>LocationRegistryHttpError\<close> with its status, \<open>OtherFailure\<close> any other exception.\<close>

datatype location_error = LocationInvalid string | LocationHttp int | OtherFailure

datatype location_source = Explicit | LocalLoopback | LocalLink | Blockchain | Centralized | Fallback

record location_candidate =
  lc_source :: location_source
  lc_multiaddrs :: "ustring list"
  lc_record :: "location_record option"

datatype resolution_attempt = NoCandidate location_source | Candidate location_candidate | Failed location_source location_error

datatype reply_body = TooLarge | NotUtf8 | NotJson | JsonBody json

datatype fetch_reply = FetchThrows | Reply int reply_body

section \<open>Records\<close>

definition validateSubject :: "json option \<Rightarrow> (location_error, ustring) result" where
  "validateSubject input =
     (case input of
        Some (StrJ s) \<Rightarrow>
          if s = [] then Inl (LocationInvalid ''subject must be a non-empty string'')
          else if \<not> startsWith s (ustr ''did:pkh:'') \<and> \<not> startsWith s (ustr ''did:key:'')
          then Inl (LocationInvalid ''subject must be did:pkh or did:key'') else Inr s
      | _ \<Rightarrow> Inl (LocationInvalid ''subject must be a non-empty string''))"

definition check_multiaddr :: "registry_lib \<Rightarrow> json \<Rightarrow> (location_error, ustring) result" where
  "check_multiaddr lib addr =
     (case addr of
        StrJ s \<Rightarrow>
          if s = [] then Inl (LocationInvalid ''multiaddr entries must be non-empty strings'')
          else if \<not> rl_multiaddr lib s then Inl (LocationInvalid ''invalid multiaddr'') else Inr s
      | _ \<Rightarrow> Inl (LocationInvalid ''multiaddr entries must be non-empty strings''))"

definition validateMultiaddrs :: "registry_lib \<Rightarrow> json option \<Rightarrow> (location_error, ustring list) result" where
  "validateMultiaddrs lib input =
     (case input of
        Some (ArrJ entries) \<Rightarrow> mapR (check_multiaddr lib) entries
      | _ \<Rightarrow> Inl (LocationInvalid ''multiaddrs must be an array''))"

text \<open>A member of an object; an array has none of the names that are read.\<close>

fun member :: "json \<Rightarrow> string \<Rightarrow> json option" where
  "member (ObjJ fs) key = map_of fs (ustr key)"
| "member _ key = None"

fun is_one :: "json option \<Rightarrow> bool" where
  "is_one (Some (NumJ n)) = (safe_integer n = Some 1)"
| "is_one _ = False"

definition validateLocationRecordPayload :: "registry_lib \<Rightarrow> json \<Rightarrow> (location_error, location_payload) result" where
  "validateLocationRecordPayload lib input =
     (if \<not> (case input of ObjJ _ \<Rightarrow> True | ArrJ _ \<Rightarrow> True | _ \<Rightarrow> False) then Inl (LocationInvalid ''payload must be an object'')
      else if \<not> is_one (member input ''version'') then Inl (LocationInvalid ''version must be 1'')
      else bindR (validateSubject (member input ''subject'')) (\<lambda>subject.
           bindR (validateMultiaddrs lib (member input ''multiaddrs'')) (\<lambda>multiaddrs.
           bindR (case member input ''updated_at'' of
                    Some (StrJ t) \<Rightarrow> if rl_dateParses lib t then Inr t else Inl (LocationInvalid ''updated_at must be an ISO timestamp'')
                  | _ \<Rightarrow> Inl (LocationInvalid ''updated_at must be an ISO timestamp'')) (\<lambda>updated_at.
           bindR (case member input ''sequence'' of
                    Some (NumJ n) \<Rightarrow>
                      (case safe_integer n of
                         Some i \<Rightarrow> if i < 0 then Inl (LocationInvalid ''sequence must be a non-negative safe integer'') else Inr (nat i)
                       | None \<Rightarrow> Inl (LocationInvalid ''sequence must be a non-negative safe integer''))
                  | _ \<Rightarrow> Inl (LocationInvalid ''sequence must be a non-negative safe integer'')) (\<lambda>seq.
             Inr \<lparr>lp_subject = subject, lp_multiaddrs = multiaddrs, lp_updated_at = updated_at, lp_sequence = seq\<rparr>)))))"

text \<open>\<open>{ ...payload, signature }\<close>\<close>

definition with_signature :: "location_payload \<Rightarrow> ustring \<Rightarrow> location_record" where
  "with_signature payload signature = location_payload.extend payload (location_record.fields signature)"

definition validateLocationRecord :: "registry_lib \<Rightarrow> json \<Rightarrow> (location_error, location_record) result" where
  "validateLocationRecord lib input =
     bindR (validateLocationRecordPayload lib input) (\<lambda>payload.
       case member input ''signature'' of
         Some (StrJ s) \<Rightarrow>
           if s = [] then Inl (LocationInvalid ''signature must be a non-empty string'')
           else Inr (with_signature payload s)
       | _ \<Rightarrow> Inl (LocationInvalid ''signature must be a non-empty string''))"

text \<open>A typed record as the value a validator is given. A safe integer is printed with its decimal
  digits, of which the shortest that determine it leave out the zeros at the end.\<close>

fun strip_zeros :: "nat \<Rightarrow> nat" where
  "strip_zeros n = (if 0 < n \<and> 10 dvd n then strip_zeros (n div 10) else n)"

definition number_of :: "nat \<Rightarrow> jnumber" where
  "number_of n = (if n = 0 then Zero else Decimal False (strip_zeros n) (int (length (dec_of_nat n))))"

definition payload_json :: "location_payload \<Rightarrow> json_object" where
  "payload_json p =
     [(ustr ''version'', NumJ (number_of 1)), (ustr ''subject'', StrJ (lp_subject p)),
      (ustr ''multiaddrs'', ArrJ (map StrJ (lp_multiaddrs p))), (ustr ''updated_at'', StrJ (lp_updated_at p)),
      (ustr ''sequence'', NumJ (number_of (lp_sequence p)))]"

definition record_json :: "location_record \<Rightarrow> json" where
  "record_json r = ObjJ (payload_json (location_payload.truncate r) @ [(ustr ''signature'', StrJ (lr_signature r))])"

definition payload_text :: "('a location_payload_scheme) \<Rightarrow> ustring" where
  "payload_text p = canonicalLocationPayload (lp_subject p) (lp_multiaddrs p) (lp_updated_at p) (lp_sequence p)"

text \<open>A signer signs the message or its bytes, or fails.\<close>

datatype location_signer = PkhSigner "ustring \<Rightarrow> ustring option" | KeySigner "bytes \<Rightarrow> bytes option"

definition signLocationRecord :: "registry_lib \<Rightarrow> location_payload \<Rightarrow> location_signer \<Rightarrow> (location_error, location_record) result" where
  "signLocationRecord lib payload signer =
     bindR (validateLocationRecordPayload lib (ObjJ (payload_json payload))) (\<lambda>_.
     let message = payload_text payload
     in bindR (case signer of
                 PkhSigner signMessage \<Rightarrow> (case signMessage message of None \<Rightarrow> Inl OtherFailure | Some s \<Rightarrow> Inr s)
               | KeySigner signBytes \<Rightarrow>
                   (case signBytes (textEncode message) of None \<Rightarrow> Inl OtherFailure | Some bytes \<Rightarrow> Inr (base64UrlEncode bytes))) (\<lambda>signature.
          Inr (with_signature payload signature)))"

definition verifyPkhSignature :: "registry_lib \<Rightarrow> ustring \<Rightarrow> ustring \<Rightarrow> ustring \<Rightarrow> (location_error, bool) result" where
  "verifyPkhSignature lib did payload signature =
     (let address = last (splitOn 0x3A did)
      in if \<not> (startsWith address (ustr ''0x'') \<and> length address = 42 \<and> list_all hex_unit (drop 2 address))
         then Inl (LocationInvalid ''did:pkh subject must end with an EVM address'')
         else if \<not> (startsWith signature (ustr ''0x'') \<and> drop 2 signature \<noteq> [] \<and> list_all hex_unit (drop 2 signature))
         then Inl (LocationInvalid ''did:pkh signature must be hex'')
         else case rl_verifyMessage lib address payload signature of None \<Rightarrow> Inl OtherFailure | Some ok \<Rightarrow> Inr ok)"

definition ed25519PublicKeyFromDidKey_loc :: "registry_lib \<Rightarrow> ustring \<Rightarrow> (location_error, bytes) result" where
  "ed25519PublicKeyFromDidKey_loc lib did =
     (let identifier = drop (length ''did:key:'') did
      in if \<not> startsWith identifier (ustr ''z'') then Inl (LocationInvalid ''did:key must use base58btc multibase'')
         else case rl_base58 lib identifier of
                None \<Rightarrow> Inl OtherFailure
              | Some bytes \<Rightarrow>
                  if length bytes = 34 \<and> bytes ! 0 = 0xED \<and> bytes ! 1 = 0x01 then Inr (drop 2 bytes)
                  else if length bytes = 33 \<and> bytes ! 0 = 0xED then Inr (drop 1 bytes)
                  else Inl (LocationInvalid ''did:key must be an Ed25519 public key''))"

definition decodeBase64Url_loc :: "ustring \<Rightarrow> (location_error, bytes) result" where
  "decodeBase64Url_loc val =
     (case base64_loop val 0 0 [] of
        Inl _ \<Rightarrow> Inl (LocationInvalid ''did:key signature must be base64url'')
      | Inr bytes \<Rightarrow> Inr bytes)"

definition verifyDidKeySignature :: "registry_lib \<Rightarrow> ustring \<Rightarrow> ustring \<Rightarrow> ustring \<Rightarrow> (location_error, bool) result" where
  "verifyDidKeySignature lib did payload signature =
     bindR (ed25519PublicKeyFromDidKey_loc lib did) (\<lambda>publicKey.
     bindR (decodeBase64Url_loc signature) (\<lambda>signatureBytes.
       if length signatureBytes \<noteq> 64 then Inl (LocationInvalid ''did:key signature must be a base64url Ed25519 signature'')
       else case rl_ed25519_verify lib signatureBytes (textEncode payload) publicKey of None \<Rightarrow> Inl OtherFailure | Some ok \<Rightarrow> Inr ok))"

text \<open>\<open>verifyLocationRecord\<close> after the validation of its typed argument.\<close>

definition verifyLocationRecord :: "registry_lib \<Rightarrow> location_record \<Rightarrow> (location_error, bool) result" where
  "verifyLocationRecord lib input =
     bindR (validateLocationRecord lib (record_json input)) (\<lambda>record.
     let payload = payload_text record
     in if startsWith (lp_subject record) (ustr ''did:pkh:'') then verifyPkhSignature lib (lp_subject record) payload (lr_signature record)
        else if startsWith (lp_subject record) (ustr ''did:key:'')
        then verifyDidKeySignature lib (lp_subject record) payload (lr_signature record)
        else Inr False)"



section \<open>Origins\<close>

definition exactHttpOrigin :: "registry_lib \<Rightarrow> ustring \<Rightarrow> (location_error, ustring) result" where
  "exactHttpOrigin lib val =
     (case rl_URL lib val of
        None \<Rightarrow> Inl (LocationInvalid ''must be an absolute URL origin'')
      | Some url \<Rightarrow>
          let loopback = url_hostname url \<in> ustr ` {''localhost'', ''127.0.0.1'', ''[::1]''}
          in if url_protocol url \<noteq> ustr ''https:'' \<and> \<not> (url_protocol url = ustr ''http:'' \<and> loopback)
             then Inl (LocationInvalid ''must use HTTPS (or loopback HTTP)'')
             else if url_username url \<noteq> [] \<or> url_password url \<noteq> [] \<or> url_pathname url \<noteq> ustr ''/'' \<or> url_search url \<noteq> [] \<or> url_hash url \<noteq> []
             then Inl (LocationInvalid ''must be an origin without credentials, path, query, or fragment'')
             else Inr (url_origin url))"

definition multiaddrToHttpUrl :: "registry_lib \<Rightarrow> ustring \<Rightarrow> (location_error, ustring) result" where
  "multiaddrToHttpUrl lib input =
     (case rl_multiaddrToUri lib input of
        None \<Rightarrow> Inl OtherFailure
      | Some uri \<Rightarrow>
          if \<not> startsWith uri (ustr ''http://'') \<and> \<not> startsWith uri (ustr ''https://'')
          then Inl (LocationInvalid ''multiaddr does not resolve to http/https'') else Inr uri)"

definition httpUrlToMultiaddr :: "registry_lib \<Rightarrow> ustring \<Rightarrow> (location_error, ustring) result" where
  "httpUrlToMultiaddr lib input =
     (case rl_URL lib input of
        None \<Rightarrow> Inl OtherFailure
      | Some url \<Rightarrow>
          if url_protocol url \<noteq> ustr ''http:'' \<and> url_protocol url \<noteq> ustr ''https:'' then Inl (LocationInvalid ''URL must use http or https'')
          else (case rl_uriToMultiaddr lib (url_href url) of None \<Rightarrow> Inl OtherFailure | Some m \<Rightarrow> Inr m))"

definition ok_or_none :: "'e + 'a \<Rightarrow> 'a option" where
  "ok_or_none m = (case m of Inr x \<Rightarrow> Some x | Inl _ \<Rightarrow> None)"

definition publishedHttpOrigins :: "registry_lib \<Rightarrow> location_record \<Rightarrow> ustring list" where
  "publishedHttpOrigins lib record =
     List.map_filter (\<lambda>address. ok_or_none (bindR (multiaddrToHttpUrl lib address) (exactHttpOrigin lib))) (lp_multiaddrs record)"

definition hostsToMultiaddrs :: "registry_lib \<Rightarrow> ustring list option \<Rightarrow> (location_error, ustring list option) result" where
  "hostsToMultiaddrs lib hosts =
     (case hosts of
        None \<Rightarrow> Inr None
      | Some hs \<Rightarrow>
          if hs = [] then Inr None
          else bindR (mapR (\<lambda>host. if startsWith host (ustr ''/'') then Inr host else httpUrlToMultiaddr lib host) hs) (\<lambda>ms. Inr (Some ms)))"

section \<open>The registry\<close>

text \<open>\<open>fetchLocationRecord\<close>, given what the request is answered with. \<open>body.record\<close> of a body that is
  \<open>null\<close> throws.\<close>

definition body_record :: "json \<Rightarrow> string \<Rightarrow> (location_error, json) result" where
  "body_record body missing =
     (if body = NullJ then Inl OtherFailure
      else case member body ''record'' of None \<Rightarrow> Inl (LocationInvalid missing) | Some r \<Rightarrow> Inr r)"

definition read_body :: "string \<Rightarrow> reply_body \<Rightarrow> (location_error, json) result" where
  "read_body notJson body =
     (case body of
        TooLarge \<Rightarrow> Inl (LocationInvalid ''response is too large'')
      | NotUtf8 \<Rightarrow> Inl OtherFailure
      | NotJson \<Rightarrow> Inl (LocationInvalid notJson)
      | JsonBody j \<Rightarrow> Inr j)"

definition response_ok :: "int \<Rightarrow> bool" where "response_ok status \<longleftrightarrow> 200 \<le> status \<and> status \<le> 299"

definition fetchLocationRecord :: "registry_lib \<Rightarrow> fetch_reply \<Rightarrow> (location_error, location_record option) result" where
  "fetchLocationRecord lib reply =
     (case reply of
        FetchThrows \<Rightarrow> Inl OtherFailure
      | Reply status body \<Rightarrow>
          if status = 404 then Inr None
          else if \<not> response_ok status then Inl (LocationHttp status)
          else bindR (read_body ''registry response is not JSON'' body) (\<lambda>j.
               bindR (body_record j ''registry response missing record'') (\<lambda>r.
               bindR (validateLocationRecord lib r) (\<lambda>record. Inr (Some record)))))"

text \<open>Publication: a current record must be the subject's and verify; it is kept if it lists the origin.\<close>

definition check_current ::
  "registry_lib \<Rightarrow> ustring \<Rightarrow> ustring \<Rightarrow> location_record option \<Rightarrow> (location_error, location_record option) result" where
  "check_current lib subject origin current =
     (case current of
              None \<Rightarrow> Inr None
            | Some c \<Rightarrow>
                if lp_subject c \<noteq> subject then Inl (LocationInvalid ''existing location record signature is invalid'')
                else bindR (verifyLocationRecord lib c) (\<lambda>ok.
                       if \<not> ok then Inl (LocationInvalid ''existing location record signature is invalid'')
                       else Inr (if origin \<in> set (publishedHttpOrigins lib c) then Some c else None)))"

text \<open>The record that is signed when the node is not yet listed.\<close>

definition next_payload :: "ustring \<Rightarrow> location_record option \<Rightarrow> ustring \<Rightarrow> ustring \<Rightarrow> location_payload" where
  "next_payload subject current addr now =
     \<lparr>lp_subject = subject, lp_multiaddrs = (case current of None \<Rightarrow> [] | Some c \<Rightarrow> lp_multiaddrs c) @ [addr],
      lp_updated_at = now, lp_sequence = (case current of None \<Rightarrow> 0 | Some c \<Rightarrow> lp_sequence c + 1)\<rparr>"

text \<open>The answer to the update must be the record that was sent.\<close>

definition put_record ::
  "registry_lib \<Rightarrow> fetch_reply \<Rightarrow> location_record \<Rightarrow> (location_error, location_record \<times> location_record option) result" where
  "put_record lib reply record =
        (case reply of
           FetchThrows \<Rightarrow> Inl OtherFailure
         | Reply status body \<Rightarrow>
             if \<not> response_ok status then Inl (LocationHttp status)
             else bindR (read_body ''registry publish response is not JSON'' body) (\<lambda>j.
                  bindR (body_record j ''registry publish response missing record'') (\<lambda>r.
                  bindR (validateLocationRecord lib r) (\<lambda>published.
                  if payload_text published \<noteq> payload_text record \<or> lr_signature published \<noteq> lr_signature record
                  then Inl (LocationInvalid ''registry publish response does not match the signed record'')
                  else bindR (verifyLocationRecord lib published) (\<lambda>ok.
                       if \<not> ok then Inl (LocationInvalid ''registry publish response does not match the signed record'')
                       else Inr (published, Some record))))))"

text \<open>The answer to the lookup, the time, and the answer to the update, which may depend on the record
  that was sent. The result says whether a record was sent.\<close>

definition publishLocationRecord ::
  "registry_lib \<Rightarrow> ustring \<Rightarrow> ustring \<Rightarrow> ustring \<Rightarrow> location_signer \<Rightarrow> ustring \<Rightarrow> fetch_reply \<Rightarrow> (location_record \<Rightarrow> fetch_reply)
     \<Rightarrow> (location_error, location_record \<times> location_record option) result" where
  "publishLocationRecord lib registryUrl subject nodeOrigin signer now lookup put =
     bindR (validateSubject (Some (StrJ subject))) (\<lambda>_.
     bindR (exactHttpOrigin lib registryUrl) (\<lambda>_.
     bindR (exactHttpOrigin lib nodeOrigin) (\<lambda>origin.
     bindR (fetchLocationRecord lib lookup) (\<lambda>current.
     bindR (check_current lib subject origin current) (\<lambda>live.
     case live of
       Some c \<Rightarrow> Inr (c, None)
     | None \<Rightarrow>
         bindR (httpUrlToMultiaddr lib origin) (\<lambda>addr.
         bindR (signLocationRecord lib (next_payload subject current addr now) signer) (\<lambda>record.
         put_record lib (put record) record)))))))"

text \<open>A share target and what its \<open>/info\<close> answers.\<close>

definition verifyOwnerNodeBinding ::
  "registry_lib \<Rightarrow> ustring \<Rightarrow> ustring \<Rightarrow> ustring \<Rightarrow> ustring \<Rightarrow> fetch_reply \<Rightarrow> fetch_reply \<Rightarrow> (location_error, location_record \<times> ustring \<times> ustring) result" where
  "verifyOwnerNodeBinding lib registryUrl ownerDid nodeOrigin nodeDid lookup info =
     bindR (validateSubject (Some (StrJ ownerDid))) (\<lambda>_.
     bindR (validateSubject (Some (StrJ nodeDid))) (\<lambda>_.
     bindR (exactHttpOrigin lib registryUrl) (\<lambda>_.
     bindR (exactHttpOrigin lib nodeOrigin) (\<lambda>origin.
     bindR (fetchLocationRecord lib lookup) (\<lambda>current.
     case current of
       None \<Rightarrow> Inl (LocationInvalid ''owner has no published location record'')
     | Some record \<Rightarrow>
         if lp_subject record \<noteq> ownerDid then Inl (LocationInvalid ''owner location record signature is invalid'')
         else bindR (verifyLocationRecord lib record) (\<lambda>ok.
           if \<not> ok then Inl (LocationInvalid ''owner location record signature is invalid'')
           else if origin \<notin> set (publishedHttpOrigins lib record)
           then Inl (LocationInvalid ''share target is not in the owner's signed location record'')
           else (case info of
                   FetchThrows \<Rightarrow> Inl OtherFailure
                 | Reply status body \<Rightarrow>
                     if \<not> response_ok status then Inl (LocationInvalid ''target node /info returned HTTP'')
                     else bindR (read_body ''target node /info response is not JSON'' body) (\<lambda>j.
                       if \<not> (case j of ObjJ _ \<Rightarrow> True | _ \<Rightarrow> False) \<or> member j ''nodeId'' \<noteq> Some (StrJ nodeDid)
                       then Inl (LocationInvalid ''target node identity does not match the share attestation'')
                       else Inr (record, origin, nodeDid)))))))))"

section \<open>Candidates\<close>

definition checked_record :: "registry_lib \<Rightarrow> ustring \<Rightarrow> bool \<Rightarrow> json \<Rightarrow> (location_error, location_record) result" where
  "checked_record lib subject verifyRecord input =
     bindR (validateLocationRecord lib input) (\<lambda>record.
       if lp_subject record \<noteq> subject then Inl (LocationInvalid ''location record subject does not match requested subject'')
       else if verifyRecord
       then bindR (verifyLocationRecord lib record) (\<lambda>ok.
              if \<not> ok then Inl (LocationInvalid ''location record signature is invalid'') else Inr record)
       else Inr record)"

definition toCandidate ::
  "registry_lib \<Rightarrow> ustring \<Rightarrow> location_source \<Rightarrow> json option \<Rightarrow> bool \<Rightarrow> (location_error, location_candidate option) result" where
  "toCandidate lib subject source input verifyRecord =
     (case input of
        None \<Rightarrow> Inr None
      | Some NullJ \<Rightarrow> Inr None
      | Some (ArrJ xs) \<Rightarrow>
          bindR (validateMultiaddrs lib (Some (ArrJ xs))) (\<lambda>ms. Inr (Some \<lparr>lc_source = source, lc_multiaddrs = ms, lc_record = None\<rparr>))
      | Some j \<Rightarrow>
          if is_one (member j ''version'') \<and> member j ''signature'' \<noteq> None
          then bindR (checked_record lib subject verifyRecord j) (\<lambda>record.
                 Inr (Some \<lparr>lc_source = source, lc_multiaddrs = lp_multiaddrs record, lc_record = Some record\<rparr>))
          else (case member j ''multiaddrs'' of
                  Some (ArrJ xs) \<Rightarrow>
                    bindR (validateMultiaddrs lib (Some (ArrJ xs))) (\<lambda>ms.
                      case member j ''record'' of
                        None \<Rightarrow> Inr (Some \<lparr>lc_source = source, lc_multiaddrs = ms, lc_record = None\<rparr>)
                      | Some r \<Rightarrow> bindR (checked_record lib subject verifyRecord r) (\<lambda>record.
                                   Inr (Some \<lparr>lc_source = source, lc_multiaddrs = ms, lc_record = Some record\<rparr>)))
                | _ \<Rightarrow> Inl (LocationInvalid ''candidate multiaddrs must be an array'')))"

definition resolveAttempt :: "location_source \<Rightarrow> (location_error, location_candidate option) result \<Rightarrow> resolution_attempt" where
  "resolveAttempt source outcome =
     (case outcome of
        Inl e \<Rightarrow> Failed source e
      | Inr None \<Rightarrow> NoCandidate source
      | Inr (Some c) \<Rightarrow> Candidate c)"

definition resolveMultiaddrs :: "registry_lib \<Rightarrow> ustring \<Rightarrow> location_source \<Rightarrow> ustring list option \<Rightarrow> resolution_attempt" where
  "resolveMultiaddrs lib subject source multiaddrs =
     resolveAttempt source
       (case multiaddrs of
          None \<Rightarrow> Inr None
        | Some ms \<Rightarrow> if ms = [] then Inr None else toCandidate lib subject source (Some (ArrJ (map StrJ ms))) False)"

text \<open>What the blockchain adapter answers (\<open>None\<close> in the outer option: there is no adapter; an error:
  it rejects), and what the centralized registry answers, if one is configured.\<close>

definition resolveBlockchain ::
  "registry_lib \<Rightarrow> ustring \<Rightarrow> (location_error, json option) result option \<Rightarrow> bool \<Rightarrow> resolution_attempt" where
  "resolveBlockchain lib subject answer verifyRecords =
     resolveAttempt Blockchain
       (case answer of
          None \<Rightarrow> Inr None
        | Some r \<Rightarrow> bindR r (\<lambda>input. toCandidate lib subject Blockchain input verifyRecords))"

definition resolveCentralized :: "registry_lib \<Rightarrow> ustring \<Rightarrow> fetch_reply option \<Rightarrow> bool \<Rightarrow> resolution_attempt" where
  "resolveCentralized lib subject reply verifyRecords =
     resolveAttempt Centralized
       (case reply of
          None \<Rightarrow> Inr None
        | Some r \<Rightarrow> bindR (fetchLocationRecord lib r) (\<lambda>record.
                     toCandidate lib subject Centralized (map_option record_json record) verifyRecords))"

fun first_candidate :: "resolution_attempt list \<Rightarrow> location_candidate option" where
  "first_candidate [] = None"
| "first_candidate (Candidate c # _) = Some c"
| "first_candidate (_ # attempts) = first_candidate attempts"

record cloud_options =
  co_explicit :: "ustring list option"
  co_blockchain :: "(location_error, json option) result option"
  co_centralized :: "fetch_reply option"
  co_fallback :: "ustring list option"
  co_verify :: bool

datatype cloud_error = CloudLocation location_error | Unresolved "resolution_attempt list"

definition resolveCloudLocation ::
  "registry_lib \<Rightarrow> ustring \<Rightarrow> cloud_options \<Rightarrow> (cloud_error, location_candidate \<times> resolution_attempt list) result" where
  "resolveCloudLocation lib subject options =
     (case validateSubject (Some (StrJ subject)) of
        Inl e \<Rightarrow> Inl (CloudLocation e)
      | Inr _ \<Rightarrow>
          let attempts = [resolveMultiaddrs lib subject Explicit (co_explicit options),
                resolveBlockchain lib subject (co_blockchain options) (co_verify options),
                resolveCentralized lib subject (co_centralized options) (co_verify options),
                resolveMultiaddrs lib subject Fallback (co_fallback options)]
          in case first_candidate attempts of
               None \<Rightarrow> Inl (Unresolved attempts)
             | Some winner \<Rightarrow> Inr (winner, attempts))"


section \<open>Local nodes\<close>

text \<open>What probing a URL finds: whether \<open>/healthz\<close> answers, and the node DID of \<open>/info\<close>, if it answers
  with one.\<close>

record local_network =
  ln_healthz :: "ustring \<Rightarrow> bool"
  ln_info :: "ustring \<Rightarrow> ustring option"

type_synonym pins = "(ustring \<times> ustring) list"

record local_node =
  node_source :: location_source
  node_url :: ustring
  node_did :: ustring

definition probeAndVerifyLocalCandidate ::
  "local_network \<Rightarrow> ustring option \<Rightarrow> location_source \<times> ustring \<Rightarrow> pins \<Rightarrow> local_node option \<times> pins" where
  "probeAndVerifyLocalCandidate net expectedNodeDid candidate pins =
     (case candidate of (source, url) \<Rightarrow>
        if \<not> ln_healthz net url then (None, pins)
        else case ln_info net url of
               None \<Rightarrow> (None, pins)
             | Some did \<Rightarrow>
                 if did = [] then (None, pins)
                 else let pinned = map_of pins url;
                          expected = (case expectedNodeDid of Some e \<Rightarrow> Some e | None \<Rightarrow> pinned)
                      in if (case expected of None \<Rightarrow> False | Some e \<Rightarrow> e \<noteq> did) then (None, pins)
                         else (Some \<lparr>node_source = source, node_url = url, node_did = did\<rparr>,
                               if pinned = None \<or> expectedNodeDid \<noteq> None then AList.update url did pins else pins))"

fun first_adopted ::
  "local_network \<Rightarrow> ustring option \<Rightarrow> (location_source \<times> ustring) list \<Rightarrow> pins \<Rightarrow> local_node option \<times> pins" where
  "first_adopted net expected [] pins = (None, pins)"
| "first_adopted net expected (c # cs) pins =
     (case probeAndVerifyLocalCandidate net expected c pins of
        (Some node, pins') \<Rightarrow> (Some node, pins')
      | (None, pins') \<Rightarrow> first_adopted net expected cs pins')"

definition LOCAL_LINK_HOST_SUFFIX :: ustring where "LOCAL_LINK_HOST_SUFFIX = ustr ''.local.tinycloud.link''"

definition unit_lower_alnum :: "16 word \<Rightarrow> bool" where
  "unit_lower_alnum u \<longleftrightarrow> unit_digit u \<or> (0x61 \<le> u \<and> u \<le> 0x7A)"

text \<open>\<^verbatim>\<open>/^[a-z0-9]([a-z0-9-]{1,30}[a-z0-9])?$/\<close>\<close>

definition isValidDnsLabel :: "ustring \<Rightarrow> bool" where
  "isValidDnsLabel val = rx_test (Cat (Cls unit_lower_alnum)
     (Maybe (Cat (Between 1 30 (Cls (\<lambda>u. unit_lower_alnum u \<or> u = 0x2D))) (Cls unit_lower_alnum)))) val"

definition isLocalLinkUrl :: "registry_lib \<Rightarrow> ustring \<Rightarrow> bool" where
  "isLocalLinkUrl lib url =
     (case rl_URL lib url of
        None \<Rightarrow> False
      | Some parsed \<Rightarrow> url_protocol parsed = ustr ''https:'' \<and> endsWith (url_hostname parsed) LOCAL_LINK_HOST_SUFFIX)"

definition extractLocalLinkUrls :: "registry_lib \<Rightarrow> location_record option \<Rightarrow> ustring list" where
  "extractLocalLinkUrls lib record =
     (case record of
        None \<Rightarrow> []
      | Some r \<Rightarrow> filter (isLocalLinkUrl lib) (List.map_filter (\<lambda>addr. ok_or_none (multiaddrToHttpUrl lib addr)) (lp_multiaddrs r)))"

text \<open>\<open>reply\<close> is what the registry answers, if there is a subject and a registry to ask.\<close>

definition fetchRegistryLocalLinkCandidates ::
  "registry_lib \<Rightarrow> bool \<Rightarrow> fetch_reply option \<Rightarrow> (location_source \<times> ustring) list \<Rightarrow> (location_source \<times> ustring) list" where
  "fetchRegistryLocalLinkCandidates lib verifyRecords reply existing =
     (case reply of
        None \<Rightarrow> []
      | Some r \<Rightarrow>
          (case fetchLocationRecord lib r of
             Inl _ \<Rightarrow> []
           | Inr None \<Rightarrow> []
           | Inr (Some record) \<Rightarrow>
               if verifyRecords \<and> verifyLocationRecord lib record \<noteq> Inr True then []
               else map (Pair LocalLink) (filter (\<lambda>url. url \<notin> snd ` set existing) (extractLocalLinkUrls lib (Some record)))))"

record discovery_options =
  do_auto :: bool
  do_localNodeUrl :: ustring
  do_localLinkName :: ustring
  do_registry :: "fetch_reply option"
  do_expectedNodeDid :: "ustring option"
  do_verifyRecords :: bool

text \<open>A URL or name that is not given is the empty string.\<close>

definition static_candidates :: "discovery_options \<Rightarrow> (location_source \<times> ustring) list" where
  "static_candidates options =
     (if do_localNodeUrl options \<noteq> [] then [(LocalLoopback, do_localNodeUrl options)] else []) @
     (if do_localLinkName options \<noteq> [] \<and> isValidDnsLabel (do_localLinkName options)
      then [(LocalLink, ustr ''https://'' @ do_localLinkName options @ LOCAL_LINK_HOST_SUFFIX)] else [])"

definition discoverLocalTinyCloudNode ::
  "registry_lib \<Rightarrow> local_network \<Rightarrow> discovery_options \<Rightarrow> pins \<Rightarrow> local_node option \<times> pins" where
  "discoverLocalTinyCloudNode lib net options pins =
     (if \<not> do_auto options then (None, pins)
      else let static = static_candidates options
           in case first_adopted net (do_expectedNodeDid options) static pins of
                (Some node, pins') \<Rightarrow> (Some node, pins')
              | (None, pins') \<Rightarrow>
                  first_adopted net (do_expectedNodeDid options)
                    (fetchRegistryLocalLinkCandidates lib (do_verifyRecords options) (do_registry options) static) pins')"

definition DEFAULT_TINYCLOUD_FALLBACK_HOST :: ustring where
  "DEFAULT_TINYCLOUD_FALLBACK_HOST = ustr ''https://node.tinycloud.xyz''"

text \<open>\<open>resolveTinyCloudHosts\<close>: one answer of the registry serves the local discovery and the
  resolution (the fetch is memoised). \<open>fallbackHosts\<close>: \<open>None\<close> when not given, \<open>Some None\<close> for \<open>null\<close>.\<close>

record host_options =
  ho_explicitHosts :: "ustring list option"
  ho_blockchain :: "(location_error, json option) result option"
  ho_fallbackHosts :: "ustring list option option"
  ho_discovery :: discovery_options

definition located :: "(location_error, 'a) result \<Rightarrow> (cloud_error, 'a) result" where
  "located m = (case m of Inl e \<Rightarrow> Inl (CloudLocation e) | Inr x \<Rightarrow> Inr x)"

definition cloud_hosts ::
  "registry_lib \<Rightarrow> ustring \<Rightarrow> host_options \<Rightarrow> (cloud_error, ustring list \<times> location_source) result" where
  "cloud_hosts lib subject options =
     bindR (located (hostsToMultiaddrs lib (ho_explicitHosts options))) (\<lambda>explicit.
     bindR (located (hostsToMultiaddrs lib
             (case ho_fallbackHosts options of None \<Rightarrow> Some [DEFAULT_TINYCLOUD_FALLBACK_HOST] | Some f \<Rightarrow> f))) (\<lambda>fallback.
     bindR (resolveCloudLocation lib subject
             \<lparr>co_explicit = explicit, co_blockchain = ho_blockchain options, co_centralized = do_registry (ho_discovery options),
              co_fallback = fallback, co_verify = do_verifyRecords (ho_discovery options)\<rparr>) (\<lambda>(winner, _).
     bindR (located (mapR (multiaddrToHttpUrl lib) (lc_multiaddrs winner))) (\<lambda>hosts. Inr (hosts, lc_source winner)))))"

definition resolveTinyCloudHosts ::
  "registry_lib \<Rightarrow> local_network \<Rightarrow> ustring \<Rightarrow> host_options \<Rightarrow> pins \<Rightarrow> (cloud_error, ustring list \<times> location_source) result \<times> pins" where
  "resolveTinyCloudHosts lib net subject options pins =
     (let hasExplicitHosts = (case ho_explicitHosts options of None \<Rightarrow> False | Some hs \<Rightarrow> hs \<noteq> [])
      in if \<not> hasExplicitHosts \<and> do_auto (ho_discovery options)
         then (case discoverLocalTinyCloudNode lib net (ho_discovery options) pins of
                 (Some node, pins') \<Rightarrow>
                   (case httpUrlToMultiaddr lib (node_url node) of
                      Inl e \<Rightarrow> (Inl (CloudLocation e), pins')
                    | Inr _ \<Rightarrow> (Inr ([node_url node], node_source node), pins'))
               | (None, pins') \<Rightarrow> (cloud_hosts lib subject options, pins'))
         else (cloud_hosts lib subject options, pins))"


section \<open>Typed values survive validation\<close>

declare strip_zeros.simps [simp del]

lemma strip_zeros_scaled:
  "0 < n \<Longrightarrow> \<exists>z. n = strip_zeros n * 10 ^ z \<and> length (dec_of_nat n) = length (dec_of_nat (strip_zeros n)) + z"
proof (induction n rule: strip_zeros.induct)
  case (1 n)
  show ?case
  proof (cases "10 dvd n")
    case True
    then obtain m where m: "n = 10 * m" "0 < m" using 1(2) by (auto elim: dvdE)
    with 1 True obtain z where "m = strip_zeros m * 10 ^ z" "length (dec_of_nat m) = length (dec_of_nat (strip_zeros m)) + z"
      by auto
    moreover have "strip_zeros n = strip_zeros m" "length (dec_of_nat n) = Suc (length (dec_of_nat m))"
      using m by (simp_all add: strip_zeros.simps [of "10 * m"] dec_of_nat.simps [of "10 * m"])
    ultimately show ?thesis using m by (intro exI [of _ "Suc z"]) simp
  next
    case False
    then show ?thesis by (intro exI [of _ 0]) (simp add: strip_zeros.simps [of n])
  qed
qed

lemma safe_integer_number_of: "safe_integer (number_of n) = (if n \<le> 2 ^ 53 - 1 then Some (int n) else None)"
proof (cases "n = 0")
  case False
  then obtain z where z: "n = strip_zeros n * 10 ^ z" "length (dec_of_nat n) = length (dec_of_nat (strip_zeros n)) + z"
    using strip_zeros_scaled by auto
  then have "strip_zeros n * 10 ^ nat (int (length (dec_of_nat n)) - int (length (dec_of_nat (strip_zeros n)))) = n"
    by simp
  then show ?thesis
    using False z(2) by (simp add: number_of_def Let_def del: power_numeral diff_numeral_Suc)
qed (simp add: number_of_def)


definition valid_payload :: "registry_lib \<Rightarrow> 'a location_payload_scheme \<Rightarrow> bool" where
  "valid_payload lib p \<longleftrightarrow>
     (startsWith (lp_subject p) (ustr ''did:pkh:'') \<or> startsWith (lp_subject p) (ustr ''did:key:'')) \<and>
     list_all (\<lambda>m. m \<noteq> [] \<and> rl_multiaddr lib m) (lp_multiaddrs p) \<and> rl_dateParses lib (lp_updated_at p) \<and> lp_sequence p \<le> 2 ^ 53 - 1"

lemma payload_members:
  "member (ObjJ (payload_json p @ rest)) ''version'' = Some (NumJ (number_of 1))"
  "member (ObjJ (payload_json p @ rest)) ''subject'' = Some (StrJ (lp_subject p))"
  "member (ObjJ (payload_json p @ rest)) ''multiaddrs'' = Some (ArrJ (map StrJ (lp_multiaddrs p)))"
  "member (ObjJ (payload_json p @ rest)) ''updated_at'' = Some (StrJ (lp_updated_at p))"
  "member (ObjJ (payload_json p @ rest)) ''sequence'' = Some (NumJ (number_of (lp_sequence p)))"
  "member (ObjJ (payload_json p @ [(ustr ''signature'', j)])) ''signature'' = Some j"
  by (simp_all add: payload_json_def ustr_inject)

lemma check_multiaddrs:
  "mapR (check_multiaddr lib) (map StrJ ms) = Inr ns \<longleftrightarrow> ns = ms \<and> list_all (\<lambda>m. m \<noteq> [] \<and> rl_multiaddr lib m) ms"
  by (induction ms arbitrary: ns) (auto simp: check_multiaddr_def result_iff)

lemma validateSubject_iff:
  "validateSubject (Some (StrJ s)) = Inr t \<longleftrightarrow> t = s \<and> (startsWith s (ustr ''did:pkh:'') \<or> startsWith s (ustr ''did:key:''))"
  by (auto simp: validateSubject_def ustr_def)

lemma is_one_number: "is_one (Some (NumJ (number_of (Suc 0))))"
  by (simp add: safe_integer_number_of)

lemma validate_payload_json:
  "validateLocationRecordPayload lib (ObjJ (payload_json p @ rest)) = Inr q \<longleftrightarrow> q = p \<and> valid_payload lib p"
  unfolding validateLocationRecordPayload_def payload_members
  by (auto simp: is_one_number validateSubject_iff validateMultiaddrs_def check_multiaddrs safe_integer_number_of valid_payload_def
        result_iff simp del: is_one.simps)

lemma validate_record_json:
  "validateLocationRecord lib (record_json r) = Inr q \<longleftrightarrow> q = r \<and> valid_payload lib r \<and> lr_signature r \<noteq> []"
  unfolding validateLocationRecord_def record_json_def payload_members
  by (cases r) (auto simp: validate_payload_json result_iff valid_payload_def location_payload.defs location_record.defs with_signature_def)


section \<open>Signed records verify\<close>

definition authentic :: "registry_lib \<Rightarrow> location_record \<Rightarrow> bool" where
  "authentic lib r \<longleftrightarrow>
     (if startsWith (lp_subject r) (ustr ''did:pkh:'') then verifyPkhSignature lib (lp_subject r) (payload_text r) (lr_signature r)
      else verifyDidKeySignature lib (lp_subject r) (payload_text r) (lr_signature r)) = Inr True"

lemma verify_iff_authentic:
  "verifyLocationRecord lib r = Inr True \<longleftrightarrow> valid_payload lib r \<and> lr_signature r \<noteq> [] \<and> authentic lib r"
  unfolding verifyLocationRecord_def
  by (auto simp: bindR_Inr_iff validate_record_json authentic_def Let_def)
    (auto simp: valid_payload_def)

text \<open>A signer for the key of a subject: its signatures are ones the suite's verifier accepts.\<close>

definition signs_for :: "registry_lib \<Rightarrow> ustring \<Rightarrow> location_signer \<Rightarrow> bool" where
  "signs_for lib subject signer \<longleftrightarrow>
     (case signer of
        PkhSigner signMessage \<Rightarrow>
          (\<exists>account address. subject = ustr ''did:pkh:'' @ account @ ustr '':0x'' @ address \<and> length address = 40 \<and> list_all hex_unit address \<and>
             (\<forall>m s. signMessage m = Some s \<longrightarrow>
                (\<exists>digits. s = ustr ''0x'' @ digits \<and> digits \<noteq> [] \<and> list_all hex_unit digits) \<and>
                rl_verifyMessage lib (ustr ''0x'' @ address) m s = Some True))
      | KeySigner signBytes \<Rightarrow>
          (\<exists>i key. subject = ustr ''did:key:z'' @ i \<and> length key = 32 \<and>
             rl_base58 lib (ustr ''z'' @ i) \<in> {Some ([0xED, 0x01] @ key), Some ([0xED] @ key)} \<and>
             (\<forall>m s. signBytes m = Some s \<longrightarrow> length s = 64 \<and> rl_ed25519_verify lib s m key = Some True)))"

lemma pkh_signature:
  assumes "subject = ustr ''did:pkh:'' @ account @ ustr '':0x'' @ address" and "length address = 40" and "list_all hex_unit address"
    and "digits \<noteq> []" and "list_all hex_unit digits"
    and "rl_verifyMessage lib (ustr ''0x'' @ address) m (ustr ''0x'' @ digits) = Some True"
  shows "verifyPkhSignature lib subject m (ustr ''0x'' @ digits) = Inr True"
proof -
  have x: "ustr ''0x'' = [0x30, 0x78]" "ustr '':0x'' = 0x3A # ustr ''0x''" by (simp_all add: ustr_def unit_of_def)
  have "\<not> hex_unit 0x3A" by code_simp
  then have "0x3A \<notin> set (ustr ''0x'' @ address)" using assms(3) by (auto simp: x(1) list_all_iff)
  then have last: "last (splitOn 0x3A subject) = ustr ''0x'' @ address"
    using splitOn_sep [of "0x3A" "ustr ''did:pkh:'' @ account" "ustr ''0x'' @ address"]
    by (simp add: assms(1) x(2) splitOn_id)
  show ?thesis
    unfolding verifyPkhSignature_def Let_def last using assms(2-6) by (simp add: x(1))
qed

lemma key_signature:
  assumes "subject = ustr ''did:key:z'' @ i" and "length key = 32" and "rl_base58 lib (ustr ''z'' @ i) \<in> {Some ([0xED, 0x01] @ key), Some ([0xED] @ key)}"
  shows "ed25519PublicKeyFromDidKey_loc lib subject = Inr key"
proof -
  have "drop (length ''did:key:'') subject = ustr ''z'' @ i" by (simp add: assms(1) ustr_def)
  then show ?thesis using assms(2,3) by (auto simp: ed25519PublicKeyFromDidKey_loc_def Let_def)
qed

lemma with_signature_fields [simp]:
  "lp_subject (with_signature p s) = lp_subject p" "lp_multiaddrs (with_signature p s) = lp_multiaddrs p"
  "lp_updated_at (with_signature p s) = lp_updated_at p" "lp_sequence (with_signature p s) = lp_sequence p"
  "lr_signature (with_signature p s) = s" "payload_text (with_signature p s) = payload_text p"
  "location_payload.truncate (with_signature p s) = p" "valid_payload lib (with_signature p s) = valid_payload lib p"
  by (simp_all add: with_signature_def location_payload.defs location_record.defs payload_text_def valid_payload_def)

lemma signD:
  assumes "signLocationRecord lib p signer = Inr r"
  obtains s where "r = with_signature p s" "valid_payload lib p"
    "case signer of PkhSigner f \<Rightarrow> f (payload_text p) = Some s
       | KeySigner f \<Rightarrow> \<exists>b. f (textEncode (payload_text p)) = Some b \<and> s = base64UrlEncode b"
  using assms validate_payload_json [of lib p "[]"]
  by (auto simp: signLocationRecord_def Let_def result_iff split: location_signer.splits option.splits)

lemma base64_nonempty: "length b = 64 \<Longrightarrow> base64UrlEncode b \<noteq> []"
  using base64_loop_encode [of b] by (cases b) auto

lemma pkh_not_key: "startsWith s (ustr ''did:key:'') \<Longrightarrow> \<not> startsWith s (ustr ''did:pkh:'')"
  by (auto simp: ustr_def unit_of_def prefix_def)

lemma signed_authentic:
  assumes "signLocationRecord lib p signer = Inr r" and "signs_for lib (lp_subject p) signer"
  shows "lr_signature r \<noteq> [] \<and> authentic lib r"
proof -
  from assms(1) obtain s where r: "r = with_signature p s"
    and s: "case signer of PkhSigner f \<Rightarrow> f (payload_text p) = Some s
       | KeySigner f \<Rightarrow> \<exists>b. f (textEncode (payload_text p)) = Some b \<and> s = base64UrlEncode b"
    by (rule signD)
  show ?thesis
  proof (cases signer)
    case (PkhSigner f)
    with assms(2) obtain account address where subject: "lp_subject p = ustr ''did:pkh:'' @ account @ ustr '':0x'' @ address"
        "length address = 40" "list_all hex_unit address"
      and signs: "\<And>m s. f m = Some s \<Longrightarrow> (\<exists>digits. s = ustr ''0x'' @ digits \<and> digits \<noteq> [] \<and> list_all hex_unit digits) \<and>
                rl_verifyMessage lib (ustr ''0x'' @ address) m s = Some True"
      unfolding signs_for_def by auto
    from s PkhSigner signs obtain digits where d: "s = ustr ''0x'' @ digits" "digits \<noteq> []" "list_all hex_unit digits"
        "rl_verifyMessage lib (ustr ''0x'' @ address) (payload_text p) s = Some True" by fastforce
    have "startsWith (lp_subject p) (ustr ''did:pkh:'')" by (simp add: subject(1))
    moreover have "s \<noteq> []" using d(1,2) by simp
    ultimately show ?thesis
      using pkh_signature [OF subject d(2,3)] d(1,4) by (simp add: r authentic_def)
  next
    case (KeySigner f)
    with s obtain b where b: "f (textEncode (payload_text p)) = Some b" "s = base64UrlEncode b" by auto
    from assms(2) KeySigner obtain i key where k: "lp_subject p = ustr ''did:key:z'' @ i" "length key = 32"
        "rl_base58 lib (ustr ''z'' @ i) \<in> {Some ([0xED, 0x01] @ key), Some ([0xED] @ key)}"
        "length b = 64" "rl_ed25519_verify lib b (textEncode (payload_text p)) key = Some True"
      using b(1) unfolding signs_for_def by auto
    have "startsWith (lp_subject p) (ustr ''did:key:'')" by (simp add: k(1) ustr_def)
    then show ?thesis
      using key_signature [OF k(1-3)] k(4,5)
      by (simp add: r b(2) authentic_def pkh_not_key base64_nonempty verifyDidKeySignature_def decodeBase64Url_loc_def base64_loop_encode)
  qed
qed

text \<open>C19: a record that \<open>signLocationRecord\<close> makes with a signer for its subject has the payload that was
  signed and is accepted by \<open>verifyLocationRecord\<close>. A signer for a subject is a wallet whose hexadecimal
  signatures \<^verbatim>\<open>viem\<close> verifies for the address at the end of the \<open>did:pkh\<close>, or a key whose 64-byte signatures
  \<^verbatim>\<open>noble\<close> verifies with the Ed25519 key that the \<open>did:key\<close> spells in base58.\<close>

theorem signed_location_verifies:
  assumes "signLocationRecord lib payload signer = Inr record" and "signs_for lib (lp_subject payload) signer"
  shows "verifyLocationRecord lib record = Inr True \<and> location_payload.truncate record = payload"
  using signed_authentic [OF assms] assms(1) by (auto simp: verify_iff_authentic elim!: signD)


section \<open>Publication\<close>

lemma record_eqI:
  fixes r s :: location_record
  assumes "payload_text r = payload_text s" and "lr_signature r = lr_signature s"
  shows "r = s"
  using assms unfolding payload_text_def canonicalLocationPayload_inject by (intro location_record.equality) simp_all

lemma next_payload_fields [simp]:
  "lp_subject (next_payload subject current addr now) = subject"
  "lp_multiaddrs (next_payload subject current addr now) = (case current of None \<Rightarrow> [] | Some c \<Rightarrow> lp_multiaddrs c) @ [addr]"
  "lp_sequence (next_payload subject current addr now) = (case current of None \<Rightarrow> 0 | Some c \<Rightarrow> Suc (lp_sequence c))"
  by (simp_all add: next_payload_def split: option.split)

definition owned :: "registry_lib \<Rightarrow> ustring \<Rightarrow> location_record \<Rightarrow> bool" where
  "owned lib subject c \<longleftrightarrow> lp_subject c = subject \<and> verifyLocationRecord lib c = Inr True"

lemma check_current_iff:
  "check_current lib subject origin current = Inr live \<longleftrightarrow>
     (case current of None \<Rightarrow> live = None
      | Some c \<Rightarrow> owned lib subject c \<and> live = (if origin \<in> set (publishedHttpOrigins lib c) then Some c else None))"
  by (auto simp: check_current_def owned_def result_iff split: option.split)

lemma put_recordD:
  assumes "put_record lib reply record = Inr (published, sent)"
  shows "sent = Some record \<and> published = record \<and> verifyLocationRecord lib record = Inr True"
proof -
  from assms have "payload_text published = payload_text record" "lr_signature published = lr_signature record"
    "sent = Some record" "verifyLocationRecord lib published = Inr True"
    unfolding put_record_def by (auto split: fetch_reply.split_asm if_split_asm elim!: bindR_InrE)
  with record_eqI [of published "record"] show ?thesis by simp
qed

lemma publishE:
  assumes "publishLocationRecord lib registryUrl subject nodeOrigin signer now lookup put = Inr (published, sent)"
  obtains (live) origin where "exactHttpOrigin lib nodeOrigin = Inr origin" "fetchLocationRecord lib lookup = Inr (Some published)"
      "owned lib subject published" "origin \<in> set (publishedHttpOrigins lib published)" "sent = None"
    | (sent) origin current addr where "exactHttpOrigin lib nodeOrigin = Inr origin" "fetchLocationRecord lib lookup = Inr current"
      "\<And>c. current = Some c \<Longrightarrow> owned lib subject c \<and> origin \<notin> set (publishedHttpOrigins lib c)"
      "httpUrlToMultiaddr lib origin = Inr addr"
      "signLocationRecord lib (next_payload subject current addr now) signer = Inr published"
      "put_record lib (put published) published = Inr (published, sent)"
proof -
  from assms obtain origin current live where o: "exactHttpOrigin lib nodeOrigin = Inr origin" "fetchLocationRecord lib lookup = Inr current"
    and live: "check_current lib subject origin current = Inr live"
    and r: "(case live of Some c \<Rightarrow> Inr (c, None)
       | None \<Rightarrow> bindR (httpUrlToMultiaddr lib origin) (\<lambda>addr.
         bindR (signLocationRecord lib (next_payload subject current addr now) signer) (\<lambda>record.
         put_record lib (put record) record))) = Inr (published, sent)"
    unfolding publishLocationRecord_def by (elim bindR_InrE) (rule that)
  show thesis
  proof (cases live)
    case None
    with r obtain addr sealed where a: "httpUrlToMultiaddr lib origin = Inr addr"
      "signLocationRecord lib (next_payload subject current addr now) signer = Inr sealed"
      "put_record lib (put sealed) sealed = Inr (published, sent)"
      by (auto elim!: bindR_InrE)
    with put_recordD [OF a(3)] show thesis
      using o live None by (intro that(2)) (auto simp: check_current_iff split: if_split_asm)
  next
    case (Some c)
    then show thesis
      using o live r by (intro that(1)) (auto simp: check_current_iff split: if_split_asm option.split_asm)
  qed
qed

text \<open>C13: what \<open>publishLocationRecord\<close> returns is a record of the subject that verifies. Either it is the
  registry's current record and lists the node's origin, and nothing is sent; or it is the record that was
  signed and sent, which says: sequence one more than the current record's (zero, if there is none), the
  addresses of the current record, in order, followed by the node's, and the time of the call. A current
  record that is replaced was itself the subject's, verified, and did not list the origin.\<close>

theorem published_location:
  assumes "publishLocationRecord lib registryUrl subject nodeOrigin signer now lookup put = Inr (published, sent)"
  shows "lp_subject published = subject \<and> verifyLocationRecord lib published = Inr True \<and>
    (\<exists>origin current. exactHttpOrigin lib nodeOrigin = Inr origin \<and> fetchLocationRecord lib lookup = Inr current \<and>
      (case sent of
         None \<Rightarrow> current = Some published \<and> origin \<in> set (publishedHttpOrigins lib published)
       | Some record \<Rightarrow>
           published = record \<and> lp_updated_at record = now \<and>
           (\<exists>addr. httpUrlToMultiaddr lib origin = Inr addr \<and>
              (case current of
                 None \<Rightarrow> lp_sequence record = 0 \<and> lp_multiaddrs record = [addr]
               | Some c \<Rightarrow>
                   lp_sequence record = lp_sequence c + 1 \<and> lp_multiaddrs record = lp_multiaddrs c @ [addr] \<and>
                   lp_subject c = subject \<and> verifyLocationRecord lib c = Inr True \<and> origin \<notin> set (publishedHttpOrigins lib c)))))"
  using assms
proof (cases rule: publishE)
  case (live origin)
  then show ?thesis by (auto simp: owned_def)
next
  case (sent origin current addr)
  then have p: "sent = Some published" "verifyLocationRecord lib published = Inr True"
    using put_recordD by auto
  from sent(5) obtain s where "published = with_signature (next_payload subject current addr now) s" by (rule signD)
  then have f: "lp_subject published = subject" "lp_updated_at published = now"
      "lp_multiaddrs published = (case current of None \<Rightarrow> [] | Some c \<Rightarrow> lp_multiaddrs c) @ [addr]"
      "lp_sequence published = (case current of None \<Rightarrow> 0 | Some c \<Rightarrow> Suc (lp_sequence c))"
    by (simp_all add: next_payload_def split: option.split)
  show ?thesis
    using sent(1-4) p f by (cases current) (auto simp: owned_def)
qed

text \<open>C26: publication is idempotent. If the registry answers the next lookup with the record that was
  published, publishing the same node again returns it and sends nothing.\<close>

theorem publish_idempotent:
  assumes "publishLocationRecord lib registryUrl subject nodeOrigin signer now lookup put = Inr (published, sent)"
    and "\<And>origin addr. httpUrlToMultiaddr lib origin = Inr addr \<Longrightarrow> exactHttpOrigin lib nodeOrigin = Inr origin \<Longrightarrow>
           bindR (multiaddrToHttpUrl lib addr) (exactHttpOrigin lib) = Inr origin"
  shows "publishLocationRecord lib registryUrl subject nodeOrigin signer' now'
           (Reply 200 (JsonBody (ObjJ [(ustr ''record'', record_json published)]))) put' = Inr (published, None)"
proof -
  let ?lookup = "Reply 200 (JsonBody (ObjJ [(ustr ''record'', record_json published)]))"
  have valid: "verifyLocationRecord lib published = Inr True \<Longrightarrow> fetchLocationRecord lib ?lookup = Inr (Some published)"
    by (simp add: fetchLocationRecord_def response_ok_def read_body_def body_record_def verify_iff_authentic
        validate_record_json [of lib published published, THEN iffD2])
  from assms(1) have s: "validateSubject (Some (StrJ subject)) = Inr subject" "\<exists>u. exactHttpOrigin lib registryUrl = Inr u"
    unfolding publishLocationRecord_def by (auto elim!: bindR_InrE simp: validateSubject_iff)
  from assms(1) obtain origin where o: "exactHttpOrigin lib nodeOrigin = Inr origin" "owned lib subject published"
    "origin \<in> set (publishedHttpOrigins lib published)"
  proof (cases rule: publishE)
    case (sent origin current addr)
    have v: "verifyLocationRecord lib published = Inr True" using put_recordD [OF sent(6)] by simp
    from sent(5) have "location_payload.truncate published = next_payload subject current addr now"
      by (auto elim!: signD)
    then have f: "lp_subject published = subject" "addr \<in> set (lp_multiaddrs published)"
      by (auto simp: location_payload.truncate_def next_payload_def)
    from assms(2) [OF sent(4) sent(1)] have "ok_or_none (bindR (multiaddrToHttpUrl lib addr) (exactHttpOrigin lib)) = Some origin"
      by (simp add: ok_or_none_def)
    with f(2) have "origin \<in> set (publishedHttpOrigins lib published)"
      by (force simp: publishedHttpOrigins_def List.map_filter_def)
    with that sent(1) v f(1) show thesis by (simp add: owned_def)
  qed
  then have v: "fetchLocationRecord lib ?lookup = Inr (Some published)" using valid by (simp add: owned_def)
  from o have "check_current lib subject origin (Some published) = Inr (Some published)"
    by (simp add: check_current_iff)
  with s o v show ?thesis by (auto simp: publishLocationRecord_def)
qed


section \<open>The owner's node\<close>

text \<open>C28: \<open>verifyOwnerNodeBinding\<close> accepts a share target only if the registry's record for the owner
  is the owner's and verifies, the target's exact origin is one that the record publishes, and
  the target itself answers with the node DID of the attestation.\<close>

theorem owner_node_bound:
  assumes "verifyOwnerNodeBinding lib registryUrl ownerDid nodeOrigin nodeDid lookup info = Inr (r, origin, did)"
  shows "fetchLocationRecord lib lookup = Inr (Some r) \<and> owned lib ownerDid r \<and> did = nodeDid \<and>
    exactHttpOrigin lib nodeOrigin = Inr origin \<and>
    (\<exists>addr \<in> set (lp_multiaddrs r). \<exists>uri. multiaddrToHttpUrl lib addr = Inr uri \<and> exactHttpOrigin lib uri = Inr origin) \<and>
    (\<exists>status fs. info = Reply status (JsonBody (ObjJ fs)) \<and> response_ok status \<and> map_of fs (ustr ''nodeId'') = Some (StrJ nodeDid))"
proof -
  have published: "u \<in> set (publishedHttpOrigins lib r) \<Longrightarrow>
      \<exists>addr \<in> set (lp_multiaddrs r). \<exists>uri. multiaddrToHttpUrl lib addr = Inr uri \<and> exactHttpOrigin lib uri = Inr u" for u r
    by (auto simp: publishedHttpOrigins_def List.map_filter_def ok_or_none_def result_iff split: sum.split_asm) blast
  have body: "read_body missing b = Inr j \<Longrightarrow> b = JsonBody j" for missing b j
    by (auto simp: read_body_def split: reply_body.split_asm)
  show ?thesis
    using assms unfolding verifyOwnerNodeBinding_def
    by (auto simp: owned_def split: option.split_asm if_split_asm fetch_reply.split_asm json.split_asm
        dest!: published body elim!: bindR_InrE) blast
qed

section \<open>Local nodes\<close>

lemma probe_adopted:
  assumes "probeAndVerifyLocalCandidate net expected c pins = (Some node, pins')"
  shows "(node_source node, node_url node) = c \<and> ln_healthz net (node_url node) \<and> ln_info net (node_url node) = Some (node_did node) \<and>
    (case expected of Some e \<Rightarrow> node_did node = e | None \<Rightarrow> map_of pins (node_url node) \<in> {None, Some (node_did node)}) \<and>
    map_of pins' = (map_of pins)(node_url node \<mapsto> node_did node)"
  using assms unfolding probeAndVerifyLocalCandidate_def
  by (cases c) (auto simp: Let_def update_conv' fun_upd_idem split: option.split_asm if_split_asm)

lemma probe_rejected: "probeAndVerifyLocalCandidate net expected c pins = (None, pins') \<Longrightarrow> pins' = pins"
  unfolding probeAndVerifyLocalCandidate_def by (auto simp: Let_def split: option.split_asm if_split_asm prod.split_asm)

lemma first_adopted_Some:
  "first_adopted net expected cs pins = (Some node, pins') \<Longrightarrow> \<exists>c \<in> set cs. probeAndVerifyLocalCandidate net expected c pins = (Some node, pins')"
  by (induction cs) (auto split: option.split_asm prod.split_asm dest: probe_rejected)

lemma first_adopted_None: "first_adopted net expected cs pins = (None, pins') \<Longrightarrow> pins' = pins"
  by (induction cs) (auto split: option.split_asm prod.split_asm dest: probe_rejected)

lemma discovered:
  assumes "discoverLocalTinyCloudNode lib net options pins = (found, pins')"
  shows "case found of
       None \<Rightarrow> pins' = pins
     | Some node \<Rightarrow>
         (\<exists>source_url \<in> set (static_candidates options @
            fetchRegistryLocalLinkCandidates lib (do_verifyRecords options) (do_registry options) (static_candidates options)).
            (node_source node, node_url node) = source_url) \<and>
         ln_healthz net (node_url node) \<and> ln_info net (node_url node) = Some (node_did node) \<and>
         (case do_expectedNodeDid options of
            Some e \<Rightarrow> node_did node = e
          | None \<Rightarrow> map_of pins (node_url node) \<in> {None, Some (node_did node)}) \<and>
         map_of pins' = (map_of pins)(node_url node \<mapsto> node_did node)"
  using assms unfolding discoverLocalTinyCloudNode_def Let_def
  by (fastforce split: if_split_asm option.splits prod.split_asm
      dest: first_adopted_None dest!: first_adopted_Some probe_adopted)

text \<open>A pinned node is never replaced. Whatever node \<open>discoverLocalTinyCloudNode\<close> adopts answers at its
  URL with its DID, and that DID is the expected one if one is given, and otherwise the one pinned for
  the URL if there is one. Pins are only ever written for the adopted URL, with the adopted DID,
  and without an expected DID none that exists changes.\<close>

theorem adopted_node_trusted:
  assumes "discoverLocalTinyCloudNode lib net options pins = (Some node, pins')"
  shows "ln_healthz net (node_url node) \<and> ln_info net (node_url node) = Some (node_did node) \<and>
    (case do_expectedNodeDid options of
       Some e \<Rightarrow> node_did node = e
     | None \<Rightarrow> map_of pins (node_url node) \<in> {None, Some (node_did node)}) \<and>
    map_of pins' = (map_of pins)(node_url node \<mapsto> node_did node)"
  using discovered [OF assms] by simp

text \<open>Discoveries one after the other, each on the pins the last one left.\<close>

fun discover_all ::
  "registry_lib \<Rightarrow> (local_network \<times> discovery_options) list \<Rightarrow> pins \<Rightarrow> local_node list \<times> pins" where
  "discover_all lib [] pins = ([], pins)"
| "discover_all lib ((net, options) # runs) pins =
     (case discoverLocalTinyCloudNode lib net options pins of
        (found, pins') \<Rightarrow> (case discover_all lib runs pins' of (nodes, pins'') \<Rightarrow> ((case found of None \<Rightarrow> [] | Some n \<Rightarrow> [n]) @ nodes, pins'')))"

lemma discover_pinned:
  assumes "do_expectedNodeDid options = None" and "map_of pins u = Some d"
    and "discoverLocalTinyCloudNode lib net options pins = (found, pins')"
  shows "map_of pins' u = Some d \<and> (\<forall>n. found = Some n \<and> node_url n = u \<longrightarrow> node_did n = d)"
  using discovered [OF assms(3)] assms(1,2) by (auto split: option.split_asm)

text \<open>C31: trust on first use holds over any number of discoveries that expect no particular DID: once a URL
  is pinned, its pin never changes, and every node adopted at that URL has the pinned DID.\<close>

theorem pinned_forever:
  assumes "discover_all lib runs pins = (nodes, pins')" and "map_of pins u = Some d"
    and "\<forall>(net, options) \<in> set runs. do_expectedNodeDid options = None"
  shows "map_of pins' u = Some d \<and> (\<forall>n \<in> set nodes. node_url n = u \<longrightarrow> node_did n = d)"
  using assms
proof (induction lib runs pins arbitrary: nodes rule: discover_all.induct)
  case (2 lib net options runs pins)
  then obtain found pins1 nodes1 where f: "discoverLocalTinyCloudNode lib net options pins = (found, pins1)"
    "discover_all lib runs pins1 = (nodes1, pins')" "nodes = (case found of None \<Rightarrow> [] | Some n \<Rightarrow> [n]) @ nodes1"
    by (auto split: prod.split_asm)
  have "map_of pins1 u = Some d \<and> (\<forall>n. found = Some n \<and> node_url n = u \<longrightarrow> node_did n = d)"
    using 2 f(1) by (intro discover_pinned) auto
  with 2 f show ?case by (auto split: option.split_asm)
qed simp

section \<open>The order of the sources\<close>

definition is_candidate :: "resolution_attempt \<Rightarrow> bool" where
  "is_candidate a = (case a of Candidate _ \<Rightarrow> True | _ \<Rightarrow> False)"

lemma first_candidateD:
  "first_candidate attempts = Some c \<Longrightarrow>
     \<exists>before after. attempts = before @ Candidate c # after \<and> (\<forall>a \<in> set before. \<not> is_candidate a)"
proof (induction attempts)
  case (Cons a attempts)
  show ?case
  proof (cases "is_candidate a")
    case True
    then obtain c' where "a = Candidate c'" by (auto simp: is_candidate_def split: resolution_attempt.split_asm)
    with Cons show ?thesis by (intro exI [of _ "[]"] exI [of _ attempts]) simp
  next
    case False
    then have "first_candidate (a # attempts) = first_candidate attempts"
      by (cases a) (simp_all add: is_candidate_def)
    with Cons obtain before after where "attempts = before @ Candidate c # after" "\<forall>a \<in> set before. \<not> is_candidate a"
      by auto
    with False show ?thesis by (intro exI [of _ "a # before"] exI [of _ after]) simp
  qed
qed simp

lemma toCandidate_source: "toCandidate lib subject source input b = Inr (Some c) \<Longrightarrow> lc_source c = source"
  unfolding toCandidate_def
  by (auto split: option.split_asm json.split_asm if_split_asm elim!: bindR_InrE)

definition source_of :: "resolution_attempt \<Rightarrow> location_source" where
  "source_of a = (case a of NoCandidate s \<Rightarrow> s | Candidate c \<Rightarrow> lc_source c | Failed s _ \<Rightarrow> s)"

lemma source_of_attempt:
  assumes "\<And>c. outcome = Inr (Some c) \<Longrightarrow> lc_source c = source"
  shows "source_of (resolveAttempt source outcome) = source"
  using assms by (auto simp: resolveAttempt_def source_of_def split: sum.split option.split)

lemma attempt_sources:
  "source_of (resolveMultiaddrs lib subject source ms) = source"
  "source_of (resolveBlockchain lib subject answer b) = Blockchain"
  "source_of (resolveCentralized lib subject reply b) = Centralized"
  unfolding resolveMultiaddrs_def resolveBlockchain_def resolveCentralized_def
  by (rule source_of_attempt; auto simp: toCandidate_source split: option.split_asm if_split_asm elim!: bindR_InrE dest: toCandidate_source)+

lemma checked_record_owned: "checked_record lib subject True j = Inr r \<Longrightarrow> owned lib subject r"
  unfolding checked_record_def owned_def by (auto elim!: bindR_InrE split: if_split_asm)

lemma candidate_record_owned:
  assumes "toCandidate lib subject source input True = Inr (Some c)" and "lc_record c = Some r"
  shows "owned lib subject r"
  using assms unfolding toCandidate_def
  by (auto split: option.split_asm json.split_asm if_split_asm elim!: bindR_InrE dest!: checked_record_owned)

lemma Candidate_attempt: "resolveAttempt source outcome = Candidate c \<longleftrightarrow> outcome = Inr (Some c)"
  by (simp add: resolveAttempt_def split: sum.split option.split)

lemma record_json_members:
  "member (record_json r) ''version'' = Some (NumJ (number_of 1))" "member (record_json r) ''signature'' = Some (StrJ (lr_signature r))"
  unfolding record_json_def payload_members by (rule refl)+

lemma centralized_record:
  assumes "toCandidate lib subject source (Some (record_json r)) b = Inr (Some c)"
  shows "lc_record c = Some r \<and> lc_multiaddrs c = lp_multiaddrs r"
proof -
  have "is_one (member (record_json r) ''version'') \<and> member (record_json r) ''signature'' \<noteq> None"
    unfolding record_json_members by (simp add: is_one_number del: is_one.simps)
  moreover obtain fs where fs: "record_json r = ObjJ fs" by (simp add: record_json_def)
  moreover have "validateLocationRecord lib (ObjJ fs) = Inr x \<Longrightarrow> x = r" for x
    using validate_record_json [of lib r x] fs by simp
  ultimately show ?thesis
    using assms by (auto simp: toCandidate_def checked_record_def elim!: bindR_InrE split: if_split_asm)
qed

lemma centralized_candidate:
  assumes "resolveCentralized lib subject reply True = Candidate c"
  shows "\<exists>r. lc_record c = Some r \<and> owned lib subject r \<and> lc_multiaddrs c = lp_multiaddrs r"
proof -
  from assms obtain found where t: "toCandidate lib subject Centralized (map_option record_json found) True = Inr (Some c)"
    by (auto simp: resolveCentralized_def Candidate_attempt split: option.split_asm elim!: bindR_InrE)
  then obtain r where "found = Some r" by (cases found) (auto simp: toCandidate_def)
  with t show ?thesis
    using centralized_record [of lib subject Centralized r True c] candidate_record_owned [OF t] by simp
qed

lemma multiaddrs_candidate:
  "resolveMultiaddrs lib subject source ms = Candidate c \<Longrightarrow> lc_record c = None"
  by (auto simp: resolveMultiaddrs_def Candidate_attempt toCandidate_def split: option.split_asm if_split_asm elim!: bindR_InrE)

lemma blockchain_candidate:
  "resolveBlockchain lib subject answer True = Candidate c \<Longrightarrow> lc_record c = Some r \<Longrightarrow> owned lib subject r"
  by (auto simp: resolveBlockchain_def Candidate_attempt split: option.split_asm elim!: bindR_InrE dest: candidate_record_owned)

definition verified_winner :: "registry_lib \<Rightarrow> ustring \<Rightarrow> location_candidate \<Rightarrow> bool" where
  "verified_winner lib subject winner \<longleftrightarrow>
     (\<forall>r. lc_record winner = Some r \<longrightarrow> owned lib subject r) \<and>
     (lc_source winner = Centralized \<longrightarrow> (\<exists>r. lc_record winner = Some r \<and> lc_multiaddrs winner = lp_multiaddrs r))"

lemma attempt_verified:
  "resolveMultiaddrs lib subject source ms = Candidate c \<Longrightarrow> source \<noteq> Centralized \<Longrightarrow> verified_winner lib subject c"
  "resolveBlockchain lib subject answer True = Candidate c \<Longrightarrow> verified_winner lib subject c"
  "resolveCentralized lib subject reply True = Candidate c \<Longrightarrow> verified_winner lib subject c"
proof -
  have s: "source_of (Candidate c) = lc_source c" for c by (simp add: source_of_def)
  show "resolveMultiaddrs lib subject source ms = Candidate c \<Longrightarrow> source \<noteq> Centralized \<Longrightarrow> verified_winner lib subject c"
    using attempt_sources(1) [of lib subject source ms] multiaddrs_candidate [of lib subject source ms c] by (auto simp: s verified_winner_def)
  show "resolveBlockchain lib subject answer True = Candidate c \<Longrightarrow> verified_winner lib subject c"
    using attempt_sources(2) [of lib subject answer True] blockchain_candidate [of lib subject answer c] by (auto simp: s verified_winner_def)
  show "resolveCentralized lib subject reply True = Candidate c \<Longrightarrow> verified_winner lib subject c"
    using centralized_candidate [of lib subject reply c] by (auto simp: verified_winner_def)
qed

text \<open>C22: \<open>resolveCloudLocation\<close> tries explicit addresses, the blockchain, the registry and the fallback, in this
  order, and takes the first that gives a candidate; the fallback is taken only when none of the
  others gave one. With verification on, a record that comes with the winner is the subject's and
  verifies, and a winner from the registry has exactly the addresses of its record.\<close>

theorem cloud_location_order:
  assumes "resolveCloudLocation lib subject options = Inr (winner, attempts)"
  shows "map source_of attempts = [Explicit, Blockchain, Centralized, Fallback] \<and>
    (\<exists>before after. attempts = before @ Candidate winner # after \<and> (\<forall>a \<in> set before. \<not> is_candidate a)) \<and>
    (co_verify options \<longrightarrow> verified_winner lib subject winner)"
proof -
  let ?explicit = "resolveMultiaddrs lib subject Explicit (co_explicit options)"
    and ?blockchain = "resolveBlockchain lib subject (co_blockchain options) (co_verify options)"
    and ?centralized = "resolveCentralized lib subject (co_centralized options) (co_verify options)"
    and ?fallback = "resolveMultiaddrs lib subject Fallback (co_fallback options)"
  from assms have a: "attempts = [?explicit, ?blockchain, ?centralized, ?fallback]" and w: "first_candidate attempts = Some winner"
    by (auto simp: resolveCloudLocation_def Let_def split: sum.split_asm option.split_asm)
  from first_candidateD [OF w] have f: "\<exists>before after. attempts = before @ Candidate winner # after \<and> (\<forall>a \<in> set before. \<not> is_candidate a)" .
  then have "Candidate winner \<in> set attempts" by auto
  then have "co_verify options \<longrightarrow> verified_winner lib subject winner"
    unfolding a by (auto dest: attempt_verified [OF sym] attempt_verified(2,3) [OF sym])
  moreover from a have "map source_of attempts = [Explicit, Blockchain, Centralized, Fallback]" by (simp add: attempt_sources)
  ultimately show ?thesis using f by blast
qed


section \<open>Instances\<close>

text \<open>A library in which every URL is an origin, an address is a slash and a URL, and the one key signs.\<close>

definition plain_url :: "ustring \<Rightarrow> url" where
  "plain_url s = \<lparr>url_protocol = ustr ''https:'', url_hostname = ustr ''n'', url_username = [], url_password = [],
     url_pathname = ustr ''/'', url_search = [], url_hash = [], url_origin = s, url_href = s\<rparr>"

definition ascii_decode :: "bytes \<Rightarrow> ustring option" where
  "ascii_decode bytes = (if list_all (\<lambda>b. b < 0x80) bytes then Some (map ucast bytes) else None)"

definition loc_lib :: registry_lib where
  "loc_lib = \<lparr>rl_evm = lower_evm, rl_base58 = (\<lambda>_. Some ([0xED, 1] @ replicate 32 7)), rl_verifyMessage = (\<lambda>_ _ _. Some False),
     rl_ed25519_strict = (\<lambda>s _ k. Some (s = replicate 64 0 \<and> k = replicate 32 7)),
     rl_ed25519_verify = (\<lambda>s _ k. Some (s = replicate 64 0 \<and> k = replicate 32 7)),
     rl_URL = (\<lambda>s. Some (plain_url s)), rl_multiaddr = (\<lambda>_. True), rl_multiaddrToUri = (\<lambda>s. Some (drop 1 s)),
     rl_uriToMultiaddr = (\<lambda>s. Some (0x2F # s)), rl_decodeUtf8 = ascii_decode, rl_dateParses = (\<lambda>_. True)\<rparr>"

definition loc_subject :: ustring where "loc_subject = ustr ''did:key:z6''"
definition loc_origin :: ustring where "loc_origin = ustr ''https://n''"
definition loc_signer :: location_signer where "loc_signer = KeySigner (\<lambda>_. Some (replicate 64 0))"

definition loc_payload :: location_payload where
  "loc_payload = next_payload loc_subject None (0x2F # loc_origin) []"

definition loc_record :: location_record where
  "loc_record = with_signature loc_payload (base64UrlEncode (replicate 64 0))"

lemma loc_prefix: "startsWith loc_subject (ustr ''did:key:'')"
  by (simp add: loc_subject_def ustr_def)

lemma loc_signs: "signs_for loc_lib (lp_subject loc_payload) loc_signer"
proof -
  have "loc_subject = ustr ''did:key:z'' @ ustr ''6''" by (simp add: loc_subject_def ustr_def)
  then show ?thesis
    unfolding signs_for_def loc_signer_def location_signer.case
    by (intro exI [of _ "ustr ''6''"] exI [of _ "replicate 32 7"]) (simp add: loc_lib_def loc_payload_def)
qed

text \<open>A wallet: the subject is its account, and one hexadecimal text is its signature.\<close>

definition wallet_lib :: registry_lib where
  "wallet_lib = loc_lib\<lparr>rl_verifyMessage := (\<lambda>address _ s. Some (address = ustr ''0x'' @ replicate 40 0x61 \<and> s = ustr ''0x1b''))\<rparr>"

definition wallet_signer :: location_signer where "wallet_signer = PkhSigner (\<lambda>_. Some (ustr ''0x1b''))"

definition wallet_payload :: location_payload where
  "wallet_payload = next_payload (ustr ''did:pkh:eip155:1:0x'' @ replicate 40 0x61) None (0x2F # loc_origin) []"

lemma wallet_signs: "signs_for wallet_lib (lp_subject wallet_payload) wallet_signer"
proof -
  have s: "ustr ''did:pkh:eip155:1:0x'' @ replicate 40 0x61 = ustr ''did:pkh:'' @ ustr ''eip155:1'' @ ustr '':0x'' @ replicate 40 0x61"
    by (simp add: ustr_def)
  have "list_all hex_unit (replicate 40 0x61)" "list_all hex_unit (ustr ''1b'')" by code_simp+
  moreover have "ustr ''0x1b'' = ustr ''0x'' @ ustr ''1b''" "ustr ''1b'' \<noteq> []" by (simp_all add: ustr_def)
  ultimately show ?thesis
    unfolding signs_for_def wallet_signer_def location_signer.case wallet_payload_def next_payload_fields s
    by (intro exI [of _ "ustr ''eip155:1''"] exI [of _ "replicate 40 0x61"]) (auto simp: wallet_lib_def)
qed

lemma wallet_signed: "\<exists>record. signLocationRecord wallet_lib wallet_payload wallet_signer = Inr record"
proof -
  have "valid_payload wallet_lib wallet_payload"
    by (simp add: valid_payload_def wallet_payload_def) (simp add: wallet_lib_def loc_lib_def next_payload_def ustr_def)
  then show ?thesis
    using validate_payload_json [of wallet_lib wallet_payload "[]" wallet_payload]
    by (simp add: signLocationRecord_def wallet_signer_def Let_def)
qed

lemma loc_valid: "valid_payload loc_lib loc_payload"
  using loc_prefix by (simp add: valid_payload_def loc_payload_def) (simp add: loc_lib_def next_payload_def)

lemma loc_signed: "signLocationRecord loc_lib loc_payload loc_signer = Inr loc_record"
  using validate_payload_json [of loc_lib loc_payload "[]" loc_payload] loc_valid
  by (simp add: signLocationRecord_def loc_signer_def loc_record_def Let_def)

lemma loc_authentic: "verifyLocationRecord loc_lib loc_record = Inr True"
  using signed_authentic [OF loc_signed loc_signs] loc_valid
  by (simp add: verify_iff_authentic loc_record_def)

lemma loc_validated: "validateLocationRecord loc_lib (record_json loc_record) = Inr loc_record"
  using loc_authentic by (simp add: verify_iff_authentic validate_record_json)

lemma loc_addresses [simp]:
  "rl_uriToMultiaddr loc_lib u = Some (0x2F # u)" "rl_multiaddrToUri loc_lib u = Some (drop 1 u)"
  "rl_URL loc_lib u = Some (plain_url u)" "url_href (plain_url u) = u" "url_protocol (plain_url u) = ustr ''https:''"
  by (simp_all add: loc_lib_def plain_url_def)

lemma loc_origins: "exactHttpOrigin loc_lib u = Inr u"
  by (simp add: exactHttpOrigin_def loc_lib_def plain_url_def ustr_def unit_of_def)

definition record_reply :: "location_record \<Rightarrow> fetch_reply" where
  "record_reply r = Reply 200 (JsonBody (ObjJ [(ustr ''record'', record_json r)]))"

lemma loc_fetched: "fetchLocationRecord loc_lib (record_reply loc_record) = Inr (Some loc_record)"
  by (simp add: fetchLocationRecord_def record_reply_def response_ok_def read_body_def body_record_def loc_validated)

lemma loc_published:
  "publishLocationRecord loc_lib loc_origin loc_subject loc_origin loc_signer [] (Reply 404 TooLarge) record_reply
     = Inr (loc_record, Some loc_record)"
proof -
  have "put_record loc_lib (record_reply loc_record) loc_record = Inr (loc_record, Some loc_record)"
    by (simp add: put_record_def record_reply_def response_ok_def read_body_def body_record_def loc_validated loc_authentic)
  moreover have "httpUrlToMultiaddr loc_lib loc_origin = Inr (0x2F # loc_origin)"
    by (simp add: httpUrlToMultiaddr_def)
  moreover have "validateSubject (Some (StrJ loc_subject)) = Inr loc_subject"
    using loc_prefix by (simp add: validateSubject_iff)
  ultimately show ?thesis
    using loc_signed
    by (simp add: publishLocationRecord_def loc_origins fetchLocationRecord_def check_current_def loc_payload_def)
qed

theorem signed_location_verifies_witness:
  "verifyLocationRecord loc_lib loc_record = Inr True \<and>
   (\<exists>record. signLocationRecord wallet_lib wallet_payload wallet_signer = Inr record \<and> verifyLocationRecord wallet_lib record = Inr True)"
  using signed_location_verifies [OF loc_signed loc_signs] wallet_signed signed_location_verifies [OF _ wallet_signs] by blast

theorem published_location_witness: "lp_subject loc_record = loc_subject \<and> lp_sequence loc_record = 0"
  using published_location [OF loc_published] by (auto simp: fetchLocationRecord_def)

theorem publish_idempotent_witness:
  "publishLocationRecord loc_lib loc_origin loc_subject loc_origin loc_signer [] (record_reply loc_record) record_reply
     = Inr (loc_record, None)"
  unfolding record_reply_def
proof (rule publish_idempotent [OF loc_published [unfolded record_reply_def]])
  fix origin addr
  assume "httpUrlToMultiaddr loc_lib origin = Inr addr" "exactHttpOrigin loc_lib loc_origin = Inr origin"
  then show "bindR (multiaddrToHttpUrl loc_lib addr) (exactHttpOrigin loc_lib) = Inr origin"
    by (auto simp: loc_origins multiaddrToHttpUrl_def httpUrlToMultiaddr_def loc_origin_def ustr_def)
qed


definition info_reply :: "ustring \<Rightarrow> fetch_reply" where
  "info_reply did = Reply 200 (JsonBody (ObjJ [(ustr ''nodeId'', StrJ did)]))"

lemma loc_publishes: "publishedHttpOrigins loc_lib loc_record = [loc_origin]"
  by (simp add: publishedHttpOrigins_def loc_record_def loc_payload_def multiaddrToHttpUrl_def loc_origins ok_or_none_def
      List.map_filter_def) (simp add: loc_origin_def ustr_def)

lemma loc_bound:
  "verifyOwnerNodeBinding loc_lib loc_origin loc_subject loc_origin loc_subject (record_reply loc_record)
     (info_reply loc_subject) = Inr (loc_record, loc_origin, loc_subject)"
proof -
  have "validateSubject (Some (StrJ loc_subject)) = Inr loc_subject" "lp_subject loc_record = loc_subject"
    using loc_prefix by (simp_all add: validateSubject_iff loc_record_def loc_payload_def)
  then show ?thesis
    by (simp add: verifyOwnerNodeBinding_def loc_origins loc_fetched loc_authentic loc_publishes info_reply_def
        response_ok_def read_body_def)
qed

theorem owner_node_bound_witness: "owned loc_lib loc_subject loc_record"
  using owner_node_bound [OF loc_bound] by simp

definition loc_net :: "ustring \<Rightarrow> local_network" where
  "loc_net did = \<lparr>ln_healthz = (\<lambda>_. True), ln_info = (\<lambda>_. Some did)\<rparr>"

definition loc_discovery :: discovery_options where
  "loc_discovery = \<lparr>do_auto = True, do_localNodeUrl = loc_origin, do_localLinkName = [], do_registry = None,
     do_expectedNodeDid = None, do_verifyRecords = True\<rparr>"

lemma loc_adopted:
  "discoverLocalTinyCloudNode loc_lib (loc_net loc_subject) loc_discovery [] =
     (Some \<lparr>node_source = LocalLoopback, node_url = loc_origin, node_did = loc_subject\<rparr>, [(loc_origin, loc_subject)])"
  by (simp add: discoverLocalTinyCloudNode_def loc_discovery_def static_candidates_def probeAndVerifyLocalCandidate_def loc_net_def)
    (simp add: loc_origin_def loc_subject_def ustr_def)

theorem adopted_node_trusted_witness: "map_of [(loc_origin, loc_subject)] loc_origin = Some loc_subject"
  using adopted_node_trusted [OF loc_adopted] by simp

text \<open>A second node that answers at the pinned URL with another DID is not adopted.\<close>

lemma loc_run:
  "discover_all loc_lib [(loc_net loc_subject, loc_discovery), (loc_net (ustr ''did:key:z7''), loc_discovery)]
     [(loc_origin, loc_subject)] =
     ([\<lparr>node_source = LocalLoopback, node_url = loc_origin, node_did = loc_subject\<rparr>], [(loc_origin, loc_subject)])"
  by (simp add: discoverLocalTinyCloudNode_def loc_discovery_def static_candidates_def probeAndVerifyLocalCandidate_def loc_net_def
      fetchRegistryLocalLinkCandidates_def)
    (simp add: loc_origin_def loc_subject_def ustr_def unit_of_inject)

theorem pinned_forever_witness:
  "\<exists>n pins. discover_all loc_lib [(loc_net loc_subject, loc_discovery), (loc_net (ustr ''did:key:z7''), loc_discovery)]
       [(loc_origin, loc_subject)] = ([n], pins) \<and>
     map_of pins loc_origin = Some loc_subject \<and> node_did n = loc_subject"
  using pinned_forever [OF loc_run, of loc_origin loc_subject] loc_run by (simp add: loc_discovery_def)

definition loc_options :: cloud_options where
  "loc_options = \<lparr>co_explicit = None, co_blockchain = None, co_centralized = Some (record_reply loc_record),
     co_fallback = Some [0x2F # loc_origin], co_verify = True\<rparr>"

lemma loc_resolved:
  "\<exists>winner attempts. resolveCloudLocation loc_lib loc_subject loc_options = Inr (winner, attempts) \<and> lc_source winner = Centralized"
proof -
  have s: "lp_subject loc_record = loc_subject" by (simp add: loc_record_def loc_payload_def)
  have "checked_record loc_lib loc_subject True (record_json loc_record) = Inr loc_record"
    by (simp add: checked_record_def loc_validated loc_authentic s)
  moreover obtain fs where fs: "record_json loc_record = ObjJ fs" by (simp add: record_json_def)
  ultimately have "resolveCentralized loc_lib loc_subject (Some (record_reply loc_record)) True =
      Candidate \<lparr>lc_source = Centralized, lc_multiaddrs = lp_multiaddrs loc_record, lc_record = Some loc_record\<rparr>"
    using record_json_members [of loc_record] is_one_number
    by (simp add: resolveCentralized_def Candidate_attempt loc_fetched toCandidate_def del: member.simps is_one.simps)
  moreover have "validateSubject (Some (StrJ loc_subject)) = Inr loc_subject"
    using loc_prefix by (simp add: validateSubject_iff)
  moreover have "resolveMultiaddrs loc_lib loc_subject Explicit None = NoCandidate Explicit"
    "resolveBlockchain loc_lib loc_subject None True = NoCandidate Blockchain"
    by (simp_all add: resolveMultiaddrs_def resolveBlockchain_def resolveAttempt_def)
  ultimately show ?thesis by (simp add: resolveCloudLocation_def loc_options_def Let_def)
qed

theorem cloud_location_order_witness: "\<exists>c. verified_winner loc_lib loc_subject c \<and> lc_source c = Centralized"
proof -
  from loc_resolved obtain winner attempts where w: "resolveCloudLocation loc_lib loc_subject loc_options = Inr (winner, attempts)"
    "lc_source winner = Centralized" by blast
  show ?thesis
    using cloud_location_order [OF w(1)] w(2) by (auto simp: loc_options_def)
qed

end
