(* ===== verification/PinStore.thy ===== *)
theory PinStore
  imports Location
begin

text \<open>
  The two stores of pinned node identities in \<^verbatim>\<open>packages/sdk-core/src/location.ts\<close> (in memory and in
  \<open>localStorage\<close>) behind the interface \<open>LocalNodeIdentityStore\<close>, and the probe of a local candidate
  through that interface.

  The interface is the locale \<open>pin_store\<close>; both stores are instances. Its lemmas show that a probe
  trusts on first use whatever the store, and that the two stores cannot be told apart.
\<close>

section \<open>The stores\<close>

definition memory_pin_get :: "pins \<Rightarrow> ustring \<Rightarrow> json option \<times> pins" where
  "memory_pin_get pins url = (map_option StrJ (map_of pins url), pins)"

definition memory_pin_set :: "pins \<Rightarrow> ustring \<Rightarrow> ustring \<Rightarrow> pins" where
  "memory_pin_set pins url nodeDid = AList.update url nodeDid pins"

text \<open>The item of the storage: absent or empty, not JSON, or a value. A value that is not an object is
  removed.\<close>

type_synonym pin_item = "json option option"

definition readPins :: "pin_item \<Rightarrow> json_object \<times> pin_item" where
  "readPins item =
     (case item of
        Some (Some (ObjJ pins)) \<Rightarrow> (pins, item)
      | _ \<Rightarrow> ([], None))"

definition local_pin_get :: "pin_item \<Rightarrow> ustring \<Rightarrow> json option \<times> pin_item" where
  "local_pin_get item url = (case readPins item of (pins, item') \<Rightarrow> (map_of pins url, item'))"

definition local_pin_set :: "pin_item \<Rightarrow> ustring \<Rightarrow> ustring \<Rightarrow> pin_item" where
  "local_pin_set item url nodeDid = Some (Some (ObjJ (AList.update url (StrJ nodeDid) (fst (readPins item)))))"

section \<open>A probe through a store\<close>

definition probe_with ::
  "('s \<Rightarrow> ustring \<Rightarrow> json option \<times> 's) \<Rightarrow> ('s \<Rightarrow> ustring \<Rightarrow> ustring \<Rightarrow> 's) \<Rightarrow> local_network \<Rightarrow> ustring option
     \<Rightarrow> location_source \<times> ustring \<Rightarrow> 's \<Rightarrow> local_node option \<times> 's" where
  "probe_with get put net expectedNodeDid candidate st =
     (case candidate of (source, url) \<Rightarrow>
        if \<not> ln_healthz net url then (None, st)
        else case ln_info net url of
               None \<Rightarrow> (None, st)
             | Some did \<Rightarrow>
                 if did = [] then (None, st)
                 else (case get st url of (pinned, st') \<Rightarrow>
                   let expected = (case expectedNodeDid of Some e \<Rightarrow> Some (StrJ e) | None \<Rightarrow> pinned)
                   in if (case expected of None \<Rightarrow> False | Some e \<Rightarrow> e \<noteq> StrJ did) then (None, st')
                      else (Some \<lparr>node_source = source, node_url = url, node_did = did\<rparr>,
                            if pinned = None \<or> expectedNodeDid \<noteq> None then put st' url did else st')))"

section \<open>The contract\<close>

text \<open>What the probe decides depends on the store only through the pins it holds.\<close>

definition decides :: "local_network \<Rightarrow> ustring option \<Rightarrow> location_source \<times> ustring \<Rightarrow> (ustring \<Rightarrow> json option) \<Rightarrow> local_node option" where
  "decides net expectedNodeDid candidate pinned =
     (case candidate of (source, url) \<Rightarrow>
        case (if ln_healthz net url then ln_info net url else None) of
          None \<Rightarrow> None
        | Some did \<Rightarrow>
            if did \<noteq> [] \<and> (case (case expectedNodeDid of Some e \<Rightarrow> Some (StrJ e) | None \<Rightarrow> pinned url) of None \<Rightarrow> True | Some e \<Rightarrow> e = StrJ did)
            then Some \<lparr>node_source = source, node_url = url, node_did = did\<rparr> else None)"

locale pin_store =
  fixes get :: "'s \<Rightarrow> ustring \<Rightarrow> json option \<times> 's"
    and put :: "'s \<Rightarrow> ustring \<Rightarrow> ustring \<Rightarrow> 's"
    and pinned_at :: "'s \<Rightarrow> ustring \<Rightarrow> json option"
  assumes get_value: "fst (get st url) = pinned_at st url"
    and get_keeps: "pinned_at (snd (get st url)) = pinned_at st"
    and put_pins: "pinned_at (put st url did) = (pinned_at st)(url \<mapsto> StrJ did)"
begin

lemma probe_decides:
  "fst (probe_with get put net expected candidate st) = decides net expected candidate (pinned_at st)"
proof (cases candidate)
  case (Pair source url)
  obtain p st' where g: "get st url = (p, st')" by (cases "get st url")
  with get_value [of st url] have "p = pinned_at st url" by simp
  with g Pair show ?thesis
    by (auto simp: probe_with_def decides_def Let_def split: option.split)
qed

lemma probe_pins:
  "pinned_at (snd (probe_with get put net expected candidate st)) =
     (case decides net expected candidate (pinned_at st) of
        None \<Rightarrow> pinned_at st
      | Some node \<Rightarrow> (pinned_at st)(node_url node \<mapsto> StrJ (node_did node)))"
proof (cases candidate)
  case (Pair source url)
  obtain p st' where g: "get st url = (p, st')" by (cases "get st url")
  with get_value [of st url] get_keeps [of st url] have "p = pinned_at st url" "pinned_at st' = pinned_at st" by simp_all
  with g Pair show ?thesis
    by (auto simp: probe_with_def decides_def Let_def put_pins fun_upd_idem split: option.split)
qed

end

definition memory_pinned :: "pins \<Rightarrow> ustring \<Rightarrow> json option" where
  "memory_pinned pins url = map_option StrJ (map_of pins url)"

definition local_pinned :: "pin_item \<Rightarrow> ustring \<Rightarrow> json option" where
  "local_pinned item url = map_of (fst (readPins item)) url"

interpretation memory_pins: pin_store memory_pin_get memory_pin_set memory_pinned
  by unfold_locales (auto simp: memory_pin_get_def memory_pin_set_def memory_pinned_def update_conv' fun_eq_iff)

interpretation local_pins: pin_store local_pin_get local_pin_set local_pinned
  by unfold_locales
    (auto simp: local_pin_get_def local_pin_set_def local_pinned_def readPins_def update_conv' fun_eq_iff
      split: option.split json.split)

text \<open>The probe of \<open>Location\<close> is the one on the store in memory.\<close>

lemma probe_memory:
  "probe_with memory_pin_get memory_pin_set net expected candidate pins = probeAndVerifyLocalCandidate net expected candidate pins"
  by (cases candidate)
    (auto simp: probe_with_def probeAndVerifyLocalCandidate_def memory_pin_get_def memory_pin_set_def Let_def split: option.split)

text \<open>Candidates one after the other, each through the store.\<close>

fun probe_all ::
  "('s \<Rightarrow> ustring \<Rightarrow> json option \<times> 's) \<Rightarrow> ('s \<Rightarrow> ustring \<Rightarrow> ustring \<Rightarrow> 's) \<Rightarrow> (local_network \<times> ustring option \<times> location_source \<times> ustring) list
     \<Rightarrow> 's \<Rightarrow> local_node option list \<times> 's" where
  "probe_all get put [] st = ([], st)"
| "probe_all get put ((net, expected, candidate) # cs) st =
     (case probe_with get put net expected candidate st of
        (found, st') \<Rightarrow> (case probe_all get put cs st' of (rest, st'') \<Rightarrow> (found # rest, st'')))"

text \<open>C25: the store in \<open>localStorage\<close> refines the one in memory: started from an item that holds the same pins,
  any sequence of probes adopts the same nodes through both, and leaves the same pins in both. An
  item that is missing or corrupt holds no pins.\<close>

theorem local_pins_refine:
  assumes "local_pinned item = memory_pinned pins"
  shows "fst (probe_all local_pin_get local_pin_set probes item) = fst (probe_all memory_pin_get memory_pin_set probes pins) \<and>
    local_pinned (snd (probe_all local_pin_get local_pin_set probes item)) =
    memory_pinned (snd (probe_all memory_pin_get memory_pin_set probes pins))"
  using assms
proof (induction probes arbitrary: item pins)
  case (Cons p probes)
  obtain net expected candidate where p: "p = (net, expected, candidate)" by (cases p)
  obtain a item' where l: "probe_with local_pin_get local_pin_set net expected candidate item = (a, item')" by (rule prod.exhaust)
  obtain b pins' where m: "probe_with memory_pin_get memory_pin_set net expected candidate pins = (b, pins')" by (rule prod.exhaust)
  have "a = b" "local_pinned item' = memory_pinned pins'"
    using local_pins.probe_decides [of net expected candidate item] memory_pins.probe_decides [of net expected candidate pins]
      local_pins.probe_pins [of net expected candidate item] memory_pins.probe_pins [of net expected candidate pins]
    unfolding l m Cons.prems fst_conv snd_conv by simp_all
  with Cons.IH [of item' pins'] show ?case
    unfolding p probe_all.simps l m prod.case by (auto split: prod.split)
qed simp

theorem local_pins_refine_witness:
  "fst (probe_all local_pin_get local_pin_set [(loc_net loc_subject, None, LocalLink, loc_origin)] (Some None)) =
   fst (probe_all memory_pin_get memory_pin_set [(loc_net loc_subject, None, LocalLink, loc_origin)] [])"
  using local_pins_refine [of "Some None" "[]" "[(loc_net loc_subject, None, LocalLink, loc_origin)]"]
  by (simp add: local_pinned_def memory_pinned_def readPins_def fun_eq_iff)

end
