(* ===== verification/RecordAgreement.thy ===== *)
theory RecordAgreement
  imports Location
begin

section \<open>The two verifiers agree\<close>

lemma unit_of_char: "u < 0x80 \<Longrightarrow> unit_of (char_of (unat u)) = u"
  unfolding word_unat_eq_iff unat_unit_of by (simp add: word_less_nat_alt)

lemma hex_unit_of: "hex_unit (unit_of c) \<longleftrightarrow> is_hex c"
  by (auto simp: hex_unit_def word_le_nat_alt unat_unit_of char_class_defs)

lemma ustr_did_chars: "CHR 0x00 \<notin> set (did_chars s) \<Longrightarrow> ustr (did_chars s) = s"
proof -
  assume z: "CHR 0x00 \<notin> set (did_chars s)"
  have "unit_of (if u < 0x80 then char_of (unat u) else CHR 0x00) = u" if "u \<in> set s" for u :: "16 word"
  proof (cases "u < 0x80")
    case False
    with that have "CHR 0x00 \<in> set (did_chars s)" by (force simp: did_chars_def)
    with z show ?thesis by simp
  qed (simp add: unit_of_char)
  then show ?thesis by (simp add: ustr_def did_chars_def map_idI)
qed

lemma ustr_append: "ustr (a @ b) = ustr a @ ustr b"
  by (simp add: ustr_def)

lemma pkh_subject:
  assumes "pkh_match (did_chars s) = Some (c, a)"
  shows "s = ustr (PKH_HEAD @ c) @ 0x3A # ustr a \<and> 0x3A \<notin> set (ustr a) \<and> rx_test ADDRESS_RE a"
proof -
  from assms have d: "did_chars s = PKH_HEAD @ c @ CHR '':'' # a" and r: "rx_test DIGITS_RE c" "rx_test ADDRESS_RE a"
    by (auto simp: pkh_match_iff)
  have c: "list_all is_digit c" using r(1) by (simp add: DIGITS_RE_iff)
  obtain h where h: "a = ''0x'' @ h" "list_all is_hex h" using r(2) by (auto simp: ADDRESS_RE_iff)
  have z: "CHR 0x00 \<notin> set c" "CHR 0x00 \<notin> set h" "CHR '':'' \<notin> set h"
    by (rule list_all_notin [OF c], simp add: char_class_defs) (rule list_all_notin [OF h(2)], simp add: char_class_defs)+
  have "CHR 0x00 \<notin> set (did_chars s)" unfolding d by (simp add: PKH_HEAD_def z h(1))
  from ustr_did_chars [OF this] have "s = ustr (PKH_HEAD @ c) @ ustr (CHR '':'' # a)"
    unfolding d by (simp add: ustr_append)
  moreover have "ustr (CHR '':'' # a) = 0x3A # ustr a" "0x3A \<notin> set (ustr a)"
    using ustr_char [of "CHR '':''" a] z(3) h(1) by (auto simp: ustr_def unit_of_def)
  ultimately show ?thesis using r(2) by simp
qed

lemma address_units:
  assumes "rx_test ADDRESS_RE a"
  shows "startsWith (ustr a) (ustr ''0x'') \<and> length (ustr a) = 42 \<and> list_all hex_unit (drop 2 (ustr a))"
proof -
  from assms obtain h where h: "a = ''0x'' @ h" "list_all is_hex h" "length h = 40"
    by (auto simp: ADDRESS_RE_iff)
  have "list_all hex_unit (ustr h)"
    using h(2) by (simp add: list_all_iff ustr_def hex_unit_of)
  with h show ?thesis by (simp add: ustr_append) (simp add: ustr_def)
qed

lemma indexOf_defined: "c \<in> set xs \<Longrightarrow> \<exists>i. indexOf xs c = Some i"
  by (induction xs) auto

lemma base64_loop_total:
  "list_all (\<lambda>u. u \<in> set BASE64URL_ALPHABET) cs \<Longrightarrow> bits < 8 \<Longrightarrow>
     \<exists>out. base64_loop cs buffer bits bytes = Inr out \<and> length out = length bytes + (bits + 6 * length cs) div 8"
proof (induction cs arbitrary: buffer bits bytes)
  case (Cons c cs)
  then obtain i where i: "indexOf BASE64URL_ALPHABET c = Some i" using indexOf_defined [of c BASE64URL_ALPHABET] by auto
  let ?b = "push_bit 6 buffer OR of_nat i :: 32 word"
  show ?case
  proof (cases "8 \<le> bits + 6")
    case True
    let ?bytes = "bytes @ [ucast (signed_drop_bit (bits + 6 - 8) ?b AND 0xFF)]"
    have "bits + 6 - 8 < 8" using Cons.prems by simp
    with Cons.IH [of "bits + 6 - 8" ?b ?bytes] Cons.prems True
    obtain out where "base64_loop cs ?b (bits + 6 - 8) ?bytes = Inr out" "length out = Suc (length bytes) + (bits + 6 - 8 + 6 * length cs) div 8"
      by auto
    moreover have "Suc ((bits + 6 - 8 + 6 * length cs) div 8) = (bits + 6 * length (c # cs)) div 8" using True by simp
    ultimately show ?thesis using i True by (simp add: Let_def)
  next
    case False
    with Cons.IH [of "bits + 6" ?b bytes] Cons.prems i show ?thesis by (simp add: Let_def add.assoc)
  qed
qed simp

definition of_v1 :: "v1_record \<Rightarrow> location_record" where
  "of_v1 r = \<lparr>lp_subject = v1_subject r, lp_multiaddrs = v1_multiaddrs r, lp_updated_at = v1_updated_at r,
     lp_sequence = v1_sequence r, lr_signature = v1_signature r\<rparr>"

lemma pkh_signature_agrees:
  assumes "isCanonicalSubject lib (v1_subject r)" and "startsWith (v1_subject r) (ustr ''did:pkh:'')" and "verifyRecordSignature lib r"
  shows "lr_signature (of_v1 r) \<noteq> [] \<and> authentic lib (of_v1 r)"
proof -
  let ?s = "v1_subject r"
  have "\<not> startsWith ?s (ustr ''did:key:z'')"
    using assms(2) by (auto simp: ustr_def unit_of_def prefix_def)
  with assms(1) obtain c a where "pkh_match (did_chars ?s) = Some (c, a)"
    by (auto simp: isCanonicalSubject_def subject_match_def ed25519KeyFromDidKey_def split: option.split_asm if_split_asm)
  then have s: "?s = ustr (PKH_HEAD @ c) @ 0x3A # ustr a" "0x3A \<notin> set (ustr a)" "rx_test ADDRESS_RE a"
    using pkh_subject by auto
  have "splitLast 0x3A ?s = Some (ustr (PKH_HEAD @ c), ustr a)" using s by (simp add: splitLast_Some_iff)
  then have addr: "address_of ?s = ustr a" "last (splitOn 0x3A ?s) = ustr a"
    using s by (simp_all add: address_of_def) (simp add: splitOn_sep splitOn_id)
  show ?thesis
    using assms(2,3) address_units [OF s(3)]
    by (auto simp: verifyRecordSignature_def authentic_def of_v1_def verifyPkhSignature_def addr payload_text_def Let_def
        split: if_split_asm option.split_asm dest!: arg_cong [of "drop 2 _" _ length])
qed

lemma key_signature_agrees:
  assumes "\<not> startsWith (v1_subject r) (ustr ''did:pkh:'')" and "verifyRecordSignature lib r"
    and "\<And>s m k. rl_ed25519_strict lib s m k = Some True \<Longrightarrow> rl_ed25519_verify lib s m k = Some True"
  shows "startsWith (v1_subject r) (ustr ''did:key:'') \<and> lr_signature (of_v1 r) \<noteq> [] \<and> authentic lib (of_v1 r)"
proof -
  let ?sig = "v1_signature r" and ?payload = "payload_text (of_v1 r)"
  from assms(1,2) obtain pk where pk: "ed25519KeyFromDidKey lib (v1_subject r) = Some pk"
    and sig: "length ?sig = 86" "list_all (\<lambda>u. u \<in> set BASE64URL_ALPHABET) ?sig"
    and ok: "rl_ed25519_strict lib (signature_loop ?sig 0 0 []) (textEncode ?payload) pk = Some True"
    by (auto simp: verifyRecordSignature_def Let_def payload_text_def of_v1_def split: option.split_asm if_split_asm)
  obtain out where out: "base64_loop ?sig 0 0 [] = Inr out" "length out = 64"
    using base64_loop_total [OF sig(2), of 0 0 "[]"] sig(1) by auto
  then have "signature_loop ?sig 0 0 [] = out" by (intro signature_loop_base64) simp_all
  with ok assms(3) have "rl_ed25519_verify lib out (textEncode ?payload) pk = Some True" by simp
  moreover obtain t where t: "v1_subject r = ustr ''did:key:z'' @ t"
    using pk by (auto simp: ed25519KeyFromDidKey_def prefix_def split: if_split_asm)
  moreover have "ed25519PublicKeyFromDidKey_loc lib (v1_subject r) = Inr pk"
    using pk by (auto simp: ed25519KeyFromDidKey_def ed25519PublicKeyFromDidKey_loc_def Let_def t ustr_def split: option.split_asm if_split_asm)
  ultimately show ?thesis
    using assms(1) out sig(1)
    by (auto simp: authentic_def of_v1_def verifyDidKeySignature_def decodeBase64Url_loc_def payload_text_def prefix_def ustr_def)
qed

lemma read_recordD:
  assumes "read_record members = Some r"
  shows "list_all (\<lambda>m. m \<noteq> []) (v1_multiaddrs r) \<and> v1_sequence r \<le> 2 ^ 53 - 1"
proof -
  have "list_all (\<lambda>e. case e of TextS s \<Rightarrow> s \<noteq> [] | _ \<Rightarrow> False) es \<Longrightarrow>
      list_all (\<lambda>m. m \<noteq> []) (map (\<lambda>e. case e of TextS s \<Rightarrow> s | _ \<Rightarrow> []) es)" for es
    by (induction es) (auto split: strict_json.splits)
  then have m: "nonempty_texts entries = Some ms \<Longrightarrow> list_all (\<lambda>m. m \<noteq> []) ms" for entries ms
    by (auto simp: nonempty_texts_def split: if_split_asm)
  have n: "sequence_of seq = Some k \<Longrightarrow> k \<le> 2 ^ 53 - 1" for seq k
    by (auto simp: sequence_of_def split: if_split_asm)
  show ?thesis
    using assms unfolding read_record_def Let_def
    by (auto dest: m n split: option.split_asm strict_json.split_asm if_split_asm)
qed

text \<open>C16: the two verifiers of location records agree where the strict one accepts. A registry answer that
  \<open>classifyRegistryLookup\<close> calls registered holds a record for exactly the subject, with a sequence not below
  the remembered one, that \<open>verifyLocationRecord\<close> of \<^verbatim>\<open>location.ts\<close> accepts as well, as long as its addresses
  and its time parse, and the Ed25519 verification of the one accepts what the stricter one accepts.\<close>

theorem registered_record_verifies:
  assumes "classifyRegistryLookup lib subject (HttpResponse status body) remembered = Inr (Registered subject' n hosts)"
    and "\<And>s m k. rl_ed25519_strict lib s m k = Some True \<Longrightarrow> rl_ed25519_verify lib s m k = Some True"
    and "\<And>r. parseRecordResponse body = Some r \<Longrightarrow> list_all (rl_multiaddr lib) (v1_multiaddrs r) \<and> rl_dateParses lib (v1_updated_at r)"
  shows "\<exists>r. parseRecordResponse body = Some r \<and> subject' = subject \<and> n = v1_sequence r \<and> hosts = record_hosts lib r \<and>
    (\<forall>m. remembered = Some m \<longrightarrow> m \<le> int n) \<and> owned lib subject (of_v1 r)"
proof -
  from assms(1) obtain r where r: "parseRecordResponse body = Some r" "v1_subject r = subject" "verifyRecordSignature lib r"
    and c: "isCanonicalSubject lib subject"
    and f: "subject' = subject" "n = v1_sequence r" "hosts = record_hosts lib r" "\<forall>m. remembered = Some m \<longrightarrow> m \<le> int n"
    by (auto simp: classifyRegistryLookup_def classify_body_def not_less split: if_split_asm option.split_asm)
  from r(1) have "list_all (\<lambda>m. m \<noteq> []) (v1_multiaddrs r) \<and> v1_sequence r \<le> 2 ^ 53 - 1"
    by (auto simp: parseRecordResponse_def dest: read_recordD split: option.split_asm strict_json.split_asm)
  with assms(3) [OF r(1)] have v: "list_all (\<lambda>m. m \<noteq> [] \<and> rl_multiaddr lib m) (v1_multiaddrs r)"
    "rl_dateParses lib (v1_updated_at r)" "v1_sequence r \<le> 2 ^ 53 - 1" by (auto simp: list_all_iff)
  have "owned lib subject (of_v1 r)"
  proof (cases "startsWith subject (ustr ''did:pkh:'')")
    case True
    with pkh_signature_agrees [of lib r] r c v show ?thesis
      by (simp add: owned_def verify_iff_authentic valid_payload_def) (simp add: of_v1_def)
  next
    case False
    with key_signature_agrees [of r lib] r v assms(2) show ?thesis
      by (simp add: owned_def verify_iff_authentic valid_payload_def) (simp add: of_v1_def)
  qed
  with r f show ?thesis by blast
qed


section \<open>An instance\<close>

definition quote_plain :: "ustring \<Rightarrow> ustring" where "quote_plain s = 0x22 # s @ [0x22]"

definition object_text :: "(ustring \<times> strict_json \<times> ustring) list \<Rightarrow> ustring" where
  "object_text items = 0x7B # joinWith [0x2C] (map (\<lambda>(k, v, t). quote_plain k @ 0x3A # t) items) @ [0x7D]"

definition plain_unit_s :: "16 word \<Rightarrow> bool" where "plain_unit_s u \<longleftrightarrow> 0x20 \<le> u \<and> u \<noteq> 0x22 \<and> u \<noteq> 0x5C"

lemma padded_self: "padded t t"
  by (auto simp: padded_def spaces_def intro!: exI [of _ "[]"])

lemma quoted_plain: "list_all plain_unit_s s \<Longrightarrow> quoted s (quote_plain s)"
  unfolding quoted_def quote_plain_def
  by (induction s) (auto simp: plain_unit_s_def intro: string_text.intros)

lemma object_text_json:
  assumes "d < MAX_JSON_DEPTH" and "items \<noteq> []" and "distinct (map fst items)"
    and "\<forall>(k, v, t) \<in> set items. list_all plain_unit_s k \<and> json_text (Suc d) v t"
  shows "json_text d (MapS (map (\<lambda>(k, v, t). (k, v)) items)) (object_text items)"
proof -
  let ?items = "map (\<lambda>(k, v, t). ((k, v), quote_plain k @ 0x3A # t)) items"
  have f: "map fst ?items = map (\<lambda>(k, v, t). (k, v)) items" "map snd ?items = map (\<lambda>(k, v, t). quote_plain k @ 0x3A # t) items"
    "map (fst \<circ> fst) ?items = map fst items" by auto
  have "json_text d (MapS (map fst ?items)) (0x7B # joinWith [0x2C] (map snd ?items) @ [0x7D])"
  proof (rule json_text.object [OF assms(1)])
    show "\<forall>k v p. ((k, v), p) \<in> set ?items \<longrightarrow>
      (\<exists>q q' t t'. quoted k q \<and> padded q q' \<and> json_text (Suc d) v t \<and> padded t t' \<and> p = q' @ 0x3A # t')"
      using assms(4) quoted_plain padded_self by fastforce
    show "distinct (map (fst \<circ> fst) ?items)" unfolding f(3) by (rule assms(3))
  qed (use assms(2) in simp)
  then show ?thesis unfolding f object_text_def .
qed

lemma text_json: "list_all plain_unit_s s \<Longrightarrow> json_text d (TextS s) (quote_plain s)"
  by (intro json_text.text_value quoted_plain)

lemma array_json:
  "d < MAX_JSON_DEPTH \<Longrightarrow> json_text (Suc d) v t \<Longrightarrow> json_text d (ArrayS [v]) (0x5B # t @ [0x5D])"
  using json_text.array [of d "[(v, t)]"] padded_self by auto

definition loc_v1 :: v1_record where
  "loc_v1 = \<lparr>v1_subject = loc_subject, v1_multiaddrs = [0x2F # loc_origin], v1_updated_at = ustr ''2024-01-01T00:00:00Z'',
     v1_sequence = 7, v1_signature = base64UrlEncode (replicate 64 0)\<rparr>"

definition loc_members :: "(ustring \<times> strict_json \<times> ustring) list" where
  "loc_members =
     [(ustr ''version'', IntegerS (ustr ''1''), ustr ''1''),
      (ustr ''subject'', TextS loc_subject, quote_plain loc_subject),
      (ustr ''multiaddrs'', ArrayS [TextS (0x2F # loc_origin)], 0x5B # quote_plain (0x2F # loc_origin) @ [0x5D]),
      (ustr ''updated_at'', TextS (ustr ''2024-01-01T00:00:00Z''), quote_plain (ustr ''2024-01-01T00:00:00Z'')),
      (ustr ''sequence'', IntegerS (ustr ''7''), ustr ''7''),
      (ustr ''signature'', TextS (base64UrlEncode (replicate 64 0)), quote_plain (base64UrlEncode (replicate 64 0)))]"

definition loc_record_value :: strict_json where
  "loc_record_value = MapS (map (\<lambda>(k, v, t). (k, v)) loc_members)"

definition loc_body :: ustring where
  "loc_body = object_text [(ustr ''record'', loc_record_value, object_text loc_members)]"

lemma loc_json: "json_text (Suc 0) loc_record_value (object_text loc_members)"
  unfolding loc_record_value_def
proof (rule object_text_json)
  have i: "integer_lexeme (ustr ''1'')" "integer_lexeme (ustr ''7'')"
    unfolding integer_lexeme_def by (rule exI [of _ "[]"], simp add: ustr_def unit_digit_def unit_of_def)+
  have "\<forall>u \<in> set BASE64URL_ALPHABET. plain_unit_s u" by code_simp
  then have "list_all plain_unit_s (base64UrlEncode (replicate 64 0))" using encode_alphabet by (auto simp: list_all_iff)
  moreover have p: "list_all plain_unit_s (ustr ''2024-01-01T00:00:00Z'')"
    "list_all plain_unit_s loc_subject" "list_all plain_unit_s (0x2F # loc_origin)"
    by (simp_all add: list_all_iff ustr_def plain_unit_s_def unit_of_def loc_subject_def loc_origin_def)
  ultimately show "\<forall>(k, v, t) \<in> set loc_members. list_all plain_unit_s k \<and> json_text (Suc (Suc 0)) v t"
    using i p by (auto simp: loc_members_def ustr_def plain_unit_s_def unit_of_def MAX_JSON_DEPTH_def
        intro!: text_json array_json json_text.integer_value)
qed (simp_all add: MAX_JSON_DEPTH_def loc_members_def ustr_inject)

lemma loc_strict: "parseStrictJson loc_body = Some (MapS [(ustr ''record'', loc_record_value)])"
proof (rule parseStrictJson_reads [OF _ padded_self])
  show "json_text 0 (MapS [(ustr ''record'', loc_record_value)]) loc_body"
    using object_text_json [of 0 "[(ustr ''record'', loc_record_value, object_text loc_members)]"] loc_json
    by (simp add: loc_body_def MAX_JSON_DEPTH_def) (simp add: ustr_def plain_unit_s_def unit_of_def)
qed

lemma loc_time: "isRfc3339DateTime (ustr ''2024-01-01T00:00:00Z'')"
proof -
  let ?t = "ustr ''2024-01-01T00:00:00Z''"
  have "rx_test RFC3339_RE ?t" by code_simp
  moreover have "number_at 0 4 ?t = 2024" "number_at 5 2 ?t = 1" "number_at 8 2 ?t = 1" "number_at 11 2 ?t = 0"
    "number_at 14 2 ?t = 0" "number_at 17 2 ?t = 0" "last ?t = 0x5A" by code_simp+
  ultimately show ?thesis by (simp add: isRfc3339DateTime_def days_in_month_def Let_def)
qed

lemma loc_parsed: "parseRecordResponse loc_body = Some loc_v1"
proof -
  have "sequence_of (ustr ''7'') = Some 7"
    by (simp add: sequence_of_def units_number_def ustr_def unit_of_def unit_digit_def)
  then show ?thesis
    unfolding parseRecordResponse_def loc_strict
    using base64_nonempty [of "replicate 64 0"]
    by (simp add: loc_record_value_def loc_members_def read_record_def nonempty_texts_def ustr_inject loc_time loc_v1_def)
qed

lemma encode_length: "length (base64UrlEncode (replicate 64 b)) = 86"
proof -
  have "length (byte_bits (replicate 64 b)) = 512" by (simp add: length_byte_bits)
  then show ?thesis by (simp add: base64_groups length_groups)
qed

lemma loc_v1_verifies: "verifyRecordSignature loc_lib loc_v1"
proof -
  have "list_all (\<lambda>u. u \<in> set BASE64URL_ALPHABET) (base64UrlEncode (replicate 64 0))"
    using encode_alphabet by (auto simp: list_all_iff)
  moreover have "\<not> startsWith loc_subject (ustr ''did:pkh:'')" "ed25519KeyFromDidKey loc_lib loc_subject = Some (replicate 32 7)"
    by (simp_all add: loc_subject_def ed25519KeyFromDidKey_def loc_lib_def ustr_def unit_of_def)
  ultimately show ?thesis
    by (simp add: verifyRecordSignature_def loc_v1_def Let_def encode_length signature_loop_encode) (simp add: loc_lib_def)
qed

lemma loc_canonical: "isCanonicalSubject loc_lib loc_subject"
proof -
  have "subject_match loc_subject = None" by code_simp
  moreover have "ed25519KeyFromDidKey loc_lib loc_subject = Some (replicate 32 7)"
    by (simp add: loc_subject_def ed25519KeyFromDidKey_def loc_lib_def ustr_def unit_of_def)
  ultimately show ?thesis by (simp add: isCanonicalSubject_def)
qed

lemma textEncode_length: "length (textEncode s) \<le> 3 * length s"
proof -
  have four: "length (utf8_of p) \<le> 4" "p < 0x10000 \<Longrightarrow> length (utf8_of p) \<le> 3" for p by (auto simp: utf8_of_def)
  let ?n = "\<lambda>s. length (concat (map utf8_of (code_points s)))"
  have "?n s \<le> 3 * length s"
  proof (induction s rule: code_points.induct)
    case (2 u us)
    have p: "unat u < 0x10000" using unsigned_less [of u, where 'a = nat] by simp
    have one: "?n (u # us) = length (utf8_of q) + ?n us \<Longrightarrow> q < 0x10000 \<Longrightarrow> ?n us \<le> 3 * length us \<Longrightarrow> ?n (u # us) \<le> 3 * length (u # us)" for q
      using four(2) [of q] by simp
    show ?case
    proof (cases "high u")
      case True
      show ?thesis
      proof (cases us)
        case Nil
        with True show ?thesis using four(2) [of "0xFFFD"] by simp
      next
        case (Cons v vs)
        show ?thesis
        proof (cases "low v")
          case low: True
          have "?n (u # us) = length (utf8_of (pair_point u v)) + ?n vs" using True low Cons by simp
          moreover have "?n vs \<le> 3 * length vs" using 2(1) [OF True Cons low] .
          ultimately show ?thesis using four(1) [of "pair_point u v"] Cons by simp
        next
          case False
          have "?n (u # us) = length (utf8_of 0xFFFD) + ?n us" using True False Cons by simp
          with 2(2) [OF True Cons False] show ?thesis by (intro one [of "0xFFFD"]) (simp_all add: Cons)
        qed
      qed
    next
      case False
      show ?thesis
      proof (cases "low u")
        case True
        then show ?thesis using False 2(3) [OF False True] by (intro one [of "0xFFFD"]) simp_all
      next
        case nl: False
        then show ?thesis using False p 2(4) [OF False nl] by (intro one [of "unat u"]) simp_all
      qed
    qed
  qed simp
  then show ?thesis by (simp add: textEncode_def)
qed

lemma loc_body_small: "length loc_body \<le> REGISTRY_LOOKUP_MAX_BODY_BYTES \<and> length (textEncode loc_body) \<le> REGISTRY_LOOKUP_MAX_BODY_BYTES"
proof -
  have "length loc_body \<le> 1000"
    by (simp add: loc_body_def object_text_def loc_members_def quote_plain_def encode_length)
      (simp add: ustr_def loc_subject_def loc_origin_def)
  with textEncode_length [of loc_body] show ?thesis by (simp add: REGISTRY_LOOKUP_MAX_BODY_BYTES_def)
qed

lemma loc_classified:
  assumes "case remembered of None \<Rightarrow> True | Some m \<Rightarrow> 0 \<le> m \<and> m \<le> 7"
  shows "classifyRegistryLookup loc_lib loc_subject (HttpResponse 200 loc_body) remembered = Inr (Registered loc_subject 7 (record_hosts loc_lib loc_v1))"
proof -
  have "v1_subject loc_v1 = loc_subject" "v1_sequence loc_v1 = 7" by (simp_all add: loc_v1_def)
  then show ?thesis
    using loc_body_small loc_canonical loc_parsed loc_v1_verifies assms
    by (auto simp: classifyRegistryLookup_def classify_body_def MAX_SAFE_INTEGER_def split: option.split)
qed

theorem registered_record_verifies_witness: "owned loc_lib loc_subject (of_v1 loc_v1)"
proof -
  have "\<exists>r. parseRecordResponse loc_body = Some r \<and> loc_subject = loc_subject \<and> 7 = v1_sequence r \<and>
      record_hosts loc_lib loc_v1 = record_hosts loc_lib r \<and> (\<forall>m. Some 5 = Some m \<longrightarrow> m \<le> int 7) \<and> owned loc_lib loc_subject (of_v1 r)"
    by (rule registered_record_verifies [OF loc_classified [of "Some 5"]]) (simp_all add: loc_lib_def list_all_iff)
  then show ?thesis using loc_parsed by auto
qed

end
