(* ===== verification/RegistryPolicy.thy ===== *)
theory RegistryPolicy
  imports RecordAgreement
begin

text \<open>
  \<^verbatim>\<open>packages/sdk-core/src/registry-policy.ts\<close>: the stores of remembered record sequences, the lookup of
  an owner in the registry, and the fail-closed policy that routes a session and guards the
  creation of spaces by the verdict. The reading of a bounded response body is that of
  \<^verbatim>\<open>location.ts\<close>.

  What the network answers, what a storage call does (it may throw) and what the application
  decides are arguments. The interface \<open>RegistrySequenceStore\<close> is the locale \<open>sequence_store\<close>, with
  both stores of the file as its instances.

  The lemmas show that a subject once seen registered is never taken for unregistered, that
  routing and the creation guard agree, that no fallback host is used without an \<open>unregistered\<close>
  verdict, and when the retry loop returns.
\<close>

section \<open>Sequence stores\<close>

type_synonym sequences = "(ustring \<times> nat) list"

definition memory_get :: "sequences \<Rightarrow> ustring \<Rightarrow> nat option" where
  "memory_get sequences subject = map_of sequences subject"

definition memory_set :: "sequences \<Rightarrow> ustring \<Rightarrow> nat \<Rightarrow> sequences" where
  "memory_set sequences subject n =
     (if (case map_of sequences subject of None \<Rightarrow> True | Some k \<Rightarrow> k < n) then AList.update subject n sequences else sequences)"

text \<open>The item of the storage: absent, not JSON, or a value; and whether the calls of the storage
  throw.\<close>

record local_store =
  ls_item :: "json option option"
  ls_memory :: sequences

record storage_faults =
  sf_getItem :: bool
  sf_setItem :: bool

definition isSequence :: "json \<Rightarrow> nat option" where
  "isSequence val =
     (case val of
        NumJ n \<Rightarrow> (case safe_integer n of Some i \<Rightarrow> if 0 \<le> i then Some (nat i) else None | None \<Rightarrow> None)
      | _ \<Rightarrow> None)"

fun read_entries :: "json_object \<Rightarrow> sequences option" where
  "read_entries [] = Some []"
| "read_entries ((subject, val) # fs) =
     (case isSequence val of
        None \<Rightarrow> None
      | Some n \<Rightarrow> map_option ((#) (subject, n)) (read_entries fs))"

definition read_sequences :: "bool \<Rightarrow> json option option \<Rightarrow> (unit, sequences) result" where
  "read_sequences throws item =
     (if throws then Inl ()
      else case item of
             None \<Rightarrow> Inr []
           | Some (Some (ObjJ fs)) \<Rightarrow> (case read_entries fs of None \<Rightarrow> Inl () | Some m \<Rightarrow> Inr m)
           | _ \<Rightarrow> Inl ())"

definition later :: "nat option \<Rightarrow> nat option \<Rightarrow> nat option" where
  "later a b = (case (a, b) of (Some m, Some n) \<Rightarrow> Some (max m n) | (None, _) \<Rightarrow> b | (_, None) \<Rightarrow> a)"

definition local_get :: "storage_faults \<Rightarrow> local_store \<Rightarrow> ustring \<Rightarrow> (unit, nat option) result" where
  "local_get faults st subject =
     bindR (read_sequences (sf_getItem faults) (ls_item st)) (\<lambda>sequences.
       Inr (later (map_of sequences subject) (memory_get (ls_memory st) subject)))"

definition sequences_json :: "sequences \<Rightarrow> json" where
  "sequences_json m = ObjJ (map (\<lambda>(subject, n). (subject, NumJ (number_of n))) m)"

definition local_set :: "storage_faults \<Rightarrow> local_store \<Rightarrow> ustring \<Rightarrow> nat \<Rightarrow> local_store" where
  "local_set faults st subject n =
     (let st' = st\<lparr>ls_memory := memory_set (ls_memory st) subject n\<rparr>
      in case read_sequences (sf_getItem faults) (ls_item st) of
           Inl _ \<Rightarrow> st'
         | Inr sequences \<Rightarrow>
             if (case map_of sequences subject of None \<Rightarrow> False | Some k \<Rightarrow> n \<le> k) then st'
             else if sf_setItem faults then st'
             else st'\<lparr>ls_item := Some (Some (sequences_json (AList.update subject n sequences)))\<rparr>)"

section \<open>Reading a response\<close>

text \<open>A body as its chunks, which may break off.\<close>

datatype body_stream = BodyEnds | BodyBreaks | BodyChunk bytes body_stream

fun read_chunks :: "nat \<Rightarrow> bytes \<Rightarrow> body_stream \<Rightarrow> (unit, bytes option) result" where
  "read_chunks maxBytes bytes BodyEnds = Inr (Some bytes)"
| "read_chunks maxBytes bytes BodyBreaks = Inl ()"
| "read_chunks maxBytes bytes (BodyChunk chunk rest) =
     (if maxBytes < length bytes + length chunk then Inr None else read_chunks maxBytes (bytes @ chunk) rest)"

definition boundedResponseBytes :: "ustring option \<Rightarrow> body_stream option \<Rightarrow> nat \<Rightarrow> (unit, bytes option) result" where
  "boundedResponseBytes declaredLength body maxBytes =
     (if (case declaredLength of
            None \<Rightarrow> False
          | Some d \<Rightarrow> \<not> (d \<noteq> [] \<and> list_all unit_digit d) \<or> maxBytes < units_number d) then Inr None
      else case body of None \<Rightarrow> Inr (Some []) | Some chunks \<Rightarrow> read_chunks maxBytes [] chunks)"

datatype registry_observation = Observed registry_response | OversizeBody | InvalidUtf8

text \<open>What \<open>fetch\<close> does: it throws, or answers with a status, a declared length and a body.\<close>

datatype fetched = FetchFails | Fetched int "ustring option" "body_stream option"

definition readRegistry :: "registry_lib \<Rightarrow> fetched \<Rightarrow> registry_observation" where
  "readRegistry lib response =
     (case response of
        FetchFails \<Rightarrow> Observed NetworkErrorResponse
      | Fetched status declaredLength body \<Rightarrow>
          if status \<noteq> 200 \<and> status \<noteq> 404 then Observed (HttpResponse status [])
          else (case boundedResponseBytes declaredLength body REGISTRY_LOOKUP_MAX_BODY_BYTES of
                  Inl _ \<Rightarrow> Observed NetworkErrorResponse
                | Inr None \<Rightarrow> OversizeBody
                | Inr (Some bytes) \<Rightarrow>
                    (case rl_decodeUtf8 lib bytes of None \<Rightarrow> InvalidUtf8 | Some text \<Rightarrow> Observed (HttpResponse status text))))"

text \<open>\<open>None\<close>: the timer fires first.\<close>

definition observeRegistry :: "registry_lib \<Rightarrow> fetched option \<Rightarrow> registry_observation" where
  "observeRegistry lib race = (case race of None \<Rightarrow> Observed TimeoutResponse | Some response \<Rightarrow> readRegistry lib response)"

section \<open>Lookups\<close>

definition MAX_SUBJECT_LENGTH :: nat where "MAX_SUBJECT_LENGTH = 74"

datatype lookup_failure = LookupInput lookup_input_error | StoreFailed

text \<open>The store is given by its two operations; a failed write is logged and forgotten, so what counts is
  the state it leaves.\<close>

definition remember :: "('s \<Rightarrow> ustring \<Rightarrow> nat \<Rightarrow> 's) \<Rightarrow> ustring \<Rightarrow> nat option \<Rightarrow> registry_verdict \<Rightarrow> 's \<Rightarrow> 's" where
  "remember put subject remembered verdict st =
     (case verdict of
        Registered _ n _ \<Rightarrow> if (case remembered of None \<Rightarrow> True | Some k \<Rightarrow> k < n) then put st subject n else st
      | _ \<Rightarrow> st)"

definition resolveOwnerHosts ::
  "registry_lib \<Rightarrow> ('s \<Rightarrow> ustring \<Rightarrow> (unit, nat option) result) \<Rightarrow> ('s \<Rightarrow> ustring \<Rightarrow> nat \<Rightarrow> 's) \<Rightarrow> ustring \<Rightarrow> fetched option \<Rightarrow> 's
     \<Rightarrow> (lookup_failure, registry_verdict) result \<times> 's" where
  "resolveOwnerHosts lib get put subject race st =
     (if MAX_SUBJECT_LENGTH < length subject \<or> \<not> isCanonicalSubject lib subject then (Inl (LookupInput InvalidSubject), st)
      else case get st subject of
             Inl _ \<Rightarrow> (Inl StoreFailed, st)
           | Inr remembered \<Rightarrow>
               (case observeRegistry lib race of
                  OversizeBody \<Rightarrow> (Inr (Unavailable subject OversizeResponse), st)
                | InvalidUtf8 \<Rightarrow> (Inr (Unavailable subject MalformedResponse), st)
                | Observed response \<Rightarrow>
                    (case classifyRegistryLookup lib subject response (map_option int remembered) of
                       Inl e \<Rightarrow> (Inl (LookupInput e), st)
                     | Inr verdict \<Rightarrow> (Inr verdict, remember put subject remembered verdict st))))"

section \<open>Routing\<close>

datatype policy_error =
    NodeNotFound ustring registry_verdict
  | RegistryUnavailable ustring "registry_verdict option"
  | NodeRegistryEntryExists ustring ustring "ustring list"
  | BadHost location_error
  | BadOwner identity_error
  | UnknownAction
  | CallbackFailed

definition DEFAULT_REGISTRY_OWNER_CHAIN_ID :: int where "DEFAULT_REGISTRY_OWNER_CHAIN_ID = 1"
definition DEFAULT_NEW_USER_HOST :: ustring where "DEFAULT_NEW_USER_HOST = DEFAULT_TINYCLOUD_FALLBACK_HOST"

definition registryOwnerSubjectV1 :: "registry_lib \<Rightarrow> string \<Rightarrow> int option \<Rightarrow> (policy_error, ustring) result" where
  "registryOwnerSubjectV1 lib address registryChainId =
     (case pkhDid_id (rl_evm lib) address (case registryChainId of None \<Rightarrow> DEFAULT_REGISTRY_OWNER_CHAIN_ID | Some c \<Rightarrow> c) of
        Inl e \<Rightarrow> Inl (BadOwner e)
      | Inr did \<Rightarrow> Inr (ustr did))"

definition secureRecordHosts :: "registry_lib \<Rightarrow> registry_host list \<Rightarrow> ustring list" where
  "secureRecordHosts lib hosts = dedupe (List.map_filter (\<lambda>url. ok_or_none (exactHttpOrigin lib url)) (concat (map rh_urls hosts)))"

definition hostsForVerdict :: "registry_lib \<Rightarrow> registry_verdict \<Rightarrow> ustring option \<Rightarrow> (policy_error, ustring list) result" where
  "hostsForVerdict lib verdict newUserHost =
     (case verdict of
        Registered subject _ listed \<Rightarrow>
          let hosts = secureRecordHosts lib listed
          in if hosts = [] then Inl (NodeNotFound subject verdict) else Inr hosts
      | Unregistered subject \<Rightarrow>
          (case newUserHost of None \<Rightarrow> Inl (NodeNotFound subject verdict) | Some host \<Rightarrow> Inr [host])
      | Unavailable subject _ \<Rightarrow> Inl (RegistryUnavailable subject (Some verdict)))"

definition httpOrigin :: "registry_lib \<Rightarrow> ustring \<Rightarrow> ustring option" where
  "httpOrigin lib host =
     (case rl_URL lib host of
        None \<Rightarrow> None
      | Some url \<Rightarrow> if url_protocol url = ustr ''https:'' \<or> url_protocol url = ustr ''http:'' then Some (url_origin url) else None)"

definition assertSpaceCreationAllowed :: "registry_lib \<Rightarrow> registry_verdict \<Rightarrow> ustring \<Rightarrow> (policy_error, unit) result" where
  "assertSpaceCreationAllowed lib verdict host =
     (case verdict of
        Unregistered _ \<Rightarrow> Inr ()
      | Unavailable subject _ \<Rightarrow> Inl (RegistryUnavailable subject (Some verdict))
      | Registered subject _ hosts \<Rightarrow>
          (case httpOrigin lib host of
             Some origin \<Rightarrow>
               if origin \<in> set (secureRecordHosts lib hosts) then Inr ()
               else Inl (NodeRegistryEntryExists subject host (secureRecordHosts lib hosts))
           | None \<Rightarrow> Inl (NodeRegistryEntryExists subject host (secureRecordHosts lib hosts))))"

definition lookupOwnerRegistryVerdict ::
  "registry_lib \<Rightarrow> bool \<Rightarrow> ('s \<Rightarrow> ustring \<Rightarrow> (unit, nat option) result) \<Rightarrow> ('s \<Rightarrow> ustring \<Rightarrow> nat \<Rightarrow> 's) \<Rightarrow> ustring \<Rightarrow> fetched option \<Rightarrow> 's
     \<Rightarrow> (policy_error, registry_verdict) result \<times> 's" where
  "lookupOwnerRegistryVerdict lib hasRegistry get put subject race st =
     (if \<not> hasRegistry then (Inl (RegistryUnavailable subject None), st)
      else case resolveOwnerHosts lib get put subject race st of
             (Inl _, st') \<Rightarrow> (Inl (RegistryUnavailable subject None), st')
           | (Inr verdict, st') \<Rightarrow> (Inr verdict, st'))"

text \<open>\<^verbatim>\<open>/^https:\/\/([a-z0-9-]+)\.local\.tinycloud\.link$/\<close>\<close>

definition local_link_name :: "ustring \<Rightarrow> ustring option" where
  "local_link_name host =
     (let rest = drop (length ''https://'') host; name = take (length rest - length LOCAL_LINK_HOST_SUFFIX) rest
      in if startsWith host (ustr ''https://'') \<and> endsWith rest LOCAL_LINK_HOST_SUFFIX \<and> name \<noteq> [] \<and>
            list_all (\<lambda>u. unit_lower_alnum u \<or> u = 0x2D) name
         then Some name else None)"

datatype node_decision = Retry | UseHost ustring | Abort | OtherAction | Throws

record fail_closed_options =
  fo_chainId :: "int option"
  fo_newUserHost :: "ustring option option"      \<comment> \<open>\<open>Some None\<close> is \<open>null\<close>\<close>
  fo_hasRegistry :: bool                         \<comment> \<open>\<open>registryUrl\<close> is not \<open>null\<close>\<close>
  fo_autoDiscover :: bool
  fo_localNodeUrl :: ustring
  fo_localLinkName :: ustring
  fo_expectedNodeDid :: "ustring option"
  fo_onNodeNotFound :: "(policy_error \<Rightarrow> nat \<Rightarrow> node_decision) option"

text \<open>What one attempt meets: the answer of the registry, the local network and the storage.\<close>

record 'f attempt_env =
  ae_race :: "fetched option"
  ae_net :: local_network
  ae_faults :: 'f

text \<open>One candidate at a time, with no registry to ask.\<close>

fun discover_candidates ::
  "registry_lib \<Rightarrow> local_network \<Rightarrow> ustring option \<Rightarrow> (ustring \<times> ustring) list \<Rightarrow> pins \<Rightarrow> local_node option \<times> pins" where
  "discover_candidates lib net expected [] pins = (None, pins)"
| "discover_candidates lib net expected ((localNodeUrl, localLinkName) # candidates) pins =
     (case discoverLocalTinyCloudNode lib net
             \<lparr>do_auto = True, do_localNodeUrl = localNodeUrl, do_localLinkName = localLinkName, do_registry = None,
              do_expectedNodeDid = expected, do_verifyRecords = True\<rparr> pins of
        (Some node, pins') \<Rightarrow> (Some node, pins')
      | (None, pins') \<Rightarrow> discover_candidates lib net expected candidates pins')"

definition link_names :: "registry_lib \<Rightarrow> (policy_error, registry_verdict) result \<Rightarrow> ustring list" where
  "link_names lib looked =
     (case looked of
        Inr (Registered _ _ hosts) \<Rightarrow> List.map_filter local_link_name (secureRecordHosts lib hosts)
      | _ \<Rightarrow> [])"

definition resolve_once ::
  "registry_lib \<Rightarrow> ('f \<Rightarrow> 's \<Rightarrow> ustring \<Rightarrow> (unit, nat option) result) \<Rightarrow> ('f \<Rightarrow> 's \<Rightarrow> ustring \<Rightarrow> nat \<Rightarrow> 's) \<Rightarrow> fail_closed_options
     \<Rightarrow> ustring option \<Rightarrow> ustring \<Rightarrow> 'f attempt_env \<Rightarrow> 's \<times> pins
     \<Rightarrow> (policy_error, ustring list \<times> registry_verdict option) result \<times> 's \<times> pins" where
  "resolve_once lib get put options newUserHost subject env state =
     (case state of (st, pins) \<Rightarrow>
      case lookupOwnerRegistryVerdict lib (fo_hasRegistry options) (get (ae_faults env)) (put (ae_faults env)) subject (ae_race env) st of
        (looked, st') \<Rightarrow>
          (case (if fo_autoDiscover options
                 then discover_candidates lib (ae_net env) (fo_expectedNodeDid options)
                        ((fo_localNodeUrl options, fo_localLinkName options) # map (Pair []) (link_names lib looked)) pins
                 else (None, pins)) of
             (Some node, pins') \<Rightarrow> (Inr ([node_url node], ok_or_none looked), st', pins')
           | (None, pins') \<Rightarrow>
               ((case looked of
                   Inl e \<Rightarrow> Inl e
                 | Inr verdict \<Rightarrow> bindR (hostsForVerdict lib verdict newUserHost) (\<lambda>hosts. Inr (hosts, Some verdict))), st', pins')))"

definition failure_verdict :: "policy_error \<Rightarrow> registry_verdict option" where
  "failure_verdict e = (case e of NodeNotFound _ v \<Rightarrow> Some v | RegistryUnavailable _ v \<Rightarrow> v | _ \<Rightarrow> None)"

definition recoverable :: "policy_error \<Rightarrow> bool" where
  "recoverable e = (case e of NodeNotFound _ _ \<Rightarrow> True | RegistryUnavailable _ _ \<Rightarrow> True | _ \<Rightarrow> False)"

text \<open>The loop over attempts; \<open>None\<close> is a loop that does not end.\<close>

partial_function (option) attempts ::
  "registry_lib \<Rightarrow> ('f \<Rightarrow> 's \<Rightarrow> ustring \<Rightarrow> (unit, nat option) result) \<Rightarrow> ('f \<Rightarrow> 's \<Rightarrow> ustring \<Rightarrow> nat \<Rightarrow> 's) \<Rightarrow> fail_closed_options
     \<Rightarrow> ustring option \<Rightarrow> ustring \<Rightarrow> (nat \<Rightarrow> 'f attempt_env) \<Rightarrow> nat \<Rightarrow> 's \<times> pins
     \<Rightarrow> ((policy_error, ustring list \<times> registry_verdict option) result \<times> 's \<times> pins) option" where
  "attempts lib get put options newUserHost subject env attempt state =
     (case resolve_once lib get put options newUserHost subject (env attempt) state of
        (Inr r, state') \<Rightarrow> Some (Inr r, state')
      | (Inl failure, state') \<Rightarrow>
          if \<not> recoverable failure then Some (Inl failure, state')
          else (case fo_onNodeNotFound options of
                  None \<Rightarrow> Some (Inl failure, state')
                | Some onNodeNotFound \<Rightarrow>
                    (case onNodeNotFound failure attempt of
                       Retry \<Rightarrow> attempts lib get put options newUserHost subject env (attempt + 1) state'
                     | UseHost host \<Rightarrow>
                         Some (case exactHttpOrigin lib host of
                                 Inl e \<Rightarrow> Inl (BadHost e)
                               | Inr origin \<Rightarrow> Inr ([origin], failure_verdict failure), state')
                     | Abort \<Rightarrow> Some (Inl failure, state')
                     | OtherAction \<Rightarrow> Some (Inl UnknownAction, state')
                     | Throws \<Rightarrow> Some (Inl CallbackFailed, state'))))"

definition new_user_host :: "registry_lib \<Rightarrow> fail_closed_options \<Rightarrow> (policy_error, ustring option) result" where
  "new_user_host lib options =
     (case fo_newUserHost options of
        Some None \<Rightarrow> Inr None
      | chosen \<Rightarrow>
          (case exactHttpOrigin lib (case chosen of Some (Some host) \<Rightarrow> host | _ \<Rightarrow> DEFAULT_NEW_USER_HOST) of
             Inl e \<Rightarrow> Inl (BadHost e)
           | Inr origin \<Rightarrow> Inr (Some origin)))"

definition resolveFailClosedTinyCloudHosts ::
  "registry_lib \<Rightarrow> ('f \<Rightarrow> 's \<Rightarrow> ustring \<Rightarrow> (unit, nat option) result) \<Rightarrow> ('f \<Rightarrow> 's \<Rightarrow> ustring \<Rightarrow> nat \<Rightarrow> 's) \<Rightarrow> string \<Rightarrow> fail_closed_options
     \<Rightarrow> (nat \<Rightarrow> 'f attempt_env) \<Rightarrow> 's \<times> pins \<Rightarrow> ((policy_error, ustring list \<times> registry_verdict option) result \<times> 's \<times> pins) option" where
  "resolveFailClosedTinyCloudHosts lib get put address options env state =
     (case new_user_host lib options of
        Inl e \<Rightarrow> Some (Inl e, state)
      | Inr newUserHost \<Rightarrow>
          (case registryOwnerSubjectV1 lib address (fo_chainId options) of
             Inl e \<Rightarrow> Some (Inl e, state)
           | Inr subject \<Rightarrow> attempts lib get put options newUserHost subject env 1 state))"


section \<open>The contract of a sequence store\<close>

text \<open>\<open>known\<close> is what a store remembers, whether or not a call of the storage fails at the moment.\<close>

locale sequence_store =
  fixes get :: "'f \<Rightarrow> 's \<Rightarrow> ustring \<Rightarrow> (unit, nat option) result"
    and put :: "'f \<Rightarrow> 's \<Rightarrow> ustring \<Rightarrow> nat \<Rightarrow> 's"
    and known :: "'s \<Rightarrow> ustring \<Rightarrow> nat option"
  assumes get_known: "get f st subject = Inr r \<Longrightarrow> r = known st subject"
    and put_known: "n \<le> 2 ^ 53 - 1 \<Longrightarrow>
      known (put f st subject n) t = (if t = subject then later (known st subject) (Some n) else known st t)"

text \<open>Any number of lookups one after the other, with the verdicts they gave; each may meet another
  network and other failures of the storage.\<close>

inductive lookups ::
  "registry_lib \<Rightarrow> ('f \<Rightarrow> 's \<Rightarrow> ustring \<Rightarrow> (unit, nat option) result) \<Rightarrow> ('f \<Rightarrow> 's \<Rightarrow> ustring \<Rightarrow> nat \<Rightarrow> 's) \<Rightarrow> 's
     \<Rightarrow> (ustring \<times> registry_verdict) list \<Rightarrow> 's \<Rightarrow> bool" for lib get put where
  no_lookup: "lookups lib get put st [] st"
| answered: "resolveOwnerHosts lib (get f) (put f) subject race st = (Inr verdict, st') \<Longrightarrow>
    lookups lib get put st' verdicts st'' \<Longrightarrow> lookups lib get put st ((subject, verdict) # verdicts) st''"
| threw: "resolveOwnerHosts lib (get f) (put f) subject race st = (Inl e, st') \<Longrightarrow>
    lookups lib get put st' verdicts st'' \<Longrightarrow> lookups lib get put st verdicts st''"

definition at_least :: "nat option \<Rightarrow> nat option \<Rightarrow> bool" where
  "at_least a b = (case (a, b) of (None, _) \<Rightarrow> True | (Some m, Some n) \<Rightarrow> m \<le> n | (Some _, None) \<Rightarrow> False)"

lemma at_least_refl [simp]: "at_least a a"
  by (simp add: at_least_def split: option.split)

lemma at_least_trans: "at_least a b \<Longrightarrow> at_least b c \<Longrightarrow> at_least a c"
  by (auto simp: at_least_def split: option.splits)

lemma at_least_later: "at_least a (later a b)" "at_least b (later a b)"
  by (auto simp: at_least_def later_def split: option.splits)

lemma parsed_sequence: "parseRecordResponse body = Some r \<Longrightarrow> v1_sequence r \<le> 2 ^ 53 - 1"
  by (auto simp: parseRecordResponse_def dest: read_recordD split: option.split_asm strict_json.split_asm)

text \<open>What a verdict says about the remembered sequence.\<close>

definition consistent :: "nat option \<Rightarrow> registry_verdict \<Rightarrow> bool" where
  "consistent remembered verdict =
     (case verdict of
        Registered _ n _ \<Rightarrow> at_least remembered (Some n) \<and> n \<le> 2 ^ 53 - 1
      | Unregistered _ \<Rightarrow> remembered = None
      | Unavailable _ _ \<Rightarrow> True)"

lemma classified_consistent:
  assumes "classifyRegistryLookup lib subject response (map_option int remembered) = Inr verdict"
  shows "consistent remembered verdict"
  using assms
  by (auto simp: classifyRegistryLookup_def classify_body_def consistent_def at_least_def not_less dest: parsed_sequence
      split: if_split_asm option.splits registry_response.split_asm)

definition verdict_sequence :: "registry_verdict \<Rightarrow> nat option" where
  "verdict_sequence verdict = (case verdict of Registered _ n _ \<Rightarrow> Some n | _ \<Rightarrow> None)"


context sequence_store
begin

lemma lookup_step:
  assumes "resolveOwnerHosts lib (get f) (put f) subject race st = (outcome, st')"
  shows "at_least (known st t) (known st' t)"
    and "outcome = Inr v \<Longrightarrow> consistent (known st subject) v \<and> at_least (verdict_sequence v) (known st' subject)"
proof -
  have r: "at_least (known st t) (known (remember (put f) subject remembered w st) t) \<and>
      at_least (verdict_sequence w) (known (remember (put f) subject remembered w st) subject)"
    if "consistent remembered w" "remembered = known st subject" for remembered w
    using that put_known [of _ f st subject] at_least_later [of "known st subject"]
    by (cases w) (auto simp: remember_def consistent_def verdict_sequence_def at_least_def later_def split: option.splits if_splits)
  show "at_least (known st t) (known st' t)"
    using assms r
    by (auto simp: resolveOwnerHosts_def split: if_split_asm sum.split_asm registry_observation.split_asm
        dest!: get_known classified_consistent)
  show "consistent (known st subject) v \<and> at_least (verdict_sequence v) (known st' subject)" if "outcome = Inr v"
    using assms r that
    by (auto simp: resolveOwnerHosts_def split: if_split_asm sum.split_asm registry_observation.split_asm
        dest!: get_known classified_consistent) (simp_all add: consistent_def verdict_sequence_def at_least_def)
qed

lemma lookups_remember:
  assumes "lookups lib get put st verdicts st'"
  shows "at_least (known st t) (known st' t)"
    and "(subject, v) \<in> set verdicts \<Longrightarrow> known st subject \<noteq> None \<Longrightarrow>
      (\<forall>s. v \<noteq> Unregistered s) \<and> (v = Registered s n hosts \<longrightarrow> at_least (known st subject) (Some n))"
  using assms
proof (induction rule: lookups.induct)
  case (answered f who race st verdict st' verdicts st'')
  note grows = lookup_step(1) [OF answered(1)]
  { case 1 show ?case using grows [of t] answered.IH(1) by (blast intro: at_least_trans) }
  { case 2
    show ?case
    proof (cases "(subject, v) = (who, verdict)")
      case True
      with 2 lookup_step(2) [OF answered(1) refl] show ?thesis by (auto simp: consistent_def split: registry_verdict.split_asm)
    next
      case False
      with 2(1) have "(subject, v) \<in> set verdicts" by auto
      moreover have "known st' subject \<noteq> None" using 2(2) grows [of subject] by (auto simp: at_least_def split: option.split_asm)
      ultimately show ?thesis
        using answered.IH(2) grows [of subject] by (blast intro: at_least_trans)
    qed }
next
  case (threw f who race st e st' verdicts st'')
  note grows = lookup_step(1) [OF threw(1)]
  { case 1 show ?case using grows [of t] threw.IH(1) by (blast intro: at_least_trans) }
  { case 2
    moreover have "known st' subject \<noteq> None" using 2(2) grows [of subject] by (auto simp: at_least_def split: option.split_asm)
    ultimately show ?case
      using threw.IH(2) grows [of subject] by (blast intro: at_least_trans) }
qed simp_all

lemma lookups_split:
  assumes "lookups lib get put st (before @ (subject, v) # after) st'"
  shows "\<exists>mid. at_least (verdict_sequence v) (known mid subject) \<and> lookups lib get put mid after st'"
  using assms
proof (induction st "before @ (subject, v) # after" st' arbitrary: before rule: lookups.induct)
  case (answered f who race st verdict st' verdicts st'')
  then show ?case
    using lookup_step(2) [OF answered(1) refl] by (cases before) auto
qed blast+

lemma registered_stays:
  assumes "lookups lib get put st (before @ (subject, Registered s n hosts) # after) st'"
    and "(subject, v) \<in> set after"
  shows "(\<forall>s'. v \<noteq> Unregistered s') \<and> (\<forall>s' m hosts'. v = Registered s' m hosts' \<longrightarrow> n \<le> m)"
proof -
  from lookups_split [OF assms(1)] obtain mid where mid: "at_least (Some n) (known mid subject)" "lookups lib get put mid after st'"
    by (auto simp: verdict_sequence_def)
  then obtain k where k: "known mid subject = Some k" "n \<le> k" by (auto simp: at_least_def split: option.split_asm)
  with lookups_remember(2) [OF mid(2) assms(2)] show ?thesis by (fastforce simp: at_least_def)
qed

end

section \<open>Both stores keep the contract\<close>

lemma map_of_update_seq: "map_of (AList.update s n m) t = (if t = s then Some n else map_of m t)"
  by (simp add: update_conv')

lemma known_memory_set:
  "map_of (memory_set m s n) t = (if t = s then later (map_of m s) (Some n) else map_of m t)"
  by (auto simp: memory_set_def map_of_update_seq later_def max_def split: option.split)

interpretation memory: sequence_store "\<lambda>_ :: unit. \<lambda>m s. Inr (memory_get m s)" "\<lambda>_ :: unit. memory_set" map_of
  by unfold_locales (simp_all add: memory_get_def known_memory_set)

lemma isSequence_number: "isSequence (NumJ (number_of n)) = (if n \<le> 2 ^ 53 - 1 then Some n else None)"
  by (simp add: isSequence_def safe_integer_number_of)

lemma isSequence_bound: "isSequence j = Some n \<Longrightarrow> n \<le> 2 ^ 53 - 1"
proof (cases j)
  case (NumJ num)
  assume "isSequence j = Some n"
  with NumJ show ?thesis by (cases num) (auto simp: isSequence_def Let_def split: option.split_asm if_split_asm)
qed (simp_all add: isSequence_def)

lemma read_entries_bound: "read_entries fs = Some m \<Longrightarrow> (s, n) \<in> set m \<Longrightarrow> n \<le> 2 ^ 53 - 1"
proof (induction fs arbitrary: m)
  case (Cons f fs)
  obtain t j where f: "f = (t, j)" by (cases f)
  with Cons.prems(1) obtain k ks where "isSequence j = Some k" "read_entries fs = Some ks" "m = (t, k) # ks"
    by (auto split: option.split_asm)
  with Cons isSequence_bound [of j k] show ?case by auto
qed simp

lemma read_written:
  "\<forall>(s, n) \<in> set m. n \<le> 2 ^ 53 - 1 \<Longrightarrow> read_entries (map (\<lambda>(s, n). (s, NumJ (number_of n))) m) = Some m"
  by (induction m) (auto simp: isSequence_number)


definition local_known :: "local_store \<Rightarrow> ustring \<Rightarrow> nat option" where
  "local_known st subject =
     later (case read_sequences False (ls_item st) of Inl _ \<Rightarrow> None | Inr m \<Rightarrow> map_of m subject) (map_of (ls_memory st) subject)"

lemma read_sequences_ok: "read_sequences throws item = Inr m \<Longrightarrow> read_sequences False item = Inr m"
  by (simp add: read_sequences_def split: if_split_asm)

lemma read_sequences_bound: "read_sequences throws item = Inr m \<Longrightarrow> \<forall>(s, n) \<in> set m. n \<le> 2 ^ 53 - 1"
  by (auto simp: read_sequences_def dest: read_entries_bound [simplified] split: if_split_asm option.split_asm json.split_asm)

lemma update_bound:
  "\<forall>(s, n) \<in> set m. n \<le> b \<Longrightarrow> k \<le> b \<Longrightarrow> \<forall>(s, n) \<in> set (AList.update t k m). n \<le> (b :: nat)"
  by (induction m) auto

lemma later_assoc: "later (later a b) c = later a (later b c)"
  by (simp add: later_def max.assoc split: option.split)

lemma local_known_set:
  assumes "n \<le> 2 ^ 53 - 1"
  shows "local_known (local_set f st subject n) t = (if t = subject then later (local_known st subject) (Some n) else local_known st t)"
proof -
  let ?m' = "memory_set (ls_memory st) subject n"
  have unchanged: "local_known (st\<lparr>ls_memory := ?m'\<rparr>) t = (if t = subject then later (local_known st subject) (Some n) else local_known st t)"
    by (cases "t = subject") (simp_all add: local_known_def known_memory_set later_assoc)
  show ?thesis
  proof (cases "read_sequences (sf_getItem f) (ls_item st)")
    case (Inr m)
    show ?thesis
    proof (cases "(case map_of m subject of None \<Rightarrow> False | Some k \<Rightarrow> n \<le> k) \<or> sf_setItem f")
      case False
      let ?m = "AList.update subject n m"
      have "read_entries (map (\<lambda>(s, n). (s, NumJ (number_of n))) ?m) = Some ?m"
        using read_sequences_bound [OF Inr] assms by (intro read_written update_bound) auto
      then have w: "read_sequences False (Some (Some (sequences_json ?m))) = Inr ?m"
        by (simp add: read_sequences_def sequences_json_def)
      have "local_set f st subject n = st\<lparr>ls_memory := ?m', ls_item := Some (Some (sequences_json ?m))\<rparr>"
        using Inr False by (simp add: local_set_def)
      then show ?thesis
        using False read_sequences_ok [OF Inr]
        by (auto simp: local_known_def w map_of_update_seq known_memory_set later_def split: option.splits)
    qed (use Inr unchanged in \<open>auto simp: local_set_def Let_def\<close>)
  qed (simp add: local_set_def unchanged)
qed

interpretation local: sequence_store local_get local_set local_known
proof unfold_locales
  show "local_get f st subject = Inr r \<Longrightarrow> r = local_known st subject" for f st subject r
  proof -
    assume "local_get f st subject = Inr r"
    then obtain m where m: "read_sequences (sf_getItem f) (ls_item st) = Inr m" "r = later (map_of m subject) (map_of (ls_memory st) subject)"
      by (auto simp: local_get_def memory_get_def elim!: bindR_InrE)
    from read_sequences_ok [OF m(1)] m(2) show "r = local_known st subject" by (simp add: local_known_def)
  qed
qed (rule local_known_set)

text \<open>C7: over any number of lookups with the store in \<open>localStorage\<close>, whatever the network answers and
  whichever calls of the storage fail: once a subject was seen registered, no later lookup
  calls it unregistered, and none accepts a record with a lower sequence.\<close>

theorem registered_never_forgotten:
  assumes "lookups lib local_get local_set st (before @ (subject, Registered s n hosts) # after) st'"
    and "(subject, v) \<in> set after"
  shows "(\<forall>s'. v \<noteq> Unregistered s') \<and> (\<forall>s' m hosts'. v = Registered s' m hosts' \<longrightarrow> n \<le> m)"
  using assms by (rule local.registered_stays)

text \<open>What a store remembers never decreases, and a store that cannot be read fails the lookup: with
  both stores of the file, the remembered sequence of every subject is at least what it was
  before a lookup, and at least the sequence of the record the lookup accepted.\<close>

theorem remembered_sequences_grow:
  assumes "resolveOwnerHosts lib (local_get f) (local_set f) subject race st = (outcome, st')"
  shows "at_least (local_known st t) (local_known st' t) \<and>
    (outcome = Inr (Registered s n hosts) \<longrightarrow> at_least (Some n) (local_known st' subject)) \<and>
    (local_get f st subject = Inl () \<longrightarrow> outcome \<in> {Inl (LookupInput InvalidSubject), Inl StoreFailed})"
  using local.lookup_step(1) [OF assms, of t] local.lookup_step(2) [OF assms, of "Registered s n hosts"] assms
  by (auto simp: verdict_sequence_def resolveOwnerHosts_def split: if_split_asm)


section \<open>Routing\<close>

text \<open>The origins a record lists, and the URLs at which a local node is looked for: the configured one, the
  local link name that is configured, and the local links among the record's origins.\<close>

definition listed_origins :: "registry_lib \<Rightarrow> registry_host list \<Rightarrow> ustring set" where
  "listed_origins lib listed = {origin. \<exists>h \<in> set listed. \<exists>url \<in> set (rh_urls h). exactHttpOrigin lib url = Inr origin}"

definition local_link :: "ustring \<Rightarrow> ustring" where
  "local_link name = ustr ''https://'' @ name @ ustr ''.local.tinycloud.link''"

inductive local_candidate ::
  "registry_lib \<Rightarrow> fail_closed_options \<Rightarrow> (policy_error, registry_verdict) result \<Rightarrow> ustring \<Rightarrow> bool" for lib options where
  configured: "fo_localNodeUrl options \<noteq> [] \<Longrightarrow> local_candidate lib options looked (fo_localNodeUrl options)"
| named: "fo_localLinkName options \<noteq> [] \<Longrightarrow> local_candidate lib options looked (local_link (fo_localLinkName options))"
| listed: "local_link name \<in> listed_origins lib listed \<Longrightarrow>
    local_candidate lib options (Inr (Registered subject n listed)) (local_link name)"

text \<open>Where the hosts of a routing come from, given what the attempt met and what its lookup of the registry gave.\<close>

inductive routed_by ::
  "registry_lib \<Rightarrow> fail_closed_options \<Rightarrow> nat \<Rightarrow> local_network \<Rightarrow> (policy_error, registry_verdict) result \<Rightarrow> ustring list \<Rightarrow> bool"
  for lib options k net where
  local_node: "fo_autoDiscover options \<Longrightarrow> local_candidate lib options looked url \<Longrightarrow> ln_healthz net url \<Longrightarrow>
    ln_info net url = Some did \<Longrightarrow> did \<noteq> [] \<Longrightarrow> fo_expectedNodeDid options \<in> {None, Some did} \<Longrightarrow>
    routed_by lib options k net looked [url]"
| registered: "set hosts = listed_origins lib listed \<Longrightarrow> distinct hosts \<Longrightarrow> hosts \<noteq> [] \<Longrightarrow>
    routed_by lib options k net (Inr (Registered subject n listed)) hosts"
| unregistered: "fo_newUserHost options \<noteq> Some None \<Longrightarrow>
    exactHttpOrigin lib (case fo_newUserHost options of Some (Some given) \<Rightarrow> given | _ \<Rightarrow> ustr ''https://node.tinycloud.xyz'') = Inr host \<Longrightarrow>
    routed_by lib options k net (Inr (Unregistered subject)) [host]"
| chosen: "fo_onNodeNotFound options = Some onNodeNotFound \<Longrightarrow> onNodeNotFound failure k = UseHost given \<Longrightarrow>
    exactHttpOrigin lib given = Inr host \<Longrightarrow>
    (case looked of
       Inr (Registered _ _ listed) \<Rightarrow> listed_origins lib listed = {}
     | Inr (Unregistered _) \<Rightarrow> fo_newUserHost options = Some None
     | _ \<Rightarrow> True) \<Longrightarrow>
    routed_by lib options k net looked [host]"

lemma secure_hosts: "set (secureRecordHosts lib listed) = listed_origins lib listed" "distinct (secureRecordHosts lib listed)"
  by (force simp: secureRecordHosts_def listed_origins_def List.map_filter_def ok_or_none_def split: sum.splits)
    (simp add: secureRecordHosts_def)

lemma secure_host: "h \<in> set (secureRecordHosts lib hosts) \<Longrightarrow> \<exists>rh \<in> set hosts. \<exists>url \<in> set (rh_urls rh). exactHttpOrigin lib url = Inr h"
  by (auto simp: secure_hosts listed_origins_def)

lemma link_name_host: "local_link_name host = Some name \<Longrightarrow> host = local_link name"
proof -
  assume "local_link_name host = Some name"
  moreover have eight: "length ''https://'' = 8" by simp
  ultimately have h: "startsWith host (ustr ''https://'')" "endsWith (drop 8 host) LOCAL_LINK_HOST_SUFFIX"
      "name = take (length (drop 8 host) - length LOCAL_LINK_HOST_SUFFIX) (drop 8 host)"
    unfolding local_link_name_def Let_def eight by (auto split: if_split_asm)
  from h(1) obtain r where r: "host = ustr ''https://'' @ r" by (auto simp: prefix_def)
  then have "drop 8 host = r" by (simp add: ustr_def)
  with h(2,3) obtain q where "r = q @ LOCAL_LINK_HOST_SUFFIX" "name = q" by (auto simp: endsWith_iff)
  with r show ?thesis by (simp add: local_link_def LOCAL_LINK_HOST_SUFFIX_def)
qed

lemma discovered_candidate:
  "discover_candidates lib net expected cs pins = (Some node, pins') \<Longrightarrow>
     (\<exists>(u, name) \<in> set cs. node_url node \<noteq> [] \<and> node_url node = u \<or> name \<noteq> [] \<and> node_url node = local_link name) \<and>
     ln_healthz net (node_url node) \<and> ln_info net (node_url node) = Some (node_did node) \<and> node_did node \<noteq> [] \<and>
     expected \<in> {None, Some (node_did node)}"
proof (induction lib net expected cs pins rule: discover_candidates.induct)
  case (2 lib net expected url link cs pins)
  define opts where "opts = \<lparr>do_auto = True, do_localNodeUrl = url, do_localLinkName = link, do_registry = None,
              do_expectedNodeDid = expected, do_verifyRecords = True\<rparr>"
  obtain found p where f: "discoverLocalTinyCloudNode lib net opts pins = (found, p)" by fastforce
  show ?case
  proof (cases found)
    case None
    with 2 f show ?thesis unfolding opts_def by auto
  next
    case (Some n)
    with 2(2) f have "n = node" unfolding opts_def by simp
    with discovered [OF f] Some have d: "(node_source node, node_url node) \<in> set (static_candidates opts)"
        "ln_healthz net (node_url node)" "ln_info net (node_url node) = Some (node_did node)"
        "case expected of Some e \<Rightarrow> node_did node = e | None \<Rightarrow> True"
      by (auto simp: fetchRegistryLocalLinkCandidates_def opts_def split: option.split)
    moreover have "node_did node \<noteq> []"
      using f Some \<open>n = node\<close> by (auto simp: discoverLocalTinyCloudNode_def Let_def probeAndVerifyLocalCandidate_def
          split: if_split_asm option.split_asm prod.split_asm dest!: first_adopted_Some)
    ultimately show ?thesis
      by (auto simp: static_candidates_def opts_def local_link_def LOCAL_LINK_HOST_SUFFIX_def split: option.split_asm if_split_asm)
  qed
qed simp

lemma resolve_once_routed:
  assumes "resolve_once lib get put options newUserHost subject env (st, pins) = (Inr (hosts, verdict), state')"
    and "new_user_host lib options = Inr newUserHost"
  obtains looked st' where
    "lookupOwnerRegistryVerdict lib (fo_hasRegistry options) (get (ae_faults env)) (put (ae_faults env)) subject (ae_race env) st = (looked, st')"
    "verdict = ok_or_none looked" "routed_by lib options k (ae_net env) looked hosts"
proof -
  obtain looked st' where l: "lookupOwnerRegistryVerdict lib (fo_hasRegistry options) (get (ae_faults env)) (put (ae_faults env)) subject (ae_race env) st
      = (looked, st')" by fastforce
  let ?cs = "(fo_localNodeUrl options, fo_localLinkName options) # map (Pair []) (link_names lib looked)"
  obtain found pins' where d: "(if fo_autoDiscover options then discover_candidates lib (ae_net env) (fo_expectedNodeDid options) ?cs pins
      else (None, pins)) = (found, pins')" by fastforce
  have "verdict = ok_or_none looked \<and> routed_by lib options k (ae_net env) looked hosts"
  proof (cases found)
    case (Some node)
    with d have a: "fo_autoDiscover options" and "discover_candidates lib (ae_net env) (fo_expectedNodeDid options) ?cs pins = (Some node, pins')"
      by (simp_all split: if_split_asm)
    note n = discovered_candidate [OF this(2)]
    from n consider "node_url node \<noteq> []" "node_url node = fo_localNodeUrl options"
      | "fo_localLinkName options \<noteq> []" "node_url node = local_link (fo_localLinkName options)"
      | name where "name \<in> set (link_names lib looked)" "node_url node = local_link name"
      by auto
    then have "local_candidate lib options looked (node_url node)"
    proof cases
      case 3
      then obtain s m listed h where "looked = Inr (Registered s m listed)" "h \<in> set (secureRecordHosts lib listed)" "local_link_name h = Some name"
        by (auto simp: link_names_def List.map_filter_def split: sum.split_asm registry_verdict.split_asm)
      moreover from this have "local_link name \<in> listed_origins lib listed"
        unfolding secure_hosts using link_name_host by blast
      ultimately show ?thesis unfolding 3(2) by (auto intro: local_candidate.listed)
    qed (auto intro: local_candidate.intros)
    with n a have "routed_by lib options k (ae_net env) looked [node_url node]" by (auto intro: routed_by.local_node)
    with assms(1) Some show ?thesis unfolding resolve_once_def prod.case l d by auto
  next
    case None
    with assms(1) have "(case looked of Inl e \<Rightarrow> Inl e
        | Inr verdict \<Rightarrow> bindR (hostsForVerdict lib verdict newUserHost) (\<lambda>hosts. Inr (hosts, Some verdict))) = Inr (hosts, verdict)"
      unfolding resolve_once_def prod.case l d by simp
    then obtain v where v: "looked = Inr v" "hostsForVerdict lib v newUserHost = Inr hosts" "verdict = Some v"
      by (auto split: sum.split_asm elim!: bindR_InrE)
    have "routed_by lib options k (ae_net env) (Inr v) hosts"
    proof (cases v)
      case (Registered s m listed)
      with v(2) secure_hosts show ?thesis
        by (auto simp: hostsForVerdict_def Let_def split: if_split_asm intro: routed_by.registered)
    next
      case (Unregistered s)
      with v(2) obtain host where h: "newUserHost = Some host" "hosts = [host]" by (auto simp: hostsForVerdict_def split: option.split_asm)
      with assms(2) show ?thesis unfolding Unregistered
        by (auto simp: new_user_host_def DEFAULT_NEW_USER_HOST_def DEFAULT_TINYCLOUD_FALLBACK_HOST_def
            split: option.split_asm sum.split_asm intro!: routed_by.unregistered)
    qed (use v(2) in \<open>simp add: hostsForVerdict_def\<close>)
    with v show ?thesis by (simp add: ok_or_none_def)
  qed
  with l show thesis using that by blast
qed

lemma resolve_once_failed:
  assumes "resolve_once lib get put options newUserHost subject env (st, pins) = (Inl e, state')"
    and "new_user_host lib options = Inr newUserHost"
  obtains looked st' where
    "lookupOwnerRegistryVerdict lib (fo_hasRegistry options) (get (ae_faults env)) (put (ae_faults env)) subject (ae_race env) st = (looked, st')"
    "failure_verdict e = ok_or_none looked"
    "case looked of
       Inr (Registered _ _ listed) \<Rightarrow> listed_origins lib listed = {}
     | Inr (Unregistered _) \<Rightarrow> fo_newUserHost options = Some None
     | _ \<Rightarrow> True"
proof -
  obtain looked st' where l: "lookupOwnerRegistryVerdict lib (fo_hasRegistry options) (get (ae_faults env)) (put (ae_faults env)) subject (ae_race env) st
      = (looked, st')" by fastforce
  have looked: "e' = RegistryUnavailable subject None" if "looked = Inl e'" for e'
    using l that by (auto simp: lookupOwnerRegistryVerdict_def split: if_split_asm prod.split_asm sum.split_asm)
  from assms(1) have "looked = Inl e \<or> (\<exists>v. looked = Inr v \<and> hostsForVerdict lib v newUserHost = Inl e)"
    unfolding resolve_once_def prod.case l
    by (auto split: prod.split_asm option.split_asm sum.split_asm simp: bindR_Inl_iff)
  then show thesis
  proof
    assume "looked = Inl e"
    with looked show thesis using that [OF l] by (simp add: failure_verdict_def ok_or_none_def)
  next
    assume "\<exists>v. looked = Inr v \<and> hostsForVerdict lib v newUserHost = Inl e"
    then obtain v where v: "looked = Inr v" "hostsForVerdict lib v newUserHost = Inl e" by blast
    have "failure_verdict e = Some v"
      using v(2) by (auto simp: hostsForVerdict_def failure_verdict_def Let_def split: registry_verdict.split_asm if_split_asm option.split_asm)
    moreover have "case v of Registered _ _ listed \<Rightarrow> listed_origins lib listed = {} | Unregistered _ \<Rightarrow> fo_newUserHost options = Some None | _ \<Rightarrow> True"
    proof (cases v)
      case (Registered s m listed)
      then have "secureRecordHosts lib listed = []" using v(2) by (simp add: hostsForVerdict_def Let_def split: if_split_asm)
      then show ?thesis using secure_hosts(1) [of lib listed] by (simp add: Registered)
    next
      case (Unregistered s)
      then have "newUserHost = None" using v(2) by (simp add: hostsForVerdict_def split: option.split_asm)
      with assms(2) Unregistered show ?thesis by (auto simp: new_user_host_def split: option.split_asm sum.split_asm)
    qed simp
    ultimately show thesis using that [OF l] v(1) by (simp add: ok_or_none_def split: registry_verdict.split_asm)
  qed
qed

text \<open>The attempt that gave the hosts: the lookup it made, from some state of the store.\<close>

definition attempt_routed ::
  "registry_lib \<Rightarrow> ('f \<Rightarrow> 's \<Rightarrow> ustring \<Rightarrow> (unit, nat option) result) \<Rightarrow> ('f \<Rightarrow> 's \<Rightarrow> ustring \<Rightarrow> nat \<Rightarrow> 's) \<Rightarrow> fail_closed_options
     \<Rightarrow> ustring \<Rightarrow> (nat \<Rightarrow> 'f attempt_env) \<Rightarrow> nat \<Rightarrow> ustring list \<Rightarrow> registry_verdict option \<Rightarrow> bool" where
  "attempt_routed lib get put options subject env k hosts verdict \<longleftrightarrow>
     (\<exists>st looked st'.
        lookupOwnerRegistryVerdict lib (fo_hasRegistry options) (get (ae_faults (env k))) (put (ae_faults (env k))) subject (ae_race (env k)) st
          = (looked, st') \<and>
        verdict = (case looked of Inr v \<Rightarrow> Some v | Inl _ \<Rightarrow> None) \<and> routed_by lib options k (ae_net (env k)) looked hosts)"

lemma attempts_routed:
  "attempts lib get put options newUserHost subject env k state = Some y \<Longrightarrow>
     (\<forall>hosts verdict state'. new_user_host lib options = Inr newUserHost \<longrightarrow> y = (Inr (hosts, verdict), state') \<longrightarrow>
        (\<exists>i \<ge> k. attempt_routed lib get put options subject env i hosts verdict))"
proof (induction lib get put options newUserHost subject env k state y rule: attempts.raw_induct [rotated 1, consumes 1, case_names step])
  case (step self lib get put options newUserHost subject env k state y)
  obtain st pins where state: "state = (st, pins)" by (cases state)
  obtain outcome state1 where o1: "resolve_once lib get put options newUserHost subject (env k) state = (outcome, state1)"
    by (rule prod.exhaust)
  show ?case
  proof (intro allI impI)
    fix hosts verdict state'
    assume nu: "new_user_host lib options = Inr newUserHost" and y: "y = (Inr (hosts, verdict), state')"
    show "\<exists>i \<ge> k. attempt_routed lib get put options subject env i hosts verdict"
    proof (cases outcome)
      case (Inr r)
      with step(2) o1 y have "resolve_once lib get put options newUserHost subject (env k) (st, pins) = (Inr (hosts, verdict), state1)"
        by (simp add: state)
      from resolve_once_routed [OF this nu, of k] have "attempt_routed lib get put options subject env k hosts verdict"
        unfolding attempt_routed_def ok_or_none_def by metis
      then show ?thesis by blast
    next
      case (Inl failure)
      with step(2) y o1 obtain f where f: "fo_onNodeNotFound options = Some f"
        and d: "f failure k = Retry \<and> self lib get put options newUserHost subject env (k + 1) state1 = Some y \<or>
          (\<exists>host origin. f failure k = UseHost host \<and> exactHttpOrigin lib host = Inr origin \<and>
             hosts = [origin] \<and> verdict = failure_verdict failure)"
        by (auto split: if_split_asm option.split_asm node_decision.split_asm sum.split_asm)
      from d show ?thesis
      proof
        assume "f failure k = Retry \<and> self lib get put options newUserHost subject env (k + 1) state1 = Some y"
        with step(1) y nu obtain i where "k + 1 \<le> i" "attempt_routed lib get put options subject env i hosts verdict" by blast
        then show ?thesis by (intro exI [of _ i]) simp
      next
        assume "\<exists>host origin. f failure k = UseHost host \<and> exactHttpOrigin lib host = Inr origin \<and>
             hosts = [origin] \<and> verdict = failure_verdict failure"
        then obtain host origin where u: "f failure k = UseHost host" "exactHttpOrigin lib host = Inr origin" "hosts = [origin]"
          "verdict = failure_verdict failure" by blast
        from o1 Inl have "resolve_once lib get put options newUserHost subject (env k) (st, pins) = (Inl failure, state1)" by (simp add: state)
        from resolve_once_failed [OF this nu] obtain looked st' where l:
          "lookupOwnerRegistryVerdict lib (fo_hasRegistry options) (get (ae_faults (env k))) (put (ae_faults (env k))) subject (ae_race (env k)) st = (looked, st')"
          "failure_verdict failure = ok_or_none looked"
          "case looked of Inr (Registered _ _ listed) \<Rightarrow> listed_origins lib listed = {}
             | Inr (Unregistered _) \<Rightarrow> fo_newUserHost options = Some None | _ \<Rightarrow> True" by metis
        have "routed_by lib options k (ae_net (env k)) looked hosts"
          unfolding u(3) by (rule routed_by.chosen [OF f u(1,2) l(3)])
        with l u(4) have "attempt_routed lib get put options subject env k hosts verdict"
          unfolding attempt_routed_def ok_or_none_def by metis
        then show ?thesis by blast
      qed
    qed
  qed
qed

text \<open>C9: the fail-closed policy never falls back. Whatever hosts \<open>resolveFailClosedTinyCloudHosts\<close> returns come
  from one attempt, and from what that attempt met: a local node at a configured URL or local link, which
  its network found healthy and answering with the expected DID; or exactly the origins that the record
  of a registered verdict lists; or the new-user host (or the default, if none is configured) when
  the verdict is \<open>unregistered\<close>, and only then; or the exact origin the application's callback chose, which
  is asked only when the verdict gives no host. The verdict returned is the one that attempt's lookup gave,
  so an unavailable registry gives no host by itself.\<close>

theorem fail_closed_routes:
  assumes "resolveFailClosedTinyCloudHosts lib get put address options env state = Some (Inr (hosts, verdict), state')"
  shows "\<exists>subject. registryOwnerSubjectV1 lib address (fo_chainId options) = Inr subject \<and>
    (\<exists>k \<ge> 1. \<exists>st looked st'.
      lookupOwnerRegistryVerdict lib (fo_hasRegistry options) (get (ae_faults (env k))) (put (ae_faults (env k))) subject (ae_race (env k)) st
        = (looked, st') \<and>
      verdict = (case looked of Inr v \<Rightarrow> Some v | Inl _ \<Rightarrow> None) \<and> routed_by lib options k (ae_net (env k)) looked hosts)"
proof -
  from assms obtain nuh subject where "new_user_host lib options = Inr nuh" "registryOwnerSubjectV1 lib address (fo_chainId options) = Inr subject"
    "attempts lib get put options nuh subject env 1 state = Some (Inr (hosts, verdict), state')"
    by (auto simp: resolveFailClosedTinyCloudHosts_def split: sum.split_asm)
  with attempts_routed [OF this(3)] show ?thesis unfolding attempt_routed_def by blast
qed

section \<open>When the loop returns\<close>

text \<open>The state after \<open>i\<close> attempts that were all retried, and whether attempt \<open>k + i\<close> is retried.\<close>

fun attempt_state where
  "attempt_state lib get put options newUserHost subject env k state 0 = state"
| "attempt_state lib get put options newUserHost subject env k state (Suc i) =
     snd (resolve_once lib get put options newUserHost subject (env (k + i)) (attempt_state lib get put options newUserHost subject env k state i))"

definition retried where
  "retried lib get put options newUserHost subject env k state i \<longleftrightarrow>
     (case resolve_once lib get put options newUserHost subject (env (k + i))
             (attempt_state lib get put options newUserHost subject env k state i) of
        (Inl failure, _) \<Rightarrow>
          recoverable failure \<and> (case fo_onNodeNotFound options of None \<Rightarrow> False | Some f \<Rightarrow> f failure (k + i) = Retry)
      | _ \<Rightarrow> False)"

lemma attempt_state_shift:
  "attempt_state lib get put options nuh subject env (Suc k) (snd (resolve_once lib get put options nuh subject (env k) state)) i =
   attempt_state lib get put options nuh subject env k state (Suc i)"
  by (induction i) simp_all

lemma retried_shift:
  "retried lib get put options nuh subject env (Suc k) (snd (resolve_once lib get put options nuh subject (env k) state)) i =
   retried lib get put options nuh subject env k state (Suc i)"
  unfolding retried_def attempt_state_shift add_Suc add_Suc_right ..

lemma attempts_retried:
  assumes "retried lib get put options nuh subject env k state 0"
  shows "attempts lib get put options nuh subject env k state =
    attempts lib get put options nuh subject env (Suc k) (snd (resolve_once lib get put options nuh subject (env k) state))"
  using assms by (subst attempts.simps) (auto simp: retried_def split: prod.split_asm sum.split_asm option.split_asm)

lemma attempts_stop:
  "\<not> retried lib get put options nuh subject env k state 0 \<Longrightarrow> \<exists>r. attempts lib get put options nuh subject env k state = Some r"
  by (subst attempts.simps) (auto simp: retried_def split: prod.split sum.split option.split node_decision.split)

lemma attempts_stop_later:
  "\<not> retried lib get put options nuh subject env k state i \<Longrightarrow> \<exists>r. attempts lib get put options nuh subject env k state = Some r"
proof (induction i arbitrary: k state)
  case (Suc i)
  show ?case
  proof (cases "retried lib get put options nuh subject env k state 0")
    case True
    from Suc show ?thesis unfolding attempts_retried [OF True] retried_shift [symmetric] by blast
  qed (rule attempts_stop)
qed (rule attempts_stop)

lemma attempts_diverge:
  "attempts lib get put options nuh subject env k state = Some y \<Longrightarrow>
     \<exists>i. \<not> retried lib get put options nuh subject env k state i"
proof (induction lib get put options nuh subject env k state y rule: attempts.raw_induct [rotated 1, consumes 1, case_names step])
  case (step self lib get put options nuh subject env k state y)
  let ?r = "resolve_once lib get put options nuh subject (env k) state"
  show ?case
  proof (cases "retried lib get put options nuh subject env k state 0")
    case True
    with step(2) have "self lib get put options nuh subject env (Suc k) (snd ?r) = Some y"
      by (auto simp: retried_def split: prod.split_asm sum.split_asm option.split_asm)
    from step(1) [OF this] show ?thesis unfolding retried_shift by blast
  qed blast
qed

text \<open>C30: \<open>resolveFailClosedTinyCloudHosts\<close> returns, with hosts or an error, unless every attempt fails in a way
  the application may retry and the application does retry every one of them: the loop ends with
  the first attempt that succeeds, or whose failure is not retried.\<close>

theorem fail_closed_returns:
  "(\<exists>r. resolveFailClosedTinyCloudHosts lib get put address options env state = Some r) \<longleftrightarrow>
     \<not> (\<exists>newUserHost subject. new_user_host lib options = Inr newUserHost \<and>
          registryOwnerSubjectV1 lib address (fo_chainId options) = Inr subject \<and>
          (\<forall>i. retried lib get put options newUserHost subject env 1 state i))"
proof -
  have loop: "(\<exists>r. attempts lib get put options nuh subject env 1 state = Some r) \<longleftrightarrow>
      \<not> (\<forall>i. retried lib get put options nuh subject env 1 state i)" for nuh subject
    using attempts_stop_later attempts_diverge by metis
  show ?thesis
    by (cases "new_user_host lib options"; cases "registryOwnerSubjectV1 lib address (fo_chainId options)")
      (simp_all add: resolveFailClosedTinyCloudHosts_def loop [unfolded One_nat_def] del: split_paired_Ex not_all)
qed

section \<open>The creation guard\<close>

text \<open>C20: routing and the creation guard agree: every host a verdict routes to may have spaces created on it,
  and for a registered owner the guard accepts no host whose origin the verdict does not
  route to. It relies on origins being URLs of themselves.\<close>

theorem guard_matches_routing:
  assumes "\<And>url origin. exactHttpOrigin lib url = Inr origin \<Longrightarrow> httpOrigin lib origin = Some origin"
  shows "(\<forall>hosts. hostsForVerdict lib verdict newUserHost = Inr hosts \<longrightarrow>
            (\<forall>h \<in> set hosts. assertSpaceCreationAllowed lib verdict h = Inr ())) \<and>
         (\<forall>host. assertSpaceCreationAllowed lib verdict host = Inr () \<longrightarrow>
            (case verdict of
               Registered _ _ _ \<Rightarrow> (\<exists>hosts origin. hostsForVerdict lib verdict newUserHost = Inr hosts \<and>
                 httpOrigin lib host = Some origin \<and> origin \<in> set hosts)
             | Unregistered _ \<Rightarrow> True
             | Unavailable _ _ \<Rightarrow> False))"
proof (cases verdict)
  case (Registered subject n listed)
  let ?hosts = "secureRecordHosts lib listed"
  have own: "httpOrigin lib h = Some h" if "h \<in> set ?hosts" for h
    using secure_host [OF that] assms by blast
  have guard: "assertSpaceCreationAllowed lib verdict h = Inr () \<longleftrightarrow> (\<exists>u. httpOrigin lib h = Some u \<and> u \<in> set ?hosts)" for h
    unfolding Registered by (simp add: assertSpaceCreationAllowed_def split: option.split)
  have route: "hostsForVerdict lib verdict newUserHost = Inr hosts \<longleftrightarrow> hosts = ?hosts \<and> hosts \<noteq> []" for hosts
    unfolding Registered by (auto simp: hostsForVerdict_def Let_def)
  show ?thesis
    unfolding guard route using own by (auto simp: Registered)
qed (auto simp: hostsForVerdict_def assertSpaceCreationAllowed_def split: option.split_asm)


section \<open>Instances\<close>

definition ascii_text :: "ustring \<Rightarrow> bool" where "ascii_text s \<longleftrightarrow> list_all (\<lambda>u. u < 0x80) s"

lemma ascii_text_simps [simp]: "ascii_text []" "ascii_text (a @ b) \<longleftrightarrow> ascii_text a \<and> ascii_text b" "ascii_text (u # s) \<longleftrightarrow> u < 0x80 \<and> ascii_text s"
  by (simp_all add: ascii_text_def)

lemma ascii_encode: "ascii_text s \<Longrightarrow> textEncode s = map ucast s"
proof (induction s)
  case (Cons u s)
  then have u: "u < 0x80" "\<not> high u" "\<not> low u" "unat u < 0x80"
    by (auto simp: high_def low_def word_le_nat_alt word_less_nat_alt)
  then have "code_points (u # s) = unat u # code_points s" by simp
  then have "textEncode (u # s) = of_nat (unat u) # textEncode s"
    using u(4) by (simp add: textEncode_def utf8_of_def)
  with Cons show ?case by simp
qed (simp add: textEncode_def)

lemma ascii_round_trip: "ascii_text s \<Longrightarrow> rl_decodeUtf8 loc_lib (textEncode s) = Some s"
proof -
  assume a: "ascii_text s"
  have "\<forall>u \<in> set s. (ucast u :: 8 word) < 0x80 \<and> ucast (ucast u :: 8 word) = u"
    using a by (auto simp: ascii_text_def list_all_iff word_less_nat_alt unsigned_ucast_eq unsigned_take_bit_eq take_bit_nat_eq_self word_unat_eq_iff)
  then show ?thesis
    unfolding ascii_encode [OF a] by (simp add: loc_lib_def ascii_decode_def list_all_iff map_idI)
qed

lemma loc_body_ascii: "ascii_text loc_body" "ascii_text REGISTRY_NOT_FOUND_BODY"
proof -
  have "\<forall>u \<in> set BASE64URL_ALPHABET. u < 0x80" by code_simp
  then have "ascii_text (base64UrlEncode (replicate 64 0))"
    using encode_alphabet by (auto simp: ascii_text_def list_all_iff)
  then show "ascii_text loc_body"
    by (simp add: loc_body_def object_text_def loc_members_def quote_plain_def)
      (simp add: ustr_def unit_of_def loc_subject_def loc_origin_def)
  show "ascii_text REGISTRY_NOT_FOUND_BODY" by (simp add: REGISTRY_NOT_FOUND_BODY_def ustr_def unit_of_def)
qed

definition respond :: "int \<Rightarrow> ustring \<Rightarrow> fetched option" where
  "respond status body = Some (Fetched status None (Some (BodyChunk (textEncode body) BodyEnds)))"

lemma observe_respond:
  assumes "status = 200 \<or> status = 404" and "ascii_text body" and "length (textEncode body) \<le> REGISTRY_LOOKUP_MAX_BODY_BYTES"
  shows "observeRegistry loc_lib (respond status body) = Observed (HttpResponse status body)"
  using assms by (auto simp: observeRegistry_def respond_def readRegistry_def boundedResponseBytes_def ascii_round_trip)

definition no_faults :: storage_faults where "no_faults = \<lparr>sf_getItem = False, sf_setItem = False\<rparr>"
definition fresh_store :: local_store where "fresh_store = \<lparr>ls_item = None, ls_memory = []\<rparr>"

definition seen_store :: local_store where
  "seen_store = \<lparr>ls_item = Some (Some (sequences_json [(loc_subject, 7)])), ls_memory = [(loc_subject, 7)]\<rparr>"

abbreviation loc_verdict :: registry_verdict where "loc_verdict \<equiv> Registered loc_subject 7 (record_hosts loc_lib loc_v1)"

lemma loc_subject_short: "\<not> MAX_SUBJECT_LENGTH < length loc_subject"
  by (simp add: MAX_SUBJECT_LENGTH_def loc_subject_def ustr_def)

lemma first_lookup:
  "resolveOwnerHosts loc_lib (local_get no_faults) (local_set no_faults) loc_subject (respond 200 loc_body) fresh_store = (Inr loc_verdict, seen_store)"
proof -
  have "local_get no_faults fresh_store loc_subject = Inr None"
    by (simp add: local_get_def no_faults_def fresh_store_def read_sequences_def memory_get_def later_def)
  moreover have "local_set no_faults fresh_store loc_subject 7 = seen_store"
    by (simp add: local_set_def no_faults_def fresh_store_def read_sequences_def memory_set_def seen_store_def)
  ultimately show ?thesis
    using loc_canonical loc_subject_short loc_body_small loc_body_ascii loc_classified [of None]
    by (simp add: resolveOwnerHosts_def observe_respond remember_def)
qed

lemma loc_not_found: "trim_space REGISTRY_NOT_FOUND_BODY = REGISTRY_NOT_FOUND_BODY"
  by (simp add: trim_space_def REGISTRY_NOT_FOUND_BODY_def ustr_def unit_of_def json_space_def)

lemma not_found_small: "length REGISTRY_NOT_FOUND_BODY \<le> REGISTRY_LOOKUP_MAX_BODY_BYTES \<and> length (textEncode REGISTRY_NOT_FOUND_BODY) \<le> REGISTRY_LOOKUP_MAX_BODY_BYTES"
  unfolding ascii_encode [OF loc_body_ascii(2)] by (simp add: REGISTRY_LOOKUP_MAX_BODY_BYTES_def REGISTRY_NOT_FOUND_BODY_def ustr_def)

lemma second_lookup:
  "resolveOwnerHosts loc_lib (local_get no_faults) (local_set no_faults) loc_subject (respond 404 REGISTRY_NOT_FOUND_BODY) seen_store =
     (Inr (Unavailable loc_subject NotFoundAfterRegistered), seen_store)"
proof -
  have "isSequence (NumJ (number_of 7)) = Some 7" by (simp add: isSequence_number)
  then have "local_get no_faults seen_store loc_subject = Inr (Some 7)"
    by (simp add: local_get_def no_faults_def seen_store_def read_sequences_def sequences_json_def memory_get_def later_def)
  then show ?thesis
    using loc_canonical loc_subject_short not_found_small loc_body_ascii loc_not_found
    by (simp add: resolveOwnerHosts_def observe_respond remember_def classifyRegistryLookup_def classify_body_def MAX_SAFE_INTEGER_def)
qed

lemma loc_lookups:
  "lookups loc_lib local_get local_set fresh_store
     ([] @ (loc_subject, loc_verdict) # [(loc_subject, Unavailable loc_subject NotFoundAfterRegistered)]) seen_store"
proof -
  note step = answered [where f = no_faults and get = local_get and put = local_set]
  have "lookups loc_lib local_get local_set seen_store [(loc_subject, Unavailable loc_subject NotFoundAfterRegistered)] seen_store"
    by (rule step [OF second_lookup no_lookup])
  from step [OF first_lookup this] show ?thesis by simp
qed

theorem registered_never_forgotten_witness:
  "\<exists>v. lookups loc_lib local_get local_set fresh_store ([] @ (loc_subject, loc_verdict) # [(loc_subject, v)]) seen_store \<and>
     (\<forall>s. v \<noteq> Unregistered s)"
  using loc_lookups registered_never_forgotten [OF loc_lookups, of "Unavailable loc_subject NotFoundAfterRegistered"]
  by (intro exI [of _ "Unavailable loc_subject NotFoundAfterRegistered"]) simp

theorem remembered_sequences_grow_witness: "at_least (Some 7) (local_known seen_store loc_subject)"
  using remembered_sequences_grow [OF first_lookup] by blast

lemma loc_http_origin: "httpOrigin loc_lib u = Some u"
  by (simp add: httpOrigin_def) (simp add: plain_url_def)

theorem guard_matches_routing_witness:
  "assertSpaceCreationAllowed loc_lib (Registered loc_subject 7 [\<lparr>rh_urls = [loc_origin]\<rparr>]) loc_origin = Inr ()"
proof -
  have "hostsForVerdict loc_lib (Registered loc_subject 7 [\<lparr>rh_urls = [loc_origin]\<rparr>]) None = Inr [loc_origin]"
    by (simp add: hostsForVerdict_def secureRecordHosts_def loc_origins ok_or_none_def List.map_filter_def dedupe_distinct)
  then show ?thesis
    using guard_matches_routing [of loc_lib "Registered loc_subject 7 [\<lparr>rh_urls = [loc_origin]\<rparr>]" None]
    by (simp add: loc_origins loc_http_origin)
qed

definition loc_policy :: fail_closed_options where
  "loc_policy = \<lparr>fo_chainId = None, fo_newUserHost = Some None, fo_hasRegistry = False, fo_autoDiscover = True,
     fo_localNodeUrl = loc_origin, fo_localLinkName = [], fo_expectedNodeDid = Some loc_subject, fo_onNodeNotFound = None\<rparr>"

definition loc_env :: "nat \<Rightarrow> storage_faults attempt_env" where
  "loc_env = (\<lambda>_. \<lparr>ae_race = None, ae_net = loc_net loc_subject, ae_faults = no_faults\<rparr>)"

definition loc_address :: string where "loc_address = ''0x'' @ replicate 40 CHR ''a''"

lemma loc_owner: "\<exists>s. registryOwnerSubjectV1 loc_lib loc_address None = Inr s"
proof -
  have "rx_test ADDRESS_RE loc_address"
    unfolding ADDRESS_RE_iff loc_address_def
    by (rule exI [of _ "replicate 40 CHR ''a''"]) (simp add: list_all_iff char_class_defs)
  then have "rl_evm loc_lib = lower_evm" "isAddress lower_evm loc_address" by (simp_all add: loc_lib_def lower_evm_def)
  then show ?thesis
    by (simp add: registryOwnerSubjectV1_def pkhDid_id_def assertValidChainId_def DEFAULT_REGISTRY_OWNER_CHAIN_ID_def canonicalizeAddress_def
        isEvmAddress_def MAX_SAFE_INTEGER_def throw_if_def)
qed

lemma loc_routed:
  "\<exists>state'. resolveFailClosedTinyCloudHosts loc_lib local_get local_set loc_address loc_policy loc_env (fresh_store, []) =
     Some (Inr ([loc_origin], None), state')"
proof -
  obtain s where s: "registryOwnerSubjectV1 loc_lib loc_address None = Inr s" using loc_owner ..
  have "loc_origin \<noteq> []" "loc_subject \<noteq> []" by (simp_all add: loc_origin_def loc_subject_def ustr_def)
  then show ?thesis
    by (simp add: resolveFailClosedTinyCloudHosts_def new_user_host_def loc_policy_def s attempts.simps [of loc_lib] resolve_once_def loc_env_def
        lookupOwnerRegistryVerdict_def link_names_def ok_or_none_def discoverLocalTinyCloudNode_def static_candidates_def
        probeAndVerifyLocalCandidate_def loc_net_def)
qed

theorem fail_closed_routes_witness:
  "\<exists>k looked. routed_by loc_lib loc_policy k (loc_net loc_subject) looked [loc_origin]"
proof -
  obtain state' where "resolveFailClosedTinyCloudHosts loc_lib local_get local_set loc_address loc_policy loc_env (fresh_store, []) =
     Some (Inr ([loc_origin], None), state')" using loc_routed ..
  from fail_closed_routes [OF this] show ?thesis by (auto simp: loc_env_def)
qed

end
