(* ===== verification/UnifiedCapability.thy ===== *)
theory UnifiedCapability
  imports PolicyCapability Encodings NetworkId
begin

text \<open>
  The capabilities of \<^verbatim>\<open>packages/sdk-core/src/policy/unified.ts\<close>: their normal form, containment,
  the projection to the capabilities a node enforces and back, the digests that are taken of
  them, the identifiers of policies, and the attenuation a policy session carries for them.

  Inputs are JSON values (\<open>json\<close>, \<open>None\<close> for an absent member). SHA-256 and the text form of a
  CID are parameters. \<open>unified_error\<close> has the messages the file throws; the errors of the
  canonical encoder are passed on.

  The lemmas show that containment is inclusion of the accesses two capabilities allow, that a
  projection can be read back, that the order of a ceiling does not matter for its projection,
  and that a policy identifier is the one \<^verbatim>\<open>signed-object.ts\<close> derives from the digest.
\<close>

section \<open>Reading\<close>

datatype unified_error =
    Thrown string | JcsThrown canonicalization_error | TypeErrorThrown | LibraryThrown
  | HttpError ustring int                       \<comment> \<open>message and status, \<open>httpResponseError\<close>\<close>

definition own :: "json_object \<Rightarrow> string \<Rightarrow> json option" where
  "own fs key = map_of fs (ustr key)"

definition jcs :: "json \<Rightarrow> (unified_error, ustring) result" where
  "jcs v = (case jcsCanonicalize (raw_of v) of Inl e \<Rightarrow> Inl (JcsThrown e) | Inr t \<Rightarrow> Inr t)"

definition object :: "json option \<Rightarrow> string \<Rightarrow> (unified_error, json_object) result" where
  "object v label = (case v of Some (ObjJ fs) \<Rightarrow> Inr fs | _ \<Rightarrow> Inl (Thrown (label @ '' must be an object'')))"

definition exactKeys :: "json_object \<Rightarrow> string list \<Rightarrow> string \<Rightarrow> (unified_error, unit) result" where
  "exactKeys fs allowed label =
     throw_if (list_ex (\<lambda>(key, _). key \<notin> ustr ` set allowed) fs) (Thrown (label @ '' contains an unknown field''))"

definition nonEmptyString :: "json option \<Rightarrow> string \<Rightarrow> (unified_error, ustring) result" where
  "nonEmptyString v label =
     (case v of
        Some (StrJ s) \<Rightarrow> if s = [] then Inl (Thrown (label @ '' must be a non-empty string'')) else Inr s
      | _ \<Rightarrow> Inl (Thrown (label @ '' must be a non-empty string'')))"

text \<open>\<open>a === b\<close> on members: objects and arrays that were parsed are never identical.\<close>

fun strict_eq :: "json option \<Rightarrow> json option \<Rightarrow> bool" where
  "strict_eq (Some (ObjJ _)) _ = False"
| "strict_eq (Some (ArrJ _)) _ = False"
| "strict_eq a b = (a = b)"

section \<open>Resources\<close>

text \<open>\<open>s.indexOf(p)\<close>, where \<open>None\<close> is -1.\<close>

fun index_of :: "'a list \<Rightarrow> 'a list \<Rightarrow> nat option" where
  "index_of p s =
     (if startsWith s p then Some 0 else case s of [] \<Rightarrow> None | _ # r \<Rightarrow> map_option Suc (index_of p r))"

declare index_of.simps [simp del]

definition KV_MARKER :: ustring where "KV_MARKER = ustr ''/kv/''"
definition TINYCLOUD_SCHEME :: ustring where "TINYCLOUD_SCHEME = ustr ''tinycloud:''"
definition TINYCLOUD_URL :: ustring where "TINYCLOUD_URL = ustr ''tinycloud://''"

text \<open>\<^verbatim>\<open>/[/?#%]/\<close>\<close>

definition url_unit :: "16 word \<Rightarrow> bool" where
  "url_unit u \<longleftrightarrow> u \<in> {0x2F, 0x3F, 0x23, 0x25}"

definition kv_path_ok :: "ustring \<Rightarrow> bool" where
  "kv_path_ok path \<longleftrightarrow>
     \<not> (startsWith path (ustr ''/'') \<or> endsWith path (ustr ''/'') \<or> hasSub path (ustr ''//'') \<or>
        list_ex (\<lambda>part. part = ustr ''.'' \<or> part = ustr ''..'' \<or> part = []) (splitOn 0x2F path))"

definition parseKvResource :: "ustring \<Rightarrow> (unified_error, ustring \<times> ustring) result" where
  "parseKvResource resource =
     (let fail = Inl (Thrown ''KV resource is not canonical'')
      in case index_of KV_MARKER resource of
           None \<Rightarrow> fail
         | Some marker \<Rightarrow>
             let encodedSpace = take marker resource;
                 legacy = startsWith encodedSpace TINYCLOUD_URL;
                 space = (if legacy then drop (length TINYCLOUD_URL) encodedSpace else encodedSpace);
                 path = drop (marker + 4) resource
             in if marker < 1 \<or>
                   (if legacy then list_ex (\<lambda>u. u = 0x3A \<or> url_unit u) space
                    else \<not> startsWith encodedSpace TINYCLOUD_SCHEME \<or> list_ex url_unit encodedSpace) \<or>
                   \<not> kv_path_ok path
                then fail else Inr (space, path))"

text \<open>The looser resource parser of \<open>networkId.ts\<close>. It tells no character above the ASCII ones from
  another, so all of them are read as one.\<close>

definition resource_chars :: "ustring \<Rightarrow> string" where
  "resource_chars s = map (\<lambda>u. if u < 0x80 then char_of (unat u) else CHR 0xFF) s"

definition parseEncryptionResource_unified :: "ustring \<Rightarrow> (unified_error, unit) result" where
  "parseEncryptionResource_unified resource =
     (case parseNetworkResource (resource_chars resource) of
        Inr (_, keyPath) \<Rightarrow>
          throw_if (case keyPath of None \<Rightarrow> False | Some p \<Rightarrow> endsWith p ''/'') (Thrown ''encryption capability is invalid'')
      | Inl _ \<Rightarrow> Inl (Thrown ''encryption capability is invalid''))"

section \<open>Capabilities\<close>

datatype selector = Exact | PrefixOf

datatype unified_capability =
    KvCapability (cap_resource: ustring) selector "ustring list"
  | EncryptionCapability (cap_resource: ustring)

definition KV_ACTIONS :: "ustring list" where
  "KV_ACTIONS = [ustr ''tinycloud.kv/get'', ustr ''tinycloud.kv/list'', ustr ''tinycloud.kv/metadata'', ustr ''tinycloud.kv/put'']"

definition DECRYPT :: ustring where "DECRYPT = ustr ''tinycloud.encryption/decrypt''"

fun selector_text :: "selector \<Rightarrow> ustring" where
  "selector_text Exact = ustr ''exact''"
| "selector_text PrefixOf = ustr ''prefix''"

definition selector_of :: "json option \<Rightarrow> selector option" where
  "selector_of v =
     (if v = Some (StrJ (ustr ''exact'')) then Some Exact
      else if v = Some (StrJ (ustr ''prefix'')) then Some PrefixOf else None)"

text \<open>The two branches on \<open>kind\<close>, and the function.\<close>

definition normalize_kv :: "json_object \<Rightarrow> (unified_error, unified_capability) result" where
  "normalize_kv v =
     bindR (exactKeys v [''kind'', ''resource'', ''selector'', ''actions''] ''KV capability'') (\<lambda>_.
     bindR (nonEmptyString (own v ''resource'') ''capability.resource'') (\<lambda>resource.
     bindR (parseKvResource resource) (\<lambda>_.
     case selector_of (own v ''selector'') of
       None \<Rightarrow> Inl (Thrown ''capability.selector is invalid'')
     | Some sel \<Rightarrow>
         (case own v ''actions'' of
            Some (ArrJ raws) \<Rightarrow>
              if raws = [] then Inl (Thrown ''capability.actions is invalid'')
              else bindR (mapR (\<lambda>action. nonEmptyString (Some action) ''capability.actions[]'') raws) (\<lambda>actions.
                if \<not> distinct actions \<or> list_ex (\<lambda>action. action \<notin> set KV_ACTIONS) actions
                then Inl (Thrown ''capability.actions is invalid'')
                else Inr (KvCapability resource sel (sort_units actions)))
          | _ \<Rightarrow> Inl (Thrown ''capability.actions is invalid'')))))"

definition normalize_encryption :: "json_object \<Rightarrow> (unified_error, unified_capability) result" where
  "normalize_encryption v =
     bindR (exactKeys v [''kind'', ''resource'', ''action''] ''encryption capability'') (\<lambda>_.
     bindR (nonEmptyString (own v ''resource'') ''capability.resource'') (\<lambda>resource.
     if own v ''action'' \<noteq> Some (StrJ DECRYPT) then Inl (Thrown ''encryption capability is invalid'')
     else bindR (parseEncryptionResource_unified resource) (\<lambda>_. Inr (EncryptionCapability resource))))"

definition normalizeUnifiedPolicyCapability :: "json \<Rightarrow> (unified_error, unified_capability) result" where
  "normalizeUnifiedPolicyCapability input =
     bindR (object (Some input) ''capability'') (\<lambda>v.
     bindR (nonEmptyString (own v ''kind'') ''capability.kind'') (\<lambda>kind.
     if kind = ustr ''kv'' then normalize_kv v
     else if kind = ustr ''encryption'' then normalize_encryption v
     else Inl (Thrown ''capability.kind is invalid'')))"

definition canonicalizeUnifiedPolicyCapability :: "json \<Rightarrow> (unified_error, unified_capability) result" where
  "canonicalizeUnifiedPolicyCapability input = normalizeUnifiedPolicyCapability input"

text \<open>The object a normal form is.\<close>

fun cap_json :: "unified_capability \<Rightarrow> json" where
  "cap_json (KvCapability resource sel actions) =
     ObjJ [(ustr ''kind'', StrJ (ustr ''kv'')), (ustr ''resource'', StrJ resource),
           (ustr ''selector'', StrJ (selector_text sel)), (ustr ''actions'', ArrJ (map StrJ actions))]"
| "cap_json (EncryptionCapability resource) =
     ObjJ [(ustr ''kind'', StrJ (ustr ''encryption'')), (ustr ''resource'', StrJ resource), (ustr ''action'', StrJ DECRYPT)]"

text \<open>The comparison of two normal forms, and the check; every exception counts as no.\<close>

fun cap_contains :: "unified_capability \<Rightarrow> unified_capability \<Rightarrow> bool" where
  "cap_contains (EncryptionCapability authorized) (EncryptionCapability requested) = (authorized = requested)"
| "cap_contains (KvCapability authorized sel granted) (KvCapability requested sel' actions) =
     (let pathContained =
            (if sel = Exact then authorized = requested
             else authorized = requested \<or> startsWith requested (authorized @ ustr ''/''))
      in if \<not> pathContained \<or> (sel = Exact \<and> sel' = PrefixOf) then False
         else list_all (\<lambda>action. action \<in> set granted) actions)"
| "cap_contains _ _ = False"

definition unifiedPolicyCapabilityContains :: "json \<Rightarrow> json \<Rightarrow> bool" where
  "unifiedPolicyCapabilityContains authorityInput requestedInput =
     (case bindR (normalizeUnifiedPolicyCapability authorityInput) (\<lambda>authority.
           bindR (normalizeUnifiedPolicyCapability requestedInput) (\<lambda>requested. Inr (cap_contains authority requested))) of
        Inl _ \<Rightarrow> False
      | Inr b \<Rightarrow> b)"

section \<open>Native capabilities\<close>

record native_capability =
  nc_service :: ustring
  nc_space :: ustring
  nc_path :: ustring
  nc_actions :: "ustring list"
  nc_caveat :: "(selector \<times> ustring) option"

definition SELECTOR_TYPE :: ustring where "SELECTOR_TYPE = ustr ''xyz.tinycloud.resource/selector''"

definition selector_caveat :: "selector \<Rightarrow> ustring \<Rightarrow> json" where
  "selector_caveat sel v =
     ObjJ [(ustr ''type'', StrJ SELECTOR_TYPE), (ustr ''kind'', StrJ (selector_text sel)), (ustr ''value'', StrJ v)]"

definition native_json :: "native_capability \<Rightarrow> json" where
  "native_json c =
     ObjJ ([(ustr ''service'', StrJ (nc_service c)), (ustr ''space'', StrJ (nc_space c)), (ustr ''path'', StrJ (nc_path c)),
            (ustr ''actions'', ArrJ (map StrJ (nc_actions c)))] @
           (case nc_caveat c of None \<Rightarrow> [] | Some (sel, v) \<Rightarrow> [(ustr ''caveat'', selector_caveat sel v)]))"

definition projectUnifiedPolicyCapability :: "json \<Rightarrow> (unified_error, native_capability) result" where
  "projectUnifiedPolicyCapability input =
     bindR (normalizeUnifiedPolicyCapability input) (\<lambda>capability.
       case capability of
         EncryptionCapability resource \<Rightarrow>
           Inr \<lparr>nc_service = ustr ''tinycloud.encryption'', nc_space = resource, nc_path = resource, nc_actions = [DECRYPT],
                nc_caveat = None\<rparr>
       | KvCapability resource sel actions \<Rightarrow>
           bindR (parseKvResource resource) (\<lambda>(space, path).
             Inr \<lparr>nc_service = ustr ''tinycloud.kv'', nc_space = space, nc_path = path, nc_actions = actions,
                  nc_caveat = Some (sel, resource)\<rparr>))"

text \<open>The comparison function encodes both of its arguments, so from two elements on every
  element is encoded, and one that cannot be makes the sort throw.\<close>

definition projectUnifiedPolicyCapabilities :: "json list \<Rightarrow> (unified_error, native_capability list) result" where
  "projectUnifiedPolicyCapabilities input =
     bindR (mapR projectUnifiedPolicyCapability input) (\<lambda>projected.
       if length projected < 2 then Inr projected
       else bindR (mapR (\<lambda>c. jcs (native_json c)) projected) (\<lambda>texts.
         Inr (map snd (sort_by (\<lambda>left right. compareUtf16CodeUnits (fst left) (fst right)) (zip texts projected)))))"

definition unifiedPolicyCapabilityFromNative :: "json \<Rightarrow> (unified_error, unified_capability) result" where
  "unifiedPolicyCapabilityFromNative input =
     bindR (object (Some input) ''native capability'') (\<lambda>v.
     bindR (exactKeys v [''service'', ''space'', ''path'', ''actions'', ''caveat''] ''native capability'') (\<lambda>_.
     bindR (nonEmptyString (own v ''service'') ''native.service'') (\<lambda>service.
     case own v ''actions'' of
       Some (ArrJ actions) \<Rightarrow>
         if service = ustr ''tinycloud.encryption'' \<and> own v ''caveat'' = None \<and> strict_eq (own v ''space'') (own v ''path'') \<and>
            actions = [StrJ DECRYPT]
         then (case own v ''space'' of
                 Some space \<Rightarrow> normalizeUnifiedPolicyCapability
                   (ObjJ [(ustr ''kind'', StrJ (ustr ''encryption'')), (ustr ''resource'', space), (ustr ''action'', StrJ DECRYPT)])
               | None \<Rightarrow> normalizeUnifiedPolicyCapability
                   (ObjJ [(ustr ''kind'', StrJ (ustr ''encryption'')), (ustr ''action'', StrJ DECRYPT)]))
         else if service \<noteq> ustr ''tinycloud.kv'' then Inl (Thrown ''native capability is not supported'')
         else (case (own v ''space'', own v ''path'') of
                 (Some (StrJ space), Some (StrJ path)) \<Rightarrow>
                   bindR (object (own v ''caveat'') ''native.caveat'') (\<lambda>caveat.
                   bindR (exactKeys caveat [''type'', ''kind'', ''value''] ''native selector caveat'') (\<lambda>_.
                   let resource = (if startsWith space TINYCLOUD_SCHEME then space else TINYCLOUD_URL @ space) @ KV_MARKER @ path
                   in case selector_of (own caveat ''kind'') of
                        Some sel \<Rightarrow>
                          if own caveat ''type'' \<noteq> Some (StrJ SELECTOR_TYPE) \<or> own caveat ''value'' \<noteq> Some (StrJ resource)
                          then Inl (Thrown ''native selector caveat does not match capability'')
                          else normalizeUnifiedPolicyCapability
                            (ObjJ [(ustr ''kind'', StrJ (ustr ''kv'')), (ustr ''resource'', StrJ resource),
                                   (ustr ''selector'', StrJ (selector_text sel)), (ustr ''actions'', ArrJ actions)])
                      | None \<Rightarrow> Inl (Thrown ''native selector caveat does not match capability'')))
               | _ \<Rightarrow> Inl (Thrown ''native capability is not supported''))
     | _ \<Rightarrow> Inl (Thrown ''native.actions is invalid''))))"

section \<open>Digests and identifiers\<close>

definition hex :: "bytes \<Rightarrow> ustring" where
  "hex bytes = concat (map (\<lambda>b. [hex_digit (unat b div 16), hex_digit (unat b mod 16)]) bytes)"

definition domain_digest :: "(bytes \<Rightarrow> bytes) \<Rightarrow> ustring \<Rightarrow> ustring \<Rightarrow> bytes" where
  "domain_digest sha256 domain text = sha256 (textEncode (domain @ text))"

definition POLICY_V1_DOMAIN :: ustring where "POLICY_V1_DOMAIN = ustr ''xyz.tinycloud.policy/policy/v1'' @ [0]"
definition POLICY_CAPABILITY_V1_DOMAIN :: ustring where
  "POLICY_CAPABILITY_V1_DOMAIN = ustr ''xyz.tinycloud.policy/PolicyCapability/v1'' @ [0]"
definition CONTENT_SOURCE_V1_DOMAIN :: ustring where
  "CONTENT_SOURCE_V1_DOMAIN = ustr ''xyz.tinycloud.policy/ContentSource/v1'' @ [0]"
definition NATIVE_PROJECTION_V1_DOMAIN :: ustring where
  "NATIVE_PROJECTION_V1_DOMAIN = ustr ''xyz.tinycloud.policy/NativeProjection/v1'' @ [0]"

definition unifiedPolicyCapabilityDigestHex :: "(bytes \<Rightarrow> bytes) \<Rightarrow> json \<Rightarrow> (unified_error, ustring) result" where
  "unifiedPolicyCapabilityDigestHex sha256 input =
     bindR (normalizeUnifiedPolicyCapability input) (\<lambda>capability.
     bindR (jcs (cap_json capability)) (\<lambda>text. Inr (hex (domain_digest sha256 POLICY_CAPABILITY_V1_DOMAIN text))))"

definition unifiedNativeProjectionHashHex :: "(bytes \<Rightarrow> bytes) \<Rightarrow> json list \<Rightarrow> (unified_error, ustring) result" where
  "unifiedNativeProjectionHashHex sha256 input =
     bindR (projectUnifiedPolicyCapabilities input) (\<lambda>projected.
     bindR (jcs (ArrJ (map native_json projected))) (\<lambda>text.
       Inr (hex (domain_digest sha256 NATIVE_PROJECTION_V1_DOMAIN text))))"

definition contentSourceDigestHex :: "(bytes \<Rightarrow> bytes) \<Rightarrow> json \<Rightarrow> (unified_error, ustring) result" where
  "contentSourceDigestHex sha256 input =
     bindR (jcs input) (\<lambda>text. Inr (hex (domain_digest sha256 CONTENT_SOURCE_V1_DOMAIN text)))"

definition policyDigestHex :: "(bytes \<Rightarrow> bytes) \<Rightarrow> json_object \<Rightarrow> (unified_error, ustring) result" where
  "policyDigestHex sha256 policy =
     (case own policy ''capabilityCeiling'' of
        Some (ArrJ raws) \<Rightarrow>
          bindR (mapR normalizeUnifiedPolicyCapability raws) (\<lambda>capabilities.
          bindR (jcs (ObjJ (AList.update (ustr ''capabilityCeiling'') (ArrJ (map cap_json capabilities)) policy))) (\<lambda>text.
            Inr (hex (domain_digest sha256 POLICY_V1_DOMAIN text))))
      | _ \<Rightarrow> Inl TypeErrorThrown)"

text \<open>The matches of \<^verbatim>\<open>/.{2}/g\<close>, where the dot is any code unit that ends no line, and
  \<open>Number.parseInt(byte, 16)\<close> as an element of a \<open>Uint8Array\<close>: leading white space, a sign and
  \<open>0x\<close> are skipped, digits are read as far as they go, and no digits give NaN, stored as 0.\<close>

definition line_end :: "16 word \<Rightarrow> bool" where
  "line_end u \<longleftrightarrow> u \<in> {0x0A, 0x0D, 0x2028, 0x2029}"

fun unit_pairs :: "ustring \<Rightarrow> (16 word \<times> 16 word) list" where
  "unit_pairs (a # b # r) =
     (if line_end a then unit_pairs (b # r) else if line_end b then unit_pairs r else (a, b) # unit_pairs r)"
| "unit_pairs _ = []"

definition js_space :: "16 word \<Rightarrow> bool" where
  "js_space u \<longleftrightarrow> u \<in> {0x09, 0x0A, 0x0B, 0x0C, 0x0D, 0x20, 0xA0, 0x1680, 0x2028, 0x2029, 0x202F, 0x205F, 0x3000, 0xFEFF} \<or>
     (0x2000 \<le> u \<and> u \<le> 0x200A)"

definition hex_nat :: "16 word \<Rightarrow> nat" where "hex_nat u = unat (hex_unit_value u)"

fun parse_hex_pair :: "16 word \<times> 16 word \<Rightarrow> 8 word" where
  "parse_hex_pair (a, b) =
     (if hex_unit a then of_nat (if hex_unit b then 16 * hex_nat a + hex_nat b else hex_nat a)
      else if \<not> hex_unit b then 0
      else if js_space a \<or> a = 0x2B then of_nat (hex_nat b)
      else if a = 0x2D then - of_nat (hex_nat b) else 0)"

text \<open>The right shift of this file's base-32 loop is the unsigned one.\<close>

fun base32Lower_drain :: "32 word \<Rightarrow> nat \<Rightarrow> ustring \<Rightarrow> nat \<times> ustring" where
  "base32Lower_drain buffer bits out =
     (if 5 \<le> bits
      then base32Lower_drain buffer (bits - 5) (out @ [BASE32_ALPHABET ! unat (drop_bit (bits - 5) buffer AND 31)])
      else (bits, out))"

declare base32Lower_drain.simps [simp del]

fun base32Lower_loop :: "bytes \<Rightarrow> 32 word \<Rightarrow> nat \<Rightarrow> ustring \<Rightarrow> ustring" where
  "base32Lower_loop [] buffer bits out =
     (if 0 < bits then out @ [BASE32_ALPHABET ! unat (push_bit (5 - bits) buffer AND 31)] else out)"
| "base32Lower_loop (byte # bytes) buffer bits out =
     (let buffer' = push_bit 8 buffer OR ucast byte
      in case base32Lower_drain buffer' (bits + 8) out of
           (bits', out') \<Rightarrow> base32Lower_loop bytes buffer' bits' out')"

definition base32Lower :: "bytes \<Rightarrow> ustring" where
  "base32Lower bytes = base32Lower_loop bytes 0 0 []"

definition policyIdForDigestHex :: "ustring \<Rightarrow> (unified_error, ustring) result" where
  "policyIdForDigestHex digestHex =
     (let digest = map parse_hex_pair (unit_pairs digestHex)
      in if length digest \<noteq> 32 then Inl (Thrown ''policy digest must be 32 bytes'')
         else Inr (ustr ''pol_'' @ base32Lower digest))"

definition policyCidFromCanonicalBytes :: "(nat \<Rightarrow> nat \<Rightarrow> bytes \<Rightarrow> ustring) \<Rightarrow> (bytes \<Rightarrow> bytes) \<Rightarrow> bytes \<Rightarrow> ustring" where
  "policyCidFromCanonicalBytes cidV1 sha256 bytes = cidV1 0x55 0x12 (sha256 bytes)"

section \<open>The attenuation of a session\<close>

type_synonym attenuation = "(ustring \<times> (ustring \<times> json list) list) list"

fun cap_attenuation :: "unified_capability \<Rightarrow> (ustring \<times> json list) list" where
  "cap_attenuation (EncryptionCapability resource) = [(DECRYPT, [ObjJ []])]"
| "cap_attenuation (KvCapability resource sel actions) = map (\<lambda>action. (action, [selector_caveat sel resource])) actions"

fun compact_attenuation :: "attenuation \<Rightarrow> json list \<Rightarrow> (unified_error, attenuation) result" where
  "compact_attenuation attenuation [] = Inr attenuation"
| "compact_attenuation attenuation (raw # input) =
     bindR (normalizeUnifiedPolicyCapability raw) (\<lambda>capability.
       if map_of attenuation (cap_resource capability) \<noteq> None
       then Inl (Thrown ''policy capabilities contain a duplicate resource'')
       else compact_attenuation (attenuation @ [(cap_resource capability, cap_attenuation capability)]) input)"

definition compactAttenuationForPolicyCapabilities :: "json list \<Rightarrow> (unified_error, attenuation) result" where
  "compactAttenuationForPolicyCapabilities input = compact_attenuation [] input"


section \<open>Normal forms\<close>

lemma index_of_Some: "index_of p s = Some i \<Longrightarrow> s = take i s @ p @ drop (i + length p) s"
proof (induction p s arbitrary: i rule: index_of.induct)
  case (1 p s)
  show ?case
  proof (cases "startsWith s p")
    case True
    with 1(2) show ?thesis by (auto simp: index_of.simps [of p s] prefix_def)
  next
    case False
    with 1(2) obtain u r j where s: "s = u # r" "index_of p r = Some j" "i = Suc j"
      by (auto simp: index_of.simps [of p s] split: list.split_asm)
    from 1(1) [OF False s(1,2)] show ?thesis unfolding s by simp
  qed
qed

lemma parseKvResource_text:
  assumes "parseKvResource resource = Inr (space, path)"
  shows "resource = (if startsWith space TINYCLOUD_SCHEME then space else TINYCLOUD_URL @ space) @ KV_MARKER @ path"
proof -
  from assms obtain i where i: "index_of KV_MARKER resource = Some i"
    by (auto simp: parseKvResource_def Let_def split: option.split_asm)
  define e where "e = take i resource"
  from assms i have p: "path = drop (i + 4) resource"
    and s: "space = (if startsWith e TINYCLOUD_URL then drop (length TINYCLOUD_URL) e else e)"
    and c: "if startsWith e TINYCLOUD_URL then \<not> list_ex (\<lambda>u. u = 0x3A \<or> url_unit u) space else startsWith e TINYCLOUD_SCHEME"
    by (auto simp: parseKvResource_def Let_def e_def split: if_split_asm)
  have "length KV_MARKER = 4" by (simp add: KV_MARKER_def ustr_def)
  with index_of_Some [OF i] have r: "resource = e @ KV_MARKER @ path" by (simp add: p e_def)
  have colon: "0x3A \<in> set space" if "startsWith space TINYCLOUD_SCHEME"
    using that by (auto simp: prefix_def TINYCLOUD_SCHEME_def ustr_def unit_of_def)
  show ?thesis
  proof (cases "startsWith e TINYCLOUD_URL")
    case True
    with s have "e = TINYCLOUD_URL @ space" using startsWith_drop by fastforce
    moreover have "\<not> startsWith space TINYCLOUD_SCHEME" using colon c True by (auto simp: list_ex_iff)
    ultimately show ?thesis using r by simp
  next
    case False
    with s c r show ?thesis by simp
  qed
qed

fun cap_ok :: "unified_capability \<Rightarrow> bool" where
  "cap_ok (KvCapability resource sel actions) \<longleftrightarrow>
     resource \<noteq> [] \<and> is_ok (parseKvResource resource) \<and>
     actions \<noteq> [] \<and> distinct actions \<and> sorted actions \<and> set actions \<subseteq> set KV_ACTIONS"
| "cap_ok (EncryptionCapability resource) \<longleftrightarrow> resource \<noteq> [] \<and> is_ok (parseEncryptionResource_unified resource)"

lemma nonEmptyString_iff [result_iff]: "nonEmptyString v label = Inr s \<longleftrightarrow> v = Some (StrJ s) \<and> s \<noteq> []"
  by (auto simp: nonEmptyString_def split: option.split json.split)

lemma object_iff [result_iff]: "object v label = Inr fs \<longleftrightarrow> v = Some (ObjJ fs)"
  by (auto simp: object_def split: option.split json.split)

lemma exactKeys_iff [result_iff]: "exactKeys fs allowed label = Inr u \<longleftrightarrow> fst ` set fs \<subseteq> ustr ` set allowed"
  by (auto simp: exactKeys_def throw_if_Inr_iff list_ex_iff)

lemma jcs_iff [result_iff]: "jcs v = Inr t \<longleftrightarrow> json_ok v \<and> t = serialize v"
  using jcs_of_raw(1,2) [of v t] jcs_of_normalised [of v] by (auto simp: jcs_def split: sum.split_asm)

lemma strings_of: "mapR (\<lambda>a. nonEmptyString (Some a) label) xs = Inr ys \<longleftrightarrow> xs = map StrJ ys \<and> [] \<notin> set ys"
proof -
  have "mapR (\<lambda>a. nonEmptyString (Some a) label) xs = Inr ys \<longleftrightarrow> list_all2 (\<lambda>x y. x = StrJ y \<and> y \<noteq> []) xs ys"
    by (simp add: mapR_Inr_iff nonEmptyString_iff)
  also have "\<dots> \<longleftrightarrow> xs = map StrJ ys \<and> [] \<notin> set ys"
    by (induction xs arbitrary: ys; case_tac ys) auto
  finally show ?thesis .
qed

lemma selector_of_text [simp]: "selector_of (Some (StrJ (selector_text sel))) = Some sel"
  by (cases sel) (simp_all add: selector_of_def ustr_inject)

lemma normalize_kv_ok: "normalize_kv v = Inr c \<Longrightarrow> cap_ok c"
proof -
  assume n: "normalize_kv v = Inr c"
  then obtain resource sp sel raws where r: "resource \<noteq> []" "parseKvResource resource = Inr sp" and ne: "raws \<noteq> []"
    and b: "bindR (mapR (\<lambda>action. nonEmptyString (Some action) ''capability.actions[]'') raws) (\<lambda>actions.
                if \<not> distinct actions \<or> list_ex (\<lambda>action. action \<notin> set KV_ACTIONS) actions
                then Inl (Thrown ''capability.actions is invalid'')
                else Inr (KvCapability resource sel (sort_units actions))) = Inr c"
    unfolding normalize_kv_def
    by (auto simp: nonEmptyString_iff elim!: bindR_InrE split: option.split_asm json.split_asm if_split_asm simp del: bindR.simps)
  from b obtain actions where m: "raws = map StrJ actions" and d: "distinct actions" "\<not> list_ex (\<lambda>action. action \<notin> set KV_ACTIONS) actions"
    and c: "c = KvCapability resource sel (sort_units actions)"
    by (elim bindR_InrE) (auto simp: strings_of split: if_split_asm)
  have "sort actions \<noteq> []" using ne m by (metis list.map_disc_iff set_empty2 set_sort)
  with r d c show ?thesis by (auto simp: is_ok_iff sort_units_eq list_ex_iff)
qed

lemma normalize_encryption_ok: "normalize_encryption v = Inr c \<Longrightarrow> cap_ok c"
  unfolding normalize_encryption_def
  by (auto simp: is_ok_iff nonEmptyString_iff elim!: bindR_InrE split: if_split_asm)

lemma normalized_ok: "normalizeUnifiedPolicyCapability input = Inr c \<Longrightarrow> cap_ok c"
  unfolding normalizeUnifiedPolicyCapability_def
  by (auto elim!: bindR_InrE split: if_split_asm intro: normalize_kv_ok normalize_encryption_ok)

lemma kv_actions_nonempty: "[] \<notin> set KV_ACTIONS"
  by (simp add: KV_ACTIONS_def ustr_def)

lemma nonEmptyString_text [simp]: "s \<noteq> [] \<Longrightarrow> nonEmptyString (Some (StrJ s)) label = Inr s"
  by (simp add: nonEmptyString_def)

lemma ustr_Nil [simp]: "ustr s = [] \<longleftrightarrow> s = []"
  by (simp add: ustr_def)

lemma member_own: "own ((k, v) # fs) key = (if k = ustr key then Some v else own fs key)" "own [] key = None"
  by (simp_all add: own_def)

lemma normalize_cap_json: "cap_ok c \<Longrightarrow> normalizeUnifiedPolicyCapability (cap_json c) = Inr c"
proof (cases c)
  case (KvCapability resource sel actions)
  assume ok: "cap_ok c"
  then obtain a as where as: "actions = a # as" by (cases actions) (auto simp: KvCapability)
  have n: "[] \<notin> set actions" using ok kv_actions_nonempty KvCapability by auto
  have "mapR (\<lambda>a. nonEmptyString (Some a) ''capability.actions[]'') (map StrJ actions) = Inr actions"
    using n by (simp only: strings_of simp_thms)
  moreover obtain sp where "parseKvResource resource = Inr sp" using ok KvCapability by (auto simp: is_ok_iff)
  moreover have "sort (a # as) = a # as"
    by (rule sorted_sort_id) (use ok KvCapability as in simp)
  ultimately show ?thesis
    using ok KvCapability as
    by (simp add: normalizeUnifiedPolicyCapability_def normalize_kv_def object_def member_own exactKeys_def ustr_inject
        list_ex_iff sort_units_eq subset_iff del: mapR.simps sort_key_simps)
next
  case (EncryptionCapability resource)
  assume ok: "cap_ok c"
  then show ?thesis
    using EncryptionCapability
    by (auto simp: normalizeUnifiedPolicyCapability_def normalize_encryption_def object_def member_own exactKeys_def ustr_inject is_ok_iff)
qed


text \<open>C40: The type of what normalizeUnifiedPolicyCapability returns: its results are exactly the well-formed
  capabilities, an encryption resource that parses, or a canonical key-value resource with a
  non-empty list of known actions, sorted and without duplicates.\<close>

theorem unified_normal_form:
  "(\<exists>input. normalizeUnifiedPolicyCapability input = Inr c) \<longleftrightarrow> cap_ok c"
  using normalized_ok normalize_cap_json by blast


section \<open>Containment is inclusion\<close>

text \<open>What a capability allows: an action on a resource; a prefix reaches the resource and all
  below it.\<close>

definition subtree :: "ustring \<Rightarrow> ustring set" where
  "subtree r = {p. p = r \<or> startsWith p (r @ ustr ''/'')}"

fun cap_accesses :: "unified_capability \<Rightarrow> (ustring \<times> ustring) set" where
  "cap_accesses (KvCapability resource Exact actions) = {resource} \<times> set actions"
| "cap_accesses (KvCapability resource PrefixOf actions) = subtree resource \<times> set actions"
| "cap_accesses (EncryptionCapability resource) = {(resource, DECRYPT)}"

lemma subtree_self [simp]: "r \<in> subtree r"
  by (simp add: subtree_def)

lemma subtree_below [simp]: "r @ ustr ''/'' @ x \<in> subtree r"
  by (simp add: subtree_def)

lemma subtree_mono: "p \<in> subtree r \<Longrightarrow> subtree p \<subseteq> subtree r"
  by (auto simp: subtree_def prefix_def)

lemma decrypt_not_kv: "DECRYPT \<notin> set KV_ACTIONS"
  by (simp add: KV_ACTIONS_def DECRYPT_def ustr_inject)

lemma cap_contains_accesses: "cap_ok a \<Longrightarrow> cap_ok b \<Longrightarrow> cap_contains a b \<longleftrightarrow> cap_accesses b \<subseteq> cap_accesses a"
proof (induction a b rule: cap_contains.induct [case_names encryption kv kv_encryption encryption_kv])
  case (kv authorized sel granted requested sel' actions)
  then obtain action where act: "action \<in> set actions" by (cases actions) auto
  have below: "requested @ ustr ''/'' @ x \<noteq> requested" for x by (simp add: ustr_def)
  show ?case
  proof (cases sel)
    case Exact
    have "cap_accesses (KvCapability requested sel' actions) \<subseteq> {authorized} \<times> set granted \<longleftrightarrow>
        sel' = Exact \<and> requested = authorized \<and> set actions \<subseteq> set granted"
    proof (cases sel')
      case PrefixOf
      have "(requested, action) \<in> subtree requested \<times> set actions" "(requested @ ustr ''/'' @ [], action) \<in> subtree requested \<times> set actions"
        using act by (simp_all del: append_Nil2)
      then have "\<not> subtree requested \<times> set actions \<subseteq> {authorized} \<times> set granted"
        using below [of "[]"] by blast
      then show ?thesis by (simp add: PrefixOf)
    qed (use act in auto)
    then show ?thesis using Exact by (cases sel') (auto simp: list_all_iff)
  next
    case PrefixOf
    have "cap_accesses (KvCapability requested sel' actions) \<subseteq> subtree authorized \<times> set granted \<longleftrightarrow>
        requested \<in> subtree authorized \<and> set actions \<subseteq> set granted"
    proof (cases sel')
      case PrefixOf
      have "subtree requested \<times> set actions \<subseteq> subtree authorized \<times> set granted \<longleftrightarrow>
          subtree requested \<subseteq> subtree authorized \<and> set actions \<subseteq> set granted"
        using act subtree_self [of requested] by blast
      then show ?thesis
        using PrefixOf subtree_mono [of requested authorized] subtree_self [of requested] by auto
    qed (use act in auto)
    then show ?thesis using PrefixOf by (auto simp: list_all_iff subtree_def)
  qed
next
  case (kv_encryption authorized sel granted requested)
  then have "DECRYPT \<notin> set granted" using decrypt_not_kv by auto
  then show ?case by (cases sel) auto
next
  case (encryption_kv authorized requested sel actions)
  then obtain action where "action \<in> set actions" "action \<noteq> DECRYPT" using decrypt_not_kv by (cases actions) auto
  then have "(requested, action) \<in> cap_accesses (KvCapability requested sel actions)" by (cases sel) simp_all
  with \<open>action \<noteq> DECRYPT\<close> have "\<not> cap_accesses (KvCapability requested sel actions) \<subseteq> {(authorized, DECRYPT)}" by blast
  then show ?case by simp
qed auto

text \<open>C17: unifiedPolicyCapabilityContains answers yes exactly when both inputs are well-formed
  capabilities and every access (resource and action) the requested one allows is allowed by the
  authority; a malformed input on either side is a no.\<close>

theorem unified_contains_accesses:
  "unifiedPolicyCapabilityContains authority requested \<longleftrightarrow>
   (\<exists>a r. normalizeUnifiedPolicyCapability authority = Inr a \<and> normalizeUnifiedPolicyCapability requested = Inr r \<and>
      cap_accesses r \<subseteq> cap_accesses a)"
  by (auto simp: unifiedPolicyCapabilityContains_def cap_contains_accesses normalized_ok split: sum.split elim!: bindR_InrE)

interpretation unified: containment unifiedPolicyCapabilityContains "\<lambda>c. is_ok (normalizeUnifiedPolicyCapability c)"
  by unfold_locales (fastforce simp: unified_contains_accesses is_ok_iff)+

section \<open>Projection\<close>

lemma ustr_lookup: "own ((ustr k, v) # fs) key = (if k = key then Some v else own fs key)"
  by (simp add: member_own ustr_inject)

lemma own_Nil [simp]: "own [] key = None"
  by (simp add: own_def)

text \<open>C21: The projection of a policy capability to what a node enforces loses nothing:
  unifiedPolicyCapabilityFromNative reads it back to the normal form of the capability, so
  different capabilities have different projections.\<close>

theorem native_projection_roundtrip:
  assumes "projectUnifiedPolicyCapability input = Inr native"
  shows "unifiedPolicyCapabilityFromNative (native_json native) = normalizeUnifiedPolicyCapability input"
proof -
  from assms obtain c where c: "normalizeUnifiedPolicyCapability input = Inr c"
    by (auto simp: projectUnifiedPolicyCapability_def elim!: bindR_InrE)
  have n: "normalizeUnifiedPolicyCapability (cap_json c) = Inr c"
    by (rule normalize_cap_json [OF normalized_ok [OF c]])
  show ?thesis
  proof (cases c)
    case (EncryptionCapability resource)
    with assms c have "native = \<lparr>nc_service = ustr ''tinycloud.encryption'', nc_space = resource, nc_path = resource,
        nc_actions = [DECRYPT], nc_caveat = None\<rparr>"
      by (simp add: projectUnifiedPolicyCapability_def)
    with n c EncryptionCapability show ?thesis
      by (simp add: unifiedPolicyCapabilityFromNative_def native_json_def object_def exactKeys_def ustr_lookup ustr_inject)
  next
    case (KvCapability resource sel actions)
    with assms c obtain space path where k: "parseKvResource resource = Inr (space, path)"
      and native: "native = \<lparr>nc_service = ustr ''tinycloud.kv'', nc_space = space, nc_path = path,
        nc_actions = actions, nc_caveat = Some (sel, resource)\<rparr>"
      by (auto simp: projectUnifiedPolicyCapability_def elim!: bindR_InrE)
    from parseKvResource_text [OF k]
    have "(if startsWith space TINYCLOUD_SCHEME then space else TINYCLOUD_URL @ space) @ KV_MARKER @ path = resource" by simp
    with n c KvCapability show ?thesis
      by (simp add: unifiedPolicyCapabilityFromNative_def native native_json_def selector_caveat_def object_def exactKeys_def
          ustr_lookup ustr_inject Let_def)
  qed
qed


lemma canon_strings: "map (canon_of \<circ> StrJ) as = map (canon_of \<circ> StrJ) bs \<longleftrightarrow> as = bs"
  by (rule inj_map_eq_map) (simp add: inj_def)

lemma native_json_member:
  "map_of (case native_json c of ObjJ fs \<Rightarrow> fs | _ \<Rightarrow> []) (ustr k) =
     (if k = ''service'' then Some (StrJ (nc_service c)) else if k = ''space'' then Some (StrJ (nc_space c))
      else if k = ''path'' then Some (StrJ (nc_path c)) else if k = ''actions'' then Some (ArrJ (map StrJ (nc_actions c)))
      else if k = ''caveat'' then map_option (\<lambda>(sel, v). selector_caveat sel v) (nc_caveat c) else None)"
  by (auto simp: native_json_def ustr_inject split: option.split)

lemma selector_caveat_inject: "canon_of (selector_caveat s v) = canon_of (selector_caveat t w) \<longleftrightarrow> s = t \<and> v = w"
proof
  assume "canon_of (selector_caveat s v) = canon_of (selector_caveat t w)"
  then have k: "map_option canon_of (own [(ustr ''type'', StrJ SELECTOR_TYPE), (ustr ''kind'', StrJ (selector_text s)), (ustr ''value'', StrJ v)] k) =
      map_option canon_of (own [(ustr ''type'', StrJ SELECTOR_TYPE), (ustr ''kind'', StrJ (selector_text t)), (ustr ''value'', StrJ w)] k)" for k
    unfolding selector_caveat_def canon_object_iff own_def by blast
  from k [of "''kind''"] k [of "''value''"] show "s = t \<and> v = w"
    by (cases s; cases t) (simp_all add: ustr_lookup ustr_inject)
qed simp

lemma native_json_inject: "canon_of (native_json c) = canon_of (native_json d) \<longleftrightarrow> c = d"
proof
  assume e: "canon_of (native_json c) = canon_of (native_json d)"
  have "\<exists>fs gs. native_json c = ObjJ fs \<and> native_json d = ObjJ gs" by (simp add: native_json_def)
  then obtain fs gs where j: "native_json c = ObjJ fs" "native_json d = ObjJ gs" by blast
  from e have k: "map_option canon_of (map_of fs k) = map_option canon_of (map_of gs k)" for k
    unfolding j canon_object_iff by blast
  note look = native_json_member [of c] native_json_member [of d]
  from k [of "ustr ''service''"] k [of "ustr ''space''"] k [of "ustr ''path''"] k [of "ustr ''actions''"] k [of "ustr ''caveat''"]
  have f: "nc_service c = nc_service d" "nc_space c = nc_space d" "nc_path c = nc_path d" "nc_actions c = nc_actions d"
    "map_option canon_of (map_option (\<lambda>(sel, v). selector_caveat sel v) (nc_caveat c)) =
     map_option canon_of (map_option (\<lambda>(sel, v). selector_caveat sel v) (nc_caveat d))"
    using look [unfolded j] by (simp_all add: canon_strings del: option.map_comp)
  then have "nc_caveat c = nc_caveat d"
    by (cases "nc_caveat c"; cases "nc_caveat d") (auto simp: selector_caveat_inject)
  with f show "c = d" by simp
qed simp

lemma insort_key_map: "insort_key f (g x) (map g xs) = map g (insort_key (\<lambda>y. f (g y)) x xs)"
  by (induction xs) auto

lemma sort_key_map: "sort_key f (map g xs) = map g (sort_key (\<lambda>y. f (g y)) xs)"
  by (induction xs) (simp_all add: insort_key_map)

lemma projected_sort:
  assumes "projectUnifiedPolicyCapabilities input = Inr ns"
  obtains ps where "mapR projectUnifiedPolicyCapability input = Inr ps" "mset ns = mset ps"
    "ns = (if length ps < 2 then ps else sort_key (\<lambda>c. serialize (native_json c)) ps)"
    "2 \<le> length ps \<Longrightarrow> inj_on (\<lambda>c. serialize (native_json c)) (set ps)"
proof -
  let ?t = "\<lambda>c. serialize (native_json c)"
  from assms obtain ps where ps: "mapR projectUnifiedPolicyCapability input = Inr ps"
    and r: "(if length ps < 2 then Inr ps
       else bindR (mapR (\<lambda>c. jcs (native_json c)) ps) (\<lambda>texts.
         Inr (map snd (sort_by (\<lambda>left right. compareUtf16CodeUnits (fst left) (fst right)) (zip texts ps))))) = Inr ns"
    unfolding projectUnifiedPolicyCapabilities_def by (elim bindR_InrE)
  show thesis
  proof (cases "length ps < 2")
    case True
    with r show ?thesis by (intro that [OF ps]) auto
  next
    case False
    with r obtain texts where t: "mapR (\<lambda>c. jcs (native_json c)) ps = Inr texts"
      and ns: "ns = map snd (sort_by (\<lambda>left right. compareUtf16CodeUnits (fst left) (fst right)) (zip texts ps))"
      by (auto elim: bindR_InrE)
    from t have "list_all2 (\<lambda>c x. json_ok (native_json c) \<and> x = ?t c) ps texts"
      by (simp add: mapR_Inr_iff jcs_iff)
    then have texts: "texts = map ?t ps" and ok: "\<forall>c \<in> set ps. json_ok (native_json c)"
      by (induction rule: list_all2_induct) auto
    have "sort_key fst (map (\<lambda>c. (?t c, c)) ps) = map (\<lambda>c. (?t c, c)) (sort_key ?t ps)"
      by (simp only: sort_key_map fst_conv)
    moreover have "zip texts ps = map (\<lambda>c. (?t c, c)) ps"
      unfolding texts by (simp add: zip_map1 zip_same_conv_map)
    ultimately have "ns = sort_key ?t ps"
      unfolding ns by (subst sort_by_key [where f = fst]) (simp_all add: compareUtf16_le comp_def)
    moreover have "inj_on ?t (set ps)"
      using ok by (auto intro!: inj_onI simp: serialize_inject json_ok_finite native_json_inject)
    ultimately show ?thesis using False by (intro that [OF ps]) auto
  qed
qed


text \<open>The native projection of a ceiling, which roots are signed over by its hash, depends only on
  the capabilities of the ceiling, not on their order: two ceilings that can be projected have the
  same projection exactly when their normal forms are the same up to order.\<close>

theorem native_projection_unordered:
  assumes "projectUnifiedPolicyCapabilities xs = Inr ns" and "projectUnifiedPolicyCapabilities ys = Inr ms"
  shows "ns = ms \<longleftrightarrow> mset (map normalizeUnifiedPolicyCapability xs) = mset (map normalizeUnifiedPolicyCapability ys)"
proof -
  let ?t = "\<lambda>c. serialize (native_json c)"
  let ?from = "\<lambda>c. unifiedPolicyCapabilityFromNative (native_json c)"
  obtain ps where ps: "mapR projectUnifiedPolicyCapability xs = Inr ps" "mset ns = mset ps"
    "ns = (if length ps < 2 then ps else sort_key ?t ps)" "2 \<le> length ps \<Longrightarrow> inj_on ?t (set ps)"
    by (rule projected_sort [OF assms(1)]) (rule that)
  obtain qs where qs: "mapR projectUnifiedPolicyCapability ys = Inr qs" "mset ms = mset qs"
    "ms = (if length qs < 2 then qs else sort_key ?t qs)"
    by (rule projected_sort [OF assms(2)]) (rule that)
  have from_of: "map normalizeUnifiedPolicyCapability zs = map ?from rs"
    if "mapR projectUnifiedPolicyCapability zs = Inr rs" for zs rs
  proof -
    from that have "list_all2 (\<lambda>x y. projectUnifiedPolicyCapability x = Inr y) zs rs" by (simp add: mapR_Inr_iff)
    then show ?thesis by (induction rule: list_all2_induct) (simp_all add: native_projection_roundtrip)
  qed
  define h where "h n = projr (case n of Inr c \<Rightarrow> projectUnifiedPolicyCapability (cap_json c) | Inl e \<Rightarrow> Inl e)"
    for n :: "(unified_error, unified_capability) result"
  have of_from: "rs = map h (map normalizeUnifiedPolicyCapability zs)"
    if "mapR projectUnifiedPolicyCapability zs = Inr rs" for zs rs
  proof -
    have "h (normalizeUnifiedPolicyCapability x) = y" if "projectUnifiedPolicyCapability x = Inr y" for x y
    proof -
      from that obtain c where c: "normalizeUnifiedPolicyCapability x = Inr c"
        by (auto simp: projectUnifiedPolicyCapability_def elim!: bindR_InrE)
      then have "normalizeUnifiedPolicyCapability (cap_json c) = Inr c" by (intro normalize_cap_json normalized_ok)
      with that c show ?thesis by (simp add: h_def projectUnifiedPolicyCapability_def)
    qed
    moreover from that have "list_all2 (\<lambda>x y. projectUnifiedPolicyCapability x = Inr y) zs rs" by (simp add: mapR_Inr_iff)
    then have "list_all2 (\<lambda>x y. h (normalizeUnifiedPolicyCapability x) = y) zs rs"
      by (rule list_all2_mono) (rule calculation)
    then show ?thesis by (induction rule: list_all2_induct) auto
  qed
  have "mset ps = mset qs \<longleftrightarrow> mset (map normalizeUnifiedPolicyCapability xs) = mset (map normalizeUnifiedPolicyCapability ys)"
    using from_of [OF ps(1)] from_of [OF qs(1)] of_from [OF ps(1)] of_from [OF qs(1)] by (metis mset_map)
  moreover have "ns = ms" if m: "mset ps = mset qs"
  proof (cases "length ps < 2")
    case True
    with m have "length qs < 2" "length ps = length qs" by (metis mset_eq_length)+
    with m have "ps = qs" by (cases ps; cases qs; cases "tl ps"; cases "tl qs") auto
    then show ?thesis using True by (simp add: ps(3) qs(3))
  next
    case False
    with m have "\<not> length qs < 2" by (metis mset_eq_length)
    moreover have "sort_key ?t ps = sort_key ?t qs"
      using m ps(4) False by (intro sort_key_inj_key_eq) simp_all
    ultimately show ?thesis using False by (simp add: ps(3) qs(3))
  qed
  ultimately show ?thesis using ps(2) qs(2) by metis
qed

section \<open>Policy identifiers\<close>

lemma base32Lower_drain_eq: "bits \<le> 32 \<Longrightarrow> base32Lower_drain buffer bits out = base32_drain buffer bits out"
proof (induction buffer bits out rule: base32_drain.induct)
  case (1 buffer bits out)
  show ?case
  proof (cases "5 \<le> bits")
    case True
    have "unat (drop_bit (bits - 5) buffer AND 31) = unat (signed_drop_bit (bits - 5) buffer AND 31)"
      using 1(2) True masked_shift [of 5 "bits - 5" buffer] unfolding mask_31
      by (simp add: group_value_low_bits take_bit_eq_mask)
    with 1 True show ?thesis
      by (simp add: base32Lower_drain.simps [of buffer bits] base32_drain.simps [of buffer bits])
  next
    case False
    then show ?thesis by (simp add: base32Lower_drain.simps [of buffer bits] base32_drain.simps [of buffer bits])
  qed
qed

lemma base32Lower_loop_eq: "bits < 5 \<Longrightarrow> base32Lower_loop bytes buffer bits out = base32_loop bytes buffer bits out"
proof (induction bytes arbitrary: buffer bits out)
  case (Cons byte bytes)
  let ?buffer = "push_bit 8 buffer OR ucast byte"
  obtain bits' out' where d: "base32_drain ?buffer (bits + 8) out = (bits', out')" by fastforce
  moreover from base32_drain_groups [OF d] Cons.prems have "bits' < 5" by simp
  ultimately show ?case
    using Cons base32Lower_drain_eq [of "bits + 8" ?buffer out] by (simp add: Let_def)
qed simp

lemma base32Lower_eq: "base32Lower bytes = base32LowerNoPad bytes"
  by (simp add: base32Lower_def base32LowerNoPad_def base32Lower_loop_eq)

lemma hex_digit_units: "n < 16 \<Longrightarrow> hex_unit (hex_digit n) \<and> hex_nat (hex_digit n) = n \<and> \<not> line_end (hex_digit n)"
proof -
  assume "n < 16"
  then have "n \<in> set [0..<16]" by simp
  moreover have "\<forall>n \<in> set [0..<16]. hex_unit (hex_digit n) \<and> hex_nat (hex_digit n) = n \<and> \<not> line_end (hex_digit n)"
    by code_simp
  ultimately show ?thesis by blast
qed

lemma unit_pairs_hex: "map parse_hex_pair (unit_pairs (hex bytes)) = bytes"
proof (induction bytes)
  case (Cons b bytes)
  have "unat b < 256" using unsigned_less [of b] by simp
  then have d: "unat b div 16 < 16" "unat b mod 16 < 16" by (simp_all add: less_mult_imp_div_less)
  have "unit_pairs (hex (b # bytes)) = (hex_digit (unat b div 16), hex_digit (unat b mod 16)) # unit_pairs (hex bytes)"
    using hex_digit_units [OF d(1)] hex_digit_units [OF d(2)] by (simp add: hex_def)
  moreover have "parse_hex_pair (hex_digit (unat b div 16), hex_digit (unat b mod 16)) = of_nat (16 * (unat b div 16) + unat b mod 16)"
    using hex_digit_units [OF d(1)] hex_digit_units [OF d(2)] by (simp del: of_nat_add of_nat_mult)
  moreover have "16 * (unat b div 16) + unat b mod 16 = unat b" by simp
  ultimately show ?case using Cons by (simp del: parse_hex_pair.simps of_nat_add of_nat_mult)
qed (simp add: hex_def)

text \<open>The identifier policyIdForDigestHex forms from the hexadecimal text of a digest is the
  prefix pol_ and the base-32 text signed-object.ts derives identifiers with, although the two
  files shift their buffers differently; a digest that is not 32 bytes long is refused.\<close>

theorem policy_id_matches_signed_objects:
  "policyIdForDigestHex (hex digest) =
   (if length digest = 32 then Inr (ustr ''pol_'' @ base32LowerNoPad digest) else Inl (Thrown ''policy digest must be 32 bytes''))"
  by (simp add: policyIdForDigestHex_def unit_pairs_hex base32Lower_eq)

section \<open>Samples\<close>

definition kv_sample :: "selector \<Rightarrow> string \<Rightarrow> string list \<Rightarrow> unified_capability" where
  "kv_sample sel path actions = KvCapability (ustr (''tinycloud:s/kv/'' @ path)) sel (map ustr actions)"

lemma kv_samples_ok:
  "cap_ok (kv_sample PrefixOf ''docs'' [''tinycloud.kv/get'', ''tinycloud.kv/put''])"
  "cap_ok (kv_sample Exact ''docs/a'' [''tinycloud.kv/get''])"
  by code_simp+

definition native_sample :: native_capability where
  "native_sample =
     \<lparr>nc_service = ustr ''tinycloud.kv'', nc_space = ustr ''tinycloud:s'', nc_path = ustr ''docs/a'',
      nc_actions = [ustr ''tinycloud.kv/get''], nc_caveat = Some (Exact, ustr ''tinycloud:s/kv/docs/a'')\<rparr>"

lemma kv_sample_projects:
  "projectUnifiedPolicyCapability (cap_json (kv_sample Exact ''docs/a'' [''tinycloud.kv/get''])) = Inr native_sample"
  by code_simp

text \<open>The same capability, its actions in another order.\<close>

definition kv_two :: "string list \<Rightarrow> json" where
  "kv_two actions = cap_json (kv_sample PrefixOf ''docs'' actions)"

lemma kv_two_projects:
  "projectUnifiedPolicyCapability (kv_two [''tinycloud.kv/put'', ''tinycloud.kv/get'']) =
     Inr (native_sample\<lparr>nc_path := ustr ''docs'', nc_actions := [ustr ''tinycloud.kv/get'', ustr ''tinycloud.kv/put''],
                       nc_caveat := Some (PrefixOf, ustr ''tinycloud:s/kv/docs'')\<rparr>)"
  "normalizeUnifiedPolicyCapability (kv_two [''tinycloud.kv/put'', ''tinycloud.kv/get'']) =
     normalizeUnifiedPolicyCapability (kv_two [''tinycloud.kv/get'', ''tinycloud.kv/put''])"
  by code_simp+

lemma kv_two_project:
  "projectUnifiedPolicyCapabilities [kv_two [''tinycloud.kv/put'', ''tinycloud.kv/get'']] =
     Inr [native_sample\<lparr>nc_path := ustr ''docs'', nc_actions := [ustr ''tinycloud.kv/get'', ustr ''tinycloud.kv/put''],
                       nc_caveat := Some (PrefixOf, ustr ''tinycloud:s/kv/docs'')\<rparr>]"
  by (simp add: projectUnifiedPolicyCapabilities_def kv_two_projects)

lemma kv_two_project':
  "\<exists>n. projectUnifiedPolicyCapabilities [kv_two [''tinycloud.kv/get'', ''tinycloud.kv/put'']] = Inr [n]"
  using kv_two_projects
  by (simp add: projectUnifiedPolicyCapabilities_def projectUnifiedPolicyCapability_def)

theorem native_projection_roundtrip_witness:
  "unifiedPolicyCapabilityFromNative (native_json native_sample) = Inr (kv_sample Exact ''docs/a'' [''tinycloud.kv/get''])"
  using native_projection_roundtrip [OF kv_sample_projects] normalize_cap_json [OF kv_samples_ok(2)] by simp

theorem native_projection_unordered_witness:
  "projectUnifiedPolicyCapabilities [kv_two [''tinycloud.kv/put'', ''tinycloud.kv/get'']] =
   projectUnifiedPolicyCapabilities [kv_two [''tinycloud.kv/get'', ''tinycloud.kv/put'']]"
proof -
  obtain n where n: "projectUnifiedPolicyCapabilities [kv_two [''tinycloud.kv/get'', ''tinycloud.kv/put'']] = Inr [n]"
    using kv_two_project' by blast
  from native_projection_unordered [OF kv_two_project n] show ?thesis
    by (simp only: kv_two_projects(2) list.map simp_thms n kv_two_project)
qed

end
