(* ===== verification/TextDecode.thy ===== *)
theory TextDecode
  imports Utf8
begin

text \<open>
  \<open>new TextDecoder("utf-8", { fatal: true }).decode(bytes)\<close>: a byte order mark at the front is
  dropped, ill-formed UTF-8 is an error (\<open>None\<close>), and the code points become UTF-16 code units.
  A decoder without \<open>fatal\<close> gives the same text for well-formed bytes.

  The lemmas say which bytes give a text: its UTF-8 encoding, and that encoding after a byte
  order mark (\<open>textDecode_iff\<close>).
\<close>

text \<open>The code point a lead byte and its continuation bytes carry; it is accepted when it is a
  Unicode scalar value and the bytes are its encoding, which excludes overlong forms.\<close>

definition utf8_width :: "nat \<Rightarrow> nat" where
  "utf8_width lead = (if lead < 0x80 then 1 else if lead < 0xE0 then 2 else if lead < 0xF0 then 3 else 4)"

definition utf8_value :: "nat list \<Rightarrow> nat" where
  "utf8_value bs =
     (case bs of
        [a] \<Rightarrow> a
      | [a, b] \<Rightarrow> 64 * (a - 0xC0) + b mod 64
      | [a, b, c] \<Rightarrow> 4096 * (a - 0xE0) + 64 * (b mod 64) + c mod 64
      | [a, b, c, d] \<Rightarrow> 262144 * (a - 0xF0) + 4096 * (b mod 64) + 64 * (c mod 64) + d mod 64
      | _ \<Rightarrow> 0x110000)"

definition utf8_first :: "nat list \<Rightarrow> nat option" where
  "utf8_first bs =
     (let taken = take (utf8_width (hd bs)) bs; n = utf8_value taken
      in if scalar_value n \<and> utf8_of n = taken then Some n else None)"

fun utf8_points :: "nat list \<Rightarrow> nat list option" where
  "utf8_points bs =
     (if bs = [] then Some []
      else case utf8_first bs of
             None \<Rightarrow> None
           | Some n \<Rightarrow> map_option ((#) n) (utf8_points (drop (max 1 (length (utf8_of n))) bs)))"

declare utf8_points.simps [simp del]

definition BOM :: bytes where "BOM = [0xEF, 0xBB, 0xBF]"

definition textDecode :: "bytes \<Rightarrow> ustring option" where
  "textDecode bs =
     (let body = (if startsWith bs BOM then drop 3 bs else bs)
      in map_option (\<lambda>ps. concat (map utf16 ps)) (utf8_points (map unat body)))"

section \<open>Decoding is the inverse of encoding\<close>

lemma utf8_of_cases:
  assumes "scalar_value n"
  obtains (one) "n < 0x80" "utf8_of n = [n]"
  | (two) a b where "n = 64 * a + b" "b < 64" "a < 32" "2 \<le> a" "utf8_of n = [0xC0 + a, 0x80 + b]"
  | (three) a b c where "n = 4096 * a + 64 * b + c" "a < 16" "b < 64" "c < 64" "utf8_of n = [0xE0 + a, 0x80 + b, 0x80 + c]"
  | (four) a b c d where "n = 262144 * a + 4096 * b + 64 * c + d" "a < 5" "b < 64" "c < 64" "d < 64"
      "utf8_of n = [0xF0 + a, 0x80 + b, 0x80 + c, 0x80 + d]"
proof -
  have n: "n < 0x110000" using assms by (auto simp: scalar_value_def)
  define q1 q2 q3 where "q1 = n div 64" and "q2 = q1 div 64" and "q3 = q2 div 64"
  have e: "n div 64 = q1" "n div 4096 = q2" "n div 262144 = q3"
    by (simp_all add: q1_def q2_def q3_def div_4096 div_262144)
  have split: "n = 64 * q1 + n mod 64" "q1 = 64 * q2 + q1 mod 64" "q2 = 64 * q3 + q2 mod 64"
    by (simp_all add: q1_def q2_def q3_def)
  have m: "n mod 64 < 64" "q1 mod 64 < 64" "q2 mod 64 < 64" by simp_all
  consider "n < 0x80" | "0x80 \<le> n" "n < 0x800" | "0x800 \<le> n" "n < 0x10000" | "0x10000 \<le> n" by linarith
  then show ?thesis
  proof cases
    case 1
    then show ?thesis by (intro one) (simp_all add: utf8_of_def)
  next
    case 2
    moreover have "q1 < 32" "2 \<le> q1" using 2 split(1) m(1) by linarith+
    moreover have "utf8_of n = [0xC0 + q1, 0x80 + n mod 64]" using 2 by (simp add: utf8_of_def e)
    ultimately show ?thesis by (intro two [OF split(1) m(1)])
  next
    case 3
    moreover have "n = 4096 * q2 + 64 * (q1 mod 64) + n mod 64" using split by linarith
    moreover have "q2 < 16" using 3 calculation(3) by linarith
    moreover have "utf8_of n = [0xE0 + q2, 0x80 + q1 mod 64, 0x80 + n mod 64]" using 3 by (simp add: utf8_of_def e)
    ultimately show ?thesis using m by (intro three)
  next
    case 4
    moreover have "n = 262144 * q3 + 4096 * (q2 mod 64) + 64 * (q1 mod 64) + n mod 64" using split by linarith
    moreover have "q3 < 5" using n calculation(2) by linarith
    moreover have "utf8_of n = [0xF0 + q3, 0x80 + q2 mod 64, 0x80 + q1 mod 64, 0x80 + n mod 64]"
      using 4 by (simp add: utf8_of_def e)
    ultimately show ?thesis using m by (intro four)
  qed
qed

lemma utf8_first_encode: "scalar_value n \<Longrightarrow> utf8_first (utf8_of n @ rest) = Some n"
proof -
  assume n: "scalar_value n"
  have tail: "(0x80 + b) mod 64 = b" if "b < 64" for b :: nat
  proof -
    have "(0x80 + b) mod 64 = b mod 64" using mod_mult_self3 [of 2 64 b] by simp
    with that show ?thesis by simp
  qed
  have "take (utf8_width (hd (utf8_of n))) (utf8_of n @ rest) = utf8_of n \<and> utf8_value (utf8_of n) = n"
    using n tail by (cases rule: utf8_of_cases [OF n]) (auto simp: utf8_width_def utf8_value_def)
  moreover have "hd (utf8_of n @ rest) = hd (utf8_of n)" by (simp add: utf8_not_Nil)
  ultimately show ?thesis using n by (simp add: utf8_first_def Let_def)
qed

lemma utf8_first_Some: "utf8_first bs = Some n \<Longrightarrow> scalar_value n \<and> (\<exists>rest. bs = utf8_of n @ rest)"
  by (auto simp: utf8_first_def Let_def split: if_split_asm) (metis append_take_drop_id)

lemma utf8_points_iff: "utf8_points bs = Some ps \<longleftrightarrow> list_all scalar_value ps \<and> bs = concat (map utf8_of ps)"
proof (induction bs arbitrary: ps rule: utf8_points.induct)
  case (1 bs)
  show ?case
  proof (cases "bs = []")
    case True
    then show ?thesis by (cases ps) (auto simp: utf8_points.simps utf8_not_Nil)
  next
    case False
    show ?thesis
    proof
      assume l: "utf8_points bs = Some ps"
      with False obtain n where n: "utf8_first bs = Some n" by (auto simp: utf8_points.simps [of bs] split: option.split_asm)
      with l False obtain qs where qs: "ps = n # qs" "utf8_points (drop (max 1 (length (utf8_of n))) bs) = Some qs"
        by (auto simp: utf8_points.simps [of bs])
      from utf8_first_Some [OF n] obtain rest where r: "scalar_value n" "bs = utf8_of n @ rest" by blast
      have "max 1 (length (utf8_of n)) = length (utf8_of n)" using utf8_not_Nil [of n] by (cases "utf8_of n") simp_all
      with 1 [OF False n, of qs] qs r show "list_all scalar_value ps \<and> bs = concat (map utf8_of ps)" by simp
    next
      assume r: "list_all scalar_value ps \<and> bs = concat (map utf8_of ps)"
      with False obtain n qs where ps: "ps = n # qs" by (cases ps) auto
      with r have n: "utf8_first bs = Some n" by (simp add: utf8_first_encode)
      have "max 1 (length (utf8_of n)) = length (utf8_of n)" using utf8_not_Nil [of n] by (cases "utf8_of n") simp_all
      with 1 [OF False n, of qs] r ps have "utf8_points (drop (max 1 (length (utf8_of n))) bs) = Some qs" by simp
      then show "utf8_points bs = Some ps" using False n ps by (simp add: utf8_points.simps [of bs])
    qed
  qed
qed

lemma code_points_utf16: "scalar_value n \<Longrightarrow> code_points (utf16 n @ s) = n # code_points s"
proof (cases "n < 0x10000")
  case True
  assume "scalar_value n"
  with True show ?thesis
    by (auto simp: utf16_def high_unat low_unat unat16_of_nat scalar_value_def)
next
  case False
  assume v: "scalar_value n"
  let ?m = "n - 0x10000"
  have d: "?m div 0x400 < 0x400" "?m mod 0x400 < 0x400"
    using v False by (auto simp: scalar_value_def)
  then have "high (of_nat (0xD800 + ?m div 0x400) :: 16 word)" "low (of_nat (0xDC00 + ?m mod 0x400) :: 16 word)"
    unfolding high_unat low_unat by (simp_all add: unat16_of_nat del: of_nat_add)
  moreover have "pair_point (of_nat (0xD800 + ?m div 0x400)) (of_nat (0xDC00 + ?m mod 0x400)) = n"
    unfolding pair_point_def using d False by (simp add: unat16_of_nat del: of_nat_add)
  ultimately show ?thesis
    using False by (simp add: utf16_def del: of_nat_add)
qed

lemma code_points_concat: "list_all scalar_value ps \<Longrightarrow> code_points (concat (map utf16 ps)) = ps"
  by (induction ps) (simp_all add: code_points_utf16 del: code_points.simps(2))

lemma code_points_scalar:
  assumes "scalar_string s"
  shows "list_all scalar_value (code_points s)"
proof -
  from scalar_decode [OF assms] obtain ps where "list_all scalar_value ps" "s = concat (map utf16 ps)" by blast
  then show ?thesis by (simp add: code_points_concat)
qed

lemma map_unat_bytes:
  assumes "list_all (\<lambda>n. n < 256) ns"
  shows "map unat (bs :: bytes) = ns \<longleftrightarrow> bs = map of_nat ns"
proof
  assume "map unat bs = ns"
  then have "map (of_nat :: nat \<Rightarrow> 8 word) ns = map (of_nat \<circ> unat) bs" by auto
  then show "bs = map of_nat ns" by (simp add: map_idI)
next
  assume "bs = map of_nat ns"
  then have "map unat bs = map (unat \<circ> (of_nat :: nat \<Rightarrow> 8 word)) ns" by simp
  also have "\<dots> = ns" using assms by (intro map_idI) (auto simp: list_all_iff unat8_of_nat)
  finally show "map unat bs = ns" .
qed

lemma utf8_points_text:
  "utf8_points (map unat (bs :: bytes)) = Some ps \<longleftrightarrow>
   list_all scalar_value ps \<and> bs = textEncode (concat (map utf16 ps))"
proof (cases "list_all scalar_value ps")
  case True
  then have "list_all (\<lambda>n. n < 256) (concat (map utf8_of ps))"
  proof (induction ps)
    case (Cons p ps)
    then have "p < 0x110000" by (auto simp: scalar_value_def)
    with Cons utf8_of_bytes [of p] show ?case by simp
  qed simp
  from map_unat_bytes [OF this] True show ?thesis
    unfolding utf8_points_iff textEncode_def by (simp add: code_points_concat)
qed (simp add: utf8_points_iff)

lemma utf8_points_textEncode: "scalar_string s \<Longrightarrow> utf8_points (map unat (textEncode s)) = Some (code_points s)"
  unfolding utf8_points_text by (simp add: code_points_scalar utf16_code_points)

text \<open>A text is read from its encoding, and from its encoding behind a byte order mark. Only a
  text that begins with the mark itself loses it.\<close>

lemma textDecode_body:
  "map_option (\<lambda>ps. concat (map utf16 ps)) (utf8_points (map unat bs)) = Some s \<longleftrightarrow> scalar_string s \<and> bs = textEncode s"
  using scalar_decode [of s] scalar_encode
  by (auto simp: utf8_points_text utf8_points_textEncode utf16_code_points)

lemma textDecode_iff:
  "textDecode bs = Some s \<longleftrightarrow> scalar_string s \<and> (bs = BOM @ textEncode s \<or> (bs = textEncode s \<and> \<not> startsWith bs BOM))"
proof (cases "startsWith bs BOM")
  case True
  then obtain r where r: "bs = BOM @ r" by (auto simp: prefix_def)
  then have "textDecode bs = map_option (\<lambda>ps. concat (map utf16 ps)) (utf8_points (map unat r))"
    by (simp add: textDecode_def BOM_def)
  then have "textDecode bs = Some s \<longleftrightarrow> scalar_string s \<and> r = textEncode s"
    by (simp only: textDecode_body)
  with r show ?thesis by simp
next
  case False
  then have "textDecode bs = map_option (\<lambda>ps. concat (map utf16 ps)) (utf8_points (map unat bs))"
    by (simp add: textDecode_def)
  then have "textDecode bs = Some s \<longleftrightarrow> scalar_string s \<and> bs = textEncode s"
    by (simp only: textDecode_body)
  with False show ?thesis by auto
qed

lemma textDecode_textEncode: "scalar_string s \<Longrightarrow> \<not> startsWith (textEncode s) BOM \<Longrightarrow> textDecode (textEncode s) = Some s"
  by (simp add: textDecode_iff)

end
