(* ===== verification/Doubles.thy ===== *)
theory Doubles
  imports Json "HOL-Library.Log_Nat"
begin

text \<open>
  The integers among the JavaScript numbers. The times and counters of the policy code are
  numbers the language computes with in double precision: beyond \<open>2 ^ 53\<close> a sum or a difference
  is rounded to a multiple of a power of two. \<open>fl\<close> is that rounding (to nearest, ties to even;
  the overflow to infinity beyond \<open>2 ^ 1024\<close> is not modelled), \<open>number_int\<close> the integer a number
  is, if it is one, and \<open>number_of_int\<close> the shortest digits of an integer, which is how it is
  written.
\<close>

definition fl_nat :: "nat \<Rightarrow> nat" where
  "fl_nat a =
     (if a \<le> 2 ^ 53 then a
      else let p = 2 ^ (nat (bitlen (int a)) - 53); q = a div p; r = a mod p
           in if 2 * r < p \<or> (2 * r = p \<and> even q) then q * p else (q + 1) * p)"

definition fl :: "int \<Rightarrow> int" where
  "fl i = (if i < 0 then - int (fl_nat (nat (- i))) else int (fl_nat (nat i)))"

text \<open>The integer a decimal text denotes, if it denotes one: a sign, digits, a fraction, an
  exponent. \<open>Number.isInteger(n)\<close> holds when the text of \<open>n\<close> denotes an integer, which then is
  rounded to the number.\<close>

definition signed_dec :: "string \<Rightarrow> int" where
  "signed_dec t = (case t of c # ds \<Rightarrow> if c = CHR ''-'' then - int (nat_of_dec ds) else int (nat_of_dec ds) | [] \<Rightarrow> 0)"

definition text_int :: "string \<Rightarrow> int option" where
  "text_int t =
     (let (neg, body) = (case t of c # r \<Rightarrow> if c = CHR ''-'' then (True, r) else (False, t) | [] \<Rightarrow> (False, t));
          (mantissa, ex) = (case splitFirst CHR ''e'' body of None \<Rightarrow> (body, 0) | Some (m, x) \<Rightarrow> (m, signed_dec x));
          (whole, decs) = (case splitFirst CHR ''.'' mantissa of None \<Rightarrow> (mantissa, []) | Some p \<Rightarrow> p);
          d = nat_of_dec (whole @ decs); e = ex - int (length decs);
          signed = (\<lambda>m. if neg then - int m else int m)
      in if 0 \<le> e then Some (signed (d * 10 ^ nat e))
         else if 10 ^ nat (- e) dvd d then Some (signed (d div 10 ^ nat (- e))) else None)"

definition number_int :: "jnumber \<Rightarrow> int option" where
  "number_int n = (if finite_number n then map_option fl (text_int (number_text n)) else None)"

text \<open>The multiple of \<open>10 ^ t\<close> nearest to \<open>a\<close>, and the digits: as many trailing ones are left out
  as the rounding restores.\<close>

definition near :: "nat \<Rightarrow> nat \<Rightarrow> nat" where
  "near t a = (2 * a + 10 ^ t) div (2 * 10 ^ t)"

definition number_of_int :: "int \<Rightarrow> jnumber" where
  "number_of_int i =
     (if i = 0 then Zero
      else let a = nat \<bar>i\<bar>;
               t = hd (filter (\<lambda>t. fl_nat (near t a * 10 ^ t) = a) (rev [0..<Suc (length (dec_of_nat a))]))
           in Decimal (i < 0) (near t a) (int (length (dec_of_nat (near t a))) + int t))"

section \<open>Rounding\<close>

lemma fl_exact: "\<bar>i\<bar> \<le> 2 ^ 53 \<Longrightarrow> fl i = i"
proof -
  assume "\<bar>i\<bar> \<le> 2 ^ 53"
  then have "nat (- i) \<le> 2 ^ 53" "nat i \<le> 2 ^ 53" by (simp_all add: nat_le_iff)
  then show ?thesis by (simp add: fl_def fl_nat_def)
qed

lemma fl_nat_rounds:
  assumes "2 ^ 53 < a"
  obtains p q where "p = 2 ^ (nat (bitlen (int a)) - 53)" "fl_nat a = q * p" "q = a div p \<or> q = a div p + 1"
    "2 ^ (nat (bitlen (int a)) - 1) \<le> fl_nat a" "fl_nat a \<le> 2 ^ nat (bitlen (int a))"
proof -
  define b where "b = nat (bitlen (int a))"
  define p :: nat where "p = 2 ^ (b - 53)"
  have a: "0 < int a" using assms by simp
  have bounds: "2 ^ (b - 1) \<le> a" "a < 2 ^ b"
  proof -
    have "nat (bitlen (int a) - 1) = b - 1" unfolding b_def by linarith
    with bitlen_bounds [OF a] have "int (2 ^ (b - 1)) \<le> int a" "int a < int (2 ^ b)"
      unfolding b_def by (simp_all only: of_nat_power of_nat_numeral) 
    then show "2 ^ (b - 1) \<le> a" "a < 2 ^ b" by (simp_all only: of_nat_le_iff of_nat_less_iff)
  qed
  have b: "54 \<le> b"
  proof (rule ccontr)
    assume "\<not> 54 \<le> b"
    then have "(2 :: nat) ^ b \<le> 2 ^ 53" by (intro power_increasing) simp_all
    with bounds(2) assms show False by linarith
  qed
  have pow: "2 ^ (b - 1) = 2 ^ 52 * p" "2 ^ b = 2 ^ 53 * p"
  proof -
    have "b - 1 = 52 + (b - 53)" "b = 53 + (b - 53)" using b by simp_all
    then show "2 ^ (b - 1) = 2 ^ 52 * p" "2 ^ b = 2 ^ 53 * p"
      unfolding p_def by (metis power_add)+
  qed
  have q: "2 ^ 52 \<le> a div p" "a div p < 2 ^ 53"
  proof -
    have p: "0 < p" by (simp add: p_def)
    show "2 ^ 52 \<le> a div p" using bounds(1) p unfolding pow by (simp only: less_eq_div_iff_mult_less_eq)
    show "a div p < 2 ^ 53" using bounds(2) unfolding pow by (rule less_mult_imp_div_less)
  qed
  have f: "fl_nat a = a div p * p \<or> fl_nat a = (a div p + 1) * p"
    using assms unfolding fl_nat_def Let_def b_def [symmetric] p_def [symmetric] by (simp add: not_le)
  then obtain q' where q': "fl_nat a = q' * p" "q' = a div p \<or> q' = a div p + 1" by blast
  then have "2 ^ 52 \<le> q'" "q' \<le> 2 ^ 53" using q by auto
  then have "2 ^ 52 * p \<le> fl_nat a" "fl_nat a \<le> 2 ^ 53 * p" unfolding q'(1) by simp_all
  with q' pow show ?thesis by (intro that [of p q']) (simp_all add: p_def b_def)
qed


lemma fl_nat_bounds:
  assumes "2 ^ 53 < a"
  shows "2 ^ (nat (bitlen (int a)) - 1) \<le> fl_nat a" "fl_nat a \<le> 2 ^ nat (bitlen (int a))"
  by (rule fl_nat_rounds [OF assms]; assumption)+

lemma fl_signed: "fl (int m) = int (fl_nat m)" "fl (- int m) = - int (fl_nat m)"
proof -
  show "fl (int m) = int (fl_nat m)" by (simp add: fl_def)
  have "fl_nat 0 = 0" by (simp add: fl_nat_def)
  then show "fl (- int m) = - int (fl_nat m)" by (cases "m = 0") (simp_all add: fl_def)
qed

lemma fl_nat_mono: "a \<le> b \<Longrightarrow> fl_nat a \<le> fl_nat b"
proof (cases "b \<le> 2 ^ 53")
  case True
  assume "a \<le> b"
  with True show ?thesis by (simp add: fl_nat_def)
next
  case False
  assume ab: "a \<le> b"
  define n where "n = nat (bitlen (int b))"
  show ?thesis
  proof (cases "a \<le> 2 ^ 53")
    case True
    have "54 \<le> n"
    proof (rule ccontr)
      assume "\<not> 54 \<le> n"
      then have "(2 :: nat) ^ n \<le> 2 ^ 53" by (intro power_increasing) simp_all
      moreover have "int b < int (2 ^ n)"
        using bitlen_bounds [of "int b"] False unfolding n_def by (simp only: of_nat_power of_nat_numeral)
      then have "b < 2 ^ n" by (simp only: of_nat_less_iff)
      ultimately show False using False by linarith
    qed
    then have "(2 :: nat) ^ 53 \<le> 2 ^ (n - 1)" by (intro power_increasing) simp_all
    moreover have "2 ^ (n - 1) \<le> fl_nat b" using fl_nat_bounds(1) [of b] False unfolding n_def by linarith
    ultimately have "a \<le> fl_nat b" using True by linarith
    moreover have "fl_nat a = a" using True by (simp only: fl_nat_def if_True)
    ultimately show ?thesis by simp
  next
    case a: False
    define m where "m = nat (bitlen (int a))"
    have mn: "m \<le> n" using ab by (simp add: m_def n_def bitlen_def floorlog_mono)
    show ?thesis
    proof (cases "m = n")
      case True
      define p :: nat where "p = 2 ^ (n - 53)"
      have f: "fl_nat c = (if 2 * (c mod p) < p \<or> (2 * (c mod p) = p \<and> even (c div p)) then c div p * p else (c div p + 1) * p)"
        if "c \<in> {a, b}" for c
      proof -
        have "\<not> c \<le> 2 ^ 53" "nat (bitlen (int c)) = n"
          using that a \<open>\<not> b \<le> 2 ^ 53\<close> True unfolding m_def n_def by auto
        then show ?thesis unfolding p_def fl_nat_def Let_def by (simp only: if_False)
      qed
      show ?thesis
      proof (cases "a div p = b div p")
        case True
        moreover have "a mod p \<le> b mod p"
          using ab True by (metis add_le_cancel_left div_mult_mod_eq)
        ultimately show ?thesis by (auto simp: f)
      next
        case False
        with ab have "a div p + 1 \<le> b div p" by (metis Suc_eq_plus1 Suc_leI div_le_mono le_neq_implies_less)
        then have "(a div p + 1) * p \<le> b div p * p" by (rule mult_right_mono) simp
        moreover have "a div p \<le> b div p" using ab by (rule div_le_mono)
        ultimately show ?thesis by (auto simp: f)
      qed
    next
      case False
      then have "(2 :: nat) ^ m \<le> 2 ^ (n - 1)" using mn by (intro power_increasing) simp_all
      moreover have "fl_nat a \<le> 2 ^ m" using fl_nat_bounds(2) [of a] a unfolding m_def by linarith
      moreover have "2 ^ (n - 1) \<le> fl_nat b" using fl_nat_bounds(1) [of b] \<open>\<not> b \<le> 2 ^ 53\<close> unfolding n_def by linarith
      ultimately show ?thesis by linarith
    qed
  qed
qed

lemma fl_mono: "i \<le> j \<Longrightarrow> fl i \<le> fl j"
  by (auto simp: fl_def intro!: fl_nat_mono)

section \<open>Writing and reading an integer\<close>

lemma number_of_int_digits:
  assumes "0 < a" and "fl_nat a = a"
  shows "\<exists>t. fl_nat (near t a * 10 ^ t) = a \<and>
    hd (filter (\<lambda>t. fl_nat (near t a * 10 ^ t) = a) (rev [0..<Suc (length (dec_of_nat a))])) = t"
proof -
  let ?ts = "filter (\<lambda>t. fl_nat (near t a * 10 ^ t) = a) (rev [0..<Suc (length (dec_of_nat a))])"
  have "near 0 a = a" by (simp add: near_def)
  with assms(2) have "0 \<in> set ?ts" by simp
  then have "hd ?ts \<in> set ?ts" by (intro hd_in_set) auto
  then show ?thesis by auto
qed

lemma dec_digits:
  "c \<in> set (dec_of_nat m) \<Longrightarrow> c \<noteq> CHR ''e'' \<and> c \<noteq> CHR ''.'' \<and> c \<noteq> CHR ''-''"
  using dec_of_nat_digits [of m] by (auto simp: char_class_defs)

lemma nat_of_dec_zeros: "nat_of_dec (ds @ replicate t CHR ''0'') = nat_of_dec ds * 10 ^ t"
proof (induction t)
  case (Suc t)
  have "ds @ replicate (Suc t) CHR ''0'' = (ds @ replicate t CHR ''0'') @ [CHR ''0'']"
    by (simp add: replicate_append_same)
  with Suc show ?case by (simp only: nat_of_dec_snoc) (simp add: char_digit_def)
qed simp

lemma text_int_digits:
  assumes "list_all is_digit (whole @ decs)" and "whole \<noteq> []" and "0 \<le> x - int (length decs)"
    and "mantissa = (if decs = [] then whole else whole @ CHR ''.'' # decs)"
    and "body = mantissa \<and> x = 0 \<or> body = mantissa @ CHR ''e'' # ex \<and> signed_dec ex = x"
  shows "text_int ((if neg then ''-'' else []) @ body) =
    Some (if neg then - int (nat_of_dec (whole @ decs) * 10 ^ nat (x - int (length decs)))
          else int (nat_of_dec (whole @ decs) * 10 ^ nat (x - int (length decs))))"
proof -
  have no: "CHR ''e'' \<notin> set whole" "CHR ''e'' \<notin> set decs" "CHR ''.'' \<notin> set whole" "hd whole \<noteq> CHR ''-''"
  proof -
    have "is_digit c \<Longrightarrow> c \<noteq> CHR ''e'' \<and> c \<noteq> CHR ''.'' \<and> c \<noteq> CHR ''-''" for c
      by (auto simp: char_class_defs)
    moreover have "\<forall>c \<in> set (whole @ decs). is_digit c" using assms(1) by (simp add: list_all_iff)
    moreover have "hd whole \<in> set (whole @ decs)" using assms(2) by simp
    ultimately show "CHR ''e'' \<notin> set whole" "CHR ''e'' \<notin> set decs" "CHR ''.'' \<notin> set whole" "hd whole \<noteq> CHR ''-''"
      by fastforce+
  qed
  obtain c r where body: "body = c # r" "c \<noteq> CHR ''-''"
  proof -
    from assms(2) obtain a w where w: "whole = a # w" by (cases whole) auto
    with assms(4,5) have "\<exists>r. body = a # r" by (cases "decs = []") auto
    moreover have "a \<noteq> CHR ''-''" using no(4) w by simp
    ultimately show thesis using that by blast
  qed
  have e: "(case splitFirst CHR ''e'' body of None \<Rightarrow> (body, 0) | Some (m, x) \<Rightarrow> (m, signed_dec x)) = (mantissa, x)"
  proof -
    have m: "CHR ''e'' \<notin> set mantissa" using assms(4) no by (auto split: if_splits)
    from assms(5) show ?thesis
    proof
      assume "body = mantissa \<and> x = 0"
      moreover from m have "splitFirst CHR ''e'' mantissa = None" by (simp add: splitFirst_None_iff)
      ultimately show ?thesis by simp
    next
      assume b: "body = mantissa @ CHR ''e'' # ex \<and> signed_dec ex = x"
      then have "splitFirst CHR ''e'' body = Some (mantissa, ex)" using m by (simp add: splitFirst_Some_iff)
      with b show ?thesis by simp
    qed
  qed
  have f: "(case splitFirst CHR ''.'' mantissa of None \<Rightarrow> (mantissa, []) | Some p \<Rightarrow> p) = (whole, decs)"
  proof (cases "decs = []")
    case True
    then have "splitFirst CHR ''.'' mantissa = None" using assms(4) no by (simp add: splitFirst_None_iff)
    then show ?thesis using True assms(4) by simp
  next
    case False
    then have "splitFirst CHR ''.'' mantissa = Some (whole, decs)" using assms(4) no by (simp add: splitFirst_Some_iff)
    then show ?thesis by simp
  qed
  have "(case (if neg then ''-'' else []) @ body of
      c # r \<Rightarrow> if c = CHR ''-'' then (True, r) else (False, (if neg then ''-'' else []) @ body)
    | [] \<Rightarrow> (False, (if neg then ''-'' else []) @ body)) = (neg, body)"
    using body by simp
  then show ?thesis unfolding text_int_def Let_def using assms(3) by (simp only: e f prod.case) simp
qed

lemma number_int_decimal:
  assumes "int (length (dec_of_nat s)) \<le> n"
  shows "number_int (Decimal neg s n) =
    Some (fl (if neg then - int (s * 10 ^ nat (n - int (length (dec_of_nat s)))) else int (s * 10 ^ nat (n - int (length (dec_of_nat s))))))"
proof -
  define ds where "ds = dec_of_nat s"
  define t where "t = nat (n - int (length ds))"
  have ds: "list_all is_digit ds" "ds \<noteq> []" "nat_of_dec ds = s"
    using dec_of_nat_digits [of s] by (simp_all add: ds_def list_all_iff)
  have n: "n = int (length ds) + int t" using assms by (simp add: t_def ds_def)
  have k: "0 < length ds" using ds(2) by simp
  have "text_int ((if neg then ''-'' else []) @ decimal_text ds n) = Some (if neg then - int (s * 10 ^ t) else int (s * 10 ^ t))"
  proof (cases "n \<le> 21")
    case True
    then have "decimal_text ds n = ds @ replicate t CHR ''0''" using n by (simp add: decimal_text_def)
    moreover have "list_all is_digit (replicate t CHR ''0'')" by (auto simp: list_all_iff is_digit_def less_eq_char_def)
    ultimately show ?thesis
      using text_int_digits [of "ds @ replicate t CHR ''0''" "[]" 0 _ _ "[]" neg] ds by (simp add: nat_of_dec_zeros)
  next
    case False
    have ex: "signed_dec (int_text (n - 1)) = n - 1" using n k by (simp add: signed_dec_def int_text_def)
    show ?thesis
    proof (cases "length ds = 1")
      case True
      with False n have "decimal_text ds n = ds @ ''e'' @ int_text (n - 1)" by (simp add: decimal_text_def Let_def)
      then show ?thesis
        using text_int_digits [of ds "[]" "n - 1" _ _ "int_text (n - 1)" neg] ds ex n True by simp
    next
      case two: False
      with False n k have d: "decimal_text ds n = (take 1 ds @ ''.'' @ drop 1 ds) @ ''e'' @ int_text (n - 1)"
        by (simp add: decimal_text_def Let_def)
      have "int (length (drop 1 ds)) = int (length ds) - 1" using k by (cases ds) simp_all
      then have "n - 1 - int (length (drop 1 ds)) = int t" using n by linarith
      then have "nat (n - 1 - int (length (drop 1 ds))) = t" "0 \<le> n - 1 - int (length (drop 1 ds))"
        by (simp_all only: nat_int of_nat_0_le_iff)
      moreover have "drop 1 ds \<noteq> []" "take 1 ds \<noteq> []" using two k by (cases ds; simp)+
      ultimately show ?thesis
        using text_int_digits [of "take 1 ds" "drop 1 ds" "n - 1" _ _ "int_text (n - 1)" neg] ds ex d by simp
    qed
  qed
  then show ?thesis unfolding number_int_def by (simp add: ds_def t_def)
qed

lemma number_int_of_int: "fl i = i \<Longrightarrow> number_int (number_of_int i) = Some i"
proof (cases "i = 0")
  case True
  then show ?thesis
    by (simp add: number_of_int_def number_int_def text_int_def splitFirst_def nat_of_dec_def char_digit_def fl_exact)
next
  case False
  assume i: "fl i = i"
  let ?a = "nat \<bar>i\<bar>"
  have "0 < ?a" "fl_nat ?a = ?a" using i False by (auto simp: fl_def split: if_split_asm)
  from number_of_int_digits [OF this] obtain t where t: "fl_nat (near t ?a * 10 ^ t) = ?a"
    "number_of_int i = Decimal (i < 0) (near t ?a) (int (length (dec_of_nat (near t ?a))) + int t)"
    using False by (auto simp: number_of_int_def Let_def)
  then have "fl (if i < 0 then - int (near t ?a * 10 ^ t) else int (near t ?a * 10 ^ t)) = i"
    using fl_signed [of "near t ?a * 10 ^ t"] by (cases "i < 0") (simp_all only: if_True if_False, simp_all)
  then show ?thesis unfolding t(2) by (simp only: number_int_decimal le_add1 add_diff_cancel_left' nat_int)
qed

lemma number_int_text: "finite_number m \<Longrightarrow> finite_number n \<Longrightarrow> number_text m = number_text n \<Longrightarrow> number_int m = number_int n"
  by (simp add: number_int_def)

text \<open>Rounding twice is rounding once, so every integer read from a number is one.\<close>

lemma fl_nat_multiple: "2 ^ (nat (bitlen (int c)) - 53) dvd c \<Longrightarrow> fl_nat c = c"
  by (auto simp: fl_nat_def Let_def)

lemma fl_nat_idem: "fl_nat (fl_nat a) = fl_nat a"
proof (cases "a \<le> 2 ^ 53")
  case False
  then have a: "2 ^ 53 < a" by simp
  define b where "b = nat (bitlen (int a))"
  obtain p q where r: "p = 2 ^ (b - 53)" "fl_nat a = q * p" "2 ^ (b - 1) \<le> fl_nat a" "fl_nat a \<le> 2 ^ b"
    by (rule fl_nat_rounds [OF a]) (auto simp: b_def)
  show ?thesis
  proof (cases "fl_nat a = 2 ^ b")
    case True
    have "nat (bitlen (int (2 ^ b))) = Suc b" using bitlen_pow2 [of 1 b] by (simp add: bitlen_def floorlog_def)
    then have "2 ^ (nat (bitlen (int (2 ^ b))) - 53) dvd (2 ^ b :: nat)" by (simp add: le_imp_power_dvd)
    then show ?thesis unfolding True by (rule fl_nat_multiple)
  next
    case False
    with r(4) have "fl_nat a < 2 ^ b" by simp
    then have "bitlen (int (fl_nat a)) \<le> int b" by (simp add: bitlen_le_iff_power)
    then have "nat (bitlen (int (fl_nat a))) - 53 \<le> b - 53" by linarith
    then have "2 ^ (nat (bitlen (int (fl_nat a))) - 53) dvd p" unfolding r(1) by (rule le_imp_power_dvd)
    then show ?thesis using r(2) by (intro fl_nat_multiple) simp
  qed
qed (simp add: fl_nat_def)

lemma fl_idem [simp]: "fl (fl i) = fl i"
proof -
  have "fl_nat 0 = 0" by (simp add: fl_nat_def)
  then show ?thesis by (auto simp: fl_def fl_nat_idem)
qed

lemma number_int_double: "number_int n = Some i \<Longrightarrow> fl i = i"
  by (auto simp: number_int_def split: if_split_asm)

lemma finite_number_of_int [simp]: "finite_number (number_of_int i)"
  by (simp add: number_of_int_def Let_def)

end
