(* ===== verification/CompactUcan.thy ===== *)
theory CompactUcan
  imports UnifiedCapability TextDecode Doubles
begin

text \<open>
  Compact UCANs of \<^verbatim>\<open>packages/sdk-core/src/policy/unified.ts\<close>: the three-segment authorization
  over canonical JSON, its signing and parsing, the containment of attenuations, descendants of
  a policy session and the invocations made under one.

  What is imported is a record of functions (\<open>compact_lib\<close>): SHA-256, BLAKE3 and Ed25519 (noble),
  base58 and CIDs (multiformats), and \<open>JSON.parse\<close>; a call that throws is \<open>None\<close>. The zod schemas
  are the predicates they describe. Times are integers in double precision (\<open>Doubles\<close>): any
  other number a caller passes is refused by the payload schema.

  The lemmas say which authorizations are accepted, that what is signed parses to what was
  signed, and that the reader of the attenuation alone agrees with the full parser.
\<close>

record compact_lib =
  cl_sha256 :: "bytes \<Rightarrow> bytes"
  cl_blake3 :: "bytes \<Rightarrow> bytes"
  cl_cidV1 :: "nat \<Rightarrow> nat \<Rightarrow> bytes \<Rightarrow> ustring"              \<comment> \<open>codec, hash code, digest\<close>
  cl_base58 :: "ustring \<Rightarrow> bytes option"
  cl_verify :: "bytes \<Rightarrow> bytes \<Rightarrow> bytes \<Rightarrow> bool option"       \<comment> \<open>signature, message, public key\<close>
  cl_verify_strict :: "bytes \<Rightarrow> bytes \<Rightarrow> bytes \<Rightarrow> bool option"  \<comment> \<open>\<open>zip215: false\<close>\<close>
  cl_publicKey :: "bytes \<Rightarrow> bytes option"
  cl_sign :: "bytes \<Rightarrow> bytes \<Rightarrow> bytes option"                \<comment> \<open>message, private key\<close>
  cl_parse :: "ustring \<Rightarrow> json option"

section \<open>Segments\<close>

text \<open>\<open>atob\<close> of the padded text with \<open>-\<close> and \<open>_\<close> put back reads digits of the URL alphabet.\<close>

definition decodeBase64Url :: "ustring \<Rightarrow> (unified_error, bytes) result" where
  "decodeBase64Url val =
     (if val = [] \<or> list_ex (\<lambda>u. u \<notin> set BASE64URL_ALPHABET) val \<or> length val mod 4 = 1
      then Inl (Thrown ''value is not canonical base64url'')
      else case base64_loop val 0 0 [] of
             Inl _ \<Rightarrow> Inl LibraryThrown
           | Inr bytes \<Rightarrow>
               if base64UrlEncode bytes \<noteq> val then Inl (Thrown ''value is not canonical base64url'') else Inr bytes)"

definition encodeBase64Url :: "bytes \<Rightarrow> ustring" where
  "encodeBase64Url bytes = base64UrlEncode bytes"

definition compact_segments :: "ustring \<Rightarrow> (unified_error, ustring \<times> ustring \<times> ustring) result" where
  "compact_segments input =
     (if list_ex js_space input then Inl (Thrown ''Authorization must be compact UCAN bytes'')
      else case splitOn 0x2E input of
             [h, p, s] \<Rightarrow>
               if h = [] \<or> p = [] \<or> s = [] then Inl (Thrown ''Authorization must have three compact segments'')
               else Inr (h, p, s)
           | _ \<Rightarrow> Inl (Thrown ''Authorization must have three compact segments''))"

text \<open>\<open>JSON.parse\<close> of the decoded bytes, with the text that was parsed.\<close>

definition parse_segment :: "compact_lib \<Rightarrow> bytes \<Rightarrow> (unified_error, json \<times> ustring) result" where
  "parse_segment lib bytes =
     (case textDecode bytes of
        None \<Rightarrow> Inl LibraryThrown
      | Some text \<Rightarrow> (case cl_parse lib text of None \<Rightarrow> Inl LibraryThrown | Some v \<Rightarrow> Inr (v, text)))"

definition signing_input :: "ustring \<Rightarrow> ustring \<Rightarrow> bytes" where
  "signing_input h p = textEncode (h @ 0x2E # p)"

definition authorization_cid :: "compact_lib \<Rightarrow> ustring \<Rightarrow> ustring" where
  "authorization_cid lib input = cl_cidV1 lib 0x55 0x1E (cl_blake3 lib (textEncode input))"

section \<open>Keys\<close>

definition DID_KEY :: ustring where "DID_KEY = ustr ''did:key:''"

text \<open>\<open>did.split("#", 1)[0]\<close>\<close>

definition principal_of :: "ustring \<Rightarrow> ustring" where
  "principal_of did = takeWhile (\<lambda>u. u \<noteq> 0x23) did"

definition did_material :: "compact_lib \<Rightarrow> ustring \<Rightarrow> (unified_error, bytes) result" where
  "did_material lib did =
     (if startsWith (principal_of did) DID_KEY
      then case cl_base58 lib (drop (length DID_KEY) (principal_of did)) of
             None \<Rightarrow> Inl LibraryThrown | Some material \<Rightarrow> Inr material
      else Inr [])"

definition ed25519_material :: "bytes \<Rightarrow> bool" where
  "ed25519_material material \<longleftrightarrow> length material = 34 \<and> take 2 material = [0xED, 0x01]"

definition issuer_did :: "ustring \<Rightarrow> ustring" where
  "issuer_did did =
     (if hasChar did 0x23 then did else principal_of did @ ustr ''#'' @ drop (length DID_KEY) (principal_of did))"

section \<open>The schemas\<close>

record compact_payload =
  cp_att :: attenuation
  cp_aud :: ustring
  cp_exp :: int
  cp_fct :: json_object
  cp_iss :: ustring
  cp_nbf :: int
  cp_nnc :: ustring
  cp_prf :: "ustring list"

definition zod_strict :: "json_object \<Rightarrow> string list \<Rightarrow> (unified_error, unit) result" where
  "zod_strict fs keys = throw_if (list_ex (\<lambda>(key, _). key \<notin> ustr ` set keys) fs) LibraryThrown"

definition zod_literal :: "json option \<Rightarrow> string \<Rightarrow> (unified_error, unit) result" where
  "zod_literal v text = throw_if (v \<noteq> Some (StrJ (ustr text))) LibraryThrown"

definition zod_object :: "json option \<Rightarrow> (unified_error, json_object) result" where
  "zod_object v = (case v of Some (ObjJ fs) \<Rightarrow> Inr fs | _ \<Rightarrow> Inl LibraryThrown)"

definition zod_text :: "json option \<Rightarrow> (unified_error, ustring) result" where
  "zod_text v = (case v of Some (StrJ s) \<Rightarrow> if s = [] then Inl LibraryThrown else Inr s | _ \<Rightarrow> Inl LibraryThrown)"

definition zod_int :: "json option \<Rightarrow> (unified_error, int) result" where
  "zod_int v =
     (case v of
        Some (NumJ n) \<Rightarrow> (case number_int n of Some i \<Rightarrow> Inr i | None \<Rightarrow> Inl LibraryThrown)
      | _ \<Rightarrow> Inl LibraryThrown)"

definition zod_actions :: "json \<Rightarrow> (unified_error, (ustring \<times> json list) list) result" where
  "zod_actions v =
     bindR (zod_object (Some v)) (\<lambda>actions.
       mapR (\<lambda>(action, caveats).
         case caveats of ArrJ xs \<Rightarrow> if xs = [] then Inl LibraryThrown else Inr (action, xs) | _ \<Rightarrow> Inl LibraryThrown) actions)"

definition zod_attenuation :: "json option \<Rightarrow> (unified_error, attenuation) result" where
  "zod_attenuation v =
     bindR (zod_object v) (\<lambda>resources.
       mapR (\<lambda>(resource, actions). bindR (zod_actions actions) (\<lambda>acts. Inr (resource, acts))) resources)"

text \<open>The header has one free member, the public key of \<open>jwk.x\<close>.\<close>

definition CompactHeaderSchema :: "json \<Rightarrow> (unified_error, ustring) result" where
  "CompactHeaderSchema v =
     bindR (zod_object (Some v)) (\<lambda>fs.
     bindR (zod_strict fs [''alg'', ''jwk'', ''typ'', ''ucv'']) (\<lambda>_.
     bindR (zod_literal (own fs ''alg'') ''EdDSA'') (\<lambda>_.
     bindR (zod_object (own fs ''jwk'')) (\<lambda>jwk.
     bindR (zod_strict jwk [''alg'', ''crv'', ''kty'', ''x'']) (\<lambda>_.
     bindR (zod_literal (own jwk ''alg'') ''EdDSA'') (\<lambda>_.
     bindR (zod_literal (own jwk ''crv'') ''Ed25519'') (\<lambda>_.
     bindR (zod_literal (own jwk ''kty'') ''OKP'') (\<lambda>_.
     bindR (zod_text (own jwk ''x'')) (\<lambda>x.
     bindR (zod_literal (own fs ''typ'') ''JWT'') (\<lambda>_.
     bindR (zod_literal (own fs ''ucv'') ''0.10.0'') (\<lambda>_. Inr x)))))))))))"

definition CompactPayloadSchema :: "json \<Rightarrow> (unified_error, compact_payload) result" where
  "CompactPayloadSchema v =
     bindR (zod_object (Some v)) (\<lambda>fs.
     bindR (zod_strict fs [''att'', ''aud'', ''exp'', ''fct'', ''iss'', ''nbf'', ''nnc'', ''prf'']) (\<lambda>_.
     bindR (zod_attenuation (own fs ''att'')) (\<lambda>att.
     bindR (zod_text (own fs ''aud'')) (\<lambda>aud.
     bindR (zod_int (own fs ''exp'')) (\<lambda>exp.
     bindR (case own fs ''fct'' of Some (ArrJ [ObjJ claims]) \<Rightarrow> Inr claims | _ \<Rightarrow> Inl LibraryThrown) (\<lambda>fct.
     bindR (zod_text (own fs ''iss'')) (\<lambda>iss.
     bindR (zod_int (own fs ''nbf'')) (\<lambda>nbf.
     bindR (zod_text (own fs ''nnc'')) (\<lambda>nnc.
     bindR (case own fs ''prf'' of Some (ArrJ xs) \<Rightarrow> mapR (\<lambda>x. zod_text (Some x)) xs | _ \<Rightarrow> Inl LibraryThrown) (\<lambda>prf.
       Inr \<lparr>cp_att = att, cp_aud = aud, cp_exp = exp, cp_fct = fct, cp_iss = iss, cp_nbf = nbf, cp_nnc = nnc,
            cp_prf = prf\<rparr>))))))))))"

section \<open>Parsing\<close>

record compact_authorization =
  ca_authorization :: ustring
  ca_cid :: ustring
  ca_x :: ustring
  ca_payload :: compact_payload

text \<open>The checks on the parsed values, then the signature and the CID.\<close>

definition check_signed ::
  "compact_lib \<Rightarrow> ustring \<Rightarrow> ustring \<Rightarrow> bytes \<Rightarrow> bytes \<Rightarrow> ustring \<Rightarrow> ustring option \<Rightarrow> (unified_error, ustring) result" where
  "check_signed lib h p signature publicKey input expectedCid =
     (case cl_verify lib signature (signing_input h p) publicKey of
        None \<Rightarrow> Inl LibraryThrown
      | Some False \<Rightarrow> Inl (Thrown ''compact UCAN signature is invalid'')
      | Some True \<Rightarrow>
          let cid = authorization_cid lib input
          in if (case expectedCid of None \<Rightarrow> False | Some e \<Rightarrow> cid \<noteq> e)
             then Inl (Thrown ''compact UCAN CID does not match exact Authorization bytes'') else Inr cid)"

definition parseCompactUcanAuthorization ::
  "compact_lib \<Rightarrow> ustring \<Rightarrow> ustring option \<Rightarrow> (unified_error, compact_authorization) result" where
  "parseCompactUcanAuthorization lib input expectedCid =
     bindR (compact_segments input) (\<lambda>(headerSegment, payloadSegment, signatureSegment).
     bindR (decodeBase64Url headerSegment) (\<lambda>headerBytes.
     bindR (decodeBase64Url payloadSegment) (\<lambda>payloadBytes.
     bindR (decodeBase64Url signatureSegment) (\<lambda>signature.
     bindR (parse_segment lib headerBytes) (\<lambda>(headerValue, headerText).
     bindR (parse_segment lib payloadBytes) (\<lambda>(payloadValue, payloadText).
     bindR (jcs headerValue) (\<lambda>headerJcs.
     bindR (throw_if (headerJcs \<noteq> headerText) (Thrown ''compact UCAN segments are not canonical JCS'')) (\<lambda>_.
     bindR (jcs payloadValue) (\<lambda>payloadJcs.
     bindR (throw_if (payloadJcs \<noteq> payloadText) (Thrown ''compact UCAN segments are not canonical JCS'')) (\<lambda>_.
     bindR (CompactHeaderSchema headerValue) (\<lambda>x.
     bindR (CompactPayloadSchema payloadValue) (\<lambda>payload.
     bindR (throw_if (cp_exp payload \<le> cp_nbf payload) (Thrown ''compact UCAN validity is empty'')) (\<lambda>_.
     bindR (did_material lib (cp_iss payload)) (\<lambda>didMaterial.
     bindR (throw_if (\<not> ed25519_material didMaterial) (Thrown ''compact UCAN issuer must be did:key Ed25519'')) (\<lambda>_.
     bindR (decodeBase64Url x) (\<lambda>key.
     bindR (throw_if (drop 2 didMaterial \<noteq> key) (Thrown ''compact UCAN JWK does not bind issuer'')) (\<lambda>_.
     bindR (check_signed lib headerSegment payloadSegment signature (drop 2 didMaterial) input expectedCid) (\<lambda>cid.
       Inr \<lparr>ca_authorization = input, ca_cid = cid, ca_x = x, ca_payload = payload\<rparr>))))))))))))))))))"

text \<open>The other parser reads only what it needs of header and payload and does not ask for
  canonical segments.\<close>

definition signed_header_ok :: "json \<Rightarrow> bool" where
  "signed_header_ok v \<longleftrightarrow>
     (case v of
        ObjJ fs \<Rightarrow>
          (case own fs ''jwk'' of
             Some (ObjJ jwk) \<Rightarrow>
               own fs ''alg'' = Some (StrJ (ustr ''EdDSA'')) \<and> own fs ''typ'' = Some (StrJ (ustr ''JWT'')) \<and>
               own fs ''ucv'' = Some (StrJ (ustr ''0.10.0'')) \<and> own jwk ''kty'' = Some (StrJ (ustr ''OKP'')) \<and>
               own jwk ''crv'' = Some (StrJ (ustr ''Ed25519''))
           | _ \<Rightarrow> False)
      | _ \<Rightarrow> False)"

definition jwk_key :: "json \<Rightarrow> (unified_error, bytes) result" where
  "jwk_key v =
     (case v of
        ObjJ fs \<Rightarrow>
          (case own fs ''jwk'' of
             Some (ObjJ jwk) \<Rightarrow> (case own jwk ''x'' of Some (StrJ x) \<Rightarrow> decodeBase64Url x | _ \<Rightarrow> Inr [])
           | _ \<Rightarrow> Inr [])
      | _ \<Rightarrow> Inr [])"

definition parseSignedCompactUcanAttenuation ::
  "compact_lib \<Rightarrow> ustring \<Rightarrow> ustring option \<Rightarrow> (unified_error, ustring \<times> attenuation \<times> ustring \<times> ustring) result" where
  "parseSignedCompactUcanAttenuation lib input expectedCid =
     bindR (compact_segments input) (\<lambda>(headerSegment, payloadSegment, signatureSegment).
     bindR (decodeBase64Url headerSegment) (\<lambda>headerBytes.
     bindR (parse_segment lib headerBytes) (\<lambda>(headerValue, _).
     bindR (decodeBase64Url payloadSegment) (\<lambda>payloadBytes.
     bindR (parse_segment lib payloadBytes) (\<lambda>(payloadValue, _).
     let invalid = Inl (Thrown ''Authorization has an invalid signed UCAN header or issuer'')
     in if \<not> signed_header_ok headerValue then invalid
        else case payloadValue of
          ObjJ fs \<Rightarrow>
            (case own fs ''iss'' of
               Some (StrJ iss) \<Rightarrow>
                 bindR (zod_attenuation (own fs ''att'')) (\<lambda>att.
                 bindR (did_material lib iss) (\<lambda>didMaterial.
                 let publicKey = (if ed25519_material didMaterial then drop 2 didMaterial else [])
                 in bindR (jwk_key headerValue) (\<lambda>jwkKey.
                    bindR (throw_if (length publicKey \<noteq> 32 \<or> publicKey \<noteq> jwkKey)
                      (Thrown ''compact UCAN JWK does not bind issuer'')) (\<lambda>_.
                    bindR (decodeBase64Url signatureSegment) (\<lambda>signature.
                    case cl_verify lib signature (signing_input headerSegment payloadSegment) publicKey of
                      None \<Rightarrow> Inl LibraryThrown
                    | Some False \<Rightarrow> Inl (Thrown ''compact UCAN signature is invalid'')
                    | Some True \<Rightarrow>
                        (case own fs ''aud'' of
                           Some (StrJ aud) \<Rightarrow>
                             if aud = [] then Inl (Thrown ''compact UCAN signed audience is missing'')
                             else let cid = authorization_cid lib input
                                  in if (case expectedCid of None \<Rightarrow> False | Some e \<Rightarrow> cid \<noteq> e)
                                     then Inl (Thrown ''compact UCAN CID does not match exact Authorization bytes'')
                                     else Inr (cid, att, aud, iss)
                         | _ \<Rightarrow> Inl (Thrown ''compact UCAN signed audience is missing'')))))))
             | _ \<Rightarrow> invalid)
        | _ \<Rightarrow> invalid)))))"

section \<open>Signing\<close>

definition header_json :: "ustring \<Rightarrow> json" where
  "header_json x =
     ObjJ [(ustr ''alg'', StrJ (ustr ''EdDSA'')),
           (ustr ''jwk'', ObjJ [(ustr ''alg'', StrJ (ustr ''EdDSA'')), (ustr ''crv'', StrJ (ustr ''Ed25519'')),
                                (ustr ''kty'', StrJ (ustr ''OKP'')), (ustr ''x'', StrJ x)]),
           (ustr ''typ'', StrJ (ustr ''JWT'')), (ustr ''ucv'', StrJ (ustr ''0.10.0''))]"

definition attenuation_json :: "attenuation \<Rightarrow> json" where
  "attenuation_json att =
     ObjJ (map (\<lambda>(resource, actions). (resource, ObjJ (map (\<lambda>(action, caveats). (action, ArrJ caveats)) actions))) att)"

definition ucan_payload_json :: "compact_payload \<Rightarrow> json" where
  "ucan_payload_json p =
     ObjJ [(ustr ''att'', attenuation_json (cp_att p)), (ustr ''aud'', StrJ (cp_aud p)),
           (ustr ''exp'', NumJ (number_of_int (cp_exp p))), (ustr ''fct'', ArrJ [ObjJ (cp_fct p)]),
           (ustr ''iss'', StrJ (cp_iss p)), (ustr ''nbf'', NumJ (number_of_int (cp_nbf p))),
           (ustr ''nnc'', StrJ (cp_nnc p)), (ustr ''prf'', ArrJ (map StrJ (cp_prf p)))]"

definition json_segment :: "json \<Rightarrow> (unified_error, ustring) result" where
  "json_segment v = bindR (jcs v) (\<lambda>text. Inr (encodeBase64Url (textEncode text)))"

definition compact_text :: "ustring \<Rightarrow> ustring \<Rightarrow> bytes \<Rightarrow> ustring" where
  "compact_text h p signature = h @ 0x2E # p @ 0x2E # encodeBase64Url signature"

record sign_input =
  si_issuerDid :: ustring
  si_audienceDid :: ustring
  si_attenuation :: attenuation
  si_facts :: json_object
  si_proofs :: "ustring list"
  si_notBefore :: int
  si_expiresAt :: int
  si_nonce :: ustring

definition signed_payload :: "sign_input \<Rightarrow> compact_payload" where
  "signed_payload input =
     \<lparr>cp_att = si_attenuation input, cp_aud = si_audienceDid input, cp_exp = si_expiresAt input,
      cp_fct = si_facts input, cp_iss = issuer_did (si_issuerDid input), cp_nbf = si_notBefore input,
      cp_nnc = si_nonce input, cp_prf = si_proofs input\<rparr>"

text \<open>\<open>sign\<close> is the caller's signer; \<open>None\<close> when its promise is rejected.\<close>

definition signCompactUcan ::
  "compact_lib \<Rightarrow> sign_input \<Rightarrow> (bytes \<Rightarrow> bytes option) \<Rightarrow> (unified_error, compact_authorization) result" where
  "signCompactUcan lib input sign =
     bindR (did_material lib (si_issuerDid input)) (\<lambda>didMaterial.
     bindR (throw_if (\<not> ed25519_material didMaterial) (Thrown ''compact UCAN signer must be did:key Ed25519'')) (\<lambda>_.
     bindR (json_segment (header_json (encodeBase64Url (drop 2 didMaterial)))) (\<lambda>protectedSegment.
     bindR (json_segment (ucan_payload_json (signed_payload input))) (\<lambda>payloadSegment.
     case sign (signing_input protectedSegment payloadSegment) of
       None \<Rightarrow> Inl LibraryThrown
     | Some signature \<Rightarrow>
         bindR (throw_if (length signature \<noteq> 64) (Thrown ''compact Authorization signature must be Ed25519'')) (\<lambda>_.
           parseCompactUcanAuthorization lib (compact_text protectedSegment payloadSegment signature) None)))))"

definition signCompactUcanAuthorization ::
  "compact_lib \<Rightarrow> sign_input \<Rightarrow> (bytes \<Rightarrow> bytes option) \<Rightarrow> (unified_error, compact_authorization) result" where
  "signCompactUcanAuthorization lib input sign =
     bindR (throw_if (si_expiresAt input \<le> si_notBefore input \<or> fl (si_expiresAt input - si_notBefore input) > 60)
       (Thrown ''compact invocation lifetime must be between one and 60 seconds'')) (\<lambda>_. signCompactUcan lib input sign)"

definition MAX_POLICY_ROOT_SECONDS :: int where
  "MAX_POLICY_ROOT_SECONDS = 31 * 24 * 60 * 60"

definition signCompactUcanRootAuthorization ::
  "compact_lib \<Rightarrow> sign_input \<Rightarrow> (bytes \<Rightarrow> bytes option) \<Rightarrow> (unified_error, compact_authorization) result" where
  "signCompactUcanRootAuthorization lib input sign =
     bindR (throw_if (si_expiresAt input \<le> si_notBefore input \<or>
         fl (si_expiresAt input - si_notBefore input) > MAX_POLICY_ROOT_SECONDS)
       (Thrown ''compact policy root lifetime must be between one second and 31 days'')) (\<lambda>_.
       signCompactUcan lib (input\<lparr>si_proofs := []\<rparr>) sign)"


section \<open>What is accepted\<close>

lemma decodeBase64Url_iff: "decodeBase64Url val = Inr bytes \<longleftrightarrow> val \<noteq> [] \<and> val = base64UrlEncode bytes"
proof
  assume "decodeBase64Url val = Inr bytes"
  then show "val \<noteq> [] \<and> val = base64UrlEncode bytes"
    by (auto simp: decodeBase64Url_def split: if_split_asm sum.split_asm)
next
  assume v: "val \<noteq> [] \<and> val = base64UrlEncode bytes"
  have "base64_loop (base64UrlEncode bytes) 0 0 [] = Inr bytes"
    using base64_decode_encode [of bytes] by (auto simp: base64UrlDecode_def elim!: bindR_InrE split: if_split_asm)
  then show "decodeBase64Url val = Inr bytes"
    using v encode_alphabet [of bytes] base64_length [of bytes] by (auto simp: decodeBase64Url_def list_ex_iff)
qed

lemma compact_segments_iff:
  "compact_segments input = Inr (h, p, s) \<longleftrightarrow>
   input = h @ 0x2E # p @ 0x2E # s \<and> \<not> list_ex js_space input \<and> h \<noteq> [] \<and> p \<noteq> [] \<and> s \<noteq> [] \<and>
   0x2E \<notin> set h \<and> 0x2E \<notin> set p \<and> 0x2E \<notin> set s"
proof
  assume l: "compact_segments input = Inr (h, p, s)"
  then have sp: "splitOn 0x2E input = [h, p, s]" and r: "\<not> list_ex js_space input" "h \<noteq> []" "p \<noteq> []" "s \<noteq> []"
    by (auto simp: compact_segments_def split: if_split_asm list.split_asm)
  have "input = joinWith [0x2E] (splitOn 0x2E input)" by simp
  also have "\<dots> = h @ 0x2E # p @ 0x2E # s" unfolding sp by simp
  finally show "input = h @ 0x2E # p @ 0x2E # s \<and> \<not> list_ex js_space input \<and> h \<noteq> [] \<and> p \<noteq> [] \<and> s \<noteq> [] \<and>
      0x2E \<notin> set h \<and> 0x2E \<notin> set p \<and> 0x2E \<notin> set s"
    using r splitOn_no_sep [of _ "0x2E" input] unfolding sp by simp
next
  assume r: "input = h @ 0x2E # p @ 0x2E # s \<and> \<not> list_ex js_space input \<and> h \<noteq> [] \<and> p \<noteq> [] \<and> s \<noteq> [] \<and>
   0x2E \<notin> set h \<and> 0x2E \<notin> set p \<and> 0x2E \<notin> set s"
  then have "splitOn 0x2E input = [h, p, s]" by (auto simp: splitOn_append splitOn_id)
  moreover from r have "\<not> list_ex js_space input" "h \<noteq> []" "p \<noteq> []" "s \<noteq> []" by blast+
  ultimately show "compact_segments input = Inr (h, p, s)" by (simp add: compact_segments_def)
qed

lemma parse_segment_iff:
  "parse_segment lib bytes = Inr (v, t) \<longleftrightarrow> textDecode bytes = Some t \<and> cl_parse lib t = Some v"
  by (auto simp: parse_segment_def split: option.split)

lemma check_signed_iff:
  "check_signed lib h p signature key input expectedCid = Inr cid \<longleftrightarrow>
   cl_verify lib signature (signing_input h p) key = Some True \<and> cid = authorization_cid lib input \<and>
   expectedCid \<in> {None, Some cid}"
  by (auto simp: check_signed_def Let_def split: option.split bool.split)

text \<open>A segment carries the canonical text of a value, possibly behind a byte order mark, which
  the decoder drops before the texts are compared.\<close>

definition carries :: "compact_lib \<Rightarrow> ustring \<Rightarrow> json \<Rightarrow> bool" where
  "carries lib segment v \<longleftrightarrow>
     json_ok v \<and> cl_parse lib (serialize v) = Some v \<and> segment \<noteq> [] \<and>
     (\<exists>bytes. segment = base64UrlEncode bytes \<and> textDecode bytes = Some (serialize v))"

definition ucan_accepted :: "compact_lib \<Rightarrow> compact_authorization \<Rightarrow> bool" where
  "ucan_accepted lib u \<longleftrightarrow>
     (\<exists>h p signature headerValue payloadValue key.
        ca_authorization u = compact_text h p signature \<and> signature \<noteq> [] \<and>
        carries lib h headerValue \<and> CompactHeaderSchema headerValue = Inr (ca_x u) \<and>
        carries lib p payloadValue \<and> CompactPayloadSchema payloadValue = Inr (ca_payload u) \<and>
        did_material lib (cp_iss (ca_payload u)) = Inr ([0xED, 0x01] @ key) \<and> length key = 32 \<and>
        ca_x u = base64UrlEncode key \<and>
        cl_verify lib signature (signing_input h p) key = Some True) \<and>
     cp_nbf (ca_payload u) < cp_exp (ca_payload u) \<and>
     ca_cid u = authorization_cid lib (ca_authorization u)"

lemma alphabet_plain: "u \<in> set BASE64URL_ALPHABET \<Longrightarrow> u \<noteq> 0x2E \<and> \<not> js_space u"
proof -
  have "list_all (\<lambda>u. u \<noteq> 0x2E \<and> \<not> js_space u) BASE64URL_ALPHABET"
    by code_simp
  then show "u \<in> set BASE64URL_ALPHABET \<Longrightarrow> u \<noteq> 0x2E \<and> \<not> js_space u" by (auto simp: list_all_iff)
qed

lemma encoded_plain: "0x2E \<notin> set (base64UrlEncode bytes)" "\<not> list_ex js_space (base64UrlEncode bytes)"
  using encode_alphabet [of bytes] alphabet_plain by (auto simp: list_ex_iff)

lemma encode_not_Nil: "base64UrlEncode bytes = [] \<longleftrightarrow> bytes = []"
  by (induction bytes rule: base64UrlEncode.induct) (simp_all add: Let_def)

lemma ed25519_material_iff: "ed25519_material m \<longleftrightarrow> (\<exists>key. m = [0xED, 0x01] @ key \<and> length key = 32)"
proof
  assume "ed25519_material m"
  then have "m = [0xED, 0x01] @ drop 2 m" "length (drop 2 m) = 32"
    by (simp_all add: ed25519_material_def) (metis append_Cons append_Nil append_take_drop_id)
  then show "\<exists>key. m = [0xED, 0x01] @ key \<and> length key = 32" by blast
qed (auto simp: ed25519_material_def)

lemma parseCompact_iff:
  "parseCompactUcanAuthorization lib input expectedCid = Inr u \<longleftrightarrow>
   ca_authorization u = input \<and> ucan_accepted lib u \<and> expectedCid \<in> {None, Some (ca_cid u)}"
  (is "?l \<longleftrightarrow> ?r")
proof
  assume ?l
  then obtain h p s hb pb signature hv ht pv pt m key where
      seg: "compact_segments input = Inr (h, p, s)"
      "decodeBase64Url h = Inr hb" "decodeBase64Url p = Inr pb" "decodeBase64Url s = Inr signature"
      "parse_segment lib hb = Inr (hv, ht)" "parse_segment lib pb = Inr (pv, pt)"
    and c: "jcs hv = Inr ht" "jcs pv = Inr pt"
      "CompactHeaderSchema hv = Inr (ca_x u)" "CompactPayloadSchema pv = Inr (ca_payload u)"
      "cp_nbf (ca_payload u) < cp_exp (ca_payload u)"
      "did_material lib (cp_iss (ca_payload u)) = Inr m" "ed25519_material m"
      "decodeBase64Url (ca_x u) = Inr key" "drop 2 m = key"
      "check_signed lib h p signature (drop 2 m) input expectedCid = Inr (ca_cid u)"
    and u: "ca_authorization u = input"
    unfolding parseCompactUcanAuthorization_def
    by (elim bindR_InrE) (auto elim!: bindR_InrE simp: throw_if_Inr_iff)
  from c(7) obtain k where k: "m = [0xED, 0x01] @ k" "length k = 32" by (auto simp: ed25519_material_iff)
  have "carries lib h hv" "carries lib p pv"
    using seg c(1,2) unfolding carries_def decodeBase64Url_iff parse_segment_iff jcs_iff by auto
  moreover have "input = compact_text h p signature" "signature \<noteq> []"
    using seg(1,4) unfolding compact_segments_iff decodeBase64Url_iff compact_text_def encodeBase64Url_def
    by (auto simp: encode_not_Nil)
  moreover have "cl_verify lib signature (signing_input h p) k = Some True" "ca_cid u = authorization_cid lib input"
      "expectedCid \<in> {None, Some (ca_cid u)}" "ca_x u = base64UrlEncode k"
    using c(8,9,10) k unfolding check_signed_iff decodeBase64Url_iff by auto
  moreover have "did_material lib (cp_iss (ca_payload u)) = Inr ([0xED, 0x01] @ k)" using c(6) k by simp
  ultimately show ?r
    using c(3-5) k(2) u unfolding ucan_accepted_def
    by (intro conjI exI [of _ h] exI [of _ p] exI [of _ signature] exI [of _ hv] exI [of _ pv] exI [of _ k]) simp_all
next
  assume r: ?r
  then obtain h p signature hv pv key where a: "input = compact_text h p signature" "signature \<noteq> []"
      "carries lib h hv" "CompactHeaderSchema hv = Inr (ca_x u)"
      "carries lib p pv" "CompactPayloadSchema pv = Inr (ca_payload u)"
      "did_material lib (cp_iss (ca_payload u)) = Inr ([0xED, 0x01] @ key)" "length key = 32"
      "ca_x u = base64UrlEncode key" "cl_verify lib signature (signing_input h p) key = Some True"
      "cp_nbf (ca_payload u) < cp_exp (ca_payload u)" "ca_cid u = authorization_cid lib input"
    unfolding ucan_accepted_def by auto
  from a(3,5) obtain hb pb where b: "h = base64UrlEncode hb" "textDecode hb = Some (serialize hv)"
    "p = base64UrlEncode pb" "textDecode pb = Some (serialize pv)" "h \<noteq> []" "p \<noteq> []"
    unfolding carries_def by blast
  let ?s = "base64UrlEncode signature"
  have "compact_segments input = Inr (h, p, ?s)"
    unfolding compact_segments_iff a(1) compact_text_def encodeBase64Url_def
    using b(1,3,5,6) a(2) encoded_plain by (auto simp: encode_not_Nil js_space_def)
  moreover have "decodeBase64Url h = Inr hb" "decodeBase64Url p = Inr pb" "decodeBase64Url ?s = Inr signature"
    "decodeBase64Url (ca_x u) = Inr key"
    using b a(2,8,9) unfolding decodeBase64Url_iff by (auto simp: encode_not_Nil)
  moreover have "parse_segment lib hb = Inr (hv, serialize hv)" "parse_segment lib pb = Inr (pv, serialize pv)"
    "jcs hv = Inr (serialize hv)" "jcs pv = Inr (serialize pv)"
    using b a(3,5) unfolding parse_segment_iff jcs_iff carries_def by auto
  moreover have "ed25519_material ([0xED, 0x01] @ key)" using a(8) by (auto simp: ed25519_material_iff)
  moreover have "check_signed lib h p signature key input expectedCid = Inr (ca_cid u)"
    using r a(10,12) unfolding check_signed_iff by simp
  ultimately show ?l
    using a(4,6,7,11) r by (simp add: parseCompactUcanAuthorization_def throw_if_def)
qed

section \<open>What is signed parses\<close>

definition payload_ok :: "compact_payload \<Rightarrow> bool" where
  "payload_ok p \<longleftrightarrow>
     cp_aud p \<noteq> [] \<and> cp_iss p \<noteq> [] \<and> cp_nnc p \<noteq> [] \<and> [] \<notin> set (cp_prf p) \<and>
     fl (cp_nbf p) = cp_nbf p \<and> fl (cp_exp p) = cp_exp p \<and>
     list_all (\<lambda>(resource, actions). list_all (\<lambda>(action, caveats). caveats \<noteq> []) actions) (cp_att p)"

lemmas zod_defs = zod_strict_def zod_literal_def zod_object_def zod_text_def zod_int_def

lemma header_schema [simp]: "x \<noteq> [] \<Longrightarrow> CompactHeaderSchema (header_json x) = Inr x"
  by (simp add: CompactHeaderSchema_def header_json_def zod_defs ustr_lookup ustr_inject throw_if_def)

lemma zod_text_iff: "zod_text v = Inr s \<longleftrightarrow> v = Some (StrJ s) \<and> s \<noteq> []"
  by (auto simp: zod_text_def split: option.split json.split)

lemma zod_texts: "mapR (\<lambda>x. zod_text (Some x)) xs = Inr ys \<longleftrightarrow> xs = map StrJ ys \<and> [] \<notin> set ys"
proof -
  have "zod_text (Some x) = Inr y \<longleftrightarrow> x = StrJ y \<and> y \<noteq> []" for x y by (auto simp: zod_text_def split: json.split)
  then have "mapR (\<lambda>x. zod_text (Some x)) xs = Inr ys \<longleftrightarrow> list_all2 (\<lambda>x y. x = StrJ y \<and> y \<noteq> []) xs ys"
    by (simp add: mapR_Inr_iff)
  also have "\<dots> \<longleftrightarrow> xs = map StrJ ys \<and> [] \<notin> set ys"
    by (induction xs arbitrary: ys; case_tac ys) auto
  finally show ?thesis .
qed

lemma zod_attenuation_json:
  "list_all (\<lambda>(resource, actions). list_all (\<lambda>(action, caveats). caveats \<noteq> []) actions) att \<Longrightarrow>
   zod_attenuation (Some (attenuation_json att)) = Inr att"
proof -
  have a: "zod_actions (ObjJ (map (\<lambda>(action, caveats). (action, ArrJ caveats)) actions)) = Inr actions"
    if "list_all (\<lambda>(action, caveats). caveats \<noteq> []) actions" for actions :: "(ustring \<times> json list) list"
    using that by (induction actions) (auto simp: zod_actions_def zod_object_def)
  assume "list_all (\<lambda>(resource, actions). list_all (\<lambda>(action, caveats). caveats \<noteq> []) actions) att"
  then show ?thesis
    unfolding attenuation_json_def zod_attenuation_def zod_object_def
    by (induction att) (auto simp: a)
qed

lemma payload_schema: "payload_ok p \<Longrightarrow> CompactPayloadSchema (ucan_payload_json p) = Inr p"
proof -
  assume p: "payload_ok p"
  then have "zod_attenuation (Some (attenuation_json (cp_att p))) = Inr (cp_att p)"
    "mapR (\<lambda>x. zod_text (Some x)) (map StrJ (cp_prf p)) = Inr (cp_prf p)"
    by (simp_all only: payload_ok_def zod_attenuation_json zod_texts simp_thms)
  then show ?thesis
    using p by (simp add: CompactPayloadSchema_def ucan_payload_json_def payload_ok_def zod_defs ustr_lookup ustr_inject throw_if_def
        number_int_of_int)
qed

lemma scalar_plain: "list_all (\<lambda>u. \<not> high u \<and> \<not> low u) s \<Longrightarrow> scalar_string s"
  by (induction s) (auto simp: scalar_string_def)

lemma scalar_encoded: "scalar_string (base64UrlEncode bytes)"
proof -
  have "list_all (\<lambda>u. \<not> high u \<and> \<not> low u) BASE64URL_ALPHABET" by code_simp
  then show ?thesis using encode_alphabet [of bytes] by (intro scalar_plain) (auto simp: list_all_iff)
qed

definition segment_of :: "json \<Rightarrow> ustring" where
  "segment_of v = base64UrlEncode (textEncode (serialize v))"

lemma segment_carries:
  assumes "json_ok (ObjJ fs)" and "cl_parse lib (serialize (ObjJ fs)) = Some (ObjJ fs)"
  shows "json_segment (ObjJ fs) = Inr (segment_of (ObjJ fs))" and "carries lib (segment_of (ObjJ fs)) (ObjJ fs)"
proof -
  have jcs: "jcs (ObjJ fs) = Inr (serialize (ObjJ fs))" using assms(1) by (simp only: jcs_iff simp_thms)
  then show "json_segment (ObjJ fs) = Inr (segment_of (ObjJ fs))"
    by (simp add: json_segment_def encodeBase64Url_def segment_of_def del: serialize.simps)
  obtain t where t: "serialize (ObjJ fs) = 0x7B # t" by (simp add: Let_def)
  have "scalar_string (serialize (ObjJ fs))"
    using jcs_of_raw(3) [of "ObjJ fs" "serialize (ObjJ fs)"] jcs_of_normalised [OF assms(1)] by blast
  moreover have e: "textEncode (serialize (ObjJ fs)) = 0x7B # textEncode t"
    unfolding t textEncode_def by (simp add: high_def low_def utf8_of_def)
  ultimately have "textDecode (textEncode (serialize (ObjJ fs))) = Some (serialize (ObjJ fs))"
    by (intro textDecode_textEncode) (simp_all add: BOM_def del: serialize.simps)
  then show "carries lib (segment_of (ObjJ fs)) (ObjJ fs)"
    using assms e unfolding carries_def segment_of_def by (auto simp: encode_not_Nil simp del: serialize.simps json_ok.simps)
qed

lemma issuer_principal: "principal_of (issuer_did did) = principal_of did"
proof (cases "hasChar did 0x23")
  case False
  then have "principal_of did = did" by (auto simp: principal_of_def takeWhile_eq_all_conv)
  then show ?thesis using False by (simp add: issuer_did_def principal_of_def takeWhile_append ustr_def unit_of_def)
qed (simp add: issuer_did_def)

lemma issuer_material: "did_material lib (issuer_did did) = did_material lib did"
  by (simp add: did_material_def issuer_principal)

text \<open>An authorization as it is written for a key, a payload and a signature.\<close>

definition written_ucan :: "compact_lib \<Rightarrow> bytes \<Rightarrow> compact_payload \<Rightarrow> bytes \<Rightarrow> compact_authorization" where
  "written_ucan lib k p sig =
     (let t = compact_text (segment_of (header_json (base64UrlEncode k))) (segment_of (ucan_payload_json p)) sig
      in \<lparr>ca_authorization = t, ca_cid = authorization_cid lib t, ca_x = base64UrlEncode k, ca_payload = p\<rparr>)"

lemma header_json_ok: "json_ok (header_json (base64UrlEncode k))"
  by (simp add: header_json_def allowed_key_def ustr_inject scalar_ustr scalar_encoded del: scalar_simps)

lemma written_carries:
  assumes "json_ok (ucan_payload_json p)" and "cl_parse lib (serialize (header_json (base64UrlEncode k))) = Some (header_json (base64UrlEncode k))"
    and "cl_parse lib (serialize (ucan_payload_json p)) = Some (ucan_payload_json p)"
  shows "json_segment (header_json (base64UrlEncode k)) = Inr (segment_of (header_json (base64UrlEncode k)))"
    and "carries lib (segment_of (header_json (base64UrlEncode k))) (header_json (base64UrlEncode k))"
    and "json_segment (ucan_payload_json p) = Inr (segment_of (ucan_payload_json p))"
    and "carries lib (segment_of (ucan_payload_json p)) (ucan_payload_json p)"
proof -
  obtain hf pf where o: "header_json (base64UrlEncode k) = ObjJ hf" "ucan_payload_json p = ObjJ pf"
    by (simp add: header_json_def ucan_payload_json_def)
  show "json_segment (header_json (base64UrlEncode k)) = Inr (segment_of (header_json (base64UrlEncode k)))"
    and "carries lib (segment_of (header_json (base64UrlEncode k))) (header_json (base64UrlEncode k))"
    and "json_segment (ucan_payload_json p) = Inr (segment_of (ucan_payload_json p))"
    and "carries lib (segment_of (ucan_payload_json p)) (ucan_payload_json p)"
    using segment_carries [of hf lib] segment_carries [of pf lib] header_json_ok [of k] assms unfolding o by blast+
qed

lemma written_accepted:
  assumes key: "did_material lib (cp_iss p) = Inr ([0xED, 0x01] @ k)" "length k = 32"
    and payload: "payload_ok p" "json_ok (ucan_payload_json p)" "cp_nbf p < cp_exp p"
    and parse: "cl_parse lib (serialize (header_json (base64UrlEncode k))) = Some (header_json (base64UrlEncode k))"
      "cl_parse lib (serialize (ucan_payload_json p)) = Some (ucan_payload_json p)"
    and sign: "sig \<noteq> []"
      "cl_verify lib sig (signing_input (segment_of (header_json (base64UrlEncode k))) (segment_of (ucan_payload_json p))) k = Some True"
  shows "ucan_accepted lib (written_ucan lib k p sig)"
proof -
  let ?h = "header_json (base64UrlEncode k)"
  have "base64UrlEncode k \<noteq> []" using key(2) by (auto simp: encode_not_Nil)
  then show ?thesis
    unfolding ucan_accepted_def written_ucan_def Let_def
    using written_carries [OF payload(2) parse] payload_schema [OF payload(1)] key payload(3) sign
    by (intro conjI exI [of _ "segment_of ?h"] exI [of _ "segment_of (ucan_payload_json p)"] exI [of _ sig] exI [of _ ?h]
        exI [of _ "ucan_payload_json p"] exI [of _ k]) simp_all
qed

text \<open>C23: What signCompactUcan signs it can read back: for a did:key Ed25519 issuer, a well-formed
  payload with a non-empty window, a signer whose 64 bytes verify, and JSON.parse reading the
  two canonical texts back as the values that were written, an authorization is returned, its
  payload is the payload that was signed, and parsing its text again with its CID gives it back.\<close>

theorem signed_ucan_parses:
  assumes key: "did_material lib (si_issuerDid input) = Inr m" "ed25519_material m"
    and payload: "payload_ok (signed_payload input)" "json_ok (ucan_payload_json (signed_payload input))"
      "si_notBefore input < si_expiresAt input"
    and parse: "cl_parse lib (serialize (header_json (base64UrlEncode (drop 2 m)))) = Some (header_json (base64UrlEncode (drop 2 m)))"
      "cl_parse lib (serialize (ucan_payload_json (signed_payload input))) = Some (ucan_payload_json (signed_payload input))"
    and sign: "sign (signing_input (segment_of (header_json (base64UrlEncode (drop 2 m)))) (segment_of (ucan_payload_json (signed_payload input)))) = Some sig"
      "length sig = 64"
      "cl_verify lib sig (signing_input (segment_of (header_json (base64UrlEncode (drop 2 m)))) (segment_of (ucan_payload_json (signed_payload input)))) (drop 2 m) = Some True"
  shows "\<exists>u. signCompactUcan lib input sign = Inr u \<and> ca_payload u = signed_payload input \<and>
    parseCompactUcanAuthorization lib (ca_authorization u) (Some (ca_cid u)) = Inr u"
proof -
  let ?p = "signed_payload input"
  obtain k where k: "m = [0xED, 0x01] @ k" "length k = 32" using key(2) by (auto simp: ed25519_material_iff)
  define u where "u = written_ucan lib k ?p sig"
  have "sig \<noteq> []" using sign(2) by auto
  with k have "ucan_accepted lib u"
    unfolding u_def using key(1) payload parse sign(3)
    by (intro written_accepted) (simp_all add: signed_payload_def issuer_material)
  then have parsed: "parseCompactUcanAuthorization lib (ca_authorization u) e = Inr u" if "e \<in> {None, Some (ca_cid u)}" for e
    unfolding parseCompact_iff using that by simp
  have "signCompactUcan lib input sign = Inr u"
    using key written_carries [OF payload(2), of lib k] parse sign(1,2) k parsed [of None]
    by (simp add: signCompactUcan_def throw_if_def encodeBase64Url_def u_def written_ucan_def Let_def)
  then show ?thesis using parsed [of "Some (ca_cid u)"] by (auto simp: u_def written_ucan_def Let_def)
qed


section \<open>What is accepted, spelled out\<close>

text \<open>The same in terms of the bytes and members of the text: base64url is the alphabet over groups of
  six bits; a segment is the canonical text of an object that \<open>JSON.parse\<close> reads back, and the
  bytes may start with a byte order mark, which the check for canonical segments does not see, as
  the decoder drops it.\<close>

definition six_bit_text :: "bytes \<Rightarrow> ustring" where
  "six_bit_text b = map base64_group (groups 6 (byte_bits b))"

definition segment_says :: "compact_lib \<Rightarrow> ustring \<Rightarrow> json_object \<Rightarrow> bool" where
  "segment_says lib segment fs \<longleftrightarrow>
     json_ok (ObjJ fs) \<and> cl_parse lib (serialize (ObjJ fs)) = Some (ObjJ fs) \<and>
     (\<exists>mark. mark \<in> {[], [0xEF, 0xBB, 0xBF]} \<and> segment = six_bit_text (mark @ textEncode (serialize (ObjJ fs))))"

definition header_says :: "json_object \<Rightarrow> ustring \<Rightarrow> bool" where
  "header_says fs x \<longleftrightarrow>
     fst ` set fs \<subseteq> {ustr ''alg'', ustr ''jwk'', ustr ''typ'', ustr ''ucv''} \<and>
     own fs ''alg'' = Some (StrJ (ustr ''EdDSA'')) \<and> own fs ''typ'' = Some (StrJ (ustr ''JWT'')) \<and>
     own fs ''ucv'' = Some (StrJ (ustr ''0.10.0'')) \<and>
     (\<exists>jwk. own fs ''jwk'' = Some (ObjJ jwk) \<and>
        fst ` set jwk \<subseteq> {ustr ''alg'', ustr ''crv'', ustr ''kty'', ustr ''x''} \<and>
        own jwk ''alg'' = Some (StrJ (ustr ''EdDSA'')) \<and> own jwk ''crv'' = Some (StrJ (ustr ''Ed25519'')) \<and>
        own jwk ''kty'' = Some (StrJ (ustr ''OKP'')) \<and> own jwk ''x'' = Some (StrJ x))"

definition payload_says :: "json_object \<Rightarrow> compact_payload \<Rightarrow> bool" where
  "payload_says fs p \<longleftrightarrow>
     fst ` set fs \<subseteq> {ustr ''att'', ustr ''aud'', ustr ''exp'', ustr ''fct'', ustr ''iss'', ustr ''nbf'', ustr ''nnc'', ustr ''prf''} \<and>
     own fs ''att'' = Some (ObjJ (map (\<lambda>(resource, actions).
       (resource, ObjJ (map (\<lambda>(action, caveats). (action, ArrJ caveats)) actions))) (cp_att p))) \<and>
     (\<forall>resource actions action caveats.
        (resource, actions) \<in> set (cp_att p) \<and> (action, caveats) \<in> set actions \<longrightarrow> caveats \<noteq> []) \<and>
     own fs ''aud'' = Some (StrJ (cp_aud p)) \<and> cp_aud p \<noteq> [] \<and>
     (\<exists>n. own fs ''exp'' = Some (NumJ n) \<and> number_int n = Some (cp_exp p)) \<and>
     own fs ''fct'' = Some (ArrJ [ObjJ (cp_fct p)]) \<and>
     own fs ''iss'' = Some (StrJ (cp_iss p)) \<and> cp_iss p \<noteq> [] \<and>
     (\<exists>n. own fs ''nbf'' = Some (NumJ n) \<and> number_int n = Some (cp_nbf p)) \<and>
     own fs ''nnc'' = Some (StrJ (cp_nnc p)) \<and> cp_nnc p \<noteq> [] \<and>
     own fs ''prf'' = Some (ArrJ (map StrJ (cp_prf p))) \<and> [] \<notin> set (cp_prf p)"

lemma six_bit_encode: "six_bit_text b = base64UrlEncode b"
  by (simp add: six_bit_text_def base64_groups)

lemma zod_iffs:
  "zod_strict fs keys = Inr u \<longleftrightarrow> fst ` set fs \<subseteq> ustr ` set keys"
  "zod_literal v text = Inr u \<longleftrightarrow> v = Some (StrJ (ustr text))"
  "zod_object v = Inr fs \<longleftrightarrow> v = Some (ObjJ fs)"
  "zod_int v = Inr i \<longleftrightarrow> (\<exists>n. v = Some (NumJ n) \<and> number_int n = Some i)"
  by (auto simp: zod_defs throw_if_def list_ex_iff split: option.split json.split)

lemma zod_attenuation_iff:
  "zod_attenuation v = Inr att \<longleftrightarrow> v = Some (attenuation_json att) \<and>
     list_all (\<lambda>(resource, actions). list_all (\<lambda>(action, caveats). caveats \<noteq> []) actions) att"
proof
  have c: "mapR (\<lambda>(action, caveats). case caveats of ArrJ xs \<Rightarrow> if xs = [] then Inl LibraryThrown else Inr (action, xs) | _ \<Rightarrow> Inl LibraryThrown) fs =
      Inr acts \<Longrightarrow> fs = map (\<lambda>(action, caveats). (action, ArrJ caveats)) acts \<and> list_all (\<lambda>(action, caveats). caveats \<noteq> []) acts"
    for fs :: json_object and acts :: "(ustring \<times> json list) list"
    by (induction fs arbitrary: acts) (auto elim!: bindR_InrE split: json.split_asm if_split_asm)
  have a: "zod_actions w = Inr acts \<Longrightarrow>
      w = ObjJ (map (\<lambda>(action, caveats). (action, ArrJ caveats)) acts) \<and> list_all (\<lambda>(action, caveats). caveats \<noteq> []) acts"
    for w acts by (auto simp: zod_actions_def zod_iffs elim!: bindR_InrE dest!: c)
  have r: "mapR (\<lambda>(resource, actions). bindR (zod_actions actions) (\<lambda>acts. Inr (resource, acts))) fs = Inr att \<Longrightarrow>
      fs = map (\<lambda>(resource, actions). (resource, ObjJ (map (\<lambda>(action, caveats). (action, ArrJ caveats)) actions))) att \<and>
      list_all (\<lambda>(resource, actions). list_all (\<lambda>(action, caveats). caveats \<noteq> []) actions) att" for fs
    by (induction fs arbitrary: att) (auto elim!: bindR_InrE dest!: a)
  show "zod_attenuation v = Inr att \<Longrightarrow> v = Some (attenuation_json att) \<and>
     list_all (\<lambda>(resource, actions). list_all (\<lambda>(action, caveats). caveats \<noteq> []) actions) att"
    by (auto simp: zod_attenuation_def attenuation_json_def zod_iffs elim!: bindR_InrE dest!: r)
qed (simp add: zod_attenuation_json)

lemma header_schema_iff: "CompactHeaderSchema v = Inr x \<longleftrightarrow> x \<noteq> [] \<and> (\<exists>fs. v = ObjJ fs \<and> header_says fs x)"
  by (auto simp: CompactHeaderSchema_def header_says_def bindR_Inr_iff zod_iffs zod_text_iff)

lemma payload_schema_iff: "CompactPayloadSchema v = Inr p \<longleftrightarrow> (\<exists>fs. v = ObjJ fs \<and> payload_says fs p)"
proof -
  have f: "(case w of Some (ArrJ [ObjJ claims]) \<Rightarrow> Inr claims | _ \<Rightarrow> Inl LibraryThrown) = (Inr claims :: (unified_error, json_object) result) \<longleftrightarrow>
      w = Some (ArrJ [ObjJ claims])" for w claims by (auto split: option.split json.split list.split)
  have t: "(case w of Some (ArrJ xs) \<Rightarrow> mapR (\<lambda>x. zod_text (Some x)) xs | _ \<Rightarrow> Inl LibraryThrown) = Inr ys \<longleftrightarrow>
      w = Some (ArrJ (map StrJ ys)) \<and> [] \<notin> set ys" for w ys by (auto simp: zod_texts split: option.split json.split)
  have n: "list_all (\<lambda>(resource, actions). list_all (\<lambda>(action, caveats). caveats \<noteq> []) actions) att \<longleftrightarrow>
      (\<forall>resource actions action caveats. (resource, actions) \<in> set att \<and> (action, caveats) \<in> set actions \<longrightarrow> caveats \<noteq> [])"
    for att :: attenuation by (fastforce simp: list_all_iff)
  show ?thesis
    by (cases p) (auto simp: CompactPayloadSchema_def payload_says_def bindR_Inr_iff zod_iffs zod_text_iff zod_attenuation_iff f t
      n [symmetric] attenuation_json_def)
qed

lemma carries_object: "carries lib segment (ObjJ fs) \<longleftrightarrow> segment_says lib segment fs"
proof (cases "json_ok (ObjJ fs)")
  case True
  obtain t where t: "serialize (ObjJ fs) = 0x7B # t" by (simp add: Let_def)
  have s: "scalar_string (serialize (ObjJ fs))"
    using jcs_of_raw(3) [of "ObjJ fs" "serialize (ObjJ fs)"] jcs_of_normalised [OF True] by blast
  have e: "textEncode (serialize (ObjJ fs)) = 0x7B # textEncode t"
    unfolding t textEncode_def by (simp add: high_def low_def utf8_of_def)
  have d: "textDecode b = Some (serialize (ObjJ fs)) \<longleftrightarrow>
      (\<exists>mark. mark \<in> {[], [0xEF, 0xBB, 0xBF]} \<and> b = mark @ textEncode (serialize (ObjJ fs)))" for b
    unfolding textDecode_iff using s by (auto simp: BOM_def e simp del: serialize.simps)
  have "segment \<noteq> []" if "segment = base64UrlEncode (mark @ textEncode (serialize (ObjJ fs)))" for mark
    unfolding that by (simp add: e encode_not_Nil del: serialize.simps)
  then show ?thesis unfolding carries_def segment_says_def six_bit_encode d by blast
qed (simp add: carries_def segment_says_def del: serialize.simps json_ok.simps)

lemma material_iff:
  "did_material lib did = Inr ([0xED, 0x01] @ key) \<longleftrightarrow>
   (\<exists>i. takeWhile (\<lambda>u. u \<noteq> 0x23) did = ustr ''did:key:'' @ i \<and> cl_base58 lib i = Some ([0xED, 0x01] @ key))"
  by (auto simp: did_material_def principal_of_def DID_KEY_def prefix_def split: option.splits)

text \<open>C6: Which authorizations parseCompactUcanAuthorization accepts, exactly: three base64url segments
  joined by dots, the first two the canonical text of an object (possibly behind a byte order
  mark, which the code's check for canonical segments lets through); a header with the four
  constant members, whose \<open>jwk\<close> holds the base64url of a 32-byte key and nothing else free; a
  payload with the eight members, every caveat list, audience, issuer, nonce and proof non-empty and
  its window not empty; an issuer whose did:key, up to the fragment, is that key behind the Ed25519
  prefix; a signature of that key, by the library, over the first two segments as they stand; and
  the raw BLAKE3 CID of the exact text, which must be the expected one when there is one.\<close>

theorem compact_ucan_accepted:
  "parseCompactUcanAuthorization lib input expectedCid = Inr u \<longleftrightarrow>
   (\<exists>h p signature header claims i key.
      input = h @ [0x2E] @ p @ [0x2E] @ six_bit_text signature \<and> signature \<noteq> [] \<and>
      segment_says lib h header \<and> header_says header (six_bit_text key) \<and>
      segment_says lib p claims \<and> payload_says claims (ca_payload u) \<and>
      cp_nbf (ca_payload u) < cp_exp (ca_payload u) \<and>
      takeWhile (\<lambda>c. c \<noteq> 0x23) (cp_iss (ca_payload u)) = ustr ''did:key:'' @ i \<and>
      cl_base58 lib i = Some ([0xED, 0x01] @ key) \<and> length key = 32 \<and>
      cl_verify lib signature (textEncode (h @ [0x2E] @ p)) key = Some True \<and>
      ca_x u = six_bit_text key) \<and>
   ca_authorization u = input \<and> ca_cid u = cl_cidV1 lib 0x55 0x1E (cl_blake3 lib (textEncode input)) \<and>
   (expectedCid = None \<or> expectedCid = Some (ca_cid u))"
  (is "_ \<longleftrightarrow> ?signed \<and> ?text")
proof
  assume "parseCompactUcanAuthorization lib input expectedCid = Inr u"
  then have i: "ca_authorization u = input" and a: "ucan_accepted lib u" and e: "expectedCid = None \<or> expectedCid = Some (ca_cid u)"
    unfolding parseCompact_iff by auto
  from a obtain h p signature hv pv key where
      s: "ca_authorization u = compact_text h p signature" "signature \<noteq> []"
      "carries lib h hv" "CompactHeaderSchema hv = Inr (ca_x u)" "carries lib p pv" "CompactPayloadSchema pv = Inr (ca_payload u)"
      "did_material lib (cp_iss (ca_payload u)) = Inr ([0xED, 0x01] @ key)" "length key = 32" "ca_x u = base64UrlEncode key"
      "cl_verify lib signature (signing_input h p) key = Some True" "cp_nbf (ca_payload u) < cp_exp (ca_payload u)"
      "ca_cid u = authorization_cid lib (ca_authorization u)"
    unfolding ucan_accepted_def by blast
  obtain header claims where o: "hv = ObjJ header" "header_says header (ca_x u)" "pv = ObjJ claims" "payload_says claims (ca_payload u)"
    using s(4,6) unfolding header_schema_iff payload_schema_iff by blast
  obtain d where d: "takeWhile (\<lambda>c. c \<noteq> 0x23) (cp_iss (ca_payload u)) = ustr ''did:key:'' @ d" "cl_base58 lib d = Some ([0xED, 0x01] @ key)"
    using s(7) unfolding material_iff by blast
  have ?signed
    using s(1-3,5,8-11) o d unfolding compact_text_def signing_input_def carries_object six_bit_encode encodeBase64Url_def i
    by (intro exI [of _ h] exI [of _ p] exI [of _ signature] exI [of _ header] exI [of _ claims] exI [of _ d] exI [of _ key])
      (simp add: carries_object)
  moreover have ?text using i e s(12) by (simp add: authorization_cid_def)
  ultimately show "?signed \<and> ?text" ..
next
  assume r: "?signed \<and> ?text"
  then obtain h p signature header claims d key where
      s: "input = h @ [0x2E] @ p @ [0x2E] @ six_bit_text signature" "signature \<noteq> []"
      "segment_says lib h header" "header_says header (six_bit_text key)" "segment_says lib p claims" "payload_says claims (ca_payload u)"
      "cp_nbf (ca_payload u) < cp_exp (ca_payload u)"
      "takeWhile (\<lambda>c. c \<noteq> 0x23) (cp_iss (ca_payload u)) = ustr ''did:key:'' @ d" "cl_base58 lib d = Some ([0xED, 0x01] @ key)"
      "length key = 32" "cl_verify lib signature (textEncode (h @ [0x2E] @ p)) key = Some True" "ca_x u = six_bit_text key"
    by blast
  have "ca_x u \<noteq> []" using s(10,12) by (auto simp: six_bit_encode encode_not_Nil)
  then have "CompactHeaderSchema (ObjJ header) = Inr (ca_x u)" "CompactPayloadSchema (ObjJ claims) = Inr (ca_payload u)"
    "did_material lib (cp_iss (ca_payload u)) = Inr ([0xED, 0x01] @ key)"
    using s(4,6,8,9,12) unfolding header_schema_iff payload_schema_iff material_iff by auto
  then have "ucan_accepted lib u"
    using s(1-3,5,7,10-12) r unfolding ucan_accepted_def
    by (intro conjI exI [of _ h] exI [of _ p] exI [of _ signature] exI [of _ "ObjJ header"] exI [of _ "ObjJ claims"] exI [of _ key])
      (simp_all add: carries_object compact_text_def signing_input_def six_bit_encode encodeBase64Url_def authorization_cid_def)
  then show "parseCompactUcanAuthorization lib input expectedCid = Inr u" using r unfolding parseCompact_iff by auto
qed

section \<open>The reader of the attenuation\<close>

lemma header_schemaD: "CompactHeaderSchema v = Inr x \<Longrightarrow> signed_header_ok v \<and> jwk_key v = decodeBase64Url x"
  unfolding CompactHeaderSchema_def
  by (elim bindR_InrE)
    (auto simp: zod_defs signed_header_ok_def jwk_key_def throw_if_Inr_iff split: option.split_asm json.split_asm if_split_asm)

lemma payload_schemaD:
  "CompactPayloadSchema v = Inr p \<Longrightarrow>
   \<exists>fs. v = ObjJ fs \<and> zod_attenuation (own fs ''att'') = Inr (cp_att p) \<and>
     own fs ''aud'' = Some (StrJ (cp_aud p)) \<and> cp_aud p \<noteq> [] \<and> own fs ''iss'' = Some (StrJ (cp_iss p)) \<and>
     zod_int (own fs ''exp'') = Inr (cp_exp p) \<and> zod_int (own fs ''nbf'') = Inr (cp_nbf p) \<and>
     own fs ''fct'' = Some (ArrJ [ObjJ (cp_fct p)]) \<and> own fs ''nnc'' = Some (StrJ (cp_nnc p)) \<and>
     own fs ''prf'' = Some (ArrJ (map StrJ (cp_prf p)))"
  unfolding CompactPayloadSchema_def
  by (elim bindR_InrE)
    (auto simp: zod_object_def zod_text_iff zod_texts split: option.split_asm json.split_asm list.split_asm if_split_asm)

text \<open>The two readers agree: whatever parseCompactUcanAuthorization accepts,
  parseSignedCompactUcanAttenuation accepts too, with the same CID, attenuation, audience and
  issuer. (The converse fails: it takes segments that are not canonical.)\<close>

theorem attenuation_reader_agrees:
  assumes "parseCompactUcanAuthorization lib input expectedCid = Inr u"
  shows "parseSignedCompactUcanAttenuation lib input expectedCid =
    Inr (ca_cid u, cp_att (ca_payload u), cp_aud (ca_payload u), cp_iss (ca_payload u))"
proof -
  from assms obtain h p s hb pb signature hv ht pv pt m where
      seg: "compact_segments input = Inr (h, p, s)"
      "decodeBase64Url h = Inr hb" "decodeBase64Url p = Inr pb" "decodeBase64Url s = Inr signature"
      "parse_segment lib hb = Inr (hv, ht)" "parse_segment lib pb = Inr (pv, pt)"
    and c: "CompactHeaderSchema hv = Inr (ca_x u)" "CompactPayloadSchema pv = Inr (ca_payload u)"
      "did_material lib (cp_iss (ca_payload u)) = Inr m" "ed25519_material m"
      "decodeBase64Url (ca_x u) = Inr (drop 2 m)"
      "check_signed lib h p signature (drop 2 m) input expectedCid = Inr (ca_cid u)"
    unfolding parseCompactUcanAuthorization_def
    by (elim bindR_InrE) (auto elim!: bindR_InrE simp: throw_if_Inr_iff)
  from payload_schemaD [OF c(2)] obtain fs where fs: "pv = ObjJ fs" "zod_attenuation (own fs ''att'') = Inr (cp_att (ca_payload u))"
    "own fs ''aud'' = Some (StrJ (cp_aud (ca_payload u)))" "cp_aud (ca_payload u) \<noteq> []"
    "own fs ''iss'' = Some (StrJ (cp_iss (ca_payload u)))" by blast
  have "length m = 34" using c(4) by (simp add: ed25519_material_def)
  with seg c fs header_schemaD [OF c(1)] show ?thesis
    unfolding check_signed_iff
    by (auto simp: parseSignedCompactUcanAttenuation_def Let_def throw_if_def)
qed

section \<open>Samples\<close>

definition ucan_material :: bytes where "ucan_material = [0xED, 0x01] @ replicate 32 7"

definition ucan_did :: ustring where "ucan_did = ustr ''did:key:z6A''"

definition ucan_input :: sign_input where
  "ucan_input =
     \<lparr>si_issuerDid = ucan_did, si_audienceDid = ustr ''did:key:z6B'',
      si_attenuation = [(ustr ''tinycloud:s/kv/docs'', [(ustr ''tinycloud.kv/get'', [ObjJ []])])],
      si_facts = [(ustr ''remainingRedelegationDepth'', NumJ (number_of_int 2))], si_proofs = [],
      si_notBefore = 100, si_expiresAt = 160, si_nonce = ustr ''n''\<rparr>"

definition ucan_header :: json where "ucan_header = header_json (base64UrlEncode (drop 2 ucan_material))"
definition ucan_claims :: json where "ucan_claims = ucan_payload_json (signed_payload ucan_input)"

definition ucan_lib :: compact_lib where
  "ucan_lib =
     \<lparr>cl_sha256 = (\<lambda>b. take 32 (b @ replicate 32 0)), cl_blake3 = (\<lambda>b. take 32 (b @ replicate 32 0)),
      cl_cidV1 = (\<lambda>codec code digest. hex digest), cl_base58 = (\<lambda>_. Some ucan_material),
      cl_verify = (\<lambda>s _ k. Some (s = replicate 64 1 \<and> k = drop 2 ucan_material)),
      cl_verify_strict = (\<lambda>s _ k. Some (s = replicate 64 1 \<and> k = drop 2 ucan_material)),
      cl_publicKey = (\<lambda>_. Some (drop 2 ucan_material)), cl_sign = (\<lambda>_ _. Some (replicate 64 1)),
      cl_parse = (\<lambda>t. if t = serialize ucan_header then Some ucan_header
                       else if t = serialize ucan_claims then Some ucan_claims else None)\<rparr>"

lemma ucan_claims_ok: "json_ok ucan_claims" "payload_ok (signed_payload ucan_input)"
proof -
  have "scalar_string (issuer_did ucan_did)" "issuer_did ucan_did \<noteq> []" by code_simp+
  then show "json_ok ucan_claims"
    by (simp add: ucan_claims_def signed_payload_def ucan_payload_json_def attenuation_json_def ucan_input_def allowed_key_def
        ustr_inject scalar_ustr del: scalar_simps)
  show "payload_ok (signed_payload ucan_input)"
    using \<open>issuer_did ucan_did \<noteq> []\<close> by (simp add: payload_ok_def signed_payload_def ucan_input_def fl_exact)
qed

lemma header_not_claims: "json_ok (header_json x) \<Longrightarrow> json_ok (ucan_payload_json p) \<Longrightarrow> serialize (header_json x) \<noteq> serialize (ucan_payload_json p)"
proof
  assume ok: "json_ok (header_json x)" "json_ok (ucan_payload_json p)" and e: "serialize (header_json x) = serialize (ucan_payload_json p)"
  obtain hf pf where o: "header_json x = ObjJ hf" "ucan_payload_json p = ObjJ pf" "own hf ''att'' = None" "own pf ''att'' \<noteq> None"
    by (simp add: header_json_def ucan_payload_json_def ustr_lookup)
  from e ok have "canon_of (ObjJ hf) = canon_of (ObjJ pf)"
    unfolding o by (simp only: serialize_inject json_ok_finite)
  with o(3,4) show False unfolding canon_object_iff own_def by (metis option.map_disc_iff)
qed

lemma ucan_header_ok: "json_ok ucan_header"
  by (simp add: ucan_header_def header_json_def allowed_key_def ustr_inject scalar_ustr scalar_encoded del: scalar_simps)

lemma ucan_parses: "cl_parse ucan_lib (serialize ucan_header) = Some ucan_header" "cl_parse ucan_lib (serialize ucan_claims) = Some ucan_claims"
  using header_not_claims ucan_header_ok ucan_claims_ok(1)
  by (simp_all add: ucan_lib_def) (metis ucan_claims_def ucan_header_def)

lemma ucan_material_ok: "did_material ucan_lib ucan_did = Inr ucan_material" "ed25519_material ucan_material"
proof -
  have "startsWith (principal_of ucan_did) DID_KEY" by code_simp
  then show "did_material ucan_lib ucan_did = Inr ucan_material" by (simp add: did_material_def ucan_lib_def)
qed (simp add: ed25519_material_def ucan_material_def)

theorem signed_ucan_parses_witness:
  "\<exists>u. signCompactUcan ucan_lib ucan_input (\<lambda>_. Some (replicate 64 1)) = Inr u \<and> ca_payload u = signed_payload ucan_input \<and>
    parseCompactUcanAuthorization ucan_lib (ca_authorization u) (Some (ca_cid u)) = Inr u"
proof (rule signed_ucan_parses)
  show "did_material ucan_lib (si_issuerDid ucan_input) = Inr ucan_material" "ed25519_material ucan_material"
    using ucan_material_ok by (simp_all add: ucan_input_def)
  show "payload_ok (signed_payload ucan_input)" "json_ok (ucan_payload_json (signed_payload ucan_input))"
    using ucan_claims_ok by (simp_all add: ucan_claims_def)
  show "si_notBefore ucan_input < si_expiresAt ucan_input" by (simp add: ucan_input_def)
  show "cl_parse ucan_lib (serialize (header_json (base64UrlEncode (drop 2 ucan_material)))) =
      Some (header_json (base64UrlEncode (drop 2 ucan_material)))"
    "cl_parse ucan_lib (serialize (ucan_payload_json (signed_payload ucan_input))) = Some (ucan_payload_json (signed_payload ucan_input))"
    using ucan_parses by (simp_all only: ucan_header_def ucan_claims_def)
qed (simp_all add: ucan_lib_def)

lemma ucan_signed:
  "\<exists>u. parseCompactUcanAuthorization ucan_lib (ca_authorization u) (Some (ca_cid u)) = Inr u \<and> ca_payload u = signed_payload ucan_input"
proof -
  define u where "u = written_ucan ucan_lib (replicate 32 7) (signed_payload ucan_input) (replicate 64 1)"
  have m: "did_material ucan_lib (cp_iss (signed_payload ucan_input)) = Inr ([0xED, 0x01] @ replicate 32 7)"
    using ucan_material_ok(1) by (simp add: signed_payload_def ucan_input_def issuer_material ucan_material_def)
  have k: "drop 2 ucan_material = replicate 32 7" by (simp add: ucan_material_def)
  have "ucan_accepted ucan_lib u"
    unfolding u_def
  proof (rule written_accepted [OF m])
    show "cp_nbf (signed_payload ucan_input) < cp_exp (signed_payload ucan_input)" by (simp add: signed_payload_def ucan_input_def)
    show "cl_verify ucan_lib (replicate 64 1) (signing_input (segment_of (header_json (base64UrlEncode (replicate 32 7))))
        (segment_of (ucan_payload_json (signed_payload ucan_input)))) (replicate 32 7) = Some True"
      by (simp add: ucan_lib_def k)
  qed (use ucan_claims_ok ucan_parses in \<open>simp_all add: ucan_header_def ucan_claims_def k\<close>)
  then have "parseCompactUcanAuthorization ucan_lib (ca_authorization u) (Some (ca_cid u)) = Inr u"
    unfolding parseCompact_iff by simp
  then show ?thesis by (intro exI [of _ u]) (simp add: u_def written_ucan_def Let_def)
qed

theorem attenuation_reader_agrees_witness:
  "\<exists>input cid. parseSignedCompactUcanAttenuation ucan_lib input (Some cid) =
     Inr (cid, si_attenuation ucan_input, ustr ''did:key:z6B'', issuer_did ucan_did)"
proof -
  obtain u where u: "parseCompactUcanAuthorization ucan_lib (ca_authorization u) (Some (ca_cid u)) = Inr u"
    "ca_payload u = signed_payload ucan_input" using ucan_signed by blast
  show ?thesis
    using attenuation_reader_agrees [OF u(1)] u(2)
    by (intro exI [of _ "ca_authorization u"] exI [of _ "ca_cid u"]) (simp add: signed_payload_def ucan_input_def)
qed

end
