(* ===== verification/PolicyChain.thy ===== *)
theory PolicyChain
  imports CompactUcan
begin

text \<open>
  What is made from a policy session in \<^verbatim>\<open>packages/sdk-core/src/policy/unified.ts\<close>: its reading
  (\<open>parsePolicySessionUcan\<close>), descendants that narrow it, invocations made under it, and the
  containment of attenuations that all of them rest on.

  The lemmas show that containment of the attenuations of policy capabilities is inclusion of
  accesses, that a chain of descendants only narrows and ends, and what an invocation binds.
\<close>

section \<open>Containment of attenuations\<close>

text \<open>\<open>Object.keys\<close> and \<open>Object.entries\<close>: of two members with one name only the first is there. (They list
  names that are array indices before the others; the loops below are searches, so the order can
  only change which exception a search meets first.)\<close>

definition own_keys :: "(ustring \<times> 'a) list \<Rightarrow> ustring list" where
  "own_keys fs = dedupe (map fst fs)"

definition own_entries :: "(ustring \<times> 'a) list \<Rightarrow> (ustring \<times> 'a) list" where
  "own_entries fs = map (\<lambda>key. (key, the (map_of fs key))) (own_keys fs)"

text \<open>\<open>selector(caveats)\<close>\<close>

fun caveat_selector :: "json list \<Rightarrow> (selector \<times> ustring) option" where
  "caveat_selector [ObjJ caveat] =
     (if length (own_keys caveat) \<noteq> 3 \<or> own caveat ''type'' \<noteq> Some (StrJ SELECTOR_TYPE) then None
      else case (selector_of (own caveat ''kind''), own caveat ''value'') of
             (Some kind, Some (StrJ v)) \<Rightarrow> Some (kind, v)
           | _ \<Rightarrow> None)"
| "caveat_selector _ = None"

text \<open>What a plain object answers for a name it does not have itself: the members of
  \<open>Object.prototype\<close>. They are functions (or an object) the canonical encoder refuses.\<close>

definition OBJECT_PROTOTYPE :: "ustring list" where
  "OBJECT_PROTOTYPE = map ustr [''constructor'', ''__defineGetter__'', ''__defineSetter__'', ''hasOwnProperty'',
     ''__lookupGetter__'', ''__lookupSetter__'', ''isPrototypeOf'', ''propertyIsEnumerable'', ''toString'', ''valueOf'',
     ''__proto__'', ''toLocaleString'']"

definition caveats_equal :: "json list \<Rightarrow> json list \<Rightarrow> (unified_error, bool) result" where
  "caveats_equal left right =
     bindR (jcs (ArrJ left)) (\<lambda>l. bindR (jcs (ArrJ right)) (\<lambda>r. Inr (l = r)))"

definition selector_covers :: "ustring \<Rightarrow> json list \<Rightarrow> ustring \<Rightarrow> json list \<Rightarrow> bool" where
  "selector_covers parentResource parentCaveats childResource childCaveats \<longleftrightarrow>
     (case (caveat_selector parentCaveats, caveat_selector childCaveats) of
        (Some (PrefixOf, parentValue), Some (_, childValue)) \<Rightarrow>
          parentValue = parentResource \<and> childValue = childResource \<and>
          (childResource = parentResource \<or> startsWith childResource (parentResource @ ustr ''/''))
      | _ \<Rightarrow> False)"

definition parent_covers ::
  "ustring \<Rightarrow> ustring \<Rightarrow> json list \<Rightarrow> ustring \<times> (ustring \<times> json list) list \<Rightarrow> (unified_error, bool) result" where
  "parent_covers childResource action childCaveats parentEntry =
     (case parentEntry of (parentResource, parentActions) \<Rightarrow>
        (case map_of parentActions action of
           None \<Rightarrow>
             if action \<in> set OBJECT_PROTOTYPE \<and> parentResource = childResource
             then Inl (JcsThrown (jcs_error dollar '' is not a JSON value'')) else Inr False
         | Some parentCaveats \<Rightarrow>
             bindR (if parentResource = childResource then caveats_equal parentCaveats childCaveats else Inr False) (\<lambda>same.
               Inr (same \<or> selector_covers parentResource parentCaveats childResource childCaveats))))"

definition compactAttenuationContains :: "attenuation \<Rightarrow> attenuation \<Rightarrow> (unified_error, bool) result" where
  "compactAttenuationContains parent child =
     everyR (\<lambda>(childResource, childActions).
       everyR (\<lambda>(action, childCaveats). someR (parent_covers childResource action childCaveats) (own_entries parent))
         (own_entries childActions)) (own_entries child)"

section \<open>Policy sessions\<close>

record policy_session =
  ps_authorization :: ustring
  ps_cid :: ustring
  ps_payload :: compact_payload

definition POLICY_SESSION_UCAN_V1_PROFILE :: ustring where
  "POLICY_SESSION_UCAN_V1_PROFILE = ustr ''policy-session-ucan/v1''"

definition POLICY_SESSION_FACT_KEYS :: "ustring list" where
  "POLICY_SESSION_FACT_KEYS = map ustr [''profile'', ''ownerDid'', ''policyId'', ''policyDigestHex'', ''policyCid'',
     ''policyDelegationCid'', ''enforcementDelegationCid'', ''contentSourceDigestHex'', ''capabilityCeilingHashHex'',
     ''nativeProjectionHashHex'', ''enforcerDid'', ''nodeAudience'', ''recipientDid'', ''challengeId'', ''claimDigestHex'',
     ''claimJti'', ''vpDigestHex'', ''credentialEvidenceDigestHex'', ''decisionContextDigestHex'', ''issuanceAuditDigestHex'',
     ''remainingRedelegationDepth'']"

definition POLICY_SESSION_V4_AUDIT_FACT_KEYS :: "ustring list" where
  "POLICY_SESSION_V4_AUDIT_FACT_KEYS = map ustr [''credentialIdAuditDigestHex'', ''presentationJtiAuditDigestHex'']"

text \<open>\<open>LOWER_SHA256_HEX.test(v)\<close> turns its argument into a string first.\<close>

fun to_string :: "json \<Rightarrow> ustring" where
  "to_string NullJ = ustr ''null''"
| "to_string (BoolJ b) = (if b then ustr ''true'' else ustr ''false'')"
| "to_string (NumJ n) = ustr (number_text n)"
| "to_string (StrJ s) = s"
| "to_string (ArrJ xs) = joinWith [0x2C] (map (\<lambda>x. if x = NullJ then [] else to_string x) xs)"
| "to_string (ObjJ _) = ustr ''[object Object]''"

definition lower_sha256_hex :: "json option \<Rightarrow> bool" where
  "lower_sha256_hex v \<longleftrightarrow>
     (let s = (case v of None \<Rightarrow> ustr ''undefined'' | Some j \<Rightarrow> to_string j)
      in length s = 64 \<and> list_all (\<lambda>u. (0x30 \<le> u \<and> u \<le> 0x39) \<or> (0x61 \<le> u \<and> u \<le> 0x66)) s)"

definition hasLegacyFactShape :: "json_object \<Rightarrow> bool" where
  "hasLegacyFactShape claims \<longleftrightarrow>
     (let factKeys = own_keys claims
      in length factKeys = length POLICY_SESSION_FACT_KEYS \<and>
         list_all (\<lambda>key. key \<in> set POLICY_SESSION_FACT_KEYS) factKeys \<and>
         list_all (\<lambda>key. key \<in> set factKeys) POLICY_SESSION_FACT_KEYS)"

definition hasV4AuditFactShape :: "json_object \<Rightarrow> bool" where
  "hasV4AuditFactShape claims \<longleftrightarrow>
     (let factKeys = own_keys claims; keys = POLICY_SESSION_FACT_KEYS @ POLICY_SESSION_V4_AUDIT_FACT_KEYS
      in length factKeys = length keys \<and>
         list_all (\<lambda>key. key \<in> set keys) factKeys \<and> list_all (\<lambda>key. key \<in> set factKeys) keys)"

text \<open>\<open>Number.isInteger(v)\<close> of a member.\<close>

definition member_int :: "json option \<Rightarrow> int option" where
  "member_int v = (case v of Some (NumJ n) \<Rightarrow> number_int n | _ \<Rightarrow> None)"

definition parsePolicySessionUcan ::
  "compact_lib \<Rightarrow> ustring \<Rightarrow> (ustring \<times> ustring) option \<Rightarrow> (unified_error, policy_session) result" where
  "parsePolicySessionUcan lib authorization expectedProofs =
     bindR (parseCompactUcanAuthorization lib authorization None) (\<lambda>parsed.
     let payload = ca_payload parsed; claims = cp_fct payload
     in case cp_prf payload of
          [policyRoot, enforcementRoot] \<Rightarrow>
            bindR (throw_if (policyRoot = enforcementRoot)
              (Thrown ''policy session UCAN requires two distinct ordered proofs'')) (\<lambda>_.
            bindR (throw_if (case expectedProofs of None \<Rightarrow> False | Some e \<Rightarrow> e \<noteq> (policyRoot, enforcementRoot))
              (Thrown ''policy session UCAN ordered proofs do not match'')) (\<lambda>_.
            bindR (throw_if (\<not> hasLegacyFactShape claims \<and> \<not> hasV4AuditFactShape claims)
              (Thrown ''policy session UCAN fact is incomplete'')) (\<lambda>_.
            bindR (throw_if (hasV4AuditFactShape claims \<and>
                (\<not> lower_sha256_hex (own claims ''credentialIdAuditDigestHex'') \<or>
                 \<not> lower_sha256_hex (own claims ''presentationJtiAuditDigestHex'')))
              (Thrown ''policy session UCAN v4 audit facts are invalid'')) (\<lambda>_.
            bindR (throw_if
                (own claims ''profile'' \<noteq> Some (StrJ POLICY_SESSION_UCAN_V1_PROFILE) \<or>
                 (case member_int (own claims ''remainingRedelegationDepth'') of
                    None \<Rightarrow> True | Some depth \<Rightarrow> depth < 0 \<or> depth > 8) \<or>
                 fl (cp_exp payload - cp_nbf payload) > MAX_POLICY_ROOT_SECONDS \<or>
                 own claims ''nodeAudience'' \<noteq> Some (StrJ (principal_of (cp_iss payload))) \<or>
                 own claims ''recipientDid'' \<noteq> Some (StrJ (cp_aud payload)))
              (Thrown ''policy session UCAN fact is invalid'')) (\<lambda>_.
              Inr \<lparr>ps_authorization = authorization, ps_cid = ca_cid parsed, ps_payload = payload\<rparr>)))))
        | _ \<Rightarrow> Inl (Thrown ''policy session UCAN requires two distinct ordered proofs''))"

section \<open>Descendants\<close>

record descendant_input =
  de_parentAuthorization :: ustring
  de_parentCid :: ustring
  de_issuerDid :: ustring
  de_audienceDid :: ustring
  de_attenuation :: attenuation
  de_now :: "int option"
  de_expiresAt :: "int option"
  de_nonce :: "ustring option"

record descendant_claims =
  dc_parentCid :: ustring
  dc_fact :: json_object
  dc_notBefore :: int
  dc_expiresAt :: int
  dc_nonce :: ustring

text \<open>\<open>random\<close> is what \<open>crypto.getRandomValues\<close> fills 16 bytes with.\<close>

definition compactPolicyDescendantClaims ::
  "compact_lib \<Rightarrow> bytes \<Rightarrow> descendant_input \<Rightarrow> (unified_error, descendant_claims) result" where
  "compactPolicyDescendantClaims lib random input =
     bindR (parseCompactUcanAuthorization lib (de_parentAuthorization input) (Some (de_parentCid input))) (\<lambda>parent.
     let payload = ca_payload parent; parentFact = cp_fct payload
     in bindR (throw_if (cp_aud payload \<noteq> de_issuerDid input) (Thrown ''policy descendant issuer is not the parent audience'')) (\<lambda>_.
        case member_int (own parentFact ''remainingRedelegationDepth'') of
          None \<Rightarrow> Inl (Thrown ''policy descendant depth is exhausted'')
        | Some depth \<Rightarrow>
            bindR (throw_if (depth \<le> 0) (Thrown ''policy descendant depth is exhausted'')) (\<lambda>_.
            bindR (compactAttenuationContains (cp_att payload) (de_attenuation input)) (\<lambda>contained.
            bindR (throw_if (\<not> contained) (Thrown ''policy descendant exceeds the parent attenuation'')) (\<lambda>_.
            let earliest = fl (cp_nbf payload + 1); latest = fl (cp_exp payload - 1);
                now = max (case de_now input of None \<Rightarrow> earliest | Some n \<Rightarrow> n) earliest;
                exp = min (case de_expiresAt input of None \<Rightarrow> latest | Some e \<Rightarrow> e) latest
            in if exp \<le> now then Inl (Thrown ''policy parent has no strictly narrower validity window'')
               else Inr \<lparr>dc_parentCid = ca_cid parent,
                         dc_fact = AList.update (ustr ''remainingRedelegationDepth'') (NumJ (number_of_int (fl (depth - 1)))) parentFact,
                         dc_notBefore = now, dc_expiresAt = exp,
                         dc_nonce = (case de_nonce input of None \<Rightarrow> encodeBase64Url random | Some n \<Rightarrow> n)\<rparr>)))))"

definition descendant_sign_input :: "descendant_input \<Rightarrow> descendant_claims \<Rightarrow> sign_input" where
  "descendant_sign_input input claims =
     \<lparr>si_issuerDid = de_issuerDid input, si_audienceDid = de_audienceDid input, si_attenuation = de_attenuation input,
      si_facts = dc_fact claims, si_proofs = [dc_parentCid claims], si_notBefore = dc_notBefore claims,
      si_expiresAt = dc_expiresAt claims, si_nonce = dc_nonce claims\<rparr>"

text \<open>Signing with a private key at hand, which descendants and invocations share.\<close>

definition sign_with_key ::
  "compact_lib \<Rightarrow> bytes \<Rightarrow> bytes \<Rightarrow> compact_payload \<Rightarrow> (unified_error, compact_authorization) result" where
  "sign_with_key lib publicKey privateKey payload =
     bindR (json_segment (header_json (encodeBase64Url publicKey))) (\<lambda>protectedSegment.
     bindR (json_segment (ucan_payload_json payload)) (\<lambda>payloadSegment.
     case cl_sign lib (signing_input protectedSegment payloadSegment) privateKey of
       None \<Rightarrow> Inl LibraryThrown
     | Some signature \<Rightarrow>
         parseCompactUcanAuthorization lib (compact_text protectedSegment payloadSegment signature) None))"

definition createCompactPolicyDescendant ::
  "compact_lib \<Rightarrow> bytes \<Rightarrow> descendant_input \<Rightarrow> bytes \<Rightarrow> (unified_error, compact_authorization) result" where
  "createCompactPolicyDescendant lib random input privateKey =
     bindR (compactPolicyDescendantClaims lib random input) (\<lambda>claims.
     case (cl_base58 lib (drop (length DID_KEY) (principal_of (de_issuerDid input))), cl_publicKey lib privateKey) of
       (Some didMaterial, Some publicKey) \<Rightarrow>
         bindR (throw_if (length didMaterial \<noteq> 34 \<or> publicKey \<noteq> drop 2 didMaterial)
           (Thrown ''policy descendant signer does not bind issuer DID'')) (\<lambda>_.
           sign_with_key lib publicKey privateKey (signed_payload (descendant_sign_input input claims)))
     | _ \<Rightarrow> Inl LibraryThrown)"

definition signCompactPolicyDescendant ::
  "compact_lib \<Rightarrow> bytes \<Rightarrow> descendant_input \<Rightarrow> (bytes \<Rightarrow> bytes option) \<Rightarrow> (unified_error, compact_authorization) result" where
  "signCompactPolicyDescendant lib random input sign =
     bindR (compactPolicyDescendantClaims lib random input) (\<lambda>claims.
       signCompactUcan lib (descendant_sign_input input claims) sign)"

section \<open>Invocations\<close>

record invocation_input =
  in_sessionAuthorization :: ustring
  in_sessionCid :: ustring
  in_recipientDid :: ustring
  in_audienceDid :: ustring
  in_resource :: ustring
  in_action :: ustring
  in_caveat :: "json_object option"
  in_facts :: "json_object option"
  in_privateKey :: bytes
  in_now :: "int option"
  in_nonce :: "ustring option"

text \<open>\<open>policyCid\<close> of the default facts is left out when the session has none.\<close>

definition invocation_facts :: "policy_session \<Rightarrow> json_object" where
  "invocation_facts session =
     (ustr ''type'', StrJ (ustr ''tinycloud.policy.invocation/v1'')) #
     (case own (cp_fct (ps_payload session)) ''policyCid'' of None \<Rightarrow> [] | Some v \<Rightarrow> [(ustr ''policyCid'', v)]) @
     [(ustr ''sessionCid'', StrJ (ps_cid session))]"

definition invocation_payload :: "bytes \<Rightarrow> invocation_input \<Rightarrow> policy_session \<Rightarrow> int \<Rightarrow> int \<Rightarrow> compact_payload" where
  "invocation_payload random input session now expires =
     \<lparr>cp_att = [(in_resource input, [(in_action input, [ObjJ (case in_caveat input of None \<Rightarrow> [] | Some c \<Rightarrow> c)])])],
      cp_aud = in_audienceDid input, cp_exp = expires,
      cp_fct = (case in_facts input of None \<Rightarrow> invocation_facts session | Some f \<Rightarrow> f),
      cp_iss = issuer_did (in_recipientDid input), cp_nbf = now,
      cp_nnc = (case in_nonce input of None \<Rightarrow> encodeBase64Url random | Some n \<Rightarrow> n),
      cp_prf = [ps_cid session]\<rparr>"

text \<open>\<open>clock\<close> is \<open>Math.floor(Date.now() / 1000)\<close>.\<close>

definition createCompactPolicyInvocation ::
  "compact_lib \<Rightarrow> bytes \<Rightarrow> int \<Rightarrow> invocation_input \<Rightarrow> (unified_error, compact_authorization) result" where
  "createCompactPolicyInvocation lib random clock input =
     bindR (parsePolicySessionUcan lib (in_sessionAuthorization input) None) (\<lambda>session.
     bindR (throw_if (ps_cid session \<noteq> in_sessionCid input \<or> cp_aud (ps_payload session) \<noteq> in_recipientDid input)
       (Thrown ''policy session does not bind the recipient signer'')) (\<lambda>_.
     case cl_base58 lib (drop (length DID_KEY) (principal_of (in_recipientDid input))) of
       None \<Rightarrow> Inl LibraryThrown
     | Some didMaterial \<Rightarrow>
         bindR (throw_if (\<not> ed25519_material didMaterial) (Thrown ''policy invocation signer must be did:key Ed25519'')) (\<lambda>_.
         case cl_publicKey lib (in_privateKey input) of
           None \<Rightarrow> Inl LibraryThrown
         | Some publicKey \<Rightarrow>
             bindR (throw_if (publicKey \<noteq> drop 2 didMaterial)
               (Thrown ''policy invocation private key does not bind recipient DID'')) (\<lambda>_.
             let now = (case in_now input of None \<Rightarrow> clock | Some n \<Rightarrow> n);
                 exp = min (fl (now + 60)) (cp_exp (ps_payload session))
             in bindR (throw_if (exp \<le> now) (Thrown ''policy session has expired'')) (\<lambda>_.
                  sign_with_key lib publicKey (in_privateKey input) (invocation_payload random input session now exp))))))"


section \<open>Coverage\<close>

lemma own_keys_dom: "set (own_keys fs) = dom (map_of fs)" "distinct (own_keys fs)"
  by (auto simp: own_keys_def dom_map_of_conv_image_fst)

lemma own_entries_iff: "(k, v) \<in> set (own_entries fs) \<longleftrightarrow> map_of fs k = Some v"
  by (auto simp: own_entries_def own_keys_dom image_iff)

lemma everyR_True: "everyR p xs = Inr True \<longleftrightarrow> (\<forall>x \<in> set xs. p x = Inr True)"
  by (induction xs) (auto simp: bindR_Inr_iff)

text \<open>What an attenuation grants for an action on a resource is covered by a parent when one of its
  entries for that action has the same resource and caveats (up to the order of keys), or
  selects a prefix of the resource.\<close>

definition covered_by :: "attenuation \<Rightarrow> ustring \<Rightarrow> ustring \<Rightarrow> json list \<Rightarrow> bool" where
  "covered_by parent resource action caveats \<longleftrightarrow>
     (\<exists>r acts cs. map_of parent r = Some acts \<and> map_of acts action = Some cs \<and>
        (r = resource \<and> canon_of (ArrJ cs) = canon_of (ArrJ caveats) \<or> selector_covers r cs resource caveats))"

definition att_within :: "attenuation \<Rightarrow> attenuation \<Rightarrow> bool" where
  "att_within parent child \<longleftrightarrow>
     (\<forall>resource acts action caveats. map_of child resource = Some acts \<longrightarrow> map_of acts action = Some caveats \<longrightarrow>
        covered_by parent resource action caveats)"

lemma caveats_equal_True: "caveats_equal l r = Inr True \<Longrightarrow> canon_of (ArrJ l) = canon_of (ArrJ r)"
  unfolding caveats_equal_def
proof (elim bindR_InrE)
  fix s t
  assume "jcs (ArrJ l) = Inr s" "jcs (ArrJ r) = Inr t" "Inr (s = t) = (Inr True :: (unified_error, bool) result)"
  then have "json_ok (ArrJ l)" "json_ok (ArrJ r)" "serialize (ArrJ l) = serialize (ArrJ r)"
    unfolding jcs_iff by simp_all
  then show "canon_of (ArrJ l) = canon_of (ArrJ r)"
    using serialize_inject json_ok_finite by blast
qed

lemma contains_within: "compactAttenuationContains parent child = Inr True \<Longrightarrow> att_within parent child"
  unfolding att_within_def
proof (intro allI impI)
  fix resource acts action caveats
  assume c: "compactAttenuationContains parent child = Inr True"
    and m: "map_of child resource = Some acts" "map_of acts action = Some caveats"
  have "(resource, acts) \<in> set (own_entries child)" "(action, caveats) \<in> set (own_entries acts)"
    using m by (simp_all add: own_entries_iff)
  with c have "someR (parent_covers resource action caveats) (own_entries parent) = Inr True"
    unfolding compactAttenuationContains_def everyR_True
    by (metis (no_types, lifting) case_prod_conv everyR_True)
  from someR_Inr_True [OF this] obtain r pacts where p: "map_of parent r = Some pacts"
    "parent_covers resource action caveats (r, pacts) = Inr True"
    by (auto simp: own_entries_iff)
  then obtain cs where "map_of pacts action = Some cs"
    "r = resource \<and> caveats_equal cs caveats = Inr True \<or> selector_covers r cs resource caveats"
    by (auto simp: parent_covers_def elim!: bindR_InrE split: option.split_asm if_split_asm)
  then show "covered_by parent resource action caveats"
    unfolding covered_by_def using p(1) caveats_equal_True by blast
qed

lemma canon_StrC: "canon_of v = StrC s \<longleftrightarrow> v = StrJ s" "StrC s = canon_of v \<longleftrightarrow> v = StrJ s"
  by (cases v; auto simp: Let_def)+

lemma canon_own:
  assumes "canon_of (ObjJ fs) = canon_of (ObjJ gs)"
  shows "map_option canon_of (own fs k) = map_option canon_of (own gs k)"
  using assms unfolding canon_object_iff own_def by blast

lemma canon_text: "canon_of (ObjJ fs) = canon_of (ObjJ gs) \<Longrightarrow> own fs k = Some (StrJ s) \<longleftrightarrow> own gs k = Some (StrJ s)"
  using canon_own [of fs gs k] by (cases "own fs k"; cases "own gs k") (auto simp: canon_StrC simp del: canon_of.simps(6))

lemma canon_keys: "canon_of (ObjJ fs) = canon_of (ObjJ gs) \<Longrightarrow> length (own_keys fs) = length (own_keys gs)"
proof -
  assume "canon_of (ObjJ fs) = canon_of (ObjJ gs)"
  then have "map_of fs k = None \<longleftrightarrow> map_of gs k = None" for k
    unfolding canon_object_iff by (metis option.map_disc_iff)
  then have "dom (map_of fs) = dom (map_of gs)" unfolding dom_def by simp
  then show ?thesis by (metis distinct_card own_keys_dom)
qed

lemma canon_selector: "canon_of (ObjJ fs) = canon_of (ObjJ gs) \<Longrightarrow> selector_of (own fs k) = selector_of (own gs k)"
  using canon_text [of fs gs k] by (simp add: selector_of_def)

definition member_text :: "json option \<Rightarrow> ustring option" where
  "member_text m = (case m of Some (StrJ s) \<Rightarrow> Some s | _ \<Rightarrow> None)"

lemma member_text_iff: "member_text m = Some s \<longleftrightarrow> m = Some (StrJ s)"
  by (auto simp: member_text_def split: option.split json.split)

lemma option_eq_iff: "x = y \<longleftrightarrow> (\<forall>s. x = Some s \<longleftrightarrow> y = Some s)"
  by (cases x; cases y) auto

lemma caveat_selector_members:
  "caveat_selector [ObjJ caveat] =
     (if length (own_keys caveat) \<noteq> 3 \<or> own caveat ''type'' \<noteq> Some (StrJ SELECTOR_TYPE) then None
      else case selector_of (own caveat ''kind'') of
             None \<Rightarrow> None | Some kind \<Rightarrow> map_option (Pair kind) (member_text (own caveat ''value'')))"
  by (auto simp: member_text_def split: option.split json.split)

lemma caveat_selector_canon: "canon_of (ArrJ c) = canon_of (ArrJ d) \<Longrightarrow> caveat_selector c = caveat_selector d"
proof -
  assume e: "canon_of (ArrJ c) = canon_of (ArrJ d)"
  then have m: "map canon_of c = map canon_of d" by simp
  show ?thesis
  proof (cases "\<exists>fs. c = [ObjJ fs]")
    case True
    then obtain fs where c: "c = [ObjJ fs]" by blast
    with m obtain v where d: "d = [v]" "canon_of (ObjJ fs) = canon_of v" by (cases d) (auto simp del: canon_of.simps(6))
    then obtain gs where g: "v = ObjJ gs" by (cases v) (auto simp: Let_def)
    note eq = d(2) [unfolded g]
    have "member_text (own fs ''value'') = member_text (own gs ''value'')"
      unfolding option_eq_iff [of "member_text (own fs ''value'')"] member_text_iff using canon_text [OF eq] by blast
    then show ?thesis
      unfolding c d(1) g caveat_selector_members
      using canon_keys [OF eq] canon_text [OF eq, of "''type''"] canon_selector [OF eq, of "''kind''"] by (simp only: )
  next
    case False
    then have "caveat_selector c = None" by (cases c rule: caveat_selector.cases) auto
    moreover have "\<nexists>gs. d = [ObjJ gs]"
    proof
      assume "\<exists>gs. d = [ObjJ gs]"
      with m obtain gs v where "c = [v]" "canon_of v = canon_of (ObjJ gs)" by (cases c) (auto simp del: canon_of.simps(6))
      with False show False by (cases v) (auto simp: Let_def)
    qed
    then have "caveat_selector d = None" by (cases d rule: caveat_selector.cases) auto
    ultimately show ?thesis by simp
  qed
qed

lemma selector_covers_cong:
  "caveat_selector a = caveat_selector b \<Longrightarrow> caveat_selector c = caveat_selector d \<Longrightarrow>
   selector_covers r a s c \<longleftrightarrow> selector_covers r b s d"
  by (simp add: selector_covers_def)

lemma selector_covers_chain:
  "selector_covers r2 c2 r1 c1 \<Longrightarrow> selector_covers r1 c1 r c \<Longrightarrow> selector_covers r2 c2 r c"
  unfolding selector_covers_def
  by (auto split: option.split_asm prod.split_asm selector.split_asm simp: prefix_def)

lemma att_within_trans: "att_within p a \<Longrightarrow> att_within a b \<Longrightarrow> att_within p b"
  unfolding att_within_def
proof (intro allI impI)
  fix r acts action c
  assume pa: "\<forall>resource acts action caveats. map_of a resource = Some acts \<longrightarrow> map_of acts action = Some caveats \<longrightarrow> covered_by p resource action caveats"
    and ab: "\<forall>resource acts action caveats. map_of b resource = Some acts \<longrightarrow> map_of acts action = Some caveats \<longrightarrow> covered_by a resource action caveats"
    and m: "map_of b r = Some acts" "map_of acts action = Some c"
  from ab m obtain r1 acts1 c1 where 1: "map_of a r1 = Some acts1" "map_of acts1 action = Some c1"
    "r1 = r \<and> canon_of (ArrJ c1) = canon_of (ArrJ c) \<or> selector_covers r1 c1 r c"
    unfolding covered_by_def by blast
  from pa 1(1,2) obtain r2 acts2 c2 where 2: "map_of p r2 = Some acts2" "map_of acts2 action = Some c2"
    "r2 = r1 \<and> canon_of (ArrJ c2) = canon_of (ArrJ c1) \<or> selector_covers r2 c2 r1 c1"
    unfolding covered_by_def by blast
  have "r2 = r \<and> canon_of (ArrJ c2) = canon_of (ArrJ c) \<or> selector_covers r2 c2 r c"
    using 1(3)
  proof
    assume same: "r1 = r \<and> canon_of (ArrJ c1) = canon_of (ArrJ c)"
    then have "caveat_selector c1 = caveat_selector c" by (intro caveat_selector_canon) simp
    with same 2(3) show ?thesis using selector_covers_cong [of c2 c2 c1 c r2 r] by auto
  next
    assume sel: "selector_covers r1 c1 r c"
    from 2(3) show ?thesis
    proof
      assume same: "r2 = r1 \<and> canon_of (ArrJ c2) = canon_of (ArrJ c1)"
      then have "caveat_selector c2 = caveat_selector c1" by (intro caveat_selector_canon) simp
      with same sel show ?thesis using selector_covers_cong [of c2 c1 c c r1 r] by auto
    qed (use sel selector_covers_chain in blast)
  qed
  with 2 show "covered_by p r action c" unfolding covered_by_def by blast
qed

lemma att_within_refl: "att_within a a"
  unfolding att_within_def covered_by_def by blast

interpretation attenuations: containment att_within "\<lambda>_. True"
  by unfold_locales (auto intro: att_within_refl att_within_trans)

text \<open>Attenuations that are the same objects cover each other.\<close>

lemma att_within_canon:
  assumes "canon_of (attenuation_json a) = canon_of (attenuation_json b)"
  shows "att_within a b"
proof -
  have look: "map_of (map (\<lambda>(k, v). (k, f v)) xs) k = map_option f (map_of xs k)" for f :: "'x \<Rightarrow> json" and xs k
    by (induction xs) auto
  show ?thesis
    unfolding att_within_def covered_by_def
  proof (intro allI impI)
    fix r acts action c
    assume m: "map_of b r = Some acts" "map_of acts action = Some c"
    from assms have "map_option canon_of (map_of (map (\<lambda>(k, v). (k, ObjJ (map (\<lambda>(k, v). (k, ArrJ v)) v))) a) r) =
        map_option canon_of (map_of (map (\<lambda>(k, v). (k, ObjJ (map (\<lambda>(k, v). (k, ArrJ v)) v))) b) r)"
      unfolding attenuation_json_def canon_object_iff by (simp del: canon_of.simps)
    then obtain acts' where a: "map_of a r = Some acts'"
      "canon_of (ObjJ (map (\<lambda>(k, v). (k, ArrJ v)) acts')) = canon_of (ObjJ (map (\<lambda>(k, v). (k, ArrJ v)) acts))"
      unfolding look using m(1) by (auto simp del: canon_of.simps)
    then have "map_option canon_of (map_option ArrJ (map_of acts' action)) = map_option canon_of (map_option ArrJ (map_of acts action))"
      unfolding canon_object_iff look by blast
    then obtain c' where "map_of acts' action = Some c'" "canon_of (ArrJ c') = canon_of (ArrJ c)"
      using m(2) by (auto simp del: canon_of.simps)
    with a(1) show "\<exists>r' acts cs. map_of a r' = Some acts \<and> map_of acts action = Some cs \<and>
        (r' = r \<and> canon_of (ArrJ cs) = canon_of (ArrJ c) \<or> selector_covers r' cs r c)" by blast
  qed
qed


section \<open>What a signed payload is read as\<close>

text \<open>The same payload up to the order of keys in attenuation and facts.\<close>

definition same_payload :: "compact_payload \<Rightarrow> compact_payload \<Rightarrow> bool" where
  "same_payload p q \<longleftrightarrow>
     cp_aud q = cp_aud p \<and> cp_exp q = cp_exp p \<and> cp_iss q = cp_iss p \<and> cp_nbf q = cp_nbf p \<and> cp_nnc q = cp_nnc p \<and>
     cp_prf q = cp_prf p \<and> canon_of (attenuation_json (cp_att q)) = canon_of (attenuation_json (cp_att p)) \<and>
     canon_of (ObjJ (cp_fct q)) = canon_of (ObjJ (cp_fct p))"

lemma zod_attenuationD: "zod_attenuation v = Inr att \<Longrightarrow> v = Some (attenuation_json att)"
proof -
  have a: "v = ObjJ (map (\<lambda>(k, c). (k, ArrJ c)) acts)" if "zod_actions v = Inr acts" for v acts
  proof -
    from that obtain fs where fs: "v = ObjJ fs" and m: "list_all2 (\<lambda>(action, caveats) y.
        (case caveats of ArrJ xs \<Rightarrow> if xs = [] then Inl LibraryThrown else Inr (action, xs) | _ \<Rightarrow> Inl LibraryThrown) = Inr y) fs acts"
      unfolding zod_actions_def
      by (auto simp: zod_object_def mapR_Inr_iff case_prod_unfold elim!: bindR_InrE split: json.split_asm)
    from m have "fs = map (\<lambda>(k, c). (k, ArrJ c)) acts"
      by (induction rule: list_all2_induct) (auto split: json.split_asm if_split_asm)
    with fs show ?thesis by simp
  qed
  assume "zod_attenuation v = Inr att"
  then obtain fs where fs: "v = Some (ObjJ fs)"
    and m: "list_all2 (\<lambda>(resource, actions) y. bindR (zod_actions actions) (\<lambda>acts. Inr (resource, acts)) = Inr y) fs att"
    unfolding zod_attenuation_def
    by (auto simp: zod_object_def mapR_Inr_iff case_prod_unfold elim!: bindR_InrE split: option.split_asm json.split_asm)
  from m have "fs = map (\<lambda>(resource, actions). (resource, ObjJ (map (\<lambda>(action, caveats). (action, ArrJ caveats)) actions))) att"
    by (induction rule: list_all2_induct) (auto elim!: bindR_InrE dest: a)
  with fs show ?thesis by (simp add: attenuation_json_def)
qed

lemma zod_int_canon:
  assumes "zod_int m = Inr i" and "map_option canon_of m = Some (NumC (number_text (number_of_int j)))" and "fl j = j"
  shows "i = j"
proof -
  from assms(1) obtain n where n: "m = Some (NumJ n)" "number_int n = Some i"
    by (auto simp: zod_int_def split: option.split_asm json.split_asm)
  then have "finite_number n" by (simp add: number_int_def split: if_split_asm)
  with n assms(2) have "number_int n = number_int (number_of_int j)" by (intro number_int_text) simp_all
  with n(2) assms(3) show "i = j" by (simp add: number_int_of_int)
qed

definition payload_fields :: "compact_payload \<Rightarrow> json_object" where
  "payload_fields p = (case ucan_payload_json p of ObjJ fs \<Rightarrow> fs | _ \<Rightarrow> [])"

lemma payload_fields_json: "ucan_payload_json p = ObjJ (payload_fields p)"
  by (simp add: payload_fields_def ucan_payload_json_def)

lemma payload_field:
  "own (payload_fields p) ''att'' = Some (attenuation_json (cp_att p))"
  "own (payload_fields p) ''aud'' = Some (StrJ (cp_aud p))"
  "own (payload_fields p) ''exp'' = Some (NumJ (number_of_int (cp_exp p)))"
  "own (payload_fields p) ''fct'' = Some (ArrJ [ObjJ (cp_fct p)])"
  "own (payload_fields p) ''iss'' = Some (StrJ (cp_iss p))"
  "own (payload_fields p) ''nbf'' = Some (NumJ (number_of_int (cp_nbf p)))"
  "own (payload_fields p) ''nnc'' = Some (StrJ (cp_nnc p))"
  "own (payload_fields p) ''prf'' = Some (ArrJ (map StrJ (cp_prf p)))"
  by (simp_all add: payload_fields_def ucan_payload_json_def ustr_lookup)

lemma canon_payload:
  assumes "CompactPayloadSchema w = Inr q" and "canon_of w = canon_of (ucan_payload_json p)"
    and "fl (cp_exp p) = cp_exp p" "fl (cp_nbf p) = cp_nbf p"
  shows "same_payload p q"
proof -
  from payload_schemaD [OF assms(1)] obtain fs where fs: "w = ObjJ fs" "zod_attenuation (own fs ''att'') = Inr (cp_att q)"
     "own fs ''aud'' = Some (StrJ (cp_aud q))" "own fs ''iss'' = Some (StrJ (cp_iss q))"
     "zod_int (own fs ''exp'') = Inr (cp_exp q)" "zod_int (own fs ''nbf'') = Inr (cp_nbf q)"
     "own fs ''fct'' = Some (ArrJ [ObjJ (cp_fct q)])" "own fs ''nnc'' = Some (StrJ (cp_nnc q))"
     "own fs ''prf'' = Some (ArrJ (map StrJ (cp_prf q)))" by blast
  note look = canon_own [OF assms(2) [unfolded fs(1) payload_fields_json]]
  note same = canon_text [OF assms(2) [unfolded fs(1) payload_fields_json]]
  have "cp_exp q = cp_exp p"
    using look [of "''exp''"] by (intro zod_int_canon [OF fs(5) _ assms(3)]) (simp only: payload_field option.map canon_of.simps)
  moreover have "cp_nbf q = cp_nbf p"
    using look [of "''nbf''"] by (intro zod_int_canon [OF fs(6) _ assms(4)]) (simp only: payload_field option.map canon_of.simps)
  moreover have "cp_aud q = cp_aud p"
    using same [of "''aud''" "cp_aud q"] by (simp only: fs(3) payload_field option.inject json.inject simp_thms)
  moreover have "cp_iss q = cp_iss p"
    using same [of "''iss''" "cp_iss q"] by (simp only: fs(4) payload_field option.inject json.inject simp_thms)
  moreover have "cp_nnc q = cp_nnc p"
    using same [of "''nnc''" "cp_nnc q"] by (simp only: fs(8) payload_field option.inject json.inject simp_thms)
  moreover have "map canon_of (map StrJ (cp_prf q)) = map canon_of (map StrJ (cp_prf p))"
    using look [of "''prf''"] by (simp only: fs(9) payload_field option.map option.inject canon_of.simps(5) canon.inject)
  then have "cp_prf q = cp_prf p"
    using canon_strings [of "cp_prf q" "cp_prf p"] by simp
  moreover have "canon_of (attenuation_json (cp_att q)) = canon_of (attenuation_json (cp_att p))"
    using look [of "''att''"] by (simp only: zod_attenuationD [OF fs(2)] payload_field option.map option.inject)
  moreover have "canon_of (ObjJ (cp_fct q)) = canon_of (ObjJ (cp_fct p))"
    using look [of "''fct''"] by (simp only: fs(7) payload_field option.map option.inject canon_of.simps(5) canon.inject list.map list.inject simp_thms)
  ultimately show ?thesis unfolding same_payload_def by (intro conjI)
qed

lemma json_segmentD: "json_segment v = Inr s \<Longrightarrow> s = segment_of v \<and> json_ok v"
  unfolding json_segment_def by (elim bindR_InrE) (auto simp: jcs_iff segment_of_def encodeBase64Url_def simp del: serialize.simps json_ok.simps)

lemma encode_inject: "base64UrlEncode a = base64UrlEncode b \<longleftrightarrow> a = b"
  by (metis base64_decode_encode sum.inject(2))

text \<open>What was signed over is what is read from the text, because the parser checks that the value
  it reads has the canonical text it read it from.\<close>

lemma signed_payload_read:
  assumes "json_segment (ObjJ hf) = Inr h" and "json_segment (ucan_payload_json p) = Inr s"
    and "parseCompactUcanAuthorization lib (compact_text h s sig) e = Inr u"
    and "fl (cp_exp p) = cp_exp p" "fl (cp_nbf p) = cp_nbf p"
  shows "same_payload p (ca_payload u)" and "ucan_accepted lib u" and "ca_authorization u = compact_text h s sig"
proof -
  define pf where "pf = payload_fields p"
  have pf: "ucan_payload_json p = ObjJ pf" by (simp add: pf_def payload_fields_json)
  have hs: "h = segment_of (ObjJ hf)" "s = segment_of (ucan_payload_json p)" "json_ok (ucan_payload_json p)"
    using json_segmentD [OF assms(1)] json_segmentD [OF assms(2)] by blast+
  from assms(3) show u: "ucan_accepted lib u" "ca_authorization u = compact_text h s sig"
    unfolding parseCompact_iff by auto
  from u(1) obtain h' p' sig' v where a: "ca_authorization u = compact_text h' p' sig'" "carries lib p' v"
      "carries lib h' v \<or> (\<exists>w. carries lib h' w)" "CompactPayloadSchema v = Inr (ca_payload u)"
    unfolding ucan_accepted_def by blast
  have plain: "0x2E \<notin> set t" if "carries lib t w" for t w using that encoded_plain(1) unfolding carries_def by auto
  have "splitOn 0x2E (compact_text h s sig) = [h, s, base64UrlEncode sig]"
    unfolding compact_text_def hs segment_of_def encodeBase64Url_def by (simp add: splitOn_append splitOn_id encoded_plain)
  moreover have "splitOn 0x2E (compact_text h' p' sig') = [h', p', base64UrlEncode sig']"
    using plain a(2,3) unfolding compact_text_def encodeBase64Url_def by (auto simp: splitOn_append splitOn_id encoded_plain)
  ultimately have "p' = s" using a(1) u(2) by (metis list.inject)
  with a(2) obtain bytes where b: "s = base64UrlEncode bytes" "textDecode bytes = Some (serialize v)" "json_ok v"
    unfolding carries_def by blast
  let ?lib = "ucan_lib\<lparr>cl_parse := \<lambda>_. Some (ObjJ pf)\<rparr>"
  have "carries ?lib (segment_of (ObjJ pf)) (ObjJ pf)"
    by (rule segment_carries(2)) (use hs(3) pf in \<open>simp_all del: json_ok.simps serialize.simps\<close>)
  then have d: "textDecode (textEncode (serialize (ObjJ pf))) = Some (serialize (ObjJ pf))"
    unfolding carries_def segment_of_def encode_inject by blast
  have "bytes = textEncode (serialize (ObjJ pf))"
    using b(1) hs(2) unfolding pf segment_of_def encode_inject by (simp only: encode_inject)
  with b(2) d have "serialize v = serialize (ucan_payload_json p)"
    unfolding pf by (simp only: option.inject)
  then have "canon_of v = canon_of (ucan_payload_json p)"
    using b(3) hs(3) serialize_inject json_ok_finite by blast
  with a(4) show "same_payload p (ca_payload u)" using assms(4,5) by (intro canon_payload)
qed


section \<open>One step down\<close>

text \<open>\<open>v\<close> is a descendant of the authorization with text \<open>parent\<close>, made by either of the two
  operations, with times that are numbers of the program.\<close>

definition times_given :: "descendant_input \<Rightarrow> bool" where
  "times_given input \<longleftrightarrow> pred_option (\<lambda>n. fl n = n) (de_now input) \<and> pred_option (\<lambda>n. fl n = n) (de_expiresAt input)"

inductive descends :: "compact_lib \<Rightarrow> ustring \<Rightarrow> compact_authorization \<Rightarrow> bool" for lib :: compact_lib where
  created: "de_parentAuthorization input = parent \<Longrightarrow> times_given input \<Longrightarrow>
    createCompactPolicyDescendant lib random input key = Inr v \<Longrightarrow> descends lib parent v"
| signed: "de_parentAuthorization input = parent \<Longrightarrow> times_given input \<Longrightarrow>
    signCompactPolicyDescendant lib random input sign = Inr v \<Longrightarrow> descends lib parent v"

text \<open>How the payload of a descendant relates to its parent's.\<close>

definition narrows :: "compact_authorization \<Rightarrow> compact_authorization \<Rightarrow> bool" where
  "narrows u v \<longleftrightarrow>
     (\<exists>depth. member_int (own (cp_fct (ca_payload u)) ''remainingRedelegationDepth'') = Some depth \<and> 0 < depth \<and>
        member_int (own (cp_fct (ca_payload v)) ''remainingRedelegationDepth'') = Some (fl (depth - 1))) \<and>
     (\<forall>key. key \<noteq> ''remainingRedelegationDepth'' \<longrightarrow>
        map_option canon_of (own (cp_fct (ca_payload v)) key) = map_option canon_of (own (cp_fct (ca_payload u)) key)) \<and>
     cp_prf (ca_payload v) = [ca_cid u] \<and> cp_iss (ca_payload v) = issuer_did (cp_aud (ca_payload u)) \<and>
     att_within (cp_att (ca_payload u)) (cp_att (ca_payload v)) \<and>
     fl (cp_nbf (ca_payload u) + 1) \<le> cp_nbf (ca_payload v) \<and> cp_exp (ca_payload v) \<le> fl (cp_exp (ca_payload u) - 1)"

lemma descendant_claims_of:
  assumes "compactPolicyDescendantClaims lib random input = Inr c" and "times_given input"
  obtains u depth where "parseCompactUcanAuthorization lib (de_parentAuthorization input) None = Inr u"
    "cp_aud (ca_payload u) = de_issuerDid input"
    "member_int (own (cp_fct (ca_payload u)) ''remainingRedelegationDepth'') = Some depth" "0 < depth"
    "att_within (cp_att (ca_payload u)) (de_attenuation input)" "dc_parentCid c = ca_cid u"
    "dc_fact c = AList.update (ustr ''remainingRedelegationDepth'') (NumJ (number_of_int (fl (depth - 1)))) (cp_fct (ca_payload u))"
    "fl (cp_nbf (ca_payload u) + 1) \<le> dc_notBefore c" "dc_expiresAt c \<le> fl (cp_exp (ca_payload u) - 1)"
    "fl (dc_notBefore c) = dc_notBefore c" "fl (dc_expiresAt c) = dc_expiresAt c"
proof -
  from assms(1) obtain u depth where p: "parseCompactUcanAuthorization lib (de_parentAuthorization input) (Some (de_parentCid input)) = Inr u"
    and d: "member_int (own (cp_fct (ca_payload u)) ''remainingRedelegationDepth'') = Some depth" "0 < depth"
    and a: "cp_aud (ca_payload u) = de_issuerDid input"
      "compactAttenuationContains (cp_att (ca_payload u)) (de_attenuation input) = Inr True"
    and c: "dc_parentCid c = ca_cid u"
      "dc_fact c = AList.update (ustr ''remainingRedelegationDepth'') (NumJ (number_of_int (fl (depth - 1)))) (cp_fct (ca_payload u))"
      "dc_notBefore c = max (case de_now input of None \<Rightarrow> fl (cp_nbf (ca_payload u) + 1) | Some n \<Rightarrow> n) (fl (cp_nbf (ca_payload u) + 1))"
      "dc_expiresAt c = min (case de_expiresAt input of None \<Rightarrow> fl (cp_exp (ca_payload u) - 1) | Some e \<Rightarrow> e) (fl (cp_exp (ca_payload u) - 1))"
    unfolding compactPolicyDescendantClaims_def Let_def
    by (elim bindR_InrE) (auto elim!: bindR_InrE simp: throw_if_Inr_iff Let_def split: option.split_asm if_split_asm)
  show ?thesis
  proof (rule that [OF _ a(1) d contains_within [OF a(2)] c(1,2)])
    show "parseCompactUcanAuthorization lib (de_parentAuthorization input) None = Inr u" using p unfolding parseCompact_iff by simp
    show "fl (cp_nbf (ca_payload u) + 1) \<le> dc_notBefore c" "dc_expiresAt c \<le> fl (cp_exp (ca_payload u) - 1)"
      unfolding c(3,4) by simp_all
    show "fl (dc_notBefore c) = dc_notBefore c" "fl (dc_expiresAt c) = dc_expiresAt c"
      using assms(2) unfolding c(3,4) times_given_def by (auto simp: max_def min_def split: option.split)
  qed
qed

lemma member_int_canon:
  assumes "map_option canon_of m = Some (NumC (number_text (number_of_int j)))" and "fl j = j" and "\<And>v. m = Some v \<Longrightarrow> json_ok v"
  shows "member_int m = Some j"
proof -
  from assms(1) obtain v where v: "m = Some v" "canon_of v = NumC (number_text (number_of_int j))" by (cases m) auto
  then obtain n where n: "v = NumJ n" "number_text n = number_text (number_of_int j)" by (cases v) (auto simp: Let_def)
  with assms(3) [OF v(1)] have "finite_number n" by simp
  with n(2) have "number_int n = number_int (number_of_int j)" by (intro number_int_text) simp_all
  then show ?thesis using v(1) n(1) assms(2) by (simp add: member_int_def number_int_of_int)
qed

lemma accepted_facts_ok:
  assumes "ucan_accepted lib u" and "own (cp_fct (ca_payload u)) k = Some v"
  shows "json_ok v"
proof -
  from assms(1) obtain p w where w: "carries lib p w" "CompactPayloadSchema w = Inr (ca_payload u)"
    unfolding ucan_accepted_def by blast
  from payload_schemaD [OF w(2)] obtain fs where fs: "w = ObjJ fs" "own fs ''fct'' = Some (ArrJ [ObjJ (cp_fct (ca_payload u))])"
    by blast
  have "json_ok (ObjJ fs)" using w(1) fs(1) unfolding carries_def by blast
  from json_ok_member [OF this fs(2) [unfolded own_def]] have "json_ok (ObjJ (cp_fct (ca_payload u)))" by simp
  from json_ok_member [OF this assms(2) [unfolded own_def]] show ?thesis .
qed

lemma same_payload_narrows:
  assumes "same_payload (signed_payload (descendant_sign_input input c)) (ca_payload v)" and "ucan_accepted lib v"
    and "compactPolicyDescendantClaims lib random input = Inr c" and "times_given input"
  shows "\<exists>u. parseCompactUcanAuthorization lib (de_parentAuthorization input) None = Inr u \<and> narrows u v"
proof -
  from assms(1) have same: "cp_iss (ca_payload v) = issuer_did (de_issuerDid input)" "cp_prf (ca_payload v) = [dc_parentCid c]"
    "cp_nbf (ca_payload v) = dc_notBefore c" "cp_exp (ca_payload v) = dc_expiresAt c"
    "canon_of (attenuation_json (cp_att (ca_payload v))) = canon_of (attenuation_json (de_attenuation input))"
    "canon_of (ObjJ (cp_fct (ca_payload v))) = canon_of (ObjJ (dc_fact c))"
    unfolding same_payload_def signed_payload_def descendant_sign_input_def by (simp_all del: canon_of.simps)
  from descendant_claims_of [OF assms(3,4)] obtain u depth where
    u: "parseCompactUcanAuthorization lib (de_parentAuthorization input) None = Inr u"
    "cp_aud (ca_payload u) = de_issuerDid input"
    "member_int (own (cp_fct (ca_payload u)) ''remainingRedelegationDepth'') = Some depth" "0 < depth"
    "att_within (cp_att (ca_payload u)) (de_attenuation input)" "dc_parentCid c = ca_cid u"
    and f: "dc_fact c = AList.update (ustr ''remainingRedelegationDepth'') (NumJ (number_of_int (fl (depth - 1)))) (cp_fct (ca_payload u))"
    and t: "fl (cp_nbf (ca_payload u) + 1) \<le> dc_notBefore c" "dc_expiresAt c \<le> fl (cp_exp (ca_payload u) - 1)"
    by blast
  note look = canon_own [OF same(6), unfolded f]
  have d: "member_int (own (cp_fct (ca_payload v)) ''remainingRedelegationDepth'') = Some (fl (depth - 1))"
  proof (rule member_int_canon)
    show "map_option canon_of (own (cp_fct (ca_payload v)) ''remainingRedelegationDepth'') = Some (NumC (number_text (number_of_int (fl (depth - 1)))))"
      using look [of "''remainingRedelegationDepth''"] by (simp add: own_def update_conv)
  qed (use accepted_facts_ok [OF assms(2)] in simp_all)
  have k: "map_option canon_of (own (cp_fct (ca_payload v)) key) = map_option canon_of (own (cp_fct (ca_payload u)) key)"
    if "key \<noteq> ''remainingRedelegationDepth''" for key
    using look [of key] that by (simp add: own_def update_conv ustr_inject)
  have "att_within (de_attenuation input) (cp_att (ca_payload v))" using same(5) by (intro att_within_canon) (rule sym)
  with u(5) have "att_within (cp_att (ca_payload u)) (cp_att (ca_payload v))" by (rule att_within_trans)
  with u d k t same show ?thesis unfolding narrows_def by (intro exI [of _ u]) auto
qed

lemma descends_narrows:
  assumes "descends lib parent v"
  shows "ucan_accepted lib v" and "\<exists>u. parseCompactUcanAuthorization lib parent None = Inr u \<and> narrows u v"
proof -
  have fls: "fl (cp_exp (signed_payload (descendant_sign_input input c))) = cp_exp (signed_payload (descendant_sign_input input c))"
    "fl (cp_nbf (signed_payload (descendant_sign_input input c))) = cp_nbf (signed_payload (descendant_sign_input input c))"
    if "compactPolicyDescendantClaims lib random input = Inr c" "times_given input" for input random c
    using descendant_claims_of [OF that] by (simp_all add: signed_payload_def descendant_sign_input_def) blast+
  have "ucan_accepted lib v \<and> (\<exists>u. parseCompactUcanAuthorization lib parent None = Inr u \<and> narrows u v)"
    using assms
  proof cases
    case (created input random key)
    from created(3) obtain c x h s sig where c: "compactPolicyDescendantClaims lib random input = Inr c"
      and s: "json_segment (header_json x) = Inr h" "json_segment (ucan_payload_json (signed_payload (descendant_sign_input input c))) = Inr s"
      "parseCompactUcanAuthorization lib (compact_text h s sig) None = Inr v"
      unfolding createCompactPolicyDescendant_def sign_with_key_def
      by (elim bindR_InrE) (auto elim!: bindR_InrE split: option.split_asm)
    obtain hf where "header_json x = ObjJ hf" by (simp add: header_json_def)
    note r = signed_payload_read [OF s(1) [unfolded this] s(2,3) fls [OF c created(2)]]
    show ?thesis using r(2) same_payload_narrows [OF r(1,2) c created(2)] created(1) by simp
  next
    case (signed input random sign)
    from signed(3) obtain c x h s sig where c: "compactPolicyDescendantClaims lib random input = Inr c"
      and s: "json_segment (header_json x) = Inr h" "json_segment (ucan_payload_json (signed_payload (descendant_sign_input input c))) = Inr s"
      "parseCompactUcanAuthorization lib (compact_text h s sig) None = Inr v"
      unfolding signCompactPolicyDescendant_def signCompactUcan_def
      by (elim bindR_InrE) (auto elim!: bindR_InrE split: option.split_asm)
    obtain hf where "header_json x = ObjJ hf" by (simp add: header_json_def)
    note r = signed_payload_read [OF s(1) [unfolded this] s(2,3) fls [OF c signed(2)]]
    show ?thesis using r(2) same_payload_narrows [OF r(1,2) c signed(2)] signed(1) by simp
  qed
  then show "ucan_accepted lib v" and "\<exists>u. parseCompactUcanAuthorization lib parent None = Inr u \<and> narrows u v" by blast+
qed


section \<open>Chains\<close>

text \<open>Authorizations, each a descendant of the one before it; the first of the one with the given
  text.\<close>

inductive policy_chain :: "compact_lib \<Rightarrow> ustring \<Rightarrow> compact_authorization list \<Rightarrow> bool" for lib :: compact_lib where
  chain_end: "policy_chain lib parent []"
| chain_step: "descends lib parent v \<Longrightarrow> policy_chain lib (ca_authorization v) vs \<Longrightarrow> policy_chain lib parent (v # vs)"

inductive_cases policy_chain_ConsE: "policy_chain lib parent (v # vs)"

text \<open>What a payload leaves to everything below it: no more attenuation, no longer window, the same
  facts but the depth.\<close>

definition leaves :: "compact_payload \<Rightarrow> compact_payload \<Rightarrow> bool" where
  "leaves p q \<longleftrightarrow>
     att_within (cp_att p) (cp_att q) \<and> cp_nbf p \<le> cp_nbf q \<and> cp_exp q \<le> cp_exp p \<and>
     (\<forall>key. key \<noteq> ''remainingRedelegationDepth'' \<longrightarrow>
        map_option canon_of (own (cp_fct q) key) = map_option canon_of (own (cp_fct p) key))"

lemma leaves_trans: "leaves p q \<Longrightarrow> leaves q r \<Longrightarrow> leaves p r"
  unfolding leaves_def by (elim conjE) (intro conjI, erule (1) att_within_trans, simp_all)

lemma accepted_window: "ucan_accepted lib u \<Longrightarrow> fl (cp_nbf (ca_payload u)) = cp_nbf (ca_payload u) \<and> fl (cp_exp (ca_payload u)) = cp_exp (ca_payload u)"
proof -
  assume "ucan_accepted lib u"
  then obtain w where "CompactPayloadSchema w = Inr (ca_payload u)" unfolding ucan_accepted_def by blast
  from payload_schemaD [OF this] obtain fs where
    z: "zod_int (own fs ''nbf'') = Inr (cp_nbf (ca_payload u))" "zod_int (own fs ''exp'') = Inr (cp_exp (ca_payload u))" by blast
  have "fl i = i" if "zod_int m = Inr i" for m i
    using that number_int_double by (auto simp: zod_int_def split: option.split_asm json.split_asm)
  with z show ?thesis by blast
qed

lemma narrows_leaves:
  assumes "narrows u v" and "ucan_accepted lib u"
  shows "leaves (ca_payload u) (ca_payload v)"
proof -
  have "cp_nbf (ca_payload u) \<le> fl (cp_nbf (ca_payload u) + 1)" "fl (cp_exp (ca_payload u) - 1) \<le> cp_exp (ca_payload u)"
    using accepted_window [OF assms(2)] fl_mono [of "cp_nbf (ca_payload u)" "cp_nbf (ca_payload u) + 1"]
      fl_mono [of "cp_exp (ca_payload u) - 1" "cp_exp (ca_payload u)"] by simp_all
  with assms(1) show ?thesis unfolding narrows_def leaves_def by auto
qed

lemma chain_narrows:
  assumes "policy_chain lib parent vs" and "parseCompactUcanAuthorization lib parent None = Inr u"
    and "member_int (own (cp_fct (ca_payload u)) ''remainingRedelegationDepth'') = Some depth" "0 \<le> depth" "depth \<le> 8"
  shows "int (length vs) \<le> depth" and "list_all (\<lambda>v. ucan_accepted lib v \<and> leaves (ca_payload u) (ca_payload v)) vs"
    and "map (\<lambda>v. cp_prf (ca_payload v)) vs = map (\<lambda>c. [c]) (butlast (ca_cid u # map ca_cid vs))"
proof -
  have "int (length vs) \<le> depth \<and> list_all (\<lambda>v. ucan_accepted lib v \<and> leaves (ca_payload u) (ca_payload v)) vs \<and>
      map (\<lambda>v. cp_prf (ca_payload v)) vs = map (\<lambda>c. [c]) (butlast (ca_cid u # map ca_cid vs))"
    using assms
  proof (induction arbitrary: u depth rule: policy_chain.induct)
    case (chain_step parent v vs)
    from descends_narrows [OF chain_step(1)] chain_step(4) have v: "ucan_accepted lib v" "narrows u v" by simp_all
    have u: "ucan_accepted lib u" using chain_step(4) unfolding parseCompact_iff by simp
    have uv: "leaves (ca_payload u) (ca_payload v)" by (rule narrows_leaves [OF v(2) u])
    have "0 < depth" and d: "member_int (own (cp_fct (ca_payload v)) ''remainingRedelegationDepth'') = Some (depth - 1)"
      using v(2) chain_step(5,7) fl_exact [of "depth - 1"] unfolding narrows_def by auto
    have "parseCompactUcanAuthorization lib (ca_authorization v) None = Inr v" using v(1) unfolding parseCompact_iff by simp
    with chain_step(3) [of v "depth - 1"] d chain_step(7) \<open>0 < depth\<close>
    have ih: "int (length vs) \<le> depth - 1" "list_all (\<lambda>w. ucan_accepted lib w \<and> leaves (ca_payload v) (ca_payload w)) vs"
        "map (\<lambda>v. cp_prf (ca_payload v)) vs = map (\<lambda>c. [c]) (butlast (ca_cid v # map ca_cid vs))" by auto
    moreover have "list_all (\<lambda>w. ucan_accepted lib w \<and> leaves (ca_payload u) (ca_payload w)) vs"
      using ih(2) leaves_trans [OF uv] by (auto simp: list_all_iff)
    moreover have "cp_prf (ca_payload v) = [ca_cid u]" using v(2) unfolding narrows_def by blast
    ultimately show ?case using v(1) uv by simp
  qed simp
  then show "int (length vs) \<le> depth" and "list_all (\<lambda>v. ucan_accepted lib v \<and> leaves (ca_payload u) (ca_payload v)) vs"
    and "map (\<lambda>v. cp_prf (ca_payload v)) vs = map (\<lambda>c. [c]) (butlast (ca_cid u # map ca_cid vs))" by blast+
qed

lemma session_parsed:
  assumes "parsePolicySessionUcan lib a proofs = Inr session"
  obtains u depth where "parseCompactUcanAuthorization lib a None = Inr u" "ps_authorization session = a"
    "ps_cid session = ca_cid u" "ps_payload session = ca_payload u"
    "member_int (own (cp_fct (ps_payload session)) ''remainingRedelegationDepth'') = Some depth" "0 \<le> depth" "depth \<le> 8"
  using assms unfolding parsePolicySessionUcan_def Let_def
  by (elim bindR_InrE) (auto elim!: bindR_InrE simp: throw_if_Inr_iff split: list.split_asm option.split_asm)

text \<open>C5: Redelegation below a policy session ends and only narrows: a chain of descendants below the text of
  a session that was read is no longer than the depth the session grants, which is at most eight. Every
  link is an authorization that parses, is covered by the session's attenuation, lives inside its window,
  and repeats its facts (owner, policy, recipient, digests) except for the depth; the proof of
  each link is the CID of the one before it.\<close>

theorem policy_chain_narrows:
  assumes "parsePolicySessionUcan lib a proofs = Inr session" and "policy_chain lib (ps_authorization session) vs"
  shows "\<exists>depth \<le> 8. member_int (own (cp_fct (ps_payload session)) ''remainingRedelegationDepth'') = Some depth \<and>
    int (length vs) \<le> depth \<and>
    list_all (\<lambda>v. ucan_accepted lib v \<and> leaves (ps_payload session) (ca_payload v)) vs \<and>
    map (\<lambda>v. cp_prf (ca_payload v)) vs = map (\<lambda>c. [c]) (butlast (ps_cid session # map ca_cid vs))"
proof -
  from session_parsed [OF assms(1)] obtain u depth where u: "parseCompactUcanAuthorization lib a None = Inr u"
    "ps_authorization session = a" "ps_cid session = ca_cid u" "ps_payload session = ca_payload u"
    "member_int (own (cp_fct (ca_payload u)) ''remainingRedelegationDepth'') = Some depth" "0 \<le> depth" "depth \<le> 8"
    by metis
  show ?thesis
    using chain_narrows [OF assms(2) [unfolded u(2)] u(1,5,6,7)] u(3-7) by auto
qed


section \<open>What an invocation binds\<close>

text \<open>C14: An invocation is bound to the session it is made under: when createCompactPolicyInvocation returns one,
  the session text reads as a session with the CID and recipient the caller named, and
  the authorization parses, has that CID as its only proof and the recipient as its issuer, grants
  nothing but the one action on the one resource, starts now, and ends no later than
  the session and no later than a minute from now.\<close>

theorem invocation_binds_session:
  assumes "createCompactPolicyInvocation lib random clock input = Inr v"
    and "now = (case in_now input of None \<Rightarrow> clock | Some n \<Rightarrow> n)" and "fl now = now"
  shows "\<exists>session. parsePolicySessionUcan lib (in_sessionAuthorization input) None = Inr session \<and>
    ps_cid session = in_sessionCid input \<and> cp_aud (ps_payload session) = in_recipientDid input \<and>
    ucan_accepted lib v \<and> cp_prf (ca_payload v) = [ps_cid session] \<and> cp_iss (ca_payload v) = issuer_did (in_recipientDid input) \<and>
    att_within [(in_resource input, [(in_action input, [ObjJ (case in_caveat input of None \<Rightarrow> [] | Some c \<Rightarrow> c)])])] (cp_att (ca_payload v)) \<and>
    cp_nbf (ca_payload v) = now \<and> now < cp_exp (ca_payload v) \<and>
    cp_exp (ca_payload v) = min (fl (now + 60)) (cp_exp (ps_payload session))"
proof -
  from assms(1) obtain session x h s sig where
    a: "parsePolicySessionUcan lib (in_sessionAuthorization input) None = Inr session"
      "ps_cid session = in_sessionCid input" "cp_aud (ps_payload session) = in_recipientDid input"
    and e: "\<not> min (fl (now + 60)) (cp_exp (ps_payload session)) \<le> now"
    and p: "json_segment (header_json x) = Inr h"
      "json_segment (ucan_payload_json (invocation_payload random input session now (min (fl (now + 60)) (cp_exp (ps_payload session))))) = Inr s"
      "parseCompactUcanAuthorization lib (compact_text h s sig) None = Inr v"
    unfolding createCompactPolicyInvocation_def sign_with_key_def Let_def assms(2) [symmetric]
    by (elim bindR_InrE) (auto elim!: bindR_InrE simp: throw_if_Inr_iff simp del: not_le min_le_iff_disj split: option.split_asm)
  let ?p = "invocation_payload random input session now (min (fl (now + 60)) (cp_exp (ps_payload session)))"
  from session_parsed [OF a(1)] obtain u where "parseCompactUcanAuthorization lib (in_sessionAuthorization input) None = Inr u"
    "ps_payload session = ca_payload u" by blast
  then have "fl (cp_exp (ps_payload session)) = cp_exp (ps_payload session)"
    using accepted_window unfolding parseCompact_iff by metis
  then have w: "fl (cp_exp ?p) = cp_exp ?p" "fl (cp_nbf ?p) = cp_nbf ?p"
    using assms(3) by (simp_all add: invocation_payload_def min_def)
  obtain hf where "header_json x = ObjJ hf" by (simp add: header_json_def)
  note r = signed_payload_read [OF p(1) [unfolded this] p(2,3) w]
  have "att_within (cp_att ?p) (cp_att (ca_payload v))"
    using r(1) unfolding same_payload_def by (intro att_within_canon) simp
  then have att: "att_within [(in_resource input, [(in_action input, [ObjJ (case in_caveat input of None \<Rightarrow> [] | Some c \<Rightarrow> c)])])] (cp_att (ca_payload v))"
    by (simp add: invocation_payload_def)
  have "cp_prf (ca_payload v) = [ps_cid session]" "cp_iss (ca_payload v) = issuer_did (in_recipientDid input)"
    "cp_nbf (ca_payload v) = now" "cp_exp (ca_payload v) = min (fl (now + 60)) (cp_exp (ps_payload session))"
    using r(1) unfolding same_payload_def by (simp_all add: invocation_payload_def del: canon_of.simps)
  moreover have "now < min (fl (now + 60)) (cp_exp (ps_payload session))" using e by linarith
  ultimately show ?thesis using a r(2) att by (intro exI [of _ session] conjI) simp_all
qed

section \<open>Samples\<close>

definition chain_key :: bytes where "chain_key = replicate 32 7"

definition chain_att :: "string \<Rightarrow> string \<Rightarrow> attenuation" where
  "chain_att resource kind =
     [(ustr resource, [(ustr ''tinycloud.kv/get'', [ObjJ
        [(ustr ''type'', StrJ SELECTOR_TYPE), (ustr ''kind'', StrJ (ustr kind)), (ustr ''value'', StrJ (ustr resource))]])])]"

definition chain_fact_list :: "(string \<times> json) list" where
  "chain_fact_list =
     [(''profile'', StrJ POLICY_SESSION_UCAN_V1_PROFILE), (''ownerDid'', StrJ (ustr ''o'')), (''policyId'', StrJ (ustr ''p'')),
      (''policyDigestHex'', StrJ (ustr ''00'')), (''policyCid'', StrJ (ustr ''c'')), (''policyDelegationCid'', StrJ (ustr ''policy'')),
      (''enforcementDelegationCid'', StrJ (ustr ''enforcement'')), (''contentSourceDigestHex'', StrJ (ustr ''00'')),
      (''capabilityCeilingHashHex'', StrJ (ustr ''00'')), (''nativeProjectionHashHex'', StrJ (ustr ''00'')),
      (''enforcerDid'', StrJ (ustr ''e'')), (''nodeAudience'', StrJ ucan_did), (''recipientDid'', StrJ (ustr ''did:key:z6B'')),
      (''challengeId'', StrJ (ustr ''h'')), (''claimDigestHex'', StrJ (ustr ''00'')), (''claimJti'', StrJ (ustr ''j'')),
      (''vpDigestHex'', StrJ (ustr ''00'')), (''credentialEvidenceDigestHex'', StrJ (ustr ''00'')),
      (''decisionContextDigestHex'', StrJ (ustr ''00'')), (''issuanceAuditDigestHex'', StrJ (ustr ''00'')),
      (''remainingRedelegationDepth'', NumJ (number_of_int 2))]"

definition named :: "(string \<times> 'a) list \<Rightarrow> (ustring \<times> 'a) list" where
  "named fs = map (\<lambda>(k, v). (ustr k, v)) fs"

definition chain_facts :: json_object where "chain_facts = named chain_fact_list"

lemma own_named: "own (named fs) k = map_of fs k"
  by (induction fs) (auto simp: own_def named_def ustr_inject)

lemma own_keys_named: "distinct (map fst fs) \<Longrightarrow> own_keys (named fs) = map ustr (map fst fs)"
proof -
  assume "distinct (map fst fs)"
  then have "distinct (map ustr (map fst fs))" by (subst distinct_map) (simp add: inj_on_def ustr_inject)
  moreover have "map fst (named fs) = map ustr (map fst fs)" by (simp add: named_def case_prod_unfold)
  ultimately show ?thesis by (simp only: own_keys_def dedupe_distinct)
qed

lemma ustr_no_units: "[] = ustr s \<longleftrightarrow> s = []"
  by (simp add: ustr_def)

definition chain_payload :: compact_payload where
  "chain_payload =
     \<lparr>cp_att = chain_att ''tinycloud:s/kv/docs'' ''prefix'', cp_aud = ustr ''did:key:z6B'', cp_exp = 160,
      cp_fct = chain_facts, cp_iss = issuer_did ucan_did, cp_nbf = 100, cp_nnc = ustr ''n'',
      cp_prf = [ustr ''policy'', ustr ''enforcement'']\<rparr>"

definition chain_claims :: "ustring \<Rightarrow> descendant_claims" where
  "chain_claims cid =
     \<lparr>dc_parentCid = cid, dc_fact = AList.update (ustr ''remainingRedelegationDepth'') (NumJ (number_of_int 1)) chain_facts,
      dc_notBefore = 101, dc_expiresAt = 159, dc_nonce = ustr ''m''\<rparr>"

definition chain_child :: "ustring \<Rightarrow> ustring \<Rightarrow> descendant_input" where
  "chain_child authorization cid =
     \<lparr>de_parentAuthorization = authorization, de_parentCid = cid, de_issuerDid = ustr ''did:key:z6B'',
      de_audienceDid = ustr ''did:key:z6C'', de_attenuation = chain_att ''tinycloud:s/kv/docs/a'' ''exact'',
      de_now = None, de_expiresAt = Some 500, de_nonce = Some (ustr ''m'')\<rparr>"

definition chain_child_payload :: "ustring \<Rightarrow> compact_payload" where
  "chain_child_payload cid = signed_payload (descendant_sign_input (chain_child [] cid) (chain_claims cid))"

text \<open>A library whose \<open>JSON.parse\<close> reads every text that is the canonical text of a value of a list.\<close>

definition chain_lib :: "json list \<Rightarrow> compact_lib" where
  "chain_lib vals = ucan_lib\<lparr>cl_cidV1 := (\<lambda>_ _ _. ustr ''cid''), cl_parse := (\<lambda>t. List.find (\<lambda>v. serialize v = t) vals)\<rparr>"

definition chain_invocation :: "ustring \<Rightarrow> invocation_input" where
  "chain_invocation authorization =
     \<lparr>in_sessionAuthorization = authorization, in_sessionCid = ustr ''cid'', in_recipientDid = ustr ''did:key:z6B'',
      in_audienceDid = ucan_did, in_resource = ustr ''tinycloud:s/kv/docs/a'', in_action = ustr ''tinycloud.kv/get'',
      in_caveat = None, in_facts = Some [], in_privateKey = [], in_now = Some 120, in_nonce = Some (ustr ''i'')\<rparr>"

definition chain_invocation_payload :: compact_payload where
  "chain_invocation_payload =
     invocation_payload [] (chain_invocation []) \<lparr>ps_authorization = [], ps_cid = ustr ''cid'', ps_payload = chain_payload\<rparr> 120 160"

definition chain_values :: "json list" where
  "chain_values = [header_json (base64UrlEncode chain_key), ucan_payload_json chain_payload, ucan_payload_json (chain_child_payload (ustr ''cid'')),
     ucan_payload_json chain_invocation_payload]"

lemmas chain_defs = chain_payload_def chain_child_payload_def chain_child_def chain_claims_def chain_facts_def named_def
  chain_fact_list_def chain_att_def signed_payload_def descendant_sign_input_def SELECTOR_TYPE_def POLICY_SESSION_UCAN_V1_PROFILE_def
  chain_invocation_payload_def invocation_payload_def chain_invocation_def

lemma chain_dids: "scalar_string (issuer_did ucan_did)" "issuer_did ucan_did \<noteq> []" "scalar_string ucan_did" "ucan_did \<noteq> []"
    "scalar_string (issuer_did (ustr ''did:key:z6B''))" "issuer_did (ustr ''did:key:z6B'') \<noteq> []"
  by code_simp+

lemma chain_payloads: "payload_ok chain_payload" "payload_ok (chain_child_payload (ustr ''cid''))"
  "payload_ok chain_invocation_payload"
  using chain_dids by (simp_all add: payload_ok_def chain_defs fl_exact ustr_no_units)

lemma chain_texts: "json_ok (ucan_payload_json chain_payload)" "json_ok (ucan_payload_json (chain_child_payload (ustr ''cid'')))"
  "json_ok (ucan_payload_json chain_invocation_payload)"
  using chain_dids by (simp_all add: chain_defs ucan_payload_json_def attenuation_json_def allowed_key_def ustr_inject scalar_ustr del: scalar_simps)

lemma chain_contains:
  "compactAttenuationContains (chain_att ''tinycloud:s/kv/docs'' ''prefix'') (chain_att ''tinycloud:s/kv/docs/a'' ''exact'') = Inr True"
  by code_simp

lemma chain_keys: "own_keys chain_facts = map ustr (map fst chain_fact_list)"
  unfolding chain_facts_def by (rule own_keys_named) (simp add: chain_fact_list_def)

lemma chain_shape: "hasLegacyFactShape chain_facts" "\<not> hasV4AuditFactShape chain_facts"
  unfolding hasLegacyFactShape_def hasV4AuditFactShape_def chain_keys chain_fact_list_def
    POLICY_SESSION_FACT_KEYS_def POLICY_SESSION_V4_AUDIT_FACT_KEYS_def
  by (simp_all add: ustr_inject)

lemma nonce_differs:
  assumes "json_ok (ucan_payload_json p)" "json_ok (ucan_payload_json q)" "cp_nnc p \<noteq> cp_nnc q"
  shows "serialize (ucan_payload_json p) \<noteq> serialize (ucan_payload_json q)"
proof
  assume "serialize (ucan_payload_json p) = serialize (ucan_payload_json q)"
  then have "canon_of (ucan_payload_json p) = canon_of (ucan_payload_json q)"
    using assms(1,2) serialize_inject json_ok_finite by blast
  from canon_own [OF this [unfolded payload_fields_json], of "''nnc''"] assms(3) show False
    by (simp add: payload_field)
qed

lemma chain_find:
  "cl_parse (chain_lib chain_values) (serialize (header_json (base64UrlEncode chain_key))) = Some (header_json (base64UrlEncode chain_key))"
  "cl_parse (chain_lib chain_values) (serialize (ucan_payload_json chain_payload)) = Some (ucan_payload_json chain_payload)"
  "cl_parse (chain_lib chain_values) (serialize (ucan_payload_json (chain_child_payload (ustr ''cid'')))) =
     Some (ucan_payload_json (chain_child_payload (ustr ''cid'')))"
  "cl_parse (chain_lib chain_values) (serialize (ucan_payload_json chain_invocation_payload)) = Some (ucan_payload_json chain_invocation_payload)"
proof -
  have "cp_nnc chain_payload = ustr ''n''" "cp_nnc (chain_child_payload (ustr ''cid'')) = ustr ''m''" "cp_nnc chain_invocation_payload = ustr ''i''"
    by (simp_all add: chain_payload_def chain_child_payload_def signed_payload_def descendant_sign_input_def chain_claims_def
        chain_invocation_payload_def invocation_payload_def chain_invocation_def)
  then have d: "serialize (ucan_payload_json chain_payload) \<noteq> serialize (ucan_payload_json (chain_child_payload (ustr ''cid'')))"
    "serialize (ucan_payload_json chain_payload) \<noteq> serialize (ucan_payload_json chain_invocation_payload)"
    "serialize (ucan_payload_json (chain_child_payload (ustr ''cid''))) \<noteq> serialize (ucan_payload_json chain_invocation_payload)"
    using chain_texts by (intro nonce_differs; simp add: ustr_inject)+
  note h = header_not_claims [OF header_json_ok chain_texts(1), of chain_key] header_not_claims [OF header_json_ok chain_texts(2), of chain_key]
    header_not_claims [OF header_json_ok chain_texts(3), of chain_key]
  show "cl_parse (chain_lib chain_values) (serialize (header_json (base64UrlEncode chain_key))) = Some (header_json (base64UrlEncode chain_key))"
    "cl_parse (chain_lib chain_values) (serialize (ucan_payload_json chain_payload)) = Some (ucan_payload_json chain_payload)"
    "cl_parse (chain_lib chain_values) (serialize (ucan_payload_json (chain_child_payload (ustr ''cid'')))) =
     Some (ucan_payload_json (chain_child_payload (ustr ''cid'')))"
    "cl_parse (chain_lib chain_values) (serialize (ucan_payload_json chain_invocation_payload)) = Some (ucan_payload_json chain_invocation_payload)"
    using d h by (simp_all add: chain_lib_def chain_values_def del: serialize.simps)
qed

lemma chain_material: "drop 2 ucan_material = chain_key" "ucan_material = [0xED, 0x01] @ chain_key" "length chain_key = 32"
  by (simp_all add: ucan_material_def chain_key_def)

lemma chain_did_material: "startsWith (principal_of did) DID_KEY \<Longrightarrow> did_material (chain_lib vals) did = Inr ([0xED, 0x01] @ chain_key)"
  by (simp add: did_material_def chain_lib_def ucan_lib_def chain_material)

definition chain_root :: compact_authorization where
  "chain_root = written_ucan (chain_lib chain_values) chain_key chain_payload (replicate 64 1)"

definition chain_link :: compact_authorization where
  "chain_link = written_ucan (chain_lib chain_values) chain_key (chain_child_payload (ustr ''cid'')) (replicate 64 1)"

lemma chain_starts: "startsWith (principal_of (issuer_did ucan_did)) DID_KEY"
  "startsWith (principal_of (issuer_did (ustr ''did:key:z6B''))) DID_KEY" "principal_of (issuer_did ucan_did) = ucan_did"
  by code_simp+

lemma chain_members:
  "cp_iss chain_payload = issuer_did ucan_did" "cp_nbf chain_payload = 100" "cp_exp chain_payload = 160"
  "cp_iss (chain_child_payload c) = issuer_did (ustr ''did:key:z6B'')" "cp_nbf (chain_child_payload c) = 101"
  "cp_exp (chain_child_payload c) = 159"
  by (simp_all add: chain_payload_def chain_child_payload_def signed_payload_def descendant_sign_input_def chain_child_def chain_claims_def)

lemma chain_verifies: "cl_verify (chain_lib vals) (replicate 64 1) message chain_key = Some True"
  by (simp add: chain_lib_def ucan_lib_def chain_material)

lemma chain_accepted: "ucan_accepted (chain_lib chain_values) chain_root" "ucan_accepted (chain_lib chain_values) chain_link"
proof -
  show "ucan_accepted (chain_lib chain_values) chain_root"
    unfolding chain_root_def
    by (rule written_accepted [OF _ chain_material(3) chain_payloads(1) chain_texts(1) _ chain_find(1,2) _ chain_verifies])
      (simp_all only: chain_members chain_did_material [OF chain_starts(1)], simp_all)
  show "ucan_accepted (chain_lib chain_values) chain_link"
    unfolding chain_link_def
    by (rule written_accepted [OF _ chain_material(3) chain_payloads(2) chain_texts(2) _ chain_find(1,3) _ chain_verifies])
      (simp_all only: chain_members chain_did_material [OF chain_starts(2)], simp_all)
qed

lemma chain_cids: "ca_cid chain_root = ustr ''cid''" "ca_cid chain_link = ustr ''cid''"
  by (simp_all add: chain_root_def chain_link_def written_ucan_def authorization_cid_def chain_lib_def Let_def)

definition chain_session :: policy_session where
  "chain_session = \<lparr>ps_authorization = ca_authorization chain_root, ps_cid = ca_cid chain_root, ps_payload = chain_payload\<rparr>"

lemma chain_root_payload: "ca_payload chain_root = chain_payload" "ca_payload chain_link = chain_child_payload (ustr ''cid'')"
  by (simp_all add: chain_root_def chain_link_def written_ucan_def Let_def)

lemma chain_facts_members:
  "own chain_facts ''profile'' = Some (StrJ POLICY_SESSION_UCAN_V1_PROFILE)" "own chain_facts ''nodeAudience'' = Some (StrJ ucan_did)"
  "own chain_facts ''recipientDid'' = Some (StrJ (ustr ''did:key:z6B''))"
  "own chain_facts ''remainingRedelegationDepth'' = Some (NumJ (number_of_int 2))"
  unfolding chain_facts_def own_named by (simp_all add: chain_fact_list_def)

lemma chain_session_parsed:
  "parsePolicySessionUcan (chain_lib chain_values) (ca_authorization chain_root) None = Inr chain_session"
  "parsePolicySessionUcan (chain_lib chain_values) (ca_authorization chain_root) (Some (ustr ''policy'', ustr ''enforcement'')) = Inr chain_session"
proof -
  have "parseCompactUcanAuthorization (chain_lib chain_values) (ca_authorization chain_root) None = Inr chain_root"
    using chain_accepted(1) unfolding parseCompact_iff by simp
  moreover have "cp_prf chain_payload = [ustr ''policy'', ustr ''enforcement'']" "cp_fct chain_payload = chain_facts"
    "cp_aud chain_payload = ustr ''did:key:z6B''" by (simp_all add: chain_payload_def)
  ultimately show
    "parsePolicySessionUcan (chain_lib chain_values) (ca_authorization chain_root) None = Inr chain_session"
    "parsePolicySessionUcan (chain_lib chain_values) (ca_authorization chain_root) (Some (ustr ''policy'', ustr ''enforcement'')) = Inr chain_session"
    by (simp_all add: parsePolicySessionUcan_def Let_def chain_root_payload chain_facts_members chain_shape chain_members chain_starts
        throw_if_def ustr_inject member_int_def number_int_of_int fl_exact MAX_POLICY_ROOT_SECONDS_def chain_session_def)
qed

lemma chain_fields:
  "cl_base58 (chain_lib vals) x = Some ([0xED, 0x01] @ chain_key)" "cl_publicKey (chain_lib vals) k = Some chain_key"
  "cl_sign (chain_lib vals) message k = Some (replicate 64 1)"
  by (simp_all add: chain_lib_def ucan_lib_def chain_material)

lemma chain_descends: "descends (chain_lib chain_values) (ca_authorization chain_root) chain_link"
proof (rule descends.created)
  let ?lib = "chain_lib chain_values" and ?input = "chain_child (ca_authorization chain_root) (ustr ''cid'')"
  show "de_parentAuthorization ?input = ca_authorization chain_root" by (simp add: chain_child_def)
  show "times_given ?input" by (simp add: times_given_def chain_child_def fl_exact)
  have "parseCompactUcanAuthorization ?lib (ca_authorization chain_root) (Some (ustr ''cid'')) = Inr chain_root"
    using chain_accepted(1) chain_cids(1) unfolding parseCompact_iff by simp
  moreover have "cp_fct chain_payload = chain_facts" "cp_aud chain_payload = ustr ''did:key:z6B''"
    "cp_att chain_payload = chain_att ''tinycloud:s/kv/docs'' ''prefix''" by (simp_all add: chain_payload_def)
  ultimately have c: "compactPolicyDescendantClaims ?lib [] ?input = Inr (chain_claims (ustr ''cid''))"
    using chain_contains
    by (simp add: compactPolicyDescendantClaims_def Let_def chain_child_def chain_root_payload chain_facts_members chain_members
        throw_if_def member_int_def number_int_of_int fl_exact chain_cids chain_claims_def)
  have p: "signed_payload (descendant_sign_input ?input (chain_claims (ustr ''cid''))) = chain_child_payload (ustr ''cid'')"
    by (simp add: chain_child_payload_def chain_child_def signed_payload_def descendant_sign_input_def)
  have v: "parseCompactUcanAuthorization ?lib (ca_authorization chain_link) None = Inr chain_link"
    using chain_accepted(2) unfolding parseCompact_iff by simp
  have t: "ca_authorization chain_link = compact_text (segment_of (header_json (base64UrlEncode chain_key)))
      (segment_of (ucan_payload_json (chain_child_payload (ustr ''cid'')))) (replicate 64 1)"
    by (simp add: chain_link_def written_ucan_def Let_def)
  have "sign_with_key ?lib chain_key [] (chain_child_payload (ustr ''cid'')) = Inr chain_link"
    using written_carries [OF chain_texts(2) chain_find(1,3)] v
    by (simp add: sign_with_key_def encodeBase64Url_def t chain_fields)
  then show "createCompactPolicyDescendant ?lib [] ?input [] = Inr chain_link"
    by (simp add: createCompactPolicyDescendant_def c p chain_fields chain_material(3) throw_if_def)
qed

theorem policy_chain_narrows_witness:
  "\<exists>lib session v. parsePolicySessionUcan lib (ps_authorization session) None = Inr session \<and>
    policy_chain lib (ps_authorization session) [v] \<and> leaves (ps_payload session) (ca_payload v) \<and>
    cp_prf (ca_payload v) = [ps_cid session]"
proof (intro exI [of _ "chain_lib chain_values"] exI [of _ chain_session] exI [of _ chain_link] conjI)
  let ?lib = "chain_lib chain_values"
  show s: "parsePolicySessionUcan ?lib (ps_authorization chain_session) None = Inr chain_session"
    using chain_session_parsed by (simp add: chain_session_def)
  show c: "policy_chain ?lib (ps_authorization chain_session) [chain_link]"
    using chain_descends by (auto simp: chain_session_def intro: policy_chain.intros)
  show "leaves (ps_payload chain_session) (ca_payload chain_link)" "cp_prf (ca_payload chain_link) = [ps_cid chain_session]"
    using policy_chain_narrows [OF s c] by (elim exE conjE, simp)+
qed


lemma chain_invoked:
  "\<exists>v. createCompactPolicyInvocation (chain_lib chain_values) [] 0 (chain_invocation (ca_authorization chain_root)) = Inr v"
proof -
  let ?lib = "chain_lib chain_values" and ?input = "chain_invocation (ca_authorization chain_root)"
  define v where "v = written_ucan ?lib chain_key chain_invocation_payload (replicate 64 1)"
  have m: "cp_iss chain_invocation_payload = issuer_did (ustr ''did:key:z6B'')" "cp_nbf chain_invocation_payload = 120"
    "cp_exp chain_invocation_payload = 160"
    by (simp_all add: chain_invocation_payload_def invocation_payload_def chain_invocation_def)
  have "ucan_accepted ?lib v"
    unfolding v_def
    by (rule written_accepted [OF _ chain_material(3) chain_payloads(3) chain_texts(3) _ chain_find(1,4) _ chain_verifies])
      (simp_all only: m chain_did_material [OF chain_starts(2)], simp_all)
  then have v: "parseCompactUcanAuthorization ?lib (ca_authorization v) None = Inr v" unfolding parseCompact_iff by simp
  have t: "ca_authorization v = compact_text (segment_of (header_json (base64UrlEncode chain_key)))
      (segment_of (ucan_payload_json chain_invocation_payload)) (replicate 64 1)"
    by (simp add: v_def written_ucan_def Let_def)
  have s: "sign_with_key ?lib chain_key [] chain_invocation_payload = Inr v"
    using written_carries [OF chain_texts(3) chain_find(1,4)] v
    by (simp add: sign_with_key_def encodeBase64Url_def t chain_fields)
  have p: "invocation_payload [] ?input chain_session 120 160 = chain_invocation_payload"
    by (simp add: chain_invocation_payload_def invocation_payload_def chain_invocation_def chain_session_def chain_cids)
  have i: "in_sessionAuthorization ?input = ca_authorization chain_root" "in_sessionCid ?input = ps_cid chain_session"
    "in_recipientDid ?input = cp_aud (ps_payload chain_session)" "in_now ?input = Some 120" "in_privateKey ?input = []"
    and e: "cp_exp (ps_payload chain_session) = 160"
    by (simp_all add: chain_invocation_def chain_session_def chain_cids chain_payload_def)
  have "ed25519_material ([0xED, 0x01] @ chain_key)" by (simp add: ed25519_material_def chain_key_def)
  then have "createCompactPolicyInvocation ?lib [] 0 ?input = Inr v"
    unfolding createCompactPolicyInvocation_def i Let_def using p s
    by (simp add: chain_session_parsed chain_fields throw_if_def fl_exact e)
  then show ?thesis ..
qed

theorem invocation_binds_session_witness:
  "\<exists>lib input session v. createCompactPolicyInvocation lib [] 0 input = Inr v \<and>
    parsePolicySessionUcan lib (in_sessionAuthorization input) None = Inr session \<and>
    cp_prf (ca_payload v) = [ps_cid session] \<and> cp_nbf (ca_payload v) = 120 \<and> cp_exp (ca_payload v) \<le> 180"
proof -
  obtain v where v: "createCompactPolicyInvocation (chain_lib chain_values) [] 0 (chain_invocation (ca_authorization chain_root)) = Inr v"
    using chain_invoked ..
  have now: "120 = (case in_now (chain_invocation (ca_authorization chain_root)) of None \<Rightarrow> 0 | Some n \<Rightarrow> n)"
    by (simp add: chain_invocation_def)
  have "fl 120 = 120" "fl 180 = 180" by (simp_all add: fl_exact)
  with invocation_binds_session [OF v now] v show ?thesis
    by (intro exI [of _ "chain_lib chain_values"] exI [of _ "chain_invocation (ca_authorization chain_root)"]) auto
qed

end
