(* ===== verification/PolicyReach.thy ===== *)
theory PolicyReach
  imports PolicyChain
begin

text \<open>
  The contract of \<open>compactAttenuationContains\<close> for the attenuations that
  \<open>compactAttenuationForPolicyCapabilities\<close> makes (\<^verbatim>\<open>packages/sdk-core/src/policy/unified.ts\<close>):
  containment is inclusion of the accesses the capabilities allow.
\<close>

section \<open>What one action of a capability reaches\<close>

fun cap_actions :: "unified_capability \<Rightarrow> ustring list" where
  "cap_actions (KvCapability resource sel actions) = actions"
| "cap_actions (EncryptionCapability resource) = [DECRYPT]"

fun cap_reach :: "unified_capability \<Rightarrow> ustring set" where
  "cap_reach (KvCapability resource PrefixOf actions) = subtree resource"
| "cap_reach (KvCapability resource Exact actions) = {resource}"
| "cap_reach (EncryptionCapability resource) = {resource}"

fun cap_caveats :: "unified_capability \<Rightarrow> json list" where
  "cap_caveats (KvCapability resource sel actions) = [selector_caveat sel resource]"
| "cap_caveats (EncryptionCapability resource) = [ObjJ []]"

lemma cap_accesses_reach: "cap_accesses c = cap_reach c \<times> set (cap_actions c)"
  by (cases c rule: cap_accesses.cases) auto

lemma cap_reach_self: "cap_resource c \<in> cap_reach c"
  by (cases c rule: cap_reach.cases) auto

lemma cap_attenuation_caveats: "map_of (cap_attenuation c) a = (if a \<in> set (cap_actions c) then Some (cap_caveats c) else None)"
proof -
  have "map_of (map (\<lambda>action. (action, v)) xs) a = (if a \<in> set xs then Some v else None)" for xs :: "ustring list" and v :: "json list"
    by (induction xs) auto
  then show ?thesis by (cases c) auto
qed

lemma cap_actions_nonempty: "cap_ok c \<Longrightarrow> cap_actions c \<noteq> []"
  by (cases c) auto

lemma prototype_not_action: "cap_ok c \<Longrightarrow> a \<in> set (cap_actions c) \<Longrightarrow> a \<notin> set OBJECT_PROTOTYPE"
proof -
  have kv: "list_all (\<lambda>a. a \<notin> set OBJECT_PROTOTYPE) (DECRYPT # KV_ACTIONS)"
    by (simp add: OBJECT_PROTOTYPE_def KV_ACTIONS_def DECRYPT_def ustr_inject)
  assume "cap_ok c" "a \<in> set (cap_actions c)"
  then have "a \<in> set (DECRYPT # KV_ACTIONS)" by (cases c) auto
  with kv show "a \<notin> set OBJECT_PROTOTYPE" by (auto simp: list_all_iff)
qed

lemma caveat_selector_of: "caveat_selector [selector_caveat sel resource] = Some (sel, resource)"
  by (cases sel) (simp_all add: selector_caveat_def own_keys_def own_def push_new_def ustr_inject selector_of_def)

lemma cap_selector: "caveat_selector (cap_caveats c) = (case c of KvCapability resource sel _ \<Rightarrow> Some (sel, resource) | _ \<Rightarrow> None)"
  by (cases c) (simp_all add: caveat_selector_of own_keys_def)

lemma cap_caveats_ok: "scalar_string (cap_resource c) \<Longrightarrow> json_ok (ArrJ (cap_caveats c))"
proof -
  have "scalar_string (selector_text sel)" for sel by (cases sel) (simp_all add: scalar_ustr del: scalar_simps)
  then show "scalar_string (cap_resource c) \<Longrightarrow> json_ok (ArrJ (cap_caveats c))"
    by (cases c) (auto simp: selector_caveat_def allowed_key_def ustr_inject scalar_ustr SELECTOR_TYPE_def simp del: scalar_simps)
qed

lemma cap_caveats_inject:
  assumes "cap_resource c = cap_resource d" and "canon_of (ArrJ (cap_caveats c)) = canon_of (ArrJ (cap_caveats d))"
  shows "cap_reach c = cap_reach d"
proof -
  have "caveat_selector (cap_caveats c) = caveat_selector (cap_caveats d)" by (rule caveat_selector_canon [OF assms(2)])
  then show ?thesis
    using assms(1) unfolding cap_selector by (cases c rule: cap_reach.cases; cases d rule: cap_reach.cases) auto
qed

lemma caveats_equal_caps:
  assumes "scalar_string (cap_resource p)" "scalar_string (cap_resource c)"
  shows "caveats_equal (cap_caveats p) (cap_caveats c) = Inr (canon_of (ArrJ (cap_caveats p)) = canon_of (ArrJ (cap_caveats c)))"
proof -
  note ok = cap_caveats_ok [OF assms(1)] cap_caveats_ok [OF assms(2)]
  have "jcs (ArrJ (cap_caveats p)) = Inr (serialize (ArrJ (cap_caveats p)))" "jcs (ArrJ (cap_caveats c)) = Inr (serialize (ArrJ (cap_caveats c)))"
    unfolding jcs_iff using ok by blast+
  moreover have "serialize (ArrJ (cap_caveats p)) = serialize (ArrJ (cap_caveats c)) \<longleftrightarrow>
      canon_of (ArrJ (cap_caveats p)) = canon_of (ArrJ (cap_caveats c))"
    using ok serialize_inject json_ok_finite by blast
  ultimately show ?thesis unfolding caveats_equal_def by (simp only: bindR.simps)
qed

text \<open>One entry of the parent covers an action of the child exactly when it reaches everything the
  action reaches.\<close>

lemma prefix_not_single: "\<not> subtree r \<subseteq> {p}"
proof -
  have "r \<in> subtree r" "r @ ustr ''/'' @ [] \<in> subtree r" "r \<noteq> r @ ustr ''/'' @ []"
    by (simp_all only: subtree_self subtree_below) (simp add: ustr_def)
  then show ?thesis by blast
qed

lemma parent_covers_reach:
  assumes p: "cap_ok p" "scalar_string (cap_resource p)" and c: "cap_ok c" "scalar_string (cap_resource c)" "a \<in> set (cap_actions c)"
  shows "parent_covers (cap_resource c) a (cap_caveats c) (cap_resource p, cap_attenuation p) =
    Inr (a \<in> set (cap_actions p) \<and> cap_reach c \<subseteq> cap_reach p)"
proof (cases "a \<in> set (cap_actions p)")
  case False
  then show ?thesis
    using prototype_not_action [OF c(1,3)] by (simp add: parent_covers_def cap_attenuation_caveats)
next
  case True
  have sel: "selector_covers (cap_resource p) (cap_caveats p) (cap_resource c) (cap_caveats c) \<longleftrightarrow>
      (\<exists>acts. p = KvCapability (cap_resource p) PrefixOf acts) \<and> (\<exists>s acts. c = KvCapability (cap_resource c) s acts) \<and>
      cap_resource c \<in> subtree (cap_resource p)"
    unfolding selector_covers_def cap_selector
    by (cases p rule: cap_reach.cases; cases c) (auto simp: subtree_def)
  have kinds: "(\<exists>r s acts. p = KvCapability r s acts) \<longleftrightarrow> (\<exists>r s acts. c = KvCapability r s acts)"
  proof -
    have "a = DECRYPT \<longleftrightarrow> \<not> (\<exists>r s acts. d = KvCapability r s acts)" if "cap_ok d" "a \<in> set (cap_actions d)" for d
      using that decrypt_not_kv by (cases d) auto
    from this [OF p(1) True] this [OF c(1,3)] show ?thesis by blast
  qed
  have same: "cap_resource p = cap_resource c \<and> canon_of (ArrJ (cap_caveats p)) = canon_of (ArrJ (cap_caveats c)) \<Longrightarrow>
      cap_reach c \<subseteq> cap_reach p"
    using cap_caveats_inject [of p c] by simp
  have below: "cap_reach c \<subseteq> cap_reach p" if "p = KvCapability (cap_resource p) PrefixOf acts" "cap_resource c \<in> subtree (cap_resource p)" for acts
  proof -
    from that have "cap_reach p = subtree (cap_resource p)" by (metis cap_reach.simps(1))
    moreover have "cap_reach c \<subseteq> subtree (cap_resource c)" by (cases c rule: cap_reach.cases) auto
    ultimately show ?thesis using subtree_mono [OF that(2)] by blast
  qed
  have reaches: "cap_resource c \<in> cap_reach p" if "cap_reach c \<subseteq> cap_reach p" using that cap_reach_self by blast
  have only: "cap_resource p = cap_resource c \<and> canon_of (ArrJ (cap_caveats p)) = canon_of (ArrJ (cap_caveats c)) \<or>
      selector_covers (cap_resource p) (cap_caveats p) (cap_resource c) (cap_caveats c)" if "cap_reach c \<subseteq> cap_reach p"
    using that kinds reaches [OF that] prefix_not_single [of "cap_resource c"] unfolding sel
    by (cases p rule: cap_reach.cases; cases c rule: cap_reach.cases) auto
  show ?thesis
    using True same below only sel
    by (auto simp: parent_covers_def cap_attenuation_caveats caveats_equal_caps p(2) c(2) simp del: canon_of.simps)
qed

section \<open>One entry is enough\<close>

text \<open>A prefix that is covered by several capabilities together is covered by one of them: something
  far enough below it is reached by a prefix that reaches all of it.\<close>

lemma far_below:
  assumes "length p \<le> n" and "r @ ustr ''/'' @ replicate n (0x7A :: 16 word) \<in> subtree p"
  shows "r \<in> subtree p"
proof -
  have slash: "ustr ''/'' = [0x2F]" by (simp add: ustr_def unit_of_def)
  from assms have "prefix (p @ [0x2F]) ((r @ [0x2F]) @ replicate n 0x7A)" by (auto simp: subtree_def slash)
  then consider "prefix (p @ [0x2F]) (r @ [0x2F])" | us where "p @ [0x2F] = (r @ [0x2F]) @ us" "prefix us (replicate n 0x7A)"
    unfolding prefix_append by blast
  then show ?thesis
  proof cases
    case 1
    then show ?thesis by (auto simp: subtree_def slash)
  next
    case 2
    show ?thesis
    proof (cases us rule: rev_cases)
      case Nil
      with 2(1) show ?thesis by simp
    next
      case (snoc ws w)
      with 2(1) have "w = 0x2F" by simp
      moreover have "w \<in> set (replicate n 0x7A)" using set_mono_prefix [OF 2(2)] snoc by auto
      ultimately show ?thesis by simp
    qed
  qed
qed

lemma one_covers:
  assumes "cap_reach c \<subseteq> (\<Union>p \<in> set ps. cap_reach p)"
  shows "\<exists>p \<in> set ps. cap_reach c \<subseteq> cap_reach p"
proof (cases "cap_reach c = subtree (cap_resource c)")
  case True
  define n where "n = Max (set (map (length \<circ> cap_resource) ps))"
  let ?far = "cap_resource c @ ustr ''/'' @ replicate n 0x7A"
  have "?far \<in> cap_reach c" unfolding True by (rule subtree_below)
  with assms obtain p where p: "p \<in> set ps" "?far \<in> cap_reach p" by blast
  have n: "length (cap_resource p) \<le> n" unfolding n_def using p(1) by (intro Max_ge) auto
  have "cap_reach p \<noteq> {cap_resource p}"
  proof
    assume "cap_reach p = {cap_resource p}"
    with p(2) have "?far = cap_resource p" by simp
    then have "length ?far = length (cap_resource p)" by (rule arg_cong)
    with n show False by (simp add: ustr_def)
  qed
  then have "cap_reach p = subtree (cap_resource p)" by (cases p rule: cap_reach.cases) auto
  then show ?thesis using p far_below [OF n, of "cap_resource c"] True subtree_mono by metis
next
  case False
  then have "cap_reach c = {cap_resource c}" by (cases c rule: cap_reach.cases) auto
  then show ?thesis using assms by auto
qed

section \<open>Attenuations of policy capabilities\<close>

lemma compact_attenuation_caps:
  "compact_attenuation (map (\<lambda>c. (cap_resource c, cap_attenuation c)) ds) input = Inr att \<Longrightarrow> distinct (map cap_resource ds) \<Longrightarrow>
   \<exists>cs. mapR normalizeUnifiedPolicyCapability input = Inr cs \<and> distinct (map cap_resource (ds @ cs)) \<and>
     att = map (\<lambda>c. (cap_resource c, cap_attenuation c)) (ds @ cs)"
proof (induction input arbitrary: ds)
  case (Cons raw input)
  from Cons.prems(1) obtain c where c: "normalizeUnifiedPolicyCapability raw = Inr c"
    and fresh: "map_of (map (\<lambda>c. (cap_resource c, cap_attenuation c)) ds) (cap_resource c) = None"
    and rest: "compact_attenuation (map (\<lambda>c. (cap_resource c, cap_attenuation c)) (ds @ [c])) input = Inr att"
    by (auto elim!: bindR_InrE split: if_split_asm)
  from fresh have "distinct (map cap_resource (ds @ [c]))" using Cons.prems(2) by (auto simp: map_of_eq_None_iff image_image)
  from Cons.IH [OF rest this] c show ?case by auto
qed simp

definition all_accesses :: "unified_capability list \<Rightarrow> (ustring \<times> ustring) set" where
  "all_accesses cs = (\<Union>c \<in> set cs. cap_accesses c)"

lemma entries_caps:
  assumes "distinct (map cap_resource cs)"
  shows "set (own_entries (map (\<lambda>c. (cap_resource c, cap_attenuation c)) cs)) = (\<lambda>c. (cap_resource c, cap_attenuation c)) ` set cs"
proof -
  let ?att = "map (\<lambda>c. (cap_resource c, cap_attenuation c)) cs"
  have "distinct (map fst ?att)" using assms by (simp add: comp_def)
  then have "(k, v) \<in> set (own_entries ?att) \<longleftrightarrow> (k, v) \<in> set ?att" for k v
    unfolding own_entries_iff by (rule map_of_eq_Some_iff)
  then show ?thesis by auto
qed

lemma entries_actions: "set (own_entries (cap_attenuation c)) = (\<lambda>a. (a, cap_caveats c)) ` set (cap_actions c)"
  by (auto simp: own_entries_iff cap_attenuation_caveats split: if_split_asm)

lemma all_accesses_iff:
  assumes "list_all cap_ok ps"
  shows "(\<forall>c \<in> set cs. \<forall>a \<in> set (cap_actions c). \<exists>p \<in> set ps. a \<in> set (cap_actions p) \<and> cap_reach c \<subseteq> cap_reach p) \<longleftrightarrow>
    all_accesses cs \<subseteq> all_accesses ps"
proof
  assume "all_accesses cs \<subseteq> all_accesses ps"
  show "\<forall>c \<in> set cs. \<forall>a \<in> set (cap_actions c). \<exists>p \<in> set ps. a \<in> set (cap_actions p) \<and> cap_reach c \<subseteq> cap_reach p"
  proof (intro ballI)
    fix c a
    assume c: "c \<in> set cs" "a \<in> set (cap_actions c)"
    have "cap_reach c \<subseteq> (\<Union>p \<in> set (filter (\<lambda>p. a \<in> set (cap_actions p)) ps). cap_reach p)"
    proof
      fix r
      assume "r \<in> cap_reach c"
      with c have "(r, a) \<in> all_accesses cs" by (auto simp: all_accesses_def cap_accesses_reach)
      with \<open>all_accesses cs \<subseteq> all_accesses ps\<close> have "(r, a) \<in> all_accesses ps" by blast
      then show "r \<in> (\<Union>p \<in> set (filter (\<lambda>p. a \<in> set (cap_actions p)) ps). cap_reach p)"
        by (auto simp: all_accesses_def cap_accesses_reach)
    qed
    from one_covers [OF this] show "\<exists>p \<in> set ps. a \<in> set (cap_actions p) \<and> cap_reach c \<subseteq> cap_reach p" by auto
  qed
qed (fastforce simp: all_accesses_def cap_accesses_reach)

lemma contains_caps:
  assumes ps: "list_all cap_ok ps" "distinct (map cap_resource ps)" "list_all (\<lambda>p. scalar_string (cap_resource p)) ps"
    and cs: "list_all cap_ok cs" "distinct (map cap_resource cs)" "list_all (\<lambda>c. scalar_string (cap_resource c)) cs"
  shows "compactAttenuationContains (map (\<lambda>c. (cap_resource c, cap_attenuation c)) ps) (map (\<lambda>c. (cap_resource c, cap_attenuation c)) cs) =
    Inr (all_accesses cs \<subseteq> all_accesses ps)"
proof -
  let ?P = "map (\<lambda>c. (cap_resource c, cap_attenuation c)) ps" and ?C = "map (\<lambda>c. (cap_resource c, cap_attenuation c)) cs"
  define good where "good a c = (\<exists>p \<in> set ps. a \<in> set (cap_actions p) \<and> cap_reach c \<subseteq> cap_reach p)" for a c
  have one: "someR (parent_covers (cap_resource c) a (cap_caveats c)) (own_entries ?P) = Inr (good a c)"
    if c: "c \<in> set cs" "a \<in> set (cap_actions c)" for c a
  proof -
    define q where "q e = (\<exists>p \<in> set ps. e = (cap_resource p, cap_attenuation p) \<and> a \<in> set (cap_actions p) \<and> cap_reach c \<subseteq> cap_reach p)" for e
    have "parent_covers (cap_resource c) a (cap_caveats c) e = Inr (q e)" if e: "e \<in> set (own_entries ?P)" for e
    proof -
      from e obtain p where p: "p \<in> set ps" "e = (cap_resource p, cap_attenuation p)" unfolding entries_caps [OF ps(2)] by blast
      have uniq: "p' = p" if "p' \<in> set ps" "cap_resource p' = cap_resource p" for p'
        using that p(1) ps(2) by (auto simp: distinct_map inj_on_def)
      have "q e \<longleftrightarrow> a \<in> set (cap_actions p) \<and> cap_reach c \<subseteq> cap_reach p"
      proof
        assume "q e"
        then obtain p' where p': "p' \<in> set ps" "e = (cap_resource p', cap_attenuation p')"
          "a \<in> set (cap_actions p') \<and> cap_reach c \<subseteq> cap_reach p'" unfolding q_def by blast
        then have "p' = p" using uniq p(2) by simp
        with p'(3) show "a \<in> set (cap_actions p) \<and> cap_reach c \<subseteq> cap_reach p" by simp
      qed (use p q_def in blast)
      then show ?thesis
        using parent_covers_reach [of p c a] p c ps(1,3) cs(1,3) by (simp add: list_all_iff)
    qed
    from someR_Inr [OF this] have "someR (parent_covers (cap_resource c) a (cap_caveats c)) (own_entries ?P) = Inr (list_ex q (own_entries ?P))" .
    moreover have "list_ex q (own_entries ?P) \<longleftrightarrow> good a c"
      unfolding list_ex_iff entries_caps [OF ps(2)] q_def good_def by auto
    ultimately show ?thesis by simp
  qed
  define inner where "inner e = (\<exists>c \<in> set cs. e = (cap_resource c, cap_attenuation c) \<and> (\<forall>a \<in> set (cap_actions c). good a c))" for e
  have inner_iff: "inner (cap_resource c, cap_attenuation c) \<longleftrightarrow> (\<forall>a \<in> set (cap_actions c). good a c)" if c: "c \<in> set cs" for c
  proof
    assume "inner (cap_resource c, cap_attenuation c)"
    then obtain c' where c': "c' \<in> set cs" "cap_resource c' = cap_resource c" "\<forall>a \<in> set (cap_actions c'). good a c'"
      unfolding inner_def by auto
    then have "c' = c" using c cs(2) by (auto simp: distinct_map inj_on_def)
    with c'(3) show "\<forall>a \<in> set (cap_actions c). good a c" by simp
  qed (use c inner_def in blast)
  have "(case e of (childResource, childActions) \<Rightarrow>
       everyR (\<lambda>(action, childCaveats). someR (parent_covers childResource action childCaveats) (own_entries ?P))
         (own_entries childActions)) = Inr (inner e)" if e: "e \<in> set (own_entries ?C)" for e
  proof -
    from e obtain c where c: "c \<in> set cs" "e = (cap_resource c, cap_attenuation c)" unfolding entries_caps [OF cs(2)] by blast
    have "everyR (\<lambda>(action, childCaveats). someR (parent_covers (cap_resource c) action childCaveats) (own_entries ?P))
         (own_entries (cap_attenuation c)) = Inr (list_all (\<lambda>(a, v). good a c) (own_entries (cap_attenuation c)))"
    proof (rule everyR_Inr)
      fix entry
      assume "entry \<in> set (own_entries (cap_attenuation c))"
      then obtain a where a: "a \<in> set (cap_actions c)" "entry = (a, cap_caveats c)" unfolding entries_actions by blast
      show "(case entry of (action, childCaveats) \<Rightarrow> someR (parent_covers (cap_resource c) action childCaveats) (own_entries ?P)) =
          Inr (case entry of (a, v) \<Rightarrow> good a c)"
        unfolding a(2) prod.case by (rule one [OF c(1) a(1)])
    qed
    moreover have "list_all (\<lambda>(a, v). good a c) (own_entries (cap_attenuation c)) \<longleftrightarrow> (\<forall>a \<in> set (cap_actions c). good a c)"
      unfolding list_all_iff entries_actions by simp
    moreover have "inner e \<longleftrightarrow> (\<forall>a \<in> set (cap_actions c). good a c)" unfolding c(2) by (rule inner_iff [OF c(1)])
    ultimately show ?thesis unfolding c(2) by simp
  qed
  from everyR_Inr [OF this] have "compactAttenuationContains ?P ?C = Inr (list_all inner (own_entries ?C))"
    unfolding compactAttenuationContains_def .
  moreover have "list_all inner (own_entries ?C) \<longleftrightarrow> (\<forall>c \<in> set cs. \<forall>a \<in> set (cap_actions c). good a c)"
    unfolding list_all_iff entries_caps [OF cs(2)] using inner_iff by simp
  ultimately show ?thesis using all_accesses_iff [OF ps(1), of cs] unfolding good_def by simp
qed


text \<open>C10: Containment of the attenuations made from two lists of policy capabilities is inclusion of
  what the capabilities allow: compactAttenuationContains answers, and it answers yes exactly when
  every access (resource and action) that some capability of the child allows is allowed by some
  capability of the parent. No capability of the child can be covered by several entries
  of the parent without being covered by one of them, so the check entry by entry loses nothing.\<close>

theorem compact_attenuation_accesses:
  assumes "compactAttenuationForPolicyCapabilities authority = Inr parent"
    and "compactAttenuationForPolicyCapabilities requested = Inr child"
    and "list_all (\<lambda>(resource, _). scalar_string resource) parent" "list_all (\<lambda>(resource, _). scalar_string resource) child"
  shows "\<exists>ps cs. mapR normalizeUnifiedPolicyCapability authority = Inr ps \<and> mapR normalizeUnifiedPolicyCapability requested = Inr cs \<and>
    compactAttenuationContains parent child = Inr ((\<Union>c \<in> set cs. cap_accesses c) \<subseteq> (\<Union>p \<in> set ps. cap_accesses p))"
proof -
  have caps: "\<exists>cs. mapR normalizeUnifiedPolicyCapability input = Inr cs \<and> distinct (map cap_resource cs) \<and>
      att = map (\<lambda>c. (cap_resource c, cap_attenuation c)) cs \<and> list_all cap_ok cs"
    if "compactAttenuationForPolicyCapabilities input = Inr att" for input att
  proof -
    from compact_attenuation_caps [of "[]" input att] that obtain cs where cs: "mapR normalizeUnifiedPolicyCapability input = Inr cs"
      "distinct (map cap_resource cs)" "att = map (\<lambda>c. (cap_resource c, cap_attenuation c)) cs"
      by (auto simp: compactAttenuationForPolicyCapabilities_def)
    moreover have "list_all cap_ok cs"
      using cs(1) unfolding mapR_Inr_iff by (induction rule: list_all2_induct) (auto intro: normalized_ok)
    ultimately show ?thesis by blast
  qed
  from caps [OF assms(1)] obtain ps where ps: "mapR normalizeUnifiedPolicyCapability authority = Inr ps"
    "distinct (map cap_resource ps)" "parent = map (\<lambda>c. (cap_resource c, cap_attenuation c)) ps" "list_all cap_ok ps" by blast
  from caps [OF assms(2)] obtain cs where cs: "mapR normalizeUnifiedPolicyCapability requested = Inr cs"
    "distinct (map cap_resource cs)" "child = map (\<lambda>c. (cap_resource c, cap_attenuation c)) cs" "list_all cap_ok cs" by blast
  have "list_all (\<lambda>p. scalar_string (cap_resource p)) ps" "list_all (\<lambda>c. scalar_string (cap_resource c)) cs"
    using assms(3,4) unfolding ps(3) cs(3) by (simp_all add: list_all_iff)
  from contains_caps [OF ps(4,2) this(1) cs(4,2) this(2)] show ?thesis
    unfolding all_accesses_def ps(3) cs(3) using ps(1) cs(1) by blast
qed

definition reach_cap :: "selector \<Rightarrow> string \<Rightarrow> json" where
  "reach_cap sel resource = cap_json (KvCapability (ustr resource) sel [ustr ''tinycloud.kv/get''])"

lemma reach_cap_normal:
  "normalizeUnifiedPolicyCapability (reach_cap PrefixOf ''tinycloud:s/kv/docs'') = Inr (KvCapability (ustr ''tinycloud:s/kv/docs'') PrefixOf [ustr ''tinycloud.kv/get''])"
  "normalizeUnifiedPolicyCapability (reach_cap Exact ''tinycloud:s/kv/docs/a'') = Inr (KvCapability (ustr ''tinycloud:s/kv/docs/a'') Exact [ustr ''tinycloud.kv/get''])"
  unfolding reach_cap_def by (rule normalize_cap_json; code_simp)+

theorem compact_attenuation_accesses_witness:
  "\<exists>parent child. compactAttenuationForPolicyCapabilities [reach_cap PrefixOf ''tinycloud:s/kv/docs''] = Inr parent \<and>
    compactAttenuationForPolicyCapabilities [reach_cap Exact ''tinycloud:s/kv/docs/a''] = Inr child \<and>
    compactAttenuationContains parent child = Inr True \<and> compactAttenuationContains child parent = Inr False"
proof -
  let ?p = "KvCapability (ustr ''tinycloud:s/kv/docs'') PrefixOf [ustr ''tinycloud.kv/get'']"
    and ?c = "KvCapability (ustr ''tinycloud:s/kv/docs/a'') Exact [ustr ''tinycloud.kv/get'']"
  let ?parent = "[(cap_resource ?p, cap_attenuation ?p)]" and ?child = "[(cap_resource ?c, cap_attenuation ?c)]"
  have a: "compactAttenuationForPolicyCapabilities [reach_cap PrefixOf ''tinycloud:s/kv/docs''] = Inr ?parent"
    "compactAttenuationForPolicyCapabilities [reach_cap Exact ''tinycloud:s/kv/docs/a''] = Inr ?child"
    unfolding compactAttenuationForPolicyCapabilities_def by (simp_all add: reach_cap_normal)
  have s: "list_all (\<lambda>(resource, _). scalar_string resource) ?parent" "list_all (\<lambda>(resource, _). scalar_string resource) ?child"
    by (simp_all add: scalar_ustr del: scalar_simps)
  have "startsWith (ustr ''tinycloud:s/kv/docs/a'') (ustr ''tinycloud:s/kv/docs'' @ ustr ''/'')" by code_simp
  then have in_: "cap_accesses ?c \<subseteq> cap_accesses ?p" by (simp add: subtree_def)
  have "\<not> cap_accesses ?p \<subseteq> cap_accesses ?c" using prefix_not_single by (auto simp: ustr_inject)
  with in_ show ?thesis
    using a compact_attenuation_accesses [OF a s] compact_attenuation_accesses [OF a(2,1) s(2,1)]
    by (intro exI [of _ ?parent] exI [of _ ?child]) (simp add: reach_cap_normal del: cap_accesses.simps cap_attenuation.simps)
qed

end
