(* ===== verification/Dates.thy ===== *)
theory Dates
  imports Json
begin

text \<open>
  \<open>Date.prototype.toISOString\<close> of a finite time value, in milliseconds since 1970 (ECMAScript's days and
  years: every 4th year is a leap year, but of every 100th only each 4th), as
  \<^verbatim>\<open>packages/sdk-core/src/policy/unified.ts\<close> uses it. The lemmas say that the year is the one
  the day lies in and that the date parts are in range.
\<close>

section \<open>Years\<close>

definition day_from_year :: "int \<Rightarrow> int" where
  "day_from_year y = 365 * (y - 1970) + (y - 1969) div 4 - (y - 1901) div 100 + (y - 1601) div 400"

definition leap_year :: "int \<Rightarrow> bool" where
  "leap_year y \<longleftrightarrow> y mod 4 = 0 \<and> (y mod 100 \<noteq> 0 \<or> y mod 400 = 0)"

text \<open>The mean length of a year gives the year up to one.\<close>

definition year_of_day :: "int \<Rightarrow> int" where
  "year_of_day day =
     (let y = 1970 + day * 400 div 146097
      in if day < day_from_year y then y - 1 else if day_from_year (y + 1) \<le> day then y + 1 else y)"

lemma div_lower: "0 < n \<Longrightarrow> n * (a div n) \<le> a" for a n :: int
  using pos_mod_sign [of n a] mult_div_mod_eq [of n a] by linarith

lemma div_upper: "0 < n \<Longrightarrow> a < n * (a div n) + n" for a n :: int
  using pos_mod_bound [of n a] mult_div_mod_eq [of n a] by linarith

lemma div_unique: "0 < n \<Longrightarrow> n * q \<le> a \<Longrightarrow> a < n * q + n \<Longrightarrow> a div n = q" for a n q :: int
  by (rule int_div_pos_eq [of a n q "a - n * q"]) simp_all

lemma div_step: "0 < n \<Longrightarrow> (a + 1) div n - a div n = (if (a + 1) mod n = 0 then 1 else 0)" for a n :: int
proof -
  assume n: "0 < n"
  define q where "q = (a + 1) div n"
  have e: "a + 1 = n * q + (a + 1) mod n" unfolding q_def by simp
  have r: "0 \<le> (a + 1) mod n" "(a + 1) mod n < n" using n by simp_all
  show ?thesis
  proof (cases "(a + 1) mod n = 0")
    case True
    have "a div n = q - 1"
      by (rule div_unique [OF n]) (use e r n True in \<open>simp_all add: algebra_simps\<close>)
    then show ?thesis using True unfolding q_def by simp
  next
    case False
    have "a div n = q" by (rule div_unique [OF n]) (use e r False in linarith)+
    then show ?thesis using False unfolding q_def by simp
  qed
qed

lemma year_length: "day_from_year (y + 1) - day_from_year y = (if leap_year y then 366 else 365)"
proof -
  have shift: "(y - c) mod n = 0 \<longleftrightarrow> y mod n = 0" if "n dvd c" for c n :: int
    using that unfolding dvd_eq_mod_eq_0 [symmetric] by (metis diff_add_cancel dvd_add_left_iff)
  have 4: "(y + 1 - 1969) div 4 - (y - 1969) div 4 = (if y mod 4 = 0 then 1 else 0)"
    using div_step [of 4 "y - 1969"] shift [of 4 1968] by (simp add: algebra_simps)
  have 100: "(y + 1 - 1901) div 100 - (y - 1901) div 100 = (if y mod 100 = 0 then 1 else 0)"
    using div_step [of 100 "y - 1901"] shift [of 100 1900] by (simp add: algebra_simps)
  have 400: "(y + 1 - 1601) div 400 - (y - 1601) div 400 = (if y mod 400 = 0 then 1 else 0)"
    using div_step [of 400 "y - 1601"] shift [of 400 1600] by (simp add: algebra_simps)
  have "(400 :: int) dvd y \<Longrightarrow> 100 dvd y" "(100 :: int) dvd y \<Longrightarrow> 4 dvd y"
    by (erule dvd_trans [rotated], simp)+
  then have mods: "y mod 400 = 0 \<longrightarrow> y mod 100 = 0" "y mod 100 = 0 \<longrightarrow> y mod 4 = 0"
    unfolding dvd_eq_mod_eq_0 by blast+
  have count: "365 + (if c then 1 else 0) - (if b then 1 else 0) + (if a then 1 else 0) = (if c \<and> (\<not> b \<or> a) then 366 else 365 :: int)"
    if "a \<longrightarrow> b" "b \<longrightarrow> c" for a b c
    using that by (cases a; cases b; cases c; simp)
  have "day_from_year (y + 1) - day_from_year y =
      365 + ((y + 1 - 1969) div 4 - (y - 1969) div 4) - ((y + 1 - 1901) div 100 - (y - 1901) div 100) +
      ((y + 1 - 1601) div 400 - (y - 1601) div 400)"
  proof -
    have alg: "365 * u + a - b + c - (365 * (u - 1) + a' - b' + c') = 365 + (a - a') - (b - b') + (c - c')" for u a b c a' b' c' :: int
      by simp
    have shift: "y - 1970 = y + 1 - 1970 - 1" by simp
    show ?thesis unfolding day_from_year_def by (subst shift) (rule alg)
  qed
  then show ?thesis unfolding 4 100 400 leap_year_def count [OF mods] .
qed

lemma day_from_year_lower: "146097 * (y - 1970) - 800 < 400 * day_from_year y"
  using div_lower [of 4 "y - 1969"] div_upper [of 4 "y - 1969"] div_lower [of 100 "y - 1901"] div_upper [of 100 "y - 1901"]
    div_lower [of 400 "y - 1601"] div_upper [of 400 "y - 1601"]
  unfolding day_from_year_def by simp

lemma day_from_year_upper: "400 * day_from_year y < 146097 * (y - 1970) + 800"
  using div_lower [of 4 "y - 1969"] div_upper [of 4 "y - 1969"] div_lower [of 100 "y - 1901"] div_upper [of 100 "y - 1901"]
    div_lower [of 400 "y - 1601"] div_upper [of 400 "y - 1601"]
  unfolding day_from_year_def by simp

lemma year_of_day_bounds: "day_from_year (year_of_day day) \<le> day" "day < day_from_year (year_of_day day + 1)"
proof -
  define y where "y = 1970 + day * 400 div 146097"
  have lo: "day_from_year (y - 1) \<le> day"
    using div_lower [of 146097 "day * 400"] day_from_year_upper [of "y - 1"] unfolding y_def by simp
  have hi: "day < day_from_year (y + 2)"
    using div_upper [of 146097 "day * 400"] day_from_year_lower [of "y + 2"] unfolding y_def by simp
  have "year_of_day day = (if day < day_from_year y then y - 1 else if day_from_year (y + 1) \<le> day then y + 1 else y)"
    by (simp add: year_of_day_def y_def Let_def)
  then show "day_from_year (year_of_day day) \<le> day" "day < day_from_year (year_of_day day + 1)"
    using lo hi by (auto simp: add.commute split: if_splits)
qed

section \<open>Months\<close>

definition month_lengths :: "int \<Rightarrow> int list" where
  "month_lengths y = [31, if leap_year y then 29 else 28, 31, 30, 31, 30, 31, 31, 30, 31, 30, 31]"

text \<open>Month (from 1) and day of the month (from 1) of a day of the year (from 0).\<close>

fun month_day :: "int list \<Rightarrow> int \<Rightarrow> int \<times> int" where
  "month_day (n # ns) d = (if d < n then (1, d + 1) else let (m, k) = month_day ns (d - n) in (m + 1, k))"
| "month_day [] d = (1, d + 1)"

lemma month_day_range:
  "0 \<le> d \<Longrightarrow> d < sum_list ns \<Longrightarrow> month_day ns d = (m, k) \<Longrightarrow> 1 \<le> m \<and> m \<le> int (length ns) \<and> 1 \<le> k \<and> k \<le> ns ! nat (m - 1)"
proof (induction ns d arbitrary: m k rule: month_day.induct)
  case (1 n ns d)
  show ?case
  proof (cases "d < n")
    case False
    obtain m' k' where r: "month_day ns (d - n) = (m', k')" by (cases "month_day ns (d - n)")
    with 1(1) [OF False _ _ r] 1(2,3) False have "1 \<le> m' \<and> m' \<le> int (length ns) \<and> 1 \<le> k' \<and> k' \<le> ns ! nat (m' - 1)" by simp
    moreover have "m = m' + 1" "k = k'" using 1(4) r False by simp_all
    moreover have "nat m' = Suc (nat (m' - 1))" if "1 \<le> m'" using that by simp
    ultimately show ?thesis by simp
  qed (use 1 in auto)
qed simp

section \<open>The text\<close>

definition pad_number :: "nat \<Rightarrow> int \<Rightarrow> string" where
  "pad_number width n = replicate (width - length (dec_of_nat (nat n))) (CHR ''0'') @ dec_of_nat (nat n)"

definition year_text :: "int \<Rightarrow> string" where
  "year_text y = (if 0 \<le> y \<and> y \<le> 9999 then pad_number 4 y else (if y < 0 then ''-'' else ''+'') @ pad_number 6 \<bar>y\<bar>)"

record date_parts =
  dp_year :: int
  dp_month :: int
  dp_day :: int
  dp_hour :: int
  dp_minute :: int
  dp_second :: int
  dp_milli :: int

definition date_parts_of :: "int \<Rightarrow> date_parts" where
  "date_parts_of t =
     (let day = t div 86400000; ms = t mod 86400000; y = year_of_day day;
          (m, d) = month_day (month_lengths y) (day - day_from_year y)
      in \<lparr>dp_year = y, dp_month = m, dp_day = d, dp_hour = ms div 3600000, dp_minute = ms div 60000 mod 60,
          dp_second = ms div 1000 mod 60, dp_milli = ms mod 1000\<rparr>)"

definition toISOString :: "int \<Rightarrow> string" where
  "toISOString t =
     (let p = date_parts_of t
      in year_text (dp_year p) @ ''-'' @ pad_number 2 (dp_month p) @ ''-'' @ pad_number 2 (dp_day p) @ ''T'' @
         pad_number 2 (dp_hour p) @ '':'' @ pad_number 2 (dp_minute p) @ '':'' @ pad_number 2 (dp_second p) @ ''.'' @
         pad_number 3 (dp_milli p) @ ''Z'')"

lemma date_parts_range:
  "1 \<le> dp_month (date_parts_of t) \<and> dp_month (date_parts_of t) \<le> 12"
  "1 \<le> dp_day (date_parts_of t) \<and> dp_day (date_parts_of t) \<le> month_lengths (dp_year (date_parts_of t)) ! nat (dp_month (date_parts_of t) - 1)"
  "0 \<le> dp_hour (date_parts_of t) \<and> dp_hour (date_parts_of t) \<le> 23"
  "0 \<le> dp_minute (date_parts_of t) \<and> dp_minute (date_parts_of t) \<le> 59"
  "0 \<le> dp_second (date_parts_of t) \<and> dp_second (date_parts_of t) \<le> 59"
  "0 \<le> dp_milli (date_parts_of t) \<and> dp_milli (date_parts_of t) \<le> 999"
proof -
  define day where "day = t div 86400000"
  define y where "y = year_of_day day"
  obtain m k where mk: "month_day (month_lengths y) (day - day_from_year y) = (m, k)" by fastforce
  have "sum_list (month_lengths y) = (if leap_year y then 366 else 365)" by (simp add: month_lengths_def)
  then have "0 \<le> day - day_from_year y" "day - day_from_year y < sum_list (month_lengths y)"
    using year_of_day_bounds [of day] year_length [of y] unfolding y_def by (auto split: if_splits)
  from month_day_range [OF this mk] have r: "1 \<le> m \<and> m \<le> 12 \<and> 1 \<le> k \<and> k \<le> month_lengths y ! nat (m - 1)"
    by (simp add: month_lengths_def)
  have p: "dp_year (date_parts_of t) = y" "dp_month (date_parts_of t) = m" "dp_day (date_parts_of t) = k"
    using mk by (simp_all add: date_parts_of_def Let_def day_def y_def)
  show "1 \<le> dp_month (date_parts_of t) \<and> dp_month (date_parts_of t) \<le> 12"
    "1 \<le> dp_day (date_parts_of t) \<and> dp_day (date_parts_of t) \<le> month_lengths (dp_year (date_parts_of t)) ! nat (dp_month (date_parts_of t) - 1)"
    using r unfolding p by simp_all
  have h: "0 \<le> t mod 86400000 div 3600000" "t mod 86400000 div 3600000 \<le> 23"
    using div_lower [of 3600000 "t mod 86400000"] pos_mod_bound [of 86400000 t] by (simp_all add: pos_imp_zdiv_nonneg_iff)
  show "0 \<le> dp_hour (date_parts_of t) \<and> dp_hour (date_parts_of t) \<le> 23"
    using h by (simp add: date_parts_of_def Let_def split: prod.split)
  show "0 \<le> dp_minute (date_parts_of t) \<and> dp_minute (date_parts_of t) \<le> 59"
    by (simp add: date_parts_of_def Let_def split: prod.split)
  show "0 \<le> dp_second (date_parts_of t) \<and> dp_second (date_parts_of t) \<le> 59"
    by (simp add: date_parts_of_def Let_def split: prod.split)
  show "0 \<le> dp_milli (date_parts_of t) \<and> dp_milli (date_parts_of t) \<le> 999"
    by (simp add: date_parts_of_def Let_def split: prod.split)
qed

lemma dec_of_nat_small: "n < 10 \<Longrightarrow> dec_of_nat n = [digit_char n]"
  "10 \<le> n \<Longrightarrow> n < 100 \<Longrightarrow> dec_of_nat n = [digit_char (n div 10), digit_char (n mod 10)]"
  by (simp_all add: dec_of_nat.simps [of n] dec_of_nat.simps [of "n div 10"])

lemma pad_two: "0 \<le> n \<Longrightarrow> n \<le> 99 \<Longrightarrow> pad_number 2 n = [digit_char (nat n div 10), digit_char (nat n mod 10)]"
proof -
  assume "0 \<le> n" "n \<le> 99"
  moreover have "digit_char 0 = CHR ''0''" by code_simp
  ultimately show ?thesis
    by (cases "nat n < 10") (simp_all add: pad_number_def dec_of_nat_small)
qed

lemma pad_length: "n < 10 ^ w \<Longrightarrow> 0 < w \<Longrightarrow> length (dec_of_nat n) \<le> w"
proof (induction w arbitrary: n)
  case (Suc w)
  show ?case
  proof (cases "n < 10")
    case False
    then have w: "0 < w" using Suc.prems by (cases w) auto
    have "n div 10 < 10 ^ w" using Suc.prems(1) by (simp add: less_mult_imp_div_less mult.commute)
    from Suc.IH [OF this w] show ?thesis using False by (simp add: dec_of_nat.simps [of n])
  qed (simp add: dec_of_nat_small)
qed simp

end
