(* ===== verification/RootStatus.thy ===== *)
theory RootStatus
  imports PolicyReach RegistryVerdict Dates
begin

text \<open>
  The parts of \<^verbatim>\<open>packages/sdk-core/src/policy/unified.ts\<close> that talk to a node: the status of policy roots
  (\<open>verifyPolicyRootStatusCheckpointV3\<close>, \<open>verifyPolicyRootRevocationV3\<close>, \<open>getPolicyRootStatusV3\<close>, renewal and
  revocation), the registration of policies, challenges and the minting of policy sessions.
  A node is a function from requests to replies; each operation makes a request at most once.

  The lemmas say what evidence a status rests on, that a revocation that was made verifies, and what a
  minted session is bound to.
\<close>

section \<open>Requests\<close>

datatype node_request = Get ustring | Post ustring json

text \<open>A reply: status, status text, what \<open>text()\<close> gives and what \<open>json()\<close> gives (\<open>None\<close> when they reject).
  \<open>FetchRejects\<close> is also what a URL that cannot be built leads to.\<close>

datatype node_reply = FetchRejects | NodeReply int ustring "ustring option" "json option"

definition trim_text :: "ustring \<Rightarrow> ustring" where
  "trim_text s = rev (dropWhile js_space (rev (dropWhile js_space s)))"

definition httpResponseError :: "int \<Rightarrow> ustring \<Rightarrow> ustring option \<Rightarrow> string \<Rightarrow> unified_error" where
  "httpResponseError status statusText reading label =
     (let body = take 512 (trim_text (case reading of None \<Rightarrow> statusText | Some t \<Rightarrow> t))
      in HttpError (ustr label @ ustr '': HTTP '' @ ustr (dec_of_nat (nat status)) @
           (if body = [] then [] else ustr '' - '' @ body)) status)"

definition receive :: "string \<Rightarrow> node_reply \<Rightarrow> (unified_error, json) result" where
  "receive label reply =
     (case reply of
        FetchRejects \<Rightarrow> Inl LibraryThrown
      | NodeReply status statusText reading parsed \<Rightarrow>
          if \<not> (200 \<le> status \<and> status \<le> 299) then Inl (httpResponseError status statusText reading label)
          else case parsed of None \<Rightarrow> Inl LibraryThrown | Some v \<Rightarrow> Inr v)"

text \<open>\<open>encodeURIComponent\<close>\<close>

definition uri_unit :: "16 word \<Rightarrow> bool" where
  "uri_unit u \<longleftrightarrow> (0x41 \<le> u \<and> u \<le> 0x5A) \<or> (0x61 \<le> u \<and> u \<le> 0x7A) \<or> unit_digit u \<or> u \<in> set (ustr ''-_.!~*'') \<or> u = 0x27 \<or> u = 0x28 \<or> u = 0x29"

definition encodeURIComponent :: "ustring \<Rightarrow> (unified_error, ustring) result" where
  "encodeURIComponent s =
     (if \<not> scalar_string s then Inl LibraryThrown
      else Inr (concat (map (\<lambda>b. let u = ucast b :: 16 word
                                 in if uri_unit u then [u]
                                    else [0x25, upper_hex (hex_digit (unat b div 16)), upper_hex (hex_digit (unat b mod 16))])
                        (textEncode s))))"

section \<open>Checkpoints\<close>

definition ROOT_STATUS_CHECKPOINT_V1_SCHEMA :: ustring where
  "ROOT_STATUS_CHECKPOINT_V1_SCHEMA = ustr ''xyz.tinycloud.policy/root-status/v1''"
definition ROOT_REVOCATION_V1_SCHEMA :: ustring where
  "ROOT_REVOCATION_V1_SCHEMA = ustr ''xyz.tinycloud.policy/root-revocation/v1''"
definition ROOT_STATUS_V1_DOMAIN :: ustring where "ROOT_STATUS_V1_DOMAIN = ustr ''xyz.tinycloud.policy/RootStatusCheckpoint/v1'' @ [0]"
definition ROOT_STATUS_RENEWAL_V1_DOMAIN :: ustring where
  "ROOT_STATUS_RENEWAL_V1_DOMAIN = ustr ''xyz.tinycloud.policy/RootStatusRenewal/v1'' @ [0]"
definition ROOT_REVOCATION_V1_DOMAIN :: ustring where
  "ROOT_REVOCATION_V1_DOMAIN = ustr ''xyz.tinycloud.policy/RootRevocation/v1'' @ [0]"

definition POLICY_AUTHORITY :: ustring where "POLICY_AUTHORITY = ustr ''policy-authority''"
definition POLICY_ENFORCEMENT :: ustring where "POLICY_ENFORCEMENT = ustr ''policy-enforcement''"
definition ACTIVE :: ustring where "ACTIVE = ustr ''active''"
definition REVOKED :: ustring where "REVOKED = ustr ''revoked''"

definition CHECKPOINT_KEYS :: "ustring list" where
  "CHECKPOINT_KEYS = map ustr [''schema'', ''targetCid'', ''targetRole'', ''ownerDid'', ''nodeAudience'', ''state'',
     ''sequence'', ''checkedAt'', ''freshUntil'', ''revokedAt'', ''revocationCid'', ''previousCheckpointDigestHex'',
     ''issuerDid'', ''signature'']"

definition REVOCATION_KEYS :: "ustring list" where
  "REVOCATION_KEYS = map ustr [''schema'', ''targetCid'', ''targetRole'', ''ownerDid'', ''nodeAudience'', ''revokedAt'',
     ''reason'', ''issuerDid'', ''signature'']"

definition lower_hex64 :: "ustring \<Rightarrow> bool" where
  "lower_hex64 s \<longleftrightarrow> length s = 64 \<and> list_all (\<lambda>u. (0x30 \<le> u \<and> u \<le> 0x39) \<or> (0x61 \<le> u \<and> u \<le> 0x66)) s"

text \<open>The value of a well-formed signature member by the given issuer, and the object without it.\<close>

definition signature_value :: "json_object \<Rightarrow> json option \<Rightarrow> ustring option" where
  "signature_value fs issuer =
     (case own fs ''signature'' of
        Some (ObjJ s) \<Rightarrow>
          if length (own_keys s) \<noteq> 3 \<or> own s ''suite'' \<noteq> Some (StrJ (ustr ''Ed25519'')) \<or> \<not> strict_eq (own s ''signerDid'') issuer
          then None else member_text (own s ''value'')
      | _ \<Rightarrow> None)"

definition without_signature :: "json_object \<Rightarrow> json_object" where
  "without_signature fs = filter (\<lambda>(key, _). key \<noteq> ustr ''signature'') fs"

definition object_digest :: "compact_lib \<Rightarrow> ustring \<Rightarrow> json_object \<Rightarrow> (unified_error, bytes) result" where
  "object_digest lib domain fs = bindR (jcs (ObjJ fs)) (\<lambda>text. Inr (domain_digest (cl_sha256 lib) domain text))"

text \<open>The \<open>try\<close> blocks: the digest and whether the issuer's key verifies the signature over it; an
  exception is \<open>None\<close>, as a false answer is.\<close>

definition issuer_verifies :: "compact_lib \<Rightarrow> ustring \<Rightarrow> json_object \<Rightarrow> ustring \<Rightarrow> ustring \<Rightarrow> bytes option" where
  "issuer_verifies lib domain fs issuer val =
     (case did_material lib issuer of
        Inl _ \<Rightarrow> None
      | Inr material \<Rightarrow>
          if \<not> ed25519_material material then None
          else case (object_digest lib domain (without_signature fs), decodeBase64Url val) of
                 (Inr digest, Inr signature) \<Rightarrow>
                   if cl_verify lib signature digest (drop 2 material) = Some True then Some digest else None
               | _ \<Rightarrow> None)"

text \<open>\<open>date\<close> is \<open>Date.parse\<close>, \<open>None\<close> for \<open>NaN\<close>.\<close>

definition checkpoint_shape :: "ustring \<Rightarrow> json_object \<Rightarrow> ustring option \<Rightarrow> bool" where
  "checkpoint_shape rootCid checkpoint expectedNodeAudience \<longleftrightarrow>
     list_all (\<lambda>key. key \<in> set CHECKPOINT_KEYS) (own_keys checkpoint) \<and>
     own checkpoint ''schema'' = Some (StrJ ROOT_STATUS_CHECKPOINT_V1_SCHEMA) \<and>
     own checkpoint ''targetCid'' = Some (StrJ rootCid) \<and>
     own checkpoint ''targetRole'' \<in> {Some (StrJ POLICY_AUTHORITY), Some (StrJ POLICY_ENFORCEMENT)} \<and>
     own checkpoint ''state'' \<in> {Some (StrJ ACTIVE), Some (StrJ REVOKED)} \<and>
     member_text (own checkpoint ''ownerDid'') \<noteq> None \<and> member_text (own checkpoint ''nodeAudience'') \<noteq> None \<and>
     strict_eq (own checkpoint ''issuerDid'') (own checkpoint ''nodeAudience'') \<and>
     (case expectedNodeAudience of None \<Rightarrow> True | Some a \<Rightarrow> own checkpoint ''nodeAudience'' = Some (StrJ a)) \<and>
     (case member_int (own checkpoint ''sequence'') of None \<Rightarrow> False | Some n \<Rightarrow> \<not> n < 1) \<and>
     member_text (own checkpoint ''checkedAt'') \<noteq> None \<and> member_text (own checkpoint ''freshUntil'') \<noteq> None"

definition checkpoint_fresh :: "(ustring \<Rightarrow> int option) \<Rightarrow> json_object \<Rightarrow> int \<Rightarrow> bool" where
  "checkpoint_fresh date checkpoint now \<longleftrightarrow>
     (case (Option.bind (member_text (own checkpoint ''checkedAt'')) date, Option.bind (member_text (own checkpoint ''freshUntil'')) date) of
        (Some checkedAt, Some freshUntil) \<Rightarrow> \<not> (freshUntil < now \<or> freshUntil \<le> checkedAt \<or> freshUntil - checkedAt > 300000)
      | _ \<Rightarrow> False)"

definition checkpoint_links :: "json_object \<Rightarrow> bool" where
  "checkpoint_links checkpoint \<longleftrightarrow>
     (let first = (member_int (own checkpoint ''sequence'') = Some 1); previous = own checkpoint ''previousCheckpointDigestHex''
      in first = (previous = None) \<and> (first \<or> (case member_text previous of None \<Rightarrow> False | Some s \<Rightarrow> lower_hex64 s))) \<and>
     (if own checkpoint ''state'' = Some (StrJ ACTIVE)
      then own checkpoint ''revokedAt'' = None \<and> own checkpoint ''revocationCid'' = None
      else member_text (own checkpoint ''revokedAt'') \<noteq> None \<and> member_text (own checkpoint ''revocationCid'') \<noteq> None)"

definition verifyPolicyRootStatusCheckpointV3 ::
  "compact_lib \<Rightarrow> (ustring \<Rightarrow> int option) \<Rightarrow> ustring \<Rightarrow> json_object \<Rightarrow> ustring option \<Rightarrow> int \<Rightarrow> bool" where
  "verifyPolicyRootStatusCheckpointV3 lib date rootCid checkpoint expectedNodeAudience now =
     (if \<not> checkpoint_shape rootCid checkpoint expectedNodeAudience then False
      else if \<not> checkpoint_fresh date checkpoint now then False
      else if \<not> checkpoint_links checkpoint then False
      else case (signature_value checkpoint (own checkpoint ''issuerDid''), member_text (own checkpoint ''issuerDid'')) of
             (Some val, Some issuer) \<Rightarrow> issuer_verifies lib ROOT_STATUS_V1_DOMAIN checkpoint issuer val \<noteq> None
           | _ \<Rightarrow> False)"

section \<open>Revocations\<close>

definition revocation_shape :: "ustring \<Rightarrow> json_object \<Rightarrow> json_object \<Rightarrow> bool" where
  "revocation_shape rootCid checkpoint val \<longleftrightarrow>
     length (own_keys val) = length REVOCATION_KEYS \<and> list_all (\<lambda>key. key \<in> set REVOCATION_KEYS) (own_keys val) \<and>
     own val ''schema'' = Some (StrJ ROOT_REVOCATION_V1_SCHEMA) \<and> own val ''targetCid'' = Some (StrJ rootCid) \<and>
     list_all (\<lambda>key. strict_eq (own val key) (own checkpoint key)) [''targetRole'', ''ownerDid'', ''nodeAudience'', ''revokedAt''] \<and>
     (case member_text (own val ''reason'') of None \<Rightarrow> False | Some reason \<Rightarrow> reason \<noteq> []) \<and>
     member_text (own val ''issuerDid'') \<noteq> None"

definition verifyPolicyRootRevocationV3 :: "compact_lib \<Rightarrow> ustring \<Rightarrow> json_object \<Rightarrow> json_object \<Rightarrow> ustring option \<Rightarrow> bool" where
  "verifyPolicyRootRevocationV3 lib rootCid checkpoint val expectedEnforcerDid =
     (if \<not> revocation_shape rootCid checkpoint val then False
      else let authorized = strict_eq (own val ''issuerDid'') (own val ''ownerDid'') \<or>
                 own val ''targetRole'' = Some (StrJ POLICY_ENFORCEMENT) \<and> own val ''issuerDid'' = map_option StrJ expectedEnforcerDid
           in if \<not> authorized then False
              else case (signature_value val (own val ''issuerDid''), member_text (own val ''issuerDid'')) of
                     (Some signature, Some issuer) \<Rightarrow>
                       (case issuer_verifies lib ROOT_REVOCATION_V1_DOMAIN val issuer signature of
                          None \<Rightarrow> False
                        | Some digest \<Rightarrow> own checkpoint ''revocationCid'' = Some (StrJ (hex digest)))
                   | _ \<Rightarrow> False)"

section \<open>Status, renewal and revocation\<close>

record root_status =
  rs_rootCid :: ustring
  rs_state :: ustring
  rs_checkpoint :: json_object
  rs_revocation :: "json_object option"

definition getPolicyRootStatusV3 ::
  "compact_lib \<Rightarrow> (ustring \<Rightarrow> int option) \<Rightarrow> (node_request \<Rightarrow> node_reply) \<Rightarrow> ustring \<Rightarrow> ustring option \<Rightarrow> ustring option \<Rightarrow> int
     \<Rightarrow> (unified_error, root_status) result" where
  "getPolicyRootStatusV3 lib date fetch rootCid expectedNodeAudience expectedEnforcerDid now =
     bindR (encodeURIComponent rootCid) (\<lambda>component.
     bindR (receive ''policy root status rejected'' (fetch (Get (ustr ''/policy/v3/status/'' @ component)))) (\<lambda>reply.
     bindR (object (Some reply) ''policy root status'') (\<lambda>val.
     bindR (object (own val ''checkpoint'') ''policy root checkpoint'') (\<lambda>checkpoint.
     case member_text (own val ''state'') of
       None \<Rightarrow> Inl (Thrown ''policy root status binding is invalid'')
     | Some state \<Rightarrow>
         bindR (throw_if (own val ''rootCid'' \<noteq> Some (StrJ rootCid) \<or> (state \<noteq> ACTIVE \<and> state \<noteq> REVOKED) \<or>
             own checkpoint ''state'' \<noteq> Some (StrJ state) \<or>
             \<not> verifyPolicyRootStatusCheckpointV3 lib date rootCid checkpoint expectedNodeAudience now)
           (Thrown ''policy root status binding is invalid'')) (\<lambda>_.
         bindR (case own val ''revocation'' of
                  None \<Rightarrow> Inr None
                | Some r \<Rightarrow> bindR (object (Some r) ''policy root revocation'') (\<lambda>fs. Inr (Some fs))) (\<lambda>revocation.
         bindR (throw_if ((state = REVOKED) \<noteq> (revocation \<noteq> None) \<or>
             (case revocation of None \<Rightarrow> False
              | Some r \<Rightarrow> \<not> verifyPolicyRootRevocationV3 lib rootCid checkpoint r expectedEnforcerDid))
           (Thrown ''policy root status revocation evidence is invalid'')) (\<lambda>_.
           Inr \<lparr>rs_rootCid = rootCid, rs_state = state, rs_checkpoint = checkpoint, rs_revocation = revocation\<rparr>)))))))"

definition status_signature_json :: "ustring \<Rightarrow> bytes \<Rightarrow> json" where
  "status_signature_json signer signature =
     ObjJ [(ustr ''suite'', StrJ (ustr ''Ed25519'')), (ustr ''signerDid'', StrJ signer), (ustr ''value'', StrJ (encodeBase64Url signature))]"

text \<open>The caller's signer over the digest of an object; \<open>None\<close> when its promise is rejected.\<close>

definition sign_status_object :: "compact_lib \<Rightarrow> ustring \<Rightarrow> json_object \<Rightarrow> ustring \<Rightarrow> (bytes \<Rightarrow> bytes option) \<Rightarrow> string \<Rightarrow> (unified_error, json_object) result" where
  "sign_status_object lib domain fs signer sign label =
     bindR (object_digest lib domain fs) (\<lambda>digest.
     case sign digest of
       None \<Rightarrow> Inl LibraryThrown
     | Some signature \<Rightarrow>
         bindR (throw_if (length signature \<noteq> 64) (Thrown label)) (\<lambda>_.
           Inr (fs @ [(ustr ''signature'', status_signature_json signer signature)])))"

definition renewal_fields :: "ustring \<Rightarrow> ustring \<Rightarrow> ustring \<Rightarrow> int \<Rightarrow> ustring \<Rightarrow> int \<Rightarrow> bytes \<Rightarrow> json_object" where
  "renewal_fields rootCid ownerDid nodeAudience now nonce seq digest =
     [(ustr ''schema'', StrJ (ustr ''xyz.tinycloud.policy/root-status-renewal/v1'')), (ustr ''targetCid'', StrJ rootCid),
      (ustr ''ownerDid'', StrJ ownerDid), (ustr ''nodeAudience'', StrJ nodeAudience),
      (ustr ''issuedAt'', StrJ (ustr (toISOString now))), (ustr ''nonce'', StrJ nonce),
      (ustr ''sequence'', NumJ (number_of_int (fl (seq + 1)))), (ustr ''previousCheckpointDigestHex'', StrJ (hex digest))]"

definition renewPolicyRootStatusV3 ::
  "compact_lib \<Rightarrow> (ustring \<Rightarrow> int option) \<Rightarrow> (node_request \<Rightarrow> node_reply) \<Rightarrow> ustring \<Rightarrow> ustring \<Rightarrow> ustring \<Rightarrow> (bytes \<Rightarrow> bytes option)
     \<Rightarrow> int \<Rightarrow> ustring \<Rightarrow> (unified_error, json_object) result" where
  "renewPolicyRootStatusV3 lib date fetch rootCid ownerDid nodeAudience sign now nonce =
     bindR (getPolicyRootStatusV3 lib date fetch rootCid (Some nodeAudience) None now) (\<lambda>current.
     let checkpoint = rs_checkpoint current
     in case member_int (own checkpoint ''sequence'') of
          None \<Rightarrow> Inl (Thrown ''policy root status cannot be renewed'')
        | Some seq \<Rightarrow>
            bindR (throw_if (rs_state current \<noteq> ACTIVE \<or> own checkpoint ''ownerDid'' \<noteq> Some (StrJ ownerDid) \<or>
                own checkpoint ''nodeAudience'' \<noteq> Some (StrJ nodeAudience) \<or> own checkpoint ''state'' \<noteq> Some (StrJ ACTIVE))
              (Thrown ''policy root status cannot be renewed'')) (\<lambda>_.
            bindR (object_digest lib ROOT_STATUS_V1_DOMAIN (without_signature checkpoint)) (\<lambda>digest.
            bindR (sign_status_object lib ROOT_STATUS_RENEWAL_V1_DOMAIN (renewal_fields rootCid ownerDid nodeAudience now nonce seq digest)
                ownerDid sign ''policy root renewal signature must be Ed25519'') (\<lambda>renewal.
            bindR (receive ''policy root renewal rejected''
                (fetch (Post (ustr ''/policy/v3/status'') (ObjJ [(ustr ''rootCid'', StrJ rootCid), (ustr ''renewal'', ObjJ renewal)])))) (\<lambda>reply.
              object (Some reply) ''policy root renewal'')))))"

definition rfc3339Seconds :: "int \<Rightarrow> string" where
  "rfc3339Seconds t =
     (let s = toISOString (t div 1000 * 1000) in if endsWith s ''.000Z'' then dropEnd 5 s @ ''Z'' else s)"

definition revocation_fields :: "ustring \<Rightarrow> ustring \<Rightarrow> ustring \<Rightarrow> ustring \<Rightarrow> ustring \<Rightarrow> ustring \<Rightarrow> int \<Rightarrow> json_object" where
  "revocation_fields rootCid targetRole ownerDid issuerDid nodeAudience reason now =
     [(ustr ''schema'', StrJ ROOT_REVOCATION_V1_SCHEMA), (ustr ''targetCid'', StrJ rootCid), (ustr ''targetRole'', StrJ targetRole),
      (ustr ''ownerDid'', StrJ ownerDid), (ustr ''nodeAudience'', StrJ nodeAudience),
      (ustr ''revokedAt'', StrJ (ustr (rfc3339Seconds now))), (ustr ''reason'', StrJ reason), (ustr ''issuerDid'', StrJ issuerDid)]"

definition revokePolicyRootV3 ::
  "compact_lib \<Rightarrow> (node_request \<Rightarrow> node_reply) \<Rightarrow> ustring \<Rightarrow> ustring \<Rightarrow> ustring \<Rightarrow> ustring \<Rightarrow> ustring \<Rightarrow> ustring \<Rightarrow> (bytes \<Rightarrow> bytes option)
     \<Rightarrow> int \<Rightarrow> (unified_error, json_object) result" where
  "revokePolicyRootV3 lib fetch rootCid targetRole ownerDid issuerDid nodeAudience reason sign now =
     bindR (throw_if (reason = []) (Thrown ''policy root revocation reason is required'')) (\<lambda>_.
     bindR (sign_status_object lib ROOT_REVOCATION_V1_DOMAIN (revocation_fields rootCid targetRole ownerDid issuerDid nodeAudience reason now)
         issuerDid sign ''policy root revocation signature must be Ed25519'') (\<lambda>revocation.
     bindR (receive ''policy root revocation rejected'' (fetch (Post (ustr ''/revoke'') (ObjJ [(ustr ''revocation'', ObjJ revocation)])))) (\<lambda>reply.
       object (Some reply) ''policy root revocation'')))"

section \<open>Challenges and sessions\<close>

text \<open>\<^verbatim>\<open>/^\/policy(?:\/[a-z0-9-]+)*$/\<close>\<close>

definition RUNTIME_PATH :: "16 word rx" where
  "RUNTIME_PATH = Cat (Lit (ustr ''/policy''))
     (Many (Cat (Lit (ustr ''/'')) (Some1 (Cls (\<lambda>u. (0x61 \<le> u \<and> u \<le> 0x7A) \<or> unit_digit u \<or> u = 0x2D)))))"

definition policyRuntimeBasePath :: "ustring option \<Rightarrow> (unified_error, ustring) result" where
  "policyRuntimeBasePath val =
     (let path = (case val of None \<Rightarrow> ustr ''/policy/v3'' | Some p \<Rightarrow> p)
      in if \<not> rx_test RUNTIME_PATH path then Inl (Thrown ''policy runtime path is invalid'') else Inr path)"

definition requestPolicyChallengeV3 ::
  "(node_request \<Rightarrow> node_reply) \<Rightarrow> ustring option \<Rightarrow> ustring \<Rightarrow> ustring \<Rightarrow> json list \<Rightarrow> (unified_error, json_object) result" where
  "requestPolicyChallengeV3 fetch runtimePath policyCid recipientDid requestedCapabilities =
     bindR (policyRuntimeBasePath runtimePath) (\<lambda>path.
     bindR (mapR normalizeUnifiedPolicyCapability requestedCapabilities) (\<lambda>capabilities.
     bindR (receive ''policy challenge rejected'' (fetch (Post (path @ ustr ''/challenges'')
         (ObjJ [(ustr ''policyCid'', StrJ policyCid), (ustr ''recipientDid'', StrJ recipientDid),
                (ustr ''requestedCapabilities'', ArrJ (map cap_json capabilities))])))) (\<lambda>reply.
     bindR (object (Some reply) ''policy challenge'') (\<lambda>val.
     bindR (throw_if (member_text (own val ''challengeId'') = None \<or> member_text (own val ''nonce'') = None \<or>
         own val ''policyCid'' \<noteq> Some (StrJ policyCid) \<or> own val ''recipientDid'' \<noteq> Some (StrJ recipientDid))
       (Thrown ''policy challenge binding is invalid'')) (\<lambda>_. Inr val)))))"

record mint_input =
  mi_policyCid :: ustring
  mi_policyRootCid :: ustring
  mi_enforcementRootCid :: ustring
  mi_recipientDid :: ustring
  mi_requestedCapabilities :: "json list"
  mi_expectedFacts :: json_object
  mi_claim :: json_object
  mi_presentation :: json_object
  mi_challenge :: "json_object option"

text \<open>\<open>JSON.stringify\<close> leaves out members that are undefined.\<close>

definition defined_members :: "(string \<times> json option) list \<Rightarrow> json_object" where
  "defined_members ms = List.map_filter (\<lambda>(key, m). map_option (Pair (ustr key)) m) ms"

text \<open>A fact equals an expected string or number.\<close>

definition fact_equals :: "json option \<Rightarrow> json \<Rightarrow> bool" where
  "fact_equals m expected =
     (case (m, expected) of
        (Some (NumJ a), NumJ b) \<Rightarrow> number_text a = number_text b
      | _ \<Rightarrow> strict_eq m (Some expected))"

definition mintPolicySessionV3 ::
  "compact_lib \<Rightarrow> (node_request \<Rightarrow> node_reply) \<Rightarrow> mint_input \<Rightarrow> (unified_error, policy_session) result" where
  "mintPolicySessionV3 lib fetch input =
     bindR (case mi_challenge input of
              Some c \<Rightarrow> Inr c
            | None \<Rightarrow> requestPolicyChallengeV3 fetch None (mi_policyCid input) (mi_recipientDid input) (mi_requestedCapabilities input)) (\<lambda>challenge.
     bindR (throw_if (own challenge ''policyCid'' \<noteq> Some (StrJ (mi_policyCid input)) \<or>
         own challenge ''recipientDid'' \<noteq> Some (StrJ (mi_recipientDid input)))
       (Thrown ''policy challenge binding is invalid'')) (\<lambda>_.
     bindR (receive ''policy delegation rejected'' (fetch (Post (ustr ''/policy/v3/delegations'')
         (ObjJ (defined_members [(''policyCid'', Some (StrJ (mi_policyCid input))), (''challengeId'', own challenge ''challengeId''),
            (''nonce'', own challenge ''nonce''), (''claim'', Some (ObjJ (mi_claim input))),
            (''presentation'', Some (ObjJ (mi_presentation input)))]))))) (\<lambda>reply.
     bindR (object (Some reply) ''policy delegation'') (\<lambda>val.
     case (member_text (own val ''sessionCid''), member_text (own val ''authorization'')) of
       (Some sessionCid, Some authorization) \<Rightarrow>
         if own val ''admitted'' \<noteq> Some (BoolJ True) then Inl (Thrown ''policy delegation response is invalid'')
         else bindR (parsePolicySessionUcan lib authorization (Some (mi_policyRootCid input, mi_enforcementRootCid input))) (\<lambda>session.
              bindR (compactAttenuationForPolicyCapabilities (mi_requestedCapabilities input)) (\<lambda>expectedAttenuation.
              let fct = cp_fct (ps_payload session);
                  invalid = Inl (Thrown ''policy delegation signed binding is invalid'')
              in if ps_cid session \<noteq> sessionCid \<or> cp_aud (ps_payload session) \<noteq> mi_recipientDid input \<or>
                    own fct ''policyCid'' \<noteq> Some (StrJ (mi_policyCid input)) \<or>
                    own fct ''recipientDid'' \<noteq> Some (StrJ (mi_recipientDid input)) \<or>
                    own fct ''policyDelegationCid'' \<noteq> Some (StrJ (mi_policyRootCid input)) \<or>
                    own fct ''enforcementDelegationCid'' \<noteq> Some (StrJ (mi_enforcementRootCid input))
                 then invalid
                 else bindR (jcs (attenuation_json (cp_att (ps_payload session)))) (\<lambda>granted.
                      bindR (jcs (attenuation_json expectedAttenuation)) (\<lambda>expected.
                      if granted \<noteq> expected \<or>
                         list_ex (\<lambda>(key, expected). \<not> fact_equals (map_of fct key) expected) (own_entries (mi_expectedFacts input))
                      then invalid else Inr session))))
     | _ \<Rightarrow> Inl (Thrown ''policy delegation response is invalid'')))))"

section \<open>Registration\<close>

definition exactObject :: "json option \<Rightarrow> string list \<Rightarrow> string \<Rightarrow> (unified_error, json_object) result" where
  "exactObject val keys label =
     (case val of
        Some (ObjJ fs) \<Rightarrow>
          if length (own_keys fs) \<noteq> length keys \<or> list_ex (\<lambda>key. own fs key = None) keys
          then Inl (Thrown (label @ '' is invalid'')) else Inr fs
      | _ \<Rightarrow> Inl (Thrown (label @ '' is invalid'')))"

definition didKeyEd25519PublicKey :: "compact_lib \<Rightarrow> ustring \<Rightarrow> (unified_error, bytes) result" where
  "didKeyEd25519PublicKey lib val =
     (if \<not> startsWith (principal_of val) DID_KEY then Inl (Thrown ''policy enforcer binding signer is invalid'')
      else case cl_base58 lib (drop (length DID_KEY) (principal_of val)) of
             None \<Rightarrow> Inl LibraryThrown
           | Some material \<Rightarrow>
               if \<not> ed25519_material material then Inl (Thrown ''policy enforcer binding signer is invalid'')
               else Inr (drop 2 material))"

text \<open>\<^verbatim>\<open>replace(/^Bearer\s+/i, "")\<close>\<close>

definition lower_unit :: "16 word \<Rightarrow> 16 word" where
  "lower_unit u = (if 0x41 \<le> u \<and> u \<le> 0x5A then u + 0x20 else u)"

definition strip_bearer :: "ustring \<Rightarrow> ustring" where
  "strip_bearer s =
     (case drop 6 s of
        u # r \<Rightarrow> if map lower_unit (take 6 s) = ustr ''bearer'' \<and> js_space u then dropWhile js_space r else s
      | [] \<Rightarrow> s)"

record register_input =
  ri_policyCid :: ustring
  ri_policy :: json_object
  ri_policyRootCid :: ustring
  ri_policyRoot :: ustring
  ri_enforcementRootCid :: ustring
  ri_enforcementRoot :: ustring
  ri_contentSourceDigestHex :: ustring
  ri_nativeProjectionHashHex :: ustring
  ri_rootExpiresAt :: ustring
  ri_enforcerDid :: ustring
  ri_expectedNodeAudience :: ustring

record policy_receipt =
  pr_policyCid :: ustring
  pr_policyRootCid :: ustring
  pr_enforcementRootCid :: ustring
  pr_binding :: json_object

definition ATTESTED_ENFORCER_BINDING_V2_SCHEMA :: ustring where
  "ATTESTED_ENFORCER_BINDING_V2_SCHEMA = ustr ''xyz.tinycloud.policy/attested-enforcer/v2''"

definition ATTESTED_ENFORCER_DOMAIN :: ustring where
  "ATTESTED_ENFORCER_DOMAIN = ustr ''xyz.tinycloud.policy/AttestedEnforcerBinding/v2'' @ [0]"

text \<open>\<open>toISOString\<close> of an invalid date throws, before the check for one.\<close>

definition check_expiry :: "(ustring \<Rightarrow> int option) \<Rightarrow> ustring \<Rightarrow> int \<Rightarrow> (unified_error, unit) result" where
  "check_expiry date rootExpiresAt clock =
     (case date rootExpiresAt of
        None \<Rightarrow> Inl LibraryThrown
      | Some t \<Rightarrow> throw_if (ustr (rfc3339Seconds t) \<noteq> rootExpiresAt \<or> t \<le> clock) (Thrown ''policy root expiry is invalid''))"

definition check_binding ::
  "compact_lib \<Rightarrow> (ustring \<Rightarrow> int option) \<Rightarrow> register_input \<Rightarrow> int \<Rightarrow> json \<Rightarrow> (unified_error, json_object) result" where
  "check_binding lib date input clock reply =
     bindR (exactObject (Some reply) [''schema'', ''enforcerDid'', ''nodeAudience'', ''attestationBindingDigestHex'', ''issuedAt'',
         ''expiresAt'', ''signature''] ''policy enforcer binding'') (\<lambda>binding.
     bindR (exactObject (own binding ''signature'') [''suite'', ''signerDid'', ''value''] ''policy enforcer binding signature'') (\<lambda>signature.
     bindR (jcs (ObjJ [(ustr ''enforcerDid'', StrJ (ri_enforcerDid input)), (ustr ''nodeAudience'', StrJ (ri_expectedNodeAudience input))])) (\<lambda>text.
     let expectedDigest = hex (cl_sha256 lib (textEncode text));
         invalid = Inl (Thrown ''policy enforcer binding is invalid'')
     in case (member_text (own binding ''issuedAt''), member_text (own signature ''value'')) of
          (Some issuedAt, Some val) \<Rightarrow>
            if own binding ''schema'' \<noteq> Some (StrJ ATTESTED_ENFORCER_BINDING_V2_SCHEMA) \<or>
               own binding ''enforcerDid'' \<noteq> Some (StrJ (ri_enforcerDid input)) \<or>
               own binding ''nodeAudience'' \<noteq> Some (StrJ (ri_expectedNodeAudience input)) \<or>
               own binding ''attestationBindingDigestHex'' \<noteq> Some (StrJ expectedDigest) \<or>
               own binding ''expiresAt'' \<noteq> Some (StrJ (ri_rootExpiresAt input)) \<or>
               (case date issuedAt of None \<Rightarrow> False | Some t \<Rightarrow> t > clock) \<or>
               own signature ''suite'' \<noteq> Some (StrJ (ustr ''Ed25519'')) \<or>
               own signature ''signerDid'' \<noteq> Some (StrJ (ri_expectedNodeAudience input))
            then invalid
            else bindR (object_digest lib ATTESTED_ENFORCER_DOMAIN (without_signature binding)) (\<lambda>signedBinding.
                 bindR (decodeBase64Url val) (\<lambda>sig.
                 bindR (didKeyEd25519PublicKey lib (ri_expectedNodeAudience input)) (\<lambda>key.
                 case cl_verify_strict lib sig signedBinding key of
                   None \<Rightarrow> Inl LibraryThrown
                 | Some False \<Rightarrow> Inl (Thrown ''policy enforcer binding signature is invalid'')
                 | Some True \<Rightarrow> Inr binding)))
        | _ \<Rightarrow> invalid)))"

definition registerPolicyV3 ::
  "compact_lib \<Rightarrow> (ustring \<Rightarrow> int option) \<Rightarrow> (node_request \<Rightarrow> node_reply) \<Rightarrow> register_input \<Rightarrow> int \<Rightarrow> (unified_error, policy_receipt) result" where
  "registerPolicyV3 lib date fetch input clock =
     bindR (check_expiry date (ri_rootExpiresAt input) clock) (\<lambda>_.
     bindR (receive ''policy enforcer binding rejected'' (fetch (Post (ustr ''/policy/v3/enforcer-bindings'')
         (ObjJ [(ustr ''rootExpiresAt'', StrJ (ri_rootExpiresAt input)), (ustr ''enforcerDid'', StrJ (ri_enforcerDid input))])))) (\<lambda>reply.
     bindR (check_binding lib date input clock reply) (\<lambda>binding.
     bindR (receive ''policy registration rejected'' (fetch (Post (ustr ''/policy/v3/policies'')
         (ObjJ [(ustr ''policyCid'', StrJ (ri_policyCid input)), (ustr ''policy'', ObjJ (ri_policy input)),
                (ustr ''policyRoot'', StrJ (strip_bearer (ri_policyRoot input))),
                (ustr ''enforcementRoot'', StrJ (strip_bearer (ri_enforcementRoot input))),
                (ustr ''contentSourceDigestHex'', StrJ (ri_contentSourceDigestHex input)),
                (ustr ''nativeProjectionHashHex'', StrJ (ri_nativeProjectionHashHex input)),
                (ustr ''attestedEnforcerBinding'', ObjJ binding)])))) (\<lambda>answer.
     bindR (exactObject (Some answer) [''policyCid'', ''policyRootCid'', ''enforcementRootCid''] ''policy registration response'') (\<lambda>receipt.
     bindR (throw_if (own receipt ''policyCid'' \<noteq> Some (StrJ (ri_policyCid input)) \<or>
         own receipt ''policyRootCid'' \<noteq> Some (StrJ (ri_policyRootCid input)) \<or>
         own receipt ''enforcementRootCid'' \<noteq> Some (StrJ (ri_enforcementRootCid input)))
       (Thrown ''policy registration response binding is invalid'')) (\<lambda>_.
       Inr \<lparr>pr_policyCid = ri_policyCid input, pr_policyRootCid = ri_policyRootCid input,
            pr_enforcementRootCid = ri_enforcementRootCid input, pr_binding = binding\<rparr>))))))"


section \<open>Evidence\<close>

text \<open>The object carries a signature member by the issuer, whose Ed25519 key verifies it over
  the digest of the object without it.\<close>

definition signed_by :: "compact_lib \<Rightarrow> ustring \<Rightarrow> json_object \<Rightarrow> ustring \<Rightarrow> bytes \<Rightarrow> bool" where
  "signed_by lib domain fs issuer digest \<longleftrightarrow>
     (\<exists>body s i key sig.
        body = filter (\<lambda>(k, _). k \<noteq> ustr ''signature'') fs \<and> json_ok (ObjJ body) \<and>
        digest = cl_sha256 lib (textEncode (domain @ serialize (ObjJ body))) \<and>
        own fs ''signature'' = Some (ObjJ s) \<and> own s ''suite'' = Some (StrJ (ustr ''Ed25519'')) \<and>
        own s ''signerDid'' = Some (StrJ issuer) \<and> own s ''value'' = Some (StrJ (map base64_group (groups 6 (byte_bits sig)))) \<and>
        takeWhile (\<lambda>u. u \<noteq> 0x23) issuer = ustr ''did:key:'' @ i \<and> cl_base58 lib i = Some ([0xED, 0x01] @ key) \<and> length key = 32 \<and>
        cl_verify lib sig digest key = Some True)"

lemma did_material_iff:
  "m \<noteq> [] \<Longrightarrow> did_material lib did = Inr m \<longleftrightarrow> (\<exists>i. takeWhile (\<lambda>u. u \<noteq> 0x23) did = ustr ''did:key:'' @ i \<and> cl_base58 lib i = Some m)"
  by (auto simp: did_material_def principal_of_def DID_KEY_def prefix_def split: option.splits)

lemma strict_eq_text: "strict_eq m (Some (StrJ s)) \<longleftrightarrow> m = Some (StrJ s)" "strict_eq (Some (StrJ s)) m \<longleftrightarrow> m = Some (StrJ s)"
  by (cases m; cases "the m"; auto)+

lemma signature_value_iff:
  "signature_value fs (Some (StrJ issuer)) = Some val \<longleftrightarrow>
     (\<exists>s. own fs ''signature'' = Some (ObjJ s) \<and> length (own_keys s) = 3 \<and> own s ''suite'' = Some (StrJ (ustr ''Ed25519'')) \<and>
        own s ''signerDid'' = Some (StrJ issuer) \<and> own s ''value'' = Some (StrJ val))"
  by (auto simp: signature_value_def strict_eq_text member_text_iff split: option.splits json.splits if_splits)

lemma decode_encoded: "sig \<noteq> [] \<Longrightarrow> decodeBase64Url (base64UrlEncode sig) = Inr sig"
  by (simp add: decodeBase64Url_iff encode_not_Nil)

lemma issuer_verifiesD:
  assumes "issuer_verifies lib domain fs issuer val = Some digest" and "signature_value fs (Some (StrJ issuer)) = Some val"
  shows "signed_by lib domain fs issuer digest"
proof -
  from assms(1) obtain m sig where m: "did_material lib issuer = Inr m" "ed25519_material m"
    and o: "object_digest lib domain (without_signature fs) = Inr digest" and d: "decodeBase64Url val = Inr sig"
    and v: "cl_verify lib sig digest (drop 2 m) = Some True"
    unfolding issuer_verifies_def by (auto split: sum.split_asm if_split_asm)
  from m(2) obtain key where key: "m = [0xED, 0x01] @ key" "length key = 32" by (auto simp: ed25519_material_iff)
  with m(1) obtain i where i: "takeWhile (\<lambda>u. u \<noteq> 0x23) issuer = ustr ''did:key:'' @ i" "cl_base58 lib i = Some ([0xED, 0x01] @ key)"
    using did_material_iff [of m lib issuer] by auto
  from o have "json_ok (ObjJ (without_signature fs))"
      "digest = cl_sha256 lib (textEncode (domain @ serialize (ObjJ (without_signature fs))))"
    by (simp_all add: object_digest_def domain_digest_def result_iff del: json_ok.simps serialize.simps)
  moreover have "val = map base64_group (groups 6 (byte_bits sig))" using d by (simp add: decodeBase64Url_iff base64_groups)
  ultimately show ?thesis
    using assms(2) i key v unfolding signed_by_def signature_value_iff without_signature_def [symmetric] by auto
qed

lemma issuer_verifiesI:
  assumes "did_material lib issuer = Inr ([0xED, 0x01] @ key)" "length key = 32" "object_digest lib domain (without_signature fs) = Inr digest"
    and "cl_verify lib sig digest key = Some True" "sig \<noteq> []"
  shows "issuer_verifies lib domain fs issuer (base64UrlEncode sig) = Some digest"
  using assms by (simp add: issuer_verifies_def ed25519_material_def decode_encoded)

lemma checkpoint_verified:
  assumes "verifyPolicyRootStatusCheckpointV3 lib date rootCid checkpoint expected now"
  obtains node digest where "own checkpoint ''nodeAudience'' = Some (StrJ node)" "expected \<in> {None, Some node}"
    "own checkpoint ''targetCid'' = Some (StrJ rootCid)" "signed_by lib ROOT_STATUS_V1_DOMAIN checkpoint node digest"
    "checkpoint_fresh date checkpoint now" "checkpoint_links checkpoint"
    "own checkpoint ''targetRole'' \<in> {Some (StrJ POLICY_AUTHORITY), Some (StrJ POLICY_ENFORCEMENT)}"
proof -
  from assms have s: "checkpoint_shape rootCid checkpoint expected" and fl: "checkpoint_fresh date checkpoint now" "checkpoint_links checkpoint"
    unfolding verifyPolicyRootStatusCheckpointV3_def by (simp_all split: if_split_asm)
  from assms obtain val issuer digest where v: "signature_value checkpoint (own checkpoint ''issuerDid'') = Some val"
    "own checkpoint ''issuerDid'' = Some (StrJ issuer)" "issuer_verifies lib ROOT_STATUS_V1_DOMAIN checkpoint issuer val = Some digest"
    unfolding verifyPolicyRootStatusCheckpointV3_def by (auto simp: member_text_iff split: if_split_asm option.split_asm)
  have node: "own checkpoint ''nodeAudience'' = Some (StrJ issuer)"
    using s v(2) unfolding checkpoint_shape_def by (simp add: strict_eq_text)
  have "signed_by lib ROOT_STATUS_V1_DOMAIN checkpoint issuer digest"
    using issuer_verifiesD [OF v(3)] v(1) unfolding v(2) .
  moreover have "expected \<in> {None, Some issuer}" "own checkpoint ''targetCid'' = Some (StrJ rootCid)"
      "own checkpoint ''targetRole'' \<in> {Some (StrJ POLICY_AUTHORITY), Some (StrJ POLICY_ENFORCEMENT)}"
    using s node unfolding checkpoint_shape_def by (auto split: option.split_asm)
  ultimately show ?thesis using that [OF node] fl by blast
qed

lemma revocation_verified:
  assumes "verifyPolicyRootRevocationV3 lib rootCid checkpoint r enforcer"
  obtains signer digest where "signed_by lib ROOT_REVOCATION_V1_DOMAIN r signer digest"
    "own checkpoint ''revocationCid'' = Some (StrJ (hex digest))" "own r ''targetCid'' = Some (StrJ rootCid)"
    "strict_eq (own r ''revokedAt'') (own checkpoint ''revokedAt'')"
    "own checkpoint ''ownerDid'' = Some (StrJ signer) \<or> own checkpoint ''targetRole'' = Some (StrJ POLICY_ENFORCEMENT) \<and> enforcer = Some signer"
proof -
  from assms have s: "revocation_shape rootCid checkpoint r"
    unfolding verifyPolicyRootRevocationV3_def by (simp split: if_split_asm)
  from assms obtain val signer digest where v: "signature_value r (own r ''issuerDid'') = Some val"
    "own r ''issuerDid'' = Some (StrJ signer)" "issuer_verifies lib ROOT_REVOCATION_V1_DOMAIN r signer val = Some digest"
    "own checkpoint ''revocationCid'' = Some (StrJ (hex digest))"
    and a: "strict_eq (own r ''issuerDid'') (own r ''ownerDid'') \<or>
      own r ''targetRole'' = Some (StrJ POLICY_ENFORCEMENT) \<and> own r ''issuerDid'' = map_option StrJ enforcer"
    unfolding verifyPolicyRootRevocationV3_def Let_def by (auto simp: member_text_iff split: if_split_asm option.split_asm)
  have "signed_by lib ROOT_REVOCATION_V1_DOMAIN r signer digest"
    using issuer_verifiesD [OF v(3)] v(1) unfolding v(2) .
  moreover have "own checkpoint ''ownerDid'' = Some (StrJ signer) \<or>
      own checkpoint ''targetRole'' = Some (StrJ POLICY_ENFORCEMENT) \<and> enforcer = Some signer"
    using a
  proof
    assume "strict_eq (own r ''issuerDid'') (own r ''ownerDid'')"
    then have "own r ''ownerDid'' = Some (StrJ signer)" unfolding v(2) strict_eq_text .
    with s show ?thesis unfolding revocation_shape_def by (simp add: strict_eq_text)
  next
    assume e: "own r ''targetRole'' = Some (StrJ POLICY_ENFORCEMENT) \<and> own r ''issuerDid'' = map_option StrJ enforcer"
    with s have "own checkpoint ''targetRole'' = Some (StrJ POLICY_ENFORCEMENT)" unfolding revocation_shape_def by (simp add: strict_eq_text)
    moreover have "enforcer = Some signer" using e unfolding v(2) by (cases enforcer) simp_all
    ultimately show ?thesis by blast
  qed
  moreover have "own r ''targetCid'' = Some (StrJ rootCid)" "strict_eq (own r ''revokedAt'') (own checkpoint ''revokedAt'')"
    using s unfolding revocation_shape_def by simp_all
  ultimately show ?thesis using that v(4) by blast
qed

lemma checkpoint_freshD:
  assumes "checkpoint_fresh date fs now"
  shows "\<exists>checked until. own fs ''checkedAt'' = Some (StrJ checked) \<and> own fs ''freshUntil'' = Some (StrJ until) \<and>
        (\<exists>c u. date checked = Some c \<and> date until = Some u \<and> now \<le> u \<and> c < u \<and> u \<le> c + 300000)"
proof -
  from assms obtain checked until c u where "member_text (own fs ''checkedAt'') = Some checked" "member_text (own fs ''freshUntil'') = Some until"
      "date checked = Some c" "date until = Some u" and t: "\<not> (u < now \<or> u \<le> c \<or> u - c > 300000)"
    unfolding checkpoint_fresh_def by (auto split: option.split_asm simp: bind_eq_Some_conv)
  moreover from t have "now \<le> u" "c < u" "u \<le> c + 300000" by linarith+
  ultimately show ?thesis unfolding member_text_iff by blast
qed

lemma root_status_facts:
  assumes "getPolicyRootStatusV3 lib date fetch rootCid expectedNode expectedEnforcer now = Inr st"
  shows "\<exists>node digest. own (rs_checkpoint st) ''nodeAudience'' = Some (StrJ node) \<and> expectedNode \<in> {None, Some node} \<and>
      own (rs_checkpoint st) ''targetCid'' = Some (StrJ rootCid) \<and>
      signed_by lib ROOT_STATUS_V1_DOMAIN (rs_checkpoint st) node digest \<and> checkpoint_fresh date (rs_checkpoint st) now"
    and "own (rs_checkpoint st) ''state'' = Some (StrJ (rs_state st))" and "rs_state st = REVOKED \<longleftrightarrow> rs_revocation st \<noteq> None"
    and "pred_option (\<lambda>r. own r ''targetCid'' = Some (StrJ rootCid) \<and> (\<exists>signer digest.
      signed_by lib ROOT_REVOCATION_V1_DOMAIN r signer digest \<and>
      own (rs_checkpoint st) ''revocationCid'' = Some (StrJ (hex digest)) \<and>
      (own (rs_checkpoint st) ''ownerDid'' = Some (StrJ signer) \<or>
       own (rs_checkpoint st) ''targetRole'' = Some (StrJ POLICY_ENFORCEMENT) \<and> expectedEnforcer = Some signer))) (rs_revocation st)"
proof -
  from assms have v: "verifyPolicyRootStatusCheckpointV3 lib date rootCid (rs_checkpoint st) expectedNode now"
    and st: "own (rs_checkpoint st) ''state'' = Some (StrJ (rs_state st))" "rs_state st = REVOKED \<longleftrightarrow> rs_revocation st \<noteq> None"
    and r: "pred_option (\<lambda>r. verifyPolicyRootRevocationV3 lib rootCid (rs_checkpoint st) r expectedEnforcer) (rs_revocation st)"
    unfolding getPolicyRootStatusV3_def
    by (elim bindR_InrE; auto elim!: bindR_InrE simp: throw_if_Inr_iff split: option.split_asm)+
  from checkpoint_verified [OF v] show "\<exists>node digest. own (rs_checkpoint st) ''nodeAudience'' = Some (StrJ node) \<and> expectedNode \<in> {None, Some node} \<and>
      own (rs_checkpoint st) ''targetCid'' = Some (StrJ rootCid) \<and>
      signed_by lib ROOT_STATUS_V1_DOMAIN (rs_checkpoint st) node digest \<and> checkpoint_fresh date (rs_checkpoint st) now" by metis
  show "own (rs_checkpoint st) ''state'' = Some (StrJ (rs_state st))" "rs_state st = REVOKED \<longleftrightarrow> rs_revocation st \<noteq> None" by (fact st)+
  show "pred_option (\<lambda>r. own r ''targetCid'' = Some (StrJ rootCid) \<and> (\<exists>signer digest.
      signed_by lib ROOT_REVOCATION_V1_DOMAIN r signer digest \<and>
      own (rs_checkpoint st) ''revocationCid'' = Some (StrJ (hex digest)) \<and>
      (own (rs_checkpoint st) ''ownerDid'' = Some (StrJ signer) \<or>
       own (rs_checkpoint st) ''targetRole'' = Some (StrJ POLICY_ENFORCEMENT) \<and> expectedEnforcer = Some signer))) (rs_revocation st)"
  proof (cases "rs_revocation st")
    case (Some r)
    with r have "verifyPolicyRootRevocationV3 lib rootCid (rs_checkpoint st) r expectedEnforcer" by simp
    from revocation_verified [OF this] show ?thesis unfolding Some option.pred_inject by metis
  qed simp
qed

text \<open>C11: What a root status rests on: when getPolicyRootStatusV3 returns one, its checkpoint names the root and
  a node (the expected one, if one is expected), whose Ed25519 key signs its canonical text; it was checked
  at most five minutes before the time it is fresh until, and that time is not past. Its state is the
  checkpoint's, and it is revoked exactly when it carries a revocation, which names the root too, has the
  digest that the checkpoint lists, and is signed by the DID that the checkpoint names as the owner or (for an
  enforcement root) by the expected enforcer. Who the owner is, the client takes from the node.\<close>

theorem root_status_evidence:
  assumes "getPolicyRootStatusV3 lib date fetch rootCid expectedNode expectedEnforcer now = Inr st"
  shows "(\<exists>node digest. own (rs_checkpoint st) ''nodeAudience'' = Some (StrJ node) \<and> expectedNode \<in> {None, Some node} \<and>
      own (rs_checkpoint st) ''targetCid'' = Some (StrJ rootCid) \<and>
      signed_by lib (ustr ''xyz.tinycloud.policy/RootStatusCheckpoint/v1'' @ [0]) (rs_checkpoint st) node digest) \<and>
    (\<exists>checked until. own (rs_checkpoint st) ''checkedAt'' = Some (StrJ checked) \<and> own (rs_checkpoint st) ''freshUntil'' = Some (StrJ until) \<and>
        (\<exists>c u. date checked = Some c \<and> date until = Some u \<and> now \<le> u \<and> c < u \<and> u \<le> c + 300000)) \<and>
    own (rs_checkpoint st) ''state'' = Some (StrJ (rs_state st)) \<and> (rs_state st = ustr ''revoked'') = (rs_revocation st \<noteq> None) \<and>
    pred_option (\<lambda>r. own r ''targetCid'' = Some (StrJ rootCid) \<and> (\<exists>signer digest.
      signed_by lib (ustr ''xyz.tinycloud.policy/RootRevocation/v1'' @ [0]) r signer digest \<and>
      own (rs_checkpoint st) ''revocationCid'' = Some (StrJ (hex digest)) \<and>
      (own (rs_checkpoint st) ''ownerDid'' = Some (StrJ signer) \<or>
       own (rs_checkpoint st) ''targetRole'' = Some (StrJ (ustr ''policy-enforcement'')) \<and> expectedEnforcer = Some signer))) (rs_revocation st)"
proof -
  note facts = root_status_facts [OF assms]
  from facts(1) obtain node digest where n: "own (rs_checkpoint st) ''nodeAudience'' = Some (StrJ node)" "expectedNode \<in> {None, Some node}"
      "own (rs_checkpoint st) ''targetCid'' = Some (StrJ rootCid)"
      "signed_by lib ROOT_STATUS_V1_DOMAIN (rs_checkpoint st) node digest" "checkpoint_fresh date (rs_checkpoint st) now" by blast
  show ?thesis
    using n(1-4) checkpoint_freshD [OF n(5)] facts(2-4)
    unfolding ROOT_STATUS_V1_DOMAIN_def ROOT_REVOCATION_V1_DOMAIN_def POLICY_ENFORCEMENT_def REVOKED_def by (intro conjI) blast+
qed

section \<open>A revocation that is made verifies\<close>

lemma without_signed: "own fs ''signature'' = None \<Longrightarrow> without_signature (fs @ [(ustr ''signature'', v)]) = fs"
proof -
  assume "own fs ''signature'' = None"
  then have n: "ustr ''signature'' \<notin> fst ` set fs" by (simp add: own_def map_of_eq_None_iff)
  have "filter (\<lambda>(k, _). k \<noteq> ustr ''signature'') fs = fs"
  proof (intro filter_True ballI)
    fix x
    assume "x \<in> set fs"
    then have "fst x \<in> fst ` set fs" by (rule imageI)
    with n have "fst x \<noteq> ustr ''signature''" by metis
    then show "case x of (k, _) \<Rightarrow> k \<noteq> ustr ''signature''" by (cases x) simp
  qed
  then show ?thesis by (simp add: without_signature_def)
qed

lemma own_append: "own (fs @ gs) k = (case own fs k of None \<Rightarrow> own gs k | Some v \<Rightarrow> Some v)"
  unfolding own_def by (simp add: map_add_def)

lemma sign_status_objectD:
  assumes "sign_status_object lib domain fs signer sign label = Inr r" and "own fs ''signature'' = None"
  obtains digest sig where "object_digest lib domain fs = Inr digest" "sign digest = Some sig" "length sig = 64"
    "r = fs @ [(ustr ''signature'', status_signature_json signer sig)]" "without_signature r = fs"
    "signature_value r (Some (StrJ signer)) = Some (base64UrlEncode sig)"
proof -
  from assms(1) obtain digest sig where d: "object_digest lib domain fs = Inr digest" "sign digest = Some sig" "length sig = 64"
    "r = fs @ [(ustr ''signature'', status_signature_json signer sig)]"
    unfolding sign_status_object_def by (elim bindR_InrE) (auto elim!: bindR_InrE simp: throw_if_Inr_iff split: option.split_asm)
  have "own r ''signature'' = Some (status_signature_json signer sig)" unfolding d(4) own_append assms(2) by (simp add: own_def)
  then have "signature_value r (Some (StrJ signer)) = Some (base64UrlEncode sig)"
    by (simp add: signature_value_def status_signature_json_def own_keys_def own_def ustr_inject push_new_def strict_eq_text encodeBase64Url_def member_text_def)
  then show ?thesis using that d without_signed [OF assms(2)] by blast
qed

lemma revocation_members:
  "own (revocation_fields rootCid targetRole ownerDid issuerDid nodeAudience reason now) ''schema'' = Some (StrJ ROOT_REVOCATION_V1_SCHEMA)"
  "own (revocation_fields rootCid targetRole ownerDid issuerDid nodeAudience reason now) ''targetCid'' = Some (StrJ rootCid)"
  "own (revocation_fields rootCid targetRole ownerDid issuerDid nodeAudience reason now) ''targetRole'' = Some (StrJ targetRole)"
  "own (revocation_fields rootCid targetRole ownerDid issuerDid nodeAudience reason now) ''ownerDid'' = Some (StrJ ownerDid)"
  "own (revocation_fields rootCid targetRole ownerDid issuerDid nodeAudience reason now) ''nodeAudience'' = Some (StrJ nodeAudience)"
  "own (revocation_fields rootCid targetRole ownerDid issuerDid nodeAudience reason now) ''revokedAt'' = Some (StrJ (ustr (rfc3339Seconds now)))"
  "own (revocation_fields rootCid targetRole ownerDid issuerDid nodeAudience reason now) ''reason'' = Some (StrJ reason)"
  "own (revocation_fields rootCid targetRole ownerDid issuerDid nodeAudience reason now) ''issuerDid'' = Some (StrJ issuerDid)"
  "own (revocation_fields rootCid targetRole ownerDid issuerDid nodeAudience reason now) ''signature'' = None"
  by (simp_all add: revocation_fields_def ustr_lookup)

lemma revocation_keys:
  "own_keys (revocation_fields rootCid targetRole ownerDid issuerDid nodeAudience reason now @ [(ustr ''signature'', v)]) = REVOCATION_KEYS"
proof -
  have "distinct REVOCATION_KEYS" by (simp add: REVOCATION_KEYS_def ustr_inject)
  moreover have "map fst (revocation_fields rootCid targetRole ownerDid issuerDid nodeAudience reason now @ [(ustr ''signature'', v)]) = REVOCATION_KEYS"
    by (simp add: revocation_fields_def REVOCATION_KEYS_def)
  ultimately show ?thesis unfolding own_keys_def by (simp add: dedupe_distinct)
qed

text \<open>C24: The two ends of a revocation agree: if revokePolicyRootV3 returns, the revocation it posted (for the owner, or for
  the enforcer of an enforcement root, whose key verifies what the signer signed) passes
  verifyPolicyRootRevocationV3 against every checkpoint that names the same role, owner, node and time
  and lists the revocation's digest.\<close>

theorem revocation_verifies:
  assumes "revokePolicyRootV3 lib fetch rootCid targetRole ownerDid issuerDid nodeAudience reason sign now = Inr reply"
    and key: "did_material lib issuerDid = Inr ([0xED, 0x01] @ key)" "length key = 32"
    and honest: "\<And>digest sig. sign digest = Some sig \<Longrightarrow> cl_verify lib sig digest key = Some True"
    and issuer: "issuerDid = ownerDid \<or> targetRole = POLICY_ENFORCEMENT \<and> enforcer = Some issuerDid"
  shows "\<exists>r digest. object_digest lib ROOT_REVOCATION_V1_DOMAIN
        (revocation_fields rootCid targetRole ownerDid issuerDid nodeAudience reason now) = Inr digest \<and>
      receive ''policy root revocation rejected'' (fetch (Post (ustr ''/revoke'') (ObjJ [(ustr ''revocation'', ObjJ r)]))) = Inr (ObjJ reply) \<and>
      (\<forall>checkpoint. map (own checkpoint) [''targetRole'', ''ownerDid'', ''nodeAudience'', ''revokedAt'', ''revocationCid''] =
          map (Some \<circ> StrJ) [targetRole, ownerDid, nodeAudience, ustr (rfc3339Seconds now), hex digest] \<longrightarrow>
        verifyPolicyRootRevocationV3 lib rootCid checkpoint r enforcer)"
proof -
  let ?fs = "revocation_fields rootCid targetRole ownerDid issuerDid nodeAudience reason now"
  from assms(1) obtain r where r: "sign_status_object lib ROOT_REVOCATION_V1_DOMAIN ?fs issuerDid sign ''policy root revocation signature must be Ed25519'' = Inr r"
    "receive ''policy root revocation rejected'' (fetch (Post (ustr ''/revoke'') (ObjJ [(ustr ''revocation'', ObjJ r)]))) = Inr (ObjJ reply)"
    "reason \<noteq> []"
    unfolding revokePolicyRootV3_def by (elim bindR_InrE) (auto elim!: bindR_InrE simp: throw_if_Inr_iff object_iff)
  from sign_status_objectD [OF r(1) revocation_members(9)] obtain digest sig where
    d: "object_digest lib ROOT_REVOCATION_V1_DOMAIN ?fs = Inr digest" "sign digest = Some sig" "length sig = 64"
      "r = ?fs @ [(ustr ''signature'', status_signature_json issuerDid sig)]" "without_signature r = ?fs"
      "signature_value r (Some (StrJ issuerDid)) = Some (base64UrlEncode sig)" .
  have own_r: "own r key = (case own ?fs key of None \<Rightarrow> own [(ustr ''signature'', status_signature_json issuerDid sig)] key | Some v \<Rightarrow> Some v)" for key
    unfolding d(4) own_append ..
  have keys: "own_keys r = REVOCATION_KEYS" unfolding d(4) by (rule revocation_keys)
  have "sig \<noteq> []" using d(3) by auto
  then have v: "issuer_verifies lib ROOT_REVOCATION_V1_DOMAIN r issuerDid (base64UrlEncode sig) = Some digest"
    using key d(1,5) honest [OF d(2)] by (intro issuer_verifiesI) simp_all
  have "verifyPolicyRootRevocationV3 lib rootCid checkpoint r enforcer"
    if c: "map (own checkpoint) [''targetRole'', ''ownerDid'', ''nodeAudience'', ''revokedAt'', ''revocationCid''] =
      map (Some \<circ> StrJ) [targetRole, ownerDid, nodeAudience, ustr (rfc3339Seconds now), hex digest]" for checkpoint
  proof -
    have "revocation_shape rootCid checkpoint r"
      using c r(3) unfolding revocation_shape_def keys by (simp add: own_r revocation_members list_all_iff member_text_def)
    moreover have "own r ''issuerDid'' = Some (StrJ issuerDid)" "own r ''ownerDid'' = Some (StrJ ownerDid)" "own r ''targetRole'' = Some (StrJ targetRole)"
      by (simp_all add: own_r revocation_members)
    ultimately show ?thesis
      using issuer c d(6) v unfolding verifyPolicyRootRevocationV3_def Let_def by (auto simp: member_text_def)
  qed
  then show ?thesis using d(1) r(2) by blast
qed

section \<open>What a minted session is bound to\<close>

lemma jcs_same: "jcs v = Inr s \<Longrightarrow> jcs w = Inr s \<Longrightarrow> canon_of v = canon_of w"
  unfolding jcs_iff using serialize_inject json_ok_finite by blast

lemma minted_session_facts:
  assumes "mintPolicySessionV3 lib fetch input = Inr session"
  shows "parsePolicySessionUcan lib (ps_authorization session) (Some (mi_policyRootCid input, mi_enforcementRootCid input)) = Inr session"
    and "cp_aud (ps_payload session) = mi_recipientDid input" and "own (cp_fct (ps_payload session)) ''policyCid'' = Some (StrJ (mi_policyCid input))"
    and "\<exists>expected. compactAttenuationForPolicyCapabilities (mi_requestedCapabilities input) = Inr expected \<and>
      att_within expected (cp_att (ps_payload session)) \<and> att_within (cp_att (ps_payload session)) expected"
proof -
  from assms obtain authorization expected enc where
    p: "parsePolicySessionUcan lib authorization (Some (mi_policyRootCid input, mi_enforcementRootCid input)) = Inr session"
    and b: "cp_aud (ps_payload session) = mi_recipientDid input" "own (cp_fct (ps_payload session)) ''policyCid'' = Some (StrJ (mi_policyCid input))"
    and e: "compactAttenuationForPolicyCapabilities (mi_requestedCapabilities input) = Inr expected"
      "jcs (attenuation_json (cp_att (ps_payload session))) = Inr enc" "jcs (attenuation_json expected) = Inr enc"
    unfolding mintPolicySessionV3_def Let_def
    by (elim bindR_InrE) (auto elim!: bindR_InrE split: option.split_asm if_split_asm)
  from session_parsed [OF p] have "ps_authorization session = authorization" by metis
  with p show "parsePolicySessionUcan lib (ps_authorization session) (Some (mi_policyRootCid input, mi_enforcementRootCid input)) = Inr session" by simp
  show "cp_aud (ps_payload session) = mi_recipientDid input" "own (cp_fct (ps_payload session)) ''policyCid'' = Some (StrJ (mi_policyCid input))"
    by (fact b)+
  show "\<exists>expected. compactAttenuationForPolicyCapabilities (mi_requestedCapabilities input) = Inr expected \<and>
      att_within expected (cp_att (ps_payload session)) \<and> att_within (cp_att (ps_payload session)) expected"
    using e jcs_same [OF e(2,3)] att_within_canon by (metis (no_types))
qed

text \<open>C15: A session mintPolicySessionV3 returns is the one that was asked for: its authorization parses as a
  policy session under the two given roots, for the recipient and the policy, and it grants exactly
  what the requested capabilities allow, no more and no less.\<close>

theorem minted_session_bound:
  assumes "mintPolicySessionV3 lib fetch input = Inr session"
  shows "parsePolicySessionUcan lib (ps_authorization session) (Some (mi_policyRootCid input, mi_enforcementRootCid input)) = Inr session \<and>
    cp_aud (ps_payload session) = mi_recipientDid input \<and> own (cp_fct (ps_payload session)) ''policyCid'' = Some (StrJ (mi_policyCid input)) \<and>
    (\<exists>expected. compactAttenuationForPolicyCapabilities (mi_requestedCapabilities input) = Inr expected \<and>
      att_within expected (cp_att (ps_payload session)) \<and> att_within (cp_att (ps_payload session)) expected)"
  by (intro conjI minted_session_facts [OF assms])

section \<open>What a registration is bound to\<close>

lemma binding_checked:
  assumes "check_binding lib date input clock reply = Inr binding"
  obtains key sig digest where "own binding ''enforcerDid'' = Some (StrJ (ri_enforcerDid input))"
    "own binding ''nodeAudience'' = Some (StrJ (ri_expectedNodeAudience input))" "own binding ''expiresAt'' = Some (StrJ (ri_rootExpiresAt input))"
    "object_digest lib ATTESTED_ENFORCER_DOMAIN (without_signature binding) = Inr digest"
    "didKeyEd25519PublicKey lib (ri_expectedNodeAudience input) = Inr key" "cl_verify_strict lib sig digest key = Some True"
  using assms unfolding check_binding_def Let_def
  by (elim bindR_InrE) (auto elim!: bindR_InrE split: option.split_asm bool.split_asm if_split_asm)

text \<open>registerPolicyV3 returns a receipt only for a root expiry in whole seconds in the future, a binding of the enforcer to
  the expected node until then that this node's key signed, and a node that answers with the CIDs of
  the policy and roots that were sent.\<close>

lemma registered_policy_bound:
  assumes "registerPolicyV3 lib date fetch input clock = Inr receipt"
  shows "\<exists>t. date (ri_rootExpiresAt input) = Some t \<and> clock < t \<and> ri_rootExpiresAt input = ustr (rfc3339Seconds t)"
    and "\<exists>digest key sig. own (pr_binding receipt) ''enforcerDid'' = Some (StrJ (ri_enforcerDid input)) \<and>
      own (pr_binding receipt) ''expiresAt'' = Some (StrJ (ri_rootExpiresAt input)) \<and>
      object_digest lib ATTESTED_ENFORCER_DOMAIN (without_signature (pr_binding receipt)) = Inr digest \<and>
      didKeyEd25519PublicKey lib (ri_expectedNodeAudience input) = Inr key \<and> cl_verify_strict lib sig digest key = Some True"
    and "receipt = \<lparr>pr_policyCid = ri_policyCid input, pr_policyRootCid = ri_policyRootCid input,
      pr_enforcementRootCid = ri_enforcementRootCid input, pr_binding = pr_binding receipt\<rparr>"
proof -
  from assms obtain reply binding where e: "check_expiry date (ri_rootExpiresAt input) clock = Inr ()"
    and b: "check_binding lib date input clock reply = Inr binding"
    and r: "receipt = \<lparr>pr_policyCid = ri_policyCid input, pr_policyRootCid = ri_policyRootCid input,
      pr_enforcementRootCid = ri_enforcementRootCid input, pr_binding = binding\<rparr>"
    unfolding registerPolicyV3_def by (elim bindR_InrE) (auto elim!: bindR_InrE)
  show "\<exists>t. date (ri_rootExpiresAt input) = Some t \<and> clock < t \<and> ri_rootExpiresAt input = ustr (rfc3339Seconds t)"
    using e unfolding check_expiry_def by (auto simp: throw_if_Inr_iff split: option.split_asm)
  show "\<exists>digest key sig. own (pr_binding receipt) ''enforcerDid'' = Some (StrJ (ri_enforcerDid input)) \<and>
      own (pr_binding receipt) ''expiresAt'' = Some (StrJ (ri_rootExpiresAt input)) \<and>
      object_digest lib ATTESTED_ENFORCER_DOMAIN (without_signature (pr_binding receipt)) = Inr digest \<and>
      didKeyEd25519PublicKey lib (ri_expectedNodeAudience input) = Inr key \<and> cl_verify_strict lib sig digest key = Some True"
    using binding_checked [OF b] unfolding r by (metis policy_receipt.simps(4))
  show "receipt = \<lparr>pr_policyCid = ri_policyCid input, pr_policyRootCid = ri_policyRootCid input,
      pr_enforcementRootCid = ri_enforcementRootCid input, pr_binding = pr_binding receipt\<rparr>" unfolding r by simp
qed


section \<open>Samples\<close>

definition status_lib :: compact_lib where "status_lib = chain_lib chain_values"

definition root_cid :: ustring where "root_cid = ustr ''root''"

definition owner_did :: ustring where "owner_did = ustr ''did:key:z6O''"

lemma status_keys: "did_material status_lib owner_did = Inr ([0xED, 0x01] @ chain_key)" "did_material status_lib ucan_did = Inr ([0xED, 0x01] @ chain_key)"
proof -
  have "startsWith (principal_of owner_did) DID_KEY" "startsWith (principal_of ucan_did) DID_KEY" by code_simp+
  then show "did_material status_lib owner_did = Inr ([0xED, 0x01] @ chain_key)" "did_material status_lib ucan_did = Inr ([0xED, 0x01] @ chain_key)"
    unfolding status_lib_def by (simp_all only: chain_did_material)
qed

definition owner_signs :: "bytes \<Rightarrow> bytes option" where "owner_signs _ = Some (replicate 64 1)"

definition revoked_reply :: "node_request \<Rightarrow> node_reply" where
  "revoked_reply _ = NodeReply 200 [] None (Some (ObjJ []))"

abbreviation sample_revocation :: json_object where
  "sample_revocation \<equiv> revocation_fields root_cid POLICY_AUTHORITY owner_did owner_did ucan_did (ustr ''lost'') 5000"

lemma status_scalar: "scalar_string ucan_did" "scalar_string owner_did" "scalar_string root_cid"
  by (simp_all add: ucan_did_def owner_did_def root_cid_def scalar_ustr del: scalar_simps)

lemma digest_of_ok: "json_ok (ObjJ fs) \<Longrightarrow> \<exists>d. object_digest lib domain fs = Inr d"
  by (simp only: object_digest_def) (metis bindR.simps(2) jcs_iff)

lemma revocation_digest: "\<exists>d. object_digest status_lib ROOT_REVOCATION_V1_DOMAIN sample_revocation = Inr d"
  by (rule digest_of_ok)
    (use status_scalar in \<open>simp add: revocation_fields_def allowed_key_def ustr_inject scalar_ustr POLICY_AUTHORITY_def
      ROOT_REVOCATION_V1_SCHEMA_def del: scalar_simps\<close>)

lemma sample_revoked:
  "revokePolicyRootV3 status_lib revoked_reply root_cid POLICY_AUTHORITY owner_did owner_did ucan_did (ustr ''lost'') owner_signs 5000 = Inr []"
proof -
  obtain d where "object_digest status_lib ROOT_REVOCATION_V1_DOMAIN sample_revocation = Inr d" using revocation_digest by blast
  then show ?thesis
    by (simp add: revokePolicyRootV3_def sign_status_object_def owner_signs_def throw_if_def receive_def revoked_reply_def object_def)
qed

theorem revocation_verifies_witness:
  "\<exists>lib fetch sign. revokePolicyRootV3 lib fetch root_cid POLICY_AUTHORITY owner_did owner_did ucan_did (ustr ''lost'') sign 5000 = Inr [] \<and>
     (\<exists>r checkpoint. verifyPolicyRootRevocationV3 lib root_cid checkpoint r None)"
proof (intro exI [of _ status_lib] exI [of _ revoked_reply] exI [of _ owner_signs] conjI)
  show "revokePolicyRootV3 status_lib revoked_reply root_cid POLICY_AUTHORITY owner_did owner_did ucan_did (ustr ''lost'') owner_signs 5000 = Inr []"
    by (rule sample_revoked)
  have honest: "cl_verify status_lib sig digest chain_key = Some True" if "owner_signs digest = Some sig" for digest sig
    using that unfolding status_lib_def owner_signs_def by (metis chain_verifies option.inject)
  from revocation_verifies [OF sample_revoked status_keys(1) chain_material(3) honest] obtain r digest where
    v: "\<And>checkpoint. map (own checkpoint) [''targetRole'', ''ownerDid'', ''nodeAudience'', ''revokedAt'', ''revocationCid''] =
      map (Some \<circ> StrJ) [POLICY_AUTHORITY, owner_did, ucan_did, ustr (rfc3339Seconds 5000), hex digest] \<Longrightarrow>
      verifyPolicyRootRevocationV3 status_lib root_cid checkpoint r None" by blast
  let ?checkpoint = "[(ustr ''targetRole'', StrJ POLICY_AUTHORITY), (ustr ''ownerDid'', StrJ owner_did), (ustr ''nodeAudience'', StrJ ucan_did),
    (ustr ''revokedAt'', StrJ (ustr (rfc3339Seconds 5000))), (ustr ''revocationCid'', StrJ (hex digest))]"
  have "verifyPolicyRootRevocationV3 status_lib root_cid ?checkpoint r None" by (rule v) (simp add: ustr_lookup)
  then show "\<exists>r checkpoint. verifyPolicyRootRevocationV3 status_lib root_cid checkpoint r None" by blast
qed

definition mint_sample :: mint_input where
  "mint_sample =
     \<lparr>mi_policyCid = ustr ''c'', mi_policyRootCid = ustr ''policy'', mi_enforcementRootCid = ustr ''enforcement'',
      mi_recipientDid = ustr ''did:key:z6B'', mi_requestedCapabilities = [reach_cap PrefixOf ''tinycloud:s/kv/docs''],
      mi_expectedFacts = [(ustr ''policyId'', StrJ (ustr ''p''))], mi_claim = [], mi_presentation = [],
      mi_challenge = Some [(ustr ''policyCid'', StrJ (ustr ''c'')), (ustr ''recipientDid'', StrJ (ustr ''did:key:z6B''))]\<rparr>"

definition mint_reply :: "node_request \<Rightarrow> node_reply" where
  "mint_reply _ = NodeReply 200 [] None (Some (ObjJ [(ustr ''admitted'', BoolJ True), (ustr ''sessionCid'', StrJ (ustr ''cid'')),
     (ustr ''authorization'', StrJ (ca_authorization chain_root))]))"

lemma mint_facts:
  "own chain_facts ''policyCid'' = Some (StrJ (ustr ''c''))" "own chain_facts ''policyDelegationCid'' = Some (StrJ (ustr ''policy''))"
  "own chain_facts ''enforcementDelegationCid'' = Some (StrJ (ustr ''enforcement''))" "own chain_facts ''policyId'' = Some (StrJ (ustr ''p''))"
  unfolding chain_facts_def own_named by (simp_all add: chain_fact_list_def)

lemma mint_attenuation:
  "compactAttenuationForPolicyCapabilities (mi_requestedCapabilities mint_sample) = Inr (chain_att ''tinycloud:s/kv/docs'' ''prefix'')"
  by (simp add: compactAttenuationForPolicyCapabilities_def mint_sample_def reach_cap_normal chain_att_def selector_caveat_def)

lemma mint_jcs: "\<exists>enc. jcs (attenuation_json (chain_att ''tinycloud:s/kv/docs'' ''prefix'')) = Inr enc"
proof -
  have "json_ok (attenuation_json (chain_att ''tinycloud:s/kv/docs'' ''prefix''))"
    by (simp add: attenuation_json_def chain_att_def allowed_key_def ustr_inject scalar_ustr SELECTOR_TYPE_def del: scalar_simps)
  then show ?thesis unfolding jcs_iff by blast
qed

lemma sample_minted: "mintPolicySessionV3 status_lib mint_reply mint_sample = Inr chain_session"
proof -
  obtain enc where e: "jcs (attenuation_json (chain_att ''tinycloud:s/kv/docs'' ''prefix'')) = Inr enc" using mint_jcs by blast
  have m: "mi_challenge mint_sample = Some [(ustr ''policyCid'', StrJ (ustr ''c'')), (ustr ''recipientDid'', StrJ (ustr ''did:key:z6B''))]"
    "mi_policyCid mint_sample = ustr ''c''" "mi_recipientDid mint_sample = ustr ''did:key:z6B''"
    "mi_policyRootCid mint_sample = ustr ''policy''" "mi_enforcementRootCid mint_sample = ustr ''enforcement''"
    "own_entries (mi_expectedFacts mint_sample) = [(ustr ''policyId'', StrJ (ustr ''p''))]"
    by (simp_all add: mint_sample_def own_entries_def own_keys_def push_new_def)
  have s: "cp_fct (ps_payload chain_session) = chain_facts" "cp_aud (ps_payload chain_session) = ustr ''did:key:z6B''"
    "ps_cid chain_session = ustr ''cid''" "cp_att (ps_payload chain_session) = chain_att ''tinycloud:s/kv/docs'' ''prefix''"
    by (simp_all add: chain_session_def chain_payload_def chain_cids)
  show ?thesis
    unfolding mintPolicySessionV3_def m mint_attenuation
    using chain_session_parsed(2) mint_facts e s chain_facts_members(3)
    by (simp add: ustr_lookup throw_if_def receive_def mint_reply_def object_def member_text_def status_lib_def Let_def
        fact_equals_def own_def [symmetric])
qed

theorem minted_session_bound_witness:
  "\<exists>lib fetch session. mintPolicySessionV3 lib fetch mint_sample = Inr session \<and>
     parsePolicySessionUcan lib (ps_authorization session) (Some (ustr ''policy'', ustr ''enforcement'')) = Inr session \<and>
     att_within (chain_att ''tinycloud:s/kv/docs'' ''prefix'') (cp_att (ps_payload session))"
proof (intro exI [of _ status_lib] exI [of _ mint_reply] exI [of _ chain_session] conjI)
  show "mintPolicySessionV3 status_lib mint_reply mint_sample = Inr chain_session" by (rule sample_minted)
  show "parsePolicySessionUcan status_lib (ps_authorization chain_session) (Some (ustr ''policy'', ustr ''enforcement'')) = Inr chain_session"
    using minted_session_bound [OF sample_minted] by (simp add: mint_sample_def)
  show "att_within (chain_att ''tinycloud:s/kv/docs'' ''prefix'') (cp_att (ps_payload chain_session))"
    using minted_session_bound [OF sample_minted] unfolding mint_attenuation by auto
qed


definition status_fields :: "bytes \<Rightarrow> json_object" where
  "status_fields digest =
     [(ustr ''schema'', StrJ ROOT_STATUS_CHECKPOINT_V1_SCHEMA), (ustr ''targetCid'', StrJ root_cid), (ustr ''targetRole'', StrJ POLICY_AUTHORITY),
      (ustr ''ownerDid'', StrJ owner_did), (ustr ''nodeAudience'', StrJ ucan_did), (ustr ''state'', StrJ REVOKED),
      (ustr ''sequence'', NumJ (number_of_int 1)), (ustr ''checkedAt'', StrJ (ustr ''t0'')), (ustr ''freshUntil'', StrJ (ustr ''t1'')),
      (ustr ''revokedAt'', StrJ (ustr (rfc3339Seconds 5000))), (ustr ''revocationCid'', StrJ (hex digest)), (ustr ''issuerDid'', StrJ ucan_did)]"

definition status_checkpoint :: "bytes \<Rightarrow> json_object" where
  "status_checkpoint digest = status_fields digest @ [(ustr ''signature'', status_signature_json ucan_did (replicate 64 1))]"

definition status_revocation :: json_object where
  "status_revocation = sample_revocation @ [(ustr ''signature'', status_signature_json owner_did (replicate 64 1))]"

definition status_reply :: "bytes \<Rightarrow> node_request \<Rightarrow> node_reply" where
  "status_reply digest _ = NodeReply 200 [] None (Some (ObjJ [(ustr ''rootCid'', StrJ root_cid), (ustr ''state'', StrJ REVOKED),
     (ustr ''checkpoint'', ObjJ (status_checkpoint digest)), (ustr ''revocation'', ObjJ status_revocation)]))"

definition status_date :: "ustring \<Rightarrow> int option" where
  "status_date s = Some (if s = ustr ''t0'' then 0 else 200000)"

lemma scalar_hex: "scalar_string (hex bytes)"
proof -
  have "list_all (\<lambda>n. \<not> high (hex_digit n) \<and> \<not> low (hex_digit n)) [0..<16]" by code_simp
  then have d: "\<not> high (hex_digit n) \<and> \<not> low (hex_digit n)" if "n < 16" for n using that by (simp add: list_all_iff)
  have b: "unat b div 16 < 16" for b :: "8 word"
    using unsigned_less [of b, where ?'a = nat] by simp
  show ?thesis
    unfolding hex_def by (rule scalar_plain) (use d b in \<open>auto simp: list_all_iff\<close>)
qed

lemma status_members:
  "own (status_checkpoint d) ''schema'' = Some (StrJ ROOT_STATUS_CHECKPOINT_V1_SCHEMA)" "own (status_checkpoint d) ''targetCid'' = Some (StrJ root_cid)"
  "own (status_checkpoint d) ''targetRole'' = Some (StrJ POLICY_AUTHORITY)" "own (status_checkpoint d) ''ownerDid'' = Some (StrJ owner_did)"
  "own (status_checkpoint d) ''nodeAudience'' = Some (StrJ ucan_did)" "own (status_checkpoint d) ''state'' = Some (StrJ REVOKED)"
  "own (status_checkpoint d) ''sequence'' = Some (NumJ (number_of_int 1))" "own (status_checkpoint d) ''checkedAt'' = Some (StrJ (ustr ''t0''))"
  "own (status_checkpoint d) ''freshUntil'' = Some (StrJ (ustr ''t1''))" "own (status_checkpoint d) ''revokedAt'' = Some (StrJ (ustr (rfc3339Seconds 5000)))"
  "own (status_checkpoint d) ''revocationCid'' = Some (StrJ (hex d))" "own (status_checkpoint d) ''issuerDid'' = Some (StrJ ucan_did)"
  "own (status_checkpoint d) ''previousCheckpointDigestHex'' = None" "own (status_fields d) ''signature'' = None"
  "own (status_checkpoint d) ''signature'' = Some (status_signature_json ucan_did (replicate 64 1))"
  by (simp_all add: status_checkpoint_def status_fields_def ustr_lookup)

lemma status_own_keys: "list_all (\<lambda>key. key \<in> set CHECKPOINT_KEYS) (own_keys (status_checkpoint d))"
proof -
  have "set (own_keys (status_checkpoint d)) = set (map fst (status_checkpoint d))" by (simp add: own_keys_def)
  moreover have "list_all (\<lambda>key. key \<in> set CHECKPOINT_KEYS) (map fst (status_checkpoint d))"
    by (simp add: status_checkpoint_def status_fields_def CHECKPOINT_KEYS_def)
  ultimately show ?thesis by (simp only: list_all_iff)
qed

lemma sample_signature: "own fs ''signature'' = Some (status_signature_json did (replicate 64 1)) \<Longrightarrow>
    signature_value fs (Some (StrJ did)) = Some (base64UrlEncode (replicate 64 1))"
  by (simp add: signature_value_def status_signature_json_def own_keys_def own_def ustr_inject push_new_def strict_eq_text encodeBase64Url_def member_text_def)

lemma sample_issuer:
  assumes "did_material status_lib did = Inr ([0xED, 0x01] @ chain_key)" and "object_digest status_lib domain (without_signature fs) = Inr d"
  shows "issuer_verifies status_lib domain fs did (base64UrlEncode (replicate 64 1)) = Some d"
  using assms chain_verifies by (intro issuer_verifiesI [OF _ chain_material(3)]) (auto simp: status_lib_def)

lemma sample_checkpoint_verifies: "verifyPolicyRootStatusCheckpointV3 status_lib status_date root_cid (status_checkpoint d) (Some ucan_did) 100000"
proof -
  have "json_ok (ObjJ (status_fields d))"
    using status_scalar scalar_hex by (simp add: status_fields_def allowed_key_def ustr_inject scalar_ustr POLICY_AUTHORITY_def REVOKED_def
      ROOT_STATUS_CHECKPOINT_V1_SCHEMA_def del: scalar_simps)
  from digest_of_ok [OF this] obtain e where e: "object_digest status_lib ROOT_STATUS_V1_DOMAIN (status_fields d) = Inr e" by blast
  have w: "without_signature (status_checkpoint d) = status_fields d"
    unfolding status_checkpoint_def by (rule without_signed) (rule status_members(14))
  have "issuer_verifies status_lib ROOT_STATUS_V1_DOMAIN (status_checkpoint d) ucan_did (base64UrlEncode (replicate 64 1)) = Some e"
    by (rule sample_issuer [OF status_keys(2)]) (simp only: w e)
  moreover have "signature_value (status_checkpoint d) (Some (StrJ ucan_did)) = Some (base64UrlEncode (replicate 64 1))"
    by (rule sample_signature) (rule status_members(15))
  moreover have "checkpoint_shape root_cid (status_checkpoint d) (Some ucan_did)"
    by (simp add: checkpoint_shape_def status_own_keys status_members member_text_def member_int_def number_int_of_int fl_exact)
  moreover have "checkpoint_fresh status_date (status_checkpoint d) 100000"
    by (simp add: checkpoint_fresh_def status_members member_text_def status_date_def ustr_inject)
  moreover have "checkpoint_links (status_checkpoint d)"
    by (simp add: checkpoint_links_def status_members member_text_def member_int_def number_int_of_int fl_exact ACTIVE_def REVOKED_def ustr_inject)
  ultimately show ?thesis
    by (simp add: verifyPolicyRootStatusCheckpointV3_def status_members member_text_def)
qed

lemma sample_revocation_verifies:
  assumes "object_digest status_lib ROOT_REVOCATION_V1_DOMAIN sample_revocation = Inr d"
  shows "verifyPolicyRootRevocationV3 status_lib root_cid (status_checkpoint d) status_revocation None"
proof -
  have own_r: "own status_revocation key = (case own sample_revocation key of
      None \<Rightarrow> own [(ustr ''signature'', status_signature_json owner_did (replicate 64 1))] key | Some v \<Rightarrow> Some v)" for key
    unfolding status_revocation_def own_append ..
  have keys: "own_keys status_revocation = REVOCATION_KEYS" unfolding status_revocation_def by (rule revocation_keys)
  have w: "without_signature status_revocation = sample_revocation"
    unfolding status_revocation_def by (rule without_signed) (rule revocation_members(9))
  have i: "issuer_verifies status_lib ROOT_REVOCATION_V1_DOMAIN status_revocation owner_did (base64UrlEncode (replicate 64 1)) = Some d"
    by (rule sample_issuer [OF status_keys(1)]) (simp only: w assms)
  have sg: "signature_value status_revocation (Some (StrJ owner_did)) = Some (base64UrlEncode (replicate 64 1))"
    by (rule sample_signature) (simp add: own_r revocation_members ustr_lookup)
  have "revocation_shape root_cid (status_checkpoint d) status_revocation"
    unfolding revocation_shape_def keys by (simp add: own_r revocation_members status_members list_all_iff member_text_def)
  moreover have "own status_revocation ''issuerDid'' = Some (StrJ owner_did)" "own status_revocation ''ownerDid'' = Some (StrJ owner_did)"
    by (simp_all add: own_r revocation_members)
  ultimately show ?thesis
    using i sg unfolding verifyPolicyRootRevocationV3_def Let_def by (simp add: member_text_def status_members)
qed

lemma sample_status:
  assumes "object_digest status_lib ROOT_REVOCATION_V1_DOMAIN sample_revocation = Inr d"
  shows "getPolicyRootStatusV3 status_lib status_date (status_reply d) root_cid (Some ucan_did) None 100000 =
    Inr \<lparr>rs_rootCid = root_cid, rs_state = REVOKED, rs_checkpoint = status_checkpoint d, rs_revocation = Some status_revocation\<rparr>"
  using sample_checkpoint_verifies [of d] sample_revocation_verifies [OF assms] status_scalar(3)
  by (simp add: getPolicyRootStatusV3_def encodeURIComponent_def receive_def status_reply_def object_def ustr_lookup member_text_def
      throw_if_def status_members)

theorem root_status_evidence_witness:
  "\<exists>lib date fetch st. getPolicyRootStatusV3 lib date fetch root_cid (Some ucan_did) None 100000 = Inr st \<and>
     rs_state st = REVOKED \<and> rs_revocation st \<noteq> None \<and>
     (\<exists>digest. signed_by lib (ustr ''xyz.tinycloud.policy/RootStatusCheckpoint/v1'' @ [0]) (rs_checkpoint st) ucan_did digest)"
proof -
  obtain d where d: "object_digest status_lib ROOT_REVOCATION_V1_DOMAIN sample_revocation = Inr d" using revocation_digest by blast
  let ?st = "\<lparr>rs_rootCid = root_cid, rs_state = REVOKED, rs_checkpoint = status_checkpoint d, rs_revocation = Some status_revocation\<rparr>"
  have "\<exists>digest. signed_by status_lib (ustr ''xyz.tinycloud.policy/RootStatusCheckpoint/v1'' @ [0]) (rs_checkpoint ?st) ucan_did digest"
    using root_status_evidence [OF sample_status [OF d]] by (auto simp: status_members)
  then show ?thesis
    using sample_status [OF d]
    by (intro exI [of _ status_lib] exI [of _ status_date] exI [of _ "status_reply d"] exI [of _ ?st]) simp
qed

end
