(* ===== verification/RevocationTime.thy ===== *)
theory RevocationTime
  imports RootStatus
begin

text \<open>
  The time a revocation carries (\<open>rfc3339Seconds\<close> of \<^verbatim>\<open>packages/sdk-core/src/policy/unified.ts\<close>): it passes the
  strict check the SDK has for times of others (\<open>isRfc3339DateTime\<close> of \<^verbatim>\<open>registry-verdict.ts\<close>) and has no fraction.
\<close>

section \<open>Numbers of fixed width\<close>

lemma pad_number_length: "0 \<le> n \<Longrightarrow> n < 10 ^ w \<Longrightarrow> 0 < w \<Longrightarrow> length (pad_number w n) = w"
proof -
  assume n: "0 \<le> n" "n < 10 ^ w" "0 < w"
  then have "nat n < 10 ^ w" by (simp add: nat_less_iff)
  with n(3) have "length (dec_of_nat (nat n)) \<le> w" by (intro pad_length)
  then show ?thesis by (simp add: pad_number_def)
qed

lemma pad_number_digits: "list_all is_digit (pad_number w n)"
proof -
  have "is_digit (CHR ''0'')" by (simp add: is_digit_def)
  then show ?thesis using dec_of_nat_digits [of "nat n"] by (auto simp: pad_number_def list_all_iff)
qed

lemma pad_number_value: "nat_of_dec (pad_number w n) = nat n"
proof -
  have "nat_of_dec (replicate k (CHR ''0'') @ s) = nat_of_dec s" for k s
    by (induction k) (simp_all add: nat_of_dec_def char_digit_def)
  then show ?thesis by (simp add: pad_number_def)
qed

lemma pad_number_units: "units_number (ustr (pad_number w n)) = nat n"
  using units_number_ustr [OF pad_number_digits] pad_number_value by simp

lemma pad_number_lang: "length (pad_number w n) = w \<Longrightarrow> ustr (pad_number w n) \<in> lang (digits_rx w)"
  using pad_number_digits [of w n] unit_digit_of
  unfolding digits_rx_def lang_Between_Cls by (auto simp: ustr_def list_all_iff)

section \<open>Whole seconds\<close>

lemma whole_seconds: "date_parts_of (t div 1000 * 1000) = (date_parts_of t)\<lparr>dp_milli := 0\<rparr>"
proof -
  define q where "q = t div 1000"
  have day: "q * 1000 div 86400000 = t div 86400000"
    using div_mult_mult2 [of 1000 q 86400] zdiv_zmult2_eq [of 86400 t 1000] by (simp add: q_def)
  have ms: "q * 1000 mod 86400000 = q mod 86400 * 1000" using mult_mod_right [of 1000 q 86400] by (simp add: mult.commute)
  have ms': "t mod 86400000 = q mod 86400 * 1000 + t mod 1000"
    using zmod_zmult2_eq [of 86400 t 1000] by (simp add: q_def mult.commute)
  have r: "0 \<le> t mod 1000" "t mod 1000 < 1000" by simp_all
  have h: "(q mod 86400 * 1000 + t mod 1000) div 3600000 = q mod 86400 * 1000 div 3600000"
    "(q mod 86400 * 1000 + t mod 1000) div 60000 = q mod 86400 * 1000 div 60000"
    "(q mod 86400 * 1000 + t mod 1000) div 1000 = q mod 86400 * 1000 div 1000"
  proof -
    have "(x * 1000 + y) div (1000 * n) = x * 1000 div (1000 * n)" if "0 \<le> y" "y < 1000" "0 \<le> n" for x y n :: int
      using that by (simp add: zdiv_zmult2_eq)
    from this [OF r, of 3600] this [OF r, of 60] this [OF r, of 1]
    show "(q mod 86400 * 1000 + t mod 1000) div 3600000 = q mod 86400 * 1000 div 3600000"
      "(q mod 86400 * 1000 + t mod 1000) div 60000 = q mod 86400 * 1000 div 60000"
      "(q mod 86400 * 1000 + t mod 1000) div 1000 = q mod 86400 * 1000 div 1000" by simp_all
  qed
  show ?thesis
    unfolding q_def [symmetric] date_parts_of_def Let_def day ms ms' h by (simp split: prod.split)
qed

lemma seconds_text:
  assumes "0 \<le> dp_year (date_parts_of t)" "dp_year (date_parts_of t) \<le> 9999"
  shows "rfc3339Seconds t =
    pad_number 4 (dp_year (date_parts_of t)) @ ''-'' @ pad_number 2 (dp_month (date_parts_of t)) @ ''-'' @ pad_number 2 (dp_day (date_parts_of t)) @ ''T'' @
    pad_number 2 (dp_hour (date_parts_of t)) @ '':'' @ pad_number 2 (dp_minute (date_parts_of t)) @ '':'' @ pad_number 2 (dp_second (date_parts_of t)) @ ''Z''"
proof -
  let ?p = "date_parts_of t"
  let ?front = "pad_number 4 (dp_year ?p) @ ''-'' @ pad_number 2 (dp_month ?p) @ ''-'' @ pad_number 2 (dp_day ?p) @ ''T'' @
    pad_number 2 (dp_hour ?p) @ '':'' @ pad_number 2 (dp_minute ?p) @ '':'' @ pad_number 2 (dp_second ?p)"
  have zero: "pad_number 3 0 = ''000''" by code_simp
  have "toISOString (t div 1000 * 1000) = ?front @ ''.000Z''"
    using assms unfolding toISOString_def whole_seconds by (simp add: Let_def year_text_def zero)
  moreover have "rfc3339Seconds t = front @ ''Z''" if "toISOString (t div 1000 * 1000) = front @ ''.000Z''" for front
    unfolding rfc3339Seconds_def that Let_def using endsWith_append [of front "''.000Z''"] by (simp add: dropEnd_def)
  ultimately show ?thesis by simp
qed

text \<open>The text has the shape of an RFC 3339 time without a fraction.\<close>

lemma ustr_appends: "ustr (a @ b) = ustr a @ ustr b"
  by (simp add: ustr_def)

lemma month_length_days: "1 \<le> m \<Longrightarrow> m \<le> 12 \<Longrightarrow> 0 \<le> y \<Longrightarrow> days_in_month (nat y) (nat m) = Some (nat (month_lengths y ! nat (m - 1)))"
proof -
  assume m: "1 \<le> m" "m \<le> 12" and y: "0 \<le> y"
  have mods: "nat y mod k = 0 \<longleftrightarrow> y mod int k = 0" for k
  proof -
    have "int (nat y mod k) = y mod int k" using y by (simp add: zmod_int)
    then show ?thesis by linarith
  qed
  have leap: "((nat y mod 4 = 0 \<and> nat y mod 100 \<noteq> 0) \<or> nat y mod 400 = 0) = leap_year y"
  proof -
    have "(400 :: int) dvd y \<Longrightarrow> 4 dvd y" by (erule dvd_trans [rotated]) simp
    then have "y mod 400 = 0 \<longrightarrow> y mod 4 = 0" unfolding dvd_eq_mod_eq_0 by blast
    then show ?thesis using mods [of 4] mods [of 100] mods [of 400] unfolding leap_year_def by auto
  qed
  have "m = 1 \<or> m = 2 \<or> m = 3 \<or> m = 4 \<or> m = 5 \<or> m = 6 \<or> m = 7 \<or> m = 8 \<or> m = 9 \<or> m = 10 \<or> m = 11 \<or> m = 12"
    using m by presburger
  then show ?thesis
    unfolding days_in_month_def Let_def leap month_lengths_def by (elim disjE) simp_all
qed


text \<open>C39: The time of a revocation made in the years 0 to 9999 is a canonical RFC 3339 time in whole seconds: it
  passes the strict check of registry records (four-digit year, a month, a day that month has, hours,
  minutes and seconds in range, in UTC) and has 20 characters, none of them a fraction's point.\<close>

theorem revocation_time_strict:
  assumes "0 \<le> dp_year (date_parts_of now)" and "dp_year (date_parts_of now) \<le> 9999"
  shows "isRfc3339DateTime (ustr (rfc3339Seconds now)) \<and> length (rfc3339Seconds now) = 20 \<and> CHR ''.'' \<notin> set (rfc3339Seconds now)"
proof -
  let ?p = "date_parts_of now"
  define Y where "Y = pad_number 4 (dp_year ?p)"
  define M where "M = pad_number 2 (dp_month ?p)"
  define D where "D = pad_number 2 (dp_day ?p)"
  define h where "h = pad_number 2 (dp_hour ?p)"
  define m where "m = pad_number 2 (dp_minute ?p)"
  define s where "s = pad_number 2 (dp_second ?p)"
  note defs = Y_def M_def D_def h_def m_def s_def
  have t: "rfc3339Seconds now = Y @ ''-'' @ M @ ''-'' @ D @ ''T'' @ h @ '':'' @ m @ '':'' @ s @ ''Z''"
    unfolding seconds_text [OF assms] defs ..
  note range = date_parts_range [of now]
  have day: "dp_day ?p \<le> 31"
  proof -
    have "month_lengths y ! k \<le> 31" if "k < 12" for y k
    proof -
      have "list_all (\<lambda>n. n \<le> 31) (month_lengths y)" by (simp add: month_lengths_def)
      moreover have "length (month_lengths y) = 12" by (simp add: month_lengths_def)
      ultimately show ?thesis using that by (simp add: list_all_length)
    qed
    moreover have "nat (dp_month ?p - 1) < 12" using range(1) by linarith
    ultimately show ?thesis using range(2) by (meson order_trans)
  qed
  have l: "length Y = 4" "length M = 2" "length D = 2" "length h = 2" "length m = 2" "length s = 2"
    unfolding defs using assms range day by (simp_all add: pad_number_length)
  have u: "units_number (ustr Y) = nat (dp_year ?p)" "units_number (ustr M) = nat (dp_month ?p)" "units_number (ustr D) = nat (dp_day ?p)"
    "units_number (ustr h) = nat (dp_hour ?p)" "units_number (ustr m) = nat (dp_minute ?p)" "units_number (ustr s) = nat (dp_second ?p)"
    unfolding defs by (rule pad_number_units)+
  have d: "ustr Y \<in> lang (digits_rx 4)" "ustr M \<in> lang (digits_rx 2)" "ustr D \<in> lang (digits_rx 2)"
    "ustr h \<in> lang (digits_rx 2)" "ustr m \<in> lang (digits_rx 2)" "ustr s \<in> lang (digits_rx 2)"
    using l unfolding defs by (simp_all only: pad_number_lang)
  define val where "val = ustr Y @ ustr ''-'' @ ustr M @ ustr ''-'' @ ustr D @ ustr ''T'' @ ustr h @ ustr '':'' @ ustr m @ ustr '':'' @ ustr s @ [] @ ustr ''Z''"
  have v: "ustr (rfc3339Seconds now) = val" unfolding t val_def by (simp add: ustr_appends ustr_def)
  have z: "ustr ''Z'' \<in> lang (Or (Lit (ustr ''Z'')) r)" "[] \<in> lang (Maybe r)" for r by (simp_all add: lang_Lit)
  have "val \<in> lang RFC3339_RE"
    unfolding RFC3339_RE_def lang.simps(4) val_def by (intro concI d z) (simp_all only: lang_Lit singletonI)
  then have rx: "rx_test RFC3339_RE val" by (simp only: rx_test_iff)
  have one: "length (ustr w) = length w" for w by (simp add: ustr_def)
  have n: "number_at 0 4 val = nat (dp_year ?p)" "number_at 5 2 val = nat (dp_month ?p)" "number_at 8 2 val = nat (dp_day ?p)"
    "number_at 11 2 val = nat (dp_hour ?p)" "number_at 14 2 val = nat (dp_minute ?p)" "number_at 17 2 val = nat (dp_second ?p)"
    unfolding number_at_def val_def u [symmetric] by (simp_all add: one l)
  have "last val = 0x5A" unfolding val_def by (simp add: ustr_def unit_of_def)
  moreover have "Suc 0 \<le> nat (dp_day ?p)" using range(2) by linarith
  ultimately have "isRfc3339DateTime val"
    unfolding isRfc3339DateTime_def using rx range assms
    by (simp add: n month_length_days nat_le_iff Let_def)
  moreover have "CHR ''.'' \<notin> set (pad_number w k)" for w k
    using pad_number_digits [of w k] by (auto simp: list_all_iff is_digit_def)
  ultimately show ?thesis unfolding v using l by (simp add: t defs)
qed

theorem revocation_time_strict_witness:
  "isRfc3339DateTime (ustr (rfc3339Seconds 1790765999120)) \<and> rfc3339Seconds 1790765999120 = ''2026-09-30T10:59:59Z''"
proof
  have y: "dp_year (date_parts_of 1790765999120) = 2026" by code_simp
  show "isRfc3339DateTime (ustr (rfc3339Seconds 1790765999120))"
    using revocation_time_strict [of 1790765999120] unfolding y by simp
  show "rfc3339Seconds 1790765999120 = ''2026-09-30T10:59:59Z''" by code_simp
qed

end
