(* ===== verification/Spec2Isabelle.thy ===== *)
theory Spec2Isabelle
  imports ManifestResolve KeyRegistry SignedVerification PinStore RegistryPolicy RevocationTime
begin

text \<open>
  A model of the pure core of the TinyCloud JavaScript SDK (\<^verbatim>\<open>packages/\<close>) and the theorems that
  make it correct. The modelled part decides, without I/O, what an application may ask for, what
  a delegation permits, which key may use it, whether a signed policy is genuine and which host an
  owner's data is on; the rest of the repository moves bytes for it.

  \<^bold>\<open>The parts and how they interact.\<close> An application declares its needs in a manifest. The manifest
  is validated on untyped input, its short forms (tiers, secrets, vaults, named keys) are
  expanded into permission entries on concrete resources, and several manifests are composed
  into one request per space. Sessions answer with ReCap delegations: the subset check decides
  whether a request needs a new signature, and the key registry keeps which key may use which
  delegation. Owners state who may obtain access by signed policy objects: capabilities with
  canonical paths and caveats, conditions, canonical JSON, identifiers derived from a digest, and
  signatures in two suites. Where an owner's data is kept stands in a location record the owner
  signs: a registry is asked for it, its answer is classified, and a session is routed by the
  verdict, with the sequence numbers seen so far and the identities of local nodes remembered.

  \<^item> \<open>Prelude\<close>, \<open>Regex\<close>, \<open>Grouping\<close>, \<open>JsValue\<close>, \<open>Json\<close>, \<open>Utf8\<close>: the language. Errors as sums,
    string operations, regular expressions by derivatives with their languages, the
    ubiquitous loop that groups a list by a \<open>Map\<close> key, untyped values, JSON text on 16-bit code
    units with unique decodability, and UTF-8 with injectivity. The locale \<open>containment\<close> of
    \<open>Prelude\<close> is the interface every containment check has: it reflects inclusion of what is
    permitted, so it is a preorder and checks compose along chains of delegations.
  \<^item> \<open>NetworkId\<close>, \<open>Pkh\<close>, \<open>EncResource\<close> (\<^verbatim>\<open>sdk-services/src/encryption/networkId.ts\<close>, \<^verbatim>\<open>resource.ts\<close>,
    parts of \<^verbatim>\<open>bootstrap/src/index.ts\<close>): URNs of encryption networks, keys and key prefixes; building
    and parsing are inverse, and containment of resources is exactly its scope.
  \<^item> \<open>SecretPaths\<close> (\<^verbatim>\<open>sdk-services/src/secrets/paths.ts\<close>): names, scopes and storage paths of
    secrets.
  \<^item> \<open>Abilities\<close> (\<^verbatim>\<open>bootstrap/src/capabilities.ts\<close> and its generated table): the registry of
    capability URNs.
  \<^item> \<open>ManifestTypes\<close>, \<open>ManifestExpand\<close>, \<open>ManifestValidate\<close>, \<open>ManifestResolve\<close>
    (\<^verbatim>\<open>sdk-core/src/manifest.ts\<close>): \<open>validateManifest\<close>, \<open>expandPermissionEntries\<close>,
    \<open>expandRuntimePermissionEntry\<close>, \<open>resolveManifest\<close>, \<open>composeManifestRequest\<close>, abilities maps. The
    theorems say what is granted and no more, that expansion is idempotent, and that composition
    keeps the authority of each manifest.
  \<^item> \<open>Capabilities\<close> (\<^verbatim>\<open>sdk-core/src/capabilities.ts\<close>): \<open>isCapabilitySubset\<close>, ReCap reading and caveat
    equality; outside encryption the check decides inclusion of the accesses the two sides permit,
    so chains of delegations compose, and explicit-only actions are granted by name. Spaces are
    compared by their names only, as the code compares them.
  \<^item> \<open>KeyRegistry\<close> (\<^verbatim>\<open>sdk-core/src/authorization/CapabilityKeyRegistry.ts\<close>): the state of the class as a
    record, each method as a state transformer, the step relation of all of them with the
    invariant of reachable states; lookups are sound, complete and never return a revoked
    delegation.
  \<^item> \<open>Jcs\<close> (\<^verbatim>\<open>sdk-core/src/policy/jcs.ts\<close>): canonical JSON; the text determines the value up to the
    order of keys.
  \<^item> \<open>PolicyCapability\<close> (\<^verbatim>\<open>policy/capability.ts\<close>): validation, canonical form and containment of policy
    capabilities, as inclusion of accesses; the one exception, which the theorem states, is a
    constrained request under an authority without caveats.
  \<^item> \<open>Doubles\<close>, \<open>TextDecode\<close>: rounding of integers to doubles and reading them from JSON numbers; the
    decoder of UTF-8 with its byte order mark, inverse to the encoder.
  \<^item> \<open>UnifiedCapability\<close> (\<^verbatim>\<open>policy/unified.ts\<close>): the capabilities of unified policies, their projection to
    what a node enforces and back, digests and identifiers; containment is inclusion of accesses.
  \<^item> \<open>CompactUcan\<close>, \<open>PolicyChain\<close>, \<open>PolicyReach\<close> (\<^verbatim>\<open>policy/unified.ts\<close>): compact UCANs (parsing, signing), the
    policy sessions read from them, the descendants and invocations made below a session. What is accepted is
    characterised down to bytes and members, with the byte order mark the reader lets through; what
    is signed parses, a chain of descendants (an inductive relation) only
    narrows and ends after at most eight steps, and containment of attenuations implements
    inclusion of accesses.
  \<^item> \<open>Dates\<close>, \<open>RootStatus\<close>, \<open>RevocationTime\<close> (\<^verbatim>\<open>policy/unified.ts\<close>): the times a \<open>Date\<close> writes, and the client
    of a policy node, where a node is a function from requests to replies: root status, renewal and
    revocation, minting of sessions, registration of policies. What a status and a minted session
    rest on is characterised; made revocations verify, and their times are strict RFC 3339.
  \<^item> \<open>Identity\<close> (\<^verbatim>\<open>sdk-core/src/identity.ts\<close>): addresses and DIDs, their comparison and cache keys.
  \<^item> \<open>Encodings\<close>, \<open>SignedObject\<close>, \<open>SignedVerification\<close> (\<^verbatim>\<open>policy/signed-object.ts\<close>, \<^verbatim>\<open>policy/errors.ts\<close>):
    base 32 and base64url over 32-bit buffers, the three signed objects with all validators,
    signing and verification. What is signed verifies, what verifies was signed over the digest
    the identifier spells, identifiers separate contents, and the accepted conditions are
    those of a grammar.
  \<^item> \<open>StrictJson\<close>, \<open>RegistryVerdict\<close> (\<^verbatim>\<open>sdk-core/src/registry-verdict.ts\<close>): the strict reader of registry
    answers, with a grammar it decides, and \<open>classifyRegistryLookup\<close>.
  \<^item> \<open>Location\<close>, \<open>PinStore\<close>, \<open>RecordAgreement\<close> (\<^verbatim>\<open>sdk-core/src/location.ts\<close>): location records (signing,
    verification, publication, the binding of a share target), the order in which sources of a
    host are tried, local nodes and the stores of their pins. Signed records verify, publication
    is idempotent and only appends, pins never change, and the two independent verifiers of
    records agree. The locale \<open>pin_store\<close> is the interface of the pin stores, with both as instances.
  \<^item> \<open>RegistryPolicy\<close> (\<^verbatim>\<open>sdk-core/src/registry-policy.ts\<close>): the stores of sequence numbers behind the locale
    \<open>sequence_store\<close>, lookups as a step relation over failing storage and any network, and the
    fail-closed routing with its retry loop as a partial function, whose end is characterised; every
    host it returns is traced to what one attempt met.

  \<^bold>\<open>What statements rest on.\<close> A theorem on authenticity names the call of the library that accepts a
  signature, over the bytes that were signed and with the key that a DID spells, not the code's own
  verdict; honest signers and fresh times are stated the same way. Encodings appear in such
  statements as groups of bits, and permissions as sets of accesses with definitions of their own.

  \<^bold>\<open>Conventions.\<close> A function that can throw returns \<open>error + value\<close>; a JavaScript string is a list of
  characters where the code only meets ASCII, and a list of 16-bit words where the units
  matter. A \<open>Map\<close> or object is an association list in insertion order. Bit operations are on
  32-bit words. Loops are structural recursion or have a termination proof; the paging loop of
  the key registry has fuel, with a theorem that the length of the list is enough. What the network,
  a storage or the user answers is an argument, one value per call.

  \<^bold>\<open>Parameters.\<close> Code outside the repository is an argument: address checks and message recovery
  (viem), Ed25519 (noble), base58 (multiformats), SHA-256, Unicode normalisation, the date and
  URL parsers, multiaddr conversion. Theorems that need a law of theirs name it as a hypothesis (\<open>evm_lib_ok\<close>, an honest
  signer, 32-byte digests) and have a witness with a concrete instance.

  \<^bold>\<open>Not modelled.\<close> HTTP clients, browser and Node facades, the WASM bindings, schema declarations
  interpreted by a library, generated bundles, command-line and server packages, documentation
  and applications: they perform I/O around the functions above. The messages of errors are kept
  where the code builds them from data that a caller can observe.
\<close>

end
